(* ===== verification/Prelude.thy ===== *)
theory Prelude
  imports Complex_Main "HOL-Library.AList" "HOL-Library.List_Lexorder" "HOL-Library.Char_ord"
    "HOL-Library.Product_Lexorder" "HOL-Library.Sublist" "HOL-Library.Multiset"
begin

text \<open>
  The shared ground of the development: the JavaScript values every component uses (numbers,
  instants, insertion-ordered maps and sets, stable sorting), the generic lemmas about them and
  the two interfaces that recur in all components, a step function with an invariant and a
  merge of keyed records.

  Numbers are exact rationals (rounding of doubles is not modelled), characters are code units
  below 256, and an instant is an ISO string read through Date.parse.
\<close>

named_theorems js_simps \<open>evaluation of the JavaScript containers\<close>
named_theorems preserved \<open>operations that keep a component's invariant\<close>

section \<open>Numbers\<close>

text \<open>A number as it can arrive from admin input: NaN and the infinities are values.\<close>

datatype jsnum = Num rat | Pos_Inf | Neg_Inf | Not_A_Number

definition js_trunc :: "rat \<Rightarrow> int" where
  "js_trunc x = (if x < 0 then - \<lfloor>- x\<rfloor> else \<lfloor>x\<rfloor>)"

definition js_round :: "rat \<Rightarrow> int" where
  "js_round x = \<lfloor>x + 1 / 2\<rfloor>"

lemma js_trunc_of_int [simp]: "js_trunc (of_int k) = k"
  by (simp add: js_trunc_def flip: of_int_minus)

lemma js_round_of_int [simp]: "js_round (of_int k) = k"
  by (simp add: js_round_def floor_eq_iff)

lemma js_round_mono: "x \<le> y \<Longrightarrow> js_round x \<le> js_round y"
  by (simp add: js_round_def floor_mono)

section \<open>Instants\<close>

text \<open>
  Every stored timestamp is an ISO string; the code only parses it, compares it or uses it as a
  key. \<open>Stamp ms\<close> is a string that Date.parse reads as \<open>ms\<close>, \<open>Bad_Stamp s\<close> one it cannot read.
\<close>

datatype stamp = Stamp int | Bad_Stamp string

fun parse_ms :: "stamp \<Rightarrow> int option" where
  "parse_ms (Stamp ms) = Some ms"
| "parse_ms (Bad_Stamp s) = None"

text \<open>\<open>new Date(ms).toISOString()\<close>: a fractional millisecond is cut off.\<close>

definition iso :: "rat \<Rightarrow> stamp" where
  "iso ms = Stamp (js_trunc ms)"

lemma parse_iso [simp]: "parse_ms (iso ms) = Some (js_trunc ms)"
  by (simp add: iso_def)

section \<open>Insertion-ordered maps and sets\<close>

text \<open>
  A JavaScript Map keeps insertion order, and setting an existing key keeps its place: this is
  \<open>AList.update\<close>. A Set is a list without repetition, in insertion order.
\<close>

abbreviation om_set :: "'k \<Rightarrow> 'v \<Rightarrow> ('k \<times> 'v) list \<Rightarrow> ('k \<times> 'v) list" where
  "om_set \<equiv> AList.update"

abbreviation om_del :: "'k \<Rightarrow> ('k \<times> 'v) list \<Rightarrow> ('k \<times> 'v) list" where
  "om_del \<equiv> AList.delete"

abbreviation om_get :: "('k \<times> 'v) list \<Rightarrow> 'k \<Rightarrow> 'v option" where
  "om_get \<equiv> map_of"

definition om_values :: "('k \<times> 'v) list \<Rightarrow> 'v list" where
  "om_values m = map snd m"

definition set_add :: "'a list \<Rightarrow> 'a \<Rightarrow> 'a list" where
  "set_add xs x = (if x \<in> set xs then xs else xs @ [x])"

definition set_union :: "'a list \<Rightarrow> 'a list \<Rightarrow> 'a list" where
  "set_union xs ys = foldl set_add xs ys"

text \<open>\<open>[...new Set(xs)]\<close>\<close>

definition uniq :: "'a list \<Rightarrow> 'a list" where
  "uniq xs = set_union [] xs"

text \<open>\<open>{ ...a, ...b }\<close> on objects.\<close>

definition object_assign :: "('k \<times> 'v) list \<Rightarrow> ('k \<times> 'v) list \<Rightarrow> ('k \<times> 'v) list" where
  "object_assign a b = foldl (\<lambda>m (k, v). om_set k v m) a b"

lemma set_set_add [simp]: "set (set_add xs x) = insert x (set xs)"
  by (auto simp: set_add_def)

lemma distinct_set_add [simp]: "distinct (set_add xs x) = distinct xs"
  by (auto simp: set_add_def)

lemma set_add_absorb [simp]: "x \<in> set xs \<Longrightarrow> set_add xs x = xs"
  by (simp add: set_add_def)

lemma set_union_simps [simp]:
  "set_union xs [] = xs"
  "set_union xs (y # ys) = set_union (set_add xs y) ys"
  by (simp_all add: set_union_def)

lemma set_set_union [simp]: "set (set_union xs ys) = set xs \<union> set ys"
  by (induction ys arbitrary: xs) auto

lemma distinct_set_union [simp]: "distinct (set_union xs ys) = distinct xs"
  by (induction ys arbitrary: xs) auto

lemma set_union_absorb: "set ys \<subseteq> set xs \<Longrightarrow> set_union xs ys = xs"
  by (induction ys) auto

lemma set_union_append: "set_union xs (ys @ zs) = set_union (set_union xs ys) zs"
  by (simp add: set_union_def)

lemma prefix_set_union: "prefix xs (set_union xs ys)"
proof (induction ys arbitrary: xs)
  case (Cons y ys)
  have "prefix xs (set_add xs y)" by (simp add: set_add_def)
  then show ?case using Cons.IH prefix_order.order_trans by fastforce
qed simp

lemma set_uniq [simp]: "set (uniq xs) = set xs"
  by (simp add: uniq_def)

lemma distinct_uniq [simp]: "distinct (uniq xs)"
  by (simp add: uniq_def)

lemma set_union_distinct:
  "distinct (xs @ ys) \<Longrightarrow> set_union xs ys = xs @ ys"
proof (induction ys arbitrary: xs)
  case (Cons y ys)
  then have "set_add xs y = xs @ [y]" by (simp add: set_add_def)
  with Cons show ?case by simp
qed simp

lemma uniq_distinct [simp]: "distinct xs \<Longrightarrow> uniq xs = xs"
  by (simp add: uniq_def set_union_distinct)

lemma map_fst_om_set [simp]: "map fst (om_set k v m) = set_add (map fst m) k"
  by (induction m) (auto simp: set_add_def)

lemma distinct_om_set [simp]: "distinct (map fst m) \<Longrightarrow> distinct (map fst (om_set k v m))"
  by (simp add: distinct_update)

lemma om_set_fresh: "k \<notin> fst ` set m \<Longrightarrow> om_set k v m = m @ [(k, v)]"
  by (induction m) auto

lemma keys_object_assign: "map fst (object_assign a b) = set_union (map fst a) (map fst b)"
  by (induction b arbitrary: a) (auto simp: object_assign_def)

lemma om_get_object_assign: "om_get (object_assign a b) = om_get a ++ om_get (rev b)"
  unfolding object_assign_def
proof (induction b arbitrary: a)
  case (Cons x b)
  show ?case using Cons.IH [of "om_set (fst x) (snd x) a"]
    by (cases x) (simp add: update_conv' map_add_assoc fun_upd_def [symmetric])
qed simp

lemma map_add_absorb_self: "m ++ m = m"
  by (simp add: fun_eq_iff map_add_def split: option.splits)

text \<open>A map without repeated keys is determined by its key order and its lookups.\<close>

lemma om_eqI:
  assumes "map fst a = map fst b" and "distinct (map fst a)" and "om_get a = om_get b"
  shows "a = b"
  using assms
proof (induction a arbitrary: b)
  case (Cons x a)
  then obtain y b' where b: "b = y # b'" by (cases b) auto
  with Cons.prems(1) have keys: "fst x = fst y" "map fst a = map fst b'" by auto
  with fun_cong [OF Cons.prems(3), of "fst x"] b have "snd x = snd y"
    by (cases x; cases y) auto
  moreover have "om_get a = om_get b'"
  proof
    fix k
    show "om_get a k = om_get b' k"
    proof (cases "k = fst x")
      case True
      then have "k \<notin> set (map fst a)" "k \<notin> set (map fst b')" using Cons.prems(2) keys by auto
      then have "om_get a k = None" "om_get b' k = None" by (simp_all add: map_of_eq_None_iff)
      then show ?thesis by simp
    next
      case False
      then show ?thesis using fun_cong [OF Cons.prems(3), of k] b keys(1) by simp
    qed
  qed
  ultimately show ?case using Cons.IH [of b'] Cons.prems(2) keys b
    by (simp add: prod_eq_iff)
qed simp

lemma object_assign_absorb:
  assumes "distinct (map fst a)"
  shows "object_assign (object_assign a b) b = object_assign a b"
proof (rule om_eqI)
  show "map fst (object_assign (object_assign a b) b) = map fst (object_assign a b)"
    by (simp add: keys_object_assign set_union_absorb)
  then show "distinct (map fst (object_assign (object_assign a b) b))"
    using assms by (simp add: keys_object_assign)
  show "om_get (object_assign (object_assign a b) b) = om_get (object_assign a b)"
    by (simp add: om_get_object_assign map_add_assoc [symmetric] map_add_absorb_self)
qed

section \<open>Lists\<close>

text \<open>\<open>findIndex\<close> and \<open>find\<close>: the first position that satisfies the predicate.\<close>

fun find_index :: "('a \<Rightarrow> bool) \<Rightarrow> 'a list \<Rightarrow> nat option" where
  "find_index p [] = None"
| "find_index p (x # xs) = (if p x then Some 0 else map_option Suc (find_index p xs))"

lemma find_index_None: "find_index p xs = None \<longleftrightarrow> (\<forall>x\<in>set xs. \<not> p x)"
  by (induction xs) auto

lemma find_index_Some:
  "find_index p xs = Some i \<Longrightarrow> i < length xs \<and> p (xs ! i) \<and> (\<forall>j<i. \<not> p (xs ! j))"
proof (induction xs arbitrary: i)
  case (Cons x xs)
  show ?case
  proof (cases "p x")
    case True
    with Cons.prems show ?thesis by simp
  next
    case False
    with Cons.prems obtain j where "find_index p xs = Some j" "i = Suc j" by auto
    with Cons.IH False show ?thesis by (auto simp: less_Suc_eq_0_disj)
  qed
qed simp

text \<open>
  \<open>findIndex\<close> followed by an assignment or a push: replace the first element with the same key,
  else append.
\<close>

fun replace_or_push :: "('a \<Rightarrow> 'k) \<Rightarrow> 'a list \<Rightarrow> 'a \<Rightarrow> 'a list" where
  "replace_or_push key [] y = [y]"
| "replace_or_push key (x # xs) y =
     (if key x = key y then y # xs else x # replace_or_push key xs y)"

lemma keys_replace_or_push [simp]:
  "map key (replace_or_push key xs y) = set_add (map key xs) (key y)"
  by (induction xs) (auto simp: set_add_def)

lemma set_replace_or_push:
  "x \<in> set (replace_or_push key xs y) \<Longrightarrow> x = y \<or> x \<in> set xs"
  by (induction xs) (auto split: if_splits)

lemma push_in_replace_or_push: "y \<in> set (replace_or_push key xs y)"
  by (induction xs) auto

text \<open>\<open>if (xs.some(x => x.key === y.key)) return; xs.push(y)\<close>\<close>

definition push_new :: "('a \<Rightarrow> 'k) \<Rightarrow> 'a list \<Rightarrow> 'a \<Rightarrow> 'a list" where
  "push_new key xs y = (if key y \<in> key ` set xs then xs else xs @ [y])"

lemma keys_push_new [simp]: "map key (push_new key xs y) = set_add (map key xs) (key y)"
  by (auto simp: push_new_def set_add_def)

lemma prefix_push_new: "prefix xs (push_new key xs y)"
  by (simp add: push_new_def)

lemma find_map_update:
  "(\<And>x. p (f x) = p x) \<Longrightarrow> find p (map (\<lambda>x. if p x then f x else x) xs) = map_option f (find p xs)"
  by (induction xs) auto

lemma find_snoc:
  "find p (xs @ [x]) = (case find p xs of None \<Rightarrow> if p x then Some x else None | Some y \<Rightarrow> Some y)"
  by (induction xs) auto

text \<open>\<open>const x = xs.find(p); if (x) mutate(x)\<close>\<close>

fun update_first :: "('a \<Rightarrow> bool) \<Rightarrow> ('a \<Rightarrow> 'a) \<Rightarrow> 'a list \<Rightarrow> 'a list" where
  "update_first p f [] = []"
| "update_first p f (x # xs) = (if p x then f x # xs else x # update_first p f xs)"

lemma update_first_absent: "\<not> list_ex p xs \<Longrightarrow> update_first p f xs = xs"
  by (induction xs) auto

text \<open>Where a key finds one element, changing the first is changing all that match.\<close>

lemma update_first_map:
  assumes "distinct (map key xs)"
  shows "update_first (\<lambda>x. key x = k) f xs = map (\<lambda>x. if key x = k then f x else x) xs"
  using assms
proof (induction xs)
  case (Cons x xs)
  show ?case
  proof (cases "key x = k")
    case True
    have "y \<in> set xs \<Longrightarrow> key y \<noteq> k" for y
      using Cons.prems True by (metis distinct.simps(2) image_eqI list.set_map list.simps(9))
    then have "map (\<lambda>x. if key x = k then f x else x) xs = xs"
      by (intro map_idI) simp
    with True show ?thesis by simp
  next
    case False
    with Cons show ?thesis by simp
  qed
qed simp

text \<open>
  Rows of a table before and after a write: rows keep their places and only change as \<open>P\<close>
  allows, new rows come after them.
\<close>

definition rows_below :: "('a \<Rightarrow> 'a \<Rightarrow> bool) \<Rightarrow> 'a list \<Rightarrow> 'a list \<Rightarrow> bool" where
  "rows_below P xs ys = (length xs \<le> length ys \<and> list_all2 P xs (take (length xs) ys))"

lemma rows_below_append: "(\<And>x. x \<in> set xs \<Longrightarrow> P x x) \<Longrightarrow> rows_below P xs (xs @ ys)"
  by (simp add: rows_below_def list_all2_same)

lemma rows_below_refl: "(\<And>x. x \<in> set xs \<Longrightarrow> P x x) \<Longrightarrow> rows_below P xs xs"
  using rows_below_append [of xs P "[]"] by simp

lemma rows_below_map: "(\<And>x. x \<in> set xs \<Longrightarrow> P x (f x)) \<Longrightarrow> rows_below P xs (map f xs)"
  by (simp add: rows_below_def list_all2_conv_all_nth)

lemma rows_below_trans:
  assumes "rows_below P xs ys" and "rows_below P ys zs"
    and "\<And>a b c. P a b \<Longrightarrow> P b c \<Longrightarrow> P a c"
  shows "rows_below P xs zs"
  unfolding rows_below_def list_all2_conv_all_nth
proof (intro conjI allI impI)
  show "length xs \<le> length zs" using assms by (simp add: rows_below_def)
  then show "length xs = length (take (length xs) zs)" by simp
  fix i assume i: "i < length xs"
  then have "P (xs ! i) (ys ! i)" "i < length ys"
    using assms(1) by (auto simp: rows_below_def list_all2_conv_all_nth)
  moreover from this have "P (ys ! i) (zs ! i)"
    using assms(2) by (auto simp: rows_below_def list_all2_conv_all_nth)
  ultimately show "P (xs ! i) (take (length xs) zs ! i)"
    using i by (auto intro: assms(3))
qed

lemma rows_below_in:
  assumes "rows_below P xs ys" and "x \<in> set xs"
  shows "\<exists>y\<in>set ys. P x y"
proof -
  from assms(2) obtain i where "i < length xs" "xs ! i = x" by (auto simp: in_set_conv_nth)
  with assms(1) have "P x (ys ! i)" "i < length ys"
    by (auto simp: rows_below_def list_all2_conv_all_nth)
  then show ?thesis by auto
qed

lemma sum_list_nonneg_rat: "(\<And>x. x \<in> set xs \<Longrightarrow> 0 \<le> f x) \<Longrightarrow> (0 :: rat) \<le> sum_list (map f xs)"
  by (rule sum_list_nonneg) auto

lemma member_le_sum_list_rat:
  fixes f :: "'a \<Rightarrow> rat"
  assumes "x \<in> set xs" and "\<And>y. y \<in> set xs \<Longrightarrow> 0 \<le> f y"
  shows "f x \<le> sum_list (map f xs)"
  using assms
proof (induction xs)
  case (Cons y ys)
  have "0 \<le> f y" "0 \<le> sum_list (map f ys)"
    using Cons.prems by (auto intro: sum_list_nonneg_rat)
  with Cons show ?case by fastforce
qed simp

section \<open>Stable sorting\<close>

text \<open>\<open>Array.prototype.sort\<close> is stable; a comparator on keys is \<open>sort_key\<close>.\<close>

lemma sort_key_hd_le:
  assumes "sort_key f xs = y # ys" and "x \<in> set xs"
  shows "f y \<le> f x"
proof -
  have "sorted (map f (y # ys))" using assms(1) sorted_sort_key[of f xs] by simp
  moreover have "x \<in> set (y # ys)" using assms set_sort[of f xs] by simp
  ultimately show ?thesis by auto
qed

lemma sort_key_eq_Nil [simp]: "sort_key f xs = [] \<longleftrightarrow> xs = []"
  by (metis length_0_conv length_sort)

text \<open>
  A sort by a comparator: an element is placed behind every element that does not come after it.
  Where the comparator compares keys, this is the stable sort by the key.
\<close>

fun js_insert :: "('a \<Rightarrow> 'a \<Rightarrow> int) \<Rightarrow> 'a \<Rightarrow> 'a list \<Rightarrow> 'a list" where
  "js_insert cmp x [] = [x]"
| "js_insert cmp x (y # ys) = (if cmp y x \<le> 0 then y # js_insert cmp x ys else x # y # ys)"

definition js_sort :: "('a \<Rightarrow> 'a \<Rightarrow> int) \<Rightarrow> 'a list \<Rightarrow> 'a list" where
  "js_sort cmp xs = foldl (\<lambda>acc x. js_insert cmp x acc) [] xs"

lemma mset_js_insert [simp]: "mset (js_insert cmp x xs) = add_mset x (mset xs)"
  by (induction xs) auto

lemma mset_js_sort [simp]: "mset (js_sort cmp xs) = mset xs"
proof -
  have "mset (foldl (\<lambda>acc x. js_insert cmp x acc) acc xs) = mset acc + mset xs" for acc
    by (induction xs arbitrary: acc) auto
  then show ?thesis by (simp add: js_sort_def)
qed

lemma set_js_sort [simp]: "set (js_sort cmp xs) = set xs"
  by (rule mset_eq_setD) simp

lemma js_sort_key:
  fixes key :: "'a \<Rightarrow> 'k :: linorder"
  assumes cmp: "\<And>a b. cmp a b \<le> 0 \<longleftrightarrow> key a \<le> key b"
  shows "js_sort cmp xs = sort_key key xs"
proof (induction xs rule: rev_induct)
  case (snoc x xs)
  have keep: "sorted (map key ys) \<Longrightarrow> sorted (map key (js_insert cmp x ys)) \<and>
      filter (\<lambda>y. key z = key y) (js_insert cmp x ys) =
        filter (\<lambda>y. key z = key y) ys @ (if key z = key x then [x] else [])" for z ys
  proof (induction ys)
    case (Cons y ys)
    have members: "set (js_insert cmp x ys) = insert x (set ys)"
      using mset_eq_setD [of "js_insert cmp x ys" "x # ys"] by simp
    show ?case
    proof (cases "key y \<le> key x")
      case True
      with Cons show ?thesis by (auto simp: cmp members)
    next
      case False
      then have none: "filter (\<lambda>v. key x = key v) (y # ys) = []"
        using Cons.prems by (fastforce simp: filter_empty_conv)
      from False Cons.prems have "sorted (map key (x # y # ys))" by auto
      with False none show ?thesis by (cases "key z = key x") (simp_all add: cmp)
    qed
  qed simp
  have stable: "filter (\<lambda>y. key k = key y) (sort_key key xs) = filter (\<lambda>y. key k = key y) xs" for k
  proof -
    have "(\<lambda>y. key k = key y) = (\<lambda>y. key y = key k)" by auto
    then show ?thesis by (simp add: sort_key_stable)
  qed
  have "sort_key key (xs @ [x]) = js_insert cmp x (sort_key key xs)"
    by (rule properties_for_sort_key) (simp_all add: keep stable)
  with snoc show ?case by (simp add: js_sort_def)
qed (simp add: js_sort_def)

section \<open>Interfaces\<close>

text \<open>
  A component as a step function with an invariant: whatever every operation keeps, every
  sequence of operations keeps.
\<close>

locale stepper =
  fixes step :: "'s \<Rightarrow> 'e \<Rightarrow> 's" and inv :: "'s \<Rightarrow> bool"
  assumes step_inv: "inv s \<Longrightarrow> inv (step s e)"
begin

lemma run_inv: "inv s \<Longrightarrow> inv (foldl step s es)"
  by (induction es arbitrary: s) (auto simp: step_inv)

end

text \<open>A step function under which a quantity of the state never shrinks.\<close>

locale monotone_stepper = stepper +
  fixes below :: "'s \<Rightarrow> 's \<Rightarrow> bool"
  assumes below_refl: "below s s"
    and below_trans: "below s t \<Longrightarrow> below t u \<Longrightarrow> below s u"
    and step_below: "inv s \<Longrightarrow> below s (step s e)"
begin

lemma run_below: "inv s \<Longrightarrow> below s (foldl step s es)"
proof (induction es arbitrary: s)
  case Nil
  show ?case by (simp add: below_refl)
next
  case (Cons e es)
  then have "below s (step s e)" and "below (step s e) (foldl step (step s e) es)"
    by (auto simp: step_below step_inv)
  then show ?case by (auto intro: below_trans)
qed

end

lemma find_SomeD: "find p xs = Some x \<Longrightarrow> p x \<and> x \<in> set xs"
  by (auto simp: find_Some_iff)

text \<open>
  A merge of keyed records: it never loses a key, never makes one up, keeps keys unique, and
  delivering the same batch again changes nothing.
\<close>

locale keyed_merge =
  fixes merge :: "'a list \<Rightarrow> 'a list \<Rightarrow> 'a list" and key :: "'a \<Rightarrow> 'k"
  assumes merge_keys: "key ` set (merge xs ys) = key ` set xs \<union> key ` set ys"
    and merge_distinct: "distinct (map key xs) \<Longrightarrow> distinct (map key (merge xs ys))"
    and merge_absorb: "distinct (map key xs) \<Longrightarrow> distinct (map key ys) \<Longrightarrow>
      merge (merge xs ys) ys = merge xs ys"
begin

lemma merge_all_keys:
  "key ` set (foldl merge xs yss) = key ` set xs \<union> (\<Union>ys\<in>set yss. key ` set ys)"
  by (induction yss arbitrary: xs) (auto simp: merge_keys)

lemma merge_all_distinct:
  "distinct (map key xs) \<Longrightarrow> distinct (map key (foldl merge xs yss))"
  by (induction yss arbitrary: xs) (auto simp: merge_distinct)

lemma merge_redelivered:
  "distinct (map key xs) \<Longrightarrow> distinct (map key ys) \<Longrightarrow>
     foldl merge (merge xs ys) (replicate n ys) = merge xs ys"
  by (induction n) (auto simp: merge_absorb)

end

end
