(* ===== verification/Shared_Text.thy ===== *)
theory Shared_Text
  imports Prelude
begin

text \<open>
  packages/shared/src/text.ts and identity.ts: word counting and clock formatting used by the
  live split and by the exports, and the anonymous colour identities of the participants.
\<close>

section \<open>Characters and strings\<close>

text \<open>JavaScript white space among the code units below 256 (\<open>\s\<close> and \<open>trim\<close>).\<close>

definition is_space :: "char \<Rightarrow> bool" where
  "is_space c = (let n = of_char c :: nat in n \<in> {9, 10, 11, 12, 13, 32, 160})"

definition js_trim :: "string \<Rightarrow> string" where
  "js_trim s = rev (dropWhile is_space (rev (dropWhile is_space s)))"

text \<open>ASCII case folding, all that the \<open>i\<close> flag of the patterns below needs.\<close>

definition lower_char :: "char \<Rightarrow> char" where
  "lower_char c =
     (let n = of_char c :: nat in if 65 \<le> n \<and> n \<le> 90 then char_of (n + 32) else c)"

definition lower_ascii :: "string \<Rightarrow> string" where
  "lower_ascii s = map lower_char s"

text \<open>\<open>s.split(/\s+/)\<close>: cut at every maximal run of white space.\<close>

function split_spaces :: "string \<Rightarrow> string list" where
  "split_spaces s =
     (let w = takeWhile (\<lambda>c. \<not> is_space c) s; r = dropWhile (\<lambda>c. \<not> is_space c) s
      in if r = [] then [w] else w # split_spaces (dropWhile is_space r))"
  by pat_completeness auto
termination
proof (relation "measure length", goal_cases)
  case (2 s w r)
  from \<open>r \<noteq> []\<close> obtain c cs where r: "r = c # cs" by (meson list.exhaust)
  with 2 have "is_space c" by (metis (mono_tags, lifting) hd_dropWhile list.sel(1))
  with r have "length (dropWhile is_space r) < length r"
    by (simp add: length_dropWhile_le le_imp_less_Suc)
  with 2 show ?case
    by (simp add: order_less_le_trans length_dropWhile_le)
qed simp

declare split_spaces.simps [simp del]

section \<open>text.ts\<close>

definition countWords :: "string \<Rightarrow> nat" where
  "countWords t = length (filter (\<lambda>w. w \<noteq> []) (split_spaces (js_trim t)))"

text \<open>The reference: how many times the text enters a word (\<open>b\<close>: just after white space).\<close>

fun word_starts :: "bool \<Rightarrow> string \<Rightarrow> nat" where
  "word_starts b [] = 0"
| "word_starts b (c # cs) =
     (if is_space c then word_starts True cs
      else (if b then 1 else 0) + word_starts False cs)"

text \<open>Decimal digits of a natural number, \<open>String(n)\<close>.\<close>

fun show_nat :: "nat \<Rightarrow> string" where
  "show_nat n =
     (if n < 10 then [char_of (48 + n)] else show_nat (n div 10) @ [char_of (48 + n mod 10)])"

declare show_nat.simps [simp del]

definition show_int :: "int \<Rightarrow> string" where
  "show_int k = (if k < 0 then ''-'' @ show_nat (nat (- k)) else show_nat (nat k))"

text \<open>\<open>xs.join(sep)\<close>\<close>

definition join :: "string \<Rightarrow> string list \<Rightarrow> string" where
  "join sep xs = (case xs of [] \<Rightarrow> [] | y # ys \<Rightarrow> y @ concat (map (\<lambda>x. sep @ x) ys))"

definition newline :: string where "newline = [CHR 10]"
definition quote :: string where "quote = [CHR 34]"

text \<open>
  \<open>localeCompare\<close> on strings of ASCII letters and digits, as a sort key: letters compare without
  their case first, and a lower-case letter goes before its upper-case one on a tie.
\<close>

definition swap_char :: "char \<Rightarrow> char" where
  "swap_char c =
     (let n = of_char c :: nat in
      if 65 \<le> n \<and> n \<le> 90 then char_of (n + 32)
      else if 97 \<le> n \<and> n \<le> 122 then char_of (n - 32) else c)"

definition locale_key :: "string \<Rightarrow> string \<times> string" where
  "locale_key s = (lower_ascii s, map swap_char s)"

definition padStart2 :: "string \<Rightarrow> string" where
  "padStart2 s = replicate (2 - length s) (CHR ''0'') @ s"

definition formatMmSs :: "rat \<Rightarrow> string" where
  "formatMmSs totalSeconds =
     (let seconds = nat (max 0 \<lfloor>totalSeconds\<rfloor>)
      in show_nat (seconds div 60) @ '':'' @ padStart2 (show_nat (seconds mod 60)))"

definition TEST_CONDITION_PREFIX :: string where
  "TEST_CONDITION_PREFIX = ''e2e-''"

definition isTestCondition :: "string \<Rightarrow> bool" where
  "isTestCondition conditionId = prefix TEST_CONDITION_PREFIX conditionId"

section \<open>identity.ts\<close>

record identity =
  id_name :: string
  id_color :: string

definition PARTICIPANT_PALETTE :: "identity list" where
  "PARTICIPANT_PALETTE =
    [\<lparr>id_name = ''Red'', id_color = ''#e03131''\<rparr>,
     \<lparr>id_name = ''Blue'', id_color = ''#1c7ed6''\<rparr>,
     \<lparr>id_name = ''Green'', id_color = ''#2f9e44''\<rparr>,
     \<lparr>id_name = ''Yellow'', id_color = ''#f08c00''\<rparr>,
     \<lparr>id_name = ''Purple'', id_color = ''#7048e8''\<rparr>,
     \<lparr>id_name = ''Teal'', id_color = ''#0ca678''\<rparr>,
     \<lparr>id_name = ''Pink'', id_color = ''#d6336c''\<rparr>,
     \<lparr>id_name = ''Cyan'', id_color = ''#1098ad''\<rparr>,
     \<lparr>id_name = ''Magenta'', id_color = ''#ae3ec9''\<rparr>,
     \<lparr>id_name = ''Gray'', id_color = ''#868e96''\<rparr>]"

definition FALLBACK_IDENTITY :: identity where
  "FALLBACK_IDENTITY = \<lparr>id_name = ''Gray'', id_color = ''#868e96''\<rparr>"

text \<open>\<open>/_bot[:_]/i\<close>\<close>

definition isBot :: "string \<Rightarrow> bool" where
  "isBot userId =
     (sublist ''_bot:'' (lower_ascii userId) \<or> sublist ''_bot_'' (lower_ascii userId))"

definition isServiceUser :: "string \<Rightarrow> bool" where
  "isServiceUser userId = (sublist ''orchestrator'' (lower_ascii userId) \<or> isBot userId)"

definition buildIdentities :: "string list \<Rightarrow> (string \<times> identity) list" where
  "buildIdentities memberIds =
     (let sorted = sort (filter (\<lambda>i. \<not> isServiceUser i) memberIds)
      in foldl (\<lambda>m (i, uid). om_set uid (PARTICIPANT_PALETTE ! (i mod length PARTICIPANT_PALETTE)) m)
           [] (List.enumerate 0 sorted))"

definition identityFor :: "(string \<times> identity) list \<Rightarrow> string \<Rightarrow> identity" where
  "identityFor identities userId =
     (case om_get identities userId of None \<Rightarrow> FALLBACK_IDENTITY | Some i \<Rightarrow> i)"

section \<open>Lemmas: word counting\<close>

lemma length_filter_split_spaces:
  "length (filter (\<lambda>w. w \<noteq> []) (split_spaces s)) = word_starts True s"
proof (induction s rule: split_spaces.induct)
  case (1 s)
  define w where "w = takeWhile (\<lambda>c. \<not> is_space c) s"
  define r where "r = dropWhile (\<lambda>c. \<not> is_space c) s"
  have s: "s = w @ r" by (simp add: w_def r_def)
  have unfold: "split_spaces s = (if r = [] then [w] else w # split_spaces (dropWhile is_space r))"
    unfolding w_def r_def by (subst split_spaces.simps) (simp only: Let_def)
  have in_word: "word_starts False (u @ v) = word_starts False v"
    if "\<forall>c\<in>set u. \<not> is_space c" for u v
    using that by (induction u) auto
  have w_plain: "\<forall>c\<in>set w. \<not> is_space c" unfolding w_def by (auto dest: set_takeWhileD)
  have skip: "word_starts True (dropWhile is_space u) = word_starts b u"
    if "u \<noteq> []" "is_space (hd u)" for u b
  proof -
    have skip_True: "word_starts True (dropWhile is_space v) = word_starts True v" for v
      by (induction v) auto
    from that show ?thesis by (cases u) (auto simp: skip_True)
  qed
  show ?case
  proof (cases "r = []")
    case True
    have "word_starts True w = (if w = [] then 0 else 1)"
      using w_plain in_word[of w "[]"] by (cases w) (auto dest!: in_word[of _ "[]", simplified])
    moreover have "split_spaces s = [w]"
      using True unfold by simp
    ultimately show ?thesis using True s by simp
  next
    case False
    then have "is_space (hd r)" unfolding r_def using hd_dropWhile by blast
    with False have sk: "word_starts True (dropWhile is_space r) = word_starts b r" for b
      by (rule skip)
    have "word_starts True s = (if w = [] then 0 else 1) + word_starts True (dropWhile is_space r)"
      using s w_plain in_word sk[of False] sk[of True] by (cases w) auto
    moreover have "length (filter (\<lambda>w. w \<noteq> []) (split_spaces (dropWhile is_space r))) =
        word_starts True (dropWhile is_space r)"
      using 1[OF w_def r_def False] .
    moreover have "split_spaces s = w # split_spaces (dropWhile is_space r)"
      using False unfold by simp
    ultimately show ?thesis by simp
  qed
qed

lemma word_starts_dropWhile: "word_starts True (dropWhile is_space s) = word_starts True s"
  by (induction s) auto

lemma word_starts_spaces: "\<forall>c\<in>set u. is_space c \<Longrightarrow> word_starts b u = 0"
  by (induction u arbitrary: b) auto

lemma word_starts_append:
  "word_starts b (s @ t) =
     word_starts b s + word_starts (if s = [] then b else is_space (last s)) t"
  by (induction s arbitrary: b) auto

lemma word_starts_trim_right:
  "word_starts b (rev (dropWhile is_space (rev s))) = word_starts b s"
proof -
  let ?k = "takeWhile is_space (rev s)"
  have "s = rev (?k @ dropWhile is_space (rev s))" by simp
  then have s: "s = rev (dropWhile is_space (rev s)) @ rev ?k" by (simp del: takeWhile_dropWhile_id)
  have "\<forall>c\<in>set (rev ?k). is_space c" by (auto dest: set_takeWhileD)
  then show ?thesis
    by (subst (2) s) (simp add: word_starts_append word_starts_spaces)
qed

text \<open>word counting. The trimmed, split and filtered text has exactly as many pieces as the
  text has positions at which a word begins.\<close>

theorem countWords_word_starts: "countWords t = word_starts True t"
  by (simp add: countWords_def js_trim_def length_filter_split_spaces word_starts_trim_right
      word_starts_dropWhile)

section \<open>Lemmas: identities\<close>

lemma length_palette [simp]: "length PARTICIPANT_PALETTE = 10"
  by (simp add: PARTICIPANT_PALETTE_def)

lemma palette_names_distinct: "distinct (map id_name PARTICIPANT_PALETTE)"
  by (simp add: PARTICIPANT_PALETTE_def)

lemma identities_of_distinct:
  assumes "distinct xs" and "\<forall>x\<in>set xs. x \<notin> fst ` set m"
  shows "foldl (\<lambda>m (i, uid). om_set uid (f i) m) m (List.enumerate k xs) =
           m @ map (\<lambda>(i, uid). (uid, f i)) (List.enumerate k xs)"
  using assms
proof (induction xs arbitrary: m k)
  case (Cons x xs)
  have new: "om_set x v m' = m' @ [(x, v)]" if "x \<notin> fst ` set m'" for v m'
    using that by (induction m') auto
  have "foldl (\<lambda>m (i, uid). om_set uid (f i) m) (m @ [(x, f k)]) (List.enumerate (Suc k) xs) =
      (m @ [(x, f k)]) @ map (\<lambda>(i, uid). (uid, f i)) (List.enumerate (Suc k) xs)"
    using Cons.prems by (intro Cons.IH) auto
  with Cons.prems show ?case by (simp add: new)
qed simp

lemma buildIdentities_distinct:
  assumes "distinct xs"
  shows "buildIdentities xs =
     map (\<lambda>(i, uid). (uid, PARTICIPANT_PALETTE ! (i mod 10)))
       (List.enumerate 0 (sort (filter (\<lambda>i. \<not> isServiceUser i) xs)))"
  using assms by (simp add: buildIdentities_def identities_of_distinct)

lemma identityFor_nth:
  assumes "distinct xs" and "sort (filter (\<lambda>i. \<not> isServiceUser i) xs) = ys" and "k < length ys"
  shows "identityFor (buildIdentities xs) (ys ! k) = PARTICIPANT_PALETTE ! (k mod 10)"
proof -
  let ?m = "map (\<lambda>(i, uid). (uid, PARTICIPANT_PALETTE ! (i mod 10))) (List.enumerate 0 ys)"
  have "map fst ?m = ys"
    by (simp add: comp_def case_prod_beta)
  moreover have "distinct ys" using assms(1,2) by (metis distinct_filter distinct_sort)
  ultimately have "distinct (map fst ?m)" by simp
  moreover have "(ys ! k, PARTICIPANT_PALETTE ! (k mod 10)) \<in> set ?m"
  proof -
    have "?m ! k = (ys ! k, PARTICIPANT_PALETTE ! (k mod 10))" and "k < length ?m"
      using assms(3) by (simp_all add: nth_enumerate_eq)
    then show ?thesis by (metis nth_mem)
  qed
  ultimately have "map_of ?m (ys ! k) = Some (PARTICIPANT_PALETTE ! (k mod 10))"
    by (rule map_of_is_SomeI)
  with assms(1,2) show ?thesis by (simp add: identityFor_def buildIdentities_distinct)
qed

text \<open>identities agree on every client. Two clients that see the same members in any order
  build the same assignment.\<close>

theorem buildIdentities_order_free:
  "mset xs = mset ys \<Longrightarrow> buildIdentities xs = buildIdentities ys"
proof -
  assume eq: "mset xs = mset ys"
  have "sort (filter (\<lambda>i. \<not> isServiceUser i) xs) = sort (filter (\<lambda>i. \<not> isServiceUser i) ys)"
    by (rule properties_for_sort) (simp_all add: eq)
  then show ?thesis by (simp only: buildIdentities_def Let_def)
qed

theorem buildIdentities_order_free_witness:
  "buildIdentities [''@b:x'', ''@a:x'', ''@study_bot:x''] =
   buildIdentities [''@study_bot:x'', ''@a:x'', ''@b:x'']"
  by (rule buildIdentities_order_free) simp

text \<open>anonymity without collisions. In a group of at most ten participants no two share a
  colour name.\<close>

theorem identityFor_inj:
  assumes "distinct xs" and "length (filter (\<lambda>i. \<not> isServiceUser i) xs) \<le> 10"
    and "u \<in> set xs" and "v \<in> set xs" and "\<not> isServiceUser u" and "\<not> isServiceUser v"
    and "id_name (identityFor (buildIdentities xs) u) = id_name (identityFor (buildIdentities xs) v)"
  shows "u = v"
proof -
  define ys where "ys = sort (filter (\<lambda>i. \<not> isServiceUser i) xs)"
  have "u \<in> set ys" "v \<in> set ys" and len: "length ys \<le> 10" using assms by (auto simp: ys_def)
  then obtain i j where ij: "u = ys ! i" "i < length ys" "v = ys ! j" "j < length ys"
    unfolding in_set_conv_nth by blast
  with len have ten: "i < 10" "j < 10" by simp_all
  then have "map id_name PARTICIPANT_PALETTE ! i = map id_name PARTICIPANT_PALETTE ! j"
    using assms(1,7) identityFor_nth[OF assms(1) ys_def[symmetric]] ij ten by simp
  then have "i = j"
    using palette_names_distinct ten nth_eq_iff_index_eq[of "map id_name PARTICIPANT_PALETTE" i j]
    by simp
  with ij show ?thesis by simp
qed

theorem identityFor_inj_witness:
  "id_name (identityFor (buildIdentities [''@b:x'', ''@a:x'']) ''@a:x'') \<noteq>
   id_name (identityFor (buildIdentities [''@b:x'', ''@a:x'']) ''@b:x'')"
proof
  let ?g = "[''@b:x'', ''@a:x'']"
  assume "id_name (identityFor (buildIdentities ?g) ''@a:x'') =
    id_name (identityFor (buildIdentities ?g) ''@b:x'')"
  moreover have p: "\<not> isServiceUser ''@a:x''" and q: "\<not> isServiceUser ''@b:x''" by code_simp+
  have d: "distinct ?g" and l: "length (filter (\<lambda>i. \<not> isServiceUser i) ?g) \<le> 10"
    and m: "''@a:x'' \<in> set ?g" "''@b:x'' \<in> set ?g"
    by (simp_all add: order_trans[OF length_filter_le])
  ultimately have "''@a:x'' = ''@b:x''" by (intro identityFor_inj[OF d l m p q])
  then show False by simp
qed

end
