(* ===== verification/Interventions.thy ===== *)
theory Interventions
  imports Shared_Text
begin

text \<open>
  packages/shared/src/interventions.ts: the delivery axis, the condition configuration and its
  defaults, the contribution split, the intervention log and the window record.

  A stored configuration may lack any field (\<open>raw_config\<close>); spreading it over the defaults gives
  a complete one (\<open>intervention_config\<close>). Both are generic in the type of their numbers: the bot
  works on finite ones, the condition form receives anything.
\<close>

datatype intervention_mode = Mode_Baseline | Mode_Public | Mode_Private
datatype audience = Aud_None | Aud_Public | Aud_Private
datatype workspace_mode = Ws_Ranking | Ws_External | Ws_Etherpad
datatype llm_mode = Llm_Off | Llm_Active

definition normalizeInterventionMode :: "string \<Rightarrow> intervention_mode" where
  "normalizeInterventionMode mode =
     (if mode = ''baseline'' then Mode_Baseline
      else if mode = ''public'' then Mode_Public
      else if mode = ''private'' then Mode_Private
      else if prefix ''private'' mode then Mode_Private
      else if prefix ''public'' mode then Mode_Public
      else Mode_Baseline)"

definition mode_name :: "intervention_mode \<Rightarrow> string" where
  "mode_name m = (case m of Mode_Baseline \<Rightarrow> ''baseline'' | Mode_Public \<Rightarrow> ''public''
     | Mode_Private \<Rightarrow> ''private'')"

section \<open>Configuration\<close>

record 'n score_weights =
  sw_messages :: 'n
  sw_words :: 'n

record 'n dominance_weights =
  dw_share :: 'n
  dw_meaningfulness :: 'n

record external_workspace =
  ew_embedUrl :: "string option"
  ew_title :: "string option"

record 'n intervention_config =
  workspaceMode :: workspace_mode
  externalWorkspace :: "external_workspace option"
  interventionMode :: intervention_mode
  contributionThreshold :: 'n
  protectedStartMinutes :: 'n
  protectedEndMinutes :: 'n
  contributionWindowMinutes :: 'n
  scoreWeights :: "'n score_weights"
  dominanceWeights :: "'n dominance_weights"
  llmMode :: llm_mode

record 'n raw_config =
  raw_workspaceMode :: "string option"
  raw_externalWorkspace :: "external_workspace option"
  raw_interventionMode :: "string option"
  raw_contributionThreshold :: "'n option"
  raw_protectedStartMinutes :: "'n option"
  raw_protectedEndMinutes :: "'n option"
  raw_contributionWindowMinutes :: "'n option"
  raw_scoreWeights :: "'n option \<times> 'n option"
  raw_dominanceWeights :: "'n option \<times> 'n option"
  raw_llmMode :: "llm_mode option"

definition default_config :: "(rat \<Rightarrow> 'n) \<Rightarrow> 'n intervention_config" where
  "default_config num =
    \<lparr>workspaceMode = Ws_Ranking, externalWorkspace = None, interventionMode = Mode_Public,
     contributionThreshold = num (4 / 10), protectedStartMinutes = num 3,
     protectedEndMinutes = num 2, contributionWindowMinutes = num 4,
     scoreWeights = \<lparr>sw_messages = num 1, sw_words = num (5 / 100)\<rparr>,
     dominanceWeights = \<lparr>dw_share = num (9 / 10), dw_meaningfulness = num (1 / 10)\<rparr>,
     llmMode = Llm_Off\<rparr>"

definition DEFAULT_INTERVENTION_CONFIG :: "rat intervention_config" where
  "DEFAULT_INTERVENTION_CONFIG = default_config (\<lambda>x. x)"

text \<open>\<open>a ?? b\<close>\<close>

definition orelse :: "'a option \<Rightarrow> 'a \<Rightarrow> 'a" where
  "orelse a b = (case a of None \<Rightarrow> b | Some x \<Rightarrow> x)"

lemma orelse_simps [simp]: "orelse None b = b" "orelse (Some x) b = x"
  by (simp_all add: orelse_def)

text \<open>\<open>workspaceMode === "etherpad" ? ... : === "external" ? ... : "ranking"\<close>\<close>

definition normalizeWorkspaceMode :: "string option \<Rightarrow> workspace_mode" where
  "normalizeWorkspaceMode m =
     (if m = Some ''etherpad'' then Ws_Etherpad
      else if m = Some ''external'' then Ws_External else Ws_Ranking)"

text \<open>
  \<open>{ ...DEFAULT, ...config, interventionMode: normalize(config.interventionMode ?? ...),
  scoreWeights: { ...DEFAULT.scoreWeights, ...config.scoreWeights }, ... }\<close>
\<close>

definition spread_config :: "(rat \<Rightarrow> 'n) \<Rightarrow> 'n raw_config \<Rightarrow> 'n intervention_config" where
  "spread_config num c =
     (let d = default_config num in
      \<lparr>workspaceMode = normalizeWorkspaceMode (raw_workspaceMode c),
       externalWorkspace = raw_externalWorkspace c,
       interventionMode = normalizeInterventionMode
         (orelse (raw_interventionMode c) (mode_name (interventionMode d))),
       contributionThreshold = orelse (raw_contributionThreshold c) (contributionThreshold d),
       protectedStartMinutes = orelse (raw_protectedStartMinutes c) (protectedStartMinutes d),
       protectedEndMinutes = orelse (raw_protectedEndMinutes c) (protectedEndMinutes d),
       contributionWindowMinutes =
         orelse (raw_contributionWindowMinutes c) (contributionWindowMinutes d),
       scoreWeights =
         \<lparr>sw_messages = orelse (fst (raw_scoreWeights c)) (sw_messages (scoreWeights d)),
          sw_words = orelse (snd (raw_scoreWeights c)) (sw_words (scoreWeights d))\<rparr>,
       dominanceWeights =
         \<lparr>dw_share = orelse (fst (raw_dominanceWeights c)) (dw_share (dominanceWeights d)),
          dw_meaningfulness =
            orelse (snd (raw_dominanceWeights c)) (dw_meaningfulness (dominanceWeights d))\<rparr>,
       llmMode = orelse (raw_llmMode c) (llmMode d)\<rparr>)"

definition audienceForMode :: "intervention_mode \<Rightarrow> audience" where
  "audienceForMode mode =
     (case mode of Mode_Baseline \<Rightarrow> Aud_None | Mode_Public \<Rightarrow> Aud_Public
      | Mode_Private \<Rightarrow> Aud_Private)"

definition protectedEndMs :: "rat option \<Rightarrow> rat" where
  "protectedEndMs minutes =
     max 0 (orelse minutes (protectedEndMinutes DEFAULT_INTERVENTION_CONFIG)) * 60000"

section \<open>Splits, logs and window records\<close>

record contribution_share =
  cs_userId :: string
  cs_identityName :: string
  cs_messageCount :: nat
  cs_wordCount :: nat
  cs_invitationCount :: "nat option"
  cs_score :: rat
  cs_share :: rat
  cs_meaningfulnessScore :: rat
  cs_dominanceScore :: rat

record intervention_target =
  it_userId :: string
  it_identityName :: string

record intervention_log =
  il_id :: string
  il_sessionId :: string
  il_roomId :: string
  il_conditionId :: string
  il_mode :: intervention_mode
  il_audience :: audience
  il_timestamp :: stamp
  il_threshold :: rat
  il_llmMode :: llm_mode
  il_contributionWindowMinutes :: rat
  il_contributionSplit :: "contribution_share list"
  il_targets :: "intervention_target list"
  il_quietMembers :: "intervention_target list"
  il_message :: string

datatype window_outcome =
    Nudged | No_Target | Baseline_Suppressed | Warm_Up | Wrap_Up | Too_Few_Participants

record window_evaluation =
  we_id :: string
  we_sessionId :: string
  we_conditionId :: string
  we_windowIndex :: int
  we_windowStart :: stamp
  we_windowEnd :: stamp
  we_contributionWindowMinutes :: rat
  we_llmMode :: llm_mode
  we_threshold :: rat
  we_outcome :: window_outcome
  we_contributionSplit :: "contribution_share list"
  we_candidateTargets :: "intervention_target list"
  we_maxDominanceScore :: "rat option"
  we_interventionId :: "string option"

section \<open>Lemmas\<close>

lemma normalize_mode_name [simp]: "normalizeInterventionMode (mode_name m) = m"
  by (cases m) (simp_all add: normalizeInterventionMode_def mode_name_def)

lemma audience_none_iff [simp]: "audienceForMode m = Aud_None \<longleftrightarrow> m = Mode_Baseline"
  by (cases m) (simp_all add: audienceForMode_def)

lemma protectedEndMs_nonneg: "0 \<le> protectedEndMs m"
  by (simp add: protectedEndMs_def)

end
