(* ===== verification/Study_Models.thy ===== *)
theory Study_Models
  imports Interventions
begin

text \<open>
  packages/shared/src/models.ts, dto.ts and tasks.ts: the transport and domain types of the
  platform. An optional collection that every reader defaults to the empty list (\<open>?? []\<close>) is a
  list here; other optional fields are \<open>option\<close>s.
\<close>

section \<open>Surveys and Prolific\<close>

text \<open>A JSON value; what a questionnaire stores is not restricted further by the tables.\<close>

datatype answer =
    A_Null | A_Str string | A_Num jsnum | A_Bool bool | A_List "answer list" | A_Obj "(string \<times> answer) list"

record survey =
  sv_answers :: "(string \<times> answer) list"
  sv_submittedAt :: stamp

record prolific_identity =
  pi_participantId :: string
  pi_studyId :: string
  pi_sessionId :: string

datatype stage =
    St_Arrived | St_Consent | St_Entry | St_Waiting | St_Chat | St_Exit | St_Done | St_Terminated

datatype outcome =
    Oc_Completed | Oc_Declined_Consent | Oc_Ineligible | Oc_Voluntary_Withdrawal
  | Oc_Connection_Timeout | Oc_Unmatched | Oc_Technical_Failure | Oc_Participant_Dropout
  | Oc_Group_Aborted

datatype compensation_kind = Ck_None | Ck_Partial | Ck_Full | Ck_Manual_Review

datatype action_status =
    As_Not_Required | As_Pending | As_Return_Requested | As_Bonus_Prepared
  | As_Payment_In_Progress | As_Payment_Uncertain | As_Payment_Submitted
  | As_Resolved_Manually | As_Failed

text \<open>\<open>PARTICIPATION_STAGES\<close>, in the order a participant reaches them.\<close>

definition PARTICIPATION_STAGES :: "stage list" where
  "PARTICIPATION_STAGES =
    [St_Arrived, St_Consent, St_Entry, St_Waiting, St_Chat, St_Exit, St_Done, St_Terminated]"

record prolific_arrival =
  pa_identity :: prolific_identity
  pa_arrivedAt :: stamp
  pa_participantRecordId :: "string option"
  pa_stage :: stage
  pa_stageUpdatedAt :: stamp
  pa_lastSeenAt :: stamp
  pa_outcome :: "outcome option"
  pa_outcomeReason :: "string option"
  pa_endedAt :: "stamp option"
  pa_elapsedSeconds :: "int option"
  pa_compensationKind :: "compensation_kind option"
  pa_compensationAmountPence :: "rat option"
  pa_prolificActionStatus :: "action_status option"

record outcome_record =
  or_id :: string
  or_arrival :: prolific_arrival
  or_returnRequestedAt :: "stamp option"
  or_bonusBatchId :: "string option"
  or_paymentSubmittedAt :: "stamp option"
  or_actionError :: "string option"

datatype recruitment_source = Rs_Direct | Rs_Prolific

record participant =
  pt_id :: string
  pt_name :: string
  pt_trackingToken :: string
  pt_recruitmentSource :: recruitment_source
  pt_prolific :: "prolific_identity option"
  pt_completedAt :: "stamp option"
  pt_matrixUserId :: "string option"
  pt_entrySurvey :: "survey option"
  pt_exitSurvey :: "survey option"

section \<open>Chat, ranking and telemetry\<close>

record reaction =
  rx_eventId :: "string option"
  rx_key :: string
  rx_senderId :: string
  rx_timestamp :: stamp

record recorded_reaction =
  rr_eventId :: string
  rr_messageId :: string
  rr_key :: string
  rr_senderId :: string
  rr_timestamp :: stamp
  rr_redacted :: bool
  rr_redactionEventId :: "string option"
  rr_redactedAt :: "stamp option"

record message =
  ms_id :: string
  ms_timestamp :: stamp
  ms_senderId :: string
  ms_recipientId :: "string option"
  ms_text :: string
  ms_reactions :: "reaction list"

record ranking_item =
  ri_id :: string
  ri_label :: string

record ranking_task =
  rt_id :: string
  rt_title :: string
  rt_items :: "ranking_item list"

record movement =
  mv_itemId :: string
  mv_from :: int
  mv_to :: int

record ranking =
  rk_eventId :: "string option"
  rk_taskId :: string
  rk_order :: "string list"
  rk_updatedAt :: stamp
  rk_updatedBy :: string
  rk_movement :: "movement option"

datatype behavior_type =
    Bt_Typing_Start | Bt_Typing_Stop | Bt_Tab_Hidden | Bt_Tab_Visible | Bt_Cursor_Activity
  | Bt_Ranking_Move

record behavioral_event =
  be_id :: string
  be_type :: behavior_type
  be_participantId :: string
  be_timestamp :: stamp
  be_durationMs :: "rat option"
  be_payload :: "(string \<times> answer) list option"

section \<open>Classification\<close>

record classifier_indicator =
  ci_value :: bool
  ci_reason :: string

record classifier_rating =
  cr_rating :: int
  cr_reason :: string

record contribution_classification =
  cc_messageId :: string
  cc_senderId :: string
  cc_classifiedAt :: stamp
  cc_relevance :: classifier_rating
  cc_coherence :: classifier_rating
  cc_invitesParticipation :: classifier_indicator
  cc_meaningfulnessScore :: rat
  cc_model :: string
  cc_promptVersion :: string
  cc_prompt :: string
  cc_rawOutput :: string

record classification_failure =
  cf_messageId :: string
  cf_senderId :: string
  cf_failedAt :: stamp
  cf_model :: string
  cf_promptVersion :: string
  cf_error :: string

section \<open>Conditions, sessions and checkpoints\<close>

record 'n condition =
  cd_id :: string
  cd_name :: string
  cd_active :: bool
  cd_goal :: 'n
  cd_durationMinutes :: 'n
  cd_groupSize :: 'n
  cd_config :: "'n raw_config"

record study_settings =
  ss_compensationUrl :: string
  ss_noConsentUrl :: string
  ss_ineligibleUrl :: string
  ss_withdrawalUrl :: string
  ss_unmatchedUrl :: string
  ss_technicalFailureUrl :: string

datatype session_status = Waiting | Provisioning | Running | Completed | Aborted

text \<open>
  The rules' scratchpad \<open>runtime.state\<close>: values by key. The only key the code writes is the
  contribution rules' own, whose value is the time of the last nudge.
\<close>

type_synonym rule_state = "(string \<times> rat option) list"

record session =
  se_id :: string
  se_status :: session_status
  se_roundId :: int
  se_condition :: "rat condition"
  se_llmEnabled :: bool
  se_participants :: "participant list"
  se_messages :: "message list"
  se_rankingTask :: ranking_task
  se_ranking :: ranking
  se_rankingHistory :: "ranking list"
  se_interventions :: "intervention_log list"
  se_behavioralEvents :: "behavioral_event list"
  se_contributionClassifications :: "contribution_classification list"
  se_windowEvaluations :: "window_evaluation list"
  se_classificationFailures :: "classification_failure list"
  se_processedEventIds :: "string list"
  se_redactedReactionEventIds :: "string list"
  se_reactionEvents :: "recorded_reaction list"
  se_runtimeState :: rule_state
  se_checkpointRevision :: "rat option"
  se_durationMinutes :: rat
  se_roomId :: "string option"
  se_waitingDeadlineAt :: "stamp option"
  se_createdAt :: stamp
  se_startedAt :: "stamp option"
  se_completedAt :: "stamp option"

record checkpoint =
  cp_revision :: "rat option"
  cp_messages :: "message list"
  cp_rankingHistory :: "ranking list"
  cp_interventions :: "intervention_log list"
  cp_behavioralEvents :: "behavioral_event list"
  cp_contributionClassifications :: "contribution_classification list"
  cp_windowEvaluations :: "window_evaluation list"
  cp_classificationFailures :: "classification_failure list"
  cp_processedEventIds :: "string list"
  cp_redactedReactionEventIds :: "string list"
  cp_reactionEvents :: "recorded_reaction list"
  cp_ruleState :: rule_state

text \<open>A running session's start is written by \<open>toISOString\<close>, so it is kept by its time value.\<close>

record start_notification =
  sn_sessionId :: string
  sn_roomId :: string
  sn_condition :: "rat condition"
  sn_durationMinutes :: rat
  sn_startedAt :: "int option"
  sn_participantUserIds :: "string list"
  sn_checkpoint :: "checkpoint option"

section \<open>The task\<close>

definition MOON_SURVIVAL :: ranking_task where
  "MOON_SURVIVAL =
    \<lparr>rt_id = ''moon-survival'',
     rt_title = ''Rank the items below by importance for reaching the mothership. '' @
       ''Most important item = 1, least important item = 10.'',
     rt_items =
      [\<lparr>ri_id = ''matches'', ri_label = ''Box of matches''\<rparr>,
       \<lparr>ri_id = ''food'', ri_label = ''Food concentrate''\<rparr>,
       \<lparr>ri_id = ''parachute'', ri_label = ''Parachute silk''\<rparr>,
       \<lparr>ri_id = ''heater'', ri_label = ''Portable heating unit''\<rparr>,
       \<lparr>ri_id = ''pistols'', ri_label = ''Two .45 caliber pistols''\<rparr>,
       \<lparr>ri_id = ''oxygen'', ri_label = ''Two 100-lb tanks of oxygen''\<rparr>,
       \<lparr>ri_id = ''map'', ri_label = ''Stellar map''\<rparr>,
       \<lparr>ri_id = ''raft'', ri_label = ''Life raft''\<rparr>,
       \<lparr>ri_id = ''compass'', ri_label = ''Magnetic compass''\<rparr>,
       \<lparr>ri_id = ''firstaid'', ri_label = ''First aid kit with injection needles''\<rparr>]\<rparr>"

definition MOON_SURVIVAL_EXPERT_RANKING :: "(string \<times> nat) list" where
  "MOON_SURVIVAL_EXPERT_RANKING =
    [(''oxygen'', 1), (''map'', 2), (''food'', 3), (''firstaid'', 4), (''parachute'', 5),
     (''raft'', 6), (''pistols'', 7), (''heater'', 8), (''compass'', 9), (''matches'', 10)]"

end
