(* ===== verification/Session_Runtime.thy ===== *)
theory Session_Runtime
  imports Study_Models
begin

text \<open>
  backend/chat-service/src/sessions/session-runtime.ts: the live state of one running session,
  its recording operations, the claim on a window boundary, checkpointing and restoring.

  The index \<open>byId\<close> holds exactly the identifiers of \<open>messages\<close> and is only asked for
  membership, so it is not a field of its own. The room's membership is asked of the homeserver;
  its answers are a list consumed in order (\<open>None\<close>: the request fails).
\<close>

record runtime =
  rn_sessionId :: string
  rn_roomId :: string
  rn_condition :: "rat condition"
  rn_durationMinutes :: rat
  rn_startedAtMs :: rat
  rn_messages :: "message list"
  rn_rankingHistory :: "ranking list"
  rn_interventions :: "intervention_log list"
  rn_behavioralEvents :: "behavioral_event list"
  rn_contributionClassifications :: "contribution_classification list"
  rn_windowEvaluations :: "window_evaluation list"
  rn_classificationFailures :: "classification_failure list"
  rn_state :: rule_state
  rn_ended :: bool
  rn_legacyReactionEvents :: "recorded_reaction list"
  rn_legacyRedactedReactionEventIds :: "string list"
  rn_processedEventIds :: "string list"
  rn_participantUserIds :: "string list option"
  rn_checkpointRevision :: rat
  rn_lastWindowBoundaryMs :: rat

section \<open>Recording\<close>

definition recordMessage :: "message \<Rightarrow> runtime \<Rightarrow> runtime" where
  "recordMessage m rt = rt\<lparr>rn_messages := push_new ms_id (rn_messages rt) m\<rparr>"

text \<open>A ranking without a (non-empty) event id is never recognised as a duplicate.\<close>

definition recordRanking :: "ranking \<Rightarrow> runtime \<Rightarrow> runtime" where
  "recordRanking r rt =
     (if rk_eventId r \<noteq> None \<and> rk_eventId r \<noteq> Some ''''
         \<and> (\<exists>item \<in> set (rn_rankingHistory rt). rk_eventId item = rk_eventId r)
      then rt else rt\<lparr>rn_rankingHistory := rn_rankingHistory rt @ [r]\<rparr>)"

definition recordBehavior :: "behavioral_event \<Rightarrow> runtime \<Rightarrow> runtime" where
  "recordBehavior e rt = rt\<lparr>rn_behavioralEvents := push_new be_id (rn_behavioralEvents rt) e\<rparr>"

definition recordClassification :: "contribution_classification \<Rightarrow> runtime \<Rightarrow> runtime" where
  "recordClassification c rt =
     rt\<lparr>rn_contributionClassifications :=
          replace_or_push cc_messageId (rn_contributionClassifications rt) c\<rparr>"

definition recordClassificationFailure :: "classification_failure \<Rightarrow> runtime \<Rightarrow> runtime" where
  "recordClassificationFailure f rt =
     rt\<lparr>rn_classificationFailures :=
          replace_or_push cf_messageId (rn_classificationFailures rt) f\<rparr>"

definition recordWindowEvaluation :: "window_evaluation \<Rightarrow> runtime \<Rightarrow> runtime" where
  "recordWindowEvaluation e rt = rt\<lparr>rn_windowEvaluations := rn_windowEvaluations rt @ [e]\<rparr>"

definition recordIntervention :: "intervention_log \<Rightarrow> runtime \<Rightarrow> runtime" where
  "recordIntervention i rt = rt\<lparr>rn_interventions := rn_interventions rt @ [i]\<rparr>"

definition claimWindowBoundary :: "rat \<Rightarrow> runtime \<Rightarrow> bool \<times> runtime" where
  "claimWindowBoundary windowEndMs rt =
     (if windowEndMs \<le> rn_lastWindowBoundaryMs rt then (False, rt)
      else (True, rt\<lparr>rn_lastWindowBoundaryMs := windowEndMs\<rparr>))"

definition hasProcessed :: "string \<Rightarrow> runtime \<Rightarrow> bool" where
  "hasProcessed eventId rt = (eventId \<in> set (rn_processedEventIds rt))"

definition markProcessed :: "string \<Rightarrow> runtime \<Rightarrow> runtime" where
  "markProcessed eventId rt =
     rt\<lparr>rn_processedEventIds := set_add (rn_processedEventIds rt) eventId\<rparr>"

definition markEnded :: "runtime \<Rightarrow> runtime" where
  "markEnded rt = rt\<lparr>rn_ended := True\<rparr>"

section \<open>Membership\<close>

fun next_members :: "string list option list \<Rightarrow> string list option \<times> string list option list" where
  "next_members [] = (None, [])"
| "next_members (r # rs) = (r, rs)"

text \<open>The roster is asked once; a failed request is not cached.\<close>

definition getParticipantUserIds ::
    "string list option list \<Rightarrow> runtime \<Rightarrow> string list option \<times> string list option list \<times> runtime" where
  "getParticipantUserIds net rt =
     (case rn_participantUserIds rt of
        Some ids \<Rightarrow> (Some ids, net, rt)
      | None \<Rightarrow>
          (case next_members net of
             (None, net') \<Rightarrow> (None, net', rt)
           | (Some memberIds, net') \<Rightarrow>
               (let ids = sort (filter (\<lambda>i. \<not> isServiceUser i) memberIds)
                in (Some ids, net', rt\<lparr>rn_participantUserIds := Some ids\<rparr>))))"

definition getActiveParticipantUserIds ::
    "string list option list \<Rightarrow> runtime \<Rightarrow> string list option \<times> string list option list \<times> runtime" where
  "getActiveParticipantUserIds net rt =
     (case getParticipantUserIds net rt of
        (None, net', rt') \<Rightarrow> (None, net', rt')
      | (Some roster, net', rt') \<Rightarrow>
          (case next_members net' of
             (None, net'') \<Rightarrow> (None, net'', rt')
           | (Some joined, net'') \<Rightarrow> (Some (filter (\<lambda>i. i \<in> set roster) joined), net'', rt')))"

section \<open>Checkpoint, restore and construction\<close>

definition checkpoint_of :: "runtime \<Rightarrow> checkpoint \<times> runtime" where
  "checkpoint_of rt =
     (let rt' = rt\<lparr>rn_checkpointRevision := rn_checkpointRevision rt + 1\<rparr>
      in (\<lparr>cp_revision = Some (rn_checkpointRevision rt'),
           cp_messages = rn_messages rt,
           cp_rankingHistory = rn_rankingHistory rt,
           cp_interventions = rn_interventions rt,
           cp_behavioralEvents = rn_behavioralEvents rt,
           cp_contributionClassifications = rn_contributionClassifications rt,
           cp_windowEvaluations = rn_windowEvaluations rt,
           cp_classificationFailures = rn_classificationFailures rt,
           cp_processedEventIds = rn_processedEventIds rt,
           cp_redactedReactionEventIds = rn_legacyRedactedReactionEventIds rt,
           cp_reactionEvents = rn_legacyReactionEvents rt,
           cp_ruleState = rn_state rt\<rparr>, rt'))"

definition latest_boundary :: "rat \<Rightarrow> window_evaluation list \<Rightarrow> rat" where
  "latest_boundary start evaluations =
     foldl (\<lambda>last e. case parse_ms (we_windowEnd e) of None \<Rightarrow> last
              | Some endMs \<Rightarrow> max last (of_int endMs)) start evaluations"

definition restore :: "checkpoint \<Rightarrow> runtime \<Rightarrow> runtime" where
  "restore cp rt =
     (let evaluations = rn_windowEvaluations rt @ cp_windowEvaluations cp in
      rt\<lparr>rn_checkpointRevision := max 0 (orelse (cp_revision cp) 0),
         rn_legacyReactionEvents := rn_legacyReactionEvents rt @ cp_reactionEvents cp,
         rn_legacyRedactedReactionEventIds :=
           rn_legacyRedactedReactionEventIds rt @ cp_redactedReactionEventIds cp,
         rn_messages := rn_messages rt @ cp_messages cp,
         rn_rankingHistory := rn_rankingHistory rt @ cp_rankingHistory cp,
         rn_interventions := rn_interventions rt @ cp_interventions cp,
         rn_behavioralEvents := rn_behavioralEvents rt @ cp_behavioralEvents cp,
         rn_contributionClassifications :=
           rn_contributionClassifications rt @ cp_contributionClassifications cp,
         rn_windowEvaluations := evaluations,
         rn_lastWindowBoundaryMs := latest_boundary (rn_lastWindowBoundaryMs rt) evaluations,
         rn_classificationFailures :=
           rn_classificationFailures rt @ cp_classificationFailures cp,
         rn_processedEventIds := set_union (rn_processedEventIds rt) (cp_processedEventIds cp),
         rn_state := object_assign (rn_state rt) (cp_ruleState cp)\<rparr>)"

definition new_runtime :: "int \<Rightarrow> start_notification \<Rightarrow> runtime" where
  "new_runtime now note =
     (let fresh =
        \<lparr>rn_sessionId = sn_sessionId note, rn_roomId = sn_roomId note,
         rn_condition = sn_condition note, rn_durationMinutes = sn_durationMinutes note,
         rn_startedAtMs = of_int (orelse (sn_startedAt note) now),
         rn_messages = [], rn_rankingHistory = [], rn_interventions = [],
         rn_behavioralEvents = [], rn_contributionClassifications = [],
         rn_windowEvaluations = [], rn_classificationFailures = [], rn_state = [],
         rn_ended = False, rn_legacyReactionEvents = [],
         rn_legacyRedactedReactionEventIds = [], rn_processedEventIds = [],
         rn_participantUserIds = None, rn_checkpointRevision = 0, rn_lastWindowBoundaryMs = 0\<rparr>;
        restored = (case sn_checkpoint note of None \<Rightarrow> fresh | Some cp \<Rightarrow> restore cp fresh)
      in if sn_participantUserIds note = [] then restored
         else restored\<lparr>rn_participantUserIds :=
                Some (sort (filter (\<lambda>i. \<not> isServiceUser i) (sn_participantUserIds note)))\<rparr>)"

section \<open>The runtime as a machine\<close>

text \<open>The operations the service calls on a live runtime.\<close>

datatype runtime_op =
    Record_Message message
  | Record_Ranking ranking
  | Record_Behavior behavioral_event
  | Record_Classification contribution_classification
  | Record_Failure classification_failure
  | Record_Evaluation window_evaluation
  | Record_Intervention intervention_log
  | Claim_Boundary rat
  | Mark_Processed string
  | Take_Checkpoint
  | Mark_Ended

fun runtime_step :: "runtime \<Rightarrow> runtime_op \<Rightarrow> runtime" where
  "runtime_step rt (Record_Message m) = recordMessage m rt"
| "runtime_step rt (Record_Ranking r) = recordRanking r rt"
| "runtime_step rt (Record_Behavior e) = recordBehavior e rt"
| "runtime_step rt (Record_Classification c) = recordClassification c rt"
| "runtime_step rt (Record_Failure f) = recordClassificationFailure f rt"
| "runtime_step rt (Record_Evaluation e) = recordWindowEvaluation e rt"
| "runtime_step rt (Record_Intervention i) = recordIntervention i rt"
| "runtime_step rt (Claim_Boundary t) = snd (claimWindowBoundary t rt)"
| "runtime_step rt (Mark_Processed e) = markProcessed e rt"
| "runtime_step rt Take_Checkpoint = snd (checkpoint_of rt)"
| "runtime_step rt Mark_Ended = markEnded rt"

lemmas runtime_op_defs = recordMessage_def recordRanking_def recordBehavior_def
  recordClassification_def recordClassificationFailure_def recordWindowEvaluation_def
  recordIntervention_def claimWindowBoundary_def markProcessed_def checkpoint_of_def markEnded_def

text \<open>Well-formed: no identifier is recorded twice.\<close>

definition ranking_ids :: "ranking list \<Rightarrow> string list" where
  "ranking_ids rs = filter (\<lambda>e. e \<noteq> '''') (List.map_filter rk_eventId rs)"

definition runtime_wf :: "runtime \<Rightarrow> bool" where
  "runtime_wf rt \<longleftrightarrow>
     distinct (map ms_id (rn_messages rt)) \<and>
     distinct (ranking_ids (rn_rankingHistory rt)) \<and>
     distinct (map be_id (rn_behavioralEvents rt)) \<and>
     distinct (map cc_messageId (rn_contributionClassifications rt)) \<and>
     distinct (map cf_messageId (rn_classificationFailures rt)) \<and>
     distinct (rn_processedEventIds rt) \<and>
     distinct (map fst (rn_state rt)) \<and>
     0 \<le> rn_checkpointRevision rt"

text \<open>\<open>runtime_grows s t\<close>: \<open>t\<close> still holds everything recorded in \<open>s\<close>, in the same order.\<close>

definition runtime_grows :: "runtime \<Rightarrow> runtime \<Rightarrow> bool" where
  "runtime_grows s t \<longleftrightarrow>
     prefix (rn_messages s) (rn_messages t) \<and>
     prefix (rn_rankingHistory s) (rn_rankingHistory t) \<and>
     prefix (rn_interventions s) (rn_interventions t) \<and>
     prefix (rn_behavioralEvents s) (rn_behavioralEvents t) \<and>
     prefix (rn_windowEvaluations s) (rn_windowEvaluations t) \<and>
     prefix (map cc_messageId (rn_contributionClassifications s))
       (map cc_messageId (rn_contributionClassifications t)) \<and>
     prefix (map cf_messageId (rn_classificationFailures s))
       (map cf_messageId (rn_classificationFailures t)) \<and>
     prefix (rn_processedEventIds s) (rn_processedEventIds t) \<and>
     rn_checkpointRevision s \<le> rn_checkpointRevision t \<and>
     rn_lastWindowBoundaryMs s \<le> rn_lastWindowBoundaryMs t"

lemma ranking_ids_append: "ranking_ids (xs @ ys) = ranking_ids xs @ ranking_ids ys"
  by (simp add: ranking_ids_def map_filter_def)

lemma ranking_ids_single:
  "ranking_ids [r] = (case rk_eventId r of None \<Rightarrow> [] | Some e \<Rightarrow> if e = '''' then [] else [e])"
  by (simp add: ranking_ids_def map_filter_def split: option.split)

lemma in_ranking_ids: "e \<in> set (ranking_ids rs) \<longleftrightarrow> e \<noteq> '''' \<and> (\<exists>r\<in>set rs. rk_eventId r = Some e)"
  by (force simp: ranking_ids_def map_filter_def)

lemma prefix_set_add [simp]: "prefix xs (set_add xs x)"
  by (simp add: set_add_def)

lemma runtime_step_wf [preserved]:
  assumes "runtime_wf rt" shows "runtime_wf (runtime_step rt op)"
proof (cases op)
  case (Record_Ranking r)
  with assms show ?thesis
    by (auto simp: runtime_wf_def recordRanking_def ranking_ids_append ranking_ids_single
        in_ranking_ids split: option.splits)
qed (use assms in \<open>auto simp: runtime_wf_def runtime_op_defs Let_def\<close>)

lemma runtime_step_grows: "runtime_grows rt (runtime_step rt op)"
  by (cases op)
    (auto simp: runtime_grows_def runtime_op_defs Let_def prefix_push_new)

lemma runtime_grows_trans: "runtime_grows s t \<Longrightarrow> runtime_grows t u \<Longrightarrow> runtime_grows s u"
  unfolding runtime_grows_def by (intro conjI; elim conjE; erule (1) prefix_order.trans order_trans)

lemma runtime_grows_refl: "runtime_grows s s"
  by (simp add: runtime_grows_def)

interpretation live: monotone_stepper runtime_step runtime_wf runtime_grows
  by unfold_locales
    (auto intro: runtime_step_wf runtime_step_grows runtime_grows_refl runtime_grows_trans)

lemma object_assign_fresh:
  "distinct (map fst (a @ b)) \<Longrightarrow> object_assign a b = a @ b"
proof (induction b arbitrary: a)
  case (Cons x b)
  obtain k v where x: "x = (k, v)" by fastforce
  with Cons.prems have "om_set k v a = a @ [x]" by (simp add: om_set_fresh)
  moreover have "object_assign (a @ [x]) b = (a @ [x]) @ b"
    using Cons.prems by (intro Cons.IH) auto
  ultimately show ?case by (simp add: object_assign_def x)
qed (simp add: object_assign_def)

lemma object_assign_simps [simp]:
  "object_assign a [] = a"
  "object_assign a ((k, v) # b) = object_assign (om_set k v a) b"
  by (simp_all add: object_assign_def)

lemma distinct_object_assign:
  "distinct (map fst a) \<Longrightarrow> distinct (map fst (object_assign a b))"
  by (induction b arbitrary: a) (auto simp: distinct_update)

lemma latest_boundary_ge: "start \<le> latest_boundary start es"
proof (induction es arbitrary: start)
  case (Cons e es)
  let ?s = "case parse_ms (we_windowEnd e) of None \<Rightarrow> start | Some ms \<Rightarrow> max start (of_int ms)"
  have "start \<le> ?s" by (simp split: option.split)
  also have "?s \<le> latest_boundary ?s es" by (rule Cons.IH)
  finally show ?case by (simp add: latest_boundary_def)
qed (simp add: latest_boundary_def)

lemma latest_boundary_covers:
  assumes "e \<in> set es" and "parse_ms (we_windowEnd e) = Some ms"
  shows "of_int ms \<le> latest_boundary start es"
  using assms(1)
proof (induction es arbitrary: start)
  case (Cons a es)
  let ?s = "case parse_ms (we_windowEnd a) of None \<Rightarrow> start | Some ms \<Rightarrow> max start (of_int ms)"
  have eq: "latest_boundary start (a # es) = latest_boundary ?s es"
    by (simp add: latest_boundary_def)
  show ?case
  proof (cases "a = e")
    case True
    then have "of_int ms \<le> ?s" using assms(2) by simp
    then show ?thesis unfolding eq using latest_boundary_ge order_trans by blast
  next
    case False
    with Cons show ?thesis unfolding eq by simp
  qed
qed simp

lemmas new_runtime_fields = new_runtime_def restore_def Let_def

lemma new_runtime_wf:
  assumes "sn_checkpoint note = None"
  shows "runtime_wf (new_runtime now note)"
  using assms by (simp add: new_runtime_fields runtime_wf_def ranking_ids_def map_filter_def)

section \<open>Sample data for the witnesses\<close>

definition sample_config :: "rat raw_config" where
  "sample_config =
    \<lparr>raw_workspaceMode = None, raw_externalWorkspace = None,
     raw_interventionMode = Some ''public'', raw_contributionThreshold = None,
     raw_protectedStartMinutes = None, raw_protectedEndMinutes = None,
     raw_contributionWindowMinutes = None, raw_scoreWeights = (None, None),
     raw_dominanceWeights = (None, None), raw_llmMode = None\<rparr>"

definition sample_condition :: "rat condition" where
  "sample_condition =
    \<lparr>cd_id = ''public-llm'', cd_name = ''Public'', cd_active = True, cd_goal = 5,
     cd_durationMinutes = 10, cd_groupSize = 3, cd_config = sample_config\<rparr>"

definition sample_note :: start_notification where
  "sample_note =
    \<lparr>sn_sessionId = ''s1'', sn_roomId = ''!r:x'', sn_condition = sample_condition,
     sn_durationMinutes = 10, sn_startedAt = Some 0,
     sn_participantUserIds = [''@a:x'', ''@b:x''], sn_checkpoint = None\<rparr>"

definition sample_message :: "string \<Rightarrow> int \<Rightarrow> string \<Rightarrow> string \<Rightarrow> message" where
  "sample_message mid t who body =
    \<lparr>ms_id = mid, ms_timestamp = Stamp t, ms_senderId = who, ms_recipientId = None,
     ms_text = body, ms_reactions = []\<rparr>"

definition sample_evaluation :: window_evaluation where
  "sample_evaluation =
    \<lparr>we_id = ''e1'', we_sessionId = ''s1'', we_conditionId = ''public-llm'', we_windowIndex = 0,
     we_windowStart = Stamp 180000, we_windowEnd = Stamp 420000,
     we_contributionWindowMinutes = 4, we_llmMode = Llm_Off, we_threshold = 4 / 10,
     we_outcome = No_Target, we_contributionSplit = [], we_candidateTargets = [],
     we_maxDominanceScore = None, we_interventionId = None\<rparr>"

definition sample_runtime :: runtime where
  "sample_runtime = foldl runtime_step (new_runtime 0 sample_note)
     [Record_Message (sample_message ''m1'' 200000 ''@a:x'' ''oxygen first''),
      Record_Message (sample_message ''m1'' 200000 ''@a:x'' ''oxygen first''),
      Mark_Processed ''m1'', Claim_Boundary 420000, Record_Evaluation sample_evaluation]"

lemma sample_runtime_wf: "runtime_wf sample_runtime"
  unfolding sample_runtime_def
  by (rule live.run_inv) (simp add: new_runtime_wf sample_note_def)

section \<open>Properties\<close>

text \<open>C18: durable and unique recording. Whatever sequence of operations a fresh session runs, no
  message, behaviour event, classification or processed event is recorded twice, and nothing
  recorded on the way is lost, reordered or (messages, rankings, nudges, windows) rewritten.\<close>

theorem recording_durable:
  assumes "sn_checkpoint note = None"
  shows "runtime_wf (foldl runtime_step (new_runtime now note) ops) \<and>
    runtime_grows (foldl runtime_step (new_runtime now note) ops)
      (foldl runtime_step (new_runtime now note) (ops @ later))"
proof -
  have wf: "runtime_wf (foldl runtime_step (new_runtime now note) ops)"
    by (rule live.run_inv) (rule new_runtime_wf [OF assms])
  then show ?thesis using live.run_below by simp
qed

theorem recording_durable_witness:
  "runtime_wf (foldl runtime_step (new_runtime 0 sample_note) [Take_Checkpoint]) \<and>
    runtime_grows (foldl runtime_step (new_runtime 0 sample_note) [Take_Checkpoint])
      (foldl runtime_step (new_runtime 0 sample_note) ([Take_Checkpoint] @ [Mark_Ended]))"
  by (rule recording_durable) (simp add: sample_note_def)

text \<open>The boundaries a run of the runtime hands out for evaluation.\<close>

fun claimed_boundaries :: "runtime \<Rightarrow> runtime_op list \<Rightarrow> rat list" where
  "claimed_boundaries rt [] = []"
| "claimed_boundaries rt (op # ops) =
     (case op of Claim_Boundary t \<Rightarrow> if fst (claimWindowBoundary t rt) then [t] else [] | _ \<Rightarrow> [])
     @ claimed_boundaries (runtime_step rt op) ops"

lemma claimed_above_last:
  "t \<in> set (claimed_boundaries rt ops) \<Longrightarrow> rn_lastWindowBoundaryMs rt < t"
proof (induction ops arbitrary: rt)
  case (Cons op ops)
  have "rn_lastWindowBoundaryMs rt \<le> rn_lastWindowBoundaryMs (runtime_step rt op)"
    using runtime_step_grows by (auto simp: runtime_grows_def)
  with Cons show ?case
    by (fastforce simp: claimWindowBoundary_def split: runtime_op.splits if_splits)
qed simp

text \<open>one evaluation per window. The boundaries a session claims are strictly increasing,
  whatever else happens in between, so no window is ever evaluated twice.\<close>

theorem claimed_strictly_increasing: "sorted_wrt (<) (claimed_boundaries rt ops)"
proof (induction ops arbitrary: rt)
  case (Cons op ops)
  have "t < u" if "fst (claimWindowBoundary t rt)" and "op = Claim_Boundary t"
    and "u \<in> set (claimed_boundaries (runtime_step rt op) ops)" for t u
    using claimed_above_last [OF that(3)] that(1,2)
    by (auto simp: claimWindowBoundary_def split: if_splits)
  with Cons.IH show ?case by (auto simp: sorted_wrt_append split: runtime_op.split)
qed simp

text \<open>C19: restart round trip. A runtime restored from a checkpoint writes, as its next
  checkpoint, the same data under the next revision number.\<close>

theorem checkpoint_restore_roundtrip:
  assumes "runtime_wf rt" and "sn_checkpoint note = Some (fst (checkpoint_of rt))"
  shows "fst (checkpoint_of (new_runtime now note)) =
    (fst (checkpoint_of rt))\<lparr>cp_revision := Some (rn_checkpointRevision rt + 2)\<rparr>"
  using assms
  by (auto simp: new_runtime_fields checkpoint_of_def runtime_wf_def object_assign_fresh
      set_union_distinct max_def)

theorem checkpoint_restore_roundtrip_witness:
  "fst (checkpoint_of (new_runtime 7 (sample_note\<lparr>sn_checkpoint :=
      Some (fst (checkpoint_of sample_runtime))\<rparr>))) =
    (fst (checkpoint_of sample_runtime))\<lparr>cp_revision :=
      Some (rn_checkpointRevision sample_runtime + 2)\<rparr>"
  by (rule checkpoint_restore_roundtrip) (simp_all add: sample_runtime_wf)

text \<open>no window is evaluated again after a restart. Any boundary up to the end of a window
  recorded in the checkpoint is refused by the restored runtime.\<close>

theorem restored_boundary_refused:
  assumes "sn_checkpoint note = Some cp" and "e \<in> set (cp_windowEvaluations cp)"
    and "parse_ms (we_windowEnd e) = Some ms" and "t \<le> of_int ms"
  shows "\<not> fst (claimWindowBoundary t (new_runtime now note))"
proof -
  have "of_int ms \<le> latest_boundary 0 (cp_windowEvaluations cp)"
    using assms(2,3) by (rule latest_boundary_covers)
  with assms(1,4) show ?thesis by (auto simp: new_runtime_fields claimWindowBoundary_def)
qed

theorem restored_boundary_refused_witness:
  "\<not> fst (claimWindowBoundary 420000 (new_runtime 7 (sample_note\<lparr>sn_checkpoint :=
      Some (fst (checkpoint_of sample_runtime))\<rparr>)))"
proof (rule restored_boundary_refused [where ms = 420000])
  show "sample_evaluation \<in> set (cp_windowEvaluations (fst (checkpoint_of sample_runtime)))"
    by (simp add: sample_runtime_def checkpoint_of_def runtime_op_defs Let_def)
qed (simp_all add: sample_evaluation_def)

end
