(* ===== verification/Bot_Rules.thy ===== *)
theory Bot_Rules
  imports Session_Runtime
begin

text \<open>
  backend/chat-service/src/rules/bot-rules.ts: the contribution split of a window, the choice of
  a target, the decision taken when a window closes, the classification of a message and the
  bounded wait for classifications still in flight.

  What a window evaluation asks of the outside world is a record of answers (\<open>window_env\<close>): the
  environment variable, the room's membership at each question, the nudge generator's reply,
  whether the homeserver accepts the message, the identifiers drawn and the clock. An awaited
  call that throws ends the evaluation with \<open>wr_ok = False\<close>.
\<close>

section \<open>Configuration\<close>

definition STATE_KEY :: string where
  "STATE_KEY = ''contributionBotRules''"

definition resolveLlmMode :: "string option \<Rightarrow> rat intervention_config \<Rightarrow> llm_mode" where
  "resolveLlmMode envMode config =
     (if envMode = Some ''off'' then Llm_Off
      else if envMode = Some ''active'' then Llm_Active else llmMode config)"

definition normalizeConfig :: "rat raw_config \<Rightarrow> rat intervention_config" where
  "normalizeConfig config = spread_config (\<lambda>x. x) config"

text \<open>Reading the scratchpad also (re)writes the entry of the rules.\<close>

definition getRuleState :: "runtime \<Rightarrow> rat option \<times> runtime" where
  "getRuleState rt =
     (let existing = orelse (om_get (rn_state rt) STATE_KEY) None
      in (existing, rt\<lparr>rn_state := om_set STATE_KEY existing (rn_state rt)\<rparr>))"

definition setLastIntervention :: "rat \<Rightarrow> runtime \<Rightarrow> runtime" where
  "setLastIntervention ms rt = rt\<lparr>rn_state := om_set STATE_KEY (Some ms) (rn_state rt)\<rparr>"

definition windowIndex :: "runtime \<Rightarrow> rat intervention_config \<Rightarrow> rat \<Rightarrow> int" where
  "windowIndex rt config windowEndMs =
     (let gridStartMs = rn_startedAtMs rt + protectedStartMinutes config * 60000;
          windowMs = contributionWindowMinutes config * 60000
      in if windowMs \<le> 0 then 0
         else max 0 (js_round ((windowEndMs - gridStartMs) / windowMs) - 1))"

definition isInsideInterventionWindow :: "runtime \<Rightarrow> rat \<Rightarrow> rat intervention_config \<Rightarrow> bool" where
  "isInsideInterventionWindow rt nowMs config =
     (let elapsedMs = max 0 (nowMs - rn_startedAtMs rt);
          protectedStartMs = protectedStartMinutes config * 60000;
          wrapUpMs = protectedEndMs (Some (protectedEndMinutes config));
          totalMs = rn_durationMinutes rt * 60000
      in \<not> elapsedMs < protectedStartMs \<and> \<not> (totalMs > 0 \<and> totalMs - elapsedMs \<le> wrapUpMs))"

section \<open>The contribution split\<close>

record user_stats =
  us_messageCount :: nat
  us_wordCount :: nat
  us_invitationCount :: nat
  us_meaningfulness :: "rat list"

definition no_stats :: user_stats where
  "no_stats = \<lparr>us_messageCount = 0, us_wordCount = 0, us_invitationCount = 0,
     us_meaningfulness = []\<rparr>"

text \<open>A message with a readable time counts only inside the window and after the reset.\<close>

definition message_in_window :: "rat \<Rightarrow> rat \<Rightarrow> rat option \<Rightarrow> message \<Rightarrow> bool" where
  "message_in_window cutoff nowMs trackerReset m =
     (case parse_ms (ms_timestamp m) of
        None \<Rightarrow> True
      | Some ms \<Rightarrow> \<not> (of_int ms < cutoff \<or> of_int ms > nowMs) \<and>
          (case trackerReset of None \<Rightarrow> True | Some r \<Rightarrow> \<not> of_int ms \<le> r))"

definition classification_index ::
    "contribution_classification list \<Rightarrow> (string \<times> contribution_classification) list" where
  "classification_index cs = foldl (\<lambda>m c. om_set (cc_messageId c) c m) [] cs"

definition count_message ::
    "llm_mode \<Rightarrow> (string \<times> contribution_classification) list \<Rightarrow> user_stats \<Rightarrow> message \<Rightarrow> user_stats" where
  "count_message mode classified stats m =
     (let classification = om_get classified (ms_id m) in
      if mode = Llm_Active \<and>
         (case classification of None \<Rightarrow> False | Some c \<Rightarrow> ci_value (cc_invitesParticipation c))
      then stats\<lparr>us_invitationCount := us_invitationCount stats + 1\<rparr>
      else stats\<lparr>us_messageCount := us_messageCount stats + 1,
             us_wordCount := us_wordCount stats + countWords (ms_text m),
             us_meaningfulness := us_meaningfulness stats @
               (case classification of None \<Rightarrow> [] | Some c \<Rightarrow> [cc_meaningfulnessScore c])\<rparr>)"

text \<open>The loop over the messages, updating the sender's entry of \<open>byUser\<close>.\<close>

fun tally :: "(message \<Rightarrow> bool) \<Rightarrow> (user_stats \<Rightarrow> message \<Rightarrow> user_stats) \<Rightarrow>
    (string \<times> user_stats) list \<Rightarrow> message list \<Rightarrow> (string \<times> user_stats) list" where
  "tally counted add byUser [] = byUser"
| "tally counted add byUser (m # msgs) =
     (if \<not> counted m then tally counted add byUser msgs
      else case om_get byUser (ms_senderId m) of
             None \<Rightarrow> tally counted add byUser msgs
           | Some stats \<Rightarrow>
               tally counted add (om_set (ms_senderId m) (add stats m) byUser) msgs)"

definition mean_or_zero :: "rat list \<Rightarrow> rat" where
  "mean_or_zero xs = (if xs = [] then 0 else sum_list xs / of_nat (length xs))"

definition raw_share ::
    "rat intervention_config \<Rightarrow> (string \<times> identity) list \<Rightarrow> (string \<times> user_stats) list \<Rightarrow> string
       \<Rightarrow> contribution_share" where
  "raw_share config identities byUser userId =
     (let stats = orelse (om_get byUser userId) no_stats in
      \<lparr>cs_userId = userId, cs_identityName = id_name (identityFor identities userId),
       cs_messageCount = us_messageCount stats, cs_wordCount = us_wordCount stats,
       cs_invitationCount = Some (us_invitationCount stats),
       cs_score = of_nat (us_messageCount stats) * sw_messages (scoreWeights config) +
         of_nat (us_wordCount stats) * sw_words (scoreWeights config),
       cs_share = 0, cs_meaningfulnessScore = mean_or_zero (us_meaningfulness stats),
       cs_dominanceScore = 0\<rparr>)"

definition finish_share ::
    "rat intervention_config \<Rightarrow> llm_mode \<Rightarrow> rat \<Rightarrow> contribution_share \<Rightarrow> contribution_share" where
  "finish_share config mode tot entry =
     (let sh = (if tot > 0 then cs_score entry / tot else 0);
          dominance = (if mode = Llm_Active
            then dw_share (dominanceWeights config) * sh +
                 dw_meaningfulness (dominanceWeights config) * cs_meaningfulnessScore entry
            else sh)
      in entry\<lparr>cs_share := sh, cs_dominanceScore := dominance\<rparr>)"

definition contributionSplit ::
    "message list \<Rightarrow> contribution_classification list \<Rightarrow> string list \<Rightarrow> rat intervention_config \<Rightarrow>
       rat \<Rightarrow> llm_mode \<Rightarrow> rat option \<Rightarrow> string list \<Rightarrow> contribution_share list" where
  "contributionSplit messages classifications participantIds config nowMs mode trackerReset roster =
     (let identities = buildIdentities roster;
          cutoff = nowMs - contributionWindowMinutes config * 60000;
          byUser = tally (message_in_window cutoff nowMs trackerReset)
            (count_message mode (classification_index classifications))
            (foldl (\<lambda>m i. om_set i no_stats m) [] participantIds) messages;
          scores = map (raw_share config identities byUser) participantIds;
          tot = sum_list (map cs_score scores)
      in map (finish_share config mode tot) scores)"

section \<open>Targets and messages\<close>

definition toTarget :: "contribution_share \<Rightarrow> intervention_target" where
  "toTarget e = \<lparr>it_userId = cs_userId e, it_identityName = cs_identityName e\<rparr>"

definition over_threshold :: "rat \<Rightarrow> contribution_share list \<Rightarrow> contribution_share list" where
  "over_threshold threshold split =
     sort_key (\<lambda>e. (- cs_dominanceScore e, - cs_score e))
       (filter (\<lambda>e. cs_dominanceScore e \<ge> threshold) split)"

definition quietestMembers ::
    "contribution_share list \<Rightarrow> contribution_share \<Rightarrow> rat \<Rightarrow> intervention_target list" where
  "quietestMembers split target threshold =
     map toTarget (take 2
       (sort_key (\<lambda>e. (cs_share e, locale_key (cs_identityName e)))
         (filter (\<lambda>e. cs_userId e \<noteq> cs_userId target \<and> cs_dominanceScore e < threshold) split)))"

definition max_dominance :: "contribution_share list \<Rightarrow> rat option" where
  "max_dominance split =
     foldl (\<lambda>mx e. case mx of None \<Rightarrow> Some (cs_dominanceScore e)
              | Some m \<Rightarrow> Some (max m (cs_dominanceScore e))) None split"

text \<open>The em dash of the texts is outside the model's alphabet and written as code unit 0x97.\<close>

definition em_dash :: string where
  "em_dash = [CHR 0x97]"

definition NUDGE_TEMPLATES :: "(string \<Rightarrow> string \<Rightarrow> string) list" where
  "NUDGE_TEMPLATES =
    [\<lambda>name pct. ''@'' @ name @ '', you've brought a lot of energy to this '' @ em_dash @ '' '' @ pct @
       ''% of the airtime so far! Might be a good moment to hear from the others, too.'',
     \<lambda>name pct. ''@'' @ name @ '', you're leading the discussion right now at '' @ pct @
       ''% of the messages. Curious what the rest of the group thinks '' @ em_dash @
       '' want to pull them in?'',
     \<lambda>name pct. ''Nice momentum, @'' @ name @ '' '' @ em_dash @ '' you're at '' @ pct @
       ''% of the conversation so far. The group might benefit from a few more voices in the mix.'',
     \<lambda>name pct. ''@'' @ name @ '', you've been really active '' @ em_dash @ '' '' @ pct @
       ''% of the airtime! Worth checking in with the quieter folks before you move on?'',
     \<lambda>name pct. ''@'' @ name @ '', you've carried a good chunk of this discussion ('' @ pct @
       ''%). Maybe toss the next question over to someone else in the group?'']"

definition percent :: "rat \<Rightarrow> string" where
  "percent x = show_int (js_round (x * 100))"

definition buildFallbackMessage :: "contribution_share \<Rightarrow> nat \<Rightarrow> string" where
  "buildFallbackMessage target nudgeIndex =
     (NUDGE_TEMPLATES ! (nudgeIndex mod length NUDGE_TEMPLATES))
       (cs_identityName target) (percent (cs_share target))"

record nudge_context =
  nc_targetName :: string
  nc_contributionPercent :: int
  nc_otherParticipantNames :: "string list"
  nc_previousMessages :: "string list"

datatype generated = Gen_Text string | Gen_Null | Gen_Throws

definition buildMessage ::
    "(nudge_context \<Rightarrow> generated) option \<Rightarrow> runtime \<Rightarrow> contribution_share list \<Rightarrow>
       contribution_share \<Rightarrow> nat \<Rightarrow> string" where
  "buildMessage generator rt split target nudgeIndex =
     (let fallback = buildFallbackMessage target nudgeIndex in
      case generator of
        None \<Rightarrow> fallback
      | Some gen \<Rightarrow>
          (case gen \<lparr>nc_targetName = cs_identityName target,
                     nc_contributionPercent = js_round (cs_share target * 100),
                     nc_otherParticipantNames =
                       map cs_identityName (filter (\<lambda>e. cs_userId e \<noteq> cs_userId target) split),
                     nc_previousMessages = map il_message (rn_interventions rt)\<rparr> of
             Gen_Text t \<Rightarrow> t
           | Gen_Null \<Rightarrow> fallback
           | Gen_Throws \<Rightarrow> fallback))"

section \<open>The end of a window\<close>

record window_env =
  ev_llmMode :: "string option"
  ev_members :: "string list option list"
  ev_generator :: "(nudge_context \<Rightarrow> generated) option"
  ev_sendOk :: bool
  ev_evaluationId :: string
  ev_logId :: string
  ev_nowMs :: int

datatype post = Post_Public string string | Post_Private string string string

record window_result =
  wr_runtime :: runtime
  wr_posts :: "post list"
  wr_ok :: bool

definition buildLog ::
    "window_env \<Rightarrow> runtime \<Rightarrow> rat intervention_config \<Rightarrow> llm_mode \<Rightarrow> audience \<Rightarrow>
       contribution_share list \<Rightarrow> contribution_share \<Rightarrow> intervention_target list \<Rightarrow> string \<Rightarrow>
       intervention_log" where
  "buildLog env rt config mode aud split target quiet text =
     \<lparr>il_id = ev_logId env, il_sessionId = rn_sessionId rt, il_roomId = rn_roomId rt,
      il_conditionId = cd_id (rn_condition rt), il_mode = interventionMode config,
      il_audience = aud, il_timestamp = Stamp (ev_nowMs env),
      il_threshold = contributionThreshold config, il_llmMode = mode,
      il_contributionWindowMinutes = contributionWindowMinutes config,
      il_contributionSplit = split, il_targets = [toTarget target], il_quietMembers = quiet,
      il_message = text\<rparr>"

text \<open>The record every boundary leaves; \<open>split\<close>, candidates and maximum where one was computed.\<close>

definition window_record ::
    "window_env \<Rightarrow> runtime \<Rightarrow> rat intervention_config \<Rightarrow> llm_mode \<Rightarrow> rat \<Rightarrow> window_outcome \<Rightarrow>
       contribution_share list \<Rightarrow> string option \<Rightarrow> window_evaluation" where
  "window_record env rt config mode windowEndMs oc split interventionId =
     \<lparr>we_id = ev_evaluationId env, we_sessionId = rn_sessionId rt,
      we_conditionId = cd_id (rn_condition rt),
      we_windowIndex = windowIndex rt config windowEndMs,
      we_windowStart = iso (windowEndMs - contributionWindowMinutes config * 60000),
      we_windowEnd = iso windowEndMs,
      we_contributionWindowMinutes = contributionWindowMinutes config,
      we_llmMode = mode, we_threshold = contributionThreshold config, we_outcome = oc,
      we_contributionSplit = split,
      we_candidateTargets = map toTarget (over_threshold (contributionThreshold config) split),
      we_maxDominanceScore = max_dominance split, we_interventionId = interventionId\<rparr>"

definition getParticipantIds ::
    "string list option list \<Rightarrow> runtime \<Rightarrow> string list \<times> string list option list \<times> runtime" where
  "getParticipantIds net rt =
     (case getParticipantUserIds net rt of
        (Some ids, net', rt') \<Rightarrow> (ids, net', rt')
      | (None, net', rt') \<Rightarrow> (sort (uniq (map ms_senderId (rn_messages rt'))), net', rt'))"

text \<open>The tail of the evaluation: from a computed split to the delivered nudge.\<close>

definition deliver_nudge ::
    "window_env \<Rightarrow> rat intervention_config \<Rightarrow> llm_mode \<Rightarrow> string list option list \<Rightarrow> runtime \<Rightarrow> rat \<Rightarrow>
       contribution_share list \<Rightarrow> audience \<Rightarrow> contribution_share \<Rightarrow> window_result" where
  "deliver_nudge env config mode net rt windowEndMs split aud target =
     (let record_it = (\<lambda>oc iid r. recordWindowEvaluation
            (window_record env rt config mode windowEndMs oc split iid) r);
          quiet = quietestMembers split target (contributionThreshold config);
          text = buildMessage (ev_generator env) rt split target (length (rn_interventions rt))
      in case getActiveParticipantUserIds net rt of
           (None, _, rt') \<Rightarrow> \<lparr>wr_runtime = rt', wr_posts = [], wr_ok = False\<rparr>
         | (Some stillActive, _, rt') \<Rightarrow>
             if length stillActive < 2 \<or> cs_userId target \<notin> set stillActive then
               \<lparr>wr_runtime = record_it
                  (if length stillActive < 2 then Too_Few_Participants else No_Target) None rt',
                wr_posts = [], wr_ok = True\<rparr>
             else if \<not> ev_sendOk env then \<lparr>wr_runtime = rt', wr_posts = [], wr_ok = False\<rparr>
             else
               (let log = buildLog env rt' config mode aud split target quiet text in
                \<lparr>wr_runtime = record_it Nudged (Some (il_id log))
                   (recordIntervention log (setLastIntervention windowEndMs rt')),
                 wr_posts = [if aud = Aud_Public then Post_Public (rn_roomId rt) text
                             else Post_Private (rn_roomId rt) (cs_userId target) text],
                 wr_ok = True\<rparr>))"

text \<open>The middle: split, candidates, audience.\<close>

definition evaluate_split ::
    "window_env \<Rightarrow> rat intervention_config \<Rightarrow> llm_mode \<Rightarrow> string list \<Rightarrow> string list \<Rightarrow>
       string list option list \<Rightarrow> runtime \<Rightarrow> rat \<Rightarrow> window_result" where
  "evaluate_split env config mode roster participantIds net rt0 windowEndMs =
     (let (lastIntervention, rt) = getRuleState rt0;
          warmupEndMs = rn_startedAtMs rt + protectedStartMinutes config * 60000;
          split = contributionSplit (rn_messages rt) (rn_contributionClassifications rt)
            participantIds config windowEndMs mode
            (Some (max (orelse lastIntervention 0) warmupEndMs)) roster;
          candidates = over_threshold (contributionThreshold config) split;
          record_it = (\<lambda>oc. recordWindowEvaluation
            (window_record env rt config mode windowEndMs oc split None) rt);
          aud = audienceForMode (interventionMode config)
      in case candidates of
           [] \<Rightarrow> \<lparr>wr_runtime = record_it No_Target, wr_posts = [], wr_ok = True\<rparr>
         | target # _ \<Rightarrow>
             if aud = Aud_None then
               \<lparr>wr_runtime = record_it Baseline_Suppressed, wr_posts = [], wr_ok = True\<rparr>
             else deliver_nudge env config mode net rt windowEndMs split aud target)"

definition onWindowElapsed :: "window_env \<Rightarrow> runtime \<Rightarrow> rat \<Rightarrow> window_result" where
  "onWindowElapsed env rt windowEndMs =
     (let config = normalizeConfig (cd_config (rn_condition rt));
          mode = resolveLlmMode (ev_llmMode env) config;
          record_it = (\<lambda>oc r. \<lparr>wr_runtime = recordWindowEvaluation
            (window_record env rt config mode windowEndMs oc [] None) r,
            wr_posts = [], wr_ok = True\<rparr>)
      in if \<not> isInsideInterventionWindow rt windowEndMs config then
           (let elapsedMs = max 0 (windowEndMs - rn_startedAtMs rt);
                inWarmup = elapsedMs < protectedStartMinutes config * 60000
            in record_it (if inWarmup then Warm_Up else Wrap_Up) rt)
         else
           (let (roster, net1, rt1) = getParticipantIds (ev_members env) rt in
            case getActiveParticipantUserIds net1 rt1 of
              (None, _, rt2) \<Rightarrow> \<lparr>wr_runtime = rt2, wr_posts = [], wr_ok = False\<rparr>
            | (Some participantIds, net2, rt2) \<Rightarrow>
                if length participantIds < 2 then record_it Too_Few_Participants rt2
                else evaluate_split env config mode roster participantIds net2 rt2 windowEndMs))"


section \<open>Classifying a message\<close>

record timeline_event =
  te_roomId :: string
  te_type :: string
  te_sender :: string
  te_eventId :: string
  te_ts :: int

text \<open>What a classifier is given: the message, its predecessors, the item labels, the roster.\<close>

record classifier_context =
  cx_priorMessages :: "message list"
  cx_taskItems :: "string list"
  cx_participantIds :: "string list"

type_synonym classification_result = "contribution_classification + classification_failure"
type_synonym classifier = "message \<Rightarrow> classifier_context \<Rightarrow> classification_result"

text \<open>The request of \<open>classifyMessage\<close>, made before its only suspension point.\<close>

definition classify_request ::
    "runtime \<Rightarrow> string \<Rightarrow> string list \<Rightarrow> (message \<times> classifier_context) option" where
  "classify_request rt eventId participantIds =
     (case find_index (\<lambda>m. ms_id m = eventId) (rn_messages rt) of
        None \<Rightarrow> None
      | Some messageIndex \<Rightarrow>
          (let m = rn_messages rt ! messageIndex in
           if \<exists>c \<in> set (rn_contributionClassifications rt). cc_messageId c = ms_id m then None
           else Some (m, \<lparr>cx_priorMessages = take messageIndex (rn_messages rt),
                          cx_taskItems = map ri_label (rt_items MOON_SURVIVAL),
                          cx_participantIds = participantIds\<rparr>)))"

definition record_result :: "classification_result \<Rightarrow> runtime \<Rightarrow> runtime" where
  "record_result result rt =
     (case result of Inl c \<Rightarrow> recordClassification c rt
      | Inr f \<Rightarrow> recordClassificationFailure f rt)"

definition classifyMessage ::
    "classifier option \<Rightarrow> runtime \<Rightarrow> string \<Rightarrow> string list \<Rightarrow> runtime" where
  "classifyMessage cl rt eventId participantIds =
     (case cl of None \<Rightarrow> rt
      | Some classify \<Rightarrow>
          (case classify_request rt eventId participantIds of
             None \<Rightarrow> rt
           | Some (m, context) \<Rightarrow> record_result (classify m context) rt))"

definition onEvent ::
    "classifier option \<Rightarrow> string option \<Rightarrow> string list option list \<Rightarrow> runtime \<Rightarrow> timeline_event \<Rightarrow>
       runtime" where
  "onEvent cl envMode net rt event =
     (if te_type event \<noteq> ''m.room.message'' then rt
      else
        (let mode = resolveLlmMode envMode (normalizeConfig (cd_config (rn_condition rt))) in
         if mode = Llm_Off \<or> cl = None then rt
         else
           (let (participantIds, _, rt1) = getParticipantIds net rt in
            classifyMessage cl rt1 (te_eventId event) participantIds)))"

section \<open>Classifications in flight\<close>

text \<open>
  \<open>StudyBotRules\<close> keeps, per runtime, the requests still in flight by event: when the event
  happened and a token of the request. A finished request removes its entry only when the entry
  is still its own.
\<close>

type_synonym pending_map = "(string \<times> int \<times> nat) list"

definition pending_start :: "timeline_event \<Rightarrow> nat \<Rightarrow> pending_map \<Rightarrow> pending_map" where
  "pending_start event request entries = om_set (te_eventId event) (te_ts event, request) entries"

definition pending_finish :: "string \<Rightarrow> nat \<Rightarrow> pending_map \<Rightarrow> pending_map" where
  "pending_finish eventId request entries =
     (if map_option snd (om_get entries eventId) = Some request then om_del eventId entries
      else entries)"

text \<open>The requests a boundary waits for, within the bound \<open>CLASSIFICATION_WAIT_MS\<close>.\<close>

definition CLASSIFICATION_WAIT_MS :: int where
  "CLASSIFICATION_WAIT_MS = 2000"

definition awaited_requests :: "pending_map \<Rightarrow> runtime \<Rightarrow> rat \<Rightarrow> nat list" where
  "awaited_requests entries rt windowEndMs =
     (let config = normalizeConfig (cd_config (rn_condition rt));
          windowStartMs = windowEndMs - contributionWindowMinutes config * 60000
      in map snd (filter (\<lambda>(eventTs, request).
           of_int eventTs \<ge> windowStartMs \<and> of_int eventTs \<le> windowEndMs) (om_values entries)))"

text \<open>
  The race: each request settles after the given time (\<open>None\<close>: never); the evaluation starts at
  the first of all settled and the bound.
\<close>

definition classification_wait :: "(nat \<Rightarrow> int option) \<Rightarrow> pending_map \<Rightarrow> runtime \<Rightarrow> rat \<Rightarrow> int" where
  "classification_wait settles entries rt windowEndMs =
     foldl (\<lambda>t r. max t (case settles r of None \<Rightarrow> CLASSIFICATION_WAIT_MS
               | Some s \<Rightarrow> min s CLASSIFICATION_WAIT_MS))
       0 (awaited_requests entries rt windowEndMs)"

end
