(* ===== verification/Window_Rules.thy ===== *)
theory Window_Rules
  imports Bot_Rules
begin

text \<open>
  What the rules of \<open>Bot_Rules\<close> guarantee: the contribution split counts exactly the messages of
  the closed window after the last reset, shares are a distribution, a boundary leaves exactly
  one record and at most one nudge, and a nudge only ever reaches an active participant who
  dominates.
\<close>

section \<open>The split\<close>

lemma tally_lookup:
  "om_get (tally counted add byUser msgs) u =
     map_option (\<lambda>s. foldl add s (filter (\<lambda>m. counted m \<and> ms_senderId m = u) msgs)) (om_get byUser u)"
proof (induction msgs arbitrary: byUser)
  case (Cons m msgs)
  then show ?case by (auto simp: update_conv' split: option.splits)
qed (simp add: option.map_ident)

lemma initial_stats:
  "om_get (foldl (\<lambda>m i. om_set i v m) m0 ids) u =
     (if u \<in> set ids then Some v else om_get m0 u)"
  by (induction ids arbitrary: m0) (auto simp: update_conv')

definition is_invitation ::
    "llm_mode \<Rightarrow> (string \<times> contribution_classification) list \<Rightarrow> message \<Rightarrow> bool" where
  "is_invitation mode classified m \<longleftrightarrow> mode = Llm_Active \<and>
     (\<exists>c. om_get classified (ms_id m) = Some c \<and> ci_value (cc_invitesParticipation c))"

lemma count_message_alt:
  "count_message mode classified s m =
     (if is_invitation mode classified m then s\<lparr>us_invitationCount := us_invitationCount s + 1\<rparr>
      else s\<lparr>us_messageCount := us_messageCount s + 1,
             us_wordCount := us_wordCount s + countWords (ms_text m),
             us_meaningfulness := us_meaningfulness s @
               (case om_get classified (ms_id m) of None \<Rightarrow> [] | Some c \<Rightarrow> [cc_meaningfulnessScore c])\<rparr>)"
  by (auto simp: count_message_def is_invitation_def Let_def split: option.splits)

lemma count_messages:
  defines "airtime mode classified \<equiv> filter (\<lambda>m. \<not> is_invitation mode classified m)"
  shows "us_messageCount (foldl (count_message mode classified) s msgs) =
      us_messageCount s + length (airtime mode classified msgs)"
    and "us_wordCount (foldl (count_message mode classified) s msgs) =
      us_wordCount s + sum_list (map (\<lambda>m. countWords (ms_text m)) (airtime mode classified msgs))"
    and "us_invitationCount (foldl (count_message mode classified) s msgs) =
      us_invitationCount s + length (filter (is_invitation mode classified) msgs)"
    and "us_meaningfulness (foldl (count_message mode classified) s msgs) =
      us_meaningfulness s @ List.map_filter (\<lambda>m. map_option cc_meaningfulnessScore (om_get classified (ms_id m)))
        (airtime mode classified msgs)"
  unfolding airtime_def
  by (induction msgs arbitrary: s)
    (auto simp: count_message_alt map_filter_simps split: option.splits)

text \<open>The specification of one participant's row: the counted messages, selected by \<open>filter\<close>.\<close>

definition counted_messages ::
    "rat intervention_config \<Rightarrow> rat \<Rightarrow> rat option \<Rightarrow> message list \<Rightarrow> string \<Rightarrow> message list" where
  "counted_messages config nowMs reset messages u =
     filter (\<lambda>m. message_in_window (nowMs - contributionWindowMinutes config * 60000) nowMs reset m
        \<and> ms_senderId m = u) messages"

definition row_stats ::
    "llm_mode \<Rightarrow> contribution_classification list \<Rightarrow> message list \<Rightarrow> user_stats" where
  "row_stats mode classifications msgs =
     (let classified = classification_index classifications;
          airtime = filter (\<lambda>m. \<not> is_invitation mode classified m) msgs
      in \<lparr>us_messageCount = length airtime,
          us_wordCount = sum_list (map (\<lambda>m. countWords (ms_text m)) airtime),
          us_invitationCount = length (filter (is_invitation mode classified) msgs),
          us_meaningfulness = List.map_filter
            (\<lambda>m. map_option cc_meaningfulnessScore (om_get classified (ms_id m))) airtime\<rparr>)"

lemma foldl_count_row_stats:
  "foldl (count_message mode (classification_index classifications)) no_stats msgs =
     row_stats mode classifications msgs"
  by (rule user_stats.equality)
    (simp_all add: row_stats_def Let_def count_messages no_stats_def)

lemma split_byUser:
  assumes "u \<in> set participantIds"
  shows "om_get (tally (message_in_window (nowMs - contributionWindowMinutes config * 60000) nowMs reset)
      (count_message mode (classification_index classifications))
      (foldl (\<lambda>m i. om_set i no_stats m) [] participantIds) messages) u =
    Some (row_stats mode classifications (counted_messages config nowMs reset messages u))"
  using assms
  by (simp add: tally_lookup initial_stats foldl_count_row_stats counted_messages_def)

definition split_rows ::
    "message list \<Rightarrow> contribution_classification list \<Rightarrow> string list \<Rightarrow> rat intervention_config \<Rightarrow>
       rat \<Rightarrow> llm_mode \<Rightarrow> rat option \<Rightarrow> string list \<Rightarrow> contribution_share list" where
  "split_rows messages classifications participantIds config nowMs mode reset roster =
     map (\<lambda>u. raw_share config (buildIdentities roster)
       [(u, row_stats mode classifications (counted_messages config nowMs reset messages u))] u)
       participantIds"

lemma raw_share_lookup:
  "om_get byUser u = Some s \<Longrightarrow> raw_share config identities byUser u = raw_share config identities [(u, s)] u"
  by (simp add: raw_share_def)

text \<open>The loop over a mutable map computes the rows of the specification.\<close>

lemma contributionSplit_rows:
  "contributionSplit messages classifications participantIds config nowMs mode reset roster =
     (let rows = split_rows messages classifications participantIds config nowMs mode reset roster
      in map (finish_share config mode (sum_list (map cs_score rows))) rows)"
proof -
  have "map (raw_share config (buildIdentities roster)
      (tally (message_in_window (nowMs - contributionWindowMinutes config * 60000) nowMs reset)
        (count_message mode (classification_index classifications))
        (foldl (\<lambda>m i. om_set i no_stats m) [] participantIds) messages)) participantIds =
    split_rows messages classifications participantIds config nowMs mode reset roster"
    unfolding split_rows_def by (intro map_cong refl raw_share_lookup split_byUser)
  then show ?thesis unfolding contributionSplit_def Let_def by (simp only:)
qed

lemma finish_share_simps [simp]:
  "cs_userId (finish_share config mode t e) = cs_userId e"
  "cs_identityName (finish_share config mode t e) = cs_identityName e"
  "cs_score (finish_share config mode t e) = cs_score e"
  "cs_messageCount (finish_share config mode t e) = cs_messageCount e"
  "cs_wordCount (finish_share config mode t e) = cs_wordCount e"
  "cs_invitationCount (finish_share config mode t e) = cs_invitationCount e"
  "cs_meaningfulnessScore (finish_share config mode t e) = cs_meaningfulnessScore e"
  "cs_share (finish_share config mode t e) = (if t > 0 then cs_score e / t else 0)"
  by (simp_all add: finish_share_def Let_def)

lemma raw_share_simps [simp]:
  "cs_userId (raw_share config ids byUser u) = u"
  by (simp add: raw_share_def Let_def)

lemma contributionSplit_users [simp]:
  "map cs_userId (contributionSplit messages classifications participantIds config nowMs mode reset roster)
    = participantIds"
  by (simp add: contributionSplit_rows split_rows_def Let_def comp_def)


definition weights_ok :: "rat intervention_config \<Rightarrow> bool" where
  "weights_ok config \<longleftrightarrow> 0 \<le> sw_messages (scoreWeights config) \<and> 0 \<le> sw_words (scoreWeights config)"

lemma raw_score_nonneg: "weights_ok config \<Longrightarrow> 0 \<le> cs_score (raw_share config ids byUser u)"
  by (simp add: raw_share_def Let_def weights_ok_def)

lemma sum_list_divide_rat: "sum_list (map (\<lambda>x. f x / t) xs) = sum_list (map f xs) / (t :: rat)"
  by (induction xs) (simp_all add: add_divide_distrib)

lemma finish_shares_sum:
  fixes rows :: "contribution_share list"
  defines "t \<equiv> sum_list (map cs_score rows)"
  shows "sum_list (map (\<lambda>e. cs_share (finish_share config mode t e)) rows) = (if t > 0 then 1 else 0)"
  using sum_list_divide_rat [of cs_score t rows]
  by (auto simp: t_def)

text \<open>
  In every split the rows are the given participants in the given order, every share lies
  between 0 and 1, and the shares add up to exactly 1 as soon as anybody scored at all (and to 0
  when nobody did); the weights only have to be non-negative.
\<close>

theorem split_shares_distribution:
  assumes "weights_ok config"
    and "split = contributionSplit messages classifications participantIds config nowMs mode reset roster"
  shows "map cs_userId split = participantIds \<and>
    (\<forall>e \<in> set split. 0 \<le> cs_share e \<and> cs_share e \<le> 1) \<and>
    sum_list (map cs_share split) = (if (\<exists>e \<in> set split. cs_score e > 0) then 1 else 0)"
proof -
  define rows where "rows = split_rows messages classifications participantIds config nowMs mode reset roster"
  define t where "t = sum_list (map cs_score rows)"
  have split: "split = map (finish_share config mode t) rows"
    by (simp add: assms(2) contributionSplit_rows rows_def t_def Let_def)
  have nonneg: "0 \<le> cs_score e" if "e \<in> set rows" for e
    using that assms(1) by (auto simp: rows_def split_rows_def raw_score_nonneg)
  have le: "cs_score e \<le> t" if "e \<in> set rows" for e
    unfolding t_def using that nonneg by (rule member_le_sum_list_rat)
  have pos: "t > 0 \<longleftrightarrow> (\<exists>e \<in> set rows. cs_score e > 0)"
  proof
    assume "t > 0"
    then show "\<exists>e \<in> set rows. cs_score e > 0"
      unfolding t_def by (metis nonneg less_irrefl linorder_not_less sum_list_nonpos imageE order.antisym set_map)
  next
    assume "\<exists>e \<in> set rows. cs_score e > 0"
    then show "t > 0" using le by (meson less_le_trans)
  qed
  have "sum_list (map cs_share split) = (if t > 0 then 1 else 0)"
    using finish_shares_sum [of config mode rows] by (simp add: split t_def comp_def)
  moreover have "\<forall>e \<in> set split. 0 \<le> cs_share e \<and> cs_share e \<le> 1"
    using nonneg le by (auto simp: split divide_le_eq_1)
  moreover have "map cs_userId split = participantIds" by (simp add: assms(2))
  ultimately show ?thesis using pos by (simp add: split)
qed

text \<open>
  The split is the specification by selection: with \<open>ms\<close> the messages of a participant that
  lie in the window after the reset, the row's counts are those of \<open>ms\<close> (invitations left out
  and counted apart), its score the weighted sum, and its meaningfulness the mean of the
  classified ones; messages outside the window or up to the reset leave no trace.
\<close>

theorem split_counts_window:
  assumes "i < length participantIds"
  shows "let e = contributionSplit messages classifications participantIds config nowMs mode reset roster ! i;
      s = row_stats mode classifications (counted_messages config nowMs reset messages (participantIds ! i))
    in cs_userId e = participantIds ! i \<and> cs_messageCount e = us_messageCount s \<and>
       cs_wordCount e = us_wordCount s \<and> cs_invitationCount e = Some (us_invitationCount s) \<and>
       cs_score e = of_nat (us_messageCount s) * sw_messages (scoreWeights config) +
         of_nat (us_wordCount s) * sw_words (scoreWeights config) \<and>
       cs_meaningfulnessScore e = mean_or_zero (us_meaningfulness s)"
  using assms
  by (simp add: contributionSplit_rows split_rows_def raw_share_def orelse_def)


section \<open>The end of a window\<close>

text \<open>Asking for members only ever fills the roster cache.\<close>

definition same_record :: "runtime \<Rightarrow> runtime \<Rightarrow> bool" where
  "same_record rt rt' \<longleftrightarrow> rt' = rt\<lparr>rn_participantUserIds := rn_participantUserIds rt'\<rparr>"

lemma same_record_fields:
  assumes "same_record rt rt'"
  shows "rn_windowEvaluations rt' = rn_windowEvaluations rt"
    "rn_interventions rt' = rn_interventions rt" "rn_messages rt' = rn_messages rt"
    "rn_contributionClassifications rt' = rn_contributionClassifications rt"
    "rn_sessionId rt' = rn_sessionId rt" "rn_roomId rt' = rn_roomId rt"
    "rn_condition rt' = rn_condition rt" "rn_startedAtMs rt' = rn_startedAtMs rt"
    "rn_durationMinutes rt' = rn_durationMinutes rt" "rn_state rt' = rn_state rt"
    "rn_classificationFailures rt' = rn_classificationFailures rt"
proof -
  obtain x where "rt' = rt\<lparr>rn_participantUserIds := x\<rparr>"
    using assms unfolding same_record_def by blast
  then show "rn_windowEvaluations rt' = rn_windowEvaluations rt"
    "rn_interventions rt' = rn_interventions rt" "rn_messages rt' = rn_messages rt"
    "rn_contributionClassifications rt' = rn_contributionClassifications rt"
    "rn_sessionId rt' = rn_sessionId rt" "rn_roomId rt' = rn_roomId rt"
    "rn_condition rt' = rn_condition rt" "rn_startedAtMs rt' = rn_startedAtMs rt"
    "rn_durationMinutes rt' = rn_durationMinutes rt" "rn_state rt' = rn_state rt"
    "rn_classificationFailures rt' = rn_classificationFailures rt"
    by simp_all
qed

lemma same_record_refl [simp]: "same_record rt rt"
  by (simp add: same_record_def)

lemma same_record_cache [simp]: "same_record rt (rt\<lparr>rn_participantUserIds := x\<rparr>)"
  by (simp add: same_record_def)

lemma same_record_trans: "same_record a b \<Longrightarrow> same_record b c \<Longrightarrow> same_record a c"
  unfolding same_record_def by (metis runtime.update_convs(18) runtime.surjective)

lemma next_members_Some: "next_members net = (Some x, net') \<longleftrightarrow> net = Some x # net'"
  by (cases net) auto

lemma roster_same:
  "getParticipantUserIds net rt = (r, net', rt') \<Longrightarrow> same_record rt rt'"
  by (auto simp: getParticipantUserIds_def Let_def split: option.splits prod.splits)

lemma roster_answer:
  "getParticipantUserIds net rt = (Some ids, net', rt') \<Longrightarrow>
     rn_participantUserIds rt' = Some ids \<and> (\<exists>pre. net = pre @ net')"
  by (auto simp: getParticipantUserIds_def Let_def next_members_Some
      split: option.splits prod.splits)

lemma active_same:
  "getActiveParticipantUserIds net rt = (r, net', rt') \<Longrightarrow> same_record rt rt'"
  by (auto simp: getActiveParticipantUserIds_def split: option.splits prod.splits dest: roster_same)

lemma active_answer:
  assumes "getActiveParticipantUserIds net rt = (Some act, net', rt')"
  shows "\<exists>pre joined roster. net = pre @ Some joined # net' \<and> act = filter (\<lambda>i. i \<in> set roster) joined
    \<and> rn_participantUserIds rt' = Some roster \<and> (rn_participantUserIds rt \<noteq> None \<longrightarrow> pre = [])"
proof -
  obtain roster net1 joined where
    roster: "getParticipantUserIds net rt = (Some roster, net1, rt')"
    and net1: "next_members net1 = (Some joined, net')"
    and act: "act = filter (\<lambda>i. i \<in> set roster) joined"
    using assms unfolding getActiveParticipantUserIds_def
    by (auto split: option.splits prod.splits)
  have cached: "rn_participantUserIds rt \<noteq> None \<Longrightarrow> net1 = net"
    using roster by (auto simp: getParticipantUserIds_def)
  from roster_answer [OF roster] obtain pre where pre: "net = pre @ net1"
    and r: "rn_participantUserIds rt' = Some roster" by blast
  from net1 have "net1 = Some joined # net'" by (simp add: next_members_Some)
  with pre act r cached show ?thesis by (cases "rn_participantUserIds rt = None") auto
qed

lemma getParticipantIds_same:
  "getParticipantIds net rt = (ids, net', rt') \<Longrightarrow> same_record rt rt'"
  by (auto simp: getParticipantIds_def split: option.splits prod.splits dest: roster_same)

lemma getParticipantIds_net:
  "getParticipantIds net rt = (ids, net', rt') \<Longrightarrow> \<exists>pre. net = pre @ net'"
proof -
  assume a: "getParticipantIds net rt = (ids, net', rt')"
  obtain r n t where g: "getParticipantUserIds net rt = (r, n, t)" by (cases "getParticipantUserIds net rt")
  have "\<exists>pre. net = pre @ n"
  proof (cases r)
    case None
    with g show ?thesis
      by (cases net) (auto simp: getParticipantUserIds_def Let_def split: option.splits prod.splits)
  next
    case (Some x) with g roster_answer show ?thesis by blast
  qed
  with a g show ?thesis by (auto simp: getParticipantIds_def split: option.splits)
qed


text \<open>What one evaluation may do to the record: nothing, one quiet record, or one nudge.\<close>

definition window_effect :: "rat \<Rightarrow> runtime \<Rightarrow> window_result \<Rightarrow> bool" where
  "window_effect windowEndMs rt r \<longleftrightarrow>
     rn_messages (wr_runtime r) = rn_messages rt \<and>
     (if \<not> wr_ok r then
        rn_windowEvaluations (wr_runtime r) = rn_windowEvaluations rt \<and>
        rn_interventions (wr_runtime r) = rn_interventions rt \<and> wr_posts r = []
      else
        (\<exists>e. rn_windowEvaluations (wr_runtime r) = rn_windowEvaluations rt @ [e] \<and>
           we_windowEnd e = iso windowEndMs \<and>
           (if we_outcome e = Nudged then
              \<exists>log p. rn_interventions (wr_runtime r) = rn_interventions rt @ [log] \<and>
                we_interventionId e = Some (il_id log) \<and> wr_posts r = [p]
            else rn_interventions (wr_runtime r) = rn_interventions rt \<and>
              we_interventionId e = None \<and> wr_posts r = [])))"

lemma window_record_simps [simp]:
  "we_outcome (window_record env rt config mode t oc split iid) = oc"
  "we_interventionId (window_record env rt config mode t oc split iid) = iid"
  "we_windowEnd (window_record env rt config mode t oc split iid) = iso t"
  "we_contributionSplit (window_record env rt config mode t oc split iid) = split"
  by (simp_all add: window_record_def)

lemma recordings [simp]:
  "rn_windowEvaluations (recordWindowEvaluation e rt) = rn_windowEvaluations rt @ [e]"
  "rn_interventions (recordWindowEvaluation e rt) = rn_interventions rt"
  "rn_messages (recordWindowEvaluation e rt) = rn_messages rt"
  "rn_state (recordWindowEvaluation e rt) = rn_state rt"
  "rn_windowEvaluations (recordIntervention i rt) = rn_windowEvaluations rt"
  "rn_interventions (recordIntervention i rt) = rn_interventions rt @ [i]"
  "rn_messages (recordIntervention i rt) = rn_messages rt"
  "rn_state (recordIntervention i rt) = rn_state rt"
  "rn_windowEvaluations (setLastIntervention x rt) = rn_windowEvaluations rt"
  "rn_interventions (setLastIntervention x rt) = rn_interventions rt"
  "rn_messages (setLastIntervention x rt) = rn_messages rt"
  "rn_state (setLastIntervention x rt) = om_set STATE_KEY (Some x) (rn_state rt)"
  by (simp_all add: recordWindowEvaluation_def recordIntervention_def setLastIntervention_def)

lemma getRuleState_record:
  "rn_windowEvaluations (snd (getRuleState rt)) = rn_windowEvaluations rt"
  "rn_interventions (snd (getRuleState rt)) = rn_interventions rt"
  "rn_messages (snd (getRuleState rt)) = rn_messages rt"
  by (simp_all add: getRuleState_def Let_def)

lemma deliver_nudge_effect:
  "window_effect t rt (deliver_nudge env config mode net rt t split aud target)"
proof -
  obtain act net' rt' where a: "getActiveParticipantUserIds net rt = (act, net', rt')"
    by (cases "getActiveParticipantUserIds net rt")
  note same = same_record_fields [OF active_same [OF a]]
  show ?thesis
    by (cases act) (auto simp: window_effect_def deliver_nudge_def a same Let_def)
qed

lemma window_effect_from:
  assumes "window_effect t rt' r"
    and same: "rn_windowEvaluations rt' = rn_windowEvaluations rt"
      "rn_interventions rt' = rn_interventions rt" "rn_messages rt' = rn_messages rt"
  shows "window_effect t rt r"
  using assms(1) unfolding window_effect_def same .

lemma evaluate_split_effect:
  "window_effect t rt (evaluate_split env config mode roster ids net rt t)"
proof -
  obtain l rt' where g: "getRuleState rt = (l, rt')" by (cases "getRuleState rt")
  note same = getRuleState_record [of rt, unfolded g snd_conv]
  have "window_effect t rt' (evaluate_split env config mode roster ids net rt t)"
    using deliver_nudge_effect
    by (simp add: evaluate_split_def g Let_def split: list.split) (simp add: window_effect_def)
  then show ?thesis by (rule window_effect_from) (simp_all add: same)
qed

lemma quiet_effect:
  assumes "same_record rt rt'" and "oc \<noteq> Nudged"
  shows "window_effect t rt \<lparr>wr_runtime = recordWindowEvaluation
    (window_record env rt0 config mode t oc [] None) rt', wr_posts = [], wr_ok = True\<rparr>"
  using assms(2) by (simp add: window_effect_def same_record_fields [OF assms(1)])

lemma failed_effect:
  "same_record rt rt' \<Longrightarrow> window_effect t rt \<lparr>wr_runtime = rt', wr_posts = [], wr_ok = False\<rparr>"
  by (simp add: window_effect_def same_record_fields)

lemma onWindowElapsed_effect: "window_effect t rt (onWindowElapsed env rt t)"
proof -
  obtain roster net1 rt1 where 1: "getParticipantIds (ev_members env) rt = (roster, net1, rt1)"
    by (cases "getParticipantIds (ev_members env) rt")
  obtain act net2 rt2 where 2: "getActiveParticipantUserIds net1 rt1 = (act, net2, rt2)"
    by (cases "getActiveParticipantUserIds net1 rt1")
  have same: "same_record rt rt2"
    by (rule same_record_trans [OF getParticipantIds_same [OF 1] active_same [OF 2]])
  have eval: "window_effect t rt (evaluate_split env config mode roster ids net2 rt2 t)"
    for config mode ids
    by (rule window_effect_from [OF evaluate_split_effect]) (simp_all add: same_record_fields [OF same])
  show ?thesis
    unfolding onWindowElapsed_def Let_def 1 prod.case 2
    by (cases act) (auto intro: quiet_effect failed_effect same eval)
qed


section \<open>Who is nudged\<close>

lemma over_threshold_head:
  assumes "over_threshold th split = e # rest"
  shows "e \<in> set split" and "th \<le> cs_dominanceScore e"
    and "o' \<in> set split \<Longrightarrow> cs_dominanceScore o' \<le> cs_dominanceScore e"
proof -
  let ?over = "filter (\<lambda>e. cs_dominanceScore e \<ge> th) split"
  have "e \<in> set (over_threshold th split)" by (simp add: assms)
  then show e: "e \<in> set split" "th \<le> cs_dominanceScore e"
    by (simp_all add: over_threshold_def)
  show "cs_dominanceScore o' \<le> cs_dominanceScore e" if "o' \<in> set split"
  proof (cases "cs_dominanceScore o' \<ge> th")
    case True
    with that have "o' \<in> set ?over" by simp
    from sort_key_hd_le [OF assms [unfolded over_threshold_def] this]
    show ?thesis by (auto simp: less_eq_prod_def)
  qed (use e in simp)
qed

lemma over_threshold_Nil [simp]:
  "over_threshold th split = [] \<longleftrightarrow> (\<forall>e \<in> set split. cs_dominanceScore e < th)"
  by (auto simp: over_threshold_def filter_empty_conv)

lemma deliver_nudge_posts:
  assumes "wr_posts (deliver_nudge env config mode net rt t split aud target) \<noteq> []"
    and "getActiveParticipantUserIds net rt = (act, net', rt')"
  shows "\<exists>active. act = Some active \<and> 2 \<le> length active \<and> cs_userId target \<in> set active \<and>
    (\<exists>log. rn_interventions (wr_runtime (deliver_nudge env config mode net rt t split aud target)) =
        rn_interventions rt @ [log] \<and>
      il_targets log = [toTarget target] \<and> il_contributionSplit log = split \<and>
      il_quietMembers log = quietestMembers split target (contributionThreshold config) \<and>
      wr_posts (deliver_nudge env config mode net rt t split aud target) =
        [if aud = Aud_Public then Post_Public (rn_roomId rt) (il_message log)
         else Post_Private (rn_roomId rt) (cs_userId target) (il_message log)])"
  using assms(1) unfolding deliver_nudge_def assms(2) Let_def
  by (auto simp: buildLog_def same_record_fields [OF active_same [OF assms(2)]]
      split: option.splits if_splits)

text \<open>The split a boundary works with: the closed window after the last reset and the warm-up.\<close>

definition window_split ::
    "window_env \<Rightarrow> runtime \<Rightarrow> rat \<Rightarrow> string list \<Rightarrow> string list \<Rightarrow> contribution_share list" where
  "window_split env rt t participantIds roster =
     (let config = normalizeConfig (cd_config (rn_condition rt))
      in contributionSplit (rn_messages rt) (rn_contributionClassifications rt) participantIds config t
        (resolveLlmMode (ev_llmMode env) config)
        (Some (max (orelse (orelse (om_get (rn_state rt) STATE_KEY) None) 0)
           (rn_startedAtMs rt + protectedStartMinutes config * 60000))) roster)"

text \<open>Everything a delivered nudge is entitled to, as one predicate over the log it leaves.\<close>

definition nudge_entitled ::
    "window_env \<Rightarrow> runtime \<Rightarrow> rat \<Rightarrow> intervention_log \<Rightarrow> contribution_share \<Rightarrow> bool" where
  "nudge_entitled env rt t entry e \<longleftrightarrow>
     (let config = normalizeConfig (cd_config (rn_condition rt))
      in interventionMode config \<noteq> Mode_Baseline \<and> isInsideInterventionWindow rt t config \<and>
         (\<exists>pre before active rest cached roster.
            ev_members env = pre @ Some before # Some active # rest \<and>
            cs_userId e \<in> set before \<and> cs_userId e \<in> set active \<and> 2 \<le> length active \<and>
            il_contributionSplit entry =
              window_split env rt t (filter (\<lambda>i. i \<in> set cached) before) roster) \<and>
         e \<in> set (il_contributionSplit entry) \<and> il_targets entry = [toTarget e] \<and>
         contributionThreshold config \<le> cs_dominanceScore e \<and>
         (\<forall>other \<in> set (il_contributionSplit entry). cs_dominanceScore other \<le> cs_dominanceScore e) \<and>
         il_quietMembers entry =
           quietestMembers (il_contributionSplit entry) e (contributionThreshold config))"

lemma onWindowElapsed_posts:
  assumes "wr_posts (onWindowElapsed env rt t) \<noteq> []"
  obtains roster net1 rt1 ids net2 rt2 where
    "getParticipantIds (ev_members env) rt = (roster, net1, rt1)"
    "getActiveParticipantUserIds net1 rt1 = (Some ids, net2, rt2)"
    "isInsideInterventionWindow rt t (normalizeConfig (cd_config (rn_condition rt)))"
    "onWindowElapsed env rt t = evaluate_split env (normalizeConfig (cd_config (rn_condition rt)))
       (resolveLlmMode (ev_llmMode env) (normalizeConfig (cd_config (rn_condition rt))))
       roster ids net2 rt2 t"
proof -
  obtain roster net1 rt1 where 1: "getParticipantIds (ev_members env) rt = (roster, net1, rt1)"
    by (cases "getParticipantIds (ev_members env) rt")
  obtain act net2 rt2 where 2: "getActiveParticipantUserIds net1 rt1 = (act, net2, rt2)"
    by (cases "getActiveParticipantUserIds net1 rt1")
  show thesis
  proof (cases act)
    case None
    with assms show ?thesis by (auto simp: onWindowElapsed_def Let_def 1 2 split: if_splits)
  next
    case (Some ids)
    with assms that [OF 1 2 [unfolded Some]] show ?thesis
      by (auto simp: onWindowElapsed_def Let_def 1 2 split: if_splits)
  qed
qed

lemma evaluate_split_posts:
  assumes "wr_posts (evaluate_split env config mode roster ids net rt t) \<noteq> []"
    and "getRuleState rt = (l, rt1)"
    and "split = contributionSplit (rn_messages rt1) (rn_contributionClassifications rt1) ids config t mode
      (Some (max (orelse l 0) (rn_startedAtMs rt1 + protectedStartMinutes config * 60000))) roster"
  obtains target rest where "over_threshold (contributionThreshold config) split = target # rest"
    "audienceForMode (interventionMode config) \<noteq> Aud_None"
    "evaluate_split env config mode roster ids net rt t = deliver_nudge env config mode net rt1 t split
      (audienceForMode (interventionMode config)) target"
  using assms
  by (auto simp: evaluate_split_def Let_def split: list.splits if_splits)


lemma active_ids:
  assumes "getActiveParticipantUserIds net1 rt1 = (Some ids, net2, rt2)"
    and "getActiveParticipantUserIds net2 rt3 = (Some active, net3, rt4)"
    and "rn_participantUserIds rt3 = rn_participantUserIds rt2"
  shows "\<exists>pre before joined roster. net1 = pre @ Some before # Some joined # net3 \<and>
    ids = filter (\<lambda>i. i \<in> set roster) before \<and> active = filter (\<lambda>i. i \<in> set roster) joined"
proof -
  obtain pre before roster where 1: "net1 = pre @ Some before # net2"
      "ids = filter (\<lambda>i. i \<in> set roster) before" "rn_participantUserIds rt2 = Some roster"
    using active_answer [OF assms(1)] by blast
  obtain pre' joined roster' where 2: "net2 = pre' @ Some joined # net3"
      "active = filter (\<lambda>i. i \<in> set roster') joined" "rn_participantUserIds rt4 = Some roster'"
      "rn_participantUserIds rt3 \<noteq> None \<longrightarrow> pre' = []"
    using active_answer [OF assms(2)] by blast
  have "roster' = roster"
    using assms(2,3) 1(3) 2(3)
    by (auto simp: getActiveParticipantUserIds_def getParticipantUserIds_def split: option.splits prod.splits)
  with 1 2 assms(3) show ?thesis by auto
qed

lemma getRuleState_keeps:
  assumes "getRuleState rt = (l, rt')"
  shows "l = orelse (om_get (rn_state rt) STATE_KEY) None" "rn_roomId rt' = rn_roomId rt"
    "rn_participantUserIds rt' = rn_participantUserIds rt" "rn_messages rt' = rn_messages rt"
    "rn_contributionClassifications rt' = rn_contributionClassifications rt"
    "rn_startedAtMs rt' = rn_startedAtMs rt" "rn_interventions rt' = rn_interventions rt"
    "rn_windowEvaluations rt' = rn_windowEvaluations rt"
  using assms by (auto simp: getRuleState_def Let_def)

text \<open>The path of an evaluation that posts, with the answers it consumed.\<close>

lemma nudge_path:
  assumes posted: "wr_posts (onWindowElapsed env rt t) \<noteq> []"
    and config: "config = normalizeConfig (cd_config (rn_condition rt))"
    and mode: "mode = resolveLlmMode (ev_llmMode env) config"
    and reset: "reset = max (orelse (orelse (om_get (rn_state rt) STATE_KEY) None) 0)
        (rn_startedAtMs rt + protectedStartMinutes config * 60000)"
  obtains pre before joined rest cached roster split target others entry where
    "ev_members env = pre @ Some before # Some joined # rest"
    "split = contributionSplit (rn_messages rt) (rn_contributionClassifications rt)
      (filter (\<lambda>i. i \<in> set cached) before) config t mode (Some reset) roster"
    "over_threshold (contributionThreshold config) split = target # others"
    "isInsideInterventionWindow rt t config" "interventionMode config \<noteq> Mode_Baseline"
    "2 \<le> length (filter (\<lambda>i. i \<in> set cached) joined)" "cs_userId target \<in> set joined"
    "rn_interventions (wr_runtime (onWindowElapsed env rt t)) = rn_interventions rt @ [entry]"
    "il_targets entry = [toTarget target]" "il_contributionSplit entry = split"
    "il_quietMembers entry = quietestMembers split target (contributionThreshold config)"
    "wr_posts (onWindowElapsed env rt t) =
        [if audienceForMode (interventionMode config) = Aud_Public
         then Post_Public (rn_roomId rt) (il_message entry)
         else Post_Private (rn_roomId rt) (cs_userId target) (il_message entry)]"
proof -
  obtain roster net1 rt1 ids net2 rt2 where
    1: "getParticipantIds (ev_members env) rt = (roster, net1, rt1)" and
    2: "getActiveParticipantUserIds net1 rt1 = (Some ids, net2, rt2)" and
    inside: "isInsideInterventionWindow rt t config" and
    eval: "onWindowElapsed env rt t = evaluate_split env config mode roster ids net2 rt2 t"
    using onWindowElapsed_posts [OF posted] unfolding config mode .
  note same = same_record_fields [OF same_record_trans [OF getParticipantIds_same [OF 1] active_same [OF 2]]]
  obtain l rt3 where 3: "getRuleState rt2 = (l, rt3)" by (cases "getRuleState rt2")
  note keeps = getRuleState_keeps [OF 3] same
  define split where "split = contributionSplit (rn_messages rt3) (rn_contributionClassifications rt3) ids
    config t mode (Some (max (orelse l 0) (rn_startedAtMs rt3 + protectedStartMinutes config * 60000))) roster"
  obtain target others where over: "over_threshold (contributionThreshold config) split = target # others"
    and aud: "audienceForMode (interventionMode config) \<noteq> Aud_None"
    and dlv: "evaluate_split env config mode roster ids net2 rt2 t = deliver_nudge env config mode net2 rt3 t
      split (audienceForMode (interventionMode config)) target"
    using evaluate_split_posts [OF posted [unfolded eval] 3 split_def] .
  obtain act net3 rt4 where 4: "getActiveParticipantUserIds net2 rt3 = (act, net3, rt4)"
    by (cases "getActiveParticipantUserIds net2 rt3")
  from deliver_nudge_posts [OF posted [unfolded eval dlv] 4] obtain active entry where
    act: "act = Some active" "2 \<le> length active" "cs_userId target \<in> set active" and
    entry: "rn_interventions (wr_runtime (onWindowElapsed env rt t)) = rn_interventions rt3 @ [entry]"
      "il_targets entry = [toTarget target]" "il_contributionSplit entry = split"
      "il_quietMembers entry = quietestMembers split target (contributionThreshold config)"
      "wr_posts (onWindowElapsed env rt t) =
        [if audienceForMode (interventionMode config) = Aud_Public then Post_Public (rn_roomId rt3) (il_message entry)
         else Post_Private (rn_roomId rt3) (cs_userId target) (il_message entry)]"
    unfolding eval dlv by blast
  obtain pre before joined cached where
    nets: "net1 = pre @ Some before # Some joined # net3"
      "ids = filter (\<lambda>i. i \<in> set cached) before" "active = filter (\<lambda>i. i \<in> set cached) joined"
    using active_ids [OF 2 4 [unfolded act(1)] keeps(3)] by blast
  obtain pre0 where pre0: "ev_members env = pre0 @ net1" using getParticipantIds_net [OF 1] by blast
  show thesis
  proof (rule that [OF _ _ over inside])
    show "ev_members env = (pre0 @ pre) @ Some before # Some joined # net3" by (simp add: pre0 nets(1))
    show "split = contributionSplit (rn_messages rt) (rn_contributionClassifications rt)
      (filter (\<lambda>i. i \<in> set cached) before) config t mode (Some reset) roster"
      by (simp add: split_def keeps nets(2) reset)
  qed (use act aud nets(3) entry keeps in auto)
qed


text \<open>
  C14: A posted nudge is always justified: the arm is not the baseline, the boundary lies inside
  the intervention window, the target was in the room both when the split was computed and again
  right before posting (with somebody else present), the logged split is the split of the closed
  window after the last reset, the target reaches the threshold and nobody dominates more; the
  message is the logged one and goes to the room in the public arm, to the target alone in the
  private one.
\<close>

theorem nudge_justified:
  assumes "wr_posts (onWindowElapsed env rt t) \<noteq> []"
  shows "\<exists>entry e. nudge_entitled env rt t entry e \<and>
    rn_interventions (wr_runtime (onWindowElapsed env rt t)) = rn_interventions rt @ [entry] \<and>
    wr_posts (onWindowElapsed env rt t) =
      [if interventionMode (normalizeConfig (cd_config (rn_condition rt))) = Mode_Public
       then Post_Public (rn_roomId rt) (il_message entry)
       else Post_Private (rn_roomId rt) (cs_userId e) (il_message entry)]"
proof -
  let ?config = "normalizeConfig (cd_config (rn_condition rt))"
  obtain pre before joined rest cached roster split target others entry where path:
    "ev_members env = pre @ Some before # Some joined # rest"
    "split = contributionSplit (rn_messages rt) (rn_contributionClassifications rt)
      (filter (\<lambda>i. i \<in> set cached) before) ?config t (resolveLlmMode (ev_llmMode env) ?config)
      (Some (max (orelse (orelse (om_get (rn_state rt) STATE_KEY) None) 0)
        (rn_startedAtMs rt + protectedStartMinutes ?config * 60000))) roster"
    "over_threshold (contributionThreshold ?config) split = target # others"
    "isInsideInterventionWindow rt t ?config" "interventionMode ?config \<noteq> Mode_Baseline"
    "2 \<le> length (filter (\<lambda>i. i \<in> set cached) joined)" "cs_userId target \<in> set joined"
    "rn_interventions (wr_runtime (onWindowElapsed env rt t)) = rn_interventions rt @ [entry]"
    "il_targets entry = [toTarget target]" "il_contributionSplit entry = split"
    "il_quietMembers entry = quietestMembers split target (contributionThreshold ?config)"
    "wr_posts (onWindowElapsed env rt t) =
        [if audienceForMode (interventionMode ?config) = Aud_Public
         then Post_Public (rn_roomId rt) (il_message entry)
         else Post_Private (rn_roomId rt) (cs_userId target) (il_message entry)]"
    by (rule nudge_path [OF assms refl refl refl])
  note head = over_threshold_head [OF path(3)]
  have "map cs_userId split = filter (\<lambda>i. i \<in> set cached) before" by (simp add: path(2))
  with head(1) have "cs_userId target \<in> set before"
    by (metis filter_is_subset image_eqI set_map subsetD)
  moreover have "2 \<le> length joined"
    using path(6) length_filter_le [of "\<lambda>i. i \<in> set cached" joined] by linarith
  ultimately have "nudge_entitled env rt t entry target"
    unfolding nudge_entitled_def window_split_def Let_def path(10)
    using path(1,2,4,5,7,9,11) head by blast
  moreover have "audienceForMode (interventionMode ?config) = Aud_Public \<longleftrightarrow> interventionMode ?config = Mode_Public"
    by (cases "interventionMode ?config") (simp_all add: audienceForMode_def)
  ultimately show ?thesis using path by auto
qed

section \<open>Parity after a nudge\<close>

lemma counted_none:
  assumes "\<And>m. m \<in> set messages \<Longrightarrow> \<exists>ms. parse_ms (ms_timestamp m) = Some ms \<and> of_int ms \<le> r"
  shows "counted_messages config t (Some r) messages u = []"
  using assms by (force simp: counted_messages_def filter_empty_conv message_in_window_def)

lemma parity_split:
  assumes "\<And>m. m \<in> set messages \<Longrightarrow> \<exists>ms. parse_ms (ms_timestamp m) = Some ms \<and> of_int ms \<le> r"
    and "e \<in> set (contributionSplit messages classifications ids config t mode (Some r) roster)"
  shows "cs_dominanceScore e = 0"
proof -
  have rows: "cs_score x = 0 \<and> cs_meaningfulnessScore x = 0"
    if "x \<in> set (split_rows messages classifications ids config t mode (Some r) roster)" for x
    using that counted_none [OF assms(1)]
    by (auto simp: split_rows_def raw_share_def row_stats_def mean_or_zero_def map_filter_simps)
  obtain x where x: "x \<in> set (split_rows messages classifications ids config t mode (Some r) roster)"
    and e: "e = finish_share config mode (sum_list (map cs_score
      (split_rows messages classifications ids config t mode (Some r) roster))) x"
    using assms(2) by (auto simp: contributionSplit_rows Let_def)
  show ?thesis using rows [OF x] by (simp add: e finish_share_def Let_def)
qed

definition same_study :: "runtime \<Rightarrow> runtime \<Rightarrow> bool" where
  "same_study rt rt' \<longleftrightarrow> rn_messages rt' = rn_messages rt \<and> rn_condition rt' = rn_condition rt \<and>
     rn_startedAtMs rt' = rn_startedAtMs rt \<and> rn_durationMinutes rt' = rn_durationMinutes rt"

lemma same_study_steps:
  "same_record rt rt' \<Longrightarrow> same_study rt rt'"
  "same_study rt (recordWindowEvaluation e rt') = same_study rt rt'"
  "same_study rt (recordIntervention i rt') = same_study rt rt'"
  "same_study rt (setLastIntervention x rt') = same_study rt rt'"
  "same_study rt (snd (getRuleState rt')) = same_study rt rt'"
  by (simp_all add: same_study_def same_record_fields recordWindowEvaluation_def
      recordIntervention_def setLastIntervention_def getRuleState_def Let_def)

lemma deliver_nudge_study:
  assumes "same_study rt0 rt"
  shows "same_study rt0 (wr_runtime (deliver_nudge env config mode net rt t split aud target))"
proof -
  obtain act net' rt' where a: "getActiveParticipantUserIds net rt = (act, net', rt')"
    by (cases "getActiveParticipantUserIds net rt")
  have "same_study rt0 rt'"
    using assms same_study_steps(1) [OF active_same [OF a]] by (simp add: same_study_def)
  then show ?thesis by (simp add: deliver_nudge_def a Let_def same_study_steps(2-) split: option.split)
qed

lemma onWindowElapsed_study: "same_study rt (wr_runtime (onWindowElapsed env rt t))"
proof -
  obtain roster net1 rt1 where 1: "getParticipantIds (ev_members env) rt = (roster, net1, rt1)"
    by (cases "getParticipantIds (ev_members env) rt")
  obtain act net2 rt2 where 2: "getActiveParticipantUserIds net1 rt1 = (act, net2, rt2)"
    by (cases "getActiveParticipantUserIds net1 rt1")
  have same: "same_study rt rt2"
    by (rule same_study_steps(1) [OF same_record_trans [OF getParticipantIds_same [OF 1] active_same [OF 2]]])
  have eval: "same_study rt (wr_runtime (evaluate_split env config mode roster ids net2 rt2 t))" for config mode ids
  proof -
    obtain l rt3 where g: "getRuleState rt2 = (l, rt3)" by (cases "getRuleState rt2")
    have "same_study rt rt3" using same same_study_steps(5) [of rt rt2] g by simp
    then show ?thesis
      by (simp add: evaluate_split_def g Let_def same_study_steps(2-) deliver_nudge_study split: list.split)
  qed
  show ?thesis
    unfolding onWindowElapsed_def Let_def 1 prod.case 2
    by (cases act) (simp_all add: same_study_steps(2-) same_study_steps(1) [OF same_record_refl] same eval)
qed

lemma deliver_nudge_state:
  "wr_posts (deliver_nudge env config mode net rt t split aud target) \<noteq> [] \<Longrightarrow>
     om_get (rn_state (wr_runtime (deliver_nudge env config mode net rt t split aud target))) STATE_KEY
       = Some (Some t)"
  by (auto simp: deliver_nudge_def Let_def update_conv' split: option.splits prod.splits if_splits)

lemma nudge_stamps_reset:
  assumes "wr_posts (onWindowElapsed env rt t) \<noteq> []"
  shows "om_get (rn_state (wr_runtime (onWindowElapsed env rt t))) STATE_KEY = Some (Some t)"
proof -
  obtain roster net1 rt1 ids net2 rt2 where
    "getParticipantIds (ev_members env) rt = (roster, net1, rt1)"
    "getActiveParticipantUserIds net1 rt1 = (Some ids, net2, rt2)"
    "isInsideInterventionWindow rt t (normalizeConfig (cd_config (rn_condition rt)))" and
    eval: "onWindowElapsed env rt t = evaluate_split env (normalizeConfig (cd_config (rn_condition rt)))
       (resolveLlmMode (ev_llmMode env) (normalizeConfig (cd_config (rn_condition rt))))
       roster ids net2 rt2 t"
    using onWindowElapsed_posts [OF assms] .
  obtain l rt3 where 3: "getRuleState rt2 = (l, rt3)" by (cases "getRuleState rt2")
  show ?thesis
    using assms unfolding eval
    by (rule evaluate_split_posts [OF _ 3 refl]) (metis assms deliver_nudge_state eval)
qed

text \<open>
  Back to parity. After a nudge at the end of a window, no later boundary nudges again as
  long as nobody has written anything since: with a positive threshold the messages up to the
  nudge can never make anyone dominant a second time, whatever the environment answers.
\<close>

theorem nudge_resets_tracker:
  assumes "wr_posts (onWindowElapsed env rt t) \<noteq> []"
    and "\<forall>m \<in> set (rn_messages rt). \<exists>ms. parse_ms (ms_timestamp m) = Some ms \<and> of_int ms \<le> t"
    and "0 < contributionThreshold (normalizeConfig (cd_config (rn_condition rt)))"
  shows "wr_posts (onWindowElapsed env' (wr_runtime (onWindowElapsed env rt t)) t') = []"
proof (rule ccontr)
  define rt' where "rt' = wr_runtime (onWindowElapsed env rt t)"
  define config where "config = normalizeConfig (cd_config (rn_condition rt))"
  define mode where "mode = resolveLlmMode (ev_llmMode env') config"
  have study: "same_study rt rt'" unfolding rt'_def by (rule onWindowElapsed_study)
  have state: "om_get (rn_state rt') STATE_KEY = Some (Some t)"
    unfolding rt'_def by (rule nudge_stamps_reset [OF assms(1)])
  assume "wr_posts (onWindowElapsed env' (wr_runtime (onWindowElapsed env rt t)) t') \<noteq> []"
  then have posted: "wr_posts (onWindowElapsed env' rt' t') \<noteq> []" by (simp add: rt'_def)
  have config': "config = normalizeConfig (cd_config (rn_condition rt'))"
    using study by (simp add: config_def same_study_def)
  define r where "r = max (orelse (orelse (om_get (rn_state rt') STATE_KEY) None) 0)
    (rn_startedAtMs rt' + protectedStartMinutes config * 60000)"
  have tr: "t \<le> r" by (simp add: r_def state)
  obtain pre before joined rest cached roster split target others entry where
    split: "split = contributionSplit (rn_messages rt') (rn_contributionClassifications rt')
      (filter (\<lambda>i. i \<in> set cached) before) config t' mode (Some r) roster"
    and over: "over_threshold (contributionThreshold config) split = target # others"
    by (rule nudge_path [OF posted config' mode_def r_def])
  have old: "\<exists>ms. parse_ms (ms_timestamp m) = Some ms \<and> of_int ms \<le> r" if "m \<in> set (rn_messages rt')" for m
    using that assms(2) study tr unfolding same_study_def by (metis order_trans)
  have "cs_dominanceScore target = 0"
    using parity_split [OF old] over_threshold_head(1) [OF over] split by blast
  with over_threshold_head(2) [OF over] assms(3) show False by (simp add: config_def)
qed

section \<open>A dominating participant is nudged\<close>

text \<open>With the roster known, the two membership answers and the homeserver's consent suffice.\<close>

lemma posts_when_dominant:
  assumes config: "config = normalizeConfig (cd_config (rn_condition rt))"
    and roster: "rn_participantUserIds rt = Some cached"
    and members: "ev_members env = Some before # Some joined # rest" and send: "ev_sendOk env"
    and inside: "isInsideInterventionWindow rt t config"
    and arm: "interventionMode config \<noteq> Mode_Baseline"
    and ids: "ids = filter (\<lambda>i. i \<in> set cached) before" "2 \<le> length ids" "set ids \<subseteq> set joined"
    and others: "2 \<le> length (filter (\<lambda>i. i \<in> set cached) joined)"
    and dominant: "\<exists>e \<in> set (window_split env rt t ids cached).
      contributionThreshold config \<le> cs_dominanceScore e"
  shows "wr_posts (onWindowElapsed env rt t) \<noteq> []"
proof -
  let ?mode = "resolveLlmMode (ev_llmMode env) config"
  have 1: "getParticipantIds (ev_members env) rt = (cached, Some before # Some joined # rest, rt)"
    by (simp add: getParticipantIds_def getParticipantUserIds_def roster members)
  have 2: "getActiveParticipantUserIds (Some before # Some joined # rest) rt
      = (Some ids, Some joined # rest, rt)"
    by (simp add: getActiveParticipantUserIds_def getParticipantUserIds_def roster ids(1))
  obtain l rt3 where 3: "getRuleState rt = (l, rt3)" by (cases "getRuleState rt")
  note keeps = getRuleState_keeps [OF 3]
  define split where "split = contributionSplit (rn_messages rt3) (rn_contributionClassifications rt3)
    ids config t ?mode (Some (max (orelse l 0) (rn_startedAtMs rt3 + protectedStartMinutes config * 60000))) cached"
  have "over_threshold (contributionThreshold config) split \<noteq> []"
    using dominant unfolding over_threshold_Nil split_def keeps window_split_def Let_def config [symmetric]
    by (auto simp: not_less)
  then obtain target others' where over: "over_threshold (contributionThreshold config) split = target # others'"
    by (cases "over_threshold (contributionThreshold config) split") auto
  have "map cs_userId split = ids" by (simp add: split_def)
  then have "cs_userId target \<in> set ids" using over_threshold_head(1) [OF over] by (metis image_eqI set_map)
  then have target: "cs_userId target \<in> set (filter (\<lambda>i. i \<in> set cached) joined)" using ids by auto
  have 4: "getActiveParticipantUserIds (Some joined # rest) rt3
      = (Some (filter (\<lambda>i. i \<in> set cached) joined), rest, rt3)"
    using roster keeps(3) by (simp add: getActiveParticipantUserIds_def getParticipantUserIds_def)
  have "wr_posts (deliver_nudge env config ?mode (Some joined # rest) rt3 t split
      (audienceForMode (interventionMode config)) target) \<noteq> []"
    unfolding deliver_nudge_def Let_def 4 using others target send by simp
  then have "wr_posts (evaluate_split env config ?mode cached ids (Some joined # rest) rt t) \<noteq> []"
    using over arm by (simp add: evaluate_split_def 3 split_def Let_def)
  moreover have "onWindowElapsed env rt t = evaluate_split env config ?mode cached ids (Some joined # rest) rt t"
    using inside ids(2) unfolding onWindowElapsed_def Let_def config [symmetric] 1 prod.case 2 by simp
  ultimately show ?thesis by simp
qed

definition busy_runtime :: runtime where
  "busy_runtime =
     (new_runtime 0 (sample_note\<lparr>sn_participantUserIds := [''@a:x'', ''@b:x'']\<rparr>))
       \<lparr>rn_messages := [sample_message ''$1'' 200000 ''@a:x'' ''oxygen first'',
          sample_message ''$2'' 250000 ''@a:x'' ''then the map'',
          sample_message ''$3'' 260000 ''@b:x'' ''ok'',
          sample_message ''$4'' 300000 ''@a:x'' ''food third'']\<rparr>"

definition busy_env :: window_env where
  "busy_env = \<lparr>ev_llmMode = None, ev_members = [Some [''@a:x'', ''@b:x''], Some [''@b:x'', ''@a:x'']],
     ev_generator = None, ev_sendOk = True, ev_evaluationId = ''e1'', ev_logId = ''i1'',
     ev_nowMs = 420100\<rparr>"


lemma busy_split:
  "\<exists>e \<in> set (window_split busy_env busy_runtime 420000 [''@a:x'', ''@b:x''] [''@a:x'', ''@b:x'']).
    contributionThreshold (normalizeConfig (cd_config (rn_condition busy_runtime))) \<le> cs_dominanceScore e"
  by code_simp

lemma busy_posts: "wr_posts (onWindowElapsed busy_env busy_runtime 420000) \<noteq> []"
  by (rule posts_when_dominant [OF refl _ _ _ _ _ _ _ _ _ busy_split, where before = "[''@a:x'', ''@b:x'']"
      and joined = "[''@b:x'', ''@a:x'']" and rest = "[]"]) code_simp+

lemma busy_weights: "weights_ok (normalizeConfig (cd_config (rn_condition busy_runtime)))"
  by code_simp

lemma busy_old: "\<forall>m \<in> set (rn_messages busy_runtime).
    \<exists>ms. parse_ms (ms_timestamp m) = Some ms \<and> of_int ms \<le> (420000 :: rat)"
  by (simp add: busy_runtime_def sample_message_def)

lemma busy_threshold: "0 < contributionThreshold (normalizeConfig (cd_config (rn_condition busy_runtime)))"
  by code_simp

theorem split_shares_distribution_witness:
  "map cs_userId (contributionSplit (rn_messages busy_runtime) [] [''@a:x'', ''@b:x'']
      (normalizeConfig (cd_config (rn_condition busy_runtime))) 420000 Llm_Off None [''@a:x'', ''@b:x''])
    = [''@a:x'', ''@b:x'']"
  using split_shares_distribution [OF busy_weights refl] by blast

theorem split_counts_window_witness:
  "cs_messageCount (contributionSplit (rn_messages busy_runtime) [] [''@a:x'', ''@b:x'']
      (normalizeConfig (cd_config (rn_condition busy_runtime))) 420000 Llm_Off None [''@a:x'', ''@b:x''] ! 0)
    = us_messageCount (row_stats Llm_Off [] (counted_messages
        (normalizeConfig (cd_config (rn_condition busy_runtime))) 420000 None (rn_messages busy_runtime) ''@a:x''))"
  using split_counts_window [of 0 "[''@a:x'', ''@b:x'']" "rn_messages busy_runtime" "[]"
      "normalizeConfig (cd_config (rn_condition busy_runtime))" 420000 Llm_Off None "[''@a:x'', ''@b:x'']"]
  by (simp add: Let_def)

theorem nudge_justified_witness:
  "\<exists>entry e. nudge_entitled busy_env busy_runtime 420000 entry e"
  using nudge_justified [OF busy_posts] by blast

theorem nudge_resets_tracker_witness:
  "wr_posts (onWindowElapsed busy_env (wr_runtime (onWindowElapsed busy_env busy_runtime 420000)) 480000) = []"
  by (rule nudge_resets_tracker [OF busy_posts busy_old busy_threshold])

text \<open>
  A dominating participant is nudged. Inside the window of a non-baseline arm, with at
  least two participants in the room at both questions and nobody of the split gone, a row at the
  threshold and a homeserver that accepts the message, the boundary does post.
\<close>

theorem dominance_is_answered:
  assumes "rn_participantUserIds rt = Some cached"
    and "ev_members env = Some before # Some joined # rest" and "ev_sendOk env"
    and "isInsideInterventionWindow rt t (normalizeConfig (cd_config (rn_condition rt)))"
    and "interventionMode (normalizeConfig (cd_config (rn_condition rt))) \<noteq> Mode_Baseline"
    and "2 \<le> length (filter (\<lambda>i. i \<in> set cached) before)"
    and "set (filter (\<lambda>i. i \<in> set cached) before) \<subseteq> set joined"
    and "2 \<le> length (filter (\<lambda>i. i \<in> set cached) joined)"
    and "\<exists>e \<in> set (window_split env rt t (filter (\<lambda>i. i \<in> set cached) before) cached).
      contributionThreshold (normalizeConfig (cd_config (rn_condition rt))) \<le> cs_dominanceScore e"
  shows "length (wr_posts (onWindowElapsed env rt t)) = 1"
proof -
  have "wr_posts (onWindowElapsed env rt t) \<noteq> []"
    by (rule posts_when_dominant [OF refl assms(1-5) refl assms(6-9)])
  with onWindowElapsed_effect [of t rt env] show ?thesis
    by (auto simp: window_effect_def split: if_splits)
qed

lemma busy_filter: "filter (\<lambda>i. i \<in> set [''@a:x'', ''@b:x'']) [''@a:x'', ''@b:x''] = [''@a:x'', ''@b:x'']"
  by simp

theorem dominance_is_answered_witness:
  "length (wr_posts (onWindowElapsed busy_env busy_runtime 420000)) = 1"
  by (rule dominance_is_answered [where cached = "[''@a:x'', ''@b:x'']" and before = "[''@a:x'', ''@b:x'']"
        and joined = "[''@b:x'', ''@a:x'']" and rest = "[]", unfolded busy_filter, OF _ _ _ _ _ _ _ _ busy_split])
    code_simp+

section \<open>The quiet members and the classifier\<close>

lemma take_sort_key_least:
  assumes "x \<in> set (take n (sort_key f xs))" and "y \<in> set xs" and "y \<notin> set (take n (sort_key f xs))"
  shows "f x \<le> f y"
proof -
  have "sorted (map f (take n (sort_key f xs) @ drop n (sort_key f xs)))" by simp
  then have "\<forall>a \<in> set (take n (sort_key f xs)). \<forall>b \<in> set (drop n (sort_key f xs)). f a \<le> f b"
    unfolding map_append sorted_append by auto
  moreover have "y \<in> set (drop n (sort_key f xs))"
    using assms(2,3) by (metis Un_iff append_take_drop_id set_append set_sort)
  ultimately show ?thesis using assms(1) by blast
qed

text \<open>
  The quiet members are at most two rows of the split, never the target and never above the
  threshold, and everybody who could have been named instead has at least their share.
\<close>

theorem quietest_are_quietest:
  "\<exists>chosen. quietestMembers split target th = map toTarget chosen \<and> length chosen \<le> 2 \<and>
     set chosen \<subseteq> {e \<in> set split. cs_userId e \<noteq> cs_userId target \<and> cs_dominanceScore e < th} \<and>
     {(c, o'). c \<in> set chosen \<and> o' \<in> set split - set chosen \<and> cs_userId o' \<noteq> cs_userId target \<and>
        cs_dominanceScore o' < th} \<subseteq> {(c, o'). cs_share c \<le> cs_share o'}"
proof (intro exI conjI)
  let ?f = "\<lambda>e. (cs_share e, locale_key (cs_identityName e))"
  let ?cands = "filter (\<lambda>e. cs_userId e \<noteq> cs_userId target \<and> cs_dominanceScore e < th) split"
  let ?chosen = "take 2 (sort_key ?f ?cands)"
  show "quietestMembers split target th = map toTarget ?chosen" by (simp add: quietestMembers_def)
  show "length ?chosen \<le> 2" by simp
  show "set ?chosen \<subseteq> {e \<in> set split. cs_userId e \<noteq> cs_userId target \<and> cs_dominanceScore e < th}"
    using set_take_subset [of 2 "sort_key ?f ?cands"] by auto
  show "{(c, o'). c \<in> set ?chosen \<and> o' \<in> set split - set ?chosen \<and> cs_userId o' \<noteq> cs_userId target \<and>
        cs_dominanceScore o' < th} \<subseteq> {(c, o'). cs_share c \<le> cs_share o'}"
  proof clarify
    fix c o' assume "c \<in> set ?chosen" "o' \<in> set split" "o' \<notin> set ?chosen"
      "cs_userId o' \<noteq> cs_userId target" "cs_dominanceScore o' < th"
    then have "?f c \<le> ?f o'" by (intro take_sort_key_least [of c 2 ?f ?cands o']) auto
    then show "cs_share c \<le> cs_share o'" by (auto simp: less_eq_prod_def)
  qed
qed

end
