(* ===== verification/Classifier.thy ===== *)
theory Classifier
  imports Window_Rules
begin

text \<open>
  backend/chat-service/src/anthropic/anthropic-client.ts and classifier/*.ts: the Messages API
  client, the contribution classifier with its prompt, the moderation check, and the contract
  the rules rely on.

  The network's answer is a value (\<open>http_reply\<close>); parsing and printing of JSON text are
  functions of the environment, so a text that does not parse is an error value.
\<close>

datatype json =
    J_Null | J_Bool bool | J_Num rat | J_Str string | J_Arr "json list"
  | J_Obj "(string \<times> json) list"

text \<open>\<open>value?.key\<close> for a key no primitive and no array has; \<open>None\<close> is \<open>undefined\<close>.\<close>

definition json_get :: "json option \<Rightarrow> string \<Rightarrow> json option" where
  "json_get v k = (case v of Some (J_Obj m) \<Rightarrow> om_get m k | _ \<Rightarrow> None)"

section \<open>The Messages API client\<close>

definition DEFAULT_MODEL :: string where
  "DEFAULT_MODEL = ''claude-haiku-4-5-20251001''"

definition anthropicModel :: "string option \<Rightarrow> string" where
  "anthropicModel envModel = orelse envModel DEFAULT_MODEL"

text \<open>A rejected request, a response that is not ok, or the blocks (type and text) of the reply.\<close>

datatype http_reply =
    Http_Fails string
  | Http_Status nat string
  | Http_Ok "(string option \<times> string option) list option"

definition error_string :: "string \<Rightarrow> string" where
  "error_string m = ''Error: '' @ m"

definition requestAnthropicText :: "http_reply \<Rightarrow> string + string" where
  "requestAnthropicText reply =
     (case reply of
        Http_Fails e \<Rightarrow> Inl e
      | Http_Status st body \<Rightarrow> Inl (error_string (''Anthropic status '' @ show_nat st @ '': '' @ body))
      | Http_Ok content \<Rightarrow>
          (case Option.bind (Option.bind content (List.find (\<lambda>b. fst b = Some ''text''))) snd of
             None \<Rightarrow> Inl (error_string ''Anthropic response contained no text block'')
           | Some t \<Rightarrow> if t = [] then Inl (error_string ''Anthropic response contained no text block'')
                       else Inr t))"

section \<open>Ratings\<close>

record classifier_env =
  ce_apiKey :: "string option"
  ce_model :: "string option"
  ce_now :: int
  ce_api :: "string \<Rightarrow> http_reply"
  ce_parse :: "string \<Rightarrow> string + json"
  ce_stringify :: "json option \<Rightarrow> string"
  ce_text :: "json \<Rightarrow> string"

definition PROMPT_VERSION :: string where "PROMPT_VERSION = ''meaningfulness-v2''"
definition CONTEXT_MESSAGES :: nat where "CONTEXT_MESSAGES = 3"
definition MIN_RATING :: int where "MIN_RATING = 1"
definition MAX_RATING :: int where "MAX_RATING = 5"

text \<open>\<open>String(output?.reason ?? "")\<close>\<close>

definition reason_of :: "classifier_env \<Rightarrow> json option \<Rightarrow> string" where
  "reason_of env output =
     (case json_get output ''reason'' of
        None \<Rightarrow> [] | Some J_Null \<Rightarrow> [] | Some (J_Str s) \<Rightarrow> s | Some v \<Rightarrow> ce_text env v)"

definition toRating :: "classifier_env \<Rightarrow> json option \<Rightarrow> string \<Rightarrow> string + classifier_rating" where
  "toRating env output dimension =
     (let rating = json_get output ''rating'';
          bad = Inl (error_string (''invalid rating for '' @ dimension @ '': '' @ ce_stringify env rating))
      in case rating of
           Some (J_Num r) \<Rightarrow>
             if r \<noteq> of_int (floor r) \<or> r < of_int MIN_RATING \<or> r > of_int MAX_RATING then bad
             else Inr \<lparr>cr_rating = floor r, cr_reason = reason_of env output\<rparr>
         | _ \<Rightarrow> bad)"

definition toIndicator :: "classifier_env \<Rightarrow> json option \<Rightarrow> classifier_indicator" where
  "toIndicator env output =
     \<lparr>ci_value = (json_get output ''value'' = Some (J_Bool True)), ci_reason = reason_of env output\<rparr>"

definition scoreOf :: "classifier_rating \<Rightarrow> classifier_rating \<Rightarrow> rat" where
  "scoreOf relevance coherence =
     (let m = of_int (cr_rating relevance + cr_rating coherence) / 2
      in (m - of_int MIN_RATING) / of_int (MAX_RATING - MIN_RATING))"

section \<open>The prompt\<close>

definition last_messages :: "nat \<Rightarrow> 'a list \<Rightarrow> 'a list" where
  "last_messages k xs = drop (length xs - k) xs"

definition prompt_identities :: "message \<Rightarrow> classifier_context \<Rightarrow> (string \<times> identity) list" where
  "prompt_identities m context =
     buildIdentities (uniq (cx_participantIds context @
       map ms_senderId (cx_priorMessages context) @ [ms_senderId m]))"

definition buildPrompt :: "message \<Rightarrow> classifier_context \<Rightarrow> string" where
  "buildPrompt m context =
     (let nameFor = (\<lambda>senderId. id_name (identityFor (prompt_identities m context) senderId));
          preceding = last_messages CONTEXT_MESSAGES (cx_priorMessages context);
          precedingBlock = (if preceding = [] then ''(no prior messages)''
            else join newline (map (\<lambda>item. nameFor (ms_senderId item) @ '': '' @ quote @ ms_text item @ quote)
                   preceding));
          memberNames = join '', '' (map nameFor (cx_participantIds context));
          memberCount = length (cx_participantIds context)
      in join newline
        [''You are analyzing a single message from a group discussion where '' @ show_nat memberCount @
           '' people are jointly ranking a list of items. Rate THIS message only '' @ em_dash @
           '' do not judge correctness or writing style.'',
         [],
         ''Give each rating as an integer from 1 to 5 with a one-sentence justification.'',
         ''Answer invites_participation with true/false and a one-sentence justification.'',
         ''Do not infer intent beyond what is present in the text.'',
         [],
         ''1. relevance (1-5): How much of the message contributes content relevant to'',
         ''   the ranking task (naming items, stating stances, making proposals)?'',
         ''   5 = fully task-focused, 1 = entirely off-topic.'',
         [],
         ''2. coherence (1-5): How well does the message connect to and build on the'',
         ''   ongoing discussion? 5 = clearly addresses or extends prior messages or'',
         ''   members, 1 = stands alone with no connection.'',
         [],
         ''3. invites_participation: Does the message explicitly invite another named'',
         ''   or unnamed group member to contribute (a direct question to them, or an'',
         ''   open prompt like '' @ quote @ ''anyone else?'' @ quote @ '')?'',
         [],
         ''MESSAGE TO CLASSIFY:'',
         ''Sender: '' @ nameFor (ms_senderId m),
         ''Text: '' @ quote @ ms_text m @ quote,
         [],
         ''PRECEDING CONTEXT:'',
         precedingBlock,
         [],
         ''TASK ITEMS:'',
         join '', '' (cx_taskItems context),
         [],
         ''GROUP MEMBERS:'',
         memberNames])"

section \<open>The classifier\<close>

text \<open>The failure path of every error, the message cut to 500 code units.\<close>

definition failure_of :: "classifier_env \<Rightarrow> message \<Rightarrow> string \<Rightarrow> classification_failure" where
  "failure_of env m err =
     \<lparr>cf_messageId = ms_id m, cf_senderId = ms_senderId m, cf_failedAt = Stamp (ce_now env),
      cf_model = anthropicModel (ce_model env), cf_promptVersion = PROMPT_VERSION, cf_error = err\<rparr>"

definition parse_output :: "classifier_env \<Rightarrow> string \<Rightarrow>
    string + (classifier_rating \<times> classifier_rating \<times> classifier_indicator)" where
  "parse_output env rawOutput =
     (case ce_parse env rawOutput of
        Inl e \<Rightarrow> Inl e
      | Inr J_Null \<Rightarrow> Inl ''TypeError: Cannot read properties of null (reading 'relevance')''
      | Inr output \<Rightarrow>
          (case toRating env (json_get (Some output) ''relevance'') ''relevance'' of
             Inl e \<Rightarrow> Inl e
           | Inr relevance \<Rightarrow>
               (case toRating env (json_get (Some output) ''coherence'') ''coherence'' of
                  Inl e \<Rightarrow> Inl e
                | Inr coherence \<Rightarrow>
                    Inr (relevance, coherence,
                      toIndicator env (json_get (Some output) ''invites_participation'')))))"

definition anthropicClassify :: "classifier_env \<Rightarrow> classifier" where
  "anthropicClassify env m context =
     (if ce_apiKey env = None \<or> ce_apiKey env = Some [] then Inr (failure_of env m ''missing-api-key'')
      else
        (let prompt = buildPrompt m context in
         case requestAnthropicText (ce_api env prompt) of
           Inl e \<Rightarrow> Inr (failure_of env m (take 500 e))
         | Inr rawOutput \<Rightarrow>
             (case parse_output env rawOutput of
                Inl e \<Rightarrow> Inr (failure_of env m (take 500 e))
              | Inr (relevance, coherence, invites) \<Rightarrow>
                  Inl \<lparr>cc_messageId = ms_id m, cc_senderId = ms_senderId m,
                       cc_classifiedAt = Stamp (ce_now env), cc_relevance = relevance,
                       cc_coherence = coherence, cc_invitesParticipation = invites,
                       cc_meaningfulnessScore = scoreOf relevance coherence,
                       cc_model = anthropicModel (ce_model env),
                       cc_promptVersion = PROMPT_VERSION, cc_prompt = prompt,
                       cc_rawOutput = rawOutput\<rparr>)))"

section \<open>Moderation\<close>

record moderation_result =
  mr_flagged :: bool
  mr_reason :: string

text \<open>Off, without a key, on any error and on an unclear answer, a message passes.\<close>

definition moderation_check :: "string option \<Rightarrow> classifier_env \<Rightarrow> string \<Rightarrow> moderation_result" where
  "moderation_check MODERATION env text =
     (if MODERATION \<noteq> Some ''on'' then \<lparr>mr_flagged = False, mr_reason = ''moderation-off''\<rparr>
      else if ce_apiKey env = None \<or> ce_apiKey env = Some [] then
        \<lparr>mr_flagged = False, mr_reason = ''missing-api-key''\<rparr>
      else
        (let failed = (\<lambda>e. \<lparr>mr_flagged = False, mr_reason = ''error: '' @ take 200 e\<rparr>);
             content = ''Message: '' @ quote @ text @ quote @ newline @ newline @
               ''Is this message abusive? Reply with {'' @ quote @ ''flagged'' @ quote @
               '': true/false, '' @ quote @ ''reason'' @ quote @ '': '' @ quote @ ''...'' @ quote @ ''}''
         in case requestAnthropicText (ce_api env content) of
              Inl e \<Rightarrow> failed e
            | Inr raw \<Rightarrow>
                (case ce_parse env raw of
                   Inl e \<Rightarrow> failed e
                 | Inr J_Null \<Rightarrow> failed ''TypeError: Cannot read properties of null (reading 'flagged')''
                 | Inr result \<Rightarrow>
                     \<lparr>mr_flagged = (json_get (Some result) ''flagged'' = Some (J_Bool True)),
                      mr_reason = reason_of env (Some result)\<rparr>)))"

section \<open>The contract of a classifier\<close>

text \<open>A message with a result; scores that are fractions.\<close>

definition covered :: "runtime \<Rightarrow> string \<Rightarrow> bool" where
  "covered rt i \<longleftrightarrow> i \<in> cc_messageId ` set (rn_contributionClassifications rt) \<or>
     i \<in> cf_messageId ` set (rn_classificationFailures rt)"

definition unit_scores :: "runtime \<Rightarrow> bool" where
  "unit_scores rt \<longleftrightarrow> (\<forall>c \<in> set (rn_contributionClassifications rt).
     0 \<le> cc_meaningfulnessScore c \<and> cc_meaningfulnessScore c \<le> 1)"

text \<open>
  What the rules need of the injected classifier: its answer, success or failure, is about the
  message it was given, and a score is a fraction.
\<close>

locale contribution_classifier =
  fixes classify :: classifier
  assumes classified_message: "classify m context = Inl c \<Longrightarrow> cc_messageId c = ms_id m"
    and failed_message: "classify m context = Inr f \<Longrightarrow> cf_messageId f = ms_id m"
    and unit_score: "classify m context = Inl c \<Longrightarrow>
      0 \<le> cc_meaningfulnessScore c \<and> cc_meaningfulnessScore c \<le> 1"
begin

lemma classifyMessage_covers:
  assumes "\<exists>m \<in> set (rn_messages rt). ms_id m = i"
  shows "covered (classifyMessage (Some classify) rt i ids) i"
proof (cases "classify_request rt i ids")
  case None
  obtain k where k: "find_index (\<lambda>m. ms_id m = i) (rn_messages rt) = Some k"
    using assms find_index_None [of "\<lambda>m. ms_id m = i"] by fastforce
  have "ms_id (rn_messages rt ! k) = i" using find_index_Some [OF k] by blast
  with None k have "i \<in> cc_messageId ` set (rn_contributionClassifications rt)"
    by (auto simp: classify_request_def Let_def intro: rev_image_eqI split: if_splits)
  with None show ?thesis by (simp add: classifyMessage_def covered_def)
next
  case (Some p)
  obtain m ctx where p: "p = (m, ctx)" by (cases p)
  have m: "ms_id m = i"
    using Some p find_index_Some
    by (fastforce simp: classify_request_def Let_def split: option.splits if_splits)
  show ?thesis
  proof (cases "classify m ctx")
    case (Inl c)
    then have "cc_messageId c = i" using classified_message m by simp
    then show ?thesis
      using Some p Inl push_in_replace_or_push [of c cc_messageId]
      by (auto simp: classifyMessage_def record_result_def recordClassification_def covered_def)
  next
    case (Inr f)
    then have "cf_messageId f = i" using failed_message m by simp
    then show ?thesis
      using Some p Inr push_in_replace_or_push [of f cf_messageId]
      by (auto simp: classifyMessage_def record_result_def recordClassificationFailure_def covered_def)
  qed
qed

lemma classifyMessage_unit_scores:
  assumes "unit_scores rt" shows "unit_scores (classifyMessage (Some classify) rt i ids)"
proof (cases "classify_request rt i ids")
  case (Some p)
  obtain m ctx where p: "p = (m, ctx)" by (cases p)
  show ?thesis
    using assms Some p unit_score [of m ctx]
    by (cases "classify m ctx")
      (auto simp: classifyMessage_def record_result_def recordClassification_def unit_scores_def
        recordClassificationFailure_def dest!: set_replace_or_push)
qed (use assms in \<open>simp add: classifyMessage_def\<close>)

lemma onEvent_covers:
  assumes "\<exists>m \<in> set (rn_messages rt). ms_id m = te_eventId event"
    and "te_type event = ''m.room.message''"
    and "resolveLlmMode envMode (normalizeConfig (cd_config (rn_condition rt))) = Llm_Active"
  shows "covered (onEvent (Some classify) envMode net rt event) (te_eventId event)"
proof -
  obtain ids net' rt' where g: "getParticipantIds net rt = (ids, net', rt')"
    by (cases "getParticipantIds net rt")
  have "rn_messages rt' = rn_messages rt" using getParticipantIds_same [OF g] same_record_fields by blast
  then have "covered (classifyMessage (Some classify) rt' (te_eventId event) ids) (te_eventId event)"
    using assms(1) by (intro classifyMessage_covers) simp
  then show ?thesis using assms(2,3) by (simp add: onEvent_def g Let_def)
qed

lemma onEvent_unit_scores:
  assumes "unit_scores rt" shows "unit_scores (onEvent (Some classify) envMode net rt event)"
proof -
  obtain ids net' rt' where g: "getParticipantIds net rt = (ids, net', rt')"
    by (cases "getParticipantIds net rt")
  have "unit_scores rt'"
    using assms same_record_fields [OF getParticipantIds_same [OF g]] by (simp add: unit_scores_def)
  then show ?thesis
    using assms classifyMessage_unit_scores by (auto simp: onEvent_def g Let_def)
qed

end

lemma toRating_range:
  "toRating env output d = Inr r \<Longrightarrow> 1 \<le> cr_rating r \<and> cr_rating r \<le> 5"
  by (auto simp: toRating_def Let_def MIN_RATING_def MAX_RATING_def not_less le_floor_iff floor_le_iff
      split: option.splits json.splits if_splits)

lemma scoreOf_unit:
  assumes "1 \<le> cr_rating a" "cr_rating a \<le> 5" "1 \<le> cr_rating b" "cr_rating b \<le> 5"
  shows "0 \<le> scoreOf a b" "scoreOf a b \<le> 1"
proof -
  have "2 \<le> cr_rating a + cr_rating b" "cr_rating a + cr_rating b \<le> 10" using assms by simp_all
  then have "(2 :: rat) \<le> of_int (cr_rating a + cr_rating b)" "of_int (cr_rating a + cr_rating b) \<le> (10 :: rat)"
    by linarith+
  then show "0 \<le> scoreOf a b" "scoreOf a b \<le> 1"
    by (simp_all add: scoreOf_def Let_def MIN_RATING_def MAX_RATING_def field_simps)
qed

lemma parse_output_ranges:
  "parse_output env raw = Inr (a, b, i) \<Longrightarrow>
     1 \<le> cr_rating a \<and> cr_rating a \<le> 5 \<and> 1 \<le> cr_rating b \<and> cr_rating b \<le> 5"
  by (auto simp: parse_output_def split: sum.splits json.splits dest: toRating_range)

lemma anthropicClassify_Inl:
  assumes "anthropicClassify env m context = Inl c"
  shows "cc_messageId c = ms_id m \<and> 1 \<le> cr_rating (cc_relevance c) \<and> cr_rating (cc_relevance c) \<le> 5 \<and>
    1 \<le> cr_rating (cc_coherence c) \<and> cr_rating (cc_coherence c) \<le> 5 \<and>
    cc_meaningfulnessScore c = scoreOf (cc_relevance c) (cc_coherence c)"
  using assms
  by (auto simp: anthropicClassify_def Let_def split: if_splits sum.splits prod.splits dest: parse_output_ranges)

lemma anthropicClassify_Inr:
  "anthropicClassify env m context = Inr f \<Longrightarrow> cf_messageId f = ms_id m"
  by (auto simp: anthropicClassify_def failure_of_def Let_def split: if_splits sum.splits)

interpretation anthropic: contribution_classifier "anthropicClassify env" for env
  by unfold_locales
    (auto dest!: anthropicClassify_Inl anthropicClassify_Inr intro: scoreOf_unit)

section \<open>Properties\<close>

definition sample_env :: classifier_env where
  "sample_env =
     \<lparr>ce_apiKey = Some ''key'', ce_model = None, ce_now = 5,
      ce_api = (\<lambda>_. Http_Ok (Some [(Some ''text'', Some ''ratings'')])),
      ce_parse = (\<lambda>_. Inr (J_Obj
        [(''relevance'', J_Obj [(''rating'', J_Num 5), (''reason'', J_Str ''on task'')]),
         (''coherence'', J_Obj [(''rating'', J_Num 2), (''reason'', J_Str ''stands alone'')]),
         (''invites_participation'', J_Obj [(''value'', J_Bool False)])])),
      ce_stringify = (\<lambda>_. ''?''), ce_text = (\<lambda>_. ''?'')\<rparr>"

text \<open>
  Coverage. In an active arm every message of the log that reaches the rules ends up with a
  classification or a recorded failure, whatever the model's interface answers.
\<close>

theorem messages_are_covered:
  assumes "\<exists>m \<in> set (rn_messages rt). ms_id m = te_eventId event"
    and "te_type event = ''m.room.message''"
    and "resolveLlmMode envMode (normalizeConfig (cd_config (rn_condition rt))) = Llm_Active"
  shows "covered (onEvent (Some (anthropicClassify env)) envMode net rt event) (te_eventId event)"
  using assms by (rule anthropic.onEvent_covers)

definition sample_event :: timeline_event where
  "sample_event = \<lparr>te_roomId = ''!r:x'', te_type = ''m.room.message'', te_sender = ''@a:x'',
     te_eventId = ''$2'', te_ts = 250000\<rparr>"

theorem messages_are_covered_witness:
  "covered (onEvent (Some (anthropicClassify sample_env)) (Some ''active'') [] busy_runtime sample_event) ''$2''"
  using messages_are_covered [of busy_runtime sample_event "Some ''active''" sample_env "[]"]
  by (simp add: sample_event_def busy_runtime_def sample_message_def resolveLlmMode_def)

text \<open>
  A classification is about the message it was asked for, its two ratings are integers from
  1 to 5 and its score is their normalised mean, a fraction; anything else the model returns is
  a failure of the same message.
\<close>

theorem classification_is_valid:
  "case anthropicClassify env m context of
     Inl c \<Rightarrow> cc_messageId c = ms_id m \<and> cr_rating (cc_relevance c) \<in> {1..5} \<and>
       cr_rating (cc_coherence c) \<in> {1..5} \<and>
       cc_meaningfulnessScore c =
         (of_int (cr_rating (cc_relevance c) + cr_rating (cc_coherence c)) / 2 - 1) / 4 \<and>
       0 \<le> cc_meaningfulnessScore c \<and> cc_meaningfulnessScore c \<le> 1
   | Inr f \<Rightarrow> cf_messageId f = ms_id m"
proof (cases "anthropicClassify env m context")
  case (Inl c)
  with anthropicClassify_Inl [OF Inl] anthropic.unit_score [OF Inl] show ?thesis
    by (simp add: scoreOf_def Let_def MIN_RATING_def MAX_RATING_def)
next
  case (Inr f)
  with anthropicClassify_Inr [OF Inr] show ?thesis by simp
qed

section \<open>Dominance is a fraction\<close>

definition dominance_weights_ok :: "rat intervention_config \<Rightarrow> bool" where
  "dominance_weights_ok config \<longleftrightarrow> 0 \<le> dw_share (dominanceWeights config) \<and>
     0 \<le> dw_meaningfulness (dominanceWeights config) \<and>
     dw_share (dominanceWeights config) + dw_meaningfulness (dominanceWeights config) \<le> 1"

lemma mean_unit:
  assumes "\<And>x. x \<in> set xs \<Longrightarrow> 0 \<le> x \<and> x \<le> (1 :: rat)"
  shows "0 \<le> mean_or_zero xs \<and> mean_or_zero xs \<le> 1"
proof -
  have "0 \<le> sum_list xs" using sum_list_nonneg assms by blast
  moreover have "sum_list xs \<le> of_nat (length xs)"
    using assms by (induction xs) (fastforce intro: add_mono)+
  ultimately show ?thesis by (simp add: mean_or_zero_def divide_le_eq_1)
qed

lemma classification_index_in:
  "om_get (classification_index cs) i = Some c \<Longrightarrow> c \<in> set cs"
proof -
  have "om_get (foldl (\<lambda>m c. om_set (cc_messageId c) c m) m0 cs) i = Some c \<Longrightarrow>
      c \<in> set cs \<or> om_get m0 i = Some c" for m0
    by (induction cs arbitrary: m0) (fastforce simp: update_conv' split: if_splits)+
  then show "om_get (classification_index cs) i = Some c \<Longrightarrow> c \<in> set cs"
    by (fastforce simp: classification_index_def)
qed

lemma row_meaning_unit:
  assumes "\<And>c. c \<in> set cs \<Longrightarrow> 0 \<le> cc_meaningfulnessScore c \<and> cc_meaningfulnessScore c \<le> 1"
    and "x \<in> set (us_meaningfulness (row_stats mode cs msgs))"
  shows "0 \<le> x \<and> x \<le> 1"
proof -
  obtain i c where "om_get (classification_index cs) i = Some c" "x = cc_meaningfulnessScore c"
    using assms(2) by (auto simp: row_stats_def Let_def map_filter_def)
  with assms(1) classification_index_in show ?thesis by blast
qed

lemma dominance_combination:
  fixes a b s m :: rat
  assumes "0 \<le> a" "0 \<le> b" "a + b \<le> 1" "0 \<le> s" "s \<le> 1" "0 \<le> m" "m \<le> 1"
  shows "0 \<le> a * s + b * m \<and> a * s + b * m \<le> 1"
proof -
  have "a * s \<le> a" "b * m \<le> b" "0 \<le> a * s" "0 \<le> b * m"
    using assms by (simp_all add: mult_left_le)
  with assms(3) show ?thesis by linarith
qed

text \<open>
  With convex dominance weights and scores that are fractions (which is all the classifier
  records), every dominance score is a fraction too, in either mode; so a threshold above 1 can
  never be reached and one of 0 always is.
\<close>

theorem dominance_is_fraction:
  assumes "weights_ok config" and "dominance_weights_ok config" and "unit_scores rt"
    and "e \<in> set (contributionSplit messages (rn_contributionClassifications rt) ids config nowMs mode reset roster)"
  shows "0 \<le> cs_dominanceScore e \<and> cs_dominanceScore e \<le> 1"
proof -
  let ?split = "contributionSplit messages (rn_contributionClassifications rt) ids config nowMs mode reset roster"
  define rows where "rows = split_rows messages (rn_contributionClassifications rt) ids config nowMs mode reset roster"
  define t where "t = sum_list (map cs_score rows)"
  have nn: "0 \<le> cs_score x" if "x \<in> set rows" for x
    using that assms(1) by (auto simp: rows_def split_rows_def raw_score_nonneg)
  obtain x where x: "x \<in> set rows" "e = finish_share config mode t x"
    using assms(4) by (auto simp: contributionSplit_rows Let_def rows_def t_def)
  have "cs_score x \<le> t" unfolding t_def using x(1) nn by (rule member_le_sum_list_rat)
  then have share: "0 \<le> cs_share e \<and> cs_share e \<le> 1"
    using nn [OF x(1)] by (simp add: x(2) divide_le_eq_1)
  obtain i where i: "i < length ids" "e = ?split ! i"
    using assms(4) by (metis contributionSplit_users in_set_conv_nth length_map)
  have "0 \<le> cs_meaningfulnessScore e \<and> cs_meaningfulnessScore e \<le> 1"
  proof -
    have "cs_meaningfulnessScore e = mean_or_zero (us_meaningfulness (row_stats mode
        (rn_contributionClassifications rt) (counted_messages config nowMs reset messages (ids ! i))))"
      unfolding i(2) using i(1) by (simp add: contributionSplit_rows split_rows_def raw_share_def orelse_def) (simp add: Let_def)
    moreover have "0 \<le> x \<and> x \<le> 1" if "x \<in> set (us_meaningfulness (row_stats mode
        (rn_contributionClassifications rt) (counted_messages config nowMs reset messages (ids ! i))))" for x
      by (rule row_meaning_unit [OF _ that]) (use assms(3) in \<open>simp add: unit_scores_def\<close>)
    ultimately show ?thesis using mean_unit by simp
  qed
  moreover have "cs_dominanceScore e = (if mode = Llm_Active
      then dw_share (dominanceWeights config) * cs_share e +
        dw_meaningfulness (dominanceWeights config) * cs_meaningfulnessScore e else cs_share e)"
    by (simp add: x(2) finish_share_def Let_def)
  ultimately show ?thesis
    using share assms(2) dominance_combination [of "dw_share (dominanceWeights config)"
      "dw_meaningfulness (dominanceWeights config)" "cs_share e" "cs_meaningfulnessScore e"]
    by (simp add: dominance_weights_ok_def)
qed

theorem dominance_is_fraction_witness:
  "\<exists>e. e \<in> set (contributionSplit (rn_messages busy_runtime) (rn_contributionClassifications busy_runtime)
      [''@a:x'', ''@b:x''] (normalizeConfig (cd_config (rn_condition busy_runtime))) 420000 Llm_Active None
      [''@a:x'', ''@b:x'']) \<and> 0 \<le> cs_dominanceScore e \<and> cs_dominanceScore e \<le> 1"
proof -
  let ?s = "contributionSplit (rn_messages busy_runtime) (rn_contributionClassifications busy_runtime)
      [''@a:x'', ''@b:x''] (normalizeConfig (cd_config (rn_condition busy_runtime))) 420000 Llm_Active None
      [''@a:x'', ''@b:x'']"
  have weights: "dominance_weights_ok (normalizeConfig (cd_config (rn_condition busy_runtime)))" by code_simp
  have scores: "unit_scores busy_runtime"
    by (simp add: unit_scores_def busy_runtime_def new_runtime_def sample_note_def Let_def)
  have "length (map cs_userId ?s) = 2" unfolding contributionSplit_users by simp
  then have "0 < length ?s" unfolding length_map by (simp only: zero_less_numeral)
  then have mem: "?s ! 0 \<in> set ?s" by (rule nth_mem)
  have "0 \<le> cs_dominanceScore (?s ! 0) \<and> cs_dominanceScore (?s ! 0) \<le> 1"
    by (rule dominance_is_fraction [OF busy_weights weights scores mem])
  with mem show ?thesis by blast
qed

section \<open>The prompt names nobody\<close>

definition keeps_order :: "(string \<Rightarrow> string) \<Rightarrow> string set \<Rightarrow> bool" where
  "keeps_order f A \<longleftrightarrow> (\<forall>a \<in> A. \<forall>b \<in> A. a < b \<longrightarrow> f a < f b) \<and>
     (\<forall>a \<in> A. isServiceUser (f a) = isServiceUser a)"

lemma keeps_order_inj: "keeps_order f A \<Longrightarrow> inj_on f A"
  unfolding keeps_order_def by (intro inj_onI) (metis less_irrefl linorder_neqE)

lemma keeps_order_subset: "keeps_order f A \<Longrightarrow> B \<subseteq> A \<Longrightarrow> keeps_order f B"
  unfolding keeps_order_def by blast

lemma sort_map_keeps:
  assumes "keeps_order f (set xs)" shows "sort (map f xs) = map f (sort xs)"
proof (rule properties_for_sort)
  have "sorted_wrt (\<lambda>x y. f x \<le> f y) (sort xs)"
  proof (rule sorted_wrt_mono_rel [of _ "(\<le>)"])
    show "f x \<le> f y" if "x \<in> set (sort xs)" "y \<in> set (sort xs)" "x \<le> y" for x y
      using that assms unfolding keeps_order_def by (cases "x = y") (auto simp: less_imp_le)
  qed simp
  then show "sorted (map f (sort xs))" by (simp add: sorted_map)
qed simp

lemma set_union_map:
  assumes "inj_on f (set xs \<union> set ys)"
  shows "set_union (map f xs) (map f ys) = map f (set_union xs ys)"
  using assms
proof (induction ys arbitrary: xs)
  case (Cons y ys)
  have "f y \<in> set (map f xs) \<longleftrightarrow> y \<in> set xs"
    using Cons.prems by (auto simp: inj_on_def)
  then have add: "set_add (map f xs) (f y) = map f (set_add xs y)" by (simp add: set_add_def)
  have "inj_on f (set (set_add xs y) \<union> set ys)" using Cons.prems by simp
  from Cons.IH [OF this] show ?case by (simp add: add)
qed simp

lemma uniq_map: "inj_on f (set xs) \<Longrightarrow> uniq (map f xs) = map f (uniq xs)"
  using set_union_map [of f "[]" xs] by (simp add: uniq_def)

lemma identityFor_missing:
  assumes "distinct xs" and "u \<notin> set (filter (\<lambda>i. \<not> isServiceUser i) xs)"
  shows "identityFor (buildIdentities xs) u = FALLBACK_IDENTITY"
proof -
  define ys where "ys = sort (filter (\<lambda>i. \<not> isServiceUser i) xs)"
  let ?m = "map (\<lambda>(i, uid). (uid, PARTICIPANT_PALETTE ! (i mod 10))) (List.enumerate 0 ys)"
  have "map fst ?m = ys" by (simp add: comp_def case_prod_beta)
  then have "fst ` set ?m = set ys" by (metis list.set_map)
  moreover have "u \<notin> set ys" using assms(2) by (simp add: ys_def)
  ultimately have "om_get ?m u = None" unfolding map_of_eq_None_iff by blast
  then show ?thesis
    unfolding identityFor_def buildIdentities_distinct [OF assms(1)] ys_def by simp
qed

lemma identityFor_rename:
  assumes order: "keeps_order f (set xs)" and d: "distinct xs" and u: "u \<in> set xs"
  shows "identityFor (buildIdentities (map f xs)) (f u) = identityFor (buildIdentities xs) u"
proof -
  define ys where "ys = sort (filter (\<lambda>i. \<not> isServiceUser i) xs)"
  have d': "distinct (map f xs)" using d keeps_order_inj [OF order] by (simp add: distinct_map)
  have service: "isServiceUser (f a) = isServiceUser a" if "a \<in> set xs" for a
    using order that by (simp add: keeps_order_def)
  have filt: "filter (\<lambda>i. \<not> isServiceUser i) (map f xs) = map f (filter (\<lambda>i. \<not> isServiceUser i) xs)"
    unfolding filter_map comp_def by (simp add: service cong: filter_cong)
  have ys': "sort (filter (\<lambda>i. \<not> isServiceUser i) (map f xs)) = map f ys"
    unfolding filt ys_def by (rule sort_map_keeps) (rule keeps_order_subset [OF order], auto)
  show ?thesis
  proof (cases "isServiceUser u")
    case True
    then show ?thesis using service [OF u] d d' by (simp add: identityFor_missing)
  next
    case False
    then have "u \<in> set ys" using u by (simp add: ys_def)
    then obtain k where k: "k < length ys" "u = ys ! k" by (auto simp: in_set_conv_nth)
    show ?thesis
      using identityFor_nth [OF d ys_def [symmetric] k(1)] identityFor_nth [OF d' ys', of k] k by simp
  qed
qed

definition rename_message :: "(string \<Rightarrow> string) \<Rightarrow> message \<Rightarrow> message" where
  "rename_message f m = m\<lparr>ms_senderId := f (ms_senderId m)\<rparr>"

definition rename_context :: "(string \<Rightarrow> string) \<Rightarrow> classifier_context \<Rightarrow> classifier_context" where
  "rename_context f ctx =
     ctx\<lparr>cx_participantIds := map f (cx_participantIds ctx),
         cx_priorMessages := map (rename_message f) (cx_priorMessages ctx)\<rparr>"

definition prompt_ids :: "message \<Rightarrow> classifier_context \<Rightarrow> string list" where
  "prompt_ids m ctx = cx_participantIds ctx @ map ms_senderId (cx_priorMessages ctx) @ [ms_senderId m]"

lemma prompt_name_rename:
  assumes "keeps_order f (set (prompt_ids m ctx))" and "u \<in> set (prompt_ids m ctx)"
  shows "identityFor (prompt_identities (rename_message f m) (rename_context f ctx)) (f u) =
    identityFor (prompt_identities m ctx) u"
proof -
  have "prompt_ids (rename_message f m) (rename_context f ctx) = map f (prompt_ids m ctx)"
    by (simp add: prompt_ids_def rename_message_def rename_context_def comp_def)
  then have "prompt_identities (rename_message f m) (rename_context f ctx) =
      buildIdentities (map f (uniq (prompt_ids m ctx)))"
    unfolding prompt_identities_def prompt_ids_def [symmetric]
    by (simp add: uniq_map keeps_order_inj [OF assms(1)])
  then show ?thesis
    using assms unfolding prompt_identities_def prompt_ids_def [symmetric]
    by (simp add: identityFor_rename)
qed

text \<open>
  C34: Pseudonymity. What the classifier's prompt says depends on user identifiers only through
  their colour names: renaming everybody, in the same order and with the same service accounts,
  gives the very same prompt.
\<close>

theorem prompt_is_pseudonymous:
  assumes "keeps_order f (set (prompt_ids m ctx))"
  shows "buildPrompt (rename_message f m) (rename_context f ctx) = buildPrompt m ctx"
proof -
  let ?new = "prompt_identities (rename_message f m) (rename_context f ctx)"
  have name: "id_name (identityFor ?new (f u)) = id_name (identityFor (prompt_identities m ctx) u)"
    if "u \<in> set (prompt_ids m ctx)" for u
    using prompt_name_rename [OF assms that] by simp
  have members: "map (\<lambda>i. id_name (identityFor ?new i)) (map f (cx_participantIds ctx)) =
      map (\<lambda>i. id_name (identityFor (prompt_identities m ctx) i)) (cx_participantIds ctx)"
    using name by (simp add: prompt_ids_def)
  have prior: "last_messages k (cx_priorMessages (rename_context f ctx)) =
      map (rename_message f) (last_messages k (cx_priorMessages ctx))" for k
    by (simp add: last_messages_def rename_context_def drop_map)
  have sub: "set (last_messages k (cx_priorMessages ctx)) \<subseteq> set (cx_priorMessages ctx)" for k
    by (simp add: last_messages_def set_drop_subset)
  have block: "map (\<lambda>item. id_name (identityFor ?new (ms_senderId item)) @ '': '' @ quote @ ms_text item @ quote)
        (map (rename_message f) (last_messages k (cx_priorMessages ctx))) =
      map (\<lambda>item. id_name (identityFor (prompt_identities m ctx) (ms_senderId item)) @ '': '' @ quote @ ms_text item @ quote)
        (last_messages k (cx_priorMessages ctx))" for k
    using sub name by (auto simp: rename_message_def prompt_ids_def)
  have sender: "id_name (identityFor ?new (ms_senderId (rename_message f m))) =
      id_name (identityFor (prompt_identities m ctx) (ms_senderId m))"
    using name by (simp add: rename_message_def prompt_ids_def)
  have keep: "cx_participantIds (rename_context f ctx) = map f (cx_participantIds ctx)"
    "cx_taskItems (rename_context f ctx) = cx_taskItems ctx" "ms_text (rename_message f m) = ms_text m"
    by (simp_all add: rename_context_def rename_message_def)
  show ?thesis
    unfolding buildPrompt_def Let_def prior block members sender keep length_map map_is_Nil_conv ..
qed

theorem prompt_is_pseudonymous_witness:
  "buildPrompt (rename_message (\<lambda>i. if i = ''@anna:x'' then ''@p1:x'' else if i = ''@ben:x'' then ''@p2:x'' else i)
      (sample_message ''$1'' 0 ''@ben:x'' ''map?''))
    (rename_context (\<lambda>i. if i = ''@anna:x'' then ''@p1:x'' else if i = ''@ben:x'' then ''@p2:x'' else i)
      \<lparr>cx_priorMessages = [sample_message ''$0'' 0 ''@anna:x'' ''hi''], cx_taskItems = [''Map''],
       cx_participantIds = [''@anna:x'', ''@ben:x'']\<rparr>) =
   buildPrompt (sample_message ''$1'' 0 ''@ben:x'' ''map?'')
      \<lparr>cx_priorMessages = [sample_message ''$0'' 0 ''@anna:x'' ''hi''], cx_taskItems = [''Map''],
       cx_participantIds = [''@anna:x'', ''@ben:x'']\<rparr>"
  by (rule prompt_is_pseudonymous) code_simp

end
