(* ===== verification/Nudge_Generator.thy ===== *)
theory Nudge_Generator
  imports Classifier
begin

text \<open>
  backend/chat-service/src/nudge/anthropic-nudge-message-generator.ts: the prompt, the
  normalisation and the safety filter of generated nudges, the two attempts, and the contract
  the rules' \<open>buildMessage\<close> relies on. The patterns are scanners over code units below 256.
\<close>

section \<open>Character classes\<close>

text \<open>\<open>\p{L}\<close> and \<open>\p{N}\<close> among the code units below 256.\<close>

definition is_letter :: "char \<Rightarrow> bool" where
  "is_letter c =
     (let n = of_char c :: nat in
      (65 \<le> n \<and> n \<le> 90) \<or> (97 \<le> n \<and> n \<le> 122) \<or> n = 170 \<or> n = 181 \<or> n = 186 \<or>
      (192 \<le> n \<and> n \<le> 214) \<or> (216 \<le> n \<and> n \<le> 246) \<or> 248 \<le> n)"

definition is_digit :: "char \<Rightarrow> bool" where
  "is_digit c = (let n = of_char c :: nat in 48 \<le> n \<and> n \<le> 57)"

definition is_number :: "char \<Rightarrow> bool" where
  "is_number c = (is_digit c \<or> (let n = of_char c :: nat in n \<in> {178, 179, 185, 188, 189, 190}))"

definition is_name_char :: "char \<Rightarrow> bool" where
  "is_name_char c = (is_letter c \<or> is_number c \<or> c = CHR ''_'')"

text \<open>\<open>\w\<close>, the characters on either side of \<open>\b\<close>.\<close>

definition is_word_char :: "char \<Rightarrow> bool" where
  "is_word_char c =
     (let n = of_char c :: nat in
      is_digit c \<or> (65 \<le> n \<and> n \<le> 90) \<or> (97 \<le> n \<and> n \<le> 122) \<or> n = 95)"

definition fold_char :: "char \<Rightarrow> char" where
  "fold_char c =
     (let n = of_char c :: nat in
      if (65 \<le> n \<and> n \<le> 90) \<or> (192 \<le> n \<and> n \<le> 222 \<and> n \<noteq> 215) then char_of (n + 32) else c)"

section \<open>Scanners\<close>

text \<open>\<open>value.replace(/\s+/g, " ")\<close>; \<open>b\<close>: the previous character was white space.\<close>

fun collapse_spaces :: "bool \<Rightarrow> string \<Rightarrow> string" where
  "collapse_spaces b [] = []"
| "collapse_spaces b (c # cs) =
     (if is_space c then (if b then [] else '' '') @ collapse_spaces True cs
      else c # collapse_spaces False cs)"

text \<open>\<open>value.split(search).length - 1\<close> for a non-empty text; \<open>skip\<close>: inside the last occurrence.\<close>

fun occurrences_from :: "nat \<Rightarrow> string \<Rightarrow> string \<Rightarrow> nat" where
  "occurrences_from skip search [] = 0"
| "occurrences_from skip search (c # cs) =
     (if skip > 0 then occurrences_from (skip - 1) search cs
      else if prefix search (c # cs) then 1 + occurrences_from (length search - 1) search cs
      else occurrences_from 0 search cs)"

definition countOccurrences :: "string \<Rightarrow> string \<Rightarrow> nat" where
  "countOccurrences v search = occurrences_from 0 search v"

text \<open>\<open>/@[\p{L}\p{N}_-]+/gu\<close>\<close>

fun mentions :: "string \<Rightarrow> string list" where
  "mentions [] = []"
| "mentions (c # cs) =
     (let run = takeWhile (\<lambda>d. is_name_char d \<or> d = CHR ''-'') cs in
      if c = CHR ''@'' \<and> run \<noteq> [] then (c # run) # mentions cs else mentions cs)"

text \<open>\<open>/\b\d{1,3}%/g\<close>; \<open>b\<close>: the previous character is a word character.\<close>

fun percentages :: "bool \<Rightarrow> string \<Rightarrow> string list" where
  "percentages b [] = []"
| "percentages b (c # cs) =
     (let run = takeWhile is_digit (c # cs); after = dropWhile is_digit (c # cs) in
      (if \<not> b \<and> run \<noteq> [] \<and> length run \<le> 3 \<and> prefix ''%'' after then [run @ ''%''] else [])
        @ percentages (is_word_char c) cs)"

text \<open>The name, in any case, not inside a longer name; \<open>b\<close>: after a letter, digit or underscore.\<close>

fun name_from :: "bool \<Rightarrow> string \<Rightarrow> string \<Rightarrow> bool" where
  "name_from b name s =
     ((\<not> b \<and> prefix (map fold_char name) (map fold_char s) \<and>
        (case drop (length name) s of [] \<Rightarrow> True | d # _ \<Rightarrow> \<not> is_name_char d)) \<or>
      (case s of [] \<Rightarrow> False | c # cs \<Rightarrow> name_from (is_name_char c) name cs))"

declare name_from.simps [simp del]

definition containsIdentityName :: "string \<Rightarrow> string \<Rightarrow> bool" where
  "containsIdentityName v name = name_from False name v"

section \<open>The safety filter\<close>

definition normalize_text :: "string \<Rightarrow> string option" where
  "normalize_text v =
     (let normalized = js_trim (collapse_spaces False v)
      in if normalized = [] then None else Some normalized)"

definition normalizeMessage :: "json option \<Rightarrow> string option" where
  "normalizeMessage v = (case v of Some (J_Str s) \<Rightarrow> normalize_text s | _ \<Rightarrow> None)"

definition isSafeCandidate :: "string \<Rightarrow> nudge_context \<Rightarrow> bool" where
  "isSafeCandidate candidate ctx =
     (let expectedMention = ''@'' @ nc_targetName ctx;
          expectedPercent = show_int (nc_contributionPercent ctx) @ ''%''
      in \<not> (length candidate > 320 \<or> length (split_spaces candidate) > 45) \<and>
         countOccurrences candidate expectedMention = 1 \<and>
         \<not> (\<exists>mention \<in> set (mentions candidate). mention \<noteq> expectedMention) \<and>
         \<not> (\<exists>name \<in> set (nc_otherParticipantNames ctx). containsIdentityName candidate name) \<and>
         percentages False candidate = [expectedPercent] \<and>
         \<not> (\<exists>previous \<in> set (nc_previousMessages ctx). normalize_text previous = Some candidate))"

section \<open>The prompt and the attempts\<close>

definition MAX_PREVIOUS_MESSAGES :: nat where "MAX_PREVIOUS_MESSAGES = 8"
definition MAX_ATTEMPTS :: nat where "MAX_ATTEMPTS = 2"

record generator_env =
  ge_apiKey :: "string option"
  ge_api :: "nat \<Rightarrow> string \<Rightarrow> http_reply"
  ge_parse :: "string \<Rightarrow> string + json"
  ge_stringify :: "string list \<Rightarrow> string"

definition nudgePrompt :: "generator_env \<Rightarrow> nudge_context \<Rightarrow> nat \<Rightarrow> string" where
  "nudgePrompt env ctx attempt =
     (let prior = last_messages MAX_PREVIOUS_MESSAGES (nc_previousMessages ctx)
      in join newline (filter (\<lambda>l. l \<noteq> [])
        [''Write one new nudge that follows every rule below:'',
         ''- Address @'' @ nc_targetName ctx @ '' exactly once.'',
         ''- Include the exact contribution percentage '' @ show_int (nc_contributionPercent ctx) @
           ''% exactly once.'',
         ''- Positively acknowledge that person's participation.'',
         ''- Gently invite them to make space for or draw in other group members.'',
         ''- Use one or two short sentences and no more than 45 words.'',
         ''- Do not name, mention, or reveal a percentage for anyone else.'',
         (if nc_otherParticipantNames ctx \<noteq> [] then
            ''- In particular, do not use these other participant labels: '' @
              join '', '' (nc_otherParticipantNames ctx) @ ''.''
          else []),
         ''- Use fresh wording rather than a stock or repeated phrase.'',
         (if attempt > 1 then
            ''- The previous candidate was unusable; make this version substantially different.''
          else []),
         [],
         ''Recent bot nudges that must not be repeated:'',
         (if prior \<noteq> [] then ge_stringify env prior else ''(none)'')]))"

text \<open>One attempt; every error of the request and of parsing ends it without a candidate.\<close>

definition attempt_candidate :: "generator_env \<Rightarrow> nudge_context \<Rightarrow> nat \<Rightarrow> string option" where
  "attempt_candidate env ctx attempt =
     (case requestAnthropicText (ge_api env attempt (nudgePrompt env ctx attempt)) of
        Inl e \<Rightarrow> None
      | Inr rawOutput \<Rightarrow>
          (case ge_parse env rawOutput of
             Inl e \<Rightarrow> None
           | Inr J_Null \<Rightarrow> None
           | Inr output \<Rightarrow>
               (case normalizeMessage (json_get (Some output) ''message'') of
                  None \<Rightarrow> None
                | Some candidate \<Rightarrow> if isSafeCandidate candidate ctx then Some candidate else None)))"

fun attempts_from :: "nat \<Rightarrow> generator_env \<Rightarrow> nudge_context \<Rightarrow> nat \<Rightarrow> generated" where
  "attempts_from 0 env ctx attempt = Gen_Null"
| "attempts_from (Suc left) env ctx attempt =
     (case attempt_candidate env ctx attempt of
        Some candidate \<Rightarrow> Gen_Text candidate
      | None \<Rightarrow> attempts_from left env ctx (attempt + 1))"

definition anthropicGenerate :: "generator_env \<Rightarrow> nudge_context \<Rightarrow> generated" where
  "anthropicGenerate env ctx =
     (if ge_apiKey env = None \<or> ge_apiKey env = Some [] then Gen_Null
      else attempts_from MAX_ATTEMPTS env ctx 1)"

section \<open>The contract of a generator\<close>

locale message_generator =
  fixes gen :: "nudge_context \<Rightarrow> generated"
  assumes safe: "gen ctx = Gen_Text t \<Longrightarrow> isSafeCandidate t ctx"
    and silent: "gen ctx \<noteq> Gen_Throws"
begin

lemma message_fallback_or_safe:
  "buildMessage (Some gen) rt split target i = buildFallbackMessage target i \<or>
   isSafeCandidate (buildMessage (Some gen) rt split target i)
     \<lparr>nc_targetName = cs_identityName target,
      nc_contributionPercent = js_round (cs_share target * 100),
      nc_otherParticipantNames =
        map cs_identityName (filter (\<lambda>e. cs_userId e \<noteq> cs_userId target) split),
      nc_previousMessages = map il_message (rn_interventions rt)\<rparr>"
  using safe silent by (simp add: buildMessage_def Let_def split: generated.split)

end

lemma safe_facts:
  assumes "isSafeCandidate t \<lparr>nc_targetName = name, nc_contributionPercent = pct,
    nc_otherParticipantNames = map cs_identityName (filter (\<lambda>e. cs_userId e \<noteq> u) split),
    nc_previousMessages = map il_message logs\<rparr>"
  shows "length t \<le> 320" "length (split_spaces t) \<le> 45" "countOccurrences t (''@'' @ name) = 1"
    "set (mentions t) \<subseteq> {''@'' @ name}"
    "filter (\<lambda>e. cs_userId e \<noteq> u \<and> containsIdentityName t (cs_identityName e)) split = []"
    "percentages False t = [show_int pct @ ''%'']"
    "Some t \<notin> set (map (normalize_text \<circ> il_message) logs)"
proof -
  note safe = assms [unfolded isSafeCandidate_def Let_def nudge_context.simps]
  from safe show "length t \<le> 320" "length (split_spaces t) \<le> 45"
    "countOccurrences t (''@'' @ name) = 1" "percentages False t = [show_int pct @ ''%'']"
    by - (linarith | blast)+
  from safe show "set (mentions t) \<subseteq> {''@'' @ name}" by blast
  from safe show "filter (\<lambda>e. cs_userId e \<noteq> u \<and> containsIdentityName t (cs_identityName e)) split = []"
    unfolding filter_empty_conv set_map set_filter by blast
  from safe show "Some t \<notin> set (map (normalize_text \<circ> il_message) logs)"
    unfolding set_map image_comp [symmetric] by (metis (no_types, lifting) imageE)
qed

lemma attempts_safe: "attempts_from n env ctx k = Gen_Text t \<Longrightarrow> isSafeCandidate t ctx"
  by (induction n env ctx k rule: attempts_from.induct)
    (auto simp: attempt_candidate_def split: option.splits sum.splits json.splits if_splits)

lemma attempts_silent: "attempts_from n env ctx k \<noteq> Gen_Throws"
  by (induction n env ctx k rule: attempts_from.induct) (auto split: option.splits)

interpretation anthropic_nudges: message_generator "anthropicGenerate env" for env
  by unfold_locales (auto simp: anthropicGenerate_def attempts_silent split: if_splits dest: attempts_safe)

text \<open>
  C33: Whatever the language model returns, the text of a nudge is either the fixed fallback or
  short, mentions exactly the target and exactly once, names no other participant, carries
  exactly one percentage, the target's own, and repeats no earlier nudge of the session.
\<close>

theorem nudge_text_is_safe:
  "let t = buildMessage (Some (anthropicGenerate env)) rt split target i in
   t = buildFallbackMessage target i \<or>
   (length t \<le> 320 \<and> length (split_spaces t) \<le> 45 \<and>
    countOccurrences t (''@'' @ cs_identityName target) = 1 \<and>
    set (mentions t) \<subseteq> {''@'' @ cs_identityName target} \<and>
    filter (\<lambda>e. cs_userId e \<noteq> cs_userId target \<and>
      containsIdentityName t (cs_identityName e)) split = [] \<and>
    percentages False t = [show_int (js_round (cs_share target * 100)) @ ''%''] \<and>
    Some t \<notin> set (map (normalize_text \<circ> il_message) (rn_interventions rt)))"
proof (cases "buildMessage (Some (anthropicGenerate env)) rt split target i = buildFallbackMessage target i")
  case True
  then show ?thesis by (simp only: Let_def simp_thms)
next
  case False
  with anthropic_nudges.message_fallback_or_safe [of env rt split target i]
  have "isSafeCandidate (buildMessage (Some (anthropicGenerate env)) rt split target i)
     \<lparr>nc_targetName = cs_identityName target, nc_contributionPercent = js_round (cs_share target * 100),
      nc_otherParticipantNames = map cs_identityName (filter (\<lambda>e. cs_userId e \<noteq> cs_userId target) split),
      nc_previousMessages = map il_message (rn_interventions rt)\<rparr>" by blast
  from safe_facts [OF this] show ?thesis unfolding Let_def by (intro disjI2 conjI)
qed

end
