(* ===== verification/Chat_Service.thy ===== *)
theory Chat_Service
  imports Nudge_Generator
begin

text \<open>
  backend/chat-service/src/sessions/sessions.service.ts: the live sessions of the Chat Service.
  The service's state is one record of maps keyed by room; every handler runs to its next
  suspension point as one step, and what it starts there (rule work, window evaluations,
  checkpoint and finalize requests) is an effect it returns, whose completion is a later step.

  A message's content is seen through the tests the service makes on it: \<open>None\<close> where a field
  fails its \<open>typeof\<close> (or \<open>Array.isArray\<close>) test. A restarted room gets a new runtime object, so
  each installed runtime carries a number and a timer or request names the one it belongs to.
\<close>

section \<open>Events\<close>

record matrix_event = timeline_event +
  te_body :: "string option"
  te_recipient :: "string option"
  te_ranking :: "ranking option"
  te_behavior :: "string option"
  te_durationMs :: "rat option"
  te_cursor :: "jsnum \<times> jsnum \<times> jsnum \<times> jsnum"

definition messageBody :: "matrix_event \<Rightarrow> string" where
  "messageBody event = orelse (te_body event) []"

definition RANKING_EVENT :: string where "RANKING_EVENT = ''de.gdm.ranking''"
definition BEHAVIOR_EVENT :: string where "BEHAVIOR_EVENT = ''de.gdm.behavior''"

definition service_message :: "matrix_event \<Rightarrow> message" where
  "service_message event =
     \<lparr>ms_id = te_eventId event, ms_timestamp = Stamp (te_ts event), ms_senderId = te_sender event,
      ms_recipientId = te_recipient event, ms_text = messageBody event, ms_reactions = []\<rparr>"

definition participant_message :: "matrix_event \<Rightarrow> message" where
  "participant_message event =
     \<lparr>ms_id = te_eventId event, ms_timestamp = Stamp (te_ts event), ms_senderId = te_sender event,
      ms_recipientId = None, ms_text = messageBody event, ms_reactions = []\<rparr>"

definition move_event :: "matrix_event \<Rightarrow> movement \<Rightarrow> behavioral_event" where
  "move_event event mv =
     \<lparr>be_id = ''ranking-move:'' @ te_eventId event, be_type = Bt_Ranking_Move,
      be_participantId = te_sender event, be_timestamp = Stamp (te_ts event), be_durationMs = None,
      be_payload = Some [(''itemId'', A_Str (mv_itemId mv)),
        (''from'', A_Num (Num (of_int (mv_from mv)))), (''to'', A_Num (Num (of_int (mv_to mv))))]\<rparr>"

definition record_ranking_event :: "matrix_event \<Rightarrow> runtime \<Rightarrow> runtime" where
  "record_ranking_event event rt =
     (if raw_workspaceMode (cd_config (rn_condition rt)) = Some ''etherpad'' then rt
      else case te_ranking event of
             None \<Rightarrow> rt
           | Some content \<Rightarrow>
               (let ranking = content\<lparr>rk_eventId := Some (te_eventId event)\<rparr>;
                    rt' = recordRanking ranking rt
                in case rk_movement ranking of
                     None \<Rightarrow> rt'
                   | Some mv \<Rightarrow> recordBehavior (move_event event mv) rt'))"

definition live_behavior :: "string \<Rightarrow> behavior_type option" where
  "live_behavior t =
     (if t = ''typing-start'' then Some Bt_Typing_Start
      else if t = ''typing-stop'' then Some Bt_Typing_Stop
      else if t = ''tab-hidden'' then Some Bt_Tab_Hidden
      else if t = ''tab-visible'' then Some Bt_Tab_Visible
      else if t = ''cursor-activity'' then Some Bt_Cursor_Activity else None)"

definition record_behavior_event :: "matrix_event \<Rightarrow> runtime \<Rightarrow> runtime" where
  "record_behavior_event event rt =
     (case Option.bind (te_behavior event) live_behavior of
        None \<Rightarrow> rt
      | Some type \<Rightarrow>
          recordBehavior
            \<lparr>be_id = te_eventId event, be_type = type, be_participantId = te_sender event,
             be_timestamp = Stamp (te_ts event), be_durationMs = te_durationMs event,
             be_payload = (if type = Bt_Cursor_Activity then
               (let (n, d, x, y) = te_cursor event in
                Some [(''sampleCount'', A_Num n), (''distancePx'', A_Num d),
                      (''lastX'', A_Num x), (''lastY'', A_Num y)])
               else None)\<rparr> rt)"

definition record_event :: "matrix_event \<Rightarrow> runtime \<Rightarrow> runtime" where
  "record_event event rt =
     (if te_type event = ''m.room.message'' then recordMessage (participant_message event) rt
      else if te_type event = RANKING_EVENT then record_ranking_event event rt
      else if te_type event = BEHAVIOR_EVENT then record_behavior_event event rt
      else rt)"

section \<open>The service\<close>

record installed =
  in_number :: nat
  in_runtime :: runtime

record service =
  sv_botUserId :: string
  sv_runtimes :: "(string \<times> installed) list"
  sv_pendingEvents :: "(string \<times> (string \<times> matrix_event) list) list"
  sv_starting :: "string list"
  sv_retiredRooms :: "string list"
  sv_finalizingRooms :: "string list"
  sv_checkpointTimers :: "string list"
  sv_checkpointRequests :: "string list"
  sv_checkpointDirty :: "string list"
  sv_ruleRequests :: "(string \<times> nat \<times> string) list"
  sv_windowRequests :: "(string \<times> nat \<times> rat) list"
  sv_windowTimers :: "(string \<times> nat \<times> rat \<times> int) list"
  sv_endTimers :: "(string \<times> rat) list"
  sv_shuttingDown :: bool
  sv_installs :: nat

datatype effect =
    Run_Rules string nat matrix_event
  | Moderate matrix_event string
  | Write_Checkpoint string checkpoint
  | Finalize string checkpoint

definition remove_room :: "string \<Rightarrow> string list \<Rightarrow> string list" where
  "remove_room r xs = filter (\<lambda>x. x \<noteq> r) xs"

definition runtime_of :: "service \<Rightarrow> string \<Rightarrow> runtime option" where
  "runtime_of sv roomId = map_option in_runtime (om_get (sv_runtimes sv) roomId)"

definition put_runtime :: "string \<Rightarrow> runtime \<Rightarrow> service \<Rightarrow> service" where
  "put_runtime roomId rt sv =
     (case om_get (sv_runtimes sv) roomId of
        None \<Rightarrow> sv
      | Some i \<Rightarrow> sv\<lparr>sv_runtimes := om_set roomId (i\<lparr>in_runtime := rt\<rparr>) (sv_runtimes sv)\<rparr>)"

section \<open>Checkpoints\<close>

text \<open>A change marks the room dirty and arms the debounce timer unless a write is under way.\<close>

definition scheduleCheckpoint :: "string \<Rightarrow> service \<Rightarrow> service" where
  "scheduleCheckpoint roomId sv =
     (if sv_shuttingDown sv \<or> roomId \<in> set (sv_finalizingRooms sv) then sv
      else
        (let dirty = sv\<lparr>sv_checkpointDirty := set_add (sv_checkpointDirty sv) roomId\<rparr>
         in if roomId \<in> set (sv_checkpointRequests sv) \<or> roomId \<in> set (sv_checkpointTimers sv) then dirty
            else dirty\<lparr>sv_checkpointTimers := set_add (sv_checkpointTimers sv) roomId\<rparr>))"

definition flushCheckpoint :: "string \<Rightarrow> service \<Rightarrow> service \<times> effect list" where
  "flushCheckpoint roomId sv0 =
     (let sv = sv0\<lparr>sv_checkpointTimers := remove_room roomId (sv_checkpointTimers sv0)\<rparr>
      in case runtime_of sv roomId of
           None \<Rightarrow> (sv, [])
         | Some rt \<Rightarrow>
             if sv_shuttingDown sv \<or> rn_ended rt \<or> roomId \<in> set (sv_finalizingRooms sv)
                \<or> roomId \<notin> set (sv_checkpointDirty sv) then (sv, [])
             else
               (let (cp, rt') = checkpoint_of rt in
                (put_runtime roomId rt'
                   (sv\<lparr>sv_checkpointDirty := remove_room roomId (sv_checkpointDirty sv),
                       sv_checkpointRequests := set_add (sv_checkpointRequests sv) roomId\<rparr>),
                 [Write_Checkpoint (rn_sessionId rt) cp])))"

text \<open>The end of the write; a failed one leaves the room dirty.\<close>

definition checkpointDone :: "string \<Rightarrow> bool \<Rightarrow> service \<Rightarrow> service" where
  "checkpointDone roomId ok sv0 =
     (let sv1 = (if \<not> ok \<and> roomId \<notin> set (sv_finalizingRooms sv0)
            then sv0\<lparr>sv_checkpointDirty := set_add (sv_checkpointDirty sv0) roomId\<rparr> else sv0);
          sv2 = sv1\<lparr>sv_checkpointRequests := remove_room roomId (sv_checkpointRequests sv1)\<rparr>
      in if roomId \<in> set (sv_checkpointDirty sv2) \<and> roomId \<notin> set (sv_finalizingRooms sv2)
         then scheduleCheckpoint roomId sv2 else sv2)"

section \<open>Events of a room\<close>

text \<open>Events of a room without a runtime wait in a buffer, unless its session is over.\<close>

definition bufferPendingEvent :: "matrix_event \<Rightarrow> service \<Rightarrow> service" where
  "bufferPendingEvent event sv =
     (if sv_shuttingDown sv \<or> te_roomId event \<in> set (sv_retiredRooms sv) then sv
      else
        (let pending = orelse (om_get (sv_pendingEvents sv) (te_roomId event)) []
         in sv\<lparr>sv_pendingEvents := om_set (te_roomId event)
                (om_set (te_eventId event) event pending) (sv_pendingEvents sv)\<rparr>))"

definition recordServiceMessage :: "matrix_event \<Rightarrow> runtime \<Rightarrow> service \<Rightarrow> service" where
  "recordServiceMessage event rt sv =
     (if te_type event \<noteq> ''m.room.message'' \<or> hasProcessed (te_eventId event) rt then sv
      else scheduleCheckpoint (te_roomId event)
        (put_runtime (te_roomId event)
          (recordMessage (service_message event) (markProcessed (te_eventId event) rt)) sv))"

definition moderate :: "matrix_event \<Rightarrow> effect list" where
  "moderate event = (if messageBody event = [] then [] else [Moderate event (messageBody event)])"

text \<open>What a finished check does: a flagged message is redacted, then its author warned privately.\<close>

definition MODERATION_WARNING :: string where
  "MODERATION_WARNING = ''Your message was removed because it violates the study's conduct policy. '' @
     ''Please keep the discussion respectful.''"

datatype room_action = Redact string string | Send_Private string string string

definition moderation_actions :: "moderation_result \<Rightarrow> bool \<Rightarrow> matrix_event \<Rightarrow> room_action list" where
  "moderation_actions result redactOk event =
     (if \<not> mr_flagged result then []
      else Redact (te_roomId event) (te_eventId event) #
        (if redactOk then [Send_Private (te_roomId event) (te_sender event) MODERATION_WARNING] else []))"

definition handleEvent :: "matrix_event \<Rightarrow> service \<Rightarrow> service \<times> effect list" where
  "handleEvent event sv =
     (case om_get (sv_runtimes sv) (te_roomId event) of
        None \<Rightarrow> (bufferPendingEvent event sv, [])
      | Some i \<Rightarrow>
          (let rt = in_runtime i in
           if sv_shuttingDown sv \<or> rn_ended rt \<or> te_roomId event \<in> set (sv_finalizingRooms sv) then (sv, [])
           else if te_sender event = sv_botUserId sv \<or> isServiceUser (te_sender event) then
             (recordServiceMessage event rt sv, [])
           else if hasProcessed (te_eventId event) rt then (sv, [])
           else
             (let sv' = put_runtime (te_roomId event)
                    (record_event event (markProcessed (te_eventId event) rt)) sv
              in (sv'\<lparr>sv_ruleRequests :=
                    sv_ruleRequests sv' @ [(te_roomId event, in_number i, te_eventId event)]\<rparr>,
                  (if te_type event = ''m.room.message'' then moderate event else [])
                    @ [Run_Rules (te_roomId event) (in_number i) event]))))"

text \<open>The end of a rule request: what the rules did to the runtime, then a checkpoint.\<close>

definition rulesDone :: "string \<Rightarrow> nat \<Rightarrow> string \<Rightarrow> (runtime \<Rightarrow> runtime) \<Rightarrow> service \<Rightarrow> service" where
  "rulesDone roomId k eventId f sv0 =
     (let sv1 = (case om_get (sv_runtimes sv0) roomId of
            None \<Rightarrow> sv0
          | Some i \<Rightarrow> if in_number i = k then put_runtime roomId (f (in_runtime i)) sv0 else sv0);
          sv2 = sv1\<lparr>sv_ruleRequests := remove1 (roomId, k, eventId) (sv_ruleRequests sv1)\<rparr>
      in scheduleCheckpoint roomId sv2)"

section \<open>Window boundaries\<close>

definition window_length :: "rat raw_config \<Rightarrow> rat" where
  "window_length config =
     orelse (raw_contributionWindowMinutes config)
       (contributionWindowMinutes DEFAULT_INTERVENTION_CONFIG) * 60000"

definition grid_start :: "runtime \<Rightarrow> rat" where
  "grid_start rt =
     rn_startedAtMs rt +
       max 0 (orelse (raw_protectedStartMinutes (cd_config (rn_condition rt)))
         (protectedStartMinutes DEFAULT_INTERVENTION_CONFIG) * 60000)"

definition next_boundary :: "runtime \<Rightarrow> int \<Rightarrow> rat \<Rightarrow> rat" where
  "next_boundary rt now previousBoundary =
     (let windowMs = window_length (cd_config (rn_condition rt));
          elapsed = max 0 (of_int now - grid_start rt)
      in max (grid_start rt + of_int (\<lfloor>elapsed / windowMs\<rfloor> + 1) * windowMs)
             (previousBoundary + windowMs))"

definition scheduleWindowTick :: "string \<Rightarrow> nat \<Rightarrow> runtime \<Rightarrow> int \<Rightarrow> rat \<Rightarrow> service \<Rightarrow> service" where
  "scheduleWindowTick roomId k rt now previousBoundary sv =
     (if \<not> window_length (cd_config (rn_condition rt)) > 0 then sv
      else
        (let b = next_boundary rt now previousBoundary
         in sv\<lparr>sv_windowTimers := om_set roomId (k, b, \<lceil>b - of_int now\<rceil>) (sv_windowTimers sv)\<rparr>))"

text \<open>A timer fires: nothing, the rest of an early timer, or the claim and the next tick.\<close>

definition onWindowBoundary :: "string \<Rightarrow> nat \<Rightarrow> rat \<Rightarrow> int \<Rightarrow> service \<Rightarrow> service" where
  "onWindowBoundary roomId k windowEndMs now sv0 =
     (let sv = sv0\<lparr>sv_windowTimers := om_del roomId (sv_windowTimers sv0)\<rparr>
      in case om_get (sv_runtimes sv) roomId of
           None \<Rightarrow> sv
         | Some i \<Rightarrow>
             if sv_shuttingDown sv \<or> rn_ended (in_runtime i) \<or> roomId \<in> set (sv_finalizingRooms sv)
                \<or> in_number i \<noteq> k then sv
             else if windowEndMs - of_int now > 0 then
               sv\<lparr>sv_windowTimers :=
                    om_set roomId (k, windowEndMs, \<lceil>windowEndMs - of_int now\<rceil>) (sv_windowTimers sv)\<rparr>
             else
               (case claimWindowBoundary windowEndMs (in_runtime i) of
                  (False, rt) \<Rightarrow> scheduleWindowTick roomId k rt now windowEndMs sv
                | (True, rt) \<Rightarrow>
                    scheduleWindowTick roomId k rt now windowEndMs
                      ((put_runtime roomId rt sv)
                        \<lparr>sv_windowRequests := sv_windowRequests sv @ [(roomId, k, windowEndMs)]\<rparr>)))"

text \<open>
  The evaluations of a room run one after the other: only the oldest request of the room can be
  the one that finishes.
\<close>

definition running_window :: "string \<Rightarrow> service \<Rightarrow> (string \<times> nat \<times> rat) option" where
  "running_window roomId sv = List.find (\<lambda>w. fst w = roomId) (sv_windowRequests sv)"

definition windowDone :: "string \<Rightarrow> window_env \<Rightarrow> service \<Rightarrow> service \<times> post list" where
  "windowDone roomId env sv0 =
     (case running_window roomId sv0 of
        None \<Rightarrow> (sv0, [])
      | Some (r, k, windowEndMs) \<Rightarrow>
          (let sv1 = sv0\<lparr>sv_windowRequests := remove1 (r, k, windowEndMs) (sv_windowRequests sv0)\<rparr>
           in case om_get (sv_runtimes sv1) roomId of
                None \<Rightarrow> (scheduleCheckpoint roomId sv1, [])
              | Some i \<Rightarrow>
                  if in_number i \<noteq> k then (scheduleCheckpoint roomId sv1, [])
                  else
                    (let result = onWindowElapsed env (in_runtime i) windowEndMs
                     in (scheduleCheckpoint roomId (put_runtime roomId (wr_runtime result) sv1),
                         wr_posts result))))"

section \<open>Starting a session\<close>

definition RESTORED_SESSION_MIN_REMAINING_MS :: rat where
  "RESTORED_SESSION_MIN_REMAINING_MS = 5000"

text \<open>What a call does before it first waits: nothing, share the running start, refuse, or join.\<close>

datatype start_decision = Already_Live | Join_Running | Start_Refused | Begin_Join

definition startSession :: "start_notification \<Rightarrow> service \<Rightarrow> start_decision \<times> service" where
  "startSession note sv =
     (if om_get (sv_runtimes sv) (sn_roomId note) \<noteq> None then (Already_Live, sv)
      else if sn_roomId note \<in> set (sv_starting sv) then (Join_Running, sv)
      else if sv_shuttingDown sv then (Start_Refused, sv)
      else (Begin_Join, sv\<lparr>sv_starting := set_add (sv_starting sv) (sn_roomId note)\<rparr>))"

fun replay :: "string list \<Rightarrow> matrix_event list \<Rightarrow> service \<Rightarrow> service \<times> effect list" where
  "replay replayed [] sv = (sv, [])"
| "replay replayed (event # events) sv =
     (if te_eventId event \<in> set replayed then replay replayed events sv
      else
        (let (sv1, es) = handleEvent event sv;
             (sv2, es') = replay (set_add replayed (te_eventId event)) events sv1
         in (sv2, es @ es')))"

text \<open>
  After the join and, for a restart, the room's history: install the runtime, replay what came
  before, arm the two timers. A start during shutdown throws instead (\<open>None\<close>) and, like a failed
  join, only clears the running start.
\<close>

definition installSession :: "start_notification \<Rightarrow> matrix_event list \<Rightarrow> int \<Rightarrow> service \<Rightarrow>
    (service \<times> effect list) option" where
  "installSession note history now sv0 =
     (let sv = sv0\<lparr>sv_starting := remove_room (sn_roomId note) (sv_starting sv0)\<rparr> in
      if sv_shuttingDown sv then None
      else
        (let roomId = sn_roomId note;
             k = sv_installs sv;
             runtime = new_runtime now note;
             pending = om_values (orelse (om_get (sv_pendingEvents sv) roomId) []);
             sv1 = sv\<lparr>sv_runtimes := om_set roomId \<lparr>in_number = k, in_runtime = runtime\<rparr> (sv_runtimes sv),
                      sv_installs := k + 1,
                      sv_retiredRooms := remove_room roomId (sv_retiredRooms sv),
                      sv_pendingEvents := om_del roomId (sv_pendingEvents sv)\<rparr>;
             (sv2, es) = replay [] ((if sn_checkpoint note = None then [] else history) @ pending) sv1;
             elapsed = (case sn_startedAt note of None \<Rightarrow> 0
               | Some startedAt \<Rightarrow> max 0 (of_int (now - startedAt)));
             remaining = max (if sn_checkpoint note = None then 0 else RESTORED_SESSION_MIN_REMAINING_MS)
               (sn_durationMinutes note * 60000 - elapsed);
             sv3 = sv2\<lparr>sv_endTimers := om_set roomId remaining (sv_endTimers sv2)\<rparr>
         in Some (scheduleWindowTick roomId k runtime now 0 sv3, es)))"

definition joinFailed :: "start_notification \<Rightarrow> service \<Rightarrow> service" where
  "joinFailed note sv = sv\<lparr>sv_starting := remove_room (sn_roomId note) (sv_starting sv)\<rparr>"

section \<open>Ending a session\<close>

definition FINALIZE_RETRY_MS :: rat where "FINALIZE_RETRY_MS = 5000"

text \<open>Up to the first wait: the guards, the mark that stops everything else, the timers.\<close>

definition endSession :: "string \<Rightarrow> service \<Rightarrow> bool \<times> service" where
  "endSession roomId sv0 =
     (if sv_shuttingDown sv0 then (False, sv0)
      else
        (let sv = sv0\<lparr>sv_endTimers := om_del roomId (sv_endTimers sv0)\<rparr>
         in case runtime_of sv roomId of
              None \<Rightarrow> (False, sv)
            | Some rt \<Rightarrow>
                if rn_ended rt \<or> roomId \<in> set (sv_finalizingRooms sv) then (False, sv)
                else (True, sv\<lparr>sv_finalizingRooms := set_add (sv_finalizingRooms sv) roomId,
                               sv_windowTimers := om_del roomId (sv_windowTimers sv)\<rparr>)))"

text \<open>The waits: no evaluation, rule or checkpoint request of the room is left.\<close>

definition room_quiet :: "string \<Rightarrow> service \<Rightarrow> bool" where
  "room_quiet roomId sv \<longleftrightarrow>
     list_all (\<lambda>w. fst w \<noteq> roomId) (sv_windowRequests sv) \<and>
     list_all (\<lambda>w. fst w \<noteq> roomId) (sv_ruleRequests sv) \<and>
     roomId \<notin> set (sv_checkpointRequests sv)"

definition sendFinalize :: "string \<Rightarrow> service \<Rightarrow> service \<times> effect list" where
  "sendFinalize roomId sv0 =
     (let sv = sv0\<lparr>sv_checkpointTimers := remove_room roomId (sv_checkpointTimers sv0)\<rparr>
      in case runtime_of sv roomId of
           None \<Rightarrow> (sv, [])
         | Some rt \<Rightarrow>
             (let (cp, rt') = checkpoint_of rt
              in (put_runtime roomId rt' sv, [Finalize (rn_sessionId rt) cp])))"

definition finalizeDone :: "string \<Rightarrow> bool \<Rightarrow> service \<Rightarrow> service" where
  "finalizeDone roomId ok sv =
     (if \<not> ok then
        sv\<lparr>sv_finalizingRooms := remove_room roomId (sv_finalizingRooms sv),
           sv_endTimers := om_set roomId FINALIZE_RETRY_MS (sv_endTimers sv)\<rparr>
      else
        sv\<lparr>sv_runtimes := om_del roomId (sv_runtimes sv),
           sv_retiredRooms := set_add (sv_retiredRooms sv) roomId,
           sv_pendingEvents := om_del roomId (sv_pendingEvents sv),
           sv_ruleRequests := filter (\<lambda>w. fst w \<noteq> roomId) (sv_ruleRequests sv),
           sv_windowRequests := filter (\<lambda>w. fst w \<noteq> roomId) (sv_windowRequests sv),
           sv_checkpointRequests := remove_room roomId (sv_checkpointRequests sv),
           sv_checkpointDirty := remove_room roomId (sv_checkpointDirty sv),
           sv_finalizingRooms := remove_room roomId (sv_finalizingRooms sv)\<rparr>)"

text \<open>Before shutdown: no timer is left; the last writes follow once the requests have settled.\<close>

definition beginShutdown :: "service \<Rightarrow> service" where
  "beginShutdown sv =
     sv\<lparr>sv_shuttingDown := True, sv_checkpointTimers := [], sv_windowTimers := [], sv_endTimers := []\<rparr>"

definition shutdownCheckpoints :: "service \<Rightarrow> effect list" where
  "shutdownCheckpoints sv =
     map (\<lambda>i. Write_Checkpoint (rn_sessionId (in_runtime i)) (fst (checkpoint_of (in_runtime i))))
       (filter (\<lambda>i. \<not> rn_ended (in_runtime i)) (om_values (sv_runtimes sv)))"

text \<open>The sessions a recovery still has to start, from the Session Manager's answer.\<close>

definition recovery_targets :: "start_notification list \<Rightarrow> service \<Rightarrow> start_notification list" where
  "recovery_targets notes sv =
     (if sv_shuttingDown sv then []
      else filter (\<lambda>note. om_get (sv_runtimes sv) (sn_roomId note) = None) notes)"

section \<open>The service as a machine\<close>

text \<open>
  The steps: events, timers that fire, requests that finish. A step that is not enabled (no such
  timer, no such request) leaves the service alone.
\<close>

datatype service_op =
    Sv_Event matrix_event
  | Sv_Rules_Done string nat string "classification_result option"
  | Sv_Flush string
  | Sv_Checkpoint_Done string bool
  | Sv_Window_Timer string int
  | Sv_Window_Done string window_env
  | Sv_Start start_notification
  | Sv_Join_Failed start_notification
  | Sv_Install start_notification "matrix_event list" int
  | Sv_End string
  | Sv_Finalize string
  | Sv_Finalize_Done string bool
  | Sv_Shutdown

definition apply_result :: "classification_result option \<Rightarrow> runtime \<Rightarrow> runtime" where
  "apply_result result rt = (case result of None \<Rightarrow> rt | Some r \<Rightarrow> record_result r rt)"

definition finalize_ready :: "string \<Rightarrow> service \<Rightarrow> bool" where
  "finalize_ready roomId sv \<longleftrightarrow> roomId \<in> set (sv_finalizingRooms sv) \<and> room_quiet roomId sv"

fun service_step :: "service \<Rightarrow> service_op \<Rightarrow> service" where
  "service_step sv (Sv_Event event) = fst (handleEvent event sv)"
| "service_step sv (Sv_Rules_Done r k e result) =
     (if (r, k, e) \<in> set (sv_ruleRequests sv) then rulesDone r k e (apply_result result) sv else sv)"
| "service_step sv (Sv_Flush r) =
     (if r \<in> set (sv_checkpointTimers sv) then fst (flushCheckpoint r sv) else sv)"
| "service_step sv (Sv_Checkpoint_Done r ok) =
     (if r \<in> set (sv_checkpointRequests sv) then checkpointDone r ok sv else sv)"
| "service_step sv (Sv_Window_Timer r now) =
     (case om_get (sv_windowTimers sv) r of None \<Rightarrow> sv
      | Some (k, b, _) \<Rightarrow> onWindowBoundary r k b now sv)"
| "service_step sv (Sv_Window_Done r env) = fst (windowDone r env sv)"
| "service_step sv (Sv_Start note) = snd (startSession note sv)"
| "service_step sv (Sv_Join_Failed note) = joinFailed note sv"
| "service_step sv (Sv_Install note history now) =
     (if sn_roomId note \<in> set (sv_starting sv) then
        (case installSession note history now sv of None \<Rightarrow> joinFailed note sv | Some (sv', _) \<Rightarrow> sv')
      else sv)"
| "service_step sv (Sv_End r) =
     (if om_get (sv_endTimers sv) r \<noteq> None then snd (endSession r sv) else sv)"
| "service_step sv (Sv_Finalize r) = (if finalize_ready r sv then fst (sendFinalize r sv) else sv)"
| "service_step sv (Sv_Finalize_Done r ok) =
     (if finalize_ready r sv \<and> r \<notin> set (sv_checkpointTimers sv) then finalizeDone r ok sv else sv)"
| "service_step sv Sv_Shutdown = beginShutdown sv"

definition live_rooms :: "service \<Rightarrow> string set" where
  "live_rooms sv = fst ` set (sv_runtimes sv)"

definition busy_rooms :: "service \<Rightarrow> string set" where
  "busy_rooms sv = set (sv_checkpointTimers sv) \<union> set (sv_checkpointRequests sv) \<union>
     set (sv_finalizingRooms sv) \<union> set (sv_checkpointDirty sv) \<union>
     fst ` set (sv_ruleRequests sv) \<union> fst ` set (sv_windowRequests sv)"

definition service_wf :: "service \<Rightarrow> bool" where
  "service_wf sv \<longleftrightarrow>
     set (sv_checkpointTimers sv) \<inter> set (sv_checkpointRequests sv) = {} \<and>
     busy_rooms sv \<subseteq> live_rooms sv \<and>
     live_rooms sv \<inter> (set (sv_retiredRooms sv) \<union> set (sv_starting sv)) = {} \<and>
     (\<forall>i \<in> snd ` set (sv_runtimes sv). \<not> rn_ended (in_runtime i)) \<and>
     distinct (map fst (sv_runtimes sv)) \<and>
     (sv_shuttingDown sv \<or> set (sv_checkpointDirty sv) \<subseteq> set (sv_checkpointTimers sv) \<union>
        set (sv_checkpointRequests sv) \<union> set (sv_finalizingRooms sv) \<union> fst ` set (sv_endTimers sv))"

lemma set_remove_room [simp]: "set (remove_room r xs) = set xs - {r}"
  by (auto simp: remove_room_def)

lemma keys_om_set [simp]: "fst ` set (om_set k v m) = insert k (fst ` set m)"
  by (simp add: dom_update)

lemma keys_om_del [simp]: "fst ` set (om_del k m) = fst ` set m - {k}"
  by (induction m) auto

lemma values_om_set: "x \<in> snd ` set (om_set k v m) \<Longrightarrow> x = v \<or> x \<in> snd ` set m"
  by (induction m) (auto split: if_splits)

lemma values_om_del: "x \<in> snd ` set (om_del k m) \<Longrightarrow> x \<in> snd ` set m"
  by (induction m) (auto split: if_splits)

lemma om_get_key: "om_get m k = Some v \<Longrightarrow> k \<in> fst ` set m \<and> v \<in> snd ` set m"
  by (force dest: map_of_SomeD)

text \<open>Replacing the runtime of a room keeps everything else.\<close>

lemma put_runtime_simps [simp]:
  "sv_botUserId (put_runtime r rt sv) = sv_botUserId sv"
  "sv_pendingEvents (put_runtime r rt sv) = sv_pendingEvents sv"
  "sv_starting (put_runtime r rt sv) = sv_starting sv"
  "sv_retiredRooms (put_runtime r rt sv) = sv_retiredRooms sv"
  "sv_finalizingRooms (put_runtime r rt sv) = sv_finalizingRooms sv"
  "sv_checkpointTimers (put_runtime r rt sv) = sv_checkpointTimers sv"
  "sv_checkpointRequests (put_runtime r rt sv) = sv_checkpointRequests sv"
  "sv_checkpointDirty (put_runtime r rt sv) = sv_checkpointDirty sv"
  "sv_ruleRequests (put_runtime r rt sv) = sv_ruleRequests sv"
  "sv_windowRequests (put_runtime r rt sv) = sv_windowRequests sv"
  "sv_windowTimers (put_runtime r rt sv) = sv_windowTimers sv"
  "sv_endTimers (put_runtime r rt sv) = sv_endTimers sv"
  "sv_shuttingDown (put_runtime r rt sv) = sv_shuttingDown sv"
  "sv_installs (put_runtime r rt sv) = sv_installs sv"
  by (simp_all add: put_runtime_def split: option.split)

lemma live_rooms_put [simp]: "live_rooms (put_runtime r rt sv) = live_rooms sv"
  by (auto simp: live_rooms_def put_runtime_def dest: om_get_key split: option.split)

lemma om_get_put:
  "om_get (sv_runtimes (put_runtime r rt sv)) q =
     (if q = r then map_option (\<lambda>i. i\<lparr>in_runtime := rt\<rparr>) (om_get (sv_runtimes sv) r)
      else om_get (sv_runtimes sv) q)"
  by (simp add: put_runtime_def update_conv' split: option.split)

lemma put_runtime_wf:
  assumes "service_wf sv" and "\<not> rn_ended rt" shows "service_wf (put_runtime r rt sv)"
proof -
  have "\<forall>i \<in> snd ` set (sv_runtimes (put_runtime r rt sv)). \<not> rn_ended (in_runtime i)"
    using assms by (auto simp: service_wf_def put_runtime_def split: option.split dest!: values_om_set [OF image_eqI [OF refl]] dest: om_get_key)
  moreover have "distinct (map fst (sv_runtimes (put_runtime r rt sv)))"
    using assms(1) by (auto simp: service_wf_def put_runtime_def distinct_update split: option.split)
  ultimately show ?thesis using assms(1) by (simp add: service_wf_def busy_rooms_def)
qed

section \<open>Preservation\<close>

lemma ended_simps [simp]:
  "rn_ended (recordMessage m rt) = rn_ended rt" "rn_ended (recordRanking k rt) = rn_ended rt"
  "rn_ended (recordBehavior b rt) = rn_ended rt" "rn_ended (markProcessed e rt) = rn_ended rt"
  "rn_ended (recordClassification c rt) = rn_ended rt"
  "rn_ended (recordClassificationFailure f rt) = rn_ended rt"
  "rn_ended (recordWindowEvaluation w rt) = rn_ended rt"
  "rn_ended (recordIntervention i rt) = rn_ended rt"
  "rn_ended (setLastIntervention x rt) = rn_ended rt"
  "rn_ended (snd (getRuleState rt)) = rn_ended rt"
  "rn_ended (snd (checkpoint_of rt)) = rn_ended rt"
  "rn_ended (snd (claimWindowBoundary t rt)) = rn_ended rt"
  by (simp_all add: runtime_op_defs setLastIntervention_def getRuleState_def Let_def)

lemma record_event_ended [simp]: "rn_ended (record_event e rt) = rn_ended rt"
  by (simp add: record_event_def record_ranking_event_def record_behavior_event_def Let_def
      split: option.split)

lemma apply_result_ended [simp]: "rn_ended (apply_result r rt) = rn_ended rt"
  by (simp add: apply_result_def record_result_def split: option.split sum.split)

lemma same_record_ended: "same_record rt rt' \<Longrightarrow> rn_ended rt' = rn_ended rt"
  unfolding same_record_def by (metis runtime.select_convs(14) runtime.surjective runtime.update_convs(18))

lemma deliver_nudge_ended [simp]:
  "rn_ended (wr_runtime (deliver_nudge env config mode net rt t split aud target)) = rn_ended rt"
  by (auto simp: deliver_nudge_def Let_def dest!: active_same same_record_ended
      split: option.split prod.split)

lemma onWindowElapsed_ended [simp]: "rn_ended (wr_runtime (onWindowElapsed env rt t)) = rn_ended rt"
proof -
  obtain roster net1 rt1 where 1: "getParticipantIds (ev_members env) rt = (roster, net1, rt1)"
    by (cases "getParticipantIds (ev_members env) rt")
  obtain act net2 rt2 where 2: "getActiveParticipantUserIds net1 rt1 = (act, net2, rt2)"
    by (cases "getActiveParticipantUserIds net1 rt1")
  have same: "rn_ended rt2 = rn_ended rt"
    by (rule same_record_ended [OF same_record_trans [OF getParticipantIds_same [OF 1] active_same [OF 2]]])
  have eval: "rn_ended (wr_runtime (evaluate_split env config mode roster ids net2 rt2 t)) = rn_ended rt" for config mode ids
  proof -
    obtain l rt3 where g: "getRuleState rt2 = (l, rt3)" by (cases "getRuleState rt2")
    then have "rn_ended rt3 = rn_ended rt" using same ended_simps(10) [of rt2] by simp
    then show ?thesis by (simp add: evaluate_split_def g Let_def split: list.split)
  qed
  show ?thesis
    unfolding onWindowElapsed_def Let_def 1 prod.case 2 by (cases act) (simp_all add: same eval)
qed

lemma new_runtime_ended [simp]: "\<not> rn_ended (new_runtime now note)"
  by (simp add: new_runtime_fields split: option.split)

lemma live_not_ended:
  assumes "service_wf sv" and "om_get (sv_runtimes sv) r = Some i"
  shows "\<not> rn_ended (in_runtime i)"
proof -
  have "i \<in> snd ` set (sv_runtimes sv)" using om_get_key [OF assms(2)] by simp
  with assms(1) show ?thesis unfolding service_wf_def by blast
qed

lemma live_in: "om_get (sv_runtimes sv) r = Some i \<Longrightarrow> r \<in> live_rooms sv"
  unfolding live_rooms_def by (blast dest: om_get_key)

lemma live_get: "r \<in> live_rooms sv \<Longrightarrow> \<exists>i. om_get (sv_runtimes sv) r = Some i"
  unfolding live_rooms_def by (metis not_None_eq map_of_eq_None_iff)

lemmas wf_defs = service_wf_def busy_rooms_def live_rooms_def

lemma scheduleCheckpoint_wf [preserved]:
  "service_wf sv \<Longrightarrow> r \<in> live_rooms sv \<Longrightarrow> service_wf (scheduleCheckpoint r sv)"
  by (auto simp: scheduleCheckpoint_def wf_defs Let_def)

lemma flushCheckpoint_wf [preserved]:
  assumes wf: "service_wf sv" and r: "r \<in> set (sv_checkpointTimers sv)"
  shows "service_wf (fst (flushCheckpoint r sv))"
proof -
  have "r \<in> live_rooms sv" using wf r by (auto simp: service_wf_def busy_rooms_def)
  then obtain i where i: "om_get (sv_runtimes sv) r = Some i" using live_get by blast
  obtain cp rt' where cp: "checkpoint_of (in_runtime i) = (cp, rt')" by (cases "checkpoint_of (in_runtime i)")
  have alive: "\<not> rn_ended (in_runtime i)" by (rule live_not_ended [OF wf i])
  then have alive': "\<not> rn_ended rt'" using ended_simps(11) [of "in_runtime i"] cp by simp
  let ?sv = "sv\<lparr>sv_checkpointTimers := remove_room r (sv_checkpointTimers sv)\<rparr>"
  have get: "runtime_of ?sv r = Some (in_runtime i)" by (simp add: runtime_of_def i)
  show ?thesis
  proof (cases "sv_shuttingDown sv \<or> r \<in> set (sv_finalizingRooms sv) \<or> r \<notin> set (sv_checkpointDirty sv)")
    case True
    then have "fst (flushCheckpoint r sv) = ?sv"
      using alive by (auto simp: flushCheckpoint_def Let_def get)
    moreover have "service_wf ?sv" using wf True by (auto simp: wf_defs)
    ultimately show ?thesis by simp
  next
    case False
    let ?sv' = "?sv\<lparr>sv_checkpointDirty := remove_room r (sv_checkpointDirty sv),
      sv_checkpointRequests := set_add (sv_checkpointRequests sv) r\<rparr>"
    have "fst (flushCheckpoint r sv) = put_runtime r rt' ?sv'"
      using alive False by (simp add: flushCheckpoint_def Let_def get cp)
    moreover have "service_wf ?sv'" using wf r by (auto simp: wf_defs)
    ultimately show ?thesis using alive' by (simp add: put_runtime_wf)
  qed
qed

lemma checkpointDone_wf [preserved]:
  assumes "service_wf sv" and "r \<in> set (sv_checkpointRequests sv)"
  shows "service_wf (checkpointDone r ok sv)"
  using assms by (auto simp: checkpointDone_def scheduleCheckpoint_def wf_defs Let_def)

lemma bufferPendingEvent_wf [preserved]:
  assumes "service_wf sv" shows "service_wf (bufferPendingEvent e sv)"
proof -
  have "service_wf (sv\<lparr>sv_pendingEvents := x\<rparr>)" for x using assms by (simp add: wf_defs)
  with assms show ?thesis by (simp add: bufferPendingEvent_def Let_def)
qed

lemma ruleRequests_wf:
  "service_wf sv \<Longrightarrow> fst ` set ys \<subseteq> live_rooms sv \<Longrightarrow> service_wf (sv\<lparr>sv_ruleRequests := ys\<rparr>)"
  by (simp add: wf_defs)

lemma handleEvent_wf [preserved]:
  assumes wf: "service_wf sv" shows "service_wf (fst (handleEvent e sv))"
proof (cases "om_get (sv_runtimes sv) (te_roomId e)")
  case None
  then show ?thesis using bufferPendingEvent_wf [OF wf] by (simp add: handleEvent_def)
next
  case (Some i)
  have alive: "\<not> rn_ended (in_runtime i)" by (rule live_not_ended [OF wf Some])
  note put = put_runtime_wf [OF wf]
  have live: "te_roomId e \<in> live_rooms sv" by (rule live_in [OF Some])
  have service: "service_wf (recordServiceMessage e (in_runtime i) sv)"
    using alive live wf put by (simp add: recordServiceMessage_def scheduleCheckpoint_wf)
  have requests: "fst ` set (sv_ruleRequests sv @ [(te_roomId e, k, te_eventId e)]) \<subseteq> live_rooms sv" for k
    using wf live by (auto simp: service_wf_def busy_rooms_def)
  have rules: "service_wf (put_runtime (te_roomId e) (record_event e (markProcessed (te_eventId e) (in_runtime i))) sv
      \<lparr>sv_ruleRequests := sv_ruleRequests sv @ [(te_roomId e, k, te_eventId e)]\<rparr>)" for k
    by (rule ruleRequests_wf) (use alive put requests in simp_all)
  show ?thesis
    using alive wf service rules by (simp add: handleEvent_def Some Let_def)
qed

lemma remove1_rooms: "fst ` set xs \<subseteq> A \<Longrightarrow> fst ` set (remove1 x xs) \<subseteq> A"
  using set_remove1_subset [of x xs] by blast

lemma rulesDone_wf [preserved]:
  assumes wf: "service_wf sv" and "(r, k, e) \<in> set (sv_ruleRequests sv)"
  shows "service_wf (rulesDone r k e (apply_result res) sv)"
proof -
  have sub: "fst ` set (sv_ruleRequests sv) \<subseteq> live_rooms sv" using wf by (simp add: service_wf_def busy_rooms_def)
  have live: "r \<in> live_rooms sv" using subsetD [OF sub imageI [OF assms(2), of fst]] by simp
  define sv1 where "sv1 = (case om_get (sv_runtimes sv) r of None \<Rightarrow> sv
    | Some i \<Rightarrow> if in_number i = k then put_runtime r (apply_result res (in_runtime i)) sv else sv)"
  have wf1: "service_wf sv1"
    using wf by (auto simp: sv1_def live_not_ended put_runtime_wf split: option.split)
  have same: "live_rooms sv1 = live_rooms sv" "sv_ruleRequests sv1 = sv_ruleRequests sv"
    by (simp_all add: sv1_def split: option.split)
  from sub have "fst ` set (remove1 (r, k, e) (sv_ruleRequests sv)) \<subseteq> live_rooms sv"
    by (rule remove1_rooms)
  then have "service_wf (sv1\<lparr>sv_ruleRequests := remove1 (r, k, e) (sv_ruleRequests sv1)\<rparr>)"
    using wf1 same by (simp add: ruleRequests_wf)
  moreover have "r \<in> live_rooms (sv1\<lparr>sv_ruleRequests := ys\<rparr>)" for ys
    using live same by (simp add: live_rooms_def)
  ultimately show ?thesis
    unfolding rulesDone_def Let_def sv1_def [symmetric] by (rule scheduleCheckpoint_wf)
qed

lemma windowRequests_wf:
  "service_wf sv \<Longrightarrow> fst ` set ys \<subseteq> live_rooms sv \<Longrightarrow> service_wf (sv\<lparr>sv_windowRequests := ys\<rparr>)"
  by (simp add: wf_defs)

lemma windowTimers_wf: "service_wf sv \<Longrightarrow> service_wf (sv\<lparr>sv_windowTimers := x\<rparr>)"
  by (simp add: wf_defs)

lemma scheduleWindowTick_wf: "service_wf sv \<Longrightarrow> service_wf (scheduleWindowTick r k rt now p sv)"
  by (simp add: scheduleWindowTick_def Let_def windowTimers_wf)

lemma onWindowBoundary_wf [preserved]:
  assumes wf: "service_wf sv" shows "service_wf (onWindowBoundary r k b now sv)"
proof -
  let ?sv = "sv\<lparr>sv_windowTimers := om_del r (sv_windowTimers sv)\<rparr>"
  note timers = windowTimers_wf [OF wf]
  then have wf': "service_wf ?sv" .
  show ?thesis
  proof (cases "om_get (sv_runtimes sv) r")
    case None
    then show ?thesis using wf' by (simp add: onWindowBoundary_def Let_def)
  next
    case (Some i)
    obtain ok rt where c: "claimWindowBoundary b (in_runtime i) = (ok, rt)"
      by (cases "claimWindowBoundary b (in_runtime i)")
    have "\<not> rn_ended rt" using live_not_ended [OF wf Some] ended_simps(12) [of b "in_runtime i"] c by simp
    then have put: "service_wf (put_runtime r rt ?sv)" using wf' by (simp add: put_runtime_wf)
    have "fst ` set (sv_windowRequests sv @ [(r, k, b)]) \<subseteq> live_rooms (put_runtime r rt ?sv)"
      using wf live_in [OF Some] by (auto simp: wf_defs put_runtime_def split: option.split)
    then have "service_wf ((put_runtime r rt ?sv)\<lparr>sv_windowRequests := sv_windowRequests sv @ [(r, k, b)]\<rparr>)"
      by (rule windowRequests_wf [OF put])
    then show ?thesis
      using timers by (simp add: onWindowBoundary_def Let_def Some c scheduleWindowTick_wf split: bool.split)
  qed
qed

lemma windowDone_wf [preserved]:
  assumes wf: "service_wf sv" shows "service_wf (fst (windowDone r env sv))"
proof (cases "running_window r sv")
  case None
  then show ?thesis using wf by (simp add: windowDone_def)
next
  case (Some w)
  obtain q k b where w: "w = (q, k, b)" by (cases w)
  have "fst w = r \<and> w \<in> set (sv_windowRequests sv)"
    using Some unfolding running_window_def by (rule find_SomeD)
  then have q: "w \<in> set (sv_windowRequests sv)" "q = r" by (auto simp: w)
  have sub: "fst ` set (sv_windowRequests sv) \<subseteq> live_rooms sv" using wf by (simp add: service_wf_def busy_rooms_def)
  then have live: "r \<in> live_rooms sv" using subsetD [OF sub imageI [OF q(1), of fst]] q w by simp
  let ?sv = "sv\<lparr>sv_windowRequests := remove1 (q, k, b) (sv_windowRequests sv)\<rparr>"
  have "fst ` set (remove1 (q, k, b) (sv_windowRequests sv)) \<subseteq> live_rooms sv"
    using sub by (rule remove1_rooms)
  then have wf': "service_wf ?sv" by (rule windowRequests_wf [OF wf])
  obtain i where i: "om_get (sv_runtimes sv) r = Some i" using live_get [OF live] by blast
  have "\<not> rn_ended (wr_runtime (onWindowElapsed env (in_runtime i) b))"
    using live_not_ended [OF wf i] by simp
  then have put: "service_wf (put_runtime r (wr_runtime (onWindowElapsed env (in_runtime i) b)) ?sv)"
    using wf' by (simp add: put_runtime_wf)
  have lv: "r \<in> live_rooms ?sv" using live by (simp add: live_rooms_def)
  show ?thesis
    using scheduleCheckpoint_wf [OF wf' lv] scheduleCheckpoint_wf [OF put] lv
    by (simp add: windowDone_def Some w i Let_def)
qed

lemma starting_wf:
  "service_wf sv \<Longrightarrow> set ys \<inter> live_rooms sv = {} \<Longrightarrow> service_wf (sv\<lparr>sv_starting := ys\<rparr>)"
  by (auto simp: wf_defs)

lemma startSession_wf [preserved]:
  assumes wf: "service_wf sv" shows "service_wf (snd (startSession note sv))"
proof -
  have "service_wf (sv\<lparr>sv_starting := set_add (sv_starting sv) (sn_roomId note)\<rparr>)"
    if "om_get (sv_runtimes sv) (sn_roomId note) = None"
  proof (rule starting_wf [OF wf])
    have "sn_roomId note \<notin> live_rooms sv" using that by (simp add: live_rooms_def map_of_eq_None_iff)
    then show "set (set_add (sv_starting sv) (sn_roomId note)) \<inter> live_rooms sv = {}"
      using wf by (auto simp: service_wf_def)
  qed
  with wf show ?thesis by (simp add: startSession_def)
qed

lemma joinFailed_wf [preserved]: "service_wf sv \<Longrightarrow> service_wf (joinFailed note sv)"
  unfolding joinFailed_def by (rule starting_wf) (auto simp: service_wf_def)

lemma replay_wf: "service_wf sv \<Longrightarrow> service_wf (fst (replay seen es sv))"
proof (induction seen es sv rule: replay.induct)
  case (2 seen e es sv)
  obtain sv1 fx where h: "handleEvent e sv = (sv1, fx)" by (cases "handleEvent e sv")
  have "service_wf sv1" using handleEvent_wf [OF "2.prems", of e] h by simp
  with 2 h show ?case by (auto simp: Let_def split: prod.split)
qed simp

lemma installSession_wf [preserved]:
  assumes wf: "service_wf sv" and "installSession note history now sv = Some (sv', fx)"
  shows "service_wf sv'"
proof -
  define room where "room = sn_roomId note"
  define sv0 where "sv0 = sv\<lparr>sv_starting := remove_room room (sv_starting sv)\<rparr>"
  define sv1 where "sv1 = sv0\<lparr>sv_runtimes := om_set room \<lparr>in_number = sv_installs sv0, in_runtime = new_runtime now note\<rparr>
      (sv_runtimes sv0), sv_installs := sv_installs sv0 + 1,
    sv_retiredRooms := remove_room room (sv_retiredRooms sv0),
    sv_pendingEvents := om_del room (sv_pendingEvents sv0)\<rparr>"
  have live: "live_rooms sv1 = insert room (live_rooms sv)"
    by (simp add: sv1_def sv0_def live_rooms_def)
  have "\<forall>i \<in> snd ` set (sv_runtimes sv1). \<not> rn_ended (in_runtime i)"
  proof
    fix i assume "i \<in> snd ` set (sv_runtimes sv1)"
    then have "i = \<lparr>in_number = sv_installs sv0, in_runtime = new_runtime now note\<rparr> \<or> i \<in> snd ` set (sv_runtimes sv)"
      unfolding sv1_def sv0_def by (simp add: values_om_set)
    then show "\<not> rn_ended (in_runtime i)" using wf by (auto simp: service_wf_def)
  qed
  moreover have "distinct (map fst (sv_runtimes sv1))"
    using wf by (simp add: sv1_def sv0_def service_wf_def distinct_update)
  moreover have "busy_rooms sv1 = busy_rooms sv" by (simp add: sv1_def sv0_def busy_rooms_def)
  ultimately have wf1: "service_wf sv1"
    using wf live by (auto simp: service_wf_def sv1_def sv0_def)
  have final: "service_wf (scheduleWindowTick r k rt n p (sv2\<lparr>sv_endTimers := om_set r' x (sv_endTimers sv2)\<rparr>))"
    if "service_wf sv2" for r k rt n p sv2 r' x
    by (rule scheduleWindowTick_wf) (use that in \<open>auto simp: wf_defs\<close>)
  from assms(2) obtain events sv2 r k rt n p r' x where replay: "replay [] events sv1 = (sv2, fx)"
    and sv': "sv' = scheduleWindowTick r k rt n p (sv2\<lparr>sv_endTimers := om_set r' x (sv_endTimers sv2)\<rparr>)"
    unfolding installSession_def Let_def room_def [symmetric] sv0_def [symmetric] sv1_def [symmetric]
    by (fastforce split: if_splits prod.splits)
  have "service_wf sv2" using replay_wf [OF wf1, of "[]" events] replay by simp
  then show ?thesis unfolding sv' by (rule final)
qed

lemma endSession_wf [preserved]:
  assumes wf: "service_wf sv" shows "service_wf (snd (endSession r sv))"
proof (cases "om_get (sv_runtimes sv) r")
  case None
  then have "r \<notin> live_rooms sv" by (simp add: live_rooms_def map_of_eq_None_iff)
  then have "service_wf (sv\<lparr>sv_endTimers := om_del r (sv_endTimers sv)\<rparr>)"
    using wf by (auto simp: wf_defs)
  with None wf show ?thesis by (simp add: endSession_def Let_def runtime_of_def)
next
  case (Some i)
  have alive: "\<not> rn_ended (in_runtime i)" by (rule live_not_ended [OF wf Some])
  have live: "r \<in> live_rooms sv" by (rule live_in [OF Some])
  have "service_wf (sv\<lparr>sv_endTimers := om_del r (sv_endTimers sv)\<rparr>)" if "r \<in> set (sv_finalizingRooms sv)"
    using wf that by (auto simp: wf_defs)
  moreover have "service_wf (sv\<lparr>sv_endTimers := om_del r (sv_endTimers sv),
      sv_finalizingRooms := set_add (sv_finalizingRooms sv) r,
      sv_windowTimers := om_del r (sv_windowTimers sv)\<rparr>)"
    using wf live by (auto simp: wf_defs)
  ultimately show ?thesis using Some alive wf by (simp add: endSession_def Let_def runtime_of_def)
qed

lemma sendFinalize_wf [preserved]:
  assumes wf: "service_wf sv" and ready: "finalize_ready r sv"
  shows "service_wf (fst (sendFinalize r sv))"
proof -
  let ?sv = "sv\<lparr>sv_checkpointTimers := remove_room r (sv_checkpointTimers sv)\<rparr>"
  have wf': "service_wf ?sv" using wf ready by (auto simp: wf_defs finalize_ready_def)
  show ?thesis
  proof (cases "om_get (sv_runtimes sv) r")
    case (Some i)
    obtain cp rt' where cp: "checkpoint_of (in_runtime i) = (cp, rt')" by (cases "checkpoint_of (in_runtime i)")
    have "\<not> rn_ended rt'" using live_not_ended [OF wf Some] ended_simps(11) [of "in_runtime i"] cp by simp
    then show ?thesis using put_runtime_wf [OF wf'] by (simp add: sendFinalize_def Let_def runtime_of_def Some cp)
  qed (use wf' in \<open>simp add: sendFinalize_def Let_def runtime_of_def\<close>)
qed

lemma finalizeDone_wf [preserved]:
  assumes wf: "service_wf sv" and ready: "finalize_ready r sv" and timer: "r \<notin> set (sv_checkpointTimers sv)"
  shows "service_wf (finalizeDone r ok sv)"
proof (cases ok)
  case False
  then show ?thesis using wf by (auto simp: finalizeDone_def wf_defs)
next
  case True
  have 1: "live_rooms (finalizeDone r ok sv) = live_rooms sv - {r}"
    using True by (simp add: finalizeDone_def live_rooms_def)
  have 2: "busy_rooms (finalizeDone r ok sv) \<subseteq> busy_rooms sv - {r}"
    using True timer by (auto simp: finalizeDone_def busy_rooms_def)
  have "\<forall>i \<in> snd ` set (om_del r (sv_runtimes sv)). \<not> rn_ended (in_runtime i)"
  proof
    fix i assume "i \<in> snd ` set (om_del r (sv_runtimes sv))"
    then have "i \<in> snd ` set (sv_runtimes sv)" by (rule values_om_del)
    with wf show "\<not> rn_ended (in_runtime i)" by (auto simp: service_wf_def)
  qed
  then show ?thesis
    using wf 1 2 True timer by (auto simp: service_wf_def finalizeDone_def distinct_delete)
qed

lemma beginShutdown_wf [preserved]: "service_wf sv \<Longrightarrow> service_wf (beginShutdown sv)"
  by (auto simp: beginShutdown_def wf_defs)

lemma service_step_wf: "service_wf sv \<Longrightarrow> service_wf (service_step sv op)"
  by (cases op) (auto simp: preserved split: option.splits prod.splits)

interpretation chat: stepper service_step service_wf
  by unfold_locales (rule service_step_wf)

definition fresh_service :: "string \<Rightarrow> service" where
  "fresh_service botId =
     \<lparr>sv_botUserId = botId, sv_runtimes = [], sv_pendingEvents = [], sv_starting = [],
      sv_retiredRooms = [], sv_finalizingRooms = [], sv_checkpointTimers = [],
      sv_checkpointRequests = [], sv_checkpointDirty = [], sv_ruleRequests = [],
      sv_windowRequests = [], sv_windowTimers = [], sv_endTimers = [], sv_shuttingDown = False,
      sv_installs = 0\<rparr>"

lemma fresh_service_wf: "service_wf (fresh_service botId)"
  by (simp add: fresh_service_def wf_defs)

section \<open>Properties\<close>

lemma hasProcessed_mark [simp]: "hasProcessed e (markProcessed e rt)"
  by (simp add: hasProcessed_def markProcessed_def)

lemma processed_kept [simp]:
  "hasProcessed e (recordMessage m rt) = hasProcessed e rt"
  "hasProcessed e (recordRanking k rt) = hasProcessed e rt"
  "hasProcessed e (recordBehavior b rt) = hasProcessed e rt"
  "hasProcessed e (record_event ev rt) = hasProcessed e rt"
  by (simp_all add: hasProcessed_def record_event_def record_ranking_event_def
      record_behavior_event_def runtime_op_defs Let_def split: option.split)

lemma scheduleCheckpoint_simps [simp]:
  "sv_runtimes (scheduleCheckpoint r sv) = sv_runtimes sv"
  "sv_shuttingDown (scheduleCheckpoint r sv) = sv_shuttingDown sv"
  "sv_finalizingRooms (scheduleCheckpoint r sv) = sv_finalizingRooms sv"
  "sv_botUserId (scheduleCheckpoint r sv) = sv_botUserId sv"
  "sv_pendingEvents (scheduleCheckpoint r sv) = sv_pendingEvents sv"
  "sv_retiredRooms (scheduleCheckpoint r sv) = sv_retiredRooms sv"
  by (simp_all add: scheduleCheckpoint_def Let_def)

lemma om_set_twice: "om_set k v (om_set k v m) = om_set k v m"
  by (induction m) auto

lemma om_set_nested:
  "om_get m k = Some v \<Longrightarrow> om_set k v m = m"
  by (induction m) auto

text \<open>
  At-least-once delivery is harmless. Whatever the state of the service, delivering an event
  a second time changes nothing and starts nothing: no rule run, no moderation, no duplicate.
\<close>

theorem event_redelivery_ignored:
  "handleEvent e (fst (handleEvent e sv)) = (fst (handleEvent e sv), [])"
proof (cases "om_get (sv_runtimes sv) (te_roomId e)")
  case None
  then have "handleEvent e sv = (bufferPendingEvent e sv, [])" by (simp add: handleEvent_def)
  moreover have "sv_runtimes (bufferPendingEvent e sv) = sv_runtimes sv"
    by (simp add: bufferPendingEvent_def Let_def)
  moreover have "bufferPendingEvent e (bufferPendingEvent e sv) = bufferPendingEvent e sv"
    by (simp add: bufferPendingEvent_def Let_def update_conv' om_set_twice om_set_nested)
  ultimately show ?thesis using None by (simp add: handleEvent_def)
next
  case (Some i)
  show ?thesis
    using Some
    by (simp add: handleEvent_def Let_def recordServiceMessage_def om_get_put)
qed


section \<open>The window grid\<close>

lemma next_boundary_after:
  assumes "0 < window_length (cd_config (rn_condition rt))"
  shows "of_int now < next_boundary rt now p" and
    "p + window_length (cd_config (rn_condition rt)) \<le> next_boundary rt now p"
proof -
  define w where "w = window_length (cd_config (rn_condition rt))"
  define e where "e = max 0 (of_int now - grid_start rt)"
  have w: "0 < w" using assms by (simp add: w_def)
  have "e / w < of_int (\<lfloor>e / w\<rfloor> + 1)" by linarith
  then have "e < of_int (\<lfloor>e / w\<rfloor> + 1) * w" using w by (simp add: divide_less_eq)
  moreover have "of_int now \<le> grid_start rt + e" by (simp add: e_def)
  ultimately have "of_int now < grid_start rt + of_int (\<lfloor>e / w\<rfloor> + 1) * w" by linarith
  then show "of_int now < next_boundary rt now p"
    by (simp add: next_boundary_def Let_def w_def e_def less_max_iff_disj)
  show "p + window_length (cd_config (rn_condition rt)) \<le> next_boundary rt now p"
    by (simp add: next_boundary_def Let_def)
qed

lemma next_boundary_grid:
  assumes w: "0 < window_length (cd_config (rn_condition rt))"
    and p: "p \<le> grid_start rt \<or> (\<exists>n. p = grid_start rt + of_int n * window_length (cd_config (rn_condition rt)))"
  shows "\<exists>n \<ge> 1. next_boundary rt now p = grid_start rt + of_int n * window_length (cd_config (rn_condition rt))"
proof -
  define w where "w = window_length (cd_config (rn_condition rt))"
  define k where "k = \<lfloor>max 0 (of_int now - grid_start rt) / w\<rfloor> + 1"
  have pos: "0 < w" using w by (simp add: w_def)
  have "0 \<le> max 0 (of_int now - grid_start rt) / w" using pos by simp
  then have k: "1 \<le> k" by (simp add: k_def)
  have nb: "next_boundary rt now p = max (grid_start rt + of_int k * w) (p + w)"
    by (simp add: next_boundary_def Let_def w_def k_def)
  show ?thesis
  proof (cases "p + w \<le> grid_start rt + of_int k * w")
    case True
    then show ?thesis using nb k by (auto simp: w_def)
  next
    case False
    have "1 * w \<le> of_int k * w" using k pos by (intro mult_right_mono) simp_all
    then have "grid_start rt + w \<le> grid_start rt + of_int k * w" by simp
    with False have "\<not> p \<le> grid_start rt" by linarith
    with p obtain n where n: "p = grid_start rt + of_int n * w" by (auto simp: w_def)
    have "of_int k * w < (of_int n + 1) * w" using False n by (simp add: algebra_simps)
    then have "k < n + 1" using pos by (metis mult_less_cancel_right_pos of_int_1 of_int_add of_int_less_iff)
    moreover have "next_boundary rt now p = grid_start rt + of_int (n + 1) * w"
      using nb False n by (simp add: algebra_simps)
    ultimately show ?thesis using k by (auto simp: w_def intro!: exI [of _ "n + 1"])
  qed
qed

lemma windowIndex_grid:
  assumes "0 < contributionWindowMinutes config" and "n \<ge> 1"
  shows "windowIndex rt config (rn_startedAtMs rt + protectedStartMinutes config * 60000
      + of_int n * (contributionWindowMinutes config * 60000)) = n - 1"
proof -
  have "(of_int n * (contributionWindowMinutes config * 60000)) / (contributionWindowMinutes config * 60000) = (of_int n :: rat)"
    using assms(1) by simp
  then show ?thesis using assms by (simp add: windowIndex_def Let_def)
qed

lemma normalize_window:
  "contributionWindowMinutes (normalizeConfig c) * 60000 = window_length c"
  "protectedStartMinutes (normalizeConfig c) =
     orelse (raw_protectedStartMinutes c) (protectedStartMinutes DEFAULT_INTERVENTION_CONFIG)"
  by (simp_all add: normalizeConfig_def spread_config_def Let_def window_length_def
      DEFAULT_INTERVENTION_CONFIG_def)

text \<open>
  The tick after a boundary (or after the start) is the end of a later window of the grid
  that starts at the end of the warm-up: strictly in the future, at least one window after the
  previous boundary, and the rules will give it the index of that window. The delay of the timer
  is positive.
\<close>

theorem next_tick_on_grid:
  assumes "0 < window_length (cd_config (rn_condition rt))"
    and "0 \<le> protectedStartMinutes (normalizeConfig (cd_config (rn_condition rt)))"
    and "p \<le> grid_start rt \<or>
      (\<exists>n. p = grid_start rt + of_int n * window_length (cd_config (rn_condition rt)))"
  shows "\<exists>n b. n \<ge> 1 \<and> b = grid_start rt + of_int n * window_length (cd_config (rn_condition rt)) \<and>
    sv_windowTimers (scheduleWindowTick r k rt now p sv) =
      om_set r (k, b, \<lceil>b - of_int now\<rceil>) (sv_windowTimers sv) \<and>
    of_int now < b \<and> 0 < \<lceil>b - of_int now\<rceil> \<and> p + window_length (cd_config (rn_condition rt)) \<le> b \<and>
    windowIndex rt (normalizeConfig (cd_config (rn_condition rt))) b = n - 1"
proof -
  let ?c = "cd_config (rn_condition rt)"
  obtain n where n: "n \<ge> 1" "next_boundary rt now p = grid_start rt + of_int n * window_length ?c"
    using next_boundary_grid [OF assms(1,3)] by blast
  note after = next_boundary_after [OF assms(1), where now = now and p = p]
  have "0 < contributionWindowMinutes (normalizeConfig ?c)"
    using assms(1) normalize_window(1) [of ?c] by (simp add: zero_less_mult_iff)
  moreover have "grid_start rt = rn_startedAtMs rt + protectedStartMinutes (normalizeConfig ?c) * 60000"
    using assms(2) by (simp add: grid_start_def normalize_window(2))
  ultimately have "windowIndex rt (normalizeConfig ?c) (next_boundary rt now p) = n - 1"
    using windowIndex_grid [OF _ n(1), of "normalizeConfig ?c" rt] n(2) by (simp add: normalize_window(1))
  moreover have "0 < \<lceil>next_boundary rt now p - of_int now\<rceil>" using after(1) by (simp add: less_ceiling_iff)
  ultimately show ?thesis
    using n after assms(1)
    by (intro exI [of _ n] exI [of _ "next_boundary rt now p"]) (simp add: scheduleWindowTick_def Let_def)
qed

theorem next_tick_on_grid_witness:
  "\<exists>n b. n \<ge> 1 \<and> b = grid_start busy_runtime + of_int n * window_length (cd_config (rn_condition busy_runtime)) \<and>
    windowIndex busy_runtime (normalizeConfig (cd_config (rn_condition busy_runtime))) b = n - 1"
proof -
  have "0 < window_length (cd_config (rn_condition busy_runtime))" by code_simp
  moreover have "0 \<le> protectedStartMinutes (normalizeConfig (cd_config (rn_condition busy_runtime)))" by code_simp
  moreover have "(0 :: rat) \<le> grid_start busy_runtime" by code_simp
  ultimately show ?thesis
    using next_tick_on_grid [where rt = busy_runtime and p = 0 and now = 1000] by blast
qed

text \<open>
  An evaluation is only ever requested for a window that is over, once, in a session that is
  live and not being finalised: whenever a timer adds a request, its boundary has passed, lies
  after every boundary claimed before, and is claimed now.
\<close>

theorem evaluated_windows_are_over:
  assumes "sv_windowRequests (onWindowBoundary r k b now sv) \<noteq> sv_windowRequests sv"
  shows "\<exists>i. om_get (sv_runtimes sv) r = Some i \<and> in_number i = k \<and> b \<le> of_int now \<and>
    rn_lastWindowBoundaryMs (in_runtime i) < b \<and> \<not> rn_ended (in_runtime i) \<and>
    r \<notin> set (sv_finalizingRooms sv) \<and> \<not> sv_shuttingDown sv \<and>
    sv_windowRequests (onWindowBoundary r k b now sv) = sv_windowRequests sv @ [(r, k, b)] \<and>
    (\<exists>i'. om_get (sv_runtimes (onWindowBoundary r k b now sv)) r = Some i' \<and>
       rn_lastWindowBoundaryMs (in_runtime i') = b)"
proof -
  have tick: "sv_windowRequests (scheduleWindowTick r k rt n p sv') = sv_windowRequests sv'"
    "sv_runtimes (scheduleWindowTick r k rt n p sv') = sv_runtimes sv'" for rt n p sv'
    by (simp_all add: scheduleWindowTick_def Let_def)
  obtain i where i: "om_get (sv_runtimes sv) r = Some i"
    using assms by (auto simp: onWindowBoundary_def Let_def split: option.splits)
  show ?thesis
    using assms
    by (auto simp: onWindowBoundary_def Let_def i tick claimWindowBoundary_def om_get_put
        split: if_splits)
qed

definition busy_service :: service where
  "busy_service = (fresh_service ''@bot:x'')\<lparr>sv_runtimes :=
     [(''!r:x'', \<lparr>in_number = 0, in_runtime = busy_runtime\<rparr>)]\<rparr>"

theorem evaluated_windows_are_over_witness:
  "\<exists>i. om_get (sv_runtimes busy_service) ''!r:x'' = Some i \<and> rn_lastWindowBoundaryMs (in_runtime i) < 420000"
proof -
  have "sv_windowRequests (onWindowBoundary ''!r:x'' 0 420000 420005 busy_service) \<noteq> sv_windowRequests busy_service"
    by (simp add: onWindowBoundary_def Let_def busy_service_def fresh_service_def claimWindowBoundary_def
        busy_runtime_def new_runtime_fields sample_note_def scheduleWindowTick_def)
  from evaluated_windows_are_over [OF this] show ?thesis by blast
qed

section \<open>Nothing is lost at the start or at the end\<close>

definition message_ids :: "runtime \<Rightarrow> string set" where
  "message_ids rt = ms_id ` set (rn_messages rt)"

lemma message_ids_step:
  "message_ids rt \<subseteq> message_ids (record_event e (markProcessed i rt))"
  "te_type e = ''m.room.message'' \<Longrightarrow> te_eventId e \<in> message_ids (record_event e (markProcessed i rt))"
proof -
  have push: "ms_id ` set (push_new ms_id xs m) = insert (ms_id m) (ms_id ` set xs)" for xs m
    by (metis keys_push_new set_map set_set_add)
  show "message_ids rt \<subseteq> message_ids (record_event e (markProcessed i rt))"
    by (auto simp: message_ids_def record_event_def record_ranking_event_def record_behavior_event_def
        recordMessage_def recordRanking_def recordBehavior_def markProcessed_def Let_def push
        split: option.split)
  show "te_type e = ''m.room.message'' \<Longrightarrow> te_eventId e \<in> message_ids (record_event e (markProcessed i rt))"
    by (simp add: message_ids_def record_event_def recordMessage_def push participant_message_def)
qed

lemma service_message_ids:
  "message_ids rt \<subseteq> message_ids (recordMessage (service_message e) (markProcessed i rt))"
  "te_eventId e \<in> message_ids (recordMessage (service_message e) (markProcessed i rt))"
proof -
  have push: "ms_id ` set (push_new ms_id xs m) = insert (ms_id m) (ms_id ` set xs)" for xs m
    by (metis keys_push_new set_map set_set_add)
  show "message_ids rt \<subseteq> message_ids (recordMessage (service_message e) (markProcessed i rt))"
    "te_eventId e \<in> message_ids (recordMessage (service_message e) (markProcessed i rt))"
    by (auto simp: message_ids_def recordMessage_def markProcessed_def push service_message_def)
qed

text \<open>A room that takes events: live, not shutting down, not being finalised.\<close>

definition open_room :: "string \<Rightarrow> service \<Rightarrow> runtime \<Rightarrow> bool" where
  "open_room r sv rt \<longleftrightarrow> (\<exists>i. om_get (sv_runtimes sv) r = Some i \<and> in_runtime i = rt) \<and>
     \<not> sv_shuttingDown sv \<and> \<not> rn_ended rt \<and> r \<notin> set (sv_finalizingRooms sv)"

lemma handleEvent_open:
  assumes "open_room (te_roomId e) sv rt" and "\<not> hasProcessed (te_eventId e) rt"
  shows "\<exists>rt'. open_room (te_roomId e) (fst (handleEvent e sv)) rt' \<and> message_ids rt \<subseteq> message_ids rt' \<and>
    (te_type e = ''m.room.message'' \<longrightarrow> te_eventId e \<in> message_ids rt') \<and>
    (\<forall>x. x \<noteq> te_eventId e \<longrightarrow> hasProcessed x rt' = hasProcessed x rt)"
proof -
  obtain i where i: "om_get (sv_runtimes sv) (te_roomId e) = Some i" "in_runtime i = rt"
    and up: "\<not> sv_shuttingDown sv" "\<not> rn_ended rt" "te_roomId e \<notin> set (sv_finalizingRooms sv)"
    using assms(1) by (auto simp: open_room_def)
  have mark: "hasProcessed x (markProcessed (te_eventId e) rt) = hasProcessed x rt" if "x \<noteq> te_eventId e" for x
    using that by (simp add: hasProcessed_def markProcessed_def)
  show ?thesis
  proof (cases "te_sender e = sv_botUserId sv \<or> isServiceUser (te_sender e)")
    case True
    let ?rt = "if te_type e \<noteq> ''m.room.message'' then rt
      else recordMessage (service_message e) (markProcessed (te_eventId e) rt)"
    have "fst (handleEvent e sv) = recordServiceMessage e rt sv"
      using True i up by (simp add: handleEvent_def Let_def)
    then have "open_room (te_roomId e) (fst (handleEvent e sv)) ?rt"
      using i up assms(2) by (auto simp: recordServiceMessage_def open_room_def om_get_put)
    then show ?thesis
      using service_message_ids [where e = e and rt = rt and i = "te_eventId e"] mark by (intro exI [of _ ?rt]) auto
  next
    case False
    let ?rt = "record_event e (markProcessed (te_eventId e) rt)"
    have "open_room (te_roomId e) (fst (handleEvent e sv)) ?rt"
      using False i up assms(2) by (auto simp: handleEvent_def Let_def open_room_def om_get_put)
    then show ?thesis
      using message_ids_step [where e = e and rt = rt and i = "te_eventId e"] mark by (intro exI [of _ ?rt]) auto
  qed
qed

lemma replay_records:
  assumes "open_room r sv rt" and "distinct (map te_eventId es)"
    and "\<forall>e \<in> set es. te_roomId e = r \<and> te_eventId e \<notin> set seen \<and> \<not> hasProcessed (te_eventId e) rt"
  shows "\<exists>rt'. open_room r (fst (replay seen es sv)) rt' \<and> message_ids rt \<subseteq> message_ids rt' \<and>
    (\<forall>e \<in> set es. te_type e = ''m.room.message'' \<longrightarrow> te_eventId e \<in> message_ids rt')"
  using assms
proof (induction es arbitrary: seen sv rt)
  case Nil
  then show ?case by auto
next
  case (Cons e es)
  obtain sv1 fx where h: "handleEvent e sv = (sv1, fx)" by (cases "handleEvent e sv")
  have e: "te_roomId e = r" "te_eventId e \<notin> set seen" "\<not> hasProcessed (te_eventId e) rt"
    using Cons.prems(3) by simp_all
  have "open_room (te_roomId e) sv rt" using Cons.prems(1) e(1) by simp
  from handleEvent_open [OF this e(3)] obtain rt1 where
    rt1: "open_room r sv1 rt1" "message_ids rt \<subseteq> message_ids rt1"
      "te_type e = ''m.room.message'' \<longrightarrow> te_eventId e \<in> message_ids rt1"
      "\<forall>x. x \<noteq> te_eventId e \<longrightarrow> hasProcessed x rt1 = hasProcessed x rt"
    unfolding h fst_conv e(1) by blast
  have "distinct (map te_eventId es)" using Cons.prems(2) by simp
  moreover have "\<forall>e' \<in> set es. te_roomId e' = r \<and> te_eventId e' \<notin> set (set_add seen (te_eventId e)) \<and>
      \<not> hasProcessed (te_eventId e') rt1"
  proof
    fix e' assume e': "e' \<in> set es"
    then have "te_eventId e' \<noteq> te_eventId e" using Cons.prems(2) by (metis distinct.simps(2) image_eqI list.simps(9) set_map)
    then show "te_roomId e' = r \<and> te_eventId e' \<notin> set (set_add seen (te_eventId e)) \<and> \<not> hasProcessed (te_eventId e') rt1"
      using Cons.prems(3) e' rt1(4) by simp
  qed
  ultimately obtain rt2 where "open_room r (fst (replay (set_add seen (te_eventId e)) es sv1)) rt2"
      "message_ids rt1 \<subseteq> message_ids rt2"
      "\<forall>e \<in> set es. te_type e = ''m.room.message'' \<longrightarrow> te_eventId e \<in> message_ids rt2"
    using Cons.IH [OF rt1(1)] by blast
  moreover have "fst (replay seen (e # es) sv) = fst (replay (set_add seen (te_eventId e)) es sv1)"
    using e(2) h by (simp add: Let_def split: prod.split)
  ultimately show ?case using rt1 by (intro exI [of _ rt2]) auto
qed

text \<open>
  Nothing said before the bot is ready is lost. When a new session is installed, every chat
  message buffered while it was joining is in the recorded discussion, provided the buffer holds
  each event under its own id in this room.
\<close>

theorem buffered_messages_survive:
  assumes "installSession note history now sv = Some (sv', fx)" and "sn_checkpoint note = None"
    and "sn_roomId note \<notin> set (sv_finalizingRooms sv)"
    and "om_get (sv_pendingEvents sv) (sn_roomId note) = Some pending"
    and "distinct (map te_eventId (om_values pending))"
    and "\<forall>e \<in> set (om_values pending). te_roomId e = sn_roomId note"
    and "e \<in> set (om_values pending)" and "te_type e = ''m.room.message''"
  shows "\<exists>i. om_get (sv_runtimes sv') (sn_roomId note) = Some i \<and>
    (\<exists>m \<in> set (rn_messages (in_runtime i)). ms_id m = te_eventId e)"
proof -
  define room where "room = sn_roomId note"
  define rt where "rt = new_runtime now note"
  define sv0 where "sv0 = sv\<lparr>sv_starting := remove_room room (sv_starting sv)\<rparr>"
  define sv1 where "sv1 = sv0\<lparr>sv_runtimes := om_set room \<lparr>in_number = sv_installs sv0, in_runtime = rt\<rparr>
      (sv_runtimes sv0), sv_installs := sv_installs sv0 + 1,
    sv_retiredRooms := remove_room room (sv_retiredRooms sv0),
    sv_pendingEvents := om_del room (sv_pendingEvents sv0)\<rparr>"
  have up: "\<not> sv_shuttingDown sv"
    using assms(1) by (auto simp: installSession_def Let_def)
  have "open_room room sv1 rt"
    using up assms(3) by (simp add: open_room_def sv1_def sv0_def update_conv' rt_def room_def)
  moreover have "\<not> hasProcessed x rt" for x
    using assms(2) by (simp add: rt_def new_runtime_fields hasProcessed_def)
  ultimately obtain rt' where rt': "open_room room (fst (replay [] (om_values pending) sv1)) rt'"
      "te_eventId e \<in> message_ids rt'"
    using replay_records [of room sv1 rt "om_values pending" "[]"] assms(5-8) by (auto simp: room_def)
  from assms(1,2,4) up have "sv_runtimes sv' = sv_runtimes (fst (replay [] (om_values pending) sv1))"
    unfolding installSession_def Let_def room_def [symmetric] rt_def [symmetric] sv0_def [symmetric]
      sv1_def [symmetric]
    by (auto simp: sv0_def scheduleWindowTick_def Let_def split: prod.splits)
  with rt' show ?thesis by (auto simp: open_room_def message_ids_def room_def)
qed

definition sample_live_event :: "string \<Rightarrow> string \<Rightarrow> matrix_event" where
  "sample_live_event i sender =
     \<lparr>te_roomId = ''!r:x'', te_type = ''m.room.message'', te_sender = sender, te_eventId = i,
      te_ts = 250000, te_body = Some ''hello'', te_recipient = None, te_ranking = None,
      te_behavior = None, te_durationMs = None, te_cursor = (Num 0, Num 0, Num 0, Num 0)\<rparr>"

definition waiting_service :: service where
  "waiting_service = foldl service_step (fresh_service ''@bot:x'')
     [Sv_Start sample_note, Sv_Event (sample_live_event ''$1'' ''@a:x'')]"

lemma waiting_pending:
  "om_get (sv_pendingEvents waiting_service) ''!r:x'' = Some [(''$1'', sample_live_event ''$1'' ''@a:x'')]"
  by (simp add: waiting_service_def startSession_def handleEvent_def bufferPendingEvent_def
      fresh_service_def sample_note_def sample_live_event_def set_add_def Let_def)

lemma waiting_installs: "\<exists>sv' fx. installSession sample_note [] 10 waiting_service = Some (sv', fx)"
proof -
  have "\<not> sv_shuttingDown waiting_service"
    by (simp add: waiting_service_def startSession_def handleEvent_def bufferPendingEvent_def
        fresh_service_def sample_note_def sample_live_event_def Let_def)
  then show ?thesis by (simp add: installSession_def Let_def split: prod.split)
qed

theorem buffered_messages_survive_witness:
  "\<exists>sv' fx i. installSession sample_note [] 10 waiting_service = Some (sv', fx) \<and>
    om_get (sv_runtimes sv') ''!r:x'' = Some i \<and> (\<exists>m \<in> set (rn_messages (in_runtime i)). ms_id m = ''$1'')"
proof -
  obtain sv' fx where i: "installSession sample_note [] 10 waiting_service = Some (sv', fx)"
    using waiting_installs by blast
  have room: "sn_roomId sample_note = ''!r:x''" by (simp add: sample_note_def)
  have ev: "te_eventId (sample_live_event ''$1'' ''@a:x'') = ''$1''"
    "te_roomId (sample_live_event ''$1'' ''@a:x'') = ''!r:x''"
    "te_type (sample_live_event ''$1'' ''@a:x'') = ''m.room.message''"
    by (simp_all add: sample_live_event_def)
  have fin: "''!r:x'' \<notin> set (sv_finalizingRooms waiting_service)"
    by (simp add: waiting_service_def startSession_def handleEvent_def bufferPendingEvent_def
        fresh_service_def sample_note_def sample_live_event_def Let_def)
  have "\<exists>i. om_get (sv_runtimes sv') (sn_roomId sample_note) = Some i \<and>
    (\<exists>m \<in> set (rn_messages (in_runtime i)). ms_id m = te_eventId (sample_live_event ''$1'' ''@a:x''))"
    by (rule buffered_messages_survive [OF i _ _ waiting_pending [folded room]])
      (use fin ev in \<open>simp_all add: room om_values_def, simp_all add: sample_note_def\<close>)
  with i show ?thesis unfolding room ev by blast
qed

text \<open>
  Finalising is retried until it succeeds, and final when it does. The request carries the
  whole discussion; a failed one leaves the session live with its data and the retry armed, and
  the retry is accepted; after a successful one the room is silent: its events change nothing
  and start nothing, and it cannot be finalised again.
\<close>

theorem finalize_retried_then_final:
  assumes "om_get (sv_runtimes sv) r = Some i" and "\<not> rn_ended (in_runtime i)"
    and "\<not> sv_shuttingDown sv" and "te_roomId e = r"
  shows "let (sv', fx) = sendFinalize r sv; failed = finalizeDone r False sv'; done = finalizeDone r True sv' in
     (\<exists>cp. fx = [Finalize (rn_sessionId (in_runtime i)) cp] \<and> cp_messages cp = rn_messages (in_runtime i)) \<and>
     map_option rn_messages (runtime_of failed r) = Some (rn_messages (in_runtime i)) \<and>
     om_get (sv_endTimers failed) r = Some FINALIZE_RETRY_MS \<and> fst (endSession r failed) \<and>
     handleEvent e done = (done, []) \<and> \<not> fst (endSession r done)"
proof -
  obtain cp rt' where cp: "checkpoint_of (in_runtime i) = (cp, rt')" by (cases "checkpoint_of (in_runtime i)")
  then have rt': "cp_messages cp = rn_messages (in_runtime i)" "rn_messages rt' = rn_messages (in_runtime i)"
      "rn_ended rt' = rn_ended (in_runtime i)"
    by (auto simp: checkpoint_of_def Let_def)
  define sv' where "sv' = put_runtime r rt' (sv\<lparr>sv_checkpointTimers := remove_room r (sv_checkpointTimers sv)\<rparr>)"
  have send: "sendFinalize r sv = (sv', [Finalize (rn_sessionId (in_runtime i)) cp])"
    using assms(1) by (simp add: sendFinalize_def runtime_of_def cp sv'_def Let_def)
  have live: "om_get (sv_runtimes sv') r = Some (i\<lparr>in_runtime := rt'\<rparr>)"
    using assms(1) by (simp add: sv'_def om_get_put)
  have up: "\<not> sv_shuttingDown sv'" using assms(3) by (simp add: sv'_def)
  have failed: "map_option rn_messages (runtime_of (finalizeDone r False sv') r) = Some (rn_messages (in_runtime i))"
      "om_get (sv_endTimers (finalizeDone r False sv')) r = Some FINALIZE_RETRY_MS"
      "fst (endSession r (finalizeDone r False sv'))"
    using live up rt' assms(2) by (simp_all add: finalizeDone_def runtime_of_def endSession_def Let_def update_conv')
  have final: "handleEvent e (finalizeDone r True sv') = (finalizeDone r True sv', [])"
      "\<not> fst (endSession r (finalizeDone r True sv'))"
    using assms(4) up
    by (simp_all add: finalizeDone_def handleEvent_def bufferPendingEvent_def endSession_def runtime_of_def Let_def
        delete_conv')
  show ?thesis unfolding send Let_def prod.case using rt'(1) failed final by blast
qed

theorem finalize_retried_then_final_witness:
  "\<exists>cp. snd (sendFinalize ''!r:x'' busy_service) = [Finalize ''s1'' cp] \<and> cp_messages cp = rn_messages busy_runtime"
proof -
  have live: "om_get (sv_runtimes busy_service) ''!r:x'' = Some \<lparr>in_number = 0, in_runtime = busy_runtime\<rparr>"
    by (simp add: busy_service_def)
  have "\<not> rn_ended busy_runtime" and up: "\<not> sv_shuttingDown busy_service" and s1: "rn_sessionId busy_runtime = ''s1''"
    by (simp_all add: busy_runtime_def busy_service_def fresh_service_def new_runtime_fields sample_note_def)
  then have alive: "\<not> rn_ended (in_runtime \<lparr>in_number = 0, in_runtime = busy_runtime\<rparr>)" by simp
  have room: "te_roomId (sample_live_event ''$9'' ''@a:x'') = ''!r:x''" by (simp add: sample_live_event_def)
  show ?thesis
    using finalize_retried_then_final [OF live alive up room] s1
    by (cases "sendFinalize ''!r:x'' busy_service") (auto simp: Let_def)
qed

end
