(* ===== verification/Checkpoint_Merge.thy ===== *)
theory Checkpoint_Merge
  imports Study_Models
begin

text \<open>
  session-manager/src/store/checkpoint-merge.ts and window-evaluations.ts: the monotonic merge
  of a Chat Service checkpoint into a stored session. Every keyed merge of the two files is an
  instance of \<open>merge_with\<close> (a Map filled from the stored records, then updated record by record),
  whose lemmas give the interpretations of \<open>keyed_merge\<close>. The theorems say that a merge never
  loses a record or a redaction, that a stale checkpoint changes no mutable state, that
  redelivering a checkpoint changes nothing, and which window record survives deduplication.
\<close>

section \<open>Keyed merges\<close>

text \<open>\<open>new Map(xs.map(x => [key(x), x]))\<close>\<close>

definition keyed :: "('a \<Rightarrow> 'k) \<Rightarrow> 'a list \<Rightarrow> ('k \<times> 'a) list" where
  "keyed key xs = foldl (\<lambda>m x. om_set (key x) x m) [] xs"

definition merge_step ::
    "('a \<Rightarrow> 'k) \<Rightarrow> ('a option \<Rightarrow> 'a \<Rightarrow> 'a) \<Rightarrow> ('k \<times> 'a) list \<Rightarrow> 'a \<Rightarrow> ('k \<times> 'a) list" where
  "merge_step key comb m y = om_set (key y) (comb (om_get m (key y)) y) m"

definition merge_with ::
    "('a \<Rightarrow> 'k) \<Rightarrow> ('a option \<Rightarrow> 'a \<Rightarrow> 'a) \<Rightarrow> 'a list \<Rightarrow> 'a list \<Rightarrow> 'a list" where
  "merge_with key comb xs ys = om_values (foldl (merge_step key comb) (keyed key xs) ys)"

definition well_keyed :: "('a \<Rightarrow> 'k) \<Rightarrow> ('k \<times> 'a) list \<Rightarrow> bool" where
  "well_keyed key m = (distinct (map fst m) \<and> (\<forall>k v. om_get m k = Some v \<longrightarrow> key v = k))"

definition keeps_key :: "('a \<Rightarrow> 'k) \<Rightarrow> ('a option \<Rightarrow> 'a \<Rightarrow> 'a) \<Rightarrow> bool" where
  "keeps_key key comb = (\<forall>c y. (\<forall>x. c = Some x \<longrightarrow> key x = key y) \<longrightarrow> key (comb c y) = key y)"

lemma well_keyed_om_set:
  "well_keyed key m \<Longrightarrow> key v = k \<Longrightarrow> well_keyed key (om_set k v m)"
  by (auto simp: well_keyed_def update_conv' distinct_update split: if_splits)

lemma well_keyed_values: "well_keyed key m \<Longrightarrow> map key (om_values m) = map fst m"
  by (auto simp: well_keyed_def om_values_def)

lemma om_set_new: "k \<notin> set (map fst m) \<Longrightarrow> om_set k v m = m @ [(k, v)]"
  by (induction m) auto

lemma keyed_distinct: "distinct (map key xs) \<Longrightarrow> keyed key xs = map (\<lambda>x. (key x, x)) xs"
proof (induction xs rule: rev_induct)
  case (snoc x xs)
  then have "keyed key xs = map (\<lambda>x. (key x, x)) xs" by simp
  moreover have "key x \<notin> set (map fst (map (\<lambda>x. (key x, x)) xs))" using snoc.prems by auto
  ultimately show ?case by (simp add: keyed_def om_set_new comp_def)
qed (simp add: keyed_def)

lemma well_keyed_keyed: "well_keyed key (keyed key xs)"
  unfolding keyed_def
  by (induction xs rule: rev_induct) (auto simp: well_keyed_om_set, simp add: well_keyed_def)

lemma keyed_values: "well_keyed key m \<Longrightarrow> keyed key (om_values m) = m"
proof -
  assume m: "well_keyed key m"
  then have "keyed key (om_values m) = map (\<lambda>x. (key x, x)) (om_values m)"
    by (intro keyed_distinct) (simp add: well_keyed_values, simp add: well_keyed_def)
  also have "\<dots> = m" using m by (auto simp: well_keyed_def om_values_def intro!: map_idI)
  finally show ?thesis .
qed

lemma keyed_keys: "set (map fst (keyed key xs)) = key ` set xs"
  unfolding keyed_def by (induction xs rule: rev_induct) auto

lemma well_keyed_step:
  "keeps_key key comb \<Longrightarrow> well_keyed key m \<Longrightarrow> well_keyed key (merge_step key comb m y)"
  unfolding merge_step_def
  by (intro well_keyed_om_set) (auto simp: keeps_key_def well_keyed_def)

lemma well_keyed_steps:
  "keeps_key key comb \<Longrightarrow> well_keyed key m \<Longrightarrow> well_keyed key (foldl (merge_step key comb) m ys)"
  by (induction ys arbitrary: m) (auto simp: well_keyed_step)

lemma keys_steps: "map fst (foldl (merge_step key comb) m ys) = set_union (map fst m) (map key ys)"
  by (induction ys arbitrary: m) (auto simp: merge_step_def)

lemma get_steps:
  "distinct (map key ys) \<Longrightarrow> om_get (foldl (merge_step key comb) m ys) k =
     (case find (\<lambda>y. key y = k) ys of None \<Rightarrow> om_get m k | Some y \<Rightarrow> Some (comb (om_get m k) y))"
proof (induction ys arbitrary: m)
  case (Cons y ys)
  have "find (\<lambda>z. key z = key y) ys = None" using Cons.prems
    by (simp add: find_None_iff) (metis imageI)
  with Cons show ?case
    by (auto simp: merge_step_def update_conv' split: option.splits)
qed simp

section \<open>The laws of a keyed merge\<close>

lemma map_key_merge_with:
  "keeps_key key comb \<Longrightarrow> map key (merge_with key comb xs ys) =
     set_union (map fst (keyed key xs)) (map key ys)"
  by (simp add: merge_with_def well_keyed_values well_keyed_steps well_keyed_keyed keys_steps)

lemma merge_with_keys:
  "keeps_key key comb \<Longrightarrow> key ` set (merge_with key comb xs ys) = key ` set xs \<union> key ` set ys"
  using arg_cong [OF map_key_merge_with, of key comb set xs ys] keyed_keys [of key xs] by simp

lemma merge_with_distinct: "keeps_key key comb \<Longrightarrow> distinct (map key (merge_with key comb xs ys))"
  using well_keyed_keyed [of key xs] by (simp add: map_key_merge_with well_keyed_def)

lemma merge_with_absorb:
  assumes "keeps_key key comb" and ys: "distinct (map key ys)"
    and comb: "\<And>c y. y \<in> set ys \<Longrightarrow> comb (Some (comb c y)) y = comb c y"
  shows "merge_with key comb (merge_with key comb xs ys) ys = merge_with key comb xs ys"
proof -
  define m where "m = foldl (merge_step key comb) (keyed key xs) ys"
  have wk: "well_keyed key m" unfolding m_def
    using assms(1) by (simp add: well_keyed_steps well_keyed_keyed)
  have "foldl (merge_step key comb) m ys = m"
  proof (rule om_eqI)
    show keys: "map fst (foldl (merge_step key comb) m ys) = map fst m"
      unfolding keys_steps by (rule set_union_absorb) (simp add: m_def keys_steps del: set_map)
    then show "distinct (map fst (foldl (merge_step key comb) m ys))"
      using wk by (simp add: well_keyed_def)
    show "om_get (foldl (merge_step key comb) m ys) = om_get m"
      unfolding m_def get_steps [OF ys]
      by (rule ext) (auto simp: comb dest: find_SomeD split: option.splits)
  qed
  then show ?thesis using wk by (simp add: merge_with_def keyed_values flip: m_def)
qed

lemma keyed_merge_with:
  assumes "keeps_key key comb" and "\<And>c y. comb (Some (comb c y)) y = comb c y"
  shows "keyed_merge (merge_with key comb) key"
  using assms by unfold_locales (auto simp: merge_with_keys merge_with_distinct merge_with_absorb)

section \<open>mergeByKey, appendUnique and mergeCheckpointValues\<close>

definition merge_by_key :: "('a \<Rightarrow> 'k) \<Rightarrow> 'a list \<Rightarrow> 'a list \<Rightarrow> 'a list" where
  "merge_by_key key existing incoming =
     om_values (foldl (\<lambda>merged item. om_set (key item) item merged) (keyed key existing) incoming)"

text \<open>The set \<open>seen\<close> and the list \<open>appended\<close> of the loop.\<close>

definition append_unique :: "('a \<Rightarrow> 'k) \<Rightarrow> 'a list \<Rightarrow> 'a list \<Rightarrow> 'a list" where
  "append_unique key existing incoming =
     snd (foldl (\<lambda>(seen, appended) item.
            if key item \<in> set seen then (seen, appended)
            else (set_add seen (key item), appended @ [item]))
          (uniq (map key existing), existing) incoming)"

definition mergeCheckpointValues ::
    "('a \<Rightarrow> 'k) \<Rightarrow> bool \<Rightarrow> 'a list \<Rightarrow> 'a list \<Rightarrow> 'a list" where
  "mergeCheckpointValues key acceptsReplacement existing incoming =
     (if acceptsReplacement then merge_by_key key existing incoming
      else append_unique key existing incoming)"

text \<open>\<open>keep_old\<close> and \<open>take_new\<close>: what the two merges store at a key that is already there.\<close>

definition take_new :: "'a option \<Rightarrow> 'a \<Rightarrow> 'a" where
  "take_new c y = y"

lemma merge_by_key_conv: "merge_by_key key = merge_with key take_new"
  by (simp add: fun_eq_iff merge_by_key_def merge_with_def merge_step_def take_new_def cong: foldl_cong)

lemma keeps_key_take_new: "keeps_key key take_new"
  by (simp add: keeps_key_def take_new_def)

lemma append_unique_conv: "append_unique key xs ys = foldl (push_new key) xs ys"
proof -
  have "foldl (\<lambda>(seen, appended) item.
            if key item \<in> set seen then (seen, appended)
            else (set_add seen (key item), appended @ [item])) (seen, acc) ys =
     (foldl (\<lambda>s y. set_add s (key y)) seen ys, foldl (push_new key) acc ys)"
    if "set seen = key ` set acc" for seen acc
    using that
  proof (induction ys arbitrary: seen acc)
    case (Cons y ys)
    then show ?case by (auto simp: push_new_def)
  qed simp
  then show ?thesis by (simp add: append_unique_def)
qed

lemma map_key_append_unique: "map key (append_unique key xs ys) = set_union (map key xs) (map key ys)"
  unfolding append_unique_conv by (induction ys arbitrary: xs) auto

lemma append_unique_absorb: "key ` set ys \<subseteq> key ` set xs \<Longrightarrow> append_unique key xs ys = xs"
  unfolding append_unique_conv by (induction ys) (auto simp: push_new_def)

lemma append_unique_idem: "append_unique key (append_unique key xs ys) ys = append_unique key xs ys"
  by (rule append_unique_absorb)
    (use arg_cong [OF map_key_append_unique [of key xs ys], of set] in auto)

lemma prefix_append_unique: "prefix xs (append_unique key xs ys)"
  unfolding append_unique_conv
  by (induction ys arbitrary: xs) (auto intro: prefix_order.order_trans prefix_push_new)

interpretation newest: keyed_merge "merge_by_key key" key for key
  unfolding merge_by_key_conv
  by (rule keyed_merge_with) (simp_all add: keeps_key_take_new take_new_def)

interpretation oldest: keyed_merge "append_unique key" key for key
proof
  fix xs ys :: "'a list"
  show "key ` set (append_unique key xs ys) = key ` set xs \<union> key ` set ys"
    using arg_cong [OF map_key_append_unique [of key xs ys], of set] by simp
qed (simp_all add: map_key_append_unique append_unique_idem)

interpretation values_merge: keyed_merge "mergeCheckpointValues key accepts" key for key accepts
  by unfold_locales
    (simp_all add: mergeCheckpointValues_def newest.merge_keys oldest.merge_keys
      newest.merge_distinct oldest.merge_distinct newest.merge_absorb oldest.merge_absorb)

section \<open>Reactions and messages\<close>

text \<open>An optional string in a condition: absent and empty are both false.\<close>

fun truthy :: "string option \<Rightarrow> bool" where
  "truthy None = False"
| "truthy (Some x) = (x \<noteq> [])"

definition reactionKey :: "string \<Rightarrow> string \<Rightarrow> string \<Rightarrow> string" where
  "reactionKey messageId key senderId = messageId @ [CHR 0x00] @ key @ [CHR 0x00] @ senderId"

definition reactionIdentityKey :: "string \<Rightarrow> reaction \<Rightarrow> string" where
  "reactionIdentityKey messageId r =
     (if truthy (rx_eventId r) then ''event:'' @ the (rx_eventId r)
      else reactionKey messageId (rx_key r) (rx_senderId r))"

text \<open>\<open>reaction.eventId && redactedReactionEventIds.has(reaction.eventId)\<close>\<close>

definition is_redacted :: "string list \<Rightarrow> reaction \<Rightarrow> bool" where
  "is_redacted redacted r = (truthy (rx_eventId r) \<and> the (rx_eventId r) \<in> set redacted)"

definition merge_reactions :: "string list \<Rightarrow> string \<Rightarrow> reaction list \<Rightarrow> reaction list \<Rightarrow> reaction list" where
  "merge_reactions redacted messageId current incoming =
     (let live = filter (\<lambda>r. \<not> is_redacted redacted r) current in
      snd (foldl (\<lambda>(seen, reactions) r.
             if is_redacted redacted r then (seen, reactions)
             else let key = reactionIdentityKey messageId r in
                  if key \<in> set seen then (seen, reactions)
                  else (set_add seen key, reactions @ [r]))
           (uniq (map (reactionIdentityKey messageId) live), live) incoming))"

definition merge_message :: "string list \<Rightarrow> message option \<Rightarrow> message \<Rightarrow> message" where
  "merge_message redacted current m =
     (case current of
        None \<Rightarrow> m\<lparr>ms_reactions := filter (\<lambda>r. \<not> is_redacted redacted r) (ms_reactions m)\<rparr>
      | Some c \<Rightarrow>
          c\<lparr>ms_reactions := merge_reactions redacted (ms_id m) (ms_reactions c) (ms_reactions m)\<rparr>)"

definition mergeMessages :: "string list \<Rightarrow> message list \<Rightarrow> message list \<Rightarrow> message list" where
  "mergeMessages redacted existing incoming =
     om_values (foldl (\<lambda>merged m. om_set (ms_id m) (merge_message redacted (om_get merged (ms_id m)) m) merged)
       (keyed ms_id existing) incoming)"

text \<open>\<open>{ ...current, ...reaction, redacted: ..., redactionEventId: ..., redactedAt: ... }\<close>\<close>

definition merge_recorded :: "recorded_reaction option \<Rightarrow> recorded_reaction \<Rightarrow> recorded_reaction" where
  "merge_recorded current r =
     (case current of
        None \<Rightarrow> r
      | Some c \<Rightarrow>
          r\<lparr>rr_redacted := rr_redacted c \<or> rr_redacted r,
            rr_redactionEventId :=
              (if rr_redactionEventId r = None then rr_redactionEventId c else rr_redactionEventId r),
            rr_redactedAt := (if rr_redactedAt r = None then rr_redactedAt c else rr_redactedAt r)\<rparr>)"

definition mergeRecordedReactions ::
    "recorded_reaction list \<Rightarrow> recorded_reaction list \<Rightarrow> recorded_reaction list" where
  "mergeRecordedReactions existing incoming =
     om_values (foldl (\<lambda>merged r. om_set (rr_eventId r) (merge_recorded (om_get merged (rr_eventId r)) r) merged)
       (keyed rr_eventId existing) incoming)"

lemma merge_reactions_conv:
  "merge_reactions redacted mid current incoming =
     append_unique (reactionIdentityKey mid) (filter (\<lambda>r. \<not> is_redacted redacted r) current)
       (filter (\<lambda>r. \<not> is_redacted redacted r) incoming)"
proof -
  have "foldl (\<lambda>(seen, reactions) r.
             if is_redacted redacted r then (seen, reactions)
             else let key = reactionIdentityKey mid r in
                  if key \<in> set seen then (seen, reactions)
                  else (set_add seen key, reactions @ [r])) (seen, acc) incoming =
     foldl (\<lambda>(seen, appended) item.
            if reactionIdentityKey mid item \<in> set seen then (seen, appended)
            else (set_add seen (reactionIdentityKey mid item), appended @ [item]))
       (seen, acc) (filter (\<lambda>r. \<not> is_redacted redacted r) incoming)" for seen acc
    by (induction incoming arbitrary: seen acc) (auto simp: Let_def)
  then show ?thesis by (simp add: merge_reactions_def append_unique_def Let_def)
qed

lemma set_append_unique: "set (append_unique key xs ys) \<subseteq> set xs \<union> set ys"
  unfolding append_unique_conv
  by (induction ys arbitrary: xs) (auto simp: push_new_def split: if_splits; fastforce)+

lemma merge_message_live: "r \<in> set (ms_reactions (merge_message redacted c m)) \<Longrightarrow> \<not> is_redacted redacted r"
  using set_append_unique
  by (fastforce simp: merge_message_def merge_reactions_conv split: option.splits)

lemma merge_message_absorb: "merge_message redacted (Some (merge_message redacted c m)) m = merge_message redacted c m"
proof -
  let ?m = "merge_message redacted c m"
  let ?live = "filter (\<lambda>r. \<not> is_redacted redacted r)"
  let ?key = "reactionIdentityKey (ms_id m)"
  have live: "?live (ms_reactions ?m) = ms_reactions ?m"
    by (auto simp: filter_id_conv dest: merge_message_live)
  have "?key ` set (?live (ms_reactions m)) \<subseteq> ?key ` set (ms_reactions ?m)"
    by (auto simp: merge_message_def merge_reactions_conv oldest.merge_keys simp del: set_filter split: option.splits)
  then have "merge_reactions redacted (ms_id m) (ms_reactions ?m) (ms_reactions m) = ms_reactions ?m"
    unfolding merge_reactions_conv live by (rule append_unique_absorb)
  then show ?thesis by (subst merge_message_def) simp
qed

lemma merge_recorded_absorb: "merge_recorded (Some (merge_recorded c r)) r = merge_recorded c r"
  by (auto simp: merge_recorded_def split: option.splits)

lemma keeps_key_message: "keeps_key ms_id (merge_message redacted)"
proof -
  have "ms_id (merge_message redacted c m) = (case c of None \<Rightarrow> ms_id m | Some x \<Rightarrow> ms_id x)" for c m
    by (simp add: merge_message_def split: option.split)
  then show ?thesis by (simp only: keeps_key_def) (metis option.exhaust option.simps(4,5))
qed

lemma keeps_key_recorded: "keeps_key rr_eventId merge_recorded"
proof -
  have "rr_eventId (merge_recorded c r) = rr_eventId r" for c r
    by (simp add: merge_recorded_def split: option.split)
  then show ?thesis by (simp only: keeps_key_def) blast
qed

lemma mergeMessages_conv: "mergeMessages redacted = merge_with ms_id (merge_message redacted)"
  by (simp add: fun_eq_iff mergeMessages_def merge_with_def merge_step_def cong: foldl_cong)

lemma mergeRecordedReactions_conv: "mergeRecordedReactions = merge_with rr_eventId merge_recorded"
  by (simp add: fun_eq_iff mergeRecordedReactions_def merge_with_def merge_step_def cong: foldl_cong)

interpretation messages_merge: keyed_merge "mergeMessages redacted" ms_id for redacted
  unfolding mergeMessages_conv by (rule keyed_merge_with [OF keeps_key_message merge_message_absorb])

interpretation reactions_merge: keyed_merge mergeRecordedReactions rr_eventId
  unfolding mergeRecordedReactions_conv
  by (rule keyed_merge_with [OF keeps_key_recorded merge_recorded_absorb])

section \<open>Rankings\<close>

definition ranking_movement :: "ranking \<Rightarrow> string" where
  "ranking_movement r =
     (case rk_movement r of None \<Rightarrow> []
      | Some mv \<Rightarrow> mv_itemId mv @ '':'' @ show_int (mv_from mv) @ '':'' @ show_int (mv_to mv))"

text \<open>
  The identity of a ranking state: the text \<open>event:<id>\<close>, or its five parts joined by U+0000. The
  parts stay separate here, since a timestamp is no text of its own in the model.
\<close>

datatype ranking_key = Event_Key string | State_Key string stamp string string string

definition rankingKey :: "ranking \<Rightarrow> ranking_key" where
  "rankingKey r =
     (if truthy (rk_eventId r) then Event_Key (the (rk_eventId r))
      else State_Key (rk_taskId r) (rk_updatedAt r) (rk_updatedBy r)
        (join [CHR 0x01] (rk_order r)) (ranking_movement r))"

definition newer :: "ranking \<Rightarrow> ranking \<Rightarrow> ranking" where
  "newer latest candidate =
     (case parse_ms (rk_updatedAt candidate) of
        None \<Rightarrow> latest
      | Some candidateTime \<Rightarrow>
          (case parse_ms (rk_updatedAt latest) of
             None \<Rightarrow> candidate
           | Some latestTime \<Rightarrow> if latestTime \<le> candidateTime then candidate else latest))"

definition newestRanking :: "ranking \<Rightarrow> ranking list \<Rightarrow> ranking" where
  "newestRanking first rest = foldl newer first rest"

definition withoutRanking :: "checkpoint \<Rightarrow> checkpoint" where
  "withoutRanking cp =
     cp\<lparr>cp_rankingHistory := [],
        cp_behavioralEvents := filter (\<lambda>e. be_type e \<noteq> Bt_Ranking_Move) (cp_behavioralEvents cp)\<rparr>"

section \<open>Window evaluations\<close>

definition messageTotal :: "window_evaluation \<Rightarrow> nat" where
  "messageTotal e = sum_list (map cs_messageCount (we_contributionSplit e))"

definition outranks :: "window_evaluation \<Rightarrow> window_evaluation \<Rightarrow> bool" where
  "outranks candidate current =
     (if truthy (we_interventionId candidate) \<noteq> truthy (we_interventionId current)
      then truthy (we_interventionId candidate)
      else messageTotal current < messageTotal candidate)"

definition keep_window ::
    "(stamp \<times> window_evaluation) list \<Rightarrow> window_evaluation \<Rightarrow> (stamp \<times> window_evaluation) list" where
  "keep_window kept e =
     (case om_get kept (we_windowEnd e) of
        None \<Rightarrow> om_set (we_windowEnd e) e kept
      | Some current \<Rightarrow> if outranks e current then om_set (we_windowEnd e) e kept else kept)"

definition dedupeWindowEvaluations :: "window_evaluation list \<Rightarrow> window_evaluation list" where
  "dedupeWindowEvaluations evaluations = om_values (foldl keep_window [] evaluations)"

section \<open>Sessions\<close>

definition checkpointFromSession :: "session \<Rightarrow> checkpoint" where
  "checkpointFromSession s =
     \<lparr>cp_revision = se_checkpointRevision s, cp_messages = se_messages s,
      cp_rankingHistory = se_rankingHistory s, cp_interventions = se_interventions s,
      cp_behavioralEvents = se_behavioralEvents s,
      cp_contributionClassifications = se_contributionClassifications s,
      cp_windowEvaluations = se_windowEvaluations s,
      cp_classificationFailures = se_classificationFailures s,
      cp_processedEventIds = se_processedEventIds s,
      cp_redactedReactionEventIds = se_redactedReactionEventIds s,
      cp_reactionEvents = se_reactionEvents s, cp_ruleState = se_runtimeState s\<rparr>"

definition acceptsCheckpointState :: "rat option \<Rightarrow> rat \<Rightarrow> bool" where
  "acceptsCheckpointState incoming stored =
     (case incoming of None \<Rightarrow> True | Some r \<Rightarrow> stored \<le> r)"

definition effective_checkpoint :: "session \<Rightarrow> checkpoint \<Rightarrow> checkpoint" where
  "effective_checkpoint s cp =
     (if raw_workspaceMode (cd_config (se_condition s)) = Some ''etherpad'' then withoutRanking cp
      else cp)"

definition accepts_state :: "session \<Rightarrow> checkpoint \<Rightarrow> bool" where
  "accepts_state s cp =
     acceptsCheckpointState (cp_revision cp) (orelse (se_checkpointRevision s) 0)"

definition merge_reaction_state :: "session \<Rightarrow> checkpoint \<Rightarrow> session" where
  "merge_reaction_state s cp =
     (let events = mergeRecordedReactions (se_reactionEvents s) (cp_reactionEvents cp);
          redacted = uniq (se_redactedReactionEventIds s @ cp_redactedReactionEventIds cp @
            map rr_eventId (filter rr_redacted events))
      in s\<lparr>se_reactionEvents := events, se_redactedReactionEventIds := redacted,
           se_messages := mergeMessages redacted (se_messages s) (cp_messages cp)\<rparr>)"

definition merge_records :: "session \<Rightarrow> checkpoint \<Rightarrow> session" where
  "merge_records s cp =
     (let accepts = accepts_state s cp in
      s\<lparr>se_rankingHistory := append_unique rankingKey (se_rankingHistory s) (cp_rankingHistory cp),
        se_interventions := merge_by_key il_id (se_interventions s) (cp_interventions cp),
        se_behavioralEvents :=
          mergeCheckpointValues be_id accepts (se_behavioralEvents s) (cp_behavioralEvents cp),
        se_contributionClassifications :=
          mergeCheckpointValues cc_messageId accepts (se_contributionClassifications s)
            (cp_contributionClassifications cp),
        se_windowEvaluations :=
          dedupeWindowEvaluations
            (merge_by_key we_id (se_windowEvaluations s) (cp_windowEvaluations cp)),
        se_classificationFailures :=
          mergeCheckpointValues cf_messageId accepts (se_classificationFailures s)
            (cp_classificationFailures cp),
        se_processedEventIds := uniq (se_processedEventIds s @ cp_processedEventIds cp)\<rparr>)"

text \<open>The tail of the merge: rule state, revision and current ranking. \<open>s0\<close> is the session before.\<close>

definition merge_mutable :: "session \<Rightarrow> session \<Rightarrow> checkpoint \<Rightarrow> session" where
  "merge_mutable s0 s cp =
     (if \<not> accepts_state s0 cp then s
      else
        let s' = s\<lparr>se_runtimeState := object_assign (se_runtimeState s) (cp_ruleState cp),
                   se_checkpointRevision :=
                     (if cp_revision cp = None then se_checkpointRevision s else cp_revision cp)\<rparr>
        in if cp_rankingHistory cp = [] then s'
           else s'\<lparr>se_ranking :=
                  (if cp_revision cp \<noteq> None \<or> se_rankingHistory s0 = []
                   then last (cp_rankingHistory cp)
                   else newestRanking (se_ranking s') (cp_rankingHistory cp))\<rparr>)"

definition mergeCheckpointIntoSession :: "session \<Rightarrow> checkpoint \<Rightarrow> session" where
  "mergeCheckpointIntoSession s checkpoint =
     (let cp = effective_checkpoint s checkpoint in
      merge_mutable s (merge_records (merge_reaction_state s cp) cp) cp)"

section \<open>Lemmas on window records\<close>

definition window_rank :: "window_evaluation \<Rightarrow> bool \<times> nat" where
  "window_rank e = (truthy (we_interventionId e), messageTotal e)"

lemma outranks_rank: "outranks a b \<longleftrightarrow> window_rank b < window_rank a"
  by (auto simp: outranks_def window_rank_def less_prod_def)

definition kept_inv :: "window_evaluation list \<Rightarrow> (stamp \<times> window_evaluation) list \<Rightarrow> bool" where
  "kept_inv ws m =
     (well_keyed we_windowEnd m \<and> map fst m = uniq (map we_windowEnd ws) \<and>
      set (map snd m) \<subseteq> set ws \<and>
      (\<forall>w\<in>set ws. \<exists>k. om_get m (we_windowEnd w) = Some k \<and> window_rank w \<le> window_rank k))"

lemma keep_window_absorb:
  "om_get m (we_windowEnd e) = Some k \<Longrightarrow> window_rank e \<le> window_rank k \<Longrightarrow> keep_window m e = m"
  by (auto simp: keep_window_def outranks_rank dest: leD)

lemma keep_windows_absorb:
  "\<forall>w\<in>set ws. \<exists>k. om_get m (we_windowEnd w) = Some k \<and> window_rank w \<le> window_rank k \<Longrightarrow>
     foldl keep_window m ws = m"
  by (induction ws) (auto simp: keep_window_absorb)

lemma keys_keep_window: "map fst (keep_window m e) = set_add (map fst m) (we_windowEnd e)"
  by (force simp: keep_window_def set_add_def split: option.split dest: map_of_SomeD)

lemma snd_om_set: "x \<in> set (map snd (om_set k v m)) \<Longrightarrow> x = v \<or> x \<in> set (map snd m)"
  by (induction m) (auto split: if_splits)

lemma get_keep_window:
  "om_get (keep_window m e) i =
     (if i = we_windowEnd e
      then Some (case om_get m i of None \<Rightarrow> e | Some c \<Rightarrow> if outranks e c then e else c)
      else om_get m i)"
  by (auto simp: keep_window_def update_conv' split: option.splits)

lemma kept_inv_snoc:
  assumes "kept_inv ws m"
  shows "kept_inv (ws @ [e]) (keep_window m e)"
proof -
  have wk: "well_keyed we_windowEnd (keep_window m e)"
    using assms by (auto simp: kept_inv_def keep_window_def well_keyed_om_set split: option.split)
  moreover have "map fst (keep_window m e) = uniq (map we_windowEnd (ws @ [e]))"
    using assms by (simp add: kept_inv_def keys_keep_window uniq_def set_union_append)
  moreover have "set (map snd (keep_window m e)) \<subseteq> set (ws @ [e])"
    using assms unfolding kept_inv_def keep_window_def
    by (auto split: option.splits if_splits dest!: snd_om_set [unfolded set_map])
  moreover have "\<exists>k. om_get (keep_window m e) (we_windowEnd w) = Some k \<and> window_rank w \<le> window_rank k"
    if "w \<in> set (ws @ [e])" for w
  proof (cases "om_get m (we_windowEnd w)")
    case None
    with that assms have "w = e" by (auto simp: kept_inv_def)
    with None show ?thesis by (simp add: get_keep_window)
  next
    case (Some k)
    have "window_rank w \<le> window_rank k \<or> w = e" using that assms Some by (auto simp: kept_inv_def)
    with Some show ?thesis by (auto simp: get_keep_window outranks_rank)
  qed
  ultimately show ?thesis by (simp add: kept_inv_def)
qed

lemma kept_inv_dedupe: "kept_inv ws (foldl keep_window [] ws)"
proof (induction ws rule: rev_induct)
  case Nil
  show ?case by (simp add: kept_inv_def well_keyed_def uniq_def)
next
  case (snoc w ws)
  then show ?case by (simp add: kept_inv_snoc)
qed

lemma dedupe_ends: "map we_windowEnd (dedupeWindowEvaluations ws) = uniq (map we_windowEnd ws)"
  using kept_inv_dedupe [of ws] by (simp add: dedupeWindowEvaluations_def kept_inv_def well_keyed_values)

lemma dedupe_subset: "set (dedupeWindowEvaluations ws) \<subseteq> set ws"
  using kept_inv_dedupe [of ws] by (simp add: dedupeWindowEvaluations_def kept_inv_def om_values_def)

lemma dedupe_best:
  assumes "w \<in> set ws"
  shows "\<exists>k \<in> set (dedupeWindowEvaluations ws). we_windowEnd k = we_windowEnd w \<and> window_rank w \<le> window_rank k"
proof -
  from kept_inv_dedupe [of ws] assms obtain k
    where "om_get (foldl keep_window [] ws) (we_windowEnd w) = Some k" "window_rank w \<le> window_rank k"
      "we_windowEnd k = we_windowEnd w"
    unfolding kept_inv_def well_keyed_def by blast
  then show ?thesis unfolding dedupeWindowEvaluations_def om_values_def
    by (metis (no_types, lifting) map_of_SomeD image_eqI set_map snd_conv)
qed

lemma keep_windows_distinct:
  "distinct (map we_windowEnd ws) \<Longrightarrow> foldl keep_window [] ws = map (\<lambda>w. (we_windowEnd w, w)) ws"
proof (induction ws rule: rev_induct)
  case (snoc w ws)
  then have "foldl keep_window [] ws = map (\<lambda>w. (we_windowEnd w, w)) ws" by simp
  moreover have "om_get (map (\<lambda>w. (we_windowEnd w, w)) ws) (we_windowEnd w) = None"
    using snoc.prems by (auto simp: map_of_eq_None_iff)
  moreover have "we_windowEnd w \<notin> set (map fst (map (\<lambda>w. (we_windowEnd w, w)) ws))"
    using snoc.prems by auto
  ultimately show ?case by (simp add: keep_window_def [of _ w] om_set_new comp_def)
qed simp

text \<open>Adding back records that lost, after the ones that won, changes nothing.\<close>

lemma dedupe_append_absorb:
  assumes "set ls \<subseteq> set ws"
  shows "dedupeWindowEvaluations (dedupeWindowEvaluations ws @ ls) = dedupeWindowEvaluations ws"
proof -
  let ?m = "foldl keep_window [] ws"
  have inv: "kept_inv ws ?m" by (rule kept_inv_dedupe)
  have "foldl keep_window [] (dedupeWindowEvaluations ws) = ?m"
  proof -
    have "foldl keep_window [] (dedupeWindowEvaluations ws) =
        keyed we_windowEnd (dedupeWindowEvaluations ws)"
      by (subst keep_windows_distinct) (simp_all add: dedupe_ends keyed_distinct)
    also have "\<dots> = ?m" using inv by (simp add: dedupeWindowEvaluations_def keyed_values kept_inv_def)
    finally show ?thesis .
  qed
  moreover have "foldl keep_window ?m ls = ?m"
    using assms inv by (intro keep_windows_absorb) (auto simp: kept_inv_def)
  ultimately show ?thesis by (simp add: dedupeWindowEvaluations_def)
qed

lemma well_keyed_get:
  assumes "well_keyed key m" and "x \<in> set (om_values m)"
  shows "om_get m (key x) = Some x"
proof -
  from assms(2) obtain k where "(k, x) \<in> set m" by (auto simp: om_values_def)
  with assms(1) have "om_get m k = Some x" by (simp add: well_keyed_def)
  with assms(1) show ?thesis by (auto simp: well_keyed_def)
qed

lemma om_get_value: "om_get m i = Some x \<Longrightarrow> x \<in> set (om_values m)"
  by (auto simp: om_values_def dest!: map_of_SomeD intro: rev_image_eqI)

lemma foldl_om_set_assign:
  "foldl (\<lambda>m y. om_set (key y) y m) m ys = object_assign m (map (\<lambda>y. (key y, y)) ys)"
  by (induction ys arbitrary: m) (simp_all add: object_assign_def)

text \<open>
  A part of a merged list, merged with the same batch again: the part stays in front, and only
  records of the whole come after it.
\<close>

lemma merge_part_again:
  assumes ks: "set ks \<subseteq> set (merge_by_key key xs ys)" and dist: "distinct (map key ks)"
  shows "\<exists>ls. merge_by_key key ks ys = ks @ ls \<and> set ls \<subseteq> set (merge_by_key key xs ys)"
proof -
  let ?asg = "map (\<lambda>y. (key y, y)) ys"
  define w where "w = object_assign (keyed key xs) ?asg"
  define r where "r = object_assign (keyed key ks) ?asg"
  have W: "merge_by_key key xs ys = om_values w" and R: "merge_by_key key ks ys = om_values r"
    by (simp_all add: merge_by_key_def foldl_om_set_assign w_def r_def)
  have wk: "well_keyed key w" "well_keyed key r"
    unfolding w_def r_def foldl_om_set_assign [symmetric]
    using well_keyed_steps [OF keeps_key_take_new well_keyed_keyed, of key]
    by (simp_all add: merge_step_def take_new_def cong: foldl_cong)
  have in_w: "om_get w (key k) = Some k" if "k \<in> set ks" for k
    using that ks wk(1) unfolding W by (intro well_keyed_get) auto
  have get: "om_get r i = om_get w i" if "i \<in> set (map fst r)" for i
  proof (cases "om_get (rev ?asg) i")
    case None
    then have "om_get r i = om_get (keyed key ks) i" "om_get w i = om_get (keyed key xs) i"
      by (simp_all add: r_def w_def om_get_object_assign map_add_def)
    moreover from this(1) that have "om_get (keyed key ks) i \<noteq> None"
      by (metis map_of_eq_None_iff set_map)
    then obtain k where "om_get (keyed key ks) i = Some k" by blast
    moreover from this have "k \<in> set ks" "i = key k"
      using dist by (auto simp: keyed_distinct dest!: map_of_SomeD)
    ultimately show ?thesis using in_w by simp
  next
    case (Some y)
    then show ?thesis by (simp add: r_def w_def om_get_object_assign)
  qed
  have keys: "map fst r = set_union (map key ks) (map key ys)"
    using dist by (simp add: r_def keys_object_assign keyed_distinct comp_def)
  then obtain extra where extra: "map fst r = map key ks @ extra"
    using prefix_set_union by (metis prefixE)
  have vals: "om_values r = map (\<lambda>i. the (om_get w i)) (map fst r)"
    unfolding om_values_def map_map comp_def
  proof (rule map_cong [OF refl])
    fix p assume p: "p \<in> set r"
    then have "om_get r (fst p) = Some (snd p)" using wk(2) by (simp add: well_keyed_def)
    moreover have "fst p \<in> set (map fst r)" using p by simp
    ultimately show "snd p = the (om_get w (fst p))" using get [of "fst p"] by (metis option.sel)
  qed
  have "om_values r = ks @ map (\<lambda>i. the (om_get w i)) extra"
    unfolding vals extra using in_w by (simp add: map_idI)
  moreover have "set (om_values r) \<subseteq> set (om_values w)"
  proof
    fix v assume "v \<in> set (om_values r)"
    then have v: "om_get r (key v) = Some v" using wk(2) by (intro well_keyed_get)
    then have "key v \<in> set (map fst r)" using map_of_eq_None_iff [of r "key v"] by auto
    with get v show "v \<in> set (om_values w)" by (intro om_get_value) simp
  qed
  ultimately show ?thesis unfolding W R by auto
qed

lemma windows_absorb:
  "dedupeWindowEvaluations (merge_by_key we_id
       (dedupeWindowEvaluations (merge_by_key we_id xs ys)) ys) =
     dedupeWindowEvaluations (merge_by_key we_id xs ys)"
proof -
  let ?W = "merge_by_key we_id xs ys"
  have "distinct (map we_id ?W)"
    unfolding merge_by_key_conv by (simp add: merge_with_distinct keeps_key_take_new)
  then have "inj_on we_id (set ?W)" "distinct ?W" by (simp_all add: distinct_map)
  moreover have "distinct (dedupeWindowEvaluations ?W)"
    using dedupe_ends [of ?W] distinct_uniq distinct_map by metis
  ultimately have "distinct (map we_id (dedupeWindowEvaluations ?W))"
    using dedupe_subset [of ?W] by (auto simp: distinct_map intro: inj_on_subset)
  from merge_part_again [OF dedupe_subset this] obtain ls
    where "merge_by_key we_id (dedupeWindowEvaluations ?W) ys = dedupeWindowEvaluations ?W @ ls"
      and "set ls \<subseteq> set ?W" by blast
  then show ?thesis by (simp add: dedupe_append_absorb)
qed

section \<open>The invariant of a stored session and the order merges respect\<close>

definition session_wf :: "session \<Rightarrow> bool" where
  "session_wf s =
     (distinct (map rr_eventId (se_reactionEvents s)) \<and>
      distinct (map ms_id (se_messages s)) \<and>
      distinct (map rankingKey (se_rankingHistory s)) \<and>
      distinct (map il_id (se_interventions s)) \<and>
      distinct (map be_id (se_behavioralEvents s)) \<and>
      distinct (map cc_messageId (se_contributionClassifications s)) \<and>
      distinct (map we_windowEnd (se_windowEvaluations s)) \<and>
      distinct (map cf_messageId (se_classificationFailures s)) \<and>
      distinct (se_processedEventIds s) \<and> distinct (se_redactedReactionEventIds s) \<and>
      distinct (map fst (se_runtimeState s)))"

text \<open>Nothing recorded is lost, a redaction is never taken back, the revision never falls.\<close>

definition session_below :: "session \<Rightarrow> session \<Rightarrow> bool" where
  "session_below s t =
     (ms_id ` set (se_messages s) \<subseteq> ms_id ` set (se_messages t) \<and>
      prefix (se_rankingHistory s) (se_rankingHistory t) \<and>
      il_id ` set (se_interventions s) \<subseteq> il_id ` set (se_interventions t) \<and>
      be_id ` set (se_behavioralEvents s) \<subseteq> be_id ` set (se_behavioralEvents t) \<and>
      cc_messageId ` set (se_contributionClassifications s) \<subseteq>
        cc_messageId ` set (se_contributionClassifications t) \<and>
      cf_messageId ` set (se_classificationFailures s) \<subseteq>
        cf_messageId ` set (se_classificationFailures t) \<and>
      set (se_processedEventIds s) \<subseteq> set (se_processedEventIds t) \<and>
      rr_eventId ` set (se_reactionEvents s) \<subseteq> rr_eventId ` set (se_reactionEvents t) \<and>
      rr_eventId ` set (filter rr_redacted (se_reactionEvents s)) \<subseteq>
        rr_eventId ` set (filter rr_redacted (se_reactionEvents t)) \<and>
      set (se_redactedReactionEventIds s) \<subseteq> set (se_redactedReactionEventIds t) \<and>
      orelse (se_checkpointRevision s) 0 \<le> orelse (se_checkpointRevision t) 0)"

lemmas merge_unfold = mergeCheckpointIntoSession_def merge_mutable_def merge_records_def
  merge_reaction_state_def Let_def

lemma merge_fields:
  "se_reactionEvents (mergeCheckpointIntoSession s c) =
     mergeRecordedReactions (se_reactionEvents s) (cp_reactionEvents (effective_checkpoint s c))"
  "se_redactedReactionEventIds (mergeCheckpointIntoSession s c) =
     uniq (se_redactedReactionEventIds s @ cp_redactedReactionEventIds (effective_checkpoint s c) @
       map rr_eventId (filter rr_redacted (se_reactionEvents (mergeCheckpointIntoSession s c))))"
  "se_messages (mergeCheckpointIntoSession s c) =
     mergeMessages (se_redactedReactionEventIds (mergeCheckpointIntoSession s c)) (se_messages s)
       (cp_messages (effective_checkpoint s c))"
  "se_rankingHistory (mergeCheckpointIntoSession s c) =
     append_unique rankingKey (se_rankingHistory s) (cp_rankingHistory (effective_checkpoint s c))"
  "se_interventions (mergeCheckpointIntoSession s c) =
     merge_by_key il_id (se_interventions s) (cp_interventions (effective_checkpoint s c))"
  "se_behavioralEvents (mergeCheckpointIntoSession s c) =
     mergeCheckpointValues be_id (accepts_state s (effective_checkpoint s c)) (se_behavioralEvents s)
       (cp_behavioralEvents (effective_checkpoint s c))"
  "se_contributionClassifications (mergeCheckpointIntoSession s c) =
     mergeCheckpointValues cc_messageId (accepts_state s (effective_checkpoint s c))
       (se_contributionClassifications s) (cp_contributionClassifications (effective_checkpoint s c))"
  "se_windowEvaluations (mergeCheckpointIntoSession s c) =
     dedupeWindowEvaluations (merge_by_key we_id (se_windowEvaluations s)
       (cp_windowEvaluations (effective_checkpoint s c)))"
  "se_classificationFailures (mergeCheckpointIntoSession s c) =
     mergeCheckpointValues cf_messageId (accepts_state s (effective_checkpoint s c))
       (se_classificationFailures s) (cp_classificationFailures (effective_checkpoint s c))"
  "se_processedEventIds (mergeCheckpointIntoSession s c) =
     uniq (se_processedEventIds s @ cp_processedEventIds (effective_checkpoint s c))"
  "se_runtimeState (mergeCheckpointIntoSession s c) =
     (if accepts_state s (effective_checkpoint s c)
      then object_assign (se_runtimeState s) (cp_ruleState (effective_checkpoint s c))
      else se_runtimeState s)"
  "se_checkpointRevision (mergeCheckpointIntoSession s c) =
     (if accepts_state s (effective_checkpoint s c) \<and> cp_revision (effective_checkpoint s c) \<noteq> None
      then cp_revision (effective_checkpoint s c) else se_checkpointRevision s)"
  "se_ranking (mergeCheckpointIntoSession s c) =
     (let e = effective_checkpoint s c in
      if accepts_state s e \<and> cp_rankingHistory e \<noteq> []
      then if cp_revision e \<noteq> None \<or> se_rankingHistory s = [] then last (cp_rankingHistory e)
           else newestRanking (se_ranking s) (cp_rankingHistory e)
      else se_ranking s)"
  "se_condition (mergeCheckpointIntoSession s c) = se_condition s"
  by (simp_all add: merge_unfold accepts_state_def)

lemma merge_keeps_redacted:
  assumes "e \<in> rr_eventId ` set (filter rr_redacted xs)" and "distinct (map rr_eventId xs)"
  shows "e \<in> rr_eventId ` set (filter rr_redacted (mergeRecordedReactions xs ys))"
proof -
  let ?P = "\<lambda>m. \<exists>r. om_get m e = Some r \<and> rr_redacted r"
  from assms obtain r where r: "r \<in> set xs" "rr_redacted r" "rr_eventId r = e" by auto
  have start: "?P (keyed rr_eventId xs)"
  proof -
    have "(e, r) \<in> set (keyed rr_eventId xs)" using r assms(2) by (auto simp: keyed_distinct)
    moreover have "distinct (map fst (keyed rr_eventId xs))"
      using well_keyed_keyed [of rr_eventId xs] by (simp add: well_keyed_def)
    ultimately show ?thesis using r(2) by (metis map_of_is_SomeI)
  qed
  have step: "?P m \<Longrightarrow> ?P (merge_step rr_eventId merge_recorded m y)" for m y
    by (auto simp: merge_step_def merge_recorded_def update_conv')
  have "?P m \<Longrightarrow> ?P (foldl (merge_step rr_eventId merge_recorded) m ys)" for m
    using step by (induction ys arbitrary: m) auto
  from this [OF start] obtain r'
    where get: "om_get (foldl (merge_step rr_eventId merge_recorded) (keyed rr_eventId xs) ys) e = Some r'"
      and "rr_redacted r'" by blast
  moreover have "rr_eventId r' = e"
    using get well_keyed_steps [OF keeps_key_recorded well_keyed_keyed, of xs ys]
    by (simp add: well_keyed_def)
  ultimately show ?thesis unfolding mergeRecordedReactions_conv merge_with_def
    by (auto dest!: om_get_value intro!: rev_image_eqI)
qed

lemma merge_wf: "session_wf s \<Longrightarrow> session_wf (mergeCheckpointIntoSession s c)"
  by (simp add: session_wf_def merge_fields messages_merge.merge_distinct reactions_merge.merge_distinct
      newest.merge_distinct oldest.merge_distinct values_merge.merge_distinct dedupe_ends
      keys_object_assign)

lemma dedupe_end_set: "we_windowEnd ` set (dedupeWindowEvaluations ws) = we_windowEnd ` set ws"
  using arg_cong [OF dedupe_ends [of ws], of set] by simp

lemma merge_revision: "orelse (se_checkpointRevision s) 0 \<le> orelse (se_checkpointRevision (mergeCheckpointIntoSession s c)) 0"
  by (auto simp: merge_fields accepts_state_def acceptsCheckpointState_def split: option.splits)

lemma merge_below: "session_wf s \<Longrightarrow> session_below s (mergeCheckpointIntoSession s c)"
  unfolding session_below_def
  by (intro conjI merge_revision)
    (auto simp: merge_fields messages_merge.merge_keys reactions_merge.merge_keys
      newest.merge_keys oldest.merge_keys values_merge.merge_keys prefix_append_unique
      session_wf_def simp del: set_filter intro: merge_keeps_redacted)

lemma session_below_refl: "session_below s s"
  by (simp add: session_below_def)

lemma session_below_trans: "session_below s t \<Longrightarrow> session_below t u \<Longrightarrow> session_below s u"
  unfolding session_below_def by (meson order_trans prefix_order.order_trans)

interpretation checkpoints: monotone_stepper mergeCheckpointIntoSession session_wf session_below
  by unfold_locales (auto intro: merge_wf merge_below session_below_refl session_below_trans)

lemma merged_value:
  "x \<in> set (om_values (foldl (merge_step key comb) m ys)) \<Longrightarrow> keeps_key key comb \<Longrightarrow> well_keyed key m \<Longrightarrow>
     key x \<in> key ` set ys \<Longrightarrow> \<exists>c y. x = comb c y"
proof (induction ys rule: rev_induct)
  case (snoc y ys)
  let ?m = "foldl (merge_step key comb) m ys"
  have wk: "well_keyed key (merge_step key comb ?m y)"
    using snoc.prems by (intro well_keyed_step well_keyed_steps)
  have get: "om_get (merge_step key comb ?m y) (key x) = Some x"
    using snoc.prems(1) wk by (intro well_keyed_get) simp_all
  show ?case
  proof (cases "key x = key y")
    case True
    with get show ?thesis by (auto simp: merge_step_def update_conv')
  next
    case False
    with get have "om_get ?m (key x) = Some x" by (simp add: merge_step_def update_conv')
    then show ?thesis using snoc False by (auto dest: om_get_value)
  qed
qed simp

lemma merged_messages_live:
  assumes "m \<in> set (mergeMessages redacted xs ys)" and "ms_id m \<in> ms_id ` set ys"
    and "r \<in> set (ms_reactions m)"
  shows "\<not> is_redacted redacted r"
proof -
  from merged_value [OF _ keeps_key_message well_keyed_keyed] assms obtain c y
    where "m = merge_message redacted c y"
    unfolding mergeMessages_conv merge_with_def by blast
  with assms(3) show ?thesis by (auto dest: merge_message_live)
qed

definition checkpoint_wf :: "checkpoint \<Rightarrow> bool" where
  "checkpoint_wf c =
     (distinct (map rr_eventId (cp_reactionEvents c)) \<and> distinct (map ms_id (cp_messages c)) \<and>
      distinct (map il_id (cp_interventions c)) \<and> distinct (map be_id (cp_behavioralEvents c)) \<and>
      distinct (map cc_messageId (cp_contributionClassifications c)) \<and>
      distinct (map cf_messageId (cp_classificationFailures c)))"

lemma merge_other_fields:
  "se_id (mergeCheckpointIntoSession s c) = se_id s"
  "se_status (mergeCheckpointIntoSession s c) = se_status s"
  "se_roundId (mergeCheckpointIntoSession s c) = se_roundId s"
  "se_llmEnabled (mergeCheckpointIntoSession s c) = se_llmEnabled s"
  "se_participants (mergeCheckpointIntoSession s c) = se_participants s"
  "se_rankingTask (mergeCheckpointIntoSession s c) = se_rankingTask s"
  "se_durationMinutes (mergeCheckpointIntoSession s c) = se_durationMinutes s"
  "se_roomId (mergeCheckpointIntoSession s c) = se_roomId s"
  "se_waitingDeadlineAt (mergeCheckpointIntoSession s c) = se_waitingDeadlineAt s"
  "se_createdAt (mergeCheckpointIntoSession s c) = se_createdAt s"
  "se_startedAt (mergeCheckpointIntoSession s c) = se_startedAt s"
  "se_completedAt (mergeCheckpointIntoSession s c) = se_completedAt s"
  "session.more (mergeCheckpointIntoSession s c) = session.more s"
  by (simp_all add: merge_unfold)

lemma effective_again: "effective_checkpoint (mergeCheckpointIntoSession s c) d = effective_checkpoint s d"
  by (simp add: effective_checkpoint_def merge_fields)

lemma effective_revision [simp]: "cp_revision (effective_checkpoint s c) = cp_revision c"
  by (simp add: effective_checkpoint_def withoutRanking_def)

lemma effective_wf: "checkpoint_wf c \<Longrightarrow> checkpoint_wf (effective_checkpoint s c)"
  by (simp add: checkpoint_wf_def effective_checkpoint_def withoutRanking_def distinct_map_filter)

lemma accepts_again:
  "cp_revision c = Some r \<Longrightarrow>
     accepts_state (mergeCheckpointIntoSession s c) (effective_checkpoint s c) =
     accepts_state s (effective_checkpoint s c)"
  by (simp add: accepts_state_def merge_fields acceptsCheckpointState_def)

lemma redacted_again:
  assumes "session_wf s" and "checkpoint_wf c"
  shows "mergeRecordedReactions (se_reactionEvents (mergeCheckpointIntoSession s c))
      (cp_reactionEvents (effective_checkpoint s c)) = se_reactionEvents (mergeCheckpointIntoSession s c)"
  using assms effective_wf [OF assms(2), of s]
  by (simp add: merge_fields reactions_merge.merge_absorb session_wf_def checkpoint_wf_def)

lemma uniq_absorb: "set ys \<subseteq> set (uniq xs) \<Longrightarrow> uniq (uniq xs @ ys) = uniq xs"
  using uniq_distinct [OF distinct_uniq, of xs]
  by (simp add: uniq_def set_union_append) (simp add: set_union_absorb)

text \<open>\<open>redelivery_lists\<close> are the fields whose second merge is absorbed by a law of their own merge.\<close>

lemma redelivery_lists:
  fixes s c defines "t \<equiv> mergeCheckpointIntoSession s c" and "e \<equiv> effective_checkpoint s c"
  assumes "session_wf s" and "checkpoint_wf c"
  shows "se_reactionEvents (mergeCheckpointIntoSession t c) = se_reactionEvents t"
    "se_redactedReactionEventIds (mergeCheckpointIntoSession t c) = se_redactedReactionEventIds t"
    "se_messages (mergeCheckpointIntoSession t c) = se_messages t"
    "se_rankingHistory (mergeCheckpointIntoSession t c) = se_rankingHistory t"
    "se_interventions (mergeCheckpointIntoSession t c) = se_interventions t"
    "se_windowEvaluations (mergeCheckpointIntoSession t c) = se_windowEvaluations t"
    "se_processedEventIds (mergeCheckpointIntoSession t c) = se_processedEventIds t"
proof -
  have e: "effective_checkpoint t c = e" by (simp add: t_def e_def effective_again)
  have wf: "session_wf t" "checkpoint_wf e"
    using assms(3,4) by (simp_all add: t_def e_def merge_wf effective_wf)
  show events: "se_reactionEvents (mergeCheckpointIntoSession t c) = se_reactionEvents t"
    unfolding merge_fields(1) [of t] e using redacted_again [OF assms(3,4)] by (simp add: t_def e_def)
  show redacted: "se_redactedReactionEventIds (mergeCheckpointIntoSession t c) =
      se_redactedReactionEventIds t"
    unfolding merge_fields(2) [of t] events e
    unfolding t_def e_def merge_fields(2) by (rule uniq_absorb) auto
  show "se_messages (mergeCheckpointIntoSession t c) = se_messages t"
    unfolding merge_fields(3) [of t] redacted e
    unfolding t_def e_def merge_fields(3) [of s] using assms(3) wf(2)
    by (intro messages_merge.merge_absorb) (simp_all add: session_wf_def checkpoint_wf_def e_def)
  show "se_rankingHistory (mergeCheckpointIntoSession t c) = se_rankingHistory t"
    unfolding merge_fields(4) [of t] e by (simp add: t_def e_def merge_fields append_unique_idem)
  show "se_interventions (mergeCheckpointIntoSession t c) = se_interventions t"
    unfolding merge_fields(5) [of t] e using assms(3) wf(2)
    by (simp add: t_def e_def merge_fields newest.merge_absorb session_wf_def checkpoint_wf_def)
  show "se_windowEvaluations (mergeCheckpointIntoSession t c) = se_windowEvaluations t"
    unfolding merge_fields(8) [of t] e by (simp add: t_def e_def merge_fields windows_absorb)
  show "se_processedEventIds (mergeCheckpointIntoSession t c) = se_processedEventIds t"
    unfolding merge_fields(10) [of t] e
    unfolding t_def e_def merge_fields(10) by (rule uniq_absorb) auto
qed

lemma redelivery_state:
  fixes s c defines "t \<equiv> mergeCheckpointIntoSession s c" and "e \<equiv> effective_checkpoint s c"
  assumes "session_wf s" and "checkpoint_wf c" and "cp_revision c = Some r"
  shows "se_behavioralEvents (mergeCheckpointIntoSession t c) = se_behavioralEvents t"
    "se_contributionClassifications (mergeCheckpointIntoSession t c) = se_contributionClassifications t"
    "se_classificationFailures (mergeCheckpointIntoSession t c) = se_classificationFailures t"
    "se_runtimeState (mergeCheckpointIntoSession t c) = se_runtimeState t"
    "se_checkpointRevision (mergeCheckpointIntoSession t c) = se_checkpointRevision t"
    "se_ranking (mergeCheckpointIntoSession t c) = se_ranking t"
proof -
  have e: "effective_checkpoint t c = e" and acc: "accepts_state t e = accepts_state s e"
    using assms(5) by (simp_all add: t_def e_def effective_again accepts_again)
  have wf: "checkpoint_wf e" and rev: "cp_revision e = Some r"
    using assms(4,5) by (simp_all add: e_def effective_wf)
  note absorb = values_merge.merge_absorb session_wf_def checkpoint_wf_def
  show "se_behavioralEvents (mergeCheckpointIntoSession t c) = se_behavioralEvents t"
    unfolding merge_fields(6) [of t] e acc using assms(3) wf
    by (simp add: t_def e_def merge_fields absorb)
  show "se_contributionClassifications (mergeCheckpointIntoSession t c) = se_contributionClassifications t"
    unfolding merge_fields(7) [of t] e acc using assms(3) wf
    by (simp add: t_def e_def merge_fields absorb)
  show "se_classificationFailures (mergeCheckpointIntoSession t c) = se_classificationFailures t"
    unfolding merge_fields(9) [of t] e acc using assms(3) wf
    by (simp add: t_def e_def merge_fields absorb)
  show "se_runtimeState (mergeCheckpointIntoSession t c) = se_runtimeState t"
    unfolding merge_fields(11) [of t] e acc using assms(3)
    by (simp add: t_def e_def merge_fields object_assign_absorb session_wf_def)
  show "se_checkpointRevision (mergeCheckpointIntoSession t c) = se_checkpointRevision t"
    unfolding merge_fields(12) [of t] e acc by (auto simp: t_def e_def merge_fields)
  show "se_ranking (mergeCheckpointIntoSession t c) = se_ranking t"
    unfolding merge_fields(13) [of t] e acc using rev accepts_again [OF assms(5), of s]
    by (simp add: t_def e_def merge_fields Let_def)
qed

section \<open>A stored session and two checkpoints, for the examples\<close>

definition sample_condition :: "rat condition" where
  "sample_condition =
     \<lparr>cd_id = ''public'', cd_name = ''Public'', cd_active = True, cd_goal = 10,
      cd_durationMinutes = 20, cd_groupSize = 3,
      cd_config = \<lparr>raw_workspaceMode = None, raw_externalWorkspace = None,
        raw_interventionMode = Some ''public'', raw_contributionThreshold = None,
        raw_protectedStartMinutes = None, raw_protectedEndMinutes = None,
        raw_contributionWindowMinutes = None, raw_scoreWeights = (None, None),
        raw_dominanceWeights = (None, None), raw_llmMode = None\<rparr>\<rparr>"

definition sample_ranking :: "int \<Rightarrow> string list \<Rightarrow> ranking" where
  "sample_ranking t items =
     \<lparr>rk_eventId = None, rk_taskId = ''moon-survival'', rk_order = items, rk_updatedAt = Stamp t,
      rk_updatedBy = ''p1'', rk_movement = None\<rparr>"

definition sample_message :: "reaction list \<Rightarrow> message" where
  "sample_message rs =
     \<lparr>ms_id = ''m1'', ms_timestamp = Stamp 5, ms_senderId = ''p1'', ms_recipientId = None,
      ms_text = ''oxygen first'', ms_reactions = rs\<rparr>"

definition sample_session :: session where
  "sample_session =
     \<lparr>se_id = ''s1'', se_status = Running, se_roundId = 1, se_condition = sample_condition,
      se_llmEnabled = False, se_participants = [],
      se_messages = [sample_message
        [\<lparr>rx_eventId = Some ''e1'', rx_key = ''+'', rx_senderId = ''p2'', rx_timestamp = Stamp 6\<rparr>]],
      se_rankingTask = MOON_SURVIVAL, se_ranking = sample_ranking 0 [''map'', ''food''],
      se_rankingHistory = [], se_interventions = [], se_behavioralEvents = [],
      se_contributionClassifications = [], se_windowEvaluations = [],
      se_classificationFailures = [], se_processedEventIds = [''x1''],
      se_redactedReactionEventIds = [], se_reactionEvents = [], se_runtimeState = [],
      se_checkpointRevision = Some 3, se_durationMinutes = 20, se_roomId = Some ''!r:h'',
      se_waitingDeadlineAt = None, se_createdAt = Stamp 0, se_startedAt = Some (Stamp 1),
      se_completedAt = None\<rparr>"

definition sample_checkpoint :: "rat option \<Rightarrow> checkpoint" where
  "sample_checkpoint revision =
     \<lparr>cp_revision = revision,
      cp_messages = [sample_message
        [\<lparr>rx_eventId = Some ''e2'', rx_key = ''!'', rx_senderId = ''p3'', rx_timestamp = Stamp 7\<rparr>]],
      cp_rankingHistory = [sample_ranking 8 [''food'', ''map'']], cp_interventions = [],
      cp_behavioralEvents = [], cp_contributionClassifications = [], cp_windowEvaluations = [],
      cp_classificationFailures = [], cp_processedEventIds = [''x1'', ''x2''],
      cp_redactedReactionEventIds = [''e1''], cp_reactionEvents = [],
      cp_ruleState = [(''contribution'', Some 4)]\<rparr>"

lemma sample_session_wf: "session_wf sample_session"
  by (simp add: session_wf_def sample_session_def)

lemma sample_checkpoint_wf: "checkpoint_wf (sample_checkpoint r)"
  by (simp add: checkpoint_wf_def sample_checkpoint_def)

section \<open>Properties\<close>

text \<open>
  C20: Whatever checkpoints reach a stored session, in whatever order, stale and repeated ones
  included, the session keeps every message, ranking state, intervention, telemetry event,
  classification and processed event id it had, no redaction of a reaction is ever taken back,
  the stored revision never falls, and every collection stays free of duplicates.
\<close>

theorem checkpoints_never_lose:
  assumes "session_wf s"
  shows "session_wf (foldl mergeCheckpointIntoSession s cps) \<and>
    session_below s (foldl mergeCheckpointIntoSession s cps)"
  using assms by (intro conjI checkpoints.run_inv checkpoints.run_below)

theorem checkpoints_never_lose_witness:
  "session_wf (foldl mergeCheckpointIntoSession sample_session
       [sample_checkpoint (Some 4), sample_checkpoint (Some 2)]) \<and>
   session_below sample_session (foldl mergeCheckpointIntoSession sample_session
       [sample_checkpoint (Some 4), sample_checkpoint (Some 2)])"
  by (rule checkpoints_never_lose [OF sample_session_wf])

text \<open>
  Delivering a versioned checkpoint a second time changes nothing in the session, so the Chat
  Service may retry a checkpoint whose answer it never saw.
\<close>

theorem checkpoint_redelivery:
  assumes "session_wf s" and "checkpoint_wf c" and "cp_revision c = Some r"
  shows "mergeCheckpointIntoSession (mergeCheckpointIntoSession s c) c = mergeCheckpointIntoSession s c"
  using redelivery_lists [OF assms(1,2)] redelivery_state [OF assms]
  by (intro session.equality) (simp_all add: merge_other_fields merge_fields(14))

theorem checkpoint_redelivery_witness:
  "mergeCheckpointIntoSession (mergeCheckpointIntoSession sample_session (sample_checkpoint (Some 4)))
     (sample_checkpoint (Some 4)) =
   mergeCheckpointIntoSession sample_session (sample_checkpoint (Some 4))"
  by (rule checkpoint_redelivery [OF sample_session_wf sample_checkpoint_wf, where r = 4])
    (simp add: sample_checkpoint_def)

text \<open>
  A checkpoint older than the stored revision changes no mutable state: the current ranking,
  the rule state and the revision stay, and telemetry, classifications and failures already
  stored keep their values and their places.
\<close>

theorem stale_checkpoint_rolls_nothing_back:
  assumes "cp_revision c = Some r" and "r < orelse (se_checkpointRevision s) 0"
  shows "let t = mergeCheckpointIntoSession s c in
    se_ranking t = se_ranking s \<and> se_runtimeState t = se_runtimeState s \<and>
    se_checkpointRevision t = se_checkpointRevision s \<and>
    prefix (se_behavioralEvents s) (se_behavioralEvents t) \<and>
    prefix (se_contributionClassifications s) (se_contributionClassifications t) \<and>
    prefix (se_classificationFailures s) (se_classificationFailures t)"
proof -
  have "\<not> accepts_state s (effective_checkpoint s c)"
    using assms by (simp add: accepts_state_def acceptsCheckpointState_def)
  then show ?thesis
    by (simp add: merge_fields mergeCheckpointValues_def prefix_append_unique Let_def)
qed

theorem stale_checkpoint_rolls_nothing_back_witness:
  "se_ranking (mergeCheckpointIntoSession sample_session (sample_checkpoint (Some 2))) =
     se_ranking sample_session"
  using stale_checkpoint_rolls_nothing_back [of "sample_checkpoint (Some 2)" 2 sample_session]
  by (simp add: sample_checkpoint_def sample_session_def Let_def)

text \<open>
  After a merge, no message the checkpoint carried shows a reaction that the session knows to
  be redacted, however the redaction became known.
\<close>

theorem merged_messages_hide_redacted:
  "let t = mergeCheckpointIntoSession s c in
   list_all (\<lambda>m. filter (is_redacted (se_redactedReactionEventIds t)) (ms_reactions m) = [])
     (filter (\<lambda>m. ms_id m \<in> ms_id ` set (cp_messages (effective_checkpoint s c))) (se_messages t))"
  unfolding Let_def list_all_iff merge_fields(3)
  by (auto simp: filter_empty_conv dest: merged_messages_live)

text \<open>
  Deduplication keeps one record per window boundary, in the order of first occurrence, makes
  none up, and a boundary at which a nudge was sent keeps a record that names the nudge.
\<close>

theorem dedupe_keeps_nudges:
  "map we_windowEnd (dedupeWindowEvaluations ws) = uniq (map we_windowEnd ws) \<and>
   set (dedupeWindowEvaluations ws) \<subseteq> set ws \<and>
   we_windowEnd ` set (filter (truthy \<circ> we_interventionId) ws) =
     we_windowEnd ` set (filter (truthy \<circ> we_interventionId) (dedupeWindowEvaluations ws))"
proof (intro conjI dedupe_ends dedupe_subset subset_antisym)
  show "we_windowEnd ` set (filter (truthy \<circ> we_interventionId) ws) \<subseteq>
      we_windowEnd ` set (filter (truthy \<circ> we_interventionId) (dedupeWindowEvaluations ws))"
  proof
    fix b assume "b \<in> we_windowEnd ` set (filter (truthy \<circ> we_interventionId) ws)"
    then obtain w where w: "w \<in> set ws" "truthy (we_interventionId w)" "we_windowEnd w = b" by auto
    from dedupe_best [OF w(1)] w obtain k where "k \<in> set (dedupeWindowEvaluations ws)"
      "we_windowEnd k = b" "truthy (we_interventionId k)"
      by (auto simp: window_rank_def less_eq_prod_def)
    then show "b \<in> we_windowEnd ` set (filter (truthy \<circ> we_interventionId) (dedupeWindowEvaluations ws))"
      by auto
  qed
  show "we_windowEnd ` set (filter (truthy \<circ> we_interventionId) (dedupeWindowEvaluations ws)) \<subseteq>
      we_windowEnd ` set (filter (truthy \<circ> we_interventionId) ws)"
    using dedupe_subset [of ws] by auto
qed

section \<open>A limit of the in-memory merge\<close>

text \<open>
  An intervention record that is already stored is replaced by a later delivery under the same
  id, whatever the revision of the checkpoint that carries it; the durable merge keeps the stored
  row (\<open>skipDuplicates\<close>).
\<close>

lemma stale_intervention_replaced:
  assumes "se_interventions s = [old]" and "cp_interventions c = [new]" and "il_id new = il_id old"
  shows "se_interventions (mergeCheckpointIntoSession s c) = [new]"
  using assms
  by (simp add: merge_fields merge_by_key_def keyed_def om_values_def effective_checkpoint_def
      withoutRanking_def)

end
