(* ===== verification/Participation.thy ===== *)
theory Participation
  imports Session_Rows
begin

text \<open>
  session-manager/src/store/participation.ts and participation.store.ts, with the participation
  rows of row-mappers.ts: the journey of a Prolific submission from
  arrival to one terminal outcome, and the compensation queued with it. Both back ends of
  ParticipationStore are modelled, the tables (each transaction one atomic function) and the
  in-memory map. The theorems: an outcome, once recorded, never changes and the stage never goes
  back; every ended participation has exactly one compensation row; a heartbeat beats a stale
  claim; the in-memory store refines the tables up to the time of the last stage; and the one
  write that is not guarded, a completion that was checked before a termination committed, does
  overwrite it.
\<close>

section \<open>Rows\<close>

record arrival_row =
  ar_id :: string
  ar_identity :: prolific_identity
  ar_participantRecordId :: "string option"
  ar_arrivedAt :: int
  ar_stage :: stage
  ar_stageUpdatedAt :: int
  ar_lastSeenAt :: int
  ar_outcome :: "outcome option"
  ar_outcomeReason :: "string option"
  ar_endedAt :: "int option"
  ar_elapsedSeconds :: "int option"
  ar_compensationKind :: "compensation_kind option"
  ar_compensationAmountPence :: "rat option"

record compensation_row =
  cm_arrivalId :: string
  cm_kind :: compensation_kind
  cm_amountPence :: "rat option"
  cm_status :: action_status
  cm_returnRequestedAt :: "int option"
  cm_bonusBatchId :: "string option"
  cm_paymentSubmittedAt :: "int option"
  cm_actionError :: "string option"
  cm_attemptCount :: nat
  cm_nextAttemptAt :: "int option"

datatype participation_event = Stage_Event stage | Terminated_Event outcome string | Completed_Event

record pdb =
  pd_arrivals :: "arrival_row list"
  pd_events :: "(string \<times> participation_event) list"
  pd_compensations :: "compensation_row list"
  pd_nextId :: nat

definition prolificArrivalFromRow :: "arrival_row \<Rightarrow> prolific_arrival" where
  "prolificArrivalFromRow r =
     \<lparr>pa_identity = ar_identity r, pa_arrivedAt = Stamp (ar_arrivedAt r),
      pa_participantRecordId = ar_participantRecordId r, pa_stage = ar_stage r,
      pa_stageUpdatedAt = Stamp (ar_stageUpdatedAt r), pa_lastSeenAt = Stamp (ar_lastSeenAt r),
      pa_outcome = ar_outcome r, pa_outcomeReason = ar_outcomeReason r,
      pa_endedAt = map_option Stamp (ar_endedAt r), pa_elapsedSeconds = ar_elapsedSeconds r,
      pa_compensationKind = ar_compensationKind r,
      pa_compensationAmountPence = ar_compensationAmountPence r, pa_prolificActionStatus = None\<rparr>"

definition participationOutcomeFromRow :: "compensation_row option \<Rightarrow> arrival_row \<Rightarrow> outcome_record" where
  "participationOutcomeFromRow c r =
     \<lparr>or_id = ar_id r,
      or_arrival = (prolificArrivalFromRow r)\<lparr>pa_prolificActionStatus := map_option cm_status c\<rparr>,
      or_returnRequestedAt = map_option Stamp (Option.bind c cm_returnRequestedAt),
      or_bonusBatchId = Option.bind c cm_bonusBatchId,
      or_paymentSubmittedAt = map_option Stamp (Option.bind c cm_paymentSubmittedAt),
      or_actionError = Option.bind c cm_actionError\<rparr>"

section \<open>participation.ts\<close>

record ending =
  tm_outcome :: outcome
  tm_reason :: string
  tm_compensationKind :: compensation_kind
  tm_compensationAmountPence :: "rat option"

definition OUTCOME_REASON_MAX_LENGTH :: nat where "OUTCOME_REASON_MAX_LENGTH = 500"

definition arrivalKey :: "prolific_identity \<Rightarrow> string" where
  "arrivalKey i = pi_studyId i @ '':'' @ pi_sessionId i"

definition elapsedSecondsSince :: "int \<Rightarrow> int \<Rightarrow> int" where
  "elapsedSecondsSince start now = max 0 ((now - start) div 1000)"

definition terminationData :: "int \<Rightarrow> ending \<Rightarrow> arrival_row \<Rightarrow> arrival_row" where
  "terminationData now t r =
     r\<lparr>ar_stage := St_Terminated, ar_stageUpdatedAt := now, ar_lastSeenAt := now,
       ar_outcome := Some (tm_outcome t),
       ar_outcomeReason := Some (take OUTCOME_REASON_MAX_LENGTH (tm_reason t)),
       ar_endedAt := Some now,
       ar_elapsedSeconds := Some (elapsedSecondsSince (ar_arrivedAt r) now),
       ar_compensationKind := Some (tm_compensationKind t),
       ar_compensationAmountPence :=
         keep_undefined (tm_compensationAmountPence t) (ar_compensationAmountPence r)\<rparr>"

definition terminatedEvent :: "ending \<Rightarrow> participation_event" where
  "terminatedEvent t =
     Terminated_Event (tm_outcome t) (take OUTCOME_REASON_MAX_LENGTH (tm_reason t))"

definition pendingCompensation :: "string \<Rightarrow> int \<Rightarrow> ending \<Rightarrow> compensation_row" where
  "pendingCompensation aid now t =
     \<lparr>cm_arrivalId = aid, cm_kind = tm_compensationKind t,
      cm_amountPence = tm_compensationAmountPence t, cm_status = As_Pending,
      cm_returnRequestedAt = None, cm_bonusBatchId = None, cm_paymentSubmittedAt = None,
      cm_actionError = None, cm_attemptCount = 0, cm_nextAttemptAt = Some now\<rparr>"

fun stage_index :: "stage \<Rightarrow> nat" where
  "stage_index St_Arrived = 0"
| "stage_index St_Consent = 1"
| "stage_index St_Entry = 2"
| "stage_index St_Waiting = 3"
| "stage_index St_Chat = 4"
| "stage_index St_Exit = 5"
| "stage_index St_Done = 6"
| "stage_index St_Terminated = 7"

text \<open>\<open>STAGE_ORDER.indexOf\<close> is the position in PARTICIPATION_STAGES.\<close>

lemma stage_index_nth: "PARTICIPATION_STAGES ! stage_index s = s \<and> stage_index s < 8"
  by (cases s) (simp_all add: PARTICIPATION_STAGES_def)

text \<open>\<open>Exclude<ParticipationStage, "done" | "terminated">\<close>\<close>

datatype journey_stage = Js_Arrived | Js_Consent | Js_Entry | Js_Waiting | Js_Chat | Js_Exit

fun stage_of :: "journey_stage \<Rightarrow> stage" where
  "stage_of Js_Arrived = St_Arrived"
| "stage_of Js_Consent = St_Consent"
| "stage_of Js_Entry = St_Entry"
| "stage_of Js_Waiting = St_Waiting"
| "stage_of Js_Chat = St_Chat"
| "stage_of Js_Exit = St_Exit"

section \<open>The tables\<close>

definition key_of :: "prolific_identity \<Rightarrow> string \<times> string" where
  "key_of i = (pi_studyId i, pi_sessionId i)"

definition find_arrival :: "prolific_identity \<Rightarrow> pdb \<Rightarrow> arrival_row option" where
  "find_arrival i d = find (\<lambda>r. key_of (ar_identity r) = key_of i) (pd_arrivals d)"

definition compensation_of :: "string \<Rightarrow> pdb \<Rightarrow> compensation_row option" where
  "compensation_of aid d = find (\<lambda>c. cm_arrivalId c = aid) (pd_compensations d)"

definition update_arrivals :: "(arrival_row \<Rightarrow> bool) \<Rightarrow> (arrival_row \<Rightarrow> arrival_row) \<Rightarrow> pdb \<Rightarrow> pdb" where
  "update_arrivals p f d =
     d\<lparr>pd_arrivals := map (\<lambda>r. if p r then f r else r) (pd_arrivals d)\<rparr>"

definition new_arrival :: "string \<Rightarrow> int \<Rightarrow> prolific_identity \<Rightarrow> arrival_row" where
  "new_arrival aid now i =
     \<lparr>ar_id = aid, ar_identity = i, ar_participantRecordId = None, ar_arrivedAt = now,
      ar_stage = St_Arrived, ar_stageUpdatedAt = now, ar_lastSeenAt = now, ar_outcome = None,
      ar_outcomeReason = None, ar_endedAt = None, ar_elapsedSeconds = None,
      ar_compensationKind = None, ar_compensationAmountPence = None\<rparr>"

text \<open>An upsert with an empty update: the first request of a submission creates its row.\<close>

definition recordProlificArrival :: "(nat \<Rightarrow> string) \<Rightarrow> int \<Rightarrow> prolific_identity \<Rightarrow> pdb \<Rightarrow> pdb" where
  "recordProlificArrival uuid now i d =
     (if find_arrival i d \<noteq> None then d
      else d\<lparr>pd_arrivals := pd_arrivals d @ [new_arrival (uuid (pd_nextId d)) now i],
             pd_nextId := pd_nextId d + 1\<rparr>)"

definition has_key :: "prolific_identity \<Rightarrow> arrival_row \<Rightarrow> bool" where
  "has_key i r = (key_of (ar_identity r) = key_of i)"

text \<open>The transaction of recordParticipationStage.\<close>

definition stage_tx :: "int \<Rightarrow> prolific_identity \<Rightarrow> journey_stage \<Rightarrow> pdb \<Rightarrow> pdb" where
  "stage_tx now i js d =
     (let earlier = (\<lambda>r. has_key i r \<and> ar_outcome r = None \<and>
            ar_stage r \<in> set (take (stage_index (stage_of js)) PARTICIPATION_STAGES))
      in if list_ex earlier (pd_arrivals d) then
           (let d' = update_arrivals earlier
              (\<lambda>r. r\<lparr>ar_stage := stage_of js, ar_stageUpdatedAt := now, ar_lastSeenAt := now\<rparr>) d
            in d'\<lparr>pd_events := pd_events d' @
                 (case find_arrival i d' of None \<Rightarrow> [] | Some r \<Rightarrow> [(ar_id r, Stage_Event (stage_of js))])\<rparr>)
         else update_arrivals (\<lambda>r. has_key i r \<and> ar_outcome r = None)
                (\<lambda>r. r\<lparr>ar_lastSeenAt := now\<rparr>) d)"

definition recordParticipationStage ::
    "(nat \<Rightarrow> string) \<Rightarrow> int \<Rightarrow> prolific_identity \<Rightarrow> journey_stage \<Rightarrow> pdb \<Rightarrow> pdb" where
  "recordParticipationStage uuid now i js d =
     (let d1 = recordProlificArrival uuid now i d in
      case find_arrival i d1 of
        None \<Rightarrow> d1
      | Some r \<Rightarrow> if ar_outcome r \<noteq> None then d1 else stage_tx now i js d1)"

text \<open>\<open>compensation: { upsert: { create, update: {} } }\<close> and the same upsert with an update.\<close>

definition upsert_compensation ::
    "compensation_row \<Rightarrow> (compensation_row \<Rightarrow> compensation_row) \<Rightarrow> pdb \<Rightarrow> pdb" where
  "upsert_compensation c upd d =
     (if compensation_of (cm_arrivalId c) d = None
      then d\<lparr>pd_compensations := pd_compensations d @ [c]\<rparr>
      else d\<lparr>pd_compensations :=
        map (\<lambda>x. if cm_arrivalId x = cm_arrivalId c then upd x else x) (pd_compensations d)\<rparr>)"

definition terminate_row :: "int \<Rightarrow> ending \<Rightarrow> arrival_row \<Rightarrow> pdb \<Rightarrow> pdb" where
  "terminate_row now t current d =
     (let d1 = update_arrivals (\<lambda>r. ar_id r = ar_id current) (terminationData now t) d;
          d2 = d1\<lparr>pd_events := pd_events d1 @ [(ar_id current, terminatedEvent t)]\<rparr>
      in upsert_compensation (pendingCompensation (ar_id current) now t) id d2)"

definition terminate_tx :: "int \<Rightarrow> prolific_identity \<Rightarrow> ending \<Rightarrow> pdb \<Rightarrow> pdb" where
  "terminate_tx now i t d =
     (case find_arrival i d of
        None \<Rightarrow> d
      | Some current \<Rightarrow> if ar_outcome current \<noteq> None then d else terminate_row now t current d)"

definition terminateProlificParticipation ::
    "(nat \<Rightarrow> string) \<Rightarrow> int \<Rightarrow> prolific_identity \<Rightarrow> ending \<Rightarrow> pdb \<Rightarrow> pdb" where
  "terminateProlificParticipation uuid now i t d =
     (let d1 = recordProlificArrival uuid now i d in
      case find_arrival i d1 of
        None \<Rightarrow> d1
      | Some r \<Rightarrow> if ar_outcome r \<noteq> None then d1 else terminate_tx now i t d1)"

text \<open>The stale claim; the second value says whether this call ended the participation.\<close>

definition terminateStaleProlificParticipation ::
    "int \<Rightarrow> int \<Rightarrow> prolific_identity \<Rightarrow> ending \<Rightarrow> pdb \<Rightarrow> pdb \<times> bool" where
  "terminateStaleProlificParticipation now cutoff i t d =
     (case find_arrival i d of
        None \<Rightarrow> (d, False)
      | Some current \<Rightarrow>
          if ar_outcome current = None \<and> ar_lastSeenAt current \<le> cutoff
          then (terminate_row now t current d, True)
          else (d, False))"

text \<open>The check of completeProlificParticipation and its unguarded update.\<close>

definition completion_allowed :: "prolific_identity \<Rightarrow> pdb \<Rightarrow> bool" where
  "completion_allowed i d =
     (case find_arrival i d of None \<Rightarrow> False | Some r \<Rightarrow> ar_outcome r = None)"

definition completion_write :: "int \<Rightarrow> int \<Rightarrow> prolific_identity \<Rightarrow> pdb \<Rightarrow> pdb" where
  "completion_write now elapsed i d =
     (case find_arrival i d of
        None \<Rightarrow> d
      | Some current \<Rightarrow>
          let d1 = update_arrivals (\<lambda>r. ar_id r = ar_id current)
                (\<lambda>r. r\<lparr>ar_stage := St_Done, ar_stageUpdatedAt := now, ar_lastSeenAt := now,
                      ar_outcome := Some Oc_Completed, ar_endedAt := Some now,
                      ar_elapsedSeconds := Some elapsed, ar_compensationKind := Some Ck_Full\<rparr>) d;
              d2 = d1\<lparr>pd_events := pd_events d1 @ [(ar_id current, Completed_Event)]\<rparr>
          in upsert_compensation
               \<lparr>cm_arrivalId = ar_id current, cm_kind = Ck_Full, cm_amountPence = None,
                cm_status = As_Not_Required, cm_returnRequestedAt = None, cm_bonusBatchId = None,
                cm_paymentSubmittedAt = None, cm_actionError = None, cm_attemptCount = 0,
                cm_nextAttemptAt = None\<rparr>
               (\<lambda>c. c\<lparr>cm_kind := Ck_Full, cm_status := As_Not_Required\<rparr>) d2)"

definition completeProlificParticipation ::
    "(nat \<Rightarrow> string) \<Rightarrow> int \<Rightarrow> prolific_identity \<Rightarrow> pdb \<Rightarrow> pdb" where
  "completeProlificParticipation uuid now i d =
     (let d1 = recordProlificArrival uuid now i d in
      case find_arrival i d1 of
        None \<Rightarrow> d1
      | Some arrival \<Rightarrow>
          if \<not> completion_allowed i d1 then d1
          else completion_write now (elapsedSecondsSince (ar_arrivedAt arrival) now) i d1)"

definition linkProlificArrival :: "prolific_identity \<Rightarrow> string \<Rightarrow> pdb \<Rightarrow> pdb" where
  "linkProlificArrival i pid d =
     update_arrivals (has_key i) (\<lambda>r. r\<lparr>ar_participantRecordId := Some pid\<rparr>) d"

section \<open>Queries and Prolific actions\<close>

definition getParticipationOutcome :: "prolific_identity \<Rightarrow> pdb \<Rightarrow> outcome_record option" where
  "getParticipationOutcome i d =
     map_option (\<lambda>r. participationOutcomeFromRow (compensation_of (ar_id r) d) r) (find_arrival i d)"

definition getParticipationOutcomeById :: "string \<Rightarrow> pdb \<Rightarrow> outcome_record option" where
  "getParticipationOutcomeById aid d =
     map_option (\<lambda>r. participationOutcomeFromRow (compensation_of aid d) r)
       (find (\<lambda>r. ar_id r = aid) (pd_arrivals d))"

definition active_stage :: "stage \<Rightarrow> bool" where
  "active_stage s = (s \<in> {St_Arrived, St_Consent, St_Entry, St_Waiting, St_Chat, St_Exit})"

definition listStaleProlificArrivals :: "int \<Rightarrow> nat \<Rightarrow> pdb \<Rightarrow> prolific_arrival list" where
  "listStaleProlificArrivals cutoff limit d =
     map prolificArrivalFromRow (take limit (sort_key ar_lastSeenAt
       (filter (\<lambda>r. ar_outcome r = None \<and> active_stage (ar_stage r) \<and> ar_lastSeenAt r \<le> cutoff)
         (pd_arrivals d))))"

definition listProlificArrivals :: "pdb \<Rightarrow> prolific_arrival list" where
  "listProlificArrivals d = map prolificArrivalFromRow (sort_key ar_arrivedAt (pd_arrivals d))"

definition listParticipationOutcomes :: "pdb \<Rightarrow> outcome_record list" where
  "listParticipationOutcomes d =
     map (\<lambda>r. participationOutcomeFromRow (compensation_of (ar_id r) d) r)
       (sort_key (\<lambda>r. - ar_arrivedAt r) (pd_arrivals d))"

text \<open>
  \<open>None\<close> leaves a column alone; \<open>actionError: null\<close> and \<open>nextAttemptAt: null\<close> clear it, so these
  two are options of options.
\<close>

record action_patch =
  ap_status :: action_status
  ap_returnRequestedAt :: "int option"
  ap_bonusBatchId :: "string option"
  ap_paymentSubmittedAt :: "int option"
  ap_actionError :: "string option option"
  ap_nextAttemptAt :: "int option option"

definition apply_patch :: "action_patch \<Rightarrow> compensation_row \<Rightarrow> compensation_row" where
  "apply_patch p c =
     c\<lparr>cm_status := ap_status p,
       cm_returnRequestedAt := keep_undefined (ap_returnRequestedAt p) (cm_returnRequestedAt c),
       cm_bonusBatchId := keep_undefined (ap_bonusBatchId p) (cm_bonusBatchId c),
       cm_paymentSubmittedAt := keep_undefined (ap_paymentSubmittedAt p) (cm_paymentSubmittedAt c),
       cm_actionError := orelse (ap_actionError p) (cm_actionError c),
       cm_nextAttemptAt := orelse (ap_nextAttemptAt p) (cm_nextAttemptAt c),
       cm_attemptCount := cm_attemptCount c + 1\<rparr>"

text \<open>An update of a row that does not exist throws: \<open>None\<close>.\<close>

definition markProlificAction :: "string \<Rightarrow> action_patch \<Rightarrow> pdb \<Rightarrow> pdb option" where
  "markProlificAction aid p d =
     (if compensation_of aid d = None then None
      else Some (d\<lparr>pd_compensations :=
        map (\<lambda>c. if cm_arrivalId c = aid then apply_patch p c else c) (pd_compensations d)\<rparr>))"

definition action_due :: "int \<Rightarrow> compensation_row \<Rightarrow> bool" where
  "action_due now c =
     (cm_status c \<in> {As_Pending, As_Failed} \<and> cm_attemptCount c < 5 \<and>
      (case cm_nextAttemptAt c of None \<Rightarrow> True | Some t \<Rightarrow> t \<le> now))"

text \<open>\<open>orderBy: { endedAt: "asc" }\<close> puts a row without an end last.\<close>

definition dueProlificActions :: "int \<Rightarrow> nat \<Rightarrow> pdb \<Rightarrow> outcome_record list" where
  "dueProlificActions now limit d =
     map (\<lambda>r. participationOutcomeFromRow (compensation_of (ar_id r) d) r)
       (take limit (sort_key (\<lambda>r. case ar_endedAt r of Some t \<Rightarrow> (0 :: nat, t) | None \<Rightarrow> (1, 0))
         (filter (\<lambda>r. case compensation_of (ar_id r) d of None \<Rightarrow> False | Some c \<Rightarrow> action_due now c)
           (pd_arrivals d))))"

section \<open>Requests\<close>

text \<open>
  The store's operations, each run to its end before the next; \<open>now\<close> is the time of the request.
\<close>

datatype request =
    Rq_Arrive prolific_identity
  | Rq_Stage prolific_identity journey_stage
  | Rq_Terminate prolific_identity ending
  | Rq_Stale int prolific_identity ending
  | Rq_Complete prolific_identity
  | Rq_Link prolific_identity string

fun run_request :: "(nat \<Rightarrow> string) \<Rightarrow> pdb \<Rightarrow> int \<times> request \<Rightarrow> pdb" where
  "run_request uuid d (now, Rq_Arrive i) = recordProlificArrival uuid now i d"
| "run_request uuid d (now, Rq_Stage i js) = recordParticipationStage uuid now i js d"
| "run_request uuid d (now, Rq_Terminate i t) = terminateProlificParticipation uuid now i t d"
| "run_request uuid d (now, Rq_Stale cutoff i t) =
     fst (terminateStaleProlificParticipation now cutoff i t d)"
| "run_request uuid d (now, Rq_Complete i) = completeProlificParticipation uuid now i d"
| "run_request uuid d (now, Rq_Link i pid) = linkProlificArrival i pid d"

text \<open>A request, or the mark a Prolific action leaves on a compensation row.\<close>

definition run_any ::
    "(nat \<Rightarrow> string) \<Rightarrow> pdb \<Rightarrow> (int \<times> request) + (string \<times> action_patch) \<Rightarrow> pdb" where
  "run_any uuid d rq =
     (case rq of Inl r \<Rightarrow> run_request uuid d r
      | Inr (aid, p) \<Rightarrow> orelse (markProlificAction aid p d) d)"

definition arrival_ok :: "arrival_row \<Rightarrow> bool" where
  "arrival_ok r =
     ((ar_outcome r = None) = active_stage (ar_stage r) \<and>
      (ar_outcome r = None \<longrightarrow> ar_compensationAmountPence r = None))"

definition ended_ids :: "pdb \<Rightarrow> string set" where
  "ended_ids d = ar_id ` set (filter (\<lambda>r. ar_outcome r \<noteq> None) (pd_arrivals d))"

definition pdb_wf :: "(nat \<Rightarrow> string) \<Rightarrow> pdb \<Rightarrow> bool" where
  "pdb_wf uuid d =
     (inj uuid \<and> distinct (map (key_of \<circ> ar_identity) (pd_arrivals d)) \<and>
      distinct (map ar_id (pd_arrivals d)) \<and>
      ar_id ` set (pd_arrivals d) \<subseteq> uuid ` {..<pd_nextId d} \<and>
      distinct (map cm_arrivalId (pd_compensations d)) \<and>
      cm_arrivalId ` set (pd_compensations d) = ended_ids d \<and>
      list_all arrival_ok (pd_arrivals d))"

text \<open>The stage only advances; what an outcome fixed stays as it is.\<close>

definition arrival_below :: "arrival_row \<Rightarrow> arrival_row \<Rightarrow> bool" where
  "arrival_below r r' =
     (ar_id r' = ar_id r \<and> ar_identity r' = ar_identity r \<and> ar_arrivedAt r' = ar_arrivedAt r \<and>
      stage_index (ar_stage r) \<le> stage_index (ar_stage r') \<and>
      (ar_outcome r \<noteq> None \<longrightarrow>
         ar_outcome r' = ar_outcome r \<and> ar_outcomeReason r' = ar_outcomeReason r \<and>
         ar_stage r' = ar_stage r \<and> ar_endedAt r' = ar_endedAt r \<and>
         ar_elapsedSeconds r' = ar_elapsedSeconds r \<and>
         ar_compensationKind r' = ar_compensationKind r \<and>
         ar_compensationAmountPence r' = ar_compensationAmountPence r))"

definition arrivals_below :: "pdb \<Rightarrow> pdb \<Rightarrow> bool" where
  "arrivals_below d d' = rows_below arrival_below (pd_arrivals d) (pd_arrivals d')"

lemma arrival_below_refl [simp]: "arrival_below r r"
  by (simp add: arrival_below_def)

lemma arrival_below_trans: "arrival_below a b \<Longrightarrow> arrival_below b c \<Longrightarrow> arrival_below a c"
  unfolding arrival_below_def by (cases "ar_outcome a = None") auto

lemma arrivals_below_refl [simp]: "arrivals_below d d"
  by (simp add: arrivals_below_def rows_below_refl)

lemma arrivals_below_trans: "arrivals_below a b \<Longrightarrow> arrivals_below b c \<Longrightarrow> arrivals_below a c"
  unfolding arrivals_below_def by (rule rows_below_trans) (auto intro: arrival_below_trans)

lemma find_arrival_Some:
  "find_arrival i d = Some r \<Longrightarrow> r \<in> set (pd_arrivals d) \<and> key_of (ar_identity r) = key_of i"
  by (auto simp: find_arrival_def find_Some_iff)

lemma active_index: "active_stage s \<longleftrightarrow> stage_index s \<le> 5"
  by (cases s) (simp_all add: active_stage_def)

lemma active_stage_of [simp]: "active_stage (stage_of js)"
  by (cases js) (simp_all add: active_stage_def)

lemma earlier_stages: "s \<in> set (take (stage_index t) PARTICIPATION_STAGES) \<longleftrightarrow> stage_index s < stage_index t"
  by (cases t; cases s) (simp_all add: PARTICIPATION_STAGES_def numeral_eq_Suc)

lemma update_fields [simp]:
  "pd_arrivals (update_arrivals p f d) = map (\<lambda>r. if p r then f r else r) (pd_arrivals d)"
  "pd_events (update_arrivals p f d) = pd_events d"
  "pd_compensations (update_arrivals p f d) = pd_compensations d"
  "pd_nextId (update_arrivals p f d) = pd_nextId d"
  by (simp_all add: update_arrivals_def)

text \<open>Writes that keep ids and outcomes, and writes that end one participation.\<close>

definition quiet_write :: "(arrival_row \<Rightarrow> bool) \<Rightarrow> (arrival_row \<Rightarrow> arrival_row) \<Rightarrow> bool" where
  "quiet_write p f =
     (\<forall>r. p r \<longrightarrow> ar_id (f r) = ar_id r \<and> ar_identity (f r) = ar_identity r \<and>
        ar_outcome (f r) = ar_outcome r \<and> (arrival_ok r \<longrightarrow> arrival_ok (f r)) \<and> arrival_below r (f r))"

lemma quiet_update:
  assumes "quiet_write p f" and "pdb_wf uuid d"
  shows "pdb_wf uuid (update_arrivals p f d) \<and> arrivals_below d (update_arrivals p f d)"
proof -
  let ?g = "\<lambda>r. if p r then f r else r"
  have g: "ar_id (?g r) = ar_id r" "ar_identity (?g r) = ar_identity r"
    "ar_outcome (?g r) = ar_outcome r" "arrival_ok r \<Longrightarrow> arrival_ok (?g r)"
    "arrival_below r (?g r)" for r
    using assms(1) by (simp_all add: quiet_write_def)
  have "ended_ids (update_arrivals p f d) = ended_ids d"
  proof -
    have "filter (\<lambda>r. ar_outcome r \<noteq> None) (map ?g rs) = map ?g (filter (\<lambda>r. ar_outcome r \<noteq> None) rs)"
      for rs by (simp only: filter_map comp_def g)
    then show ?thesis
      by (simp only: ended_ids_def update_fields set_map image_image g)
  qed
  moreover have "map (key_of \<circ> ar_identity) (map ?g rs) = map (key_of \<circ> ar_identity) rs" for rs
    by (simp only: map_map comp_def g)
  moreover have "map ar_id (map ?g rs) = map ar_id rs" for rs
    by (simp only: map_map comp_def g)
  moreover have "list_all arrival_ok rs \<Longrightarrow> list_all arrival_ok (map ?g rs)" for rs
    using g(4) by (simp only: list_all_iff set_map ball_simps) blast
  moreover have "ar_id ` set (map ?g rs) = ar_id ` set rs" for rs
    by (simp only: set_map image_image g)
  ultimately have "pdb_wf uuid (update_arrivals p f d)"
    using assms(2) by (simp only: pdb_wf_def update_fields simp_thms)
  moreover have "arrivals_below d (update_arrivals p f d)"
    unfolding arrivals_below_def update_fields by (rule rows_below_map) (rule g(5))
  ultimately show ?thesis ..
qed

lemma wf_events [simp]: "pdb_wf uuid (d\<lparr>pd_events := e\<rparr>) = pdb_wf uuid d"
  by (simp add: pdb_wf_def ended_ids_def)

lemma below_events [simp]: "arrivals_below d (e\<lparr>pd_events := x\<rparr>) = arrivals_below d e"
  by (simp add: arrivals_below_def)

text \<open>A write that ends one open participation, with its compensation row.\<close>

lemma rows_other:
  "distinct (map ar_id rs) \<Longrightarrow> r \<in> set rs \<Longrightarrow> x \<in> set rs \<Longrightarrow> ar_id x = ar_id r \<Longrightarrow> x = r"
  by (metis distinct_map inj_onD)

lemma ids_replaced:
  assumes "r \<in> set rs" and "\<not> P r" and "P fr" and "g fr = g r"
  shows "g ` set (filter P (map (\<lambda>x. if x = r then fr else x) rs)) = insert (g r) (g ` set (filter P rs))"
proof -
  have "set (map (\<lambda>x. if x = r then fr else x) rs) = insert fr (set rs - {r})"
    using assms(1) by auto
  then have "set (filter P (map (\<lambda>x. if x = r then fr else x) rs)) = insert fr (set (filter P rs))"
    using assms(2,3) by (auto simp del: set_map)
  then show ?thesis using assms(4) by simp
qed

lemma ending_write:
  assumes "pdb_wf uuid d" and "r \<in> set (pd_arrivals d)" and "ar_outcome r = None"
    and f: "ar_id (f r) = ar_id r" "ar_identity (f r) = ar_identity r" "ar_outcome (f r) \<noteq> None"
      "arrival_ok (f r)" "arrival_below r (f r)"
    and c: "cm_arrivalId c = ar_id r"
  shows "pdb_wf uuid (upsert_compensation c upd
       ((update_arrivals (\<lambda>x. ar_id x = ar_id r) f d)\<lparr>pd_events := e\<rparr>)) \<and>
     arrivals_below d (upsert_compensation c upd
       ((update_arrivals (\<lambda>x. ar_id x = ar_id r) f d)\<lparr>pd_events := e\<rparr>))"
proof -
  let ?g = "\<lambda>x. if ar_id x = ar_id r then f x else x"
  have only: "?g x = (if x = r then f r else x)" if "x \<in> set (pd_arrivals d)" for x
  proof -
    have "distinct (map ar_id (pd_arrivals d))" using assms(1) by (simp add: pdb_wf_def)
    from rows_other [OF this assms(2) that] show ?thesis by metis
  qed
  then have rows: "map ?g (pd_arrivals d) = map (\<lambda>x. if x = r then f r else x) (pd_arrivals d)"
    by (rule map_cong [OF refl])
  have keys: "map (key_of \<circ> ar_identity) (map ?g (pd_arrivals d)) =
      map (key_of \<circ> ar_identity) (pd_arrivals d)" "map ar_id (map ?g (pd_arrivals d)) = map ar_id (pd_arrivals d)"
    unfolding rows by (auto simp: f)
  have ok: "list_all arrival_ok (map ?g (pd_arrivals d))"
    unfolding rows using assms(1) f(4) by (auto simp: pdb_wf_def list_all_iff)
  have below: "rows_below arrival_below (pd_arrivals d) (map ?g (pd_arrivals d))"
    unfolding rows using f(5) by (intro rows_below_map) auto
  have ended: "ar_id ` set (filter (\<lambda>x. ar_outcome x \<noteq> None) (map ?g (pd_arrivals d))) =
      insert (ar_id r) (ended_ids d)"
    unfolding rows ended_ids_def using assms(2,3) f(1,3) by (intro ids_replaced) simp_all
  have fresh: "ar_id r \<notin> cm_arrivalId ` set (pd_compensations d)"
  proof
    assume "ar_id r \<in> cm_arrivalId ` set (pd_compensations d)"
    then have "ar_id r \<in> ended_ids d" using assms(1) by (simp add: pdb_wf_def)
    then obtain x where x: "x \<in> set (pd_arrivals d)" "ar_outcome x \<noteq> None" "ar_id x = ar_id r"
      by (auto simp: ended_ids_def)
    have "distinct (map ar_id (pd_arrivals d))" using assms(1) by (simp add: pdb_wf_def)
    from rows_other [OF this assms(2) x(1,3)] x(2) assms(3) show False by simp
  qed
  have none: "find (\<lambda>x. cm_arrivalId x = ar_id r) (pd_compensations d) = None"
    unfolding find_None_iff using fresh by (metis imageI)
  have fresh': "ar_id r \<notin> set (map cm_arrivalId (pd_compensations d))" using fresh by simp
  have ids: "ar_id ` set (map ?g (pd_arrivals d)) = ar_id ` set (pd_arrivals d)"
    using arg_cong [OF keys(2), of set] by (metis set_map)
  show ?thesis
    using assms(1) keys ok below ended fresh fresh' none ids
    unfolding pdb_wf_def upsert_compensation_def compensation_of_def arrivals_below_def ended_ids_def
    by (simp add: c del: map_map set_map)
qed

lemma terminate_row_good:
  assumes "pdb_wf uuid d" and "r \<in> set (pd_arrivals d)" and "ar_outcome r = None"
  shows "pdb_wf uuid (terminate_row now t r d) \<and> arrivals_below d (terminate_row now t r d)"
proof -
  have "stage_index (ar_stage r) \<le> 7" by (cases "ar_stage r") simp_all
  then show ?thesis unfolding terminate_row_def Let_def
    using assms
    by (intro ending_write)
      (simp_all add: terminationData_def arrival_ok_def active_stage_def arrival_below_def
        pendingCompensation_def)
qed

lemma completion_write_good:
  assumes "pdb_wf uuid d" and "find_arrival i d = Some r" and "ar_outcome r = None"
  shows "pdb_wf uuid (completion_write now el i d) \<and> arrivals_below d (completion_write now el i d)"
proof -
  have r: "r \<in> set (pd_arrivals d)" using find_arrival_Some [OF assms(2)] by simp
  then have "active_stage (ar_stage r)"
    using assms(1,3) by (auto simp: pdb_wf_def list_all_iff arrival_ok_def)
  then have "stage_index (ar_stage r) \<le> 6" by (simp add: active_index)
  then show ?thesis unfolding completion_write_def assms(2) option.case Let_def
    using assms r
    by (intro ending_write)
      (simp_all add: arrival_ok_def active_stage_def arrival_below_def)
qed

lemma record_good:
  assumes "pdb_wf uuid d"
  shows "pdb_wf uuid (recordProlificArrival uuid now i d) \<and> arrivals_below d (recordProlificArrival uuid now i d)"
proof (cases "find_arrival i d")
  case None
  have new: "uuid (pd_nextId d) \<notin> ar_id ` set (pd_arrivals d)"
    using assms by (auto simp: pdb_wf_def inj_eq)
  have key: "key_of i \<notin> (key_of \<circ> ar_identity) ` set (pd_arrivals d)"
    using None by (auto simp: find_arrival_def find_None_iff)
  show ?thesis using assms None new key
    by (auto simp: recordProlificArrival_def pdb_wf_def ended_ids_def new_arrival_def arrival_ok_def
        active_stage_def arrivals_below_def rows_below_append lessThan_Suc)
qed (simp add: recordProlificArrival_def assms)

lemma stage_tx_good:
  assumes "pdb_wf uuid d"
  shows "pdb_wf uuid (stage_tx now i js d) \<and> arrivals_below d (stage_tx now i js d)"
proof -
  have advance: "quiet_write (\<lambda>r. has_key i r \<and> ar_outcome r = None \<and>
       ar_stage r \<in> set (take (stage_index (stage_of js)) PARTICIPATION_STAGES))
     (\<lambda>r. r\<lparr>ar_stage := stage_of js, ar_stageUpdatedAt := now, ar_lastSeenAt := now\<rparr>)"
    by (auto simp: quiet_write_def earlier_stages arrival_ok_def arrival_below_def)
  have beat: "quiet_write (\<lambda>r. has_key i r \<and> ar_outcome r = None) (\<lambda>r. r\<lparr>ar_lastSeenAt := now\<rparr>)"
    by (auto simp: quiet_write_def arrival_ok_def arrival_below_def)
  from quiet_update [OF advance assms] quiet_update [OF beat assms] show ?thesis
    by (simp add: stage_tx_def Let_def)
qed

lemma link_good:
  assumes "pdb_wf uuid d"
  shows "pdb_wf uuid (linkProlificArrival i pid d) \<and> arrivals_below d (linkProlificArrival i pid d)"
  unfolding linkProlificArrival_def
  by (rule quiet_update [OF _ assms]) (auto simp: quiet_write_def arrival_ok_def arrival_below_def)

lemma mark_good:
  assumes "pdb_wf uuid d" and "markProlificAction aid p d = Some d'"
  shows "pdb_wf uuid d' \<and> arrivals_below d d'"
proof -
  let ?f = "\<lambda>c. if cm_arrivalId c = aid then apply_patch p c else c"
  have ids: "map cm_arrivalId (map ?f cs) = map cm_arrivalId cs" for cs
    by (auto simp: apply_patch_def)
  have "cm_arrivalId ` set (map ?f cs) = cm_arrivalId ` set cs" for cs
    using arg_cong [OF ids [of cs], of set] by (metis set_map)
  moreover have "d' = d\<lparr>pd_compensations := map ?f (pd_compensations d)\<rparr>"
    using assms(2) by (simp add: markProlificAction_def split: if_splits)
  ultimately show ?thesis using assms(1) ids
    by (simp add: pdb_wf_def ended_ids_def arrivals_below_def rows_below_refl del: map_map set_map)
qed

lemma run_request_good:
  assumes "pdb_wf uuid d"
  shows "pdb_wf uuid (run_request uuid d (now, rq)) \<and> arrivals_below d (run_request uuid d (now, rq))"
proof (cases rq)
  case (Rq_Stage i js)
  let ?d1 = "recordProlificArrival uuid now i d"
  have d1: "pdb_wf uuid ?d1" "arrivals_below d ?d1" using record_good [OF assms] by auto
  with stage_tx_good [OF d1(1), of now i js] show ?thesis
    by (auto simp: Rq_Stage recordParticipationStage_def Let_def intro: arrivals_below_trans split: option.split)
next
  case (Rq_Terminate i t)
  let ?d1 = "recordProlificArrival uuid now i d"
  have d1: "pdb_wf uuid ?d1" "arrivals_below d ?d1" using record_good [OF assms] by auto
  have "pdb_wf uuid (terminate_row now t r ?d1) \<and> arrivals_below ?d1 (terminate_row now t r ?d1)"
    if "find_arrival i ?d1 = Some r" "ar_outcome r = None" for r
    using that find_arrival_Some [OF that(1)] by (intro terminate_row_good d1) auto
  with d1 show ?thesis
    by (auto simp: Rq_Terminate terminateProlificParticipation_def terminate_tx_def Let_def
        intro: arrivals_below_trans split: option.split)
next
  case (Rq_Stale cutoff i t)
  have "pdb_wf uuid (terminate_row now t r d) \<and> arrivals_below d (terminate_row now t r d)"
    if "find_arrival i d = Some r" "ar_outcome r = None" for r
    using that find_arrival_Some [OF that(1)] by (intro terminate_row_good assms) auto
  with assms show ?thesis
    by (auto simp: Rq_Stale terminateStaleProlificParticipation_def split: option.split)
next
  case (Rq_Complete i)
  let ?d1 = "recordProlificArrival uuid now i d"
  have d1: "pdb_wf uuid ?d1" "arrivals_below d ?d1" using record_good [OF assms] by auto
  have "pdb_wf uuid (completion_write now el i ?d1) \<and> arrivals_below ?d1 (completion_write now el i ?d1)"
    if "find_arrival i ?d1 = Some r" "ar_outcome r = None" for r el
    using that by (intro completion_write_good d1)
  with d1 show ?thesis
    by (auto simp: Rq_Complete completeProlificParticipation_def completion_allowed_def Let_def
        intro: arrivals_below_trans split: option.split)
qed (use record_good [OF assms] link_good [OF assms] in auto)

interpretation participations: monotone_stepper "run_any uuid" "pdb_wf uuid" arrivals_below for uuid
proof
  fix d e
  assume wf: "pdb_wf uuid d"
  have "pdb_wf uuid (run_any uuid d e) \<and> arrivals_below d (run_any uuid d e)"
  proof (cases e)
    case (Inl r)
    then show ?thesis using run_request_good [OF wf] by (cases r) (simp add: run_any_def)
  next
    case (Inr m)
    then show ?thesis using mark_good [OF wf] wf
      by (cases m; cases "markProlificAction (fst m) (snd m) d") (auto simp: run_any_def)
  qed
  then show "pdb_wf uuid (run_any uuid d e)" "arrivals_below d (run_any uuid d e)" by auto
qed (auto intro: arrivals_below_trans)

section \<open>The in-memory store\<close>

record mem_action =
  ma_returnRequestedAt :: "stamp option"
  ma_bonusBatchId :: "string option"
  ma_paymentSubmittedAt :: "stamp option"
  ma_actionError :: "string option"
  ma_nextAttemptAt :: "stamp option"

record mem_store =
  mp_arrivals :: "(string \<times> prolific_arrival) list"
  mp_actions :: "(string \<times> mem_action) list"

definition put_arrival :: "prolific_identity \<Rightarrow> prolific_arrival \<Rightarrow> mem_store \<Rightarrow> mem_store" where
  "put_arrival i a m = m\<lparr>mp_arrivals := om_set (arrivalKey i) a (mp_arrivals m)\<rparr>"

definition mem_arrival :: "prolific_identity \<Rightarrow> mem_store \<Rightarrow> prolific_arrival option" where
  "mem_arrival i m = om_get (mp_arrivals m) (arrivalKey i)"

definition mem_recordProlificArrival :: "int \<Rightarrow> prolific_identity \<Rightarrow> mem_store \<Rightarrow> mem_store" where
  "mem_recordProlificArrival now i m =
     (case mem_arrival i m of
        Some a \<Rightarrow> m
      | None \<Rightarrow> put_arrival i
          \<lparr>pa_identity = i, pa_arrivedAt = Stamp now, pa_participantRecordId = None,
           pa_stage = St_Arrived, pa_stageUpdatedAt = Stamp now, pa_lastSeenAt = Stamp now,
           pa_outcome = None, pa_outcomeReason = None, pa_endedAt = None, pa_elapsedSeconds = None,
           pa_compensationKind = None, pa_compensationAmountPence = None,
           pa_prolificActionStatus = None\<rparr> m)"

definition mem_recordParticipationStage ::
    "int \<Rightarrow> prolific_identity \<Rightarrow> journey_stage \<Rightarrow> mem_store \<Rightarrow> mem_store" where
  "mem_recordParticipationStage now i js m =
     (let m1 = mem_recordProlificArrival now i m in
      case mem_arrival i m1 of
        None \<Rightarrow> m1
      | Some a \<Rightarrow>
          if pa_outcome a \<noteq> None then m1
          else
            let a1 = a\<lparr>pa_lastSeenAt := Stamp now\<rparr> in
            put_arrival i
              (if stage_index (pa_stage a1) \<le> stage_index (stage_of js)
               then a1\<lparr>pa_stage := stage_of js, pa_stageUpdatedAt := Stamp now\<rparr> else a1) m1)"

definition terminateMemoryArrival :: "int \<Rightarrow> ending \<Rightarrow> prolific_arrival \<Rightarrow> prolific_arrival" where
  "terminateMemoryArrival now t a =
     a\<lparr>pa_stage := St_Terminated, pa_stageUpdatedAt := Stamp now, pa_lastSeenAt := Stamp now,
       pa_outcome := Some (tm_outcome t),
       pa_outcomeReason := Some (take OUTCOME_REASON_MAX_LENGTH (tm_reason t)),
       pa_endedAt := Some (Stamp now),
       pa_elapsedSeconds := map_option (\<lambda>t0. elapsedSecondsSince t0 now) (parse_ms (pa_arrivedAt a)),
       pa_compensationKind := Some (tm_compensationKind t),
       pa_compensationAmountPence := tm_compensationAmountPence t,
       pa_prolificActionStatus := Some As_Pending\<rparr>"

definition mem_terminate :: "int \<Rightarrow> prolific_identity \<Rightarrow> ending \<Rightarrow> mem_store \<Rightarrow> mem_store" where
  "mem_terminate now i t m =
     (let m1 = mem_recordProlificArrival now i m in
      case mem_arrival i m1 of
        None \<Rightarrow> m1
      | Some a \<Rightarrow> if pa_outcome a \<noteq> None then m1
                  else put_arrival i (terminateMemoryArrival now t a) m1)"

definition mem_terminateStale ::
    "int \<Rightarrow> int \<Rightarrow> prolific_identity \<Rightarrow> ending \<Rightarrow> mem_store \<Rightarrow> mem_store \<times> bool" where
  "mem_terminateStale now cutoff i t m =
     (case mem_arrival i m of
        None \<Rightarrow> (m, False)
      | Some a \<Rightarrow>
          if pa_outcome a \<noteq> None \<or>
             (case parse_ms (pa_lastSeenAt a) of None \<Rightarrow> False | Some seen \<Rightarrow> cutoff < seen)
          then (m, False)
          else (put_arrival i (terminateMemoryArrival now t a) m, True))"

definition mem_complete :: "int \<Rightarrow> prolific_identity \<Rightarrow> mem_store \<Rightarrow> mem_store" where
  "mem_complete now i m =
     (let m1 = mem_recordProlificArrival now i m in
      case mem_arrival i m1 of
        None \<Rightarrow> m1
      | Some a \<Rightarrow> if pa_outcome a \<noteq> None then m1
          else put_arrival i
            (a\<lparr>pa_stage := St_Done, pa_stageUpdatedAt := Stamp now, pa_lastSeenAt := Stamp now,
               pa_outcome := Some Oc_Completed, pa_endedAt := Some (Stamp now),
               pa_elapsedSeconds :=
                 map_option (\<lambda>t0. elapsedSecondsSince t0 now) (parse_ms (pa_arrivedAt a)),
               pa_compensationKind := Some Ck_Full,
               pa_prolificActionStatus := Some As_Not_Required\<rparr>) m1)"

definition mem_link :: "prolific_identity \<Rightarrow> string \<Rightarrow> mem_store \<Rightarrow> mem_store" where
  "mem_link i pid m =
     (case mem_arrival i m of
        None \<Rightarrow> m
      | Some a \<Rightarrow> put_arrival i (a\<lparr>pa_participantRecordId := Some pid\<rparr>) m)"

definition no_action :: mem_action where
  "no_action =
     \<lparr>ma_returnRequestedAt = None, ma_bonusBatchId = None, ma_paymentSubmittedAt = None,
      ma_actionError = None, ma_nextAttemptAt = None\<rparr>"

text \<open>\<open>{ id, ...arrival, ...this.memoryProlificActions.get(id) }\<close>\<close>

definition mem_outcome :: "mem_store \<Rightarrow> string \<times> prolific_arrival \<Rightarrow> outcome_record" where
  "mem_outcome m e =
     (case e of (aid, a) \<Rightarrow>
        let x = orelse (om_get (mp_actions m) aid) no_action in
        \<lparr>or_id = aid, or_arrival = a, or_returnRequestedAt = ma_returnRequestedAt x,
         or_bonusBatchId = ma_bonusBatchId x, or_paymentSubmittedAt = ma_paymentSubmittedAt x,
         or_actionError = ma_actionError x\<rparr>)"

definition mem_listParticipationOutcomes :: "mem_store \<Rightarrow> outcome_record list" where
  "mem_listParticipationOutcomes m = map (mem_outcome m) (mp_arrivals m)"

definition mem_getParticipationOutcome :: "prolific_identity \<Rightarrow> mem_store \<Rightarrow> outcome_record option" where
  "mem_getParticipationOutcome i m =
     map_option (\<lambda>a. mem_outcome m (arrivalKey i, a)) (mem_arrival i m)"

definition mem_getParticipationOutcomeById :: "string \<Rightarrow> mem_store \<Rightarrow> outcome_record option" where
  "mem_getParticipationOutcomeById aid m =
     find (\<lambda>o'. or_id o' = aid) (mem_listParticipationOutcomes m)"

definition mem_patch :: "action_patch \<Rightarrow> mem_action \<Rightarrow> mem_action" where
  "mem_patch p x =
     x\<lparr>ma_returnRequestedAt :=
          keep_undefined (map_option Stamp (ap_returnRequestedAt p)) (ma_returnRequestedAt x),
       ma_bonusBatchId :=
          (if truthy (ap_bonusBatchId p) then ap_bonusBatchId p else ma_bonusBatchId x),
       ma_paymentSubmittedAt :=
          keep_undefined (map_option Stamp (ap_paymentSubmittedAt p)) (ma_paymentSubmittedAt x),
       ma_actionError := orelse (ap_actionError p) (ma_actionError x),
       ma_nextAttemptAt := orelse (map_option (map_option Stamp) (ap_nextAttemptAt p)) (ma_nextAttemptAt x)\<rparr>"

definition mem_markProlificAction :: "string \<Rightarrow> action_patch \<Rightarrow> mem_store \<Rightarrow> mem_store" where
  "mem_markProlificAction aid p m =
     (case mem_getParticipationOutcomeById aid m of
        None \<Rightarrow> m
      | Some o' \<Rightarrow>
          let m1 = m\<lparr>mp_actions :=
                om_set aid (mem_patch p (orelse (om_get (mp_actions m) aid) no_action)) (mp_actions m)\<rparr>;
              i = pa_identity (or_arrival o')
          in case mem_arrival i m1 of
               None \<Rightarrow> m1
             | Some a \<Rightarrow> put_arrival i (a\<lparr>pa_prolificActionStatus := Some (ap_status p)\<rparr>) m1)"

text \<open>An unparsable \<open>nextAttemptAt\<close> compares as NaN and is never due.\<close>

definition mem_dueProlificActions :: "int \<Rightarrow> nat \<Rightarrow> mem_store \<Rightarrow> outcome_record list" where
  "mem_dueProlificActions now limit m =
     take limit (filter (\<lambda>o'.
       pa_outcome (or_arrival o') \<noteq> None \<and>
       pa_prolificActionStatus (or_arrival o') \<in> {Some As_Pending, Some As_Failed} \<and>
       (case ma_nextAttemptAt (orelse (om_get (mp_actions m) (or_id o')) no_action) of
          None \<Rightarrow> True
        | Some next \<Rightarrow> (case parse_ms next of None \<Rightarrow> False | Some t \<Rightarrow> t \<le> now)))
       (mem_listParticipationOutcomes m))"

text \<open>
  The ISO strings of \<open>lastSeenAt\<close> are written by \<open>toISOString\<close>, so comparing them as text
  compares their times.
\<close>

definition mem_listStaleProlificArrivals :: "int \<Rightarrow> nat \<Rightarrow> mem_store \<Rightarrow> prolific_arrival list" where
  "mem_listStaleProlificArrivals cutoff limit m =
     take limit (sort_key (\<lambda>a. orelse (parse_ms (pa_lastSeenAt a)) 0)
       (filter (\<lambda>a. pa_outcome a = None \<and> active_stage (pa_stage a) \<and>
           (case parse_ms (pa_lastSeenAt a) of None \<Rightarrow> False | Some t \<Rightarrow> t \<le> cutoff))
         (map snd (mp_arrivals m))))"

fun mem_run :: "mem_store \<Rightarrow> int \<times> request \<Rightarrow> mem_store" where
  "mem_run m (now, Rq_Arrive i) = mem_recordProlificArrival now i m"
| "mem_run m (now, Rq_Stage i js) = mem_recordParticipationStage now i js m"
| "mem_run m (now, Rq_Terminate i t) = mem_terminate now i t m"
| "mem_run m (now, Rq_Stale cutoff i t) = fst (mem_terminateStale now cutoff i t m)"
| "mem_run m (now, Rq_Complete i) = mem_complete now i m"
| "mem_run m (now, Rq_Link i pid) = mem_link i pid m"

section \<open>The in-memory store refines the tables\<close>

text \<open>
  The two stores keep the status of the Prolific action in different places, and the in-memory
  store restamps the stage at a heartbeat of the same stage, where the tables do not: the view
  both share leaves these two values out.
\<close>

definition strip :: "prolific_arrival \<Rightarrow> prolific_arrival" where
  "strip a = a\<lparr>pa_stageUpdatedAt := Stamp 0, pa_prolificActionStatus := None\<rparr>"

definition view_mem :: "mem_store \<Rightarrow> (string \<times> prolific_arrival) list" where
  "view_mem m = map (\<lambda>(k, a). (k, strip a)) (mp_arrivals m)"

definition row_view :: "arrival_row \<Rightarrow> string \<times> prolific_arrival" where
  "row_view r = (arrivalKey (ar_identity r), strip (prolificArrivalFromRow r))"

definition view_db :: "pdb \<Rightarrow> (string \<times> prolific_arrival) list" where
  "view_db d = map row_view (pd_arrivals d)"

text \<open>The text key of the in-memory map separates the ids by a colon, which no study id contains.\<close>

definition plain :: "prolific_identity \<Rightarrow> bool" where
  "plain i = (CHR '':'' \<notin> set (pi_studyId i))"

fun request_identity :: "request \<Rightarrow> prolific_identity" where
  "request_identity (Rq_Arrive i) = i"
| "request_identity (Rq_Stage i js) = i"
| "request_identity (Rq_Terminate i t) = i"
| "request_identity (Rq_Stale cutoff i t) = i"
| "request_identity (Rq_Complete i) = i"
| "request_identity (Rq_Link i pid) = i"

definition plain_db :: "pdb \<Rightarrow> bool" where
  "plain_db d = list_all (plain \<circ> ar_identity) (pd_arrivals d)"

lemma arrivalKey_eq: "plain i \<Longrightarrow> plain j \<Longrightarrow> arrivalKey i = arrivalKey j \<longleftrightarrow> key_of i = key_of j"
proof
  assume plain: "plain i" "plain j" and eq: "arrivalKey i = arrivalKey j"
  have "takeWhile (\<lambda>c. c \<noteq> CHR '':'') (arrivalKey k) = pi_studyId k" if "plain k" for k
  proof -
    have "takeWhile (\<lambda>c. c \<noteq> x) (u @ x # w) = u" if "x \<notin> set u" for x :: char and u w
      using that by (induction u) auto
    with that show ?thesis by (simp add: arrivalKey_def plain_def)
  qed
  with plain have "pi_studyId i = pi_studyId j" by (metis eq)
  with eq show "key_of i = key_of j" by (simp add: arrivalKey_def key_of_def)
qed (simp add: arrivalKey_def key_of_def)

lemma view_put: "view_mem (put_arrival i a m) = om_set (arrivalKey i) (strip a) (view_mem m)"
proof -
  have "map (\<lambda>(k, a). (k, strip a)) (om_set k a xs) = om_set k (strip a) (map (\<lambda>(k, a). (k, strip a)) xs)"
    for k xs by (induction xs) auto
  then show ?thesis by (simp add: view_mem_def put_arrival_def)
qed

lemma view_mem_get: "om_get (view_mem m) (arrivalKey i) = map_option strip (mem_arrival i m)"
  by (simp add: view_mem_def mem_arrival_def map_of_map)

lemma view_db_get:
  assumes "plain_db d" and "plain i"
  shows "om_get (view_db d) (arrivalKey i) = map_option (strip \<circ> prolificArrivalFromRow) (find_arrival i d)"
proof -
  have "list_all (plain \<circ> ar_identity) rs \<Longrightarrow> om_get (map row_view rs) (arrivalKey i) =
      map_option (strip \<circ> prolificArrivalFromRow) (find (\<lambda>r. key_of (ar_identity r) = key_of i) rs)" for rs
    using assms(2) by (induction rs) (auto simp: row_view_def arrivalKey_eq)
  with assms(1) show ?thesis by (simp add: view_db_def find_arrival_def plain_db_def)
qed

lemma replace_view:
  "r \<in> set rs \<Longrightarrow> distinct (map fst (map h rs)) \<Longrightarrow> h r = (k, v) \<Longrightarrow>
     map (\<lambda>x. if x = r then (k, v') else h x) rs = om_set k v' (map h rs)"
proof (induction rs)
  case (Cons x rs)
  show ?case
  proof (cases "x = r")
    case True
    then have "r \<notin> set rs" using Cons.prems by (auto simp: image_iff)
    then have "map (\<lambda>x. if x = r then (k, v') else h x) rs = map h rs" by auto
    with True Cons.prems show ?thesis by simp
  next
    case False
    then have "r \<in> set rs" using Cons.prems by simp
    then have "fst (h r) \<in> fst ` h ` set rs" by blast
    with Cons.prems have "fst (h x) \<noteq> k" by auto
    with False Cons \<open>r \<in> set rs\<close> show ?thesis by (cases "h x") auto
  qed
qed simp

lemma view_keys_distinct:
  assumes "pdb_wf uuid d" and "plain_db d"
  shows "distinct (map fst (view_db d))"
proof -
  have "inj_on (arrivalKey \<circ> ar_identity) (set (pd_arrivals d))"
  proof (rule inj_onI)
    fix x y assume "x \<in> set (pd_arrivals d)" "y \<in> set (pd_arrivals d)"
      "(arrivalKey \<circ> ar_identity) x = (arrivalKey \<circ> ar_identity) y"
    moreover from this assms(2) have "key_of (ar_identity x) = key_of (ar_identity y)"
      using arrivalKey_eq by (auto simp: plain_db_def list_all_iff)
    ultimately show "x = y" using assms(1) unfolding pdb_wf_def distinct_map by (simp add: inj_on_def)
  qed
  moreover have "distinct (pd_arrivals d)" using assms(1) by (simp add: pdb_wf_def distinct_map)
  ultimately show ?thesis by (simp add: view_db_def row_view_def distinct_map comp_def)
qed

lemma view_update:
  assumes "pdb_wf uuid d" and "plain_db d" and "find_arrival i d = Some r" and "plain i"
    and "\<And>x. x \<in> set (pd_arrivals d) \<Longrightarrow> p x = (x = r)" and "ar_identity (f r) = ar_identity r"
  shows "view_db (update_arrivals p f d) =
     om_set (arrivalKey i) (strip (prolificArrivalFromRow (f r))) (view_db d)"
proof -
  have r: "r \<in> set (pd_arrivals d)" "key_of (ar_identity r) = key_of i"
    using find_arrival_Some [OF assms(3)] by auto
  with assms(2,4) have key: "arrivalKey (ar_identity r) = arrivalKey i"
    by (simp add: arrivalKey_eq plain_db_def list_all_iff)
  have "view_db (update_arrivals p f d) =
      map (\<lambda>x. if x = r then (arrivalKey i, strip (prolificArrivalFromRow (f r))) else row_view x) (pd_arrivals d)"
    using assms(5,6) key by (auto simp: view_db_def row_view_def)
  also have "\<dots> = om_set (arrivalKey i) (strip (prolificArrivalFromRow (f r))) (map row_view (pd_arrivals d))"
    using r view_keys_distinct [OF assms(1,2)] key
    by (intro replace_view) (simp_all add: view_db_def row_view_def [of r])
  finally show ?thesis by (simp add: view_db_def)
qed

lemma strip_eq:
  "strip a = strip (prolificArrivalFromRow r) \<Longrightarrow>
     pa_identity a = ar_identity r \<and> pa_arrivedAt a = Stamp (ar_arrivedAt r) \<and>
     pa_participantRecordId a = ar_participantRecordId r \<and> pa_stage a = ar_stage r \<and>
     pa_lastSeenAt a = Stamp (ar_lastSeenAt r) \<and> pa_outcome a = ar_outcome r \<and>
     pa_outcomeReason a = ar_outcomeReason r \<and> pa_endedAt a = map_option Stamp (ar_endedAt r) \<and>
     pa_elapsedSeconds a = ar_elapsedSeconds r \<and> pa_compensationKind a = ar_compensationKind r \<and>
     pa_compensationAmountPence a = ar_compensationAmountPence r"
  by (cases a) (simp add: strip_def prolificArrivalFromRow_def)

lemma strip_cong:
  "pa_identity a = pa_identity b \<Longrightarrow> pa_arrivedAt a = pa_arrivedAt b \<Longrightarrow>
   pa_participantRecordId a = pa_participantRecordId b \<Longrightarrow> pa_stage a = pa_stage b \<Longrightarrow>
   pa_lastSeenAt a = pa_lastSeenAt b \<Longrightarrow> pa_outcome a = pa_outcome b \<Longrightarrow>
   pa_outcomeReason a = pa_outcomeReason b \<Longrightarrow> pa_endedAt a = pa_endedAt b \<Longrightarrow>
   pa_elapsedSeconds a = pa_elapsedSeconds b \<Longrightarrow> pa_compensationKind a = pa_compensationKind b \<Longrightarrow>
   pa_compensationAmountPence a = pa_compensationAmountPence b \<Longrightarrow> strip a = strip (b :: prolific_arrival)"
  by (cases a; cases b) (simp add: strip_def)

definition simulates :: "(nat \<Rightarrow> string) \<Rightarrow> mem_store \<Rightarrow> pdb \<Rightarrow> bool" where
  "simulates uuid m d = (pdb_wf uuid d \<and> plain_db d \<and> view_mem m = view_db d)"

lemma sim_lookup:
  assumes "simulates uuid m d" and "plain i"
  shows "map_option strip (mem_arrival i m) = map_option (strip \<circ> prolificArrivalFromRow) (find_arrival i d)"
  using view_mem_get [of m i] view_db_get [of d i] assms by (simp add: simulates_def)

lemma sim_None:
  "simulates uuid m d \<Longrightarrow> plain i \<Longrightarrow> mem_arrival i m = None \<longleftrightarrow> find_arrival i d = None"
  by (metis map_option_is_None sim_lookup)

lemma sim_Some:
  "simulates uuid m d \<Longrightarrow> plain i \<Longrightarrow> find_arrival i d = Some r \<Longrightarrow> mem_arrival i m = Some a \<Longrightarrow>
     strip a = strip (prolificArrivalFromRow r)"
  using sim_lookup [of uuid m d i] by simp

lemma view_db_arrivals: "pd_arrivals d = pd_arrivals e \<Longrightarrow> view_db d = view_db e \<and> plain_db d = plain_db e"
  by (simp add: view_db_def plain_db_def)

lemma sim_record:
  assumes "simulates uuid m d" and "plain i"
  shows "simulates uuid (mem_recordProlificArrival now i m) (recordProlificArrival uuid now i d)"
proof (cases "find_arrival i d")
  case None
  then have mem: "mem_arrival i m = None" using sim_None [OF assms] by simp
  let ?r = "new_arrival (uuid (pd_nextId d)) now i"
  have "om_get (view_db d) (arrivalKey i) = None"
    using view_db_get [OF _ assms(2)] None assms(1) by (simp add: simulates_def)
  then have "arrivalKey i \<notin> set (map fst (view_db d))" by (simp add: map_of_eq_None_iff)
  then have app: "om_set (arrivalKey i) v (view_db d) = view_db d @ [(arrivalKey i, v)]" for v
    by (rule om_set_new)
  have "view_mem (mem_recordProlificArrival now i m) =
      view_db d @ [(arrivalKey i, strip (prolificArrivalFromRow ?r))]"
    using assms(1)
    by (simp add: mem_recordProlificArrival_def mem view_put simulates_def app new_arrival_def
        prolificArrivalFromRow_def)
  moreover have "view_db (recordProlificArrival uuid now i d) =
      view_db d @ [(arrivalKey i, strip (prolificArrivalFromRow ?r))]"
    using None by (simp add: recordProlificArrival_def view_db_def row_view_def) (simp add: new_arrival_def)
  moreover have "plain_db (recordProlificArrival uuid now i d)"
    using assms None by (simp add: recordProlificArrival_def plain_db_def simulates_def new_arrival_def)
  ultimately show ?thesis using record_good [of uuid d now i] assms(1) by (simp add: simulates_def)
next
  case (Some r)
  then have "mem_arrival i m \<noteq> None" using sim_None [OF assms] by simp
  then obtain a where "mem_arrival i m = Some a" by blast
  with Some assms(1) show ?thesis
    by (simp add: recordProlificArrival_def mem_recordProlificArrival_def)
qed

text \<open>One row rewritten on both sides.\<close>

lemma sim_put:
  assumes sim: "simulates uuid m d" and "plain i" and r: "find_arrival i d = Some r"
    and p: "\<And>x. x \<in> set (pd_arrivals d) \<Longrightarrow> p x = (x = r)" and "ar_identity (f r) = ar_identity r"
    and wf: "pdb_wf uuid d'" and d': "pd_arrivals d' = pd_arrivals (update_arrivals p f d)"
    and a: "strip a = strip (prolificArrivalFromRow (f r))"
  shows "simulates uuid (put_arrival i a m) d'"
proof -
  have "plain_db (update_arrivals p f d)"
    using sim p assms(5) by (auto simp: simulates_def plain_db_def list_all_iff)
  moreover have "view_db (update_arrivals p f d) = view_mem (put_arrival i a m)"
    using sim view_update [where f = f and p = p and uuid = uuid, OF _ _ r assms(2) p assms(5)] by (simp add: simulates_def view_put a)
  ultimately show ?thesis using wf view_db_arrivals [OF d'] by (simp add: simulates_def)
qed

lemma only_row:
  assumes "pdb_wf uuid d" and "find_arrival i d = Some r" and "x \<in> set (pd_arrivals d)"
  shows "ar_id x = ar_id r \<longleftrightarrow> x = r" "has_key i x \<longleftrightarrow> x = r"
proof -
  have r: "r \<in> set (pd_arrivals d)" "key_of (ar_identity r) = key_of i"
    using find_arrival_Some [OF assms(2)] by auto
  show "ar_id x = ar_id r \<longleftrightarrow> x = r"
    using rows_other [OF _ r(1) assms(3)] assms(1) by (auto simp: pdb_wf_def)
  have "inj_on (key_of \<circ> ar_identity) (set (pd_arrivals d))"
    using assms(1) by (simp add: pdb_wf_def distinct_map)
  with r assms(3) show "has_key i x \<longleftrightarrow> x = r" by (auto simp: has_key_def inj_on_def)
qed

lemma upsert_arrivals [simp]: "pd_arrivals (upsert_compensation c u d) = pd_arrivals d"
  by (simp add: upsert_compensation_def)

lemma sim_terminate_row:
  assumes sim: "simulates uuid m d" and "plain i" and r: "find_arrival i d = Some r"
    and "ar_outcome r = None" and "mem_arrival i m = Some a"
  shows "simulates uuid (put_arrival i (terminateMemoryArrival now t a) m) (terminate_row now t r d)"
proof -
  have in_d: "r \<in> set (pd_arrivals d)" using find_arrival_Some [OF r] by simp
  have wf: "pdb_wf uuid d" using sim by (simp add: simulates_def)
  have "ar_compensationAmountPence r = None"
    using wf in_d assms(4) by (auto simp: pdb_wf_def list_all_iff arrival_ok_def)
  with strip_eq [OF sim_Some [OF sim assms(2) r assms(5)]]
  have a: "strip (terminateMemoryArrival now t a) = strip (prolificArrivalFromRow (terminationData now t r))"
    by (intro strip_cong)
      (simp_all add: terminateMemoryArrival_def terminationData_def prolificArrivalFromRow_def
        keep_undefined_def)
  show ?thesis
    by (rule sim_put [where p = "\<lambda>x. ar_id x = ar_id r" and f = "terminationData now t",
          OF sim assms(2) r _ _ _ _ a])
      (use only_row [OF wf r] terminate_row_good [OF wf in_d assms(4)] in
        \<open>simp_all add: terminationData_def terminate_row_def Let_def\<close>)
qed

lemma sim_found:
  assumes "simulates uuid m d" and "plain i" and "find_arrival i d = Some r"
  obtains a where "mem_arrival i m = Some a" "strip a = strip (prolificArrivalFromRow r)"
    "pa_outcome a = ar_outcome r"
proof -
  from sim_None [OF assms(1,2)] assms(3) obtain a where a: "mem_arrival i m = Some a" by auto
  have "strip a = strip (prolificArrivalFromRow r)" by (rule sim_Some [OF assms a])
  with a strip_eq that show ?thesis by blast
qed

lemma sim_terminate:
  assumes "simulates uuid m d" and "plain i"
  shows "simulates uuid (mem_terminate now i t m) (terminateProlificParticipation uuid now i t d)"
proof -
  let ?d1 = "recordProlificArrival uuid now i d" and ?m1 = "mem_recordProlificArrival now i m"
  have sim: "simulates uuid ?m1 ?d1" by (rule sim_record [OF assms])
  show ?thesis
  proof (cases "find_arrival i ?d1")
    case None
    with sim sim_None [OF sim assms(2)] show ?thesis
      by (simp add: mem_terminate_def terminateProlificParticipation_def Let_def)
  next
    case (Some r)
    from sim_found [OF sim assms(2) Some] obtain a
      where a: "mem_arrival i ?m1 = Some a" "pa_outcome a = ar_outcome r" by metis
    show ?thesis
    proof (cases "ar_outcome r")
      case None
      with sim_terminate_row [OF sim assms(2) Some None a(1)] Some a show ?thesis
        by (simp add: mem_terminate_def terminateProlificParticipation_def terminate_tx_def Let_def)
    qed (use sim Some a in \<open>simp add: mem_terminate_def terminateProlificParticipation_def Let_def\<close>)
  qed
qed

lemma sim_stale:
  assumes "simulates uuid m d" and "plain i"
  shows "simulates uuid (fst (mem_terminateStale now cutoff i t m))
      (fst (terminateStaleProlificParticipation now cutoff i t d)) \<and>
    snd (mem_terminateStale now cutoff i t m) = snd (terminateStaleProlificParticipation now cutoff i t d)"
proof (cases "find_arrival i d")
  case None
  with assms sim_None [OF assms] show ?thesis
    by (simp add: mem_terminateStale_def terminateStaleProlificParticipation_def)
next
  case (Some r)
  from sim_found [OF assms Some] obtain a
    where a: "mem_arrival i m = Some a" "strip a = strip (prolificArrivalFromRow r)"
      "pa_outcome a = ar_outcome r" by metis
  have seen: "pa_lastSeenAt a = Stamp (ar_lastSeenAt r)" using strip_eq [OF a(2)] by simp
  show ?thesis
  proof (cases "ar_outcome r = None \<and> ar_lastSeenAt r \<le> cutoff")
    case True
    with sim_terminate_row [OF assms Some _ a(1)] Some a seen show ?thesis
      by (simp add: mem_terminateStale_def terminateStaleProlificParticipation_def)
  next
    case False
    with assms(1) Some a seen show ?thesis
      by (auto simp: mem_terminateStale_def terminateStaleProlificParticipation_def)
  qed
qed

lemma stage_tx_rows:
  assumes "pdb_wf uuid d" and "find_arrival i d = Some r" and "ar_outcome r = None"
  shows "pd_arrivals (stage_tx now i js d) = pd_arrivals (update_arrivals (\<lambda>x. ar_id x = ar_id r)
    (\<lambda>x. if stage_index (ar_stage r) < stage_index (stage_of js)
         then x\<lparr>ar_stage := stage_of js, ar_stageUpdatedAt := now, ar_lastSeenAt := now\<rparr>
         else x\<lparr>ar_lastSeenAt := now\<rparr>) d)"
proof -
  note only = only_row [OF assms(1,2)]
  have r: "r \<in> set (pd_arrivals d)" using find_arrival_Some [OF assms(2)] by simp
  have ex: "list_ex (\<lambda>x. has_key i x \<and> ar_outcome x = None \<and>
        ar_stage x \<in> set (take (stage_index (stage_of js)) PARTICIPATION_STAGES)) (pd_arrivals d) \<longleftrightarrow>
      stage_index (ar_stage r) < stage_index (stage_of js)"
    using r only assms(3) by (auto simp: list_ex_iff earlier_stages)
  show ?thesis
    unfolding stage_tx_def Let_def ex using only assms(3)
    by (auto simp: earlier_stages)
qed

lemma sim_stage:
  assumes "simulates uuid m d" and "plain i"
  shows "simulates uuid (mem_recordParticipationStage now i js m) (recordParticipationStage uuid now i js d)"
proof -
  let ?d1 = "recordProlificArrival uuid now i d" and ?m1 = "mem_recordProlificArrival now i m"
  have sim: "simulates uuid ?m1 ?d1" by (rule sim_record [OF assms])
  then have wf: "pdb_wf uuid ?d1" by (simp add: simulates_def)
  show ?thesis
  proof (cases "find_arrival i ?d1")
    case None
    with sim sim_None [OF sim assms(2)] show ?thesis
      by (simp add: mem_recordParticipationStage_def recordParticipationStage_def Let_def)
  next
    case (Some r)
    from sim_found [OF sim assms(2) Some] obtain a
      where a: "mem_arrival i ?m1 = Some a" "strip a = strip (prolificArrivalFromRow r)"
        "pa_outcome a = ar_outcome r" by metis
    show ?thesis
    proof (cases "ar_outcome r")
      case None
      let ?adv = "stage_index (ar_stage r) < stage_index (stage_of js)"
      let ?f = "\<lambda>x. if ?adv then x\<lparr>ar_stage := stage_of js, ar_stageUpdatedAt := now, ar_lastSeenAt := now\<rparr>
         else x\<lparr>ar_lastSeenAt := now\<rparr>"
      let ?a1 = "a\<lparr>pa_lastSeenAt := Stamp now\<rparr>"
      let ?a2 = "if stage_index (pa_stage ?a1) \<le> stage_index (stage_of js)
               then ?a1\<lparr>pa_stage := stage_of js, pa_stageUpdatedAt := Stamp now\<rparr> else ?a1"
      have "stage_index s = stage_index t \<Longrightarrow> s = t" for s t by (cases s; cases t) simp_all
      then have "strip ?a2 = strip (prolificArrivalFromRow (?f r))"
        using strip_eq [OF a(2)]
        by (intro strip_cong) (auto simp: prolificArrivalFromRow_def not_less le_less)
      then have "simulates uuid (put_arrival i ?a2 ?m1) (stage_tx now i js ?d1)"
        using stage_tx_good [OF wf] only_row [OF wf Some] stage_tx_rows [OF wf Some None]
        by (intro sim_put [where p = "\<lambda>x. ar_id x = ar_id r" and f = ?f, OF sim assms(2) Some]) simp_all
      then show ?thesis
        using Some None a(1,3)
        by (simp add: mem_recordParticipationStage_def recordParticipationStage_def Let_def)
    qed (use sim Some a in \<open>simp add: mem_recordParticipationStage_def recordParticipationStage_def Let_def\<close>)
  qed
qed

lemma sim_complete:
  assumes "simulates uuid m d" and "plain i"
  shows "simulates uuid (mem_complete now i m) (completeProlificParticipation uuid now i d)"
proof -
  let ?d1 = "recordProlificArrival uuid now i d" and ?m1 = "mem_recordProlificArrival now i m"
  have sim: "simulates uuid ?m1 ?d1" by (rule sim_record [OF assms])
  then have wf: "pdb_wf uuid ?d1" by (simp add: simulates_def)
  show ?thesis
  proof (cases "find_arrival i ?d1")
    case None
    with sim sim_None [OF sim assms(2)] show ?thesis
      by (simp add: mem_complete_def completeProlificParticipation_def Let_def)
  next
    case (Some r)
    from sim_found [OF sim assms(2) Some] obtain a
      where a: "mem_arrival i ?m1 = Some a" "strip a = strip (prolificArrivalFromRow r)"
        "pa_outcome a = ar_outcome r" by metis
    show ?thesis
    proof (cases "ar_outcome r")
      case None
      let ?el = "elapsedSecondsSince (ar_arrivedAt r) now"
      let ?f = "\<lambda>r. r\<lparr>ar_stage := St_Done, ar_stageUpdatedAt := now, ar_lastSeenAt := now,
        ar_outcome := Some Oc_Completed, ar_endedAt := Some now, ar_elapsedSeconds := Some ?el,
        ar_compensationKind := Some Ck_Full\<rparr>"
      let ?a2 = "a\<lparr>pa_stage := St_Done, pa_stageUpdatedAt := Stamp now, pa_lastSeenAt := Stamp now,
        pa_outcome := Some Oc_Completed, pa_endedAt := Some (Stamp now),
        pa_elapsedSeconds := map_option (\<lambda>t0. elapsedSecondsSince t0 now) (parse_ms (pa_arrivedAt a)),
        pa_compensationKind := Some Ck_Full, pa_prolificActionStatus := Some As_Not_Required\<rparr>"
      have "strip ?a2 = strip (prolificArrivalFromRow (?f r))"
        using strip_eq [OF a(2)] by (intro strip_cong) (simp_all add: prolificArrivalFromRow_def)
      moreover have "pd_arrivals (completion_write now ?el i ?d1) =
          pd_arrivals (update_arrivals (\<lambda>x. ar_id x = ar_id r) ?f ?d1)"
        by (simp add: completion_write_def Some Let_def)
      ultimately have "simulates uuid (put_arrival i ?a2 ?m1) (completion_write now ?el i ?d1)"
        using completion_write_good [OF wf Some None] only_row [OF wf Some]
        by (intro sim_put [where p = "\<lambda>x. ar_id x = ar_id r" and f = ?f, OF sim assms(2) Some]) simp_all
      then show ?thesis using Some None a(1,3)
        by (simp add: mem_complete_def completeProlificParticipation_def completion_allowed_def Let_def)
    qed (use sim Some a in \<open>simp add: mem_complete_def completeProlificParticipation_def
        completion_allowed_def Let_def\<close>)
  qed
qed

lemma sim_link:
  assumes "simulates uuid m d" and "plain i"
  shows "simulates uuid (mem_link i pid m) (linkProlificArrival i pid d)"
proof (cases "find_arrival i d")
  case None
  then have "has_key i x = False" if "x \<in> set (pd_arrivals d)" for x
    using that by (auto simp: find_arrival_def find_None_iff has_key_def)
  then have "map (\<lambda>x. if has_key i x then x\<lparr>ar_participantRecordId := Some pid\<rparr> else x) (pd_arrivals d) =
      pd_arrivals d" by (intro map_idI) simp
  then have "linkProlificArrival i pid d = d"
    by (simp add: linkProlificArrival_def update_arrivals_def)
  with None assms sim_None [OF assms] show ?thesis by (simp add: mem_link_def)
next
  case (Some r)
  have wf: "pdb_wf uuid d" using assms(1) by (simp add: simulates_def)
  from sim_found [OF assms Some] obtain a
    where a: "mem_arrival i m = Some a" "strip a = strip (prolificArrivalFromRow r)" by metis
  have "strip (a\<lparr>pa_participantRecordId := Some pid\<rparr>) =
      strip (prolificArrivalFromRow (r\<lparr>ar_participantRecordId := Some pid\<rparr>))"
    using strip_eq [OF a(2)] by (intro strip_cong) (simp_all add: prolificArrivalFromRow_def)
  then have "simulates uuid (put_arrival i (a\<lparr>pa_participantRecordId := Some pid\<rparr>) m)
      (linkProlificArrival i pid d)"
    using link_good [OF wf] only_row [OF wf Some]
    by (intro sim_put [where p = "has_key i" and f = "\<lambda>r. r\<lparr>ar_participantRecordId := Some pid\<rparr>",
          OF assms Some]) (simp_all add: linkProlificArrival_def)
  with a(1) show ?thesis by (simp add: mem_link_def)
qed

lemma sim_step:
  "simulates uuid m d \<Longrightarrow> plain (request_identity rq) \<Longrightarrow>
     simulates uuid (mem_run m (now, rq)) (run_request uuid d (now, rq))"
  by (cases rq) (simp_all add: sim_record sim_stage sim_terminate sim_stale sim_complete sim_link)

lemma sim_run:
  "simulates uuid m d \<Longrightarrow> list_all (plain \<circ> request_identity \<circ> snd) rqs \<Longrightarrow>
     simulates uuid (foldl mem_run m rqs) (foldl (run_request uuid) d rqs)"
  by (induction rqs arbitrary: m d) (auto simp: sim_step)

lemma compensation_upserted:
  assumes "cm_arrivalId c = aid" and "\<And>x. cm_arrivalId (upd x) = cm_arrivalId x"
  shows "compensation_of aid (upsert_compensation c upd d) =
    Some (case compensation_of aid d of None \<Rightarrow> c | Some x \<Rightarrow> upd x)"
  using assms
  by (auto simp: compensation_of_def upsert_compensation_def find_snoc find_map_update split: option.split)

section \<open>Examples\<close>

definition empty_pdb :: pdb where
  "empty_pdb = \<lparr>pd_arrivals = [], pd_events = [], pd_compensations = [], pd_nextId = 0\<rparr>"

definition empty_mem :: mem_store where
  "empty_mem = \<lparr>mp_arrivals = [], mp_actions = []\<rparr>"

definition unary_id :: "nat \<Rightarrow> string" where
  "unary_id n = replicate n CHR ''a''"

definition sample_identity :: prolific_identity where
  "sample_identity = \<lparr>pi_participantId = ''pid'', pi_studyId = ''study'', pi_sessionId = ''sub''\<rparr>"

definition sample_ending :: ending where
  "sample_ending = \<lparr>tm_outcome = Oc_Connection_Timeout, tm_reason = ''gone'',
     tm_compensationKind = Ck_Partial, tm_compensationAmountPence = Some 50\<rparr>"

lemma unary_id_inj: "inj unary_id"
  by (simp add: inj_def unary_id_def)

lemma empty_pdb_wf: "inj uuid \<Longrightarrow> pdb_wf uuid empty_pdb"
  by (simp add: pdb_wf_def empty_pdb_def ended_ids_def)

lemma empty_simulates: "inj uuid \<Longrightarrow> simulates uuid empty_mem empty_pdb"
  by (simp add: simulates_def empty_pdb_wf, simp add: empty_pdb_def empty_mem_def plain_db_def view_mem_def view_db_def)

section \<open>Properties\<close>





text \<open>
  A heartbeat that lands after the scan for stale submissions and before the claim wins: the
  claim then changes nothing and reports that it ended nobody.
\<close>

theorem heartbeat_beats_stale_claim:
  assumes "pdb_wf uuid d" and "cutoff < now"
  shows "terminateStaleProlificParticipation later cutoff i t (recordParticipationStage uuid now i js d) =
    (recordParticipationStage uuid now i js d, False)"
proof -
  let ?d1 = "recordProlificArrival uuid now i d"
  have wf: "pdb_wf uuid ?d1" using record_good [OF assms(1)] by simp
  have beat: "ar_lastSeenAt x = now"
    if h: "find_arrival i ?d1 = Some r" "ar_outcome r = None"
      "find_arrival i (stage_tx now i js ?d1) = Some x" for r x
  proof -
    have x: "x \<in> set (pd_arrivals (stage_tx now i js ?d1))" "has_key i x"
      using find_arrival_Some [OF h(3)] by (auto simp: has_key_def)
    then obtain y where y: "y \<in> set (pd_arrivals ?d1)" "ar_id x = ar_id y \<and> has_key i y"
      "ar_id y = ar_id r \<longrightarrow> ar_lastSeenAt x = now"
      by (auto simp: stage_tx_rows [OF wf h(1,2)] has_key_def split: if_splits)
    with only_row [OF wf h(1) y(1)] show ?thesis by blast
  qed
  show ?thesis
  proof (cases "find_arrival i ?d1")
    case None
    then show ?thesis
      by (simp add: recordParticipationStage_def Let_def terminateStaleProlificParticipation_def)
  next
    case (Some r)
    then show ?thesis using beat [OF Some] assms(2)
      by (auto simp: recordParticipationStage_def Let_def terminateStaleProlificParticipation_def
          split: option.split)
  qed
qed

theorem heartbeat_beats_stale_claim_witness:
  "terminateStaleProlificParticipation 30 15 sample_identity sample_ending
       (recordParticipationStage unary_id 20 sample_identity Js_Chat
         (recordProlificArrival unary_id 1 sample_identity empty_pdb)) =
     (recordParticipationStage unary_id 20 sample_identity Js_Chat
         (recordProlificArrival unary_id 1 sample_identity empty_pdb), False)"
  by (rule heartbeat_beats_stale_claim) (use record_good [OF empty_pdb_wf [OF unary_id_inj]] in auto)

text \<open>
  The write that completes a participation does not look at the outcome again: it makes any
  submission a completed one that needs no Prolific action, also one whose termination committed
  between the check of completeProlificParticipation and its write.
\<close>

theorem late_completion_overwrites:
  assumes "find_arrival i d = Some r"
  shows "map_option (\<lambda>o'. (pa_outcome (or_arrival o'), pa_prolificActionStatus (or_arrival o')))
      (getParticipationOutcome i (completion_write now el i d)) =
    Some (Some Oc_Completed, Some As_Not_Required)"
proof -
  let ?f = "\<lambda>r. r\<lparr>ar_stage := St_Done, ar_stageUpdatedAt := now, ar_lastSeenAt := now,
    ar_outcome := Some Oc_Completed, ar_endedAt := Some now, ar_elapsedSeconds := Some el,
    ar_compensationKind := Some Ck_Full\<rparr>"
  have found: "find (\<lambda>x. key_of (ar_identity x) = key_of i)
      (map (\<lambda>x. if ar_id x = ar_id r then ?f x else x) rs) = Some (?f r)"
    if "find (\<lambda>x. key_of (ar_identity x) = key_of i) rs = Some r" for rs
    using that by (induction rs) (auto split: if_splits)
  have "find_arrival i (completion_write now el i d) = Some (?f r)"
    using found assms by (simp add: find_arrival_def completion_write_def Let_def)
  moreover have "map_option cm_status (compensation_of (ar_id r) (completion_write now el i d)) =
      Some As_Not_Required"
    unfolding completion_write_def assms option.case Let_def
    by (subst compensation_upserted) (simp_all split: option.split)
  ultimately show ?thesis
    by (auto simp: getParticipationOutcome_def participationOutcomeFromRow_def prolificArrivalFromRow_def)
qed

theorem late_completion_overwrites_witness:
  "let d = terminateProlificParticipation unary_id 5 sample_identity sample_ending empty_pdb in
   map_option (\<lambda>o'. pa_outcome (or_arrival o')) (getParticipationOutcome sample_identity d) =
     Some (Some Oc_Connection_Timeout) \<and>
   map_option (\<lambda>o'. (pa_outcome (or_arrival o'), pa_prolificActionStatus (or_arrival o')))
     (getParticipationOutcome sample_identity (completion_write 6 0 sample_identity d)) =
   Some (Some Oc_Completed, Some As_Not_Required)"
proof -
  let ?d = "terminateProlificParticipation unary_id 5 sample_identity sample_ending empty_pdb"
  have "map_option ar_outcome (find_arrival sample_identity ?d) = Some (Some Oc_Connection_Timeout)"
    by (simp add: terminateProlificParticipation_def recordProlificArrival_def find_arrival_def
        empty_pdb_def new_arrival_def terminate_tx_def terminate_row_def Let_def terminationData_def
        upsert_compensation_def compensation_of_def sample_ending_def update_arrivals_def)
  then obtain r where r: "find_arrival sample_identity ?d = Some r"
    "ar_outcome r = Some Oc_Connection_Timeout" by auto
  from late_completion_overwrites [OF r(1)] r show ?thesis
    by (simp add: Let_def getParticipationOutcome_def participationOutcomeFromRow_def prolificArrivalFromRow_def)
qed

end
