(* ===== verification/Prolific_Actions.thy ===== *)
theory Prolific_Actions
  imports Participation
begin

text \<open>
  session-manager/src/prolific/prolific-actions.service.ts: the return requests and bonus payments
  the Session Manager makes at Prolific, over the compensation rows of Participation. An action
  runs on the tables, a log of the calls made and the answers still to come; a missing answer is
  a call that never returns, after which nothing of the action runs. The theorems: however
  actions follow each other, and wherever one stops, a submission is paid at most once; and two
  payments of one submission that both passed their checks before either wrote its guard pay it
  twice.
\<close>

section \<open>Calls, answers, errors\<close>

text \<open>
  The first argument is the id of the outcome the call is made for, which only the proofs read:
  \<open>request-return\<close> for a submission with a reason, a bonus of a study from a line of CSV, the
  payment of a batch.
\<close>

datatype api_call =
    Call_Return string string string
  | Call_Prepare string string string
  | Call_Pay string string

text \<open>An answer with status 2xx and the id of its body, one with another status, or an error.\<close>

datatype reply = Reply_Ok "string option" | Reply_Status nat | Reply_Threw string

datatype action_error =
    Not_Found | Conflict string | Unavailable | Action_Failed string | Payment_Uncertain | Crash

record world =
  wd_db :: pdb
  wd_calls :: "api_call list"
  wd_replies :: "reply list"

text \<open>An awaited action: its error or value, and the world it leaves.\<close>

type_synonym 'a action = "world \<Rightarrow> (action_error + 'a) \<times> world"

definition bind_action :: "'a action \<Rightarrow> ('a \<Rightarrow> 'b action) \<Rightarrow> 'b action" where
  "bind_action m f w = (case m w of (Inl e, w') \<Rightarrow> (Inl e, w') | (Inr x, w') \<Rightarrow> f x w')"

definition return_action :: "'a \<Rightarrow> 'a action" where
  "return_action x w = (Inr x, w)"

definition throw_action :: "action_error \<Rightarrow> 'a action" where
  "throw_action e w = (Inl e, w)"

text \<open>The time of the action and whether PROLIFIC_API_TOKEN is set.\<close>

record setting =
  st_now :: int
  st_token :: bool

definition prolificFetch :: "setting \<Rightarrow> api_call \<Rightarrow> reply action" where
  "prolificFetch cfg c w =
     (if \<not> st_token cfg then (Inl Unavailable, w)
      else
        let w' = w\<lparr>wd_calls := wd_calls w @ [c], wd_replies := drop 1 (wd_replies w)\<rparr> in
        case wd_replies w of
          [] \<Rightarrow> (Inl Crash, w')
        | Reply_Threw msg # rest \<Rightarrow> (Inl (Action_Failed msg), w')
        | r # rest \<Rightarrow> (Inr r, w'))"

definition mark :: "string \<Rightarrow> action_patch \<Rightarrow> unit action" where
  "mark aid p w =
     (case markProlificAction aid p (wd_db w) of
        None \<Rightarrow> (Inl (Action_Failed ''record not found''), w)
      | Some d \<Rightarrow> (Inr (), w\<lparr>wd_db := d\<rparr>))"

definition read_outcome :: "string \<Rightarrow> outcome_record option action" where
  "read_outcome aid w = (Inr (getParticipationOutcomeById aid (wd_db w)), w)"

section \<open>The actions\<close>

abbreviation out_of :: "outcome_record \<Rightarrow> outcome option" where
  "out_of o' \<equiv> pa_outcome (or_arrival o')"

abbreviation status_of :: "outcome_record \<Rightarrow> action_status option" where
  "status_of o' \<equiv> pa_prolificActionStatus (or_arrival o')"

definition requireOutcome :: "string \<Rightarrow> outcome_record action" where
  "requireOutcome aid =
     bind_action (read_outcome aid) (\<lambda>found.
       case found of
         None \<Rightarrow> throw_action Not_Found
       | Some o' \<Rightarrow>
           if out_of o' = None \<or> out_of o' = Some Oc_Completed
           then throw_action (Conflict ''No actionable terminal outcome'')
           else return_action o')"

definition returnReason :: "outcome_record \<Rightarrow> string" where
  "returnReason o' =
     (case out_of o' of
        Some Oc_Declined_Consent \<Rightarrow> ''Withdrew consent.''
      | Some Oc_Voluntary_Withdrawal \<Rightarrow> ''Did not finish study.''
      | Some Oc_Connection_Timeout \<Rightarrow>
          ''Connection was lost for longer than the allowed reconnect window.''
      | Some Oc_Unmatched \<Rightarrow> ''Could not be matched with the required live group.''
      | Some Oc_Technical_Failure \<Rightarrow> ''Encountered technical problems.''
      | Some Oc_Group_Aborted \<Rightarrow> ''Encountered technical problems.''
      | _ \<Rightarrow> (if truthy (pa_outcomeReason (or_arrival o')) then the (pa_outcomeReason (or_arrival o'))
              else ''Did not finish study.''))"

definition plain_patch :: "action_status \<Rightarrow> action_patch" where
  "plain_patch s =
     \<lparr>ap_status = s, ap_returnRequestedAt = None, ap_bonusBatchId = None,
      ap_paymentSubmittedAt = None, ap_actionError = Some None, ap_nextAttemptAt = Some None\<rparr>"

definition requestReturn :: "setting \<Rightarrow> outcome_record \<Rightarrow> unit action" where
  "requestReturn cfg o' =
     bind_action (prolificFetch cfg (Call_Return (or_id o')
         (pi_sessionId (pa_identity (or_arrival o'))) (returnReason o'))) (\<lambda>r.
       case r of
         Reply_Ok body \<Rightarrow>
           mark (or_id o')
             ((plain_patch As_Return_Requested)\<lparr>ap_returnRequestedAt := Some (st_now cfg)\<rparr>)
       | _ \<Rightarrow> throw_action (Action_Failed ''request return failed''))"

text \<open>\<open>(amountPence / 100).toFixed(2)\<close> on whole pence.\<close>

definition pounds :: "rat \<Rightarrow> string" where
  "pounds p =
     (let n = \<lfloor>p\<rfloor> in show_int (n div 100) @ ''.'' @ show_int ((n mod 100) div 10) @ show_int (n mod 10))"

definition prepareBonus :: "setting \<Rightarrow> outcome_record \<Rightarrow> unit action" where
  "prepareBonus cfg o' =
     (let amountPence = orelse (pa_compensationAmountPence (or_arrival o')) 0;
          i = pa_identity (or_arrival o') in
      if amountPence \<le> 0 then throw_action (Conflict ''partial payment amount is empty'')
      else
        bind_action (prolificFetch cfg
          (Call_Prepare (or_id o') (pi_studyId i) (pi_sessionId i @ '','' @ pounds amountPence))) (\<lambda>r.
          case r of
            Reply_Ok (Some batch) \<Rightarrow>
              if batch = [] then throw_action (Action_Failed ''bonus preparation returned no batch id'')
              else mark (or_id o') ((plain_patch As_Bonus_Prepared)\<lparr>ap_bonusBatchId := Some batch\<rparr>)
          | Reply_Ok None \<Rightarrow> throw_action (Action_Failed ''bonus preparation returned no batch id'')
          | _ \<Rightarrow> throw_action (Action_Failed ''bonus preparation failed'')))"

definition markPaymentUncertain :: "string \<Rightarrow> string \<Rightarrow> unit action" where
  "markPaymentUncertain aid msg =
     mark aid ((plain_patch As_Payment_Uncertain)\<lparr>ap_actionError :=
       Some (Some (take 500 (''Verify this bonus in Prolific before taking another action: '' @ msg)))\<rparr>)"

text \<open>The checks of payBonus, on the record it was given.\<close>

definition pay_checks :: "setting \<Rightarrow> outcome_record \<Rightarrow> unit action" where
  "pay_checks cfg o' =
     (if \<not> truthy (or_bonusBatchId o') then throw_action (Conflict ''bonus has not been prepared'')
      else if status_of o' \<noteq> Some As_Bonus_Prepared
      then throw_action (Conflict ''bonus is not in a payable state'')
      else if \<not> st_token cfg then throw_action Unavailable
      else return_action ())"

text \<open>
  The guard, the call and its outcome. An error while the payment is marked as uncertain replaces
  PaymentUncertainError, as an exception thrown in a catch block does.
\<close>

definition pay_commit :: "setting \<Rightarrow> outcome_record \<Rightarrow> unit action" where
  "pay_commit cfg o' =
     bind_action (mark (or_id o') (plain_patch As_Payment_In_Progress)) (\<lambda>_. \<lambda>w.
       case prolificFetch cfg (Call_Pay (or_id o') (the (or_bonusBatchId o'))) w of
         (Inl Crash, w') \<Rightarrow> (Inl Crash, w')
       | (Inl e, w') \<Rightarrow>
           bind_action (markPaymentUncertain (or_id o') (case e of Action_Failed m \<Rightarrow> m | _ \<Rightarrow> []))
             (\<lambda>_. throw_action Payment_Uncertain) w'
       | (Inr (Reply_Ok body), w') \<Rightarrow>
           (case mark (or_id o') ((plain_patch As_Payment_Submitted)\<lparr>ap_paymentSubmittedAt := Some (st_now cfg)\<rparr>) w' of
              (Inl e, w'') \<Rightarrow> (Inl Payment_Uncertain, w'')
            | (Inr u, w'') \<Rightarrow> (Inr (), w''))
       | (Inr r, w') \<Rightarrow>
           bind_action (markPaymentUncertain (or_id o') ''bonus payment was refused'')
             (\<lambda>_. throw_action Payment_Uncertain) w')"

definition payBonus :: "setting \<Rightarrow> outcome_record \<Rightarrow> unit action" where
  "payBonus cfg o' = bind_action (pay_checks cfg o') (\<lambda>_. pay_commit cfg o')"

text \<open>\<open>(await this.store.getParticipationOutcomeById(id))!\<close>, whose fields are read next.\<close>

definition reread :: "string \<Rightarrow> outcome_record action" where
  "reread aid =
     bind_action (read_outcome aid) (\<lambda>found.
       case found of
         None \<Rightarrow> throw_action (Action_Failed ''Cannot read properties of undefined'')
       | Some o' \<Rightarrow> return_action o')"

definition processAll :: "setting \<Rightarrow> outcome_record \<Rightarrow> unit action" where
  "processAll cfg o' =
     (if out_of o' = None \<or> out_of o' = Some Oc_Completed then return_action ()
      else
        bind_action
          (if or_returnRequestedAt o' = None \<and> status_of o' \<noteq> Some As_Return_Requested
           then bind_action (requestReturn cfg o') (\<lambda>_. reread (or_id o'))
           else return_action o') (\<lambda>current.
        if pa_compensationKind (or_arrival current) = Some Ck_Partial \<and>
           orelse (pa_compensationAmountPence (or_arrival current)) 0 > 0
        then
          bind_action
            (if \<not> truthy (or_bonusBatchId current)
             then bind_action (prepareBonus cfg current) (\<lambda>_. reread (or_id o'))
             else return_action current) (\<lambda>current.
          if or_paymentSubmittedAt current = None then payBonus cfg current else return_action ())
        else return_action ()))"

definition requestReturnById :: "setting \<Rightarrow> string \<Rightarrow> unit action" where
  "requestReturnById cfg aid =
     bind_action (requireOutcome aid) (\<lambda>o'.
       if or_returnRequestedAt o' \<noteq> None then return_action () else requestReturn cfg o')"

definition error_message :: "action_error \<Rightarrow> string" where
  "error_message e =
     (case e of Conflict m \<Rightarrow> m | Action_Failed m \<Rightarrow> m
      | Unavailable \<Rightarrow> ''PROLIFIC_API_TOKEN is not configured''
      | Not_Found \<Rightarrow> ''No actionable terminal outcome'' | _ \<Rightarrow> [])"

definition FAILED_ACTION_RETRY_MS :: int where "FAILED_ACTION_RETRY_MS = 5 * 60000"

definition recordFailure :: "setting \<Rightarrow> string \<Rightarrow> action_error \<Rightarrow> unit action" where
  "recordFailure cfg aid e =
     mark aid ((plain_patch As_Failed)\<lparr>ap_actionError := Some (Some (take 500 (error_message e))),
       ap_nextAttemptAt := Some (Some (st_now cfg + FAILED_ACTION_RETRY_MS))\<rparr>)"

definition requestReturnAndRecordFailureById :: "setting \<Rightarrow> string \<Rightarrow> unit action" where
  "requestReturnAndRecordFailureById cfg aid w =
     (case requestReturnById cfg aid w of
        (Inl Crash, w') \<Rightarrow> (Inl Crash, w')
      | (Inl e, w') \<Rightarrow> bind_action (recordFailure cfg aid e) (\<lambda>_. throw_action e) w'
      | (Inr u, w') \<Rightarrow> (Inr u, w'))"

definition prepareBonusById :: "setting \<Rightarrow> string \<Rightarrow> unit action" where
  "prepareBonusById cfg aid =
     bind_action (requireOutcome aid) (\<lambda>o'.
       if pa_compensationKind (or_arrival o') \<noteq> Some Ck_Partial
       then throw_action (Conflict ''Only partial-compensation outcomes can prepare a bonus'')
       else if truthy (or_bonusBatchId o') then return_action ()
       else
         bind_action (if or_returnRequestedAt o' = None then requestReturn cfg o' else return_action ()) (\<lambda>_.
         bind_action (reread aid) (prepareBonus cfg)))"

definition payBonusById :: "setting \<Rightarrow> string \<Rightarrow> unit action" where
  "payBonusById cfg aid =
     bind_action (requireOutcome aid) (\<lambda>o'.
       if or_paymentSubmittedAt o' \<noteq> None then return_action () else payBonus cfg o')"

definition resolveManuallyById :: "string \<Rightarrow> unit action" where
  "resolveManuallyById aid =
     bind_action (requireOutcome aid) (\<lambda>_. mark aid (plain_patch As_Resolved_Manually))"

text \<open>One outcome of the worker's loop: every error but an uncertain payment is recorded.\<close>

definition process_one :: "setting \<Rightarrow> outcome_record \<Rightarrow> unit action" where
  "process_one cfg o' w =
     (case processAll cfg o' w of
        (Inl Crash, w') \<Rightarrow> (Inl Crash, w')
      | (Inl Payment_Uncertain, w') \<Rightarrow> (Inr (), w')
      | (Inl e, w') \<Rightarrow> recordFailure cfg (or_id o') e w'
      | (Inr u, w') \<Rightarrow> (Inr u, w'))"

fun process_each :: "setting \<Rightarrow> outcome_record list \<Rightarrow> unit action" where
  "process_each cfg [] = return_action ()"
| "process_each cfg (o' # os) = bind_action (process_one cfg o') (\<lambda>_. process_each cfg os)"

text \<open>The flag \<open>running\<close> keeps two rounds from overlapping; a round runs as one action here.\<close>

definition processDue :: "setting \<Rightarrow> unit action" where
  "processDue cfg w = process_each cfg (dueProlificActions (st_now cfg) 20 (wd_db w)) w"

section \<open>Runs of actions\<close>

text \<open>
  One action after another, with the answers Prolific gives to it, or a request to the store
  between two actions.
\<close>

datatype prolific_op =
    Op_Due | Op_Return string | Op_Return_Recorded string | Op_Prepare string | Op_Pay string
  | Op_Resolve string | Op_Request "int \<times> request"

fun run_op :: "setting \<Rightarrow> (nat \<Rightarrow> string) \<Rightarrow> prolific_op \<Rightarrow> world \<Rightarrow> world" where
  "run_op cfg uuid Op_Due w = snd (processDue cfg w)"
| "run_op cfg uuid (Op_Return aid) w = snd (requestReturnById cfg aid w)"
| "run_op cfg uuid (Op_Return_Recorded aid) w = snd (requestReturnAndRecordFailureById cfg aid w)"
| "run_op cfg uuid (Op_Prepare aid) w = snd (prepareBonusById cfg aid w)"
| "run_op cfg uuid (Op_Pay aid) w = snd (payBonusById cfg aid w)"
| "run_op cfg uuid (Op_Resolve aid) w = snd (resolveManuallyById aid w)"
| "run_op cfg uuid (Op_Request r) w = w\<lparr>wd_db := run_request uuid (wd_db w) r\<rparr>"

definition world_step :: "(nat \<Rightarrow> string) \<Rightarrow> world \<Rightarrow> setting \<times> reply list \<times> prolific_op \<Rightarrow> world" where
  "world_step uuid w e =
     (case e of (cfg, replies, op) \<Rightarrow> run_op cfg uuid op (w\<lparr>wd_replies := replies\<rparr>))"

fun is_payment :: "string \<Rightarrow> api_call \<Rightarrow> bool" where
  "is_payment aid (Call_Pay x b) = (x = aid)"
| "is_payment aid (Call_Return x y r) = False"
| "is_payment aid (Call_Prepare x y r) = False"

definition payments :: "string \<Rightarrow> world \<Rightarrow> nat" where
  "payments aid w = length (filter (is_payment aid) (wd_calls w))"

text \<open>A submission whose bonus can no longer be paid: its batch is kept, its state not payable.\<close>

definition locked :: "string \<Rightarrow> pdb \<Rightarrow> bool" where
  "locked aid d =
     (case compensation_of aid d of None \<Rightarrow> False
      | Some c \<Rightarrow> truthy (cm_bonusBatchId c) \<and> cm_status c \<noteq> As_Bonus_Prepared)"

definition batched :: "string \<Rightarrow> pdb \<Rightarrow> bool" where
  "batched aid d =
     (case compensation_of aid d of None \<Rightarrow> False | Some c \<Rightarrow> truthy (cm_bonusBatchId c))"

text \<open>
  The invariant, with the submissions \<open>B\<close> that are still unpaid and \<open>C\<close> that keep their batch
  while an action on another one runs.
\<close>

definition safe :: "(nat \<Rightarrow> string) \<Rightarrow> string set \<Rightarrow> string set \<Rightarrow> world \<Rightarrow> bool" where
  "safe uuid B C w =
     (pdb_wf uuid (wd_db w) \<and> (\<forall>aid. payments aid w \<le> 1) \<and>
      (\<forall>aid. payments aid w \<noteq> 0 \<longrightarrow> locked aid (wd_db w)) \<and> (\<forall>b\<in>B. payments b w = 0) \<and>
      (\<forall>c\<in>C. batched c (wd_db w)))"

text \<open>What an action may rely on about the record it was given.\<close>

definition ready :: "outcome_record \<Rightarrow> world \<Rightarrow> bool" where
  "ready o' w =
     ((status_of o' = Some As_Bonus_Prepared \<or> \<not> truthy (or_bonusBatchId o') \<longrightarrow>
        payments (or_id o') w = 0) \<and>
      (truthy (or_bonusBatchId o') \<longrightarrow> batched (or_id o') (wd_db w)))"

definition valid :: "(world \<Rightarrow> bool) \<Rightarrow> (world \<Rightarrow> bool) \<Rightarrow> 'a action \<Rightarrow> ('a \<Rightarrow> world \<Rightarrow> bool) \<Rightarrow> bool" where
  "valid I P m Q =
     (\<forall>w. I w \<and> P w \<longrightarrow> I (snd (m w)) \<and> (\<forall>x. fst (m w) = Inr x \<longrightarrow> Q x (snd (m w))))"

lemma valid_bind:
  assumes "valid I P m Q" and "\<And>x. valid I (Q x) (f x) R"
  shows "valid I P (bind_action m f) R"
  unfolding valid_def
proof (intro allI impI)
  fix w assume w: "I w \<and> P w"
  with assms(1) have m: "I (snd (m w))" "\<And>x. fst (m w) = Inr x \<Longrightarrow> Q x (snd (m w))"
    by (auto simp: valid_def)
  show "I (snd (bind_action m f w)) \<and>
      (\<forall>x. fst (bind_action m f w) = Inr x \<longrightarrow> R x (snd (bind_action m f w)))"
  proof (cases "m w")
    case (Pair r w')
    show ?thesis
    proof (cases r)
      case (Inl e)
      with Pair m show ?thesis by (simp add: bind_action_def)
    next
      case (Inr x)
      with Pair m have "I w' \<and> Q x w'" by simp
      with assms(2) [of x] show ?thesis by (simp add: bind_action_def Pair Inr valid_def)
    qed
  qed
qed

lemma valid_return: "(\<And>w. I w \<Longrightarrow> P w \<Longrightarrow> Q x w) \<Longrightarrow> valid I P (return_action x) Q"
  by (simp add: valid_def return_action_def)

lemma valid_throw: "valid I P (throw_action e) Q"
  by (simp add: valid_def throw_action_def)

lemma valid_if: "(b \<Longrightarrow> valid I P m Q) \<Longrightarrow> (\<not> b \<Longrightarrow> valid I P n Q) \<Longrightarrow> valid I P (if b then m else n) Q"
  by simp

lemma valid_weaken: "valid I P m Q \<Longrightarrow> (\<And>w. I w \<Longrightarrow> P' w \<Longrightarrow> P w) \<Longrightarrow> valid I P' m Q"
  by (auto simp: valid_def)

lemmas valid_rules = valid_bind valid_return valid_throw valid_if

lemma apply_patch_fields [simp]:
  "cm_arrivalId (apply_patch p c) = cm_arrivalId c"
  "cm_status (apply_patch p c) = ap_status p"
  "cm_bonusBatchId (apply_patch p c) = keep_undefined (ap_bonusBatchId p) (cm_bonusBatchId c)"
  by (simp_all add: apply_patch_def)

lemma compensation_marked:
  "markProlificAction aid p d = Some d' \<Longrightarrow>
     compensation_of x d' = (if x = aid then map_option (apply_patch p) (compensation_of x d) else compensation_of x d)"
proof -
  assume "markProlificAction aid p d = Some d'"
  then have d': "pd_compensations d' =
      map (\<lambda>c. if cm_arrivalId c = aid then apply_patch p c else c) (pd_compensations d)"
    by (auto simp: markProlificAction_def split: if_splits)
  have "find (\<lambda>c. cm_arrivalId c = x) (map (\<lambda>c. if cm_arrivalId c = aid then apply_patch p c else c) cs) =
      (if x = aid then map_option (apply_patch p) (find (\<lambda>c. cm_arrivalId c = x) cs)
       else find (\<lambda>c. cm_arrivalId c = x) cs)" for cs
    by (induction cs) auto
  then show ?thesis by (simp add: compensation_of_def d')
qed

lemma mark_calls: "wd_calls (snd (mark aid p w)) = wd_calls w"
  by (simp add: mark_def split: option.split)

lemma mark_payments: "payments x (snd (mark aid p w)) = payments x w"
  by (simp add: payments_def mark_calls)

text \<open>A patch that clears no batch and makes only an unpaid submission payable.\<close>

definition patch_ok :: "string \<Rightarrow> world \<Rightarrow> action_patch \<Rightarrow> bool" where
  "patch_ok aid w p =
     ((ap_bonusBatchId p = None \<or> truthy (ap_bonusBatchId p)) \<and>
      (payments aid w = 0 \<or> (ap_status p \<noteq> As_Bonus_Prepared \<and> ap_bonusBatchId p = None)))"

lemma mark_safe:
  assumes "safe uuid B C w" and "patch_ok aid w p"
  shows "safe uuid B C (snd (mark aid p w))"
proof (cases "markProlificAction aid p (wd_db w)")
  case (Some d)
  have wf: "pdb_wf uuid d" using mark_good [OF _ Some] assms(1) by (simp add: safe_def)
  have "locked x d" if x: "payments x w \<noteq> 0" for x
  proof -
    from assms(1) x have "locked x (wd_db w)" by (simp add: safe_def)
    then obtain c where c: "compensation_of x (wd_db w) = Some c" "truthy (cm_bonusBatchId c)"
      "cm_status c \<noteq> As_Bonus_Prepared" by (auto simp: locked_def split: option.splits)
    show ?thesis using compensation_marked [OF Some, of x] c x assms(2)
      by (cases "x = aid") (auto simp: locked_def keep_undefined_def patch_ok_def)
  qed
  moreover have "batched x d" if "batched x (wd_db w)" for x
    using compensation_marked [OF Some, of x] that assms(2)
    by (auto simp: batched_def keep_undefined_def patch_ok_def split: option.splits if_splits)
  ultimately show ?thesis using wf assms(1) Some
    by (simp add: safe_def mark_def payments_def)
qed (simp add: mark_def assms(1))

text \<open>The invariant of a run, and what each action keeps of it.\<close>

lemma payments_fetch:
  "payments x (snd (prolificFetch cfg c w)) =
     payments x w + (if st_token cfg \<and> is_payment x c then 1 else 0)"
  by (auto simp: prolificFetch_def payments_def Let_def split: list.split reply.split)

lemma db_fetch [simp]: "wd_db (snd (prolificFetch cfg c w)) = wd_db w"
  by (auto simp: prolificFetch_def Let_def split: list.split reply.split)

text \<open>A call that is no payment keeps the invariant and every count of payments.\<close>

lemma valid_fetch:
  assumes "\<And>x. \<not> is_payment x c"
  shows "valid (safe uuid B C) (\<lambda>w. payments aid w = n \<or> \<not> k) (prolificFetch cfg c)
    (\<lambda>_ w. payments aid w = n \<or> \<not> k)"
  unfolding valid_def
proof (intro allI impI conjI)
  fix w x assume w: "safe uuid B C w \<and> (payments aid w = n \<or> \<not> k)"
  show "safe uuid B C (snd (prolificFetch cfg c w))"
    using w by (simp add: safe_def payments_fetch assms)
  show "payments aid (snd (prolificFetch cfg c w)) = n \<or> \<not> k"
    using w by (simp add: payments_fetch assms)
qed

lemma valid_read:
  "valid I P (read_outcome aid) (\<lambda>found w. P w \<and> found = getParticipationOutcomeById aid (wd_db w))"
  by (simp add: valid_def read_outcome_def)

lemma outcome_fields:
  assumes "getParticipationOutcomeById aid d = Some o'"
  shows "or_id o' = aid" "status_of o' = map_option cm_status (compensation_of aid d)"
    "or_bonusBatchId o' = Option.bind (compensation_of aid d) cm_bonusBatchId"
  using assms
  by (auto simp: getParticipationOutcomeById_def participationOutcomeFromRow_def find_Some_iff)

lemma read_ready:
  assumes "safe uuid B C w" and "getParticipationOutcomeById aid (wd_db w) = Some o'"
  shows "ready o' w"
  unfolding ready_def outcome_fields(1) [OF assms(2)]
proof (intro conjI impI)
  assume open_state: "status_of o' = Some As_Bonus_Prepared \<or> \<not> truthy (or_bonusBatchId o')"
  have "\<not> locked aid (wd_db w)"
    using open_state outcome_fields(2,3) [OF assms(2)]
    by (cases "compensation_of aid (wd_db w)") (auto simp: locked_def)
  with assms(1) show "payments aid w = 0" by (auto simp: safe_def)
next
  assume "truthy (or_bonusBatchId o')"
  then show "batched aid (wd_db w)" using outcome_fields(3) [OF assms(2)]
    by (cases "compensation_of aid (wd_db w)") (auto simp: batched_def)
qed

definition given :: "string \<Rightarrow> outcome_record \<Rightarrow> world \<Rightarrow> bool" where
  "given aid o' w = (or_id o' = aid \<and> ready o' w)"

lemma valid_reread: "valid (safe uuid B C) P (reread aid) (given aid)"
  unfolding reread_def
  by (rule valid_bind [OF valid_read])
    (auto simp: valid_def throw_action_def return_action_def given_def read_ready outcome_fields
      split: option.split)

lemma valid_require: "valid (safe uuid B C) P (requireOutcome aid) (given aid)"
  unfolding requireOutcome_def
  by (rule valid_bind [OF valid_read])
    (auto simp: valid_def throw_action_def return_action_def given_def read_ready outcome_fields
      split: option.split)

lemma plain_patch_fields [simp]:
  "ap_status (plain_patch s) = s" "ap_bonusBatchId (plain_patch s) = None"
  by (simp_all add: plain_patch_def)

lemma valid_requestReturn:
  "valid (safe uuid B C) (\<lambda>w. payments aid w = n \<or> \<not> k) (requestReturn cfg o')
     (\<lambda>_ w. payments aid w = n \<or> \<not> k)"
  unfolding requestReturn_def
proof (rule valid_bind [OF valid_fetch])
  fix r
  show "valid (safe uuid B C) (\<lambda>w. payments aid w = n \<or> \<not> k)
     (case r of Reply_Ok body \<Rightarrow>
        mark (or_id o') ((plain_patch As_Return_Requested)\<lparr>ap_returnRequestedAt := Some (st_now cfg)\<rparr>)
      | _ \<Rightarrow> throw_action (Action_Failed ''request return failed''))
     (\<lambda>_ w. payments aid w = n \<or> \<not> k)"
    by (cases r) (auto simp: valid_def throw_action_def mark_payments patch_ok_def intro!: mark_safe)
qed simp

lemma valid_prepareBonus:
  "valid (safe uuid B C) (\<lambda>w. payments (or_id o') w = 0) (prepareBonus cfg o') (\<lambda>_ _. True)"
  unfolding prepareBonus_def Let_def
proof (rule valid_if [OF valid_throw])
  show "valid (safe uuid B C) (\<lambda>w. payments (or_id o') w = 0)
    (bind_action (prolificFetch cfg
          (Call_Prepare (or_id o') (pi_studyId (pa_identity (or_arrival o')))
            (pi_sessionId (pa_identity (or_arrival o')) @ '','' @
              pounds (orelse (pa_compensationAmountPence (or_arrival o')) 0)))) (\<lambda>r.
          case r of
            Reply_Ok (Some batch) \<Rightarrow>
              if batch = [] then throw_action (Action_Failed ''bonus preparation returned no batch id'')
              else mark (or_id o') ((plain_patch As_Bonus_Prepared)\<lparr>ap_bonusBatchId := Some batch\<rparr>)
          | Reply_Ok None \<Rightarrow> throw_action (Action_Failed ''bonus preparation returned no batch id'')
          | _ \<Rightarrow> throw_action (Action_Failed ''bonus preparation failed''))) (\<lambda>_ _. True)"
  proof (rule valid_bind)
    show "valid (safe uuid B C) (\<lambda>w. payments (or_id o') w = 0) (prolificFetch cfg
          (Call_Prepare (or_id o') (pi_studyId (pa_identity (or_arrival o')))
            (pi_sessionId (pa_identity (or_arrival o')) @ '','' @
              pounds (orelse (pa_compensationAmountPence (or_arrival o')) 0))))
        (\<lambda>_ w. payments (or_id o') w = 0)"
      using valid_fetch [where k = True and n = 0] by simp
  qed (auto simp: valid_def throw_action_def patch_ok_def intro!: mark_safe split: reply.split option.split)
qed

lemma pay_call_safe:
  assumes "safe uuid B C w" and "payments aid w = 0" and "locked aid (wd_db w)" and "aid \<notin> B"
  shows "safe uuid B C (snd (prolificFetch cfg (Call_Pay aid b) w))"
  using assms by (auto simp: safe_def payments_fetch)

lemma mark_locks:
  assumes "batched aid (wd_db w)" and "ap_status p \<noteq> As_Bonus_Prepared" and "ap_bonusBatchId p = None"
  shows "locked aid (wd_db (snd (mark aid p w)))" and "\<exists>u. fst (mark aid p w) = Inr u"
proof -
  from assms(1) obtain c where c: "compensation_of aid (wd_db w) = Some c" "truthy (cm_bonusBatchId c)"
    by (auto simp: batched_def split: option.splits)
  then obtain d where d: "markProlificAction aid p (wd_db w) = Some d"
    by (auto simp: markProlificAction_def)
  show "locked aid (wd_db (snd (mark aid p w)))"
    using compensation_marked [OF d, of aid] c assms(2,3) d
    by (simp add: mark_def locked_def keep_undefined_def)
  show "\<exists>u. fst (mark aid p w) = Inr u" using d by (simp add: mark_def)
qed

lemma snd_bind_throw: "snd (bind_action m (\<lambda>_. throw_action e) w) = snd (m w)"
  by (auto simp: bind_action_def throw_action_def split: sum.split prod.split)

lemma pay_commit_safe:
  assumes "safe uuid B C w" and "payments (or_id o') w = 0" and "batched (or_id o') (wd_db w)"
    and "or_id o' \<notin> B"
  shows "safe uuid B C (snd (pay_commit cfg o' w))"
proof -
  let ?id = "or_id o'"
  define w1 where "w1 = snd (mark ?id (plain_patch As_Payment_In_Progress) w)"
  have marked: "mark ?id (plain_patch As_Payment_In_Progress) w = (Inr (), w1)"
    using mark_locks(2) [OF assms(3), of "plain_patch As_Payment_In_Progress"]
    by (cases "mark ?id (plain_patch As_Payment_In_Progress) w") (auto simp: w1_def)
  have w1: "safe uuid B C w1" "locked ?id (wd_db w1)" "payments ?id w1 = 0"
    using assms(1,2) mark_locks(1) [OF assms(3), of "plain_patch As_Payment_In_Progress"]
    unfolding w1_def by (auto simp: mark_payments patch_ok_def intro: mark_safe)
  define call where "call = Call_Pay ?id (the (or_bonusBatchId o'))"
  define w2 where "w2 = snd (prolificFetch cfg call w1)"
  have w2: "safe uuid B C w2" using w1 assms(4) by (simp add: w2_def call_def pay_call_safe)
  have quiet: "safe uuid B C (snd (mark ?id p w2))"
    if "ap_status p \<noteq> As_Bonus_Prepared" "ap_bonusBatchId p = None" for p
    using that by (intro mark_safe [OF w2]) (simp add: patch_ok_def)
  have uncertain: "safe uuid B C (snd (bind_action (markPaymentUncertain ?id msg)
      (\<lambda>_. throw_action Payment_Uncertain) w2))" for msg
    unfolding snd_bind_throw markPaymentUncertain_def by (rule quiet) simp_all
  obtain r where r: "prolificFetch cfg call w1 = (r, w2)"
    by (cases "prolificFetch cfg call w1") (simp add: w2_def)
  show ?thesis
  proof (cases r)
    case (Inl e)
    with r w2 uncertain show ?thesis
      by (cases e) (simp_all add: pay_commit_def bind_action_def [of "mark ?id (plain_patch As_Payment_In_Progress)"]
          marked call_def)
  next
    case (Inr a)
    show ?thesis
    proof (cases a)
      case (Reply_Ok body)
      have "safe uuid B C (snd (mark ?id ((plain_patch As_Payment_Submitted)
          \<lparr>ap_paymentSubmittedAt := Some (st_now cfg)\<rparr>) w2))" by (rule quiet) simp_all
      with r Inr Reply_Ok show ?thesis
        by (auto simp: pay_commit_def bind_action_def [of "mark ?id (plain_patch As_Payment_In_Progress)"]
            marked call_def split: prod.split sum.split)
    qed (use r Inr uncertain in \<open>simp_all add: pay_commit_def marked call_def
        bind_action_def [of "mark ?id (plain_patch As_Payment_In_Progress)"]\<close>)
  qed
qed

lemma valid_payBonus:
  assumes "aid \<notin> B"
  shows "valid (safe uuid B C) (given aid o') (payBonus cfg o') (\<lambda>_ _. True)"
  unfolding payBonus_def
proof (rule valid_bind)
  show "valid (safe uuid B C) (given aid o') (pay_checks cfg o')
     (\<lambda>_ w. or_id o' = aid \<and> payments aid w = 0 \<and> batched aid (wd_db w))"
    by (auto simp: valid_def pay_checks_def throw_action_def return_action_def given_def ready_def)
  show "valid (safe uuid B C) (\<lambda>w. or_id o' = aid \<and> payments aid w = 0 \<and> batched aid (wd_db w))
     (pay_commit cfg o') (\<lambda>_ _. True)" for x
    using pay_commit_safe assms by (auto simp: valid_def)
qed

lemma valid_requestReturn_any: "valid (safe uuid B C) P (requestReturn cfg o') (\<lambda>_ _. True)"
  using valid_requestReturn [where k = False and aid = "[]" and n = 0, of uuid B C cfg o']
  by (auto simp: valid_def)

lemma valid_mark:
  assumes "ap_status p \<noteq> As_Bonus_Prepared" and "ap_bonusBatchId p = None"
  shows "valid (safe uuid B C) P (mark aid p) (\<lambda>_ _. True)"
  using assms by (auto simp: valid_def patch_ok_def intro: mark_safe)

lemma valid_processAll:
  assumes "aid \<notin> B"
  shows "valid (safe uuid B C) (given aid o') (processAll cfg o') (\<lambda>_ _. True)"
proof (cases "or_id o' = aid")
  case True
  have first: "valid (safe uuid B C) (given aid o')
      (if or_returnRequestedAt o' = None \<and> status_of o' \<noteq> Some As_Return_Requested
       then bind_action (requestReturn cfg o') (\<lambda>_. reread (or_id o')) else return_action o')
      (given aid)"
    unfolding True
    by (intro valid_if valid_bind [OF valid_requestReturn_any] valid_reread valid_return)
  have second: "valid (safe uuid B C) (given aid current)
      (if \<not> truthy (or_bonusBatchId current)
       then bind_action (prepareBonus cfg current) (\<lambda>_. reread (or_id o')) else return_action current)
      (given aid)" for current
  proof (rule valid_if)
    assume "\<not> truthy (or_bonusBatchId current)"
    then show "valid (safe uuid B C) (given aid current)
        (bind_action (prepareBonus cfg current) (\<lambda>_. reread (or_id o'))) (given aid)"
      unfolding True
      by (intro valid_bind [OF valid_weaken [OF valid_prepareBonus]] valid_reread)
        (auto simp: given_def ready_def)
  qed (rule valid_return)
  show ?thesis unfolding processAll_def
    by (intro valid_if valid_return valid_bind [OF first] valid_bind [OF second]
        valid_payBonus assms TrueI)
next
  case False
  then show ?thesis
    by (auto simp: valid_def given_def)
qed

lemma valid_recordFailure: "valid (safe uuid B C) P (recordFailure cfg aid e) (\<lambda>_ _. True)"
  unfolding recordFailure_def by (rule valid_mark) simp_all

lemma valid_requestReturnById: "valid (safe uuid B C) P (requestReturnById cfg aid) (\<lambda>_ _. True)"
  unfolding requestReturnById_def
  by (intro valid_bind [OF valid_require] valid_if valid_return valid_requestReturn_any TrueI)

lemma valid_prepareBonusById: "valid (safe uuid B C) P (prepareBonusById cfg aid) (\<lambda>_ _. True)"
  unfolding prepareBonusById_def
proof (intro valid_bind [OF valid_require] valid_if valid_throw valid_return TrueI)
  fix o' :: outcome_record assume "\<not> truthy (or_bonusBatchId o')"
  then have unpaid: "given aid o' w \<Longrightarrow> payments aid w = 0" for w by (auto simp: given_def ready_def)
  have first: "valid (safe uuid B C) (given aid o')
      (if or_returnRequestedAt o' = None then requestReturn cfg o' else return_action ())
      (\<lambda>_ w. payments aid w = 0)"
  proof (rule valid_if)
    show "valid (safe uuid B C) (given aid o') (requestReturn cfg o') (\<lambda>_ w. payments aid w = 0)"
      using valid_requestReturn [where k = True and aid = aid and n = 0, of uuid B C cfg o'] unpaid
      by (auto simp: valid_def)
    show "valid (safe uuid B C) (given aid o') (return_action ()) (\<lambda>_ w. payments aid w = 0)"
      using unpaid by (intro valid_return)
  qed
  have again: "valid (safe uuid B C) (\<lambda>w. payments aid w = 0) (reread aid)
      (\<lambda>x w. or_id x = aid \<and> payments aid w = 0)"
    unfolding reread_def
    by (rule valid_bind [OF valid_read])
      (auto simp: valid_def throw_action_def return_action_def outcome_fields split: option.split)
  have "valid (safe uuid B C) (\<lambda>w. or_id x = aid \<and> payments aid w = 0) (prepareBonus cfg x) (\<lambda>_ _. True)" for x
    by (rule valid_weaken [OF valid_prepareBonus]) auto
  then show "valid (safe uuid B C) (given aid o')
      (bind_action (if or_returnRequestedAt o' = None then requestReturn cfg o' else return_action ())
        (\<lambda>_. bind_action (reread aid) (prepareBonus cfg))) (\<lambda>_ _. True)"
    by (intro valid_bind [OF first] valid_bind [OF again])
qed

lemma valid_payBonusById: "aid \<notin> B \<Longrightarrow> valid (safe uuid B C) P (payBonusById cfg aid) (\<lambda>_ _. True)"
  unfolding payBonusById_def
  by (intro valid_bind [OF valid_require] valid_if valid_return valid_payBonus TrueI)

lemma valid_resolve: "valid (safe uuid B C) P (resolveManuallyById aid) (\<lambda>_ _. True)"
  unfolding resolveManuallyById_def by (intro valid_bind [OF valid_require] valid_mark) simp_all

lemma valid_recorded: "valid (safe uuid B C) (\<lambda>_. True) (requestReturnAndRecordFailureById cfg aid) (\<lambda>_ _. True)"
  unfolding valid_def
proof (intro allI impI conjI)
  fix w assume w: "safe uuid B C w \<and> True"
  obtain r w' where r: "requestReturnById cfg aid w = (r, w')" by fastforce
  have w': "safe uuid B C w'"
    using valid_requestReturnById [of uuid B C "\<lambda>_. True" cfg aid] w r by (fastforce simp: valid_def)
  have failed: "safe uuid B C (snd (recordFailure cfg aid e w'))" for e
    using valid_recordFailure [of uuid B C "\<lambda>_. True" cfg aid e] w' by (simp add: valid_def)
  show "safe uuid B C (snd (requestReturnAndRecordFailureById cfg aid w))"
  proof (cases r)
    case (Inl e)
    then show ?thesis using w' failed
      by (cases e) (simp_all add: requestReturnAndRecordFailureById_def r snd_bind_throw)
  qed (simp add: requestReturnAndRecordFailureById_def r w')
qed simp

lemma process_one_safe:
  assumes "safe uuid B C w" and "given aid o' w" and "aid \<notin> B"
  shows "safe uuid B C (snd (process_one cfg o' w))"
proof -
  obtain r w' where r: "processAll cfg o' w = (r, w')" by fastforce
  have w': "safe uuid B C w'"
    using valid_processAll [OF assms(3), of uuid C o' cfg] assms(1,2) r by (fastforce simp: valid_def)
  have failed: "safe uuid B C (snd (recordFailure cfg (or_id o') e w'))" for e
    using valid_recordFailure [of uuid B C "\<lambda>_. True" cfg "or_id o'" e] w' by (simp add: valid_def)
  show ?thesis
  proof (cases r)
    case (Inl e)
    then show ?thesis using w' failed by (cases e) (simp_all add: process_one_def r)
  qed (simp add: process_one_def r w')
qed

text \<open>The submissions whose records a worker still holds: unpaid ones and ones with a batch.\<close>

definition waiting_unpaid :: "outcome_record list \<Rightarrow> string set" where
  "waiting_unpaid os = or_id ` set (filter (\<lambda>o'. status_of o' = Some As_Bonus_Prepared \<or>
     \<not> truthy (or_bonusBatchId o')) os)"

definition waiting_batched :: "outcome_record list \<Rightarrow> string set" where
  "waiting_batched os = or_id ` set (filter (truthy \<circ> or_bonusBatchId) os)"

lemma safe_waiting:
  assumes "safe uuid B C w"
  shows "safe uuid (waiting_unpaid os) (waiting_batched os) w \<longleftrightarrow> (\<forall>o'\<in>set os. ready o' w)"
  using assms by (auto simp: safe_def waiting_unpaid_def waiting_batched_def ready_def)

lemma safe_empty: "safe uuid B C w \<Longrightarrow> safe uuid {} {} w"
  by (simp add: safe_def)

lemma process_each_safe:
  "safe uuid {} {} w \<Longrightarrow> \<forall>o'\<in>set os. ready o' w \<Longrightarrow> distinct (map or_id os) \<Longrightarrow>
     safe uuid {} {} (snd (process_each cfg os w))"
proof (induction os arbitrary: w)
  case (Cons o' os)
  let ?B = "waiting_unpaid os" and ?C = "waiting_batched os"
  have "safe uuid ?B ?C w" using Cons.prems safe_waiting [OF Cons.prems(1)] by simp
  moreover have "or_id o' \<notin> ?B" using Cons.prems(3) by (auto simp: waiting_unpaid_def)
  ultimately have one: "safe uuid ?B ?C (snd (process_one cfg o' w))"
    using Cons.prems(2) by (intro process_one_safe [where aid = "or_id o'"]) (simp_all add: given_def)
  have rest: "safe uuid {} {} (snd (process_one cfg o' w))" by (rule safe_empty [OF one])
  have "\<forall>x\<in>set os. ready x (snd (process_one cfg o' w))" using one safe_waiting [OF one] by simp
  show ?case
  proof (cases "process_one cfg o' w")
    case (Pair r w')
    with rest \<open>\<forall>x\<in>set os. ready x (snd (process_one cfg o' w))\<close> Cons.IH [of w'] Cons.prems(3) show ?thesis
      by (cases r) (simp_all add: bind_action_def)
  qed
qed (simp add: return_action_def)

lemma find_distinct: "distinct (map key xs) \<Longrightarrow> x \<in> set xs \<Longrightarrow> find (\<lambda>y. key y = key x) xs = Some x"
  by (induction xs) (auto simp: image_iff)

lemma due_ready:
  assumes "safe uuid {} {} w" and "o' \<in> set (dueProlificActions now limit (wd_db w))"
  shows "ready o' w"
proof -
  from assms(2) obtain r where r: "r \<in> set (pd_arrivals (wd_db w))"
    and o': "o' = participationOutcomeFromRow (compensation_of (ar_id r) (wd_db w)) r"
    unfolding dueProlificActions_def by (auto simp del: take_map dest!: in_set_takeD)
  have "distinct (map ar_id (pd_arrivals (wd_db w)))" using assms(1) by (simp add: safe_def pdb_wf_def)
  then have "find (\<lambda>x. ar_id x = ar_id r) (pd_arrivals (wd_db w)) = Some r"
    using r by (rule find_distinct)
  then have "getParticipationOutcomeById (ar_id r) (wd_db w) = Some o'"
    by (simp add: getParticipationOutcomeById_def o')
  with assms(1) show ?thesis by (rule read_ready)
qed

lemma due_distinct:
  assumes "pdb_wf uuid d"
  shows "distinct (map or_id (dueProlificActions now limit d))"
proof -
  have "distinct (map ar_id (take limit (sort_key f (filter P (pd_arrivals d)))))" for f :: "arrival_row \<Rightarrow> nat \<times> int" and P
  proof -
    have "inj_on ar_id (set (pd_arrivals d))" "distinct (pd_arrivals d)"
      using assms by (auto simp: pdb_wf_def distinct_map)
    then have "distinct (map ar_id (sort_key f (filter P (pd_arrivals d))))"
      by (auto simp: distinct_map intro: inj_on_subset)
    then show ?thesis by (simp add: take_map flip: take_map)
  qed
  then show ?thesis
    by (simp add: dueProlificActions_def participationOutcomeFromRow_def comp_def)
qed

text \<open>Requests to the store between two actions.\<close>

definition compensation_kept :: "pdb \<Rightarrow> pdb \<Rightarrow> bool" where
  "compensation_kept d d' =
     (\<forall>aid c. compensation_of aid d = Some c \<longrightarrow>
        (\<exists>c'. compensation_of aid d' = Some c' \<and> cm_bonusBatchId c' = cm_bonusBatchId c \<and>
           (cm_status c' = cm_status c \<or> cm_status c' = As_Not_Required)))"

lemma kept_same: "pd_compensations d' = pd_compensations d \<Longrightarrow> compensation_kept d d'"
  by (simp add: compensation_kept_def compensation_of_def)

lemma kept_trans: "compensation_kept a b \<Longrightarrow> compensation_kept b c \<Longrightarrow> compensation_kept a c"
  unfolding compensation_kept_def by metis

lemma upsert_other:
  "aid \<noteq> cm_arrivalId c \<Longrightarrow> (\<And>x. cm_arrivalId (u x) = cm_arrivalId x) \<Longrightarrow>
     compensation_of aid (upsert_compensation c u d) = compensation_of aid d"
proof -
  assume neq: "aid \<noteq> cm_arrivalId c" and u: "\<And>x. cm_arrivalId (u x) = cm_arrivalId x"
  have "find (\<lambda>x. cm_arrivalId x = aid) (map (\<lambda>x. if cm_arrivalId x = cm_arrivalId c then u x else x) cs) =
      find (\<lambda>x. cm_arrivalId x = aid) cs" for cs
    using neq by (induction cs) (auto simp: u)
  with neq show ?thesis by (auto simp: compensation_of_def upsert_compensation_def find_snoc split: option.split)
qed

lemma kept_upsert:
  assumes "\<And>x. cm_arrivalId (u x) = cm_arrivalId x \<and> cm_bonusBatchId (u x) = cm_bonusBatchId x \<and>
    (cm_status (u x) = cm_status x \<or> cm_status (u x) = As_Not_Required)"
  shows "compensation_kept d (upsert_compensation c u d)"
  unfolding compensation_kept_def
proof (intro allI impI)
  fix aid x assume x: "compensation_of aid d = Some x"
  show "\<exists>c'. compensation_of aid (upsert_compensation c u d) = Some c' \<and>
      cm_bonusBatchId c' = cm_bonusBatchId x \<and> (cm_status c' = cm_status x \<or> cm_status c' = As_Not_Required)"
  proof (cases "cm_arrivalId c = aid")
    case True
    with x compensation_upserted [OF True, of u d] assms show ?thesis by auto
  next
    case False
    with x upsert_other [of aid c u d] assms show ?thesis by auto
  qed
qed

lemma comp_update [simp]: "compensation_kept (update_arrivals p f d) e = compensation_kept d e"
  "compensation_kept (d\<lparr>pd_events := ev\<rparr>) e = compensation_kept d e"
  by (simp_all add: compensation_kept_def compensation_of_def)

lemma kept_terminate: "compensation_kept d (terminate_row now t r d)"
proof -
  have "compensation_kept x (upsert_compensation c id x)" for x c by (rule kept_upsert) simp
  then show ?thesis unfolding terminate_row_def Let_def
    by (metis comp_update)
qed

lemma kept_completion: "compensation_kept d (completion_write now el i d)"
proof (cases "find_arrival i d")
  case (Some r)
  have "compensation_kept x (upsert_compensation c (\<lambda>c. c\<lparr>cm_kind := Ck_Full, cm_status := As_Not_Required\<rparr>) x)"
    for x c by (rule kept_upsert) simp
  then show ?thesis unfolding completion_write_def Some option.case Let_def
    by (metis comp_update)
qed (simp add: completion_write_def kept_same)

lemma kept_record: "compensation_kept d (recordProlificArrival uuid now i d)"
  by (rule kept_same) (simp add: recordProlificArrival_def)

lemma kept_stage: "compensation_kept d (stage_tx now i js d)"
  by (rule kept_same) (simp add: stage_tx_def Let_def)

lemma kept_request: "compensation_kept d (run_request uuid d (now, rq))"
proof (cases rq)
  case (Rq_Stage i js)
  then show ?thesis using kept_trans [OF kept_record kept_stage] kept_record
    by (auto simp: recordParticipationStage_def Let_def split: option.split)
next
  case (Rq_Terminate i t)
  then show ?thesis using kept_trans [OF kept_record kept_terminate] kept_record
    by (auto simp: terminateProlificParticipation_def terminate_tx_def Let_def split: option.split)
next
  case (Rq_Stale cutoff i t)
  then show ?thesis using kept_terminate kept_same [OF refl]
    by (auto simp: terminateStaleProlificParticipation_def split: option.split)
next
  case (Rq_Complete i)
  then show ?thesis using kept_trans [OF kept_record kept_completion] kept_record
    by (auto simp: completeProlificParticipation_def Let_def split: option.split)
next
  case (Rq_Link i pid)
  show ?thesis unfolding Rq_Link by (rule kept_same) (simp add: linkProlificArrival_def)
qed (use kept_record in simp)

lemma request_safe:
  assumes "safe uuid {} {} w"
  shows "safe uuid {} {} (w\<lparr>wd_db := run_request uuid (wd_db w) r\<rparr>)"
proof -
  obtain now rq where r: "r = (now, rq)" by fastforce
  have wf: "pdb_wf uuid (run_request uuid (wd_db w) r)"
    using run_request_good [of uuid "wd_db w"] assms r by (simp add: safe_def)
  have "locked aid (run_request uuid (wd_db w) r)" if "locked aid (wd_db w)" for aid
    using that kept_request [of "wd_db w" uuid now rq]
    by (fastforce simp: r locked_def compensation_kept_def split: option.splits)
  with assms wf show ?thesis by (simp add: safe_def payments_def)
qed

lemma run_op_safe:
  assumes "safe uuid {} {} w"
  shows "safe uuid {} {} (run_op cfg uuid op w)"
proof (cases op)
  case Op_Due
  have "safe uuid {} {} (snd (process_each cfg (dueProlificActions (st_now cfg) 20 (wd_db w)) w))"
    using assms due_ready [OF assms] due_distinct
    by (intro process_each_safe) (auto simp: safe_def)
  with Op_Due show ?thesis by (simp add: processDue_def)
next
  case (Op_Return aid)
  with valid_requestReturnById [of uuid "{}" "{}" "\<lambda>_. True" cfg aid] assms show ?thesis
    by (simp add: valid_def)
next
  case (Op_Return_Recorded aid)
  with valid_recorded [of uuid "{}" "{}" cfg aid] assms show ?thesis by (simp add: valid_def)
next
  case (Op_Prepare aid)
  with valid_prepareBonusById [of uuid "{}" "{}" "\<lambda>_. True" cfg aid] assms show ?thesis
    by (simp add: valid_def)
next
  case (Op_Pay aid)
  with valid_payBonusById [of aid "{}" uuid "{}" "\<lambda>_. True" cfg] assms show ?thesis
    by (simp add: valid_def)
next
  case (Op_Resolve aid)
  with valid_resolve [of uuid "{}" "{}" "\<lambda>_. True" aid] assms show ?thesis by (simp add: valid_def)
next
  case (Op_Request r)
  with request_safe [OF assms] show ?thesis by simp
qed

interpretation payments: stepper "world_step uuid" "safe uuid {} {}" for uuid
proof
  fix w e
  assume "safe uuid {} {} w"
  then have "safe uuid {} {} (w\<lparr>wd_replies := rs\<rparr>)" for rs by (simp add: safe_def payments_def)
  then show "safe uuid {} {} (world_step uuid w e)"
    by (cases e) (simp add: world_step_def run_op_safe)
qed

section \<open>Properties\<close>

definition idle_world :: world where
  "idle_world = \<lparr>wd_db = empty_pdb, wd_calls = [], wd_replies = []\<rparr>"

lemma idle_safe: "inj uuid \<Longrightarrow> safe uuid {} {} idle_world"
  by (simp add: safe_def idle_world_def payments_def empty_pdb_wf)

text \<open>
  C1: A submission is paid at most once, whatever sequence of worker rounds, admin actions and
  store requests runs, whatever Prolific answers, and wherever a call gets no answer at all: a
  payment that may have gone through is never sent again.
\<close>

theorem paid_at_most_once:
  assumes "inj uuid"
  shows "payments aid (foldl (world_step uuid) idle_world es) \<le> 1"
  using payments.run_inv [OF idle_safe [OF assms]] by (simp add: safe_def)

definition live_setting :: setting where
  "live_setting = \<lparr>st_now = 100, st_token = True\<rparr>"

text \<open>A partial compensation that is queued, returned, prepared, and paid without an answer.\<close>

definition sample_world :: world where
  "sample_world = foldl (world_step unary_id) idle_world
     [(live_setting, [], Op_Request (1, Rq_Arrive sample_identity)),
      (live_setting, [], Op_Request (2, Rq_Terminate sample_identity sample_ending)),
      (live_setting, [Reply_Ok None, Reply_Ok (Some ''b'')], Op_Prepare [])]"

theorem paid_at_most_once_witness:
  "payments [] (foldl (world_step unary_id) idle_world
     [(live_setting, [], Op_Request (1, Rq_Arrive sample_identity)),
      (live_setting, [], Op_Request (2, Rq_Terminate sample_identity sample_ending)),
      (live_setting, [Reply_Ok None, Reply_Ok (Some ''b'')], Op_Due),
      (live_setting, [Reply_Ok None], Op_Pay [])]) \<le> 1"
  by (rule paid_at_most_once [OF unary_id_inj])

lemma mark_keeps_row:
  "compensation_of aid (wd_db w) \<noteq> None \<Longrightarrow> compensation_of aid (wd_db (snd (mark x p w))) \<noteq> None"
proof (cases "markProlificAction x p (wd_db w)")
  case (Some d)
  assume "compensation_of aid (wd_db w) \<noteq> None"
  with compensation_marked [OF Some, of aid] Some show ?thesis by (auto simp: mark_def)
qed (simp add: mark_def)

lemma pay_commit_pays:
  assumes "st_token cfg" and "compensation_of (or_id o') (wd_db w) \<noteq> None"
  shows "payments aid (snd (pay_commit cfg o' w)) = payments aid w + (if or_id o' = aid then 1 else 0) \<and>
    compensation_of (or_id o') (wd_db (snd (pay_commit cfg o' w))) \<noteq> None"
proof -
  let ?id = "or_id o'"
  define w1 where "w1 = snd (mark ?id (plain_patch As_Payment_In_Progress) w)"
  have marked: "mark ?id (plain_patch As_Payment_In_Progress) w = (Inr (), w1)"
    using assms(2) by (auto simp: w1_def mark_def markProlificAction_def)
  define call where "call = Call_Pay ?id (the (or_bonusBatchId o'))"
  define w2 where "w2 = snd (prolificFetch cfg call w1)"
  have w1: "compensation_of ?id (wd_db w1) \<noteq> None" "payments aid w1 = payments aid w"
    using mark_keeps_row [OF assms(2)] by (simp_all add: w1_def mark_payments)
  have w2: "compensation_of ?id (wd_db w2) \<noteq> None"
    "payments aid w2 = payments aid w + (if ?id = aid then 1 else 0)"
    using w1 assms(1) by (simp_all add: w2_def payments_fetch call_def)
  note after = mark_keeps_row [OF w2(1)] mark_payments w2
  obtain r where r: "prolificFetch cfg call w1 = (r, w2)"
    by (cases "prolificFetch cfg call w1") (simp add: w2_def)
  note run = pay_commit_def bind_action_def [of "mark ?id (plain_patch As_Payment_In_Progress)"]
    marked call_def snd_bind_throw markPaymentUncertain_def
  show ?thesis
  proof (cases r)
    case (Inl e)
    with r after show ?thesis by (cases e) (simp_all add: run)
  next
    case (Inr a)
    show ?thesis
    proof (cases a)
      case (Reply_Ok body)
      obtain r' w' where m: "mark ?id ((plain_patch As_Payment_Submitted)
          \<lparr>ap_paymentSubmittedAt := Some (st_now cfg)\<rparr>) w2 = (r', w')" by fastforce
      with after have "compensation_of ?id (wd_db w') \<noteq> None" "payments aid w' = payments aid w2"
        by (metis snd_conv)+
      with r Inr Reply_Ok m w2(2) show ?thesis by (cases r') (simp_all add: run)
    qed (use r Inr after in \<open>simp_all add: run\<close>)
  qed
qed

text \<open>
  The guard of payBonus is no claim: two payments of the same outcome that both passed their
  checks before either wrote its guard, as an admin request and the worker can, send the batch to
  Prolific twice.
\<close>

theorem unclaimed_guard_pays_twice:
  assumes "getParticipationOutcomeById aid (wd_db w) = Some o'" and "fst (pay_checks cfg o' w) = Inr ()"
  shows "payments aid (snd (pay_commit cfg o' (snd (pay_commit cfg o' w)))) = payments aid w + 2"
proof -
  have checks: "st_token cfg" "truthy (or_bonusBatchId o')"
    using assms(2) by (auto simp: pay_checks_def throw_action_def split: if_splits)
  then have "compensation_of (or_id o') (wd_db w) \<noteq> None"
    using outcome_fields [OF assms(1)] by (auto split: bind_splits)
  with pay_commit_pays [OF checks(1), of o'] outcome_fields(1) [OF assms(1)] show ?thesis by simp
qed

theorem unclaimed_guard_pays_twice_witness:
  "\<exists>o'. getParticipationOutcomeById [] (wd_db sample_world) = Some o' \<and>
     payments [] (snd (pay_commit live_setting o' (snd (pay_commit live_setting o' sample_world)))) =
     payments [] sample_world + 2"
proof -
  have "case getParticipationOutcomeById [] (wd_db sample_world) of None \<Rightarrow> False
      | Some o' \<Rightarrow> (case fst (pay_checks live_setting o' sample_world) of Inl e \<Rightarrow> False | Inr u \<Rightarrow> True)"
    by code_simp
  then have "\<exists>o'. getParticipationOutcomeById [] (wd_db sample_world) = Some o' \<and>
      fst (pay_checks live_setting o' sample_world) = Inr ()"
    by (auto split: option.splits sum.splits)
  then show ?thesis using unclaimed_guard_pays_twice by blast
qed

end
