(* ===== verification/Runtime_Checkpoint.thy ===== *)
theory Runtime_Checkpoint
  imports Session_Rows
begin

text \<open>
  session-manager/src/store/runtime-checkpoint.ts and session-snapshot.ts: a Chat Service
  checkpoint merged into the normalized tables inside one transaction. An error rolls the
  transaction back, so a failed write is \<open>Inl\<close> and leaves no new tables. The theorems: the
  columns of the session row refine the in-memory merge of Checkpoint_Merge, the tables only
  grow, redactions only spread, and a checkpoint for an unknown session or with a reaction to an
  unknown message is refused as a whole.
\<close>

datatype db_error = Unknown_Session | Foreign_Key | Unique_Violation

definition and_then :: "'e + 'a \<Rightarrow> ('a \<Rightarrow> 'e + 'b) \<Rightarrow> 'e + 'b" where
  "and_then r f = (case r of Inl e \<Rightarrow> Inl e | Inr x \<Rightarrow> f x)"

lemma and_then_simps [simp]: "and_then (Inl e) f = Inl e" "and_then (Inr x) f = f x"
  by (simp_all add: and_then_def)

lemma and_then_Inr: "and_then r f = Inr y \<longleftrightarrow> (\<exists>x. r = Inr x \<and> f x = Inr y)"
  by (cases r) auto

section \<open>Messages and their reactions\<close>

text \<open>\<open>createMany\<close> with \<open>skipDuplicates\<close>: a row whose unique key is taken is left out.\<close>

definition insert_message_rows :: "int \<Rightarrow> string \<Rightarrow> message list \<Rightarrow> message_row list \<Rightarrow> message_row list" where
  "insert_message_rows now sid messages rows =
     foldl (push_new mr_id) rows
       (map (\<lambda>m. \<lparr>mr_id = ms_id m, mr_sessionId = sid, mr_timestamp = toDate now (ms_timestamp m),
                 mr_senderId = ms_senderId m, mr_recipientId = ms_recipientId m,
                 mr_text = ms_text m\<rparr>) messages)"

text \<open>
  A reaction row is created if its event id is free (an absent one always is); its message has
  to exist.
\<close>

definition create_reaction :: "reaction_row \<Rightarrow> db \<Rightarrow> db_error + db" where
  "create_reaction r d =
     (if rw_eventId r \<noteq> None \<and> rw_eventId r \<in> rw_eventId ` set (db_reactions d) then Inr d
      else if rw_messageId r \<notin> mr_id ` set (db_messages d) then Inl Foreign_Key
      else Inr (d\<lparr>db_reactions := db_reactions d @ [r]\<rparr>))"

fun create_reactions :: "reaction_row list \<Rightarrow> db \<Rightarrow> db_error + db" where
  "create_reactions [] d = Inr d"
| "create_reactions (r # rs) d = and_then (create_reaction r d) (create_reactions rs)"

text \<open>The row of a reaction, with the id the database gives it.\<close>

definition reaction_row_of :: "(nat \<Rightarrow> string) \<Rightarrow> nat \<Rightarrow> int \<Rightarrow> string \<Rightarrow> reaction \<Rightarrow> reaction_row" where
  "reaction_row_of uuid n now mid r =
     \<lparr>rw_id = uuid n, rw_messageId = mid, rw_eventId = rx_eventId r, rw_key = rx_key r,
      rw_senderId = rx_senderId r, rw_timestamp = toDate now (rx_timestamp r), rw_redacted = False,
      rw_redactionEventId = None, rw_redactedAt = None\<rparr>"

text \<open>The variables of the loop over the reactions of the delivered messages.\<close>

record reaction_loop =
  rl_db :: db
  rl_seenEventIds :: "string list"
  rl_legacyByKey :: "(string \<times> string) list"
  rl_legacySeen :: "string list"
  rl_pending :: "reaction_row list"

definition set_event_id :: "string \<Rightarrow> string \<Rightarrow> db \<Rightarrow> db_error + db" where
  "set_event_id rowId eventId d =
     (if Some eventId \<in> rw_eventId ` set (filter (\<lambda>r. rw_id r \<noteq> rowId) (db_reactions d))
      then Inl Unique_Violation
      else Inr (d\<lparr>db_reactions :=
        map (\<lambda>r. if rw_id r = rowId then r\<lparr>rw_eventId := Some eventId\<rparr> else r) (db_reactions d)\<rparr>))"

definition push_pending :: "(nat \<Rightarrow> string) \<Rightarrow> int \<Rightarrow> string \<Rightarrow> reaction \<Rightarrow> reaction_loop \<Rightarrow> reaction_loop" where
  "push_pending uuid now mid r l =
     (let d = rl_db l in
      l\<lparr>rl_pending := rl_pending l @ [reaction_row_of uuid (db_nextId d) now mid r],
        rl_db := d\<lparr>db_nextId := db_nextId d + 1\<rparr>\<rparr>)"

definition reaction_iteration ::
    "(nat \<Rightarrow> string) \<Rightarrow> int \<Rightarrow> string \<Rightarrow> reaction \<Rightarrow> reaction_loop \<Rightarrow> db_error + reaction_loop" where
  "reaction_iteration uuid now mid r l =
     (let key = reactionKey mid (rx_key r) (rx_senderId r) in
      if truthy (rx_eventId r) then
        (let eventId = the (rx_eventId r) in
         if eventId \<in> set (rl_seenEventIds l) then Inr l
         else
           let seen = rl_seenEventIds l @ [eventId]; legacyId = om_get (rl_legacyByKey l) key in
           if truthy legacyId then
             and_then (set_event_id (the legacyId) eventId (rl_db l)) (\<lambda>d.
               Inr (l\<lparr>rl_db := d, rl_legacyByKey := om_del key (rl_legacyByKey l),
                      rl_seenEventIds := seen\<rparr>))
           else Inr (push_pending uuid now mid r (l\<lparr>rl_seenEventIds := seen\<rparr>)))
      else if key \<in> set (rl_legacySeen l) then Inr l
      else Inr (push_pending uuid now mid (r\<lparr>rx_eventId := None\<rparr>)
                  (l\<lparr>rl_legacySeen := rl_legacySeen l @ [key]\<rparr>)))"

fun reaction_iterations ::
    "(nat \<Rightarrow> string) \<Rightarrow> int \<Rightarrow> (string \<times> reaction) list \<Rightarrow> reaction_loop \<Rightarrow> db_error + reaction_loop" where
  "reaction_iterations uuid now [] l = Inr l"
| "reaction_iterations uuid now ((mid, r) # rs) l =
     and_then (reaction_iteration uuid now mid r l) (reaction_iterations uuid now rs)"

definition insertMessages ::
    "(nat \<Rightarrow> string) \<Rightarrow> int \<Rightarrow> string \<Rightarrow> message list \<Rightarrow> db \<Rightarrow> db_error + db" where
  "insertMessages uuid now sid messages d =
     (if messages = [] then Inr d
      else
        let d1 = d\<lparr>db_messages := insert_message_rows now sid messages (db_messages d)\<rparr>;
            existing = filter (\<lambda>r. rw_messageId r \<in> ms_id ` set messages) (db_reactions d1);
            legacy = keyed fst (map (\<lambda>r. (reactionKey (rw_messageId r) (rw_key r) (rw_senderId r), rw_id r))
              (filter (\<lambda>r. \<not> truthy (rw_eventId r)) existing));
            legacyByKey = om_values legacy
        in and_then
             (reaction_iterations uuid now
               (concat (map (\<lambda>m. map (Pair (ms_id m)) (ms_reactions m)) messages))
               \<lparr>rl_db = d1,
                rl_seenEventIds =
                  map (the \<circ> rw_eventId) (filter (truthy \<circ> rw_eventId) existing),
                rl_legacyByKey = legacyByKey, rl_legacySeen = map fst legacyByKey, rl_pending = []\<rparr>)
             (\<lambda>l. create_reactions (rl_pending l) (rl_db l)))"

section \<open>Recorded reactions and redactions\<close>

definition recorded_row :: "(nat \<Rightarrow> string) \<Rightarrow> nat \<Rightarrow> int \<Rightarrow> recorded_reaction \<Rightarrow> reaction_row" where
  "recorded_row uuid n now r =
     \<lparr>rw_id = uuid n, rw_messageId = rr_messageId r, rw_eventId = Some (rr_eventId r),
      rw_key = rr_key r, rw_senderId = rr_senderId r, rw_timestamp = toDate now (rr_timestamp r),
      rw_redacted = rr_redacted r, rw_redactionEventId = rr_redactionEventId r,
      rw_redactedAt = toOptionalDate now (rr_redactedAt r)\<rparr>"

definition mark_recorded :: "int \<Rightarrow> recorded_reaction \<Rightarrow> reaction_row \<Rightarrow> reaction_row" where
  "mark_recorded now r row =
     (if rw_eventId row \<noteq> Some (rr_eventId r) then row
      else row\<lparr>rw_redacted := True,
               rw_redactionEventId :=
                 (if truthy (rr_redactionEventId r) then rr_redactionEventId r
                  else rw_redactionEventId row),
               rw_redactedAt :=
                 (case toOptionalDate now (rr_redactedAt r) of None \<Rightarrow> rw_redactedAt row
                  | Some t \<Rightarrow> Some t)\<rparr>)"

definition insertReactionEvents ::
    "(nat \<Rightarrow> string) \<Rightarrow> int \<Rightarrow> recorded_reaction list \<Rightarrow> db \<Rightarrow> db_error + db" where
  "insertReactionEvents uuid now events d =
     (if events = [] then Inr d
      else
        and_then
          (create_reactions
            (map (\<lambda>(i, r). recorded_row uuid (db_nextId d + i) now r) (enumerate 0 events))
            (d\<lparr>db_nextId := db_nextId d + length events\<rparr>))
          (\<lambda>d. Inr (d\<lparr>db_reactions :=
             foldl (\<lambda>rows r. map (mark_recorded now r) rows) (db_reactions d)
               (filter rr_redacted events)\<rparr>)))"

definition markReactionsRedacted :: "string list \<Rightarrow> db \<Rightarrow> db" where
  "markReactionsRedacted ids d =
     (if ids = [] then d
      else d\<lparr>db_reactions :=
        map (\<lambda>r. if rw_eventId r \<in> Some ` set ids then r\<lparr>rw_redacted := True\<rparr> else r)
          (db_reactions d)\<rparr>)"

section \<open>Rankings, interventions, windows\<close>

definition appendRankingHistory :: "string \<Rightarrow> ranking list \<Rightarrow> db \<Rightarrow> db" where
  "appendRankingHistory sid rankingHistory d =
     (let stored = session_rankings d sid;
          storedRankings = map kr_ranking stored;
          newRankings = drop (length storedRankings)
            (append_unique rankingKey storedRankings rankingHistory)
      in if newRankings = [] then d
         else
           let nextPosition = foldl max (-1) (map kr_position stored) + 1 in
           d\<lparr>db_rankings := db_rankings d @
             map (\<lambda>(offset, r). \<lparr>kr_sessionId = sid, kr_position = nextPosition + int offset,
                                kr_ranking = r\<rparr>)
               (enumerate 0 newRankings)\<rparr>)"

definition insertInterventions :: "int \<Rightarrow> string \<Rightarrow> intervention_log list \<Rightarrow> db \<Rightarrow> db" where
  "insertInterventions now sid interventions d =
     d\<lparr>db_interventions := foldl (push_new ir_id) (db_interventions d)
       (map (\<lambda>i. \<lparr>ir_id = il_id i, ir_sessionId = sid, ir_timestamp = toDate now (il_timestamp i),
                 ir_payload = i\<rparr>) interventions)\<rparr>"

definition insertWindowEvaluations :: "string \<Rightarrow> window_evaluation list \<Rightarrow> db \<Rightarrow> db" where
  "insertWindowEvaluations sid evaluations d =
     d\<lparr>db_windows := foldl (push_new wr_id) (db_windows d)
       (map (\<lambda>w. \<lparr>wr_id = we_id w, wr_sessionId = sid, wr_windowIndex = we_windowIndex w,
                 wr_payload = w\<rparr>) evaluations)\<rparr>"

section \<open>The session row\<close>

definition mergedSessionState :: "ranking list \<Rightarrow> checkpoint \<Rightarrow> session_row \<Rightarrow> session_row" where
  "mergedSessionState storedRankings cp current =
     (let accepts = acceptsCheckpointState (cp_revision cp) (sr_checkpointRevision current);
          history = cp_rankingHistory cp;
          newest = (if history = [] then sr_ranking current else last history);
          latestRanking =
            (if cp_revision cp \<noteq> None then newest
             else if storedRankings = [] then newest
             else newestRanking (sr_ranking current) history)
      in current\<lparr>sr_ranking := (if accepts \<and> history \<noteq> [] then latestRanking else sr_ranking current),
           sr_behavioralEvents :=
             mergeCheckpointValues be_id accepts (sr_behavioralEvents current) (cp_behavioralEvents cp),
           sr_classifications :=
             mergeCheckpointValues cc_messageId accepts (sr_classifications current)
               (cp_contributionClassifications cp),
           sr_classificationFailures :=
             mergeCheckpointValues cf_messageId accepts (sr_classificationFailures current)
               (cp_classificationFailures cp),
           sr_processedEventIds := uniq (sr_processedEventIds current @ cp_processedEventIds cp),
           sr_runtimeState :=
             (if accepts then object_assign (sr_runtimeState current) (cp_ruleState cp)
              else sr_runtimeState current),
           sr_checkpointRevision :=
             (if accepts then orelse (cp_revision cp) (sr_checkpointRevision current)
              else sr_checkpointRevision current)\<rparr>)"

definition session_row_of :: "db \<Rightarrow> string \<Rightarrow> session_row option" where
  "session_row_of d sid = find (\<lambda>r. sr_id r = sid) (db_sessions d)"

definition update_session_row :: "string \<Rightarrow> (session_row \<Rightarrow> session_row) \<Rightarrow> db \<Rightarrow> db" where
  "update_session_row sid f d =
     d\<lparr>db_sessions := map (\<lambda>r. if sr_id r = sid then f r else r) (db_sessions d)\<rparr>"

definition persistRuntimeCheckpoint ::
    "(nat \<Rightarrow> string) \<Rightarrow> int \<Rightarrow> string \<Rightarrow> checkpoint \<Rightarrow> db \<Rightarrow> db_error + db" where
  "persistRuntimeCheckpoint uuid now sid checkpoint d =
     (case session_row_of d sid of
        None \<Rightarrow> Inl Unknown_Session
      | Some current \<Rightarrow>
          let cp = (if raw_workspaceMode (cd_config (sr_conditionSnapshot current)) = Some ''etherpad''
                    then withoutRanking checkpoint else checkpoint);
              storedRankings = map kr_ranking (session_rankings d sid)
          in and_then (insertMessages uuid now sid (cp_messages cp) d) (\<lambda>d.
             and_then (insertReactionEvents uuid now (cp_reactionEvents cp) d) (\<lambda>d.
             Inr (update_session_row sid (mergedSessionState storedRankings cp)
               (insertWindowEvaluations sid (cp_windowEvaluations cp)
                 (insertInterventions now sid (cp_interventions cp)
                   (appendRankingHistory sid (cp_rankingHistory cp)
                     (markReactionsRedacted (cp_redactedReactionEventIds cp) d))))))))"

section \<open>What the writes may change\<close>

definition row_below :: "reaction_row \<Rightarrow> reaction_row \<Rightarrow> bool" where
  "row_below r r' =
     (rw_id r' = rw_id r \<and> rw_messageId r' = rw_messageId r \<and> rw_key r' = rw_key r \<and>
      rw_senderId r' = rw_senderId r \<and> rw_timestamp r' = rw_timestamp r \<and>
      (rw_redacted r \<longrightarrow> rw_redacted r'))"

definition reactions_below :: "reaction_row list \<Rightarrow> reaction_row list \<Rightarrow> bool" where
  "reactions_below = rows_below row_below"

definition tables_below :: "db \<Rightarrow> db \<Rightarrow> bool" where
  "tables_below d d' =
     (map sr_id (db_sessions d') = map sr_id (db_sessions d) \<and>
      db_participants d' = db_participants d \<and> db_surveys d' = db_surveys d \<and>
      prefix (db_messages d) (db_messages d') \<and> reactions_below (db_reactions d) (db_reactions d') \<and>
      prefix (db_rankings d) (db_rankings d') \<and>
      prefix (db_interventions d) (db_interventions d') \<and> prefix (db_windows d) (db_windows d'))"

text \<open>A write to the messages and reactions only.\<close>

definition chat_write :: "db \<Rightarrow> db \<Rightarrow> bool" where
  "chat_write d d' =
     (db_sessions d' = db_sessions d \<and> db_participants d' = db_participants d \<and>
      db_surveys d' = db_surveys d \<and> db_rankings d' = db_rankings d \<and>
      db_interventions d' = db_interventions d \<and> db_windows d' = db_windows d \<and>
      prefix (db_messages d) (db_messages d') \<and> reactions_below (db_reactions d) (db_reactions d'))"

lemma row_below_refl [simp]: "row_below r r"
  by (simp add: row_below_def)

lemma row_below_trans: "row_below a b \<Longrightarrow> row_below b c \<Longrightarrow> row_below a c"
  by (simp add: row_below_def)

lemma reactions_below_refl [simp]: "reactions_below xs xs"
  by (simp add: reactions_below_def rows_below_refl)

lemma reactions_below_append [simp]: "reactions_below xs (xs @ ys)"
  by (simp add: reactions_below_def rows_below_append)

lemma reactions_below_map: "(\<And>r. row_below r (f r)) \<Longrightarrow> reactions_below xs (map f xs)"
  by (simp add: reactions_below_def rows_below_map)

lemma reactions_below_trans: "reactions_below xs ys \<Longrightarrow> reactions_below ys zs \<Longrightarrow> reactions_below xs zs"
  unfolding reactions_below_def by (rule rows_below_trans) (auto intro: row_below_trans)

lemma chat_write_refl [simp]: "chat_write d d"
  by (simp add: chat_write_def)

lemma chat_write_trans: "chat_write d e \<Longrightarrow> chat_write e f \<Longrightarrow> chat_write d f"
  unfolding chat_write_def by (auto intro: prefix_order.order_trans reactions_below_trans)

lemma create_reaction_write: "create_reaction r d = Inr d' \<Longrightarrow> chat_write d d'"
  by (auto simp: create_reaction_def chat_write_def split: if_splits)

lemma create_reactions_write: "create_reactions rs d = Inr d' \<Longrightarrow> chat_write d d'"
  by (induction rs arbitrary: d) (auto simp: and_then_Inr intro: chat_write_trans create_reaction_write)

lemma set_event_id_write: "set_event_id i e d = Inr d' \<Longrightarrow> chat_write d d'"
  by (auto simp: set_event_id_def chat_write_def row_below_def split: if_splits intro!: reactions_below_map)

lemma push_pending_db: "chat_write d (rl_db l) \<Longrightarrow> chat_write d (rl_db (push_pending uuid now mid r l))"
  by (simp add: push_pending_def chat_write_def Let_def)

lemma reaction_iteration_write:
  "reaction_iteration uuid now mid r l = Inr l' \<Longrightarrow> chat_write (rl_db l) (rl_db l')"
  by (auto simp: reaction_iteration_def Let_def and_then_Inr split: if_splits
      intro!: push_pending_db dest: set_event_id_write)

lemma reaction_iterations_write:
  "reaction_iterations uuid now rs l = Inr l' \<Longrightarrow> chat_write (rl_db l) (rl_db l')"
  by (induction uuid now rs l rule: reaction_iterations.induct)
    (auto simp: and_then_Inr intro: chat_write_trans dest: reaction_iteration_write)

lemma prefix_pushes: "prefix xs (foldl (push_new key) xs ys)"
  using prefix_append_unique [of xs key ys] by (simp add: append_unique_conv)

lemma insertMessages_write: "insertMessages uuid now sid ms d = Inr d' \<Longrightarrow> chat_write d d'"
proof (cases "ms = []")
  case False
  assume "insertMessages uuid now sid ms d = Inr d'"
  then obtain l0 l where l: "reaction_iterations uuid now
      (concat (map (\<lambda>m. map (Pair (ms_id m)) (ms_reactions m)) ms)) l0 = Inr l"
    and db0: "rl_db l0 = d\<lparr>db_messages := insert_message_rows now sid ms (db_messages d)\<rparr>"
    and d': "create_reactions (rl_pending l) (rl_db l) = Inr d'"
    using False by (auto simp: insertMessages_def Let_def and_then_Inr)
  have "chat_write d (rl_db l0)" unfolding db0
    by (simp add: chat_write_def insert_message_rows_def prefix_pushes)
  with reaction_iterations_write [OF l] create_reactions_write [OF d'] show ?thesis
    by (meson chat_write_trans)
qed (simp add: insertMessages_def)

lemma mark_recorded_below: "row_below r (mark_recorded now e r)"
  by (simp add: row_below_def mark_recorded_def)

lemma marks_below: "reactions_below rows (foldl (\<lambda>rows r. map (mark_recorded now r) rows) rows es)"
proof (induction es arbitrary: rows)
  case (Cons e es)
  have "reactions_below rows (map (mark_recorded now e) rows)"
    by (intro reactions_below_map mark_recorded_below)
  then show ?case using Cons.IH [of "map (mark_recorded now e) rows"]
    by (simp add: reactions_below_trans)
qed simp

lemma insertReactionEvents_write: "insertReactionEvents uuid now es d = Inr d' \<Longrightarrow> chat_write d d'"
proof (cases "es = []")
  case False
  assume "insertReactionEvents uuid now es d = Inr d'"
  then obtain d1 d2 where "create_reactions d1 (d\<lparr>db_nextId := db_nextId d + length es\<rparr>) = Inr d2"
    "d' = d2\<lparr>db_reactions := foldl (\<lambda>rows r. map (mark_recorded now r) rows) (db_reactions d2)
       (filter rr_redacted es)\<rparr>"
    using False by (auto simp: insertReactionEvents_def and_then_Inr)
  moreover from this(2) have "chat_write d2 d'" by (simp add: chat_write_def marks_below)
  ultimately show ?thesis by (auto dest!: create_reactions_write simp: chat_write_def
      intro: prefix_order.order_trans reactions_below_trans)
qed (simp add: insertReactionEvents_def)

lemma mark_write: "chat_write d (markReactionsRedacted ids d)"
  by (simp add: markReactionsRedacted_def chat_write_def reactions_below_map row_below_def)

text \<open>A checkpoint that is stored: the tables after the chat part, and the rest of the writes.\<close>

definition stored_checkpoint :: "session_row \<Rightarrow> checkpoint \<Rightarrow> checkpoint" where
  "stored_checkpoint current cp =
     (if raw_workspaceMode (cd_config (sr_conditionSnapshot current)) = Some ''etherpad''
      then withoutRanking cp else cp)"

definition finish_checkpoint :: "int \<Rightarrow> string \<Rightarrow> ranking list \<Rightarrow> checkpoint \<Rightarrow> db \<Rightarrow> db" where
  "finish_checkpoint now sid storedRankings cp d =
     update_session_row sid (mergedSessionState storedRankings cp)
       (insertWindowEvaluations sid (cp_windowEvaluations cp)
         (insertInterventions now sid (cp_interventions cp)
           (appendRankingHistory sid (cp_rankingHistory cp) d)))"

lemma persist_parts:
  assumes "persistRuntimeCheckpoint uuid now sid cp d = Inr d'"
  obtains row d1 d2 where "session_row_of d sid = Some row"
    "insertMessages uuid now sid (cp_messages (stored_checkpoint row cp)) d = Inr d1"
    "insertReactionEvents uuid now (cp_reactionEvents (stored_checkpoint row cp)) d1 = Inr d2"
    "d' = finish_checkpoint now sid (map kr_ranking (session_rankings d sid)) (stored_checkpoint row cp)
       (markReactionsRedacted (cp_redactedReactionEventIds (stored_checkpoint row cp)) d2)"
  using assms
  by (auto simp: persistRuntimeCheckpoint_def stored_checkpoint_def finish_checkpoint_def Let_def
      and_then_Inr split: option.splits)

lemma persist_chat:
  assumes "persistRuntimeCheckpoint uuid now sid cp d = Inr d'"
  obtains row d3 where "session_row_of d sid = Some row" "chat_write d d3"
    "d' = finish_checkpoint now sid (map kr_ranking (session_rankings d sid)) (stored_checkpoint row cp) d3"
  using assms
  by (elim persist_parts)
    (metis chat_write_trans insertMessages_write insertReactionEvents_write mark_write)

section \<open>The session row refines the in-memory merge\<close>

text \<open>What the session row and the ranking history hold of a session.\<close>

definition durable_state :: "session \<Rightarrow> ranking \<times> ranking list \<times> behavioral_event list \<times>
    contribution_classification list \<times> classification_failure list \<times> string list \<times> rule_state \<times>
    rat option" where
  "durable_state s =
     (se_ranking s, se_rankingHistory s, se_behavioralEvents s, se_contributionClassifications s,
      se_classificationFailures s, se_processedEventIds s, se_runtimeState s,
      se_checkpointRevision s)"

definition load_session :: "db \<Rightarrow> string \<Rightarrow> session option" where
  "load_session d sid = map_option (sessionFromRow d) (session_row_of d sid)"

lemma sort_key_append_greater:
  assumes "\<forall>x\<in>set xs. \<forall>y\<in>set ys. f x < f y" and "sorted (map f ys)"
  shows "sort_key f (xs @ ys) = sort_key f xs @ ys"
proof (rule properties_for_sort_key)
  show "mset (sort_key f xs @ ys) = mset (xs @ ys)" by simp
  show "sorted (map f (sort_key f xs @ ys))" using assms by (force simp: sorted_append)
  fix k
  show "filter (\<lambda>x. f k = f x) (sort_key f xs @ ys) = filter (\<lambda>x. f k = f x) (xs @ ys)"
    by (simp add: eq_commute [of "f k"] sort_key_stable)
qed

lemma foldl_max_ge: "(b :: int) \<le> foldl max b xs \<and> (\<forall>x\<in>set xs. x \<le> foldl max b xs)"
proof (induction xs arbitrary: b)
  case (Cons x xs)
  from Cons [of "max b x"] show ?case by auto
qed simp

lemma session_rankings_append:
  "map kr_ranking (session_rankings (appendRankingHistory sid history d) sid) =
     append_unique rankingKey (map kr_ranking (session_rankings d sid)) history"
proof -
  let ?stored = "session_rankings d sid"
  let ?new = "drop (length (map kr_ranking ?stored))
    (append_unique rankingKey (map kr_ranking ?stored) history)"
  have whole: "append_unique rankingKey (map kr_ranking ?stored) history = map kr_ranking ?stored @ ?new"
    using prefix_append_unique [of "map kr_ranking ?stored" rankingKey history]
    by (auto simp: prefix_def)
  show ?thesis
  proof (cases "?new = []")
    case True
    then show ?thesis using whole by (simp add: appendRankingHistory_def Let_def)
  next
    case False
    define next_pos where "next_pos = foldl max (-1) (map kr_position ?stored) + 1"
    define rows where "rows = map (\<lambda>(offset, r). \<lparr>kr_sessionId = sid,
      kr_position = next_pos + int offset, kr_ranking = r\<rparr>) (enumerate 0 ?new)"
    have mine: "filter (\<lambda>r. kr_sessionId r = sid) rows = rows"
      by (auto simp: rows_def filter_id_conv)
    have "\<forall>x\<in>set (filter (\<lambda>r. kr_sessionId r = sid) (db_rankings d)). kr_position x < next_pos"
      using foldl_max_ge [of "-1" "map kr_position ?stored"]
      by (fastforce simp: next_pos_def session_rankings_def)
    then have above: "\<forall>x\<in>set (filter (\<lambda>r. kr_sessionId r = sid) (db_rankings d)).
        \<forall>y\<in>set rows. kr_position x < kr_position y"
      by (fastforce simp: rows_def)
    have "sorted (map kr_position rows)"
      by (auto simp: rows_def sorted_iff_nth_mono nth_enumerate_eq)
    with above have "sort_key kr_position (filter (\<lambda>r. kr_sessionId r = sid) (db_rankings d) @ rows) =
        ?stored @ rows"
      unfolding session_rankings_def by (rule sort_key_append_greater)
    moreover have "map kr_ranking rows = ?new"
      by (simp add: rows_def comp_def case_prod_unfold)
    moreover have "appendRankingHistory sid history d = d\<lparr>db_rankings := db_rankings d @ rows\<rparr>"
      using False by (simp only: appendRankingHistory_def Let_def if_False rows_def next_pos_def)
    then have "session_rankings (appendRankingHistory sid history d) sid =
        sort_key kr_position (filter (\<lambda>r. kr_sessionId r = sid) (db_rankings d) @ rows)"
      by (simp add: session_rankings_def mine)
    ultimately show ?thesis using whole by simp
  qed
qed

lemma session_row_of_update:
  "(\<And>r. sr_id (f r) = sr_id r) \<Longrightarrow>
     session_row_of (update_session_row sid f d) sid = map_option f (session_row_of d sid)"
  unfolding session_row_of_def update_session_row_def by (simp add: find_map_update)

lemma merged_row_id [simp]: "sr_id (mergedSessionState stored cp row) = sr_id row"
  by (simp add: mergedSessionState_def Let_def)

lemma finish_sessions:
  "session_row_of (finish_checkpoint now sid stored cp d) sid =
     map_option (mergedSessionState stored cp) (session_row_of d sid)"
  unfolding finish_checkpoint_def
  by (subst session_row_of_update)
    (simp_all add: session_row_of_def insertWindowEvaluations_def insertInterventions_def
        appendRankingHistory_def Let_def)

lemma finish_rankings:
  "session_rankings (finish_checkpoint now sid stored cp d) sid =
     session_rankings (appendRankingHistory sid (cp_rankingHistory cp) d) sid"
  by (simp add: finish_checkpoint_def session_rankings_def update_session_row_def
      insertWindowEvaluations_def insertInterventions_def)

lemma row_of_id: "session_row_of d sid = Some row \<Longrightarrow> sr_id row = sid"
  by (auto simp: session_row_of_def find_Some_iff)

lemma durable_load:
  "sr_id row = sid \<Longrightarrow> durable_state (sessionFromRow d row) =
     (sr_ranking row, map kr_ranking (session_rankings d sid), sr_behavioralEvents row,
      sr_classifications row, sr_classificationFailures row, sr_processedEventIds row,
      sr_runtimeState row, Some (sr_checkpointRevision row))"
  by (simp add: durable_state_def sessionFromRow_def Let_def)

lemma effective_load: "effective_checkpoint (sessionFromRow d row) cp = stored_checkpoint row cp"
  by (simp add: effective_checkpoint_def stored_checkpoint_def sessionFromRow_def Let_def)

lemma durable_merge:
  fixes d row cp
  defines "s \<equiv> sessionFromRow d row" and "e \<equiv> stored_checkpoint row cp"
  shows "durable_state (mergeCheckpointIntoSession s cp) =
     (let r = mergedSessionState (map kr_ranking (session_rankings d (sr_id row))) e row in
      (sr_ranking r,
       append_unique rankingKey (map kr_ranking (session_rankings d (sr_id row))) (cp_rankingHistory e),
       sr_behavioralEvents r, sr_classifications r, sr_classificationFailures r,
       sr_processedEventIds r, sr_runtimeState r, Some (sr_checkpointRevision r)))"
proof -
  have acc: "accepts_state s e = acceptsCheckpointState (cp_revision e) (sr_checkpointRevision row)"
    by (simp add: accepts_state_def s_def sessionFromRow_def Let_def)
  have eff: "effective_checkpoint s cp = e" by (simp add: s_def e_def effective_load)
  have "cp_revision e = None \<or> (\<exists>r. cp_revision e = Some r)" by (cases "cp_revision e") auto
  then show ?thesis
    unfolding durable_state_def merge_fields eff acc Let_def
    by (auto simp: s_def sessionFromRow_def mergedSessionState_def Let_def)
qed

lemma finish_tables:
  "tables_below d (finish_checkpoint now sid stored cp d)"
  by (simp add: tables_below_def finish_checkpoint_def update_session_row_def insertWindowEvaluations_def
      insertInterventions_def appendRankingHistory_def Let_def prefix_pushes cong: map_cong)

lemma chat_write_tables: "chat_write d e \<Longrightarrow> tables_below e f \<Longrightarrow> tables_below d f"
  by (auto simp: chat_write_def tables_below_def intro: prefix_order.order_trans reactions_below_trans)

section \<open>Redactions\<close>

lemma redacted_mark:
  "list_all rw_redacted (filter (\<lambda>r. rw_eventId r \<in> Some ` set ids)
     (db_reactions (markReactionsRedacted ids d)))"
  by (auto simp: markReactionsRedacted_def list_all_iff)

lemma finish_reactions [simp]:
  "db_reactions (finish_checkpoint now sid stored cp d) = db_reactions d"
  "db_messages (finish_checkpoint now sid stored cp d) = db_messages d"
  by (simp_all add: finish_checkpoint_def update_session_row_def insertWindowEvaluations_def
      insertInterventions_def appendRankingHistory_def Let_def)

lemma stored_redactions [simp]:
  "cp_redactedReactionEventIds (stored_checkpoint row cp) = cp_redactedReactionEventIds cp"
  "cp_reactionEvents (stored_checkpoint row cp) = cp_reactionEvents cp"
  "cp_messages (stored_checkpoint row cp) = cp_messages cp"
  "cp_interventions (stored_checkpoint row cp) = cp_interventions cp"
  "cp_windowEvaluations (stored_checkpoint row cp) = cp_windowEvaluations cp"
  by (simp_all add: stored_checkpoint_def withoutRanking_def)

lemma mark_events [simp]: "map rw_eventId (map (mark_recorded now e) rows) = map rw_eventId rows"
  by (auto simp: mark_recorded_def)

lemma marks_events:
  "map rw_eventId (foldl (\<lambda>rows r. map (mark_recorded now r) rows) rows es) = map rw_eventId rows"
proof (induction es arbitrary: rows)
  case (Cons e es)
  show ?case using Cons.IH [of "map (mark_recorded now e) rows"] mark_events [of now e rows] by simp
qed simp

lemma marks_redact:
  "e \<in> set es \<Longrightarrow> r \<in> set (foldl (\<lambda>rows r. map (mark_recorded now r) rows) rows es) \<Longrightarrow>
     rw_eventId r = Some (rr_eventId e) \<Longrightarrow> rw_redacted r"
proof (induction es arbitrary: r rule: rev_induct)
  case (snoc f es)
  from snoc.prems(2) obtain r0
    where r0: "r0 \<in> set (foldl (\<lambda>rows r. map (mark_recorded now r) rows) rows es)"
      and r: "r = mark_recorded now f r0" by auto
  show ?case
  proof (cases "rw_eventId r0 = Some (rr_eventId f)")
    case True
    then show ?thesis by (simp add: r mark_recorded_def)
  next
    case False
    with r have "r = r0" by (simp add: mark_recorded_def)
    with False snoc r0 show ?thesis by auto
  qed
qed simp

lemma insertReactionEvents_redact:
  assumes "insertReactionEvents uuid now es d = Inr d'" and "e \<in> set es" "rr_redacted e"
    and "r \<in> set (db_reactions d')" "rw_eventId r = Some (rr_eventId e)"
  shows "rw_redacted r"
  using assms marks_redact [of e "filter rr_redacted es" r now]
  by (auto simp: insertReactionEvents_def and_then_Inr split: if_splits)

section \<open>Nothing delivered is dropped\<close>

lemma create_reaction_event:
  "create_reaction r d = Inr d' \<Longrightarrow> rw_eventId r \<noteq> None \<Longrightarrow> rw_eventId r \<in> rw_eventId ` set (db_reactions d')"
  by (auto simp: create_reaction_def split: if_splits)

lemma create_reactions_keep:
  "create_reactions rs d = Inr d' \<Longrightarrow> set (db_reactions d) \<subseteq> set (db_reactions d')"
proof (induction rs arbitrary: d)
  case (Cons r rs)
  then obtain e where "create_reaction r d = Inr e" "create_reactions rs e = Inr d'"
    by (auto simp: and_then_Inr)
  moreover from this(1) have "set (db_reactions d) \<subseteq> set (db_reactions e)"
    by (auto simp: create_reaction_def split: if_splits)
  ultimately show ?case using Cons.IH by blast
qed simp

lemma create_reactions_events:
  "create_reactions rs d = Inr d' \<Longrightarrow> r \<in> set rs \<Longrightarrow> rw_eventId r \<noteq> None \<Longrightarrow>
     rw_eventId r \<in> rw_eventId ` set (db_reactions d')"
proof (induction rs arbitrary: d)
  case (Cons s rs)
  then obtain e where e: "create_reaction s d = Inr e" "create_reactions rs e = Inr d'"
    by (auto simp: and_then_Inr)
  show ?case
  proof (cases "r = s")
    case True
    with create_reaction_event [OF e(1)] Cons.prems(3) create_reactions_keep [OF e(2)] show ?thesis by blast
  next
    case False
    with Cons e show ?thesis by auto
  qed
qed simp

lemma insertReactionEvents_events:
  assumes "insertReactionEvents uuid now es d = Inr d'"
  shows "Some ` rr_eventId ` set es \<subseteq> rw_eventId ` set (db_reactions d')"
proof (cases "es = []")
  case False
  with assms obtain d2 where
    d2: "create_reactions (map (\<lambda>(i, r). recorded_row uuid (db_nextId d + i) now r) (enumerate 0 es))
      (d\<lparr>db_nextId := db_nextId d + length es\<rparr>) = Inr d2"
    and d': "d' = d2\<lparr>db_reactions := foldl (\<lambda>rows r. map (mark_recorded now r) rows) (db_reactions d2)
       (filter rr_redacted es)\<rparr>"
    by (auto simp: insertReactionEvents_def and_then_Inr)
  have "map rw_eventId (db_reactions d') = map rw_eventId (db_reactions d2)"
    by (simp add: d' marks_events)
  then have events: "rw_eventId ` set (db_reactions d') = rw_eventId ` set (db_reactions d2)"
    by (metis set_map)
  have "Some (rr_eventId e) \<in> rw_eventId ` set (db_reactions d2)" if "e \<in> set es" for e
  proof -
    from that obtain i where "i < length es" "es ! i = e" by (auto simp: in_set_conv_nth)
    then have "recorded_row uuid (db_nextId d + i) now e \<in>
        set (map (\<lambda>(i, r). recorded_row uuid (db_nextId d + i) now r) (enumerate 0 es))"
      by (auto simp: in_set_enumerate_eq intro!: image_eqI [where x = "(i, e)"])
    from create_reactions_events [OF d2 this] show ?thesis by (simp add: recorded_row_def)
  qed
  with events show ?thesis by auto
qed simp

lemma push_rows_keys: "key ` set (foldl (push_new key) xs ys) = key ` set xs \<union> key ` set ys"
  using oldest.merge_keys [of key xs ys] by (simp add: append_unique_conv)

lemma insertMessages_ids:
  assumes "insertMessages uuid now sid ms d = Inr d'"
  shows "ms_id ` set ms \<subseteq> mr_id ` set (db_messages d')"
proof (cases "ms = []")
  case False
  with assms obtain l0 l where l: "reaction_iterations uuid now
      (concat (map (\<lambda>m. map (Pair (ms_id m)) (ms_reactions m)) ms)) l0 = Inr l"
    and db0: "db_messages (rl_db l0) = insert_message_rows now sid ms (db_messages d)"
    and d': "create_reactions (rl_pending l) (rl_db l) = Inr d'"
    by (auto simp: insertMessages_def Let_def and_then_Inr)
  have "prefix (insert_message_rows now sid ms (db_messages d)) (db_messages d')"
    using reaction_iterations_write [OF l] create_reactions_write [OF d'] db0
    by (auto simp: chat_write_def intro: prefix_order.order_trans)
  then have "mr_id ` set (insert_message_rows now sid ms (db_messages d)) \<subseteq> mr_id ` set (db_messages d')"
    by (intro image_mono set_mono_prefix)
  moreover have "ms_id ` set ms \<subseteq> mr_id ` set (insert_message_rows now sid ms (db_messages d))"
    unfolding insert_message_rows_def push_rows_keys by (auto simp: image_image)
  ultimately show ?thesis by blast
qed simp

lemma finish_ids:
  "il_id ` set (cp_interventions cp) \<subseteq>
     ir_id ` set (db_interventions (finish_checkpoint now sid stored cp d))"
  "we_id ` set (cp_windowEvaluations cp) \<subseteq>
     wr_id ` set (db_windows (finish_checkpoint now sid stored cp d))"
  by (auto simp: finish_checkpoint_def update_session_row_def insertWindowEvaluations_def
      insertInterventions_def push_rows_keys image_image)

section \<open>A stored session, for the examples\<close>

definition sample_db :: db where
  "sample_db =
     \<lparr>db_sessions = [sessionCreateData 0 sample_session], db_participants = [], db_surveys = [],
      db_messages = insert_message_rows 0 ''s1'' (se_messages sample_session) [],
      db_reactions = map (reaction_row_of (\<lambda>_. ''r0'') 0 0 ''m1'')
        (concat (map ms_reactions (se_messages sample_session))),
      db_rankings = [], db_interventions = [], db_windows = [], db_nextId = 1\<rparr>"

definition sample_uuid :: "nat \<Rightarrow> string" where
  "sample_uuid n = replicate n CHR ''r''"

lemma sample_persist: "\<exists>d'. persistRuntimeCheckpoint sample_uuid 9 ''s1'' (sample_checkpoint (Some 4)) sample_db = Inr d'"
  by (simp add: persistRuntimeCheckpoint_def sample_db_def session_row_of_def sessionCreateData_def
      sample_session_def sample_condition_def sample_checkpoint_def insertMessages_def Let_def
      sample_message_def insert_message_rows_def push_new_def reaction_row_of_def keyed_def
      om_values_def reaction_iteration_def insertReactionEvents_def push_pending_def
      create_reaction_def)

section \<open>Properties\<close>

text \<open>
  C21: The durable merge refines the in-memory one: reading the session back after its checkpoint
  was persisted gives the ranking, the ranking history, the telemetry, the classifications and
  failures, the processed event ids, the rule state and the revision that merging the checkpoint
  into the session read before would have given, stale and unversioned checkpoints included.
\<close>

theorem persist_refines_merge:
  assumes "persistRuntimeCheckpoint uuid now sid cp d = Inr d'"
  shows "map_option durable_state (load_session d' sid) =
    map_option (\<lambda>s. durable_state (mergeCheckpointIntoSession s cp)) (load_session d sid)"
proof -
  from persist_chat [OF assms] obtain row d3
    where row: "session_row_of d sid = Some row" and chat: "chat_write d d3"
      and d': "d' = finish_checkpoint now sid (map kr_ranking (session_rankings d sid))
        (stored_checkpoint row cp) d3" .
  have id: "sr_id row = sid" using row by (rule row_of_id)
  have same: "session_row_of d3 sid = Some row" "session_rankings d3 sid = session_rankings d sid"
    using chat row by (simp_all add: chat_write_def session_row_of_def session_rankings_def)
  then have row': "session_row_of d' sid =
      Some (mergedSessionState (map kr_ranking (session_rankings d sid)) (stored_checkpoint row cp) row)"
    by (simp add: d' finish_sessions)
  have "map kr_ranking (session_rankings d' sid) =
      append_unique rankingKey (map kr_ranking (session_rankings d sid))
        (cp_rankingHistory (stored_checkpoint row cp))"
    by (simp add: d' finish_rankings session_rankings_append same(2))
  with row row' id show ?thesis
    by (simp add: load_session_def durable_merge durable_load [where sid = sid] Let_def)
qed

theorem persist_refines_merge_witness:
  "\<exists>d'. persistRuntimeCheckpoint sample_uuid 9 ''s1'' (sample_checkpoint (Some 4)) sample_db = Inr d' \<and>
     map_option durable_state (load_session d' ''s1'') =
     map_option (\<lambda>s. durable_state (mergeCheckpointIntoSession s (sample_checkpoint (Some 4))))
       (load_session sample_db ''s1'')"
  using sample_persist persist_refines_merge by blast

text \<open>
  Persisting a checkpoint deletes nothing: the message, ranking, intervention and window
  tables keep their rows and only get longer, every reaction row keeps its place, its message,
  its key and its sender, and a redacted reaction stays redacted.
\<close>

theorem persist_only_grows:
  assumes "persistRuntimeCheckpoint uuid now sid cp d = Inr d'"
  shows "tables_below d d'"
  using assms by (elim persist_chat) (auto intro: chat_write_tables finish_tables)

theorem persist_only_grows_witness:
  "\<exists>d'. persistRuntimeCheckpoint sample_uuid 9 ''s1'' (sample_checkpoint (Some 4)) sample_db = Inr d' \<and>
     tables_below sample_db d'"
  using sample_persist persist_only_grows by blast

text \<open>
  A checkpoint is stored as a whole: when persisting succeeds, every message, recorded
  reaction, intervention and window record it carries has a row, and every reaction it says is
  redacted is redacted in the tables.
\<close>

theorem persist_stores_everything:
  assumes "persistRuntimeCheckpoint uuid now sid cp d = Inr d'"
  shows "ms_id ` set (cp_messages cp) \<subseteq> mr_id ` set (db_messages d') \<and>
    Some ` rr_eventId ` set (cp_reactionEvents cp) \<subseteq> rw_eventId ` set (db_reactions d') \<and>
    il_id ` set (cp_interventions cp) \<subseteq> ir_id ` set (db_interventions d') \<and>
    we_id ` set (cp_windowEvaluations cp) \<subseteq> wr_id ` set (db_windows d') \<and>
    list_all rw_redacted (filter (\<lambda>r. rw_eventId r \<in>
        Some ` (set (cp_redactedReactionEventIds cp) \<union> rr_eventId ` set (filter rr_redacted (cp_reactionEvents cp))))
      (db_reactions d'))"
proof -
  from persist_parts [OF assms] obtain row d1 d2
    where m: "insertMessages uuid now sid (cp_messages cp) d = Inr d1"
      and r: "insertReactionEvents uuid now (cp_reactionEvents cp) d1 = Inr d2"
      and d': "d' = finish_checkpoint now sid (map kr_ranking (session_rankings d sid))
        (stored_checkpoint row cp) (markReactionsRedacted (cp_redactedReactionEventIds cp) d2)"
    by (metis stored_redactions(1-3))
  let ?d3 = "markReactionsRedacted (cp_redactedReactionEventIds cp) d2"
  have "map rw_eventId (db_reactions ?d3) = map rw_eventId (db_reactions d2)"
    by (simp add: markReactionsRedacted_def)
  then have events: "rw_eventId ` set (db_reactions ?d3) = rw_eventId ` set (db_reactions d2)"
    by (metis set_map)
  have messages: "db_messages ?d3 = db_messages d2" by (simp add: markReactionsRedacted_def)
  have "ms_id ` set (cp_messages cp) \<subseteq> mr_id ` set (db_messages d2)"
    using insertMessages_ids [OF m] insertReactionEvents_write [OF r]
    by (auto simp: chat_write_def dest!: set_mono_prefix)
  moreover have "Some ` rr_eventId ` set (cp_reactionEvents cp) \<subseteq> rw_eventId ` set (db_reactions ?d3)"
    unfolding events by (rule insertReactionEvents_events [OF r])
  moreover have "rw_redacted x" if x: "x \<in> set (db_reactions ?d3)" "rw_eventId x = Some (rr_eventId e)"
      "e \<in> set (cp_reactionEvents cp)" "rr_redacted e" for x e
  proof -
    from x(1) obtain y where "y \<in> set (db_reactions d2)" "rw_eventId y = rw_eventId x"
      "rw_redacted y \<longrightarrow> rw_redacted x"
      by (auto simp: markReactionsRedacted_def split: if_splits)
    with insertReactionEvents_redact [OF r x(3,4)] x(2) show ?thesis by auto
  qed
  ultimately show ?thesis
    using redacted_mark [of "cp_redactedReactionEventIds cp" d2]
      finish_ids [where cp = "stored_checkpoint row cp"]
    by (auto simp: d' messages list_all_iff)
qed

theorem persist_stores_everything_witness:
  "\<exists>d'. persistRuntimeCheckpoint sample_uuid 9 ''s1'' (sample_checkpoint (Some 4)) sample_db = Inr d' \<and>
     list_all rw_redacted (filter (\<lambda>r. rw_eventId r \<in> {Some ''e1''}) (db_reactions d'))"
proof -
  from sample_persist obtain d'
    where d': "persistRuntimeCheckpoint sample_uuid 9 ''s1'' (sample_checkpoint (Some 4)) sample_db = Inr d'" ..
  from persist_stores_everything [OF d'] d' show ?thesis by (auto simp: sample_checkpoint_def)
qed

end
