(* ===== verification/Study_Outcomes.thy ===== *)
theory Study_Outcomes
  imports Participation
begin

text \<open>
  session-manager/src/sessions/compensation.ts and participation-outcomes.ts: what a participation
  that ends early is paid, and what its participant is told. A number read from the environment
  may be anything \<open>Number\<close> makes of a text, so amounts are computed on \<open>jsnum\<close>. The lemmas: a
  partial payment lies between the floor and the cap and grows with time; with the default rates
  it is ten pence per started minute; and the message shown for an ending speaks of a queued
  partial payment exactly when one is queued.
\<close>

section \<open>Arithmetic on numbers that may not be finite\<close>

fun num_max :: "jsnum \<Rightarrow> jsnum \<Rightarrow> jsnum" where
  "num_max Not_A_Number _ = Not_A_Number"
| "num_max _ Not_A_Number = Not_A_Number"
| "num_max Pos_Inf _ = Pos_Inf"
| "num_max _ Pos_Inf = Pos_Inf"
| "num_max Neg_Inf y = y"
| "num_max x Neg_Inf = x"
| "num_max (Num x) (Num y) = Num (max x y)"

fun num_min :: "jsnum \<Rightarrow> jsnum \<Rightarrow> jsnum" where
  "num_min Not_A_Number _ = Not_A_Number"
| "num_min _ Not_A_Number = Not_A_Number"
| "num_min Neg_Inf _ = Neg_Inf"
| "num_min _ Neg_Inf = Neg_Inf"
| "num_min Pos_Inf y = y"
| "num_min x Pos_Inf = x"
| "num_min (Num x) (Num y) = Num (min x y)"

text \<open>The product of a positive number of minutes and a rate.\<close>

fun num_times :: "rat \<Rightarrow> jsnum \<Rightarrow> jsnum" where
  "num_times x (Num y) = Num (x * y)"
| "num_times x Not_A_Number = Not_A_Number"
| "num_times x Pos_Inf = (if 0 < x then Pos_Inf else if x < 0 then Neg_Inf else Not_A_Number)"
| "num_times x Neg_Inf = (if 0 < x then Neg_Inf else if x < 0 then Pos_Inf else Not_A_Number)"

text \<open>\<open>Number(env ?? d) || d\<close>: neither NaN nor zero counts as configured.\<close>

definition env_number :: "jsnum option \<Rightarrow> rat \<Rightarrow> jsnum" where
  "env_number v d =
     (let n = orelse v (Num d) in if n = Not_A_Number \<or> n = Num 0 then Num d else n)"

section \<open>compensation.ts\<close>

definition PARTIAL_PAYMENT_MIN_PENCE :: rat where "PARTIAL_PAYMENT_MIN_PENCE = 10"
definition DEFAULT_PARTIAL_PAYMENT_PENCE_PER_MINUTE :: rat where
  "DEFAULT_PARTIAL_PAYMENT_PENCE_PER_MINUTE = 10"
definition DEFAULT_PARTIAL_PAYMENT_MAX_PENCE :: rat where "DEFAULT_PARTIAL_PAYMENT_MAX_PENCE = 508"

text \<open>The two environment variables that set the rates.\<close>

record payment_env =
  env_pencePerMinute :: "jsnum option"
  env_maxPence :: "jsnum option"

definition pence_per_minute :: "payment_env \<Rightarrow> jsnum" where
  "pence_per_minute env =
     num_max (Num PARTIAL_PAYMENT_MIN_PENCE)
       (env_number (env_pencePerMinute env) DEFAULT_PARTIAL_PAYMENT_PENCE_PER_MINUTE)"

definition maximum_pence :: "payment_env \<Rightarrow> jsnum" where
  "maximum_pence env =
     num_max (Num PARTIAL_PAYMENT_MIN_PENCE)
       (env_number (env_maxPence env) DEFAULT_PARTIAL_PAYMENT_MAX_PENCE)"

text \<open>A start that cannot be parsed makes every number computed from it NaN.\<close>

definition partialPaymentPence :: "payment_env \<Rightarrow> stamp \<Rightarrow> int \<Rightarrow> jsnum" where
  "partialPaymentPence env startedAt now =
     (case parse_ms startedAt of
        None \<Rightarrow> Not_A_Number
      | Some ms \<Rightarrow>
          let elapsedSeconds = max 1 ((now - ms) div 1000)
          in num_min (maximum_pence env)
               (num_max (Num PARTIAL_PAYMENT_MIN_PENCE)
                 (num_times (of_int \<lceil>of_int elapsedSeconds / (60 :: rat)\<rceil>) (pence_per_minute env))))"

definition disconnectCompensationKind :: "stage \<Rightarrow> compensation_kind" where
  "disconnectCompensationKind s =
     (if s \<in> {St_Waiting, St_Chat, St_Exit} then Ck_Partial
      else if s = St_Entry then Ck_Manual_Review else Ck_None)"

datatype self_outcome = Self_Declined_Consent | Self_Ineligible | Self_Voluntary_Withdrawal

fun outcome_of_self :: "self_outcome \<Rightarrow> outcome" where
  "outcome_of_self Self_Declined_Consent = Oc_Declined_Consent"
| "outcome_of_self Self_Ineligible = Oc_Ineligible"
| "outcome_of_self Self_Voluntary_Withdrawal = Oc_Voluntary_Withdrawal"

definition selfTerminationCompensationKind :: "self_outcome \<Rightarrow> stage \<Rightarrow> compensation_kind" where
  "selfTerminationCompensationKind oc s =
     (if oc = Self_Voluntary_Withdrawal \<and> s \<in> {St_Entry, St_Waiting, St_Chat, St_Exit}
      then Ck_Manual_Review else Ck_None)"

section \<open>participation-outcomes.ts\<close>

definition defaultOutcomeReason :: "outcome \<Rightarrow> string" where
  "defaultOutcomeReason oc =
     (case oc of
        Oc_Declined_Consent \<Rightarrow> ''The participant did not consent to take part.''
      | Oc_Ineligible \<Rightarrow> ''The participant did not meet the study eligibility requirements.''
      | Oc_Voluntary_Withdrawal \<Rightarrow> ''The participant chose to withdraw from the study.''
      | Oc_Connection_Timeout \<Rightarrow>
          ''The participant did not reconnect within the allowed grace period.''
      | _ \<Rightarrow> ''The participation ended before full completion.'')"

text \<open>\<open>a || b\<close> on strings.\<close>

definition or_else :: "string \<Rightarrow> string \<Rightarrow> string" where
  "or_else a b = (if a = [] then b else a)"

definition outcomeUrl :: "study_settings \<Rightarrow> outcome \<Rightarrow> string" where
  "outcomeUrl s oc =
     (case oc of
        Oc_Declined_Consent \<Rightarrow> ss_noConsentUrl s
      | Oc_Ineligible \<Rightarrow> ss_ineligibleUrl s
      | Oc_Voluntary_Withdrawal \<Rightarrow> ss_withdrawalUrl s
      | Oc_Connection_Timeout \<Rightarrow> or_else (ss_technicalFailureUrl s) (ss_withdrawalUrl s)
      | Oc_Unmatched \<Rightarrow> ss_unmatchedUrl s
      | Oc_Technical_Failure \<Rightarrow> or_else (ss_technicalFailureUrl s) (ss_unmatchedUrl s)
      | Oc_Participant_Dropout \<Rightarrow> or_else (ss_technicalFailureUrl s) (ss_unmatchedUrl s)
      | Oc_Group_Aborted \<Rightarrow> or_else (ss_technicalFailureUrl s) (ss_unmatchedUrl s)
      | Oc_Completed \<Rightarrow> ss_compensationUrl s)"

definition outcomeMessage :: "outcome option \<Rightarrow> compensation_kind option \<Rightarrow> string" where
  "outcomeMessage oc kind =
     (case oc of
        Some Oc_Declined_Consent \<Rightarrow>
          ''You have not entered the study. Please return your submission on Prolific.''
      | Some Oc_Ineligible \<Rightarrow>
          ''You cannot continue with this study. Please follow the return instructions.''
      | Some Oc_Voluntary_Withdrawal \<Rightarrow>
          if kind = Some Ck_Manual_Review
          then ''Your withdrawal was recorded. The researcher will review the time you spent.''
          else ''Your withdrawal was recorded. Please return your submission on Prolific.''
      | Some Oc_Connection_Timeout \<Rightarrow>
          if kind = Some Ck_Partial
          then ''Your connection was lost and the reconnect window expired. '' @
               ''Your partial payment has been queued for review.''
          else ''Your connection was lost and the reconnect window expired. '' @
               ''Please follow the Prolific return instructions.''
      | Some Oc_Unmatched \<Rightarrow>
          ''A complete group could not be formed. Your partial payment has been queued for review.''
      | Some Oc_Technical_Failure \<Rightarrow>
          ''The study could not continue. Your partial payment has been queued for review.''
      | Some Oc_Group_Aborted \<Rightarrow>
          ''The study could not continue. Your partial payment has been queued for review.''
      | Some Oc_Participant_Dropout \<Rightarrow>
          ''Your participation ended before the group task finished. '' @
          ''The researcher will review compensation.''
      | Some Oc_Completed \<Rightarrow> ''Your participation is complete.''
      | None \<Rightarrow> ''Your participation has ended.'')"

record outcome_response =
  op_outcome :: outcome
  op_compensationKind :: "compensation_kind option"
  op_compensationAmountPence :: "rat option"
  op_redirectUrl :: string
  op_message :: string

text \<open>\<open>record.outcome!\<close>: the callers pass a record with an outcome.\<close>

definition toOutcomeResponse :: "outcome_record \<Rightarrow> study_settings \<Rightarrow> outcome_response" where
  "toOutcomeResponse r settings =
     (let a = or_arrival r; oc = the (pa_outcome a) in
      \<lparr>op_outcome = oc, op_compensationKind = pa_compensationKind a,
       op_compensationAmountPence = pa_compensationAmountPence a,
       op_redirectUrl = outcomeUrl settings oc,
       op_message = outcomeMessage (pa_outcome a) (pa_compensationKind a)\<rparr>)"

section \<open>The endings the Session Manager records\<close>

text \<open>
  The three ways sessions.service.ts ends a participation early: on the participant's own report,
  after a missing heartbeat, and with the whole group. An infinite amount, which only an infinite
  rate and cap give, does not fit the column and is dropped here.
\<close>

definition amount_pence :: "payment_env \<Rightarrow> stamp \<Rightarrow> int \<Rightarrow> rat option" where
  "amount_pence env startedAt now =
     (case partialPaymentPence env startedAt now of Num x \<Rightarrow> Some x | _ \<Rightarrow> None)"

definition self_ending :: "self_outcome \<Rightarrow> string \<Rightarrow> stage \<Rightarrow> ending" where
  "self_ending oc reason s =
     \<lparr>tm_outcome = outcome_of_self oc,
      tm_reason = or_else reason (defaultOutcomeReason (outcome_of_self oc)),
      tm_compensationKind = selfTerminationCompensationKind oc s,
      tm_compensationAmountPence = None\<rparr>"

definition disconnect_ending :: "payment_env \<Rightarrow> nat \<Rightarrow> int \<Rightarrow> prolific_arrival \<Rightarrow> ending" where
  "disconnect_ending env graceSeconds now a =
     (let kind = disconnectCompensationKind (pa_stage a) in
      \<lparr>tm_outcome = Oc_Connection_Timeout,
       tm_reason = ''No participant heartbeat was received for '' @ show_nat graceSeconds @ '' seconds.'',
       tm_compensationKind = kind,
       tm_compensationAmountPence =
         (if kind = Ck_Partial then amount_pence env (pa_arrivedAt a) now else None)\<rparr>)"

definition group_ending :: "payment_env \<Rightarrow> int \<Rightarrow> outcome \<Rightarrow> string \<Rightarrow> stamp \<Rightarrow> ending" where
  "group_ending env now oc reason startedAt =
     \<lparr>tm_outcome = oc, tm_reason = reason, tm_compensationKind = Ck_Partial,
      tm_compensationAmountPence = amount_pence env startedAt now\<rparr>"

section \<open>Lemmas: amounts\<close>

lemma maximum_pence_ge: "maximum_pence env = Num m \<Longrightarrow> 10 \<le> m"
  by (auto simp: maximum_pence_def PARTIAL_PAYMENT_MIN_PENCE_def elim: num_max.elims)

lemma pence_per_minute_cases:
  obtains x where "pence_per_minute env = Num x" "10 \<le> x" | "pence_per_minute env = Pos_Inf"
proof -
  have "env_number v d \<noteq> Not_A_Number" for v d by (simp add: env_number_def Let_def)
  then show thesis using that
    unfolding pence_per_minute_def PARTIAL_PAYMENT_MIN_PENCE_def
    by (cases "env_number (env_pencePerMinute env) DEFAULT_PARTIAL_PAYMENT_PENCE_PER_MINUTE")
      (fastforce simp: max_def split: if_splits)+
qed

definition started_minutes :: "int \<Rightarrow> int \<Rightarrow> int" where
  "started_minutes start now = \<lceil>of_int (max 1 ((now - start) div 1000)) / (60 :: rat)\<rceil>"

lemma started_minutes_pos: "1 \<le> started_minutes start now"
  by (simp add: started_minutes_def less_divide_eq)

lemma started_minutes_mono: "now \<le> now' \<Longrightarrow> started_minutes start now \<le> started_minutes start now'"
proof -
  assume "now \<le> now'"
  then have "(now - start) div 1000 \<le> (now' - start) div 1000" by (intro zdiv_mono1) auto
  then show ?thesis unfolding started_minutes_def
    by (intro ceiling_mono divide_right_mono) (auto simp: max_def)
qed

lemma partialPaymentPence_eq:
  assumes "parse_ms s = Some t" and "maximum_pence env = Num m"
  shows "partialPaymentPence env s now =
    (case pence_per_minute env of
       Num x \<Rightarrow> Num (min m (of_int (started_minutes t now) * x)) | _ \<Rightarrow> Num m)"
proof (cases rule: pence_per_minute_cases [of env])
  case (1 x)
  have "(10 :: rat) \<le> of_int (started_minutes t now) * x"
    using mult_mono [of 1 "of_int (started_minutes t now)" "10 :: rat" x]
      started_minutes_pos [of t now] 1(2) by simp
  then show ?thesis using assms 1
    by (simp add: partialPaymentPence_def started_minutes_def PARTIAL_PAYMENT_MIN_PENCE_def)
next
  case 2
  then show ?thesis using assms started_minutes_pos [of t now]
    by (simp add: partialPaymentPence_def started_minutes_def PARTIAL_PAYMENT_MIN_PENCE_def)
qed

text \<open>
  A partial payment is at least the floor and at most the cap, whatever the environment
  variables hold, and never shrinks while the participant waits.
\<close>

theorem partial_payment_bounds:
  assumes "parse_ms s = Some t" and "maximum_pence env = Num m" and "now \<le> later"
  shows "\<exists>x y. partialPaymentPence env s now = Num x \<and> partialPaymentPence env s later = Num y \<and>
    PARTIAL_PAYMENT_MIN_PENCE \<le> x \<and> x \<le> y \<and> y \<le> m"
proof (cases rule: pence_per_minute_cases [of env])
  case (1 x)
  have mono: "of_int (started_minutes t now) * x \<le> of_int (started_minutes t later) * x"
    using started_minutes_mono [OF assms(3), of t] 1(2) by (intro mult_right_mono) auto
  have "(10 :: rat) \<le> of_int (started_minutes t now) * x"
    using mult_mono [of 1 "of_int (started_minutes t now)" "10 :: rat" x]
      started_minutes_pos [of t now] 1(2) by simp
  then have "(10 :: rat) \<le> min m (of_int (started_minutes t now) * x)"
    using maximum_pence_ge [OF assms(2)] by simp
  moreover have "min m (of_int (started_minutes t now) * x) \<le> min m (of_int (started_minutes t later) * x)"
    using mono by (rule min.mono [OF order_refl])
  ultimately show ?thesis
    using 1(1) by (simp add: partialPaymentPence_eq [OF assms(1,2)] PARTIAL_PAYMENT_MIN_PENCE_def)
next
  case 2
  then show ?thesis using maximum_pence_ge [OF assms(2)]
    by (simp add: partialPaymentPence_eq [OF assms(1,2)] PARTIAL_PAYMENT_MIN_PENCE_def)
qed

theorem partial_payment_bounds_witness:
  "\<exists>x y. partialPaymentPence \<lparr>env_pencePerMinute = Some Not_A_Number, env_maxPence = Some (Num 60)\<rparr>
         (Stamp 0) 90000 = Num x \<and>
       partialPaymentPence \<lparr>env_pencePerMinute = Some Not_A_Number, env_maxPence = Some (Num 60)\<rparr>
         (Stamp 0) 600000 = Num y \<and>
       PARTIAL_PAYMENT_MIN_PENCE \<le> x \<and> x \<le> y \<and> y \<le> 60"
  by (rule partial_payment_bounds [of _ 0])
    (simp_all add: maximum_pence_def env_number_def PARTIAL_PAYMENT_MIN_PENCE_def)

text \<open>With the default rates: ten pence for every started minute, at most 508.\<close>

lemma default_payment:
  "partialPaymentPence \<lparr>env_pencePerMinute = None, env_maxPence = None\<rparr> (Stamp t) now =
     Num (min 508 (of_int (started_minutes t now) * 10))"
  by (subst partialPaymentPence_eq [of _ t _ 508])
    (simp_all add: maximum_pence_def pence_per_minute_def env_number_def PARTIAL_PAYMENT_MIN_PENCE_def
      DEFAULT_PARTIAL_PAYMENT_MAX_PENCE_def DEFAULT_PARTIAL_PAYMENT_PENCE_PER_MINUTE_def)

section \<open>Lemmas: messages\<close>

text \<open>The endings of the Session Manager, and the messages that announce a queued payment.\<close>

datatype study_ending =
    Ended_Self self_outcome string stage
  | Ended_Silent nat prolific_arrival
  | Ended_Group outcome string stamp

fun ending_of :: "payment_env \<Rightarrow> int \<Rightarrow> study_ending \<Rightarrow> ending" where
  "ending_of env now (Ended_Self oc reason s) = self_ending oc reason s"
| "ending_of env now (Ended_Silent grace a) = disconnect_ending env grace now a"
| "ending_of env now (Ended_Group oc reason startedAt) = group_ending env now oc reason startedAt"

definition group_outcomes :: "outcome set" where
  "group_outcomes = {Oc_Unmatched, Oc_Technical_Failure, Oc_Participant_Dropout, Oc_Group_Aborted}"

fun study_ending_ok :: "study_ending \<Rightarrow> bool" where
  "study_ending_ok (Ended_Group oc reason startedAt) = (oc \<in> group_outcomes)"
| "study_ending_ok _ = True"

definition promises_payment :: "string \<Rightarrow> bool" where
  "promises_payment m =
     (let p = ''Your partial payment has been queued for review.'' in drop (length m - length p) m = p)"

lemma message_promise:
  assumes "study_ending_ok e"
  shows "promises_payment (outcomeMessage (Some (tm_outcome (ending_of env now e)))
      (Some (tm_compensationKind (ending_of env now e)))) \<longleftrightarrow>
    tm_compensationKind (ending_of env now e) = Ck_Partial \<and>
      tm_outcome (ending_of env now e) \<noteq> Oc_Participant_Dropout"
  using assms
proof (cases e)
  case (Ended_Self oc reason s)
  then show ?thesis
    by (cases oc) (simp_all add: self_ending_def selfTerminationCompensationKind_def
        outcomeMessage_def promises_payment_def)
next
  case (Ended_Silent g a)
  then show ?thesis
    by (simp add: disconnect_ending_def Let_def outcomeMessage_def promises_payment_def)
next
  case (Ended_Group oc reason st)
  with assms show ?thesis
    by (cases oc) (simp_all add: group_ending_def group_outcomes_def outcomeMessage_def
        promises_payment_def)
qed

end
