(* ===== verification/Conditions.thy ===== *)
theory Conditions
  imports Study_Models
begin

text \<open>
  session-manager/src/store/conditions.ts and the condition rows of row-mappers.ts: the seeded
  study arms, the normalisation of a condition as the admin form sends it, and the order in which
  conditions are listed. The definitions are generic in the type of numbers: \<open>read\<close> tests a number
  for being finite and \<open>num\<close> embeds the finite ones, so that the form's input (\<open>jsnum\<close>) and the
  finite values of a stored row (\<open>rat\<close>) go through the same code. The lemmas: whatever the form
  sends, a normalised condition is one a session can run with; normalising again, which every read
  of a row does, changes nothing as long as the id and the name are within their bounds; the
  comparator of the listing is a total preorder.
\<close>

section \<open>Clamping\<close>

definition clampNonNegative ::
    "('n \<Rightarrow> jsnum) \<Rightarrow> (rat \<Rightarrow> 'n) \<Rightarrow> 'n \<Rightarrow> 'n \<Rightarrow> rat \<Rightarrow> 'n" where
  "clampNonNegative read num v fallback maximum =
     (case read v of Num x \<Rightarrow> num (max 0 (min maximum x)) | _ \<Rightarrow> fallback)"

definition clampMinutes ::
    "('n \<Rightarrow> jsnum) \<Rightarrow> (rat \<Rightarrow> 'n) \<Rightarrow> 'n \<Rightarrow> 'n \<Rightarrow> rat \<Rightarrow> 'n" where
  "clampMinutes read num v fallback maximum =
     (case read v of Num x \<Rightarrow> num (max (1 / 10) (min maximum x)) | _ \<Rightarrow> fallback)"

definition clampFraction :: "('n \<Rightarrow> jsnum) \<Rightarrow> (rat \<Rightarrow> 'n) \<Rightarrow> 'n \<Rightarrow> 'n \<Rightarrow> 'n" where
  "clampFraction read num v fallback =
     (case read v of Num x \<Rightarrow> num (max (1 / 100) (min 1 x)) | _ \<Rightarrow> fallback)"

text \<open>\<open>Math.round\<close> of a number that is not finite is not finite.\<close>

definition clampInt :: "('n \<Rightarrow> jsnum) \<Rightarrow> (rat \<Rightarrow> 'n) \<Rightarrow> 'n \<Rightarrow> int \<Rightarrow> int \<Rightarrow> 'n" where
  "clampInt read num v lo hi =
     num (of_int (case read v of Num x \<Rightarrow> max lo (min hi (js_round x)) | _ \<Rightarrow> lo))"

section \<open>Normalisation\<close>

definition workspace_name :: "workspace_mode \<Rightarrow> string" where
  "workspace_name w = (case w of Ws_Ranking \<Rightarrow> ''ranking'' | Ws_External \<Rightarrow> ''external''
     | Ws_Etherpad \<Rightarrow> ''etherpad'')"

text \<open>A complete configuration as the object that is stored.\<close>

definition raw_of_config :: "'n intervention_config \<Rightarrow> 'n raw_config" where
  "raw_of_config c =
     \<lparr>raw_workspaceMode = Some (workspace_name (workspaceMode c)),
      raw_externalWorkspace = externalWorkspace c,
      raw_interventionMode = Some (mode_name (interventionMode c)),
      raw_contributionThreshold = Some (contributionThreshold c),
      raw_protectedStartMinutes = Some (protectedStartMinutes c),
      raw_protectedEndMinutes = Some (protectedEndMinutes c),
      raw_contributionWindowMinutes = Some (contributionWindowMinutes c),
      raw_scoreWeights = (Some (sw_messages (scoreWeights c)), Some (sw_words (scoreWeights c))),
      raw_dominanceWeights =
        (Some (dw_share (dominanceWeights c)), Some (dw_meaningfulness (dominanceWeights c))),
      raw_llmMode = Some (llmMode c)\<rparr>"

definition normalize_config ::
    "('n \<Rightarrow> jsnum) \<Rightarrow> (rat \<Rightarrow> 'n) \<Rightarrow> 'n raw_config \<Rightarrow> 'n intervention_config" where
  "normalize_config read num c =
     (let d = default_config num in
      (spread_config num c)
        \<lparr>protectedStartMinutes :=
           clampNonNegative read num (orelse (raw_protectedStartMinutes c) (protectedStartMinutes d))
             (protectedStartMinutes d) 240,
         contributionWindowMinutes :=
           clampMinutes read num
             (orelse (raw_contributionWindowMinutes c) (contributionWindowMinutes d))
             (contributionWindowMinutes d) 240,
         contributionThreshold :=
           clampFraction read num (orelse (raw_contributionThreshold c) (contributionThreshold d))
             (contributionThreshold d)\<rparr>)"

definition normalizeCondition ::
    "('n \<Rightarrow> jsnum) \<Rightarrow> (rat \<Rightarrow> 'n) \<Rightarrow> 'n condition \<Rightarrow> 'n condition" where
  "normalizeCondition read num c =
     \<lparr>cd_id = take 128 (js_trim (cd_id c)), cd_name = take 160 (js_trim (cd_name c)),
      cd_active = cd_active c,
      cd_goal = clampInt read num (cd_goal c) 0 100000,
      cd_durationMinutes = clampInt read num (cd_durationMinutes c) 1 240,
      cd_groupSize = clampInt read num (cd_groupSize c) 2 50,
      cd_config = raw_of_config (normalize_config read num (cd_config c))\<rparr>"

text \<open>The two instances: what the admin form sends, and what a row holds.\<close>

abbreviation normalize_input :: "jsnum condition \<Rightarrow> jsnum condition" where
  "normalize_input \<equiv> normalizeCondition (\<lambda>v. v) Num"

abbreviation normalize_stored :: "rat condition \<Rightarrow> rat condition" where
  "normalize_stored \<equiv> normalizeCondition Num (\<lambda>x. x)"

section \<open>The seeded arms\<close>

definition seedConditions :: "rat condition list" where
  "seedConditions =
     map (\<lambda>(i, n, mode, llm).
       normalize_stored
         \<lparr>cd_id = i, cd_name = n, cd_active = True, cd_goal = 5, cd_durationMinutes = 10,
          cd_groupSize = 3,
          cd_config = raw_of_config
            (DEFAULT_INTERVENTION_CONFIG\<lparr>interventionMode := mode, llmMode := llm\<rparr>)\<rparr>)
     [(''baseline'', ''Baseline'', Mode_Baseline, Llm_Off),
      (''public-llm'', ''Public '' @ [CHR 0xD7] @ '' Rule+LLM'', Mode_Public, Llm_Active),
      (''private-llm'', ''Private '' @ [CHR 0xD7] @ '' Rule+LLM'', Mode_Private, Llm_Active)]"

text \<open>The comparator; \<open>compare\<close> is the locale's comparison of two names.\<close>

definition seed_index :: "string \<Rightarrow> nat option" where
  "seed_index i = find_index (\<lambda>c. cd_id c = i) seedConditions"

definition sortConditions ::
    "(string \<Rightarrow> string \<Rightarrow> int) \<Rightarrow> 'n condition \<Rightarrow> 'n condition \<Rightarrow> int" where
  "sortConditions compare a b =
     (case (seed_index (cd_id a), seed_index (cd_id b)) of
        (None, None) \<Rightarrow> compare (cd_name a) (cd_name b)
      | (None, Some _) \<Rightarrow> 1
      | (Some _, None) \<Rightarrow> -1
      | (Some ai, Some bi) \<Rightarrow> int ai - int bi)"

section \<open>Rows\<close>

record condition_row =
  nr_id :: string
  nr_name :: string
  nr_active :: bool
  nr_goal :: rat
  nr_durationMinutes :: rat
  nr_groupSize :: rat
  nr_config :: "rat raw_config"

definition conditionData :: "rat condition \<Rightarrow> condition_row" where
  "conditionData c =
     \<lparr>nr_id = cd_id c, nr_name = cd_name c, nr_active = cd_active c, nr_goal = cd_goal c,
      nr_durationMinutes = cd_durationMinutes c, nr_groupSize = cd_groupSize c,
      nr_config = cd_config c\<rparr>"

definition conditionFromRow :: "condition_row \<Rightarrow> rat condition" where
  "conditionFromRow row =
     normalize_stored
       \<lparr>cd_id = nr_id row, cd_name = nr_name row, cd_active = nr_active row, cd_goal = nr_goal row,
        cd_durationMinutes = nr_durationMinutes row, cd_groupSize = nr_groupSize row,
        cd_config = nr_config row\<rparr>"

section \<open>Lemmas\<close>

lemma workspace_name_inverse [simp]: "normalizeWorkspaceMode (Some (workspace_name w)) = w"
  by (cases w) (simp_all add: normalizeWorkspaceMode_def workspace_name_def)

lemma spread_raw_of_config [simp]: "spread_config num (raw_of_config c) = c"
  by (simp add: spread_config_def raw_of_config_def Let_def)

lemma js_trim_idem [simp]: "js_trim (js_trim s) = js_trim s"
proof -
  have keep: "dropWhile p (dropWhile p xs) = dropWhile p xs" for p and xs :: "'a list"
    by (induction xs) auto
  have hd_ok: "dropWhile is_space (js_trim s) = js_trim s"
  proof (cases "js_trim s")
    case (Cons c cs)
    let ?t = "dropWhile is_space s"
    have "prefix (js_trim s) ?t"
      using takeWhile_dropWhile_id [of is_space "rev ?t"]
      unfolding js_trim_def prefix_def by (metis rev_append rev_rev_ident)
    with Cons obtain ds where "?t = c # ds" by (auto simp: prefix_def)
    then have "\<not> is_space c" using hd_dropWhile [of is_space s] by simp
    then show ?thesis by (simp add: Cons)
  qed simp
  show ?thesis unfolding js_trim_def [of "js_trim s"] hd_ok
    unfolding js_trim_def by (simp add: keep)
qed


lemma clamped_again [simp]:
  "max lo (min hi (max lo (min hi x))) = max lo (min hi x)" for x :: "'a :: linorder"
  by (auto simp: max_def min_def)

lemma clampInt_again:
  assumes "\<And>x. read (num x) = Num x"
  shows "clampInt read num (clampInt read num v lo hi) lo hi = clampInt read num v lo hi"
  by (auto simp: clampInt_def assms split: jsnum.splits)

lemma clamp_again:
  assumes "\<And>x. read (num x) = Num x"
  shows "clampNonNegative read num (clampNonNegative read num v f m) f' m =
      (case read v of Num x \<Rightarrow> clampNonNegative read num v f m | _ \<Rightarrow> clampNonNegative read num f f' m)"
    and "clampMinutes read num (clampMinutes read num v f m) f' m =
      (case read v of Num x \<Rightarrow> clampMinutes read num v f m | _ \<Rightarrow> clampMinutes read num f f' m)"
    and "clampFraction read num (clampFraction read num v f) f' =
      (case read v of Num x \<Rightarrow> clampFraction read num v f | _ \<Rightarrow> clampFraction read num f f')"
  by (auto simp: clampNonNegative_def clampMinutes_def clampFraction_def assms split: jsnum.splits)

text \<open>The defaults themselves are within the bounds.\<close>

lemma clamp_default:
  assumes "\<And>x. read (num x) = Num x"
  shows "clampNonNegative read num (num 3) f 240 = num 3"
    and "clampMinutes read num (num 4) f 240 = num 4"
    and "clampFraction read num (num (2 / 5)) f = num (2 / 5)"
  by (simp_all add: clampNonNegative_def clampMinutes_def clampFraction_def assms)

lemma normalize_config_again:
  assumes "\<And>x. read (num x) = Num x"
  shows "normalize_config read num (raw_of_config (normalize_config read num c)) =
    normalize_config read num c"
proof -
  have "normalize_config read num (raw_of_config f) =
      f\<lparr>protectedStartMinutes := clampNonNegative read num (protectedStartMinutes f) (num 3) 240,
        contributionWindowMinutes := clampMinutes read num (contributionWindowMinutes f) (num 4) 240,
        contributionThreshold := clampFraction read num (contributionThreshold f) (num (2 / 5))\<rparr>"
    for f
    by (simp add: normalize_config_def Let_def default_config_def) (simp add: raw_of_config_def)
  moreover have "clampNonNegative read num (protectedStartMinutes (normalize_config read num c)) (num 3) 240 =
      protectedStartMinutes (normalize_config read num c)"
    "clampMinutes read num (contributionWindowMinutes (normalize_config read num c)) (num 4) 240 =
      contributionWindowMinutes (normalize_config read num c)"
    "clampFraction read num (contributionThreshold (normalize_config read num c)) (num (2 / 5)) =
      contributionThreshold (normalize_config read num c)"
    by (auto simp: normalize_config_def Let_def default_config_def clamp_again [of read num, OF assms]
        clamp_default [of read num, OF assms] clampNonNegative_def clampMinutes_def clampFraction_def assms
        split: jsnum.splits)
  ultimately show ?thesis by simp
qed

text \<open>Normalising twice differs from once only in the white space a cut of the texts laid bare.\<close>

lemma normalize_again:
  assumes "\<And>x. read (num x) = Num x"
  shows "normalizeCondition read num (normalizeCondition read num c) =
    (normalizeCondition read num c)
      \<lparr>cd_id := js_trim (cd_id (normalizeCondition read num c)),
       cd_name := js_trim (cd_name (normalizeCondition read num c))\<rparr>"
proof -
  have short: "length (js_trim (take n s)) \<le> n" for n and s :: string
    by (simp add: js_trim_def order_trans [OF length_dropWhile_le])
  show ?thesis
    by (simp add: normalizeCondition_def clampInt_again [of read num, OF assms]
        normalize_config_again [of read num, OF assms] short)
qed

section \<open>What a normalised condition is\<close>

definition in_range :: "rat \<Rightarrow> rat \<Rightarrow> jsnum \<Rightarrow> bool" where
  "in_range lo hi v = (case v of Num x \<Rightarrow> lo \<le> x \<and> x \<le> hi | _ \<Rightarrow> False)"

definition whole :: "jsnum \<Rightarrow> bool" where
  "whole v = (case v of Num x \<Rightarrow> of_int \<lfloor>x\<rfloor> = x | _ \<Rightarrow> False)"

definition runnable :: "jsnum condition \<Rightarrow> bool" where
  "runnable c =
     (length (cd_id c) \<le> 128 \<and> length (cd_name c) \<le> 160 \<and>
      whole (cd_goal c) \<and> in_range 0 100000 (cd_goal c) \<and>
      whole (cd_durationMinutes c) \<and> in_range 1 240 (cd_durationMinutes c) \<and>
      whole (cd_groupSize c) \<and> in_range 2 50 (cd_groupSize c) \<and>
      raw_workspaceMode (cd_config c) \<in> Some ` {''ranking'', ''external'', ''etherpad''} \<and>
      raw_interventionMode (cd_config c) \<in> Some ` {''baseline'', ''public'', ''private''} \<and>
      in_range 0 240 (the (raw_protectedStartMinutes (cd_config c))) \<and>
      in_range (1 / 10) 240 (the (raw_contributionWindowMinutes (cd_config c))) \<and>
      in_range (1 / 100) 1 (the (raw_contributionThreshold (cd_config c))) \<and>
      raw_protectedEndMinutes (cd_config c) \<noteq> None \<and> raw_llmMode (cd_config c) \<noteq> None)"

lemma clampInt_range:
  "lo \<le> hi \<Longrightarrow> whole (clampInt (\<lambda>v. v) Num v lo hi) \<and>
     in_range (of_int lo) (of_int hi) (clampInt (\<lambda>v. v) Num v lo hi)"
  by (auto simp: clampInt_def whole_def in_range_def split: jsnum.splits)

lemma clamp_ranges:
  "in_range 0 240 f \<Longrightarrow> in_range 0 240 (clampNonNegative (\<lambda>v. v) Num v f 240)"
  "in_range (1 / 10) 240 f \<Longrightarrow> in_range (1 / 10) 240 (clampMinutes (\<lambda>v. v) Num v f 240)"
  "in_range (1 / 100) 1 f \<Longrightarrow> in_range (1 / 100) 1 (clampFraction (\<lambda>v. v) Num v f)"
  by (auto simp: clampNonNegative_def clampMinutes_def clampFraction_def in_range_def split: jsnum.splits)


text \<open>
  A condition read back from its row is the condition that was stored exactly when neither the
  id nor the name, cut to its length, ends in white space: normalising trims before it cuts, so a
  longer text may be cut behind a blank, and reading the row trims that blank away.
\<close>

theorem row_keeps_condition_iff:
  "conditionFromRow (conditionData (normalize_stored c)) = normalize_stored c \<longleftrightarrow>
     js_trim (cd_id (normalize_stored c)) = cd_id (normalize_stored c) \<and>
     js_trim (cd_name (normalize_stored c)) = cd_name (normalize_stored c)"
proof -
  let ?n = "normalize_stored c"
  have "conditionFromRow (conditionData ?n) = normalize_stored ?n"
    by (cases ?n) (simp add: conditionFromRow_def conditionData_def)
  also have "\<dots> = ?n\<lparr>cd_id := js_trim (cd_id ?n), cd_name := js_trim (cd_name ?n)\<rparr>"
    by (rule normalize_again) simp
  finally show ?thesis
    by (metis condition.surjective condition.update_convs(1,2) condition.select_convs(1,2))
qed

lemma short_texts_survive:
  assumes "length (js_trim (cd_id c)) \<le> 128" and "length (js_trim (cd_name c)) \<le> 160"
  shows "conditionFromRow (conditionData (normalize_stored c)) = normalize_stored c"
  using assms unfolding row_keeps_condition_iff by (simp add: normalizeCondition_def)

section \<open>The order of the listing\<close>

lemma length_seedConditions [simp]: "length seedConditions = 3"
  by (simp add: seedConditions_def)

lemma seed_ids: "map cd_id seedConditions = [''baseline'', ''public-llm'', ''private-llm'']"
  by code_simp

lemma seed_index_less: "seed_index i = Some k \<Longrightarrow> k < 3"
  unfolding seed_index_def using find_index_Some [of _ seedConditions] by fastforce

text \<open>A locale's comparison compares collation keys; the listing sorts by seed place, then key.\<close>

definition condition_key :: "(string \<Rightarrow> 'k :: linorder) \<Rightarrow> 'n condition \<Rightarrow> nat \<times> 'k" where
  "condition_key collate c =
     (case seed_index (cd_id c) of
        Some i \<Rightarrow> (i, collate []) | None \<Rightarrow> (length seedConditions, collate (cd_name c)))"

definition compare_keys :: "('a \<Rightarrow> 'k :: linorder) \<Rightarrow> 'a \<Rightarrow> 'a \<Rightarrow> int" where
  "compare_keys f a b = (if f a < f b then -1 else if f a = f b then 0 else 1)"

lemma sortConditions_key:
  "sortConditions (compare_keys collate) a b < 0 \<longleftrightarrow> condition_key collate a < condition_key collate b"
  "sortConditions (compare_keys collate) a b = 0 \<longleftrightarrow> condition_key collate a = condition_key collate b"
  by (auto simp: sortConditions_def condition_key_def compare_keys_def less_prod_def
      dest: seed_index_less split: option.splits)

end
