(* ===== verification/Forming_Session.thy ===== *)
theory Forming_Session
  imports Study_Outcomes Conditions
begin

text \<open>
  session-manager/src/store/forming-session.ts and waiting-timeout.ts: a fresh waiting lobby and
  the shuffled starting order of its ranking. The lemmas: the lobby is empty, waits for its
  deadline and starts from a permutation of the task's items; every order arises from exactly one
  sequence of draws, so that uniform draws give a uniform order.
\<close>

section \<open>The waiting time\<close>

definition waitingTimeoutMinutes :: "jsnum option \<Rightarrow> jsnum" where
  "waitingTimeoutMinutes env = num_max (Num 1) (env_number env 5)"

section \<open>The shuffle\<close>

definition swap_at :: "nat \<Rightarrow> nat \<Rightarrow> 'a list \<Rightarrow> 'a list" where
  "swap_at i j xs = xs[i := xs ! j, j := xs ! i]"

text \<open>The loop from \<open>index\<close> down to one; \<open>pick index\<close> is the draw below \<open>index + 1\<close>.\<close>

fun shuffle_from :: "(nat \<Rightarrow> nat) \<Rightarrow> nat \<Rightarrow> 'a list \<Rightarrow> 'a list" where
  "shuffle_from pick 0 xs = xs"
| "shuffle_from pick (Suc i) xs =
     shuffle_from pick i (swap_at (Suc i) (pick (Suc i)) xs)"

definition shuffleRankingOrder :: "(nat \<Rightarrow> nat) \<Rightarrow> string list \<Rightarrow> string list" where
  "shuffleRankingOrder pick itemIds = shuffle_from pick (length itemIds - 1) itemIds"

section \<open>The lobby\<close>

text \<open>
  \<open>uuid\<close> is the fresh id, \<open>now\<close> the time of the call. A waiting time that is not finite makes the
  deadline an invalid date, whose \<open>toISOString\<close> throws: \<open>None\<close>.
\<close>

definition newFormingSession ::
    "jsnum option \<Rightarrow> string \<Rightarrow> (nat \<Rightarrow> nat) \<Rightarrow> rat condition \<Rightarrow> int \<Rightarrow> int \<Rightarrow> session option" where
  "newFormingSession env uuid pick condition roundId now =
     (case waitingTimeoutMinutes env of
        Num waitingMinutes \<Rightarrow> Some
          \<lparr>se_id = uuid, se_status = Waiting, se_roundId = roundId, se_condition = condition,
           se_llmEnabled = (raw_llmMode (cd_config condition) = Some Llm_Active),
           se_participants = [], se_messages = [], se_rankingTask = MOON_SURVIVAL,
           se_ranking =
             \<lparr>rk_eventId = None, rk_taskId = rt_id MOON_SURVIVAL,
              rk_order =
                (if raw_workspaceMode (cd_config condition) = Some ''etherpad'' then []
                 else shuffleRankingOrder pick (map ri_id (rt_items MOON_SURVIVAL))),
              rk_updatedAt = Stamp now, rk_updatedBy = ''system'', rk_movement = None\<rparr>,
           se_rankingHistory = [], se_interventions = [], se_behavioralEvents = [],
           se_contributionClassifications = [], se_windowEvaluations = [],
           se_classificationFailures = [], se_processedEventIds = [],
           se_redactedReactionEventIds = [], se_reactionEvents = [], se_runtimeState = [],
           se_checkpointRevision = None, se_durationMinutes = cd_durationMinutes condition,
           se_roomId = None,
           se_waitingDeadlineAt = Some (iso (of_int now + waitingMinutes * 60000)),
           se_createdAt = Stamp now, se_startedAt = None, se_completedAt = None\<rparr>
      | _ \<Rightarrow> None)"

section \<open>Lemmas: the shuffle\<close>

lemma length_swap_at [simp]: "length (swap_at i j xs) = length xs"
  by (simp add: swap_at_def)

lemma nth_swap_at:
  "i < length xs \<Longrightarrow> j < length xs \<Longrightarrow> k < length xs \<Longrightarrow>
     swap_at i j xs ! k = (if k = j then xs ! i else if k = i then xs ! j else xs ! k)"
  by (auto simp: swap_at_def nth_list_update)

lemma mset_swap_at [simp]: "i < length xs \<Longrightarrow> j < length xs \<Longrightarrow> mset (swap_at i j xs) = mset xs"
  by (simp add: swap_at_def mset_swap)

lemma distinct_swap_at [simp]:
  "i < length xs \<Longrightarrow> j < length xs \<Longrightarrow> distinct (swap_at i j xs) = distinct xs"
  by (simp add: swap_at_def distinct_swap)

text \<open>Draws within their bounds.\<close>

definition draws_ok :: "(nat \<Rightarrow> nat) \<Rightarrow> nat \<Rightarrow> bool" where
  "draws_ok pick k = (\<forall>i\<in>{1..k}. pick i \<le> i)"

lemma draws_ok_Suc [simp]: "draws_ok pick (Suc k) \<longleftrightarrow> draws_ok pick k \<and> pick (Suc k) \<le> Suc k"
proof -
  have "{1..Suc k} = insert (Suc k) {1..k}" by auto
  then show ?thesis by (auto simp: draws_ok_def)
qed

lemma length_shuffle_from [simp]: "length (shuffle_from pick k xs) = length xs"
  by (induction k arbitrary: xs) auto

lemma mset_shuffle_from:
  "draws_ok pick k \<Longrightarrow> k < length xs \<Longrightarrow> mset (shuffle_from pick k xs) = mset xs"
  by (induction k arbitrary: xs) auto

text \<open>Positions behind the loop's index are settled.\<close>

lemma nth_shuffle_from:
  "draws_ok pick k \<Longrightarrow> k < length xs \<Longrightarrow> k < n \<Longrightarrow> n < length xs \<Longrightarrow>
     shuffle_from pick k xs ! n = xs ! n"
proof (induction k arbitrary: xs)
  case (Suc k)
  then have "shuffle_from pick k (swap_at (Suc k) (pick (Suc k)) xs) ! n =
      swap_at (Suc k) (pick (Suc k)) xs ! n" by (intro Suc.IH) auto
  with Suc.prems show ?case by (simp add: nth_swap_at)
qed simp

lemma shuffle_last:
  assumes "draws_ok pick (Suc k)" and "Suc k < length xs"
  shows "shuffle_from pick (Suc k) xs ! Suc k = xs ! pick (Suc k)"
  using assms nth_shuffle_from [of pick k "swap_at (Suc k) (pick (Suc k)) xs" "Suc k"]
  by (simp add: nth_swap_at)

lemma shuffle_draws_unique:
  assumes "draws_ok p k" and "draws_ok q k" and "k < length xs" and "distinct xs"
    and "shuffle_from p k xs = shuffle_from q k xs"
  shows "\<forall>i\<in>{1..k}. p i = q i"
  using assms
proof (induction k arbitrary: xs)
  case (Suc k)
  have "xs ! p (Suc k) = xs ! q (Suc k)"
    using shuffle_last [OF Suc.prems(1,3)] shuffle_last [OF Suc.prems(2,3)] Suc.prems(5) by simp
  with Suc.prems have eq: "p (Suc k) = q (Suc k)"
    by (simp add: nth_eq_iff_index_eq)
  have "\<forall>i\<in>{1..k}. p i = q i"
    using Suc.prems by (intro Suc.IH [of "swap_at (Suc k) (p (Suc k)) xs"]) (auto simp: eq)
  with eq show ?case by (auto simp: le_Suc_eq)
qed simp

lemma shuffle_from_cong:
  "\<forall>i\<in>{1..k}. p i = q i \<Longrightarrow> shuffle_from p k xs = shuffle_from q k xs"
  by (induction k arbitrary: xs) auto

lemma shuffle_reaches:
  assumes "k < length xs" and "distinct xs" and "mset ys = mset xs" and "drop (Suc k) ys = drop (Suc k) xs"
  shows "\<exists>p. draws_ok p k \<and> shuffle_from p k xs = ys"
  using assms
proof (induction k arbitrary: xs)
  case 0
  then have len: "length ys = length xs" by (metis size_mset)
  with 0 obtain x xs' y ys' where xs: "xs = x # xs'" and ys: "ys = y # ys'"
    by (cases xs; cases ys) auto
  with 0 have "xs = ys" by simp
  then show ?case by (auto simp: draws_ok_def)
next
  case (Suc k)
  have len: "length ys = length xs" using Suc.prems(3) by (metis size_mset)
  have fixed: "ys ! n = xs ! n" if "Suc k < n" "n < length xs" for n
  proof -
    from that(1) obtain m where "n = Suc (Suc k) + m" by (metis Suc_leI le_Suc_ex)
    with that len Suc.prems(1,4) show ?thesis by (metis nth_drop Suc_leI)
  qed
  have dy: "distinct ys" using Suc.prems(2,3) mset_eq_imp_distinct_iff by blast
  have "ys ! Suc k \<in> set xs" using Suc.prems(1,3) len by (metis mset_eq_setD nth_mem)
  then obtain j where j: "j < length xs" "xs ! j = ys ! Suc k" by (auto simp: in_set_conv_nth)
  have "j \<le> Suc k"
  proof (rule ccontr)
    assume "\<not> j \<le> Suc k"
    then have "ys ! j = ys ! Suc k" using fixed j by simp
    with dy j(1) len Suc.prems(1) \<open>\<not> j \<le> Suc k\<close> show False by (simp add: nth_eq_iff_index_eq)
  qed
  let ?xs = "swap_at (Suc k) j xs"
  have "drop (Suc k) ys = drop (Suc k) ?xs"
  proof (rule nth_equalityI)
    fix n assume "n < length (drop (Suc k) ys)"
    then have n: "Suc k + n < length xs" using len by simp
    show "drop (Suc k) ys ! n = drop (Suc k) ?xs ! n"
      using n j \<open>j \<le> Suc k\<close> fixed [of "Suc k + n"] len
      by (cases n) (auto simp: nth_swap_at)
  qed (simp add: len)
  with Suc.prems j obtain p where p: "draws_ok p k" "shuffle_from p k ?xs = ys"
    using Suc.IH [of ?xs] by auto
  let ?p = "p(Suc k := j)"
  have "shuffle_from ?p k ?xs = shuffle_from p k ?xs" by (rule shuffle_from_cong) simp
  then have "shuffle_from ?p (Suc k) xs = ys" using p(2) by simp
  moreover have "draws_ok ?p (Suc k)" using p(1) \<open>j \<le> Suc k\<close> by (simp add: draws_ok_def)
  ultimately show ?case by blast
qed

section \<open>Properties\<close>

text \<open>
  C35: The shuffle is unbiased: the orders it gives are the permutations of the items, and different
  draws within their bounds give different orders. Every order therefore arises from exactly one
  of the equally likely sequences of draws.
\<close>

theorem shuffle_unbiased:
  assumes "distinct xs" and "draws_ok p (length xs - 1)" and "draws_ok q (length xs - 1)"
  shows "{shuffleRankingOrder r xs | r. draws_ok r (length xs - 1)} = {ys. mset ys = mset xs} \<and>
    (shuffleRankingOrder p xs = shuffleRankingOrder q xs \<longleftrightarrow> map p [1..<length xs] = map q [1..<length xs])"
proof (cases "xs = []")
  case True
  then show ?thesis by (auto simp: shuffleRankingOrder_def draws_ok_def)
next
  case False
  let ?k = "length xs - 1"
  have k: "?k < length xs" "{1..?k} = set [1..<length xs]" using False by (auto simp: Suc_le_eq)
  have "{shuffleRankingOrder r xs | r. draws_ok r ?k} = {ys. mset ys = mset xs}"
    using mset_shuffle_from [OF _ k(1)] shuffle_reaches [OF k(1) assms(1)]
    by (fastforce simp: shuffleRankingOrder_def dest: mset_eq_length)
  moreover have "(shuffleRankingOrder p xs = shuffleRankingOrder q xs) = (\<forall>i\<in>{1..?k}. p i = q i)"
    unfolding shuffleRankingOrder_def
    using shuffle_draws_unique [OF assms(2,3) k(1) assms(1)] shuffle_from_cong [of ?k p q xs] by blast
  moreover have "(\<forall>i\<in>{1..?k}. p i = q i) = (map p [1..<length xs] = map q [1..<length xs])"
    unfolding k(2) by simp
  ultimately show ?thesis by simp
qed

theorem shuffle_unbiased_witness:
  "(shuffleRankingOrder (\<lambda>_. 0) [''a'', ''b'', ''c''] = shuffleRankingOrder (\<lambda>i. i) [''a'', ''b'', ''c'']) =
     (map (\<lambda>_. 0) [1..<length [''a'', ''b'', ''c'']] = map (\<lambda>i. i) [1..<length [''a'', ''b'', ''c'']])"
  by (rule shuffle_unbiased [THEN conjunct2]) (simp_all add: draws_ok_def)

lemma forming_session_fields:
  assumes "newFormingSession env uuid pick c r now = Some s"
  shows "se_id s = uuid \<and> se_status s = Waiting \<and> se_roundId s = r \<and> se_condition s = c \<and>
    se_participants s = [] \<and> se_createdAt s = Stamp now \<and> se_waitingDeadlineAt s \<noteq> None"
  using assms by (auto simp: newFormingSession_def split: jsnum.splits)

lemma js_trunc_mono: "x \<le> y \<Longrightarrow> js_trunc x \<le> js_trunc y"
proof -
  assume le: "x \<le> y"
  have trunc: "js_trunc z = (if z < 0 then \<lceil>z\<rceil> else \<lfloor>z\<rfloor>)" for z
    by (simp add: js_trunc_def ceiling_def)
  have "x < 0 \<Longrightarrow> 0 \<le> y \<Longrightarrow> \<lceil>x\<rceil> \<le> \<lfloor>y\<rfloor>"
    by (rule order_trans [of _ 0]) (simp_all add: ceiling_le_zero)
  with le show ?thesis by (auto simp: trunc floor_mono ceiling_mono)
qed

text \<open>A lobby waits at least a minute.\<close>

lemma forming_deadline:
  assumes "newFormingSession env uuid pick c r now = Some s"
  shows "\<exists>t. se_waitingDeadlineAt s = Some (Stamp t) \<and> now + 60000 \<le> t"
proof -
  from assms obtain m where m: "waitingTimeoutMinutes env = Num m"
    and s: "se_waitingDeadlineAt s = Some (iso (of_int now + m * 60000))"
    by (auto simp: newFormingSession_def split: jsnum.splits)
  have "1 \<le> m" using m by (auto simp: waitingTimeoutMinutes_def elim: num_max.elims)
  have "js_trunc (of_int (now + 60000)) \<le> js_trunc (of_int now + m * 60000)"
    using \<open>1 \<le> m\<close> by (intro js_trunc_mono) simp
  then have "now + 60000 \<le> js_trunc (of_int now + m * 60000)"
    by (simp only: js_trunc_of_int)
  with s show ?thesis by (simp add: iso_def)
qed

end
