(* ===== verification/Session_Store.thy ===== *)
theory Session_Store
  imports Runtime_Checkpoint Forming_Session
begin

text \<open>
  The session part of session-manager/src/store/store.service.ts with session-snapshot.ts: seats,
  the lifecycle of a session from waiting lobby to its end, surveys, credentials and the lookups
  the service makes, over the tables and over the in-memory map. A transaction and an atomic
  conditional update are one function each; an operation that reads first and writes later is
  several. Participant rows come in the order they were created.

  The lemmas: each operation does to the in-memory map what it does to the tables, so that the
  sessions read back agree; the conditional operations only move a session forward, and no
  operation but the unconditional lifecycle patch brings an aborted or completed session back.
\<close>

section \<open>Values\<close>

record matrix_creds =
  mc_userId :: string
  mc_accessToken :: string

record lifecycle_patch =
  lp_status :: "session_status option"
  lp_roomId :: "string option"
  lp_startedAt :: "stamp option"
  lp_completedAt :: "stamp option"

record aborted_lobby =
  al_id :: string
  al_createdAt :: stamp
  al_participantCount :: nat
  al_priorStatus :: session_status

section \<open>Seats and lifecycle over the tables\<close>

text \<open>The primary key and \<open>@@unique([prolificStudyId, prolificSessionId])\<close>; nulls do not collide.\<close>

definition seat_taken :: "participant_row \<Rightarrow> participant_row \<Rightarrow> bool" where
  "seat_taken new r =
     (pr_id r = pr_id new \<or>
      pr_prolificStudyId new \<noteq> None \<and> pr_prolificSessionId new \<noteq> None \<and>
      pr_prolificStudyId r = pr_prolificStudyId new \<and>
      pr_prolificSessionId r = pr_prolificSessionId new)"

definition addParticipant :: "int \<Rightarrow> string \<Rightarrow> participant \<Rightarrow> db \<Rightarrow> db_error + db" where
  "addParticipant now sessionId p d =
     (let row = participantCreateData now sessionId p in
      if session_row_of d sessionId = None then Inl Foreign_Key
      else if list_ex (seat_taken row) (db_participants d) then Inl Unique_Violation
      else Inr (d\<lparr>db_participants := db_participants d @ [row]\<rparr>))"

definition seat_of :: "string \<Rightarrow> string \<Rightarrow> participant_row \<Rightarrow> bool" where
  "seat_of sessionId participantId r = (pr_id r = participantId \<and> pr_sessionId r = sessionId)"

definition set_status :: "session_status \<Rightarrow> session_row \<Rightarrow> session_row" where
  "set_status st r = r\<lparr>sr_status := st\<rparr>"

text \<open>\<open>updateMany\<close> on one id: the number of rows that matched, and the tables after it.\<close>

definition update_if :: "string \<Rightarrow> (session_row \<Rightarrow> bool) \<Rightarrow> (session_row \<Rightarrow> session_row) \<Rightarrow> db \<Rightarrow> nat \<times> db" where
  "update_if sid p f d =
     (length (filter (\<lambda>r. sr_id r = sid \<and> p r) (db_sessions d)),
      update_session_row sid (\<lambda>r. if p r then f r else r) d)"

text \<open>Deleting a participant deletes its surveys (\<open>onDelete: Cascade\<close>).\<close>

definition removeParticipantFromWaitingSession :: "string \<Rightarrow> string \<Rightarrow> db \<Rightarrow> bool \<times> db" where
  "removeParticipantFromWaitingSession sessionId participantId d =
     (case session_row_of d sessionId of
        None \<Rightarrow> (False, d)
      | Some row \<Rightarrow>
          if sr_status row \<noteq> Waiting then (False, d)
          else if \<not> list_ex (seat_of sessionId participantId) (db_participants d) then (False, d)
          else
            let d1 = d\<lparr>db_participants :=
                  filter (\<lambda>r. \<not> seat_of sessionId participantId r) (db_participants d),
                db_surveys := filter (\<lambda>v. vr_participantId v \<noteq> participantId) (db_surveys d)\<rparr>
            in (True,
                if filter (\<lambda>r. pr_sessionId r = sessionId) (db_participants d1) = []
                then snd (update_if sessionId (\<lambda>r. sr_status r = Waiting) (set_status Aborted) d1)
                else d1))"

definition patch_row :: "int \<Rightarrow> lifecycle_patch \<Rightarrow> session_row \<Rightarrow> session_row" where
  "patch_row now p r =
     r\<lparr>sr_status := orelse (lp_status p) (sr_status r),
       sr_roomId := keep_undefined (lp_roomId p) (sr_roomId r),
       sr_startedAt := keep_undefined (map_option (toDate now) (lp_startedAt p)) (sr_startedAt r),
       sr_completedAt :=
         keep_undefined (map_option (toDate now) (lp_completedAt p)) (sr_completedAt r)\<rparr>"

definition updateSessionLifecycle :: "int \<Rightarrow> string \<Rightarrow> lifecycle_patch \<Rightarrow> db \<Rightarrow> db_error + db" where
  "updateSessionLifecycle now sid p d =
     (if session_row_of d sid = None then Inl Unknown_Session
      else Inr (update_session_row sid (patch_row now p) d))"

definition claimSessionProvisioning :: "string \<Rightarrow> db \<Rightarrow> bool \<times> db" where
  "claimSessionProvisioning sid d =
     (let (count, d1) = update_if sid (\<lambda>r. sr_status r = Waiting) (set_status Provisioning) d in
      if 0 < count then (True, d1)
      else (map_option sr_status (session_row_of d1 sid) = Some Provisioning, d1))"

definition publish_row :: "int \<Rightarrow> string \<Rightarrow> stamp \<Rightarrow> session_row \<Rightarrow> session_row" where
  "publish_row now roomId startedAt r =
     r\<lparr>sr_roomId := Some roomId, sr_status := Running, sr_startedAt := Some (toDate now startedAt)\<rparr>"

definition finishSessionProvisioning :: "int \<Rightarrow> string \<Rightarrow> string \<Rightarrow> stamp \<Rightarrow> db \<Rightarrow> bool \<times> db" where
  "finishSessionProvisioning now sid roomId startedAt d =
     (let (count, d1) = update_if sid (\<lambda>r. sr_status r = Provisioning) (publish_row now roomId startedAt) d in
      if 0 < count then (True, d1)
      else ((case session_row_of d1 sid of None \<Rightarrow> False
             | Some r \<Rightarrow> sr_status r = Running \<and> sr_roomId r = Some roomId), d1))"

section \<open>Surveys and completion over the tables\<close>

text \<open>session-snapshot.ts: one row per participant and kind.\<close>

definition survey_key :: "string \<Rightarrow> bool \<Rightarrow> survey_row \<Rightarrow> bool" where
  "survey_key pid entry v = (vr_participantId v = pid \<and> vr_entry v = entry)"

definition upsertSurvey :: "int \<Rightarrow> string \<Rightarrow> bool \<Rightarrow> survey \<Rightarrow> db \<Rightarrow> db" where
  "upsertSurvey now pid entry s d =
     d\<lparr>db_surveys :=
       (if list_ex (survey_key pid entry) (db_surveys d)
        then map (\<lambda>v. if survey_key pid entry v
                      then v\<lparr>vr_answers := sv_answers s, vr_submittedAt := toDate now (sv_submittedAt s)\<rparr>
                      else v) (db_surveys d)
        else db_surveys d @
          [\<lparr>vr_participantId = pid, vr_entry = entry, vr_answers = sv_answers s,
            vr_submittedAt = toDate now (sv_submittedAt s)\<rparr>])\<rparr>"

definition saveParticipantSurvey :: "int \<Rightarrow> string \<Rightarrow> string \<Rightarrow> bool \<Rightarrow> survey \<Rightarrow> db \<Rightarrow> bool \<times> db" where
  "saveParticipantSurvey now sid pid entry s d =
     (if \<not> list_ex (seat_of sid pid) (db_participants d) then (False, d)
      else (True, upsertSurvey now pid entry s d))"

definition patchExitSurveyAnswers ::
    "string \<Rightarrow> string \<Rightarrow> (string \<times> answer) list \<Rightarrow> db \<Rightarrow> bool \<times> db" where
  "patchExitSurveyAnswers sid pid patch d =
     (if \<not> list_ex (survey_key pid False) (db_surveys d) \<or>
         \<not> list_ex (seat_of sid pid) (db_participants d) then (False, d)
      else (True, d\<lparr>db_surveys :=
        map (\<lambda>v. if survey_key pid False v
                 then v\<lparr>vr_answers := object_assign (vr_answers v) patch\<rparr> else v) (db_surveys d)\<rparr>))"

definition markParticipantCompleted :: "int \<Rightarrow> string \<Rightarrow> string \<Rightarrow> stamp \<Rightarrow> db \<Rightarrow> bool \<times> db" where
  "markParticipantCompleted now sid pid completedAt d =
     (let open_seat = (\<lambda>r. seat_of sid pid r \<and> pr_completedAt r = None) in
      (list_ex open_seat (db_participants d) \<or> list_ex (seat_of sid pid) (db_participants d),
       d\<lparr>db_participants :=
         map (\<lambda>r. if open_seat r then r\<lparr>pr_completedAt := Some (toDate now completedAt)\<rparr> else r)
           (db_participants d)\<rparr>))"

section \<open>Aborting lobbies over the tables\<close>

definition lobby_matches :: "session_status list \<Rightarrow> int option \<Rightarrow> session_row \<Rightarrow> bool" where
  "lobby_matches statuses deadlinePassedAt r =
     (sr_status r \<in> set statuses \<and>
      (case deadlinePassedAt of None \<Rightarrow> True
       | Some t \<Rightarrow> (case sr_waitingDeadlineAt r of None \<Rightarrow> False | Some w \<Rightarrow> w \<le> t)))"

text \<open>One turn of the loop: the conditional update of a row that was read earlier.\<close>

definition abort_lobby ::
    "session_status list \<Rightarrow> int option \<Rightarrow> aborted_lobby list \<times> db \<Rightarrow> aborted_lobby \<Rightarrow> aborted_lobby list \<times> db" where
  "abort_lobby statuses deadline acc lobby =
     (let (count, d) = update_if (al_id lobby) (lobby_matches statuses deadline) (set_status Aborted) (snd acc)
      in (if 0 < count then fst acc @ [lobby] else fst acc, d))"

definition lobby_of :: "db \<Rightarrow> session_row \<Rightarrow> aborted_lobby" where
  "lobby_of d r =
     \<lparr>al_id = sr_id r, al_createdAt = Stamp (sr_createdAt r),
      al_participantCount = length (filter (\<lambda>p. pr_sessionId p = sr_id r) (db_participants d)),
      al_priorStatus = sr_status r\<rparr>"

definition abortLobbies :: "session_status list \<Rightarrow> int option \<Rightarrow> db \<Rightarrow> aborted_lobby list \<times> db" where
  "abortLobbies statuses deadline d =
     foldl (abort_lobby statuses deadline) ([], d)
       (map (lobby_of d) (filter (lobby_matches statuses deadline) (db_sessions d)))"

definition abortWaitingSessions :: "db \<Rightarrow> aborted_lobby list \<times> db" where
  "abortWaitingSessions d = abortLobbies [Waiting] None d"

definition abortExpiredWaitingSessions :: "int \<Rightarrow> db \<Rightarrow> aborted_lobby list \<times> db" where
  "abortExpiredWaitingSessions now d = abortLobbies [Waiting, Provisioning] (Some now) d"

section \<open>Whole sessions over the tables\<close>

text \<open>session-snapshot.ts\<close>

definition upsert_session :: "int \<Rightarrow> session \<Rightarrow> db \<Rightarrow> db" where
  "upsert_session now s d =
     (if session_row_of d (se_id s) = None
      then d\<lparr>db_sessions := db_sessions d @ [sessionCreateData now s]\<rparr>
      else update_session_row (se_id s) (sessionUpdateData now s) d)"

text \<open>A participant of another session with the same id moves over with its row.\<close>

definition upsert_participant :: "int \<Rightarrow> string \<Rightarrow> participant \<Rightarrow> db \<Rightarrow> db_error + db" where
  "upsert_participant now sid p d =
     (let d1 =
        (if pt_id p \<in> pr_id ` set (db_participants d)
         then Inr (d\<lparr>db_participants :=
           map (\<lambda>r. if pr_id r = pt_id p then participantUpdateData now sid p r else r)
             (db_participants d)\<rparr>)
         else addParticipant now sid p d)
      in and_then d1 (\<lambda>d.
        let e = (case pt_entrySurvey p of None \<Rightarrow> d | Some v \<Rightarrow> upsertSurvey now (pt_id p) True v d)
        in Inr (case pt_exitSurvey p of None \<Rightarrow> e | Some v \<Rightarrow> upsertSurvey now (pt_id p) False v e)))"

fun upsert_participants :: "int \<Rightarrow> string \<Rightarrow> participant list \<Rightarrow> db \<Rightarrow> db_error + db" where
  "upsert_participants now sid [] d = Inr d"
| "upsert_participants now sid (p # ps) d =
     and_then (upsert_participant now sid p d) (upsert_participants now sid ps)"

definition persistSessionSnapshot :: "(nat \<Rightarrow> string) \<Rightarrow> int \<Rightarrow> session \<Rightarrow> db \<Rightarrow> db_error + db" where
  "persistSessionSnapshot uuid now s d =
     and_then (upsert_participants now (se_id s) (se_participants s) (upsert_session now s d))
       (persistRuntimeCheckpoint uuid now (se_id s) (checkpointFromSession s))"

section \<open>Credentials and lookups over the tables\<close>

definition setParticipantCreds :: "string \<Rightarrow> matrix_creds \<Rightarrow> db \<Rightarrow> db option" where
  "setParticipantCreds pid c d =
     (if pid \<notin> pr_id ` set (db_participants d) then None
      else Some (d\<lparr>db_participants :=
        map (\<lambda>r. if pr_id r = pid
                 then r\<lparr>pr_matrixUserId := Some (mc_userId c),
                        pr_matrixAccessToken := Some (mc_accessToken c)\<rparr> else r)
          (db_participants d)\<rparr>))"

definition creds_of_row :: "participant_row \<Rightarrow> matrix_creds option" where
  "creds_of_row r =
     (if truthy (pr_matrixUserId r) \<and> truthy (pr_matrixAccessToken r)
      then Some \<lparr>mc_userId = the (pr_matrixUserId r), mc_accessToken = the (pr_matrixAccessToken r)\<rparr>
      else None)"

definition getParticipantCreds :: "string \<Rightarrow> db \<Rightarrow> matrix_creds option" where
  "getParticipantCreds pid d =
     Option.bind (find (\<lambda>r. pr_id r = pid) (db_participants d)) creds_of_row"

definition getSession :: "string \<Rightarrow> db \<Rightarrow> session option" where
  "getSession sid d = load_session d sid"

text \<open>The session of a row and the participant of that row in it.\<close>

definition seat_of_row :: "db \<Rightarrow> participant_row \<Rightarrow> (session \<times> participant) option" where
  "seat_of_row d r =
     Option.bind (getSession (pr_sessionId r) d) (\<lambda>s.
       map_option (Pair s) (find (\<lambda>p. pt_id p = pr_id r) (se_participants s)))"

definition live_session :: "db \<Rightarrow> string \<Rightarrow> bool" where
  "live_session d sid =
     (case session_row_of d sid of None \<Rightarrow> False | Some r \<Rightarrow> sr_status r \<noteq> Aborted)"

text \<open>\<open>orderBy: { createdAt: "desc" }\<close>: the newest seat of the token.\<close>

definition findByTrackingToken :: "string \<Rightarrow> db \<Rightarrow> (session \<times> participant) option" where
  "findByTrackingToken token d =
     (if token = [] then None
      else Option.bind
        (find (\<lambda>r. pr_trackingToken r = token \<and> live_session d (pr_sessionId r)) (rev (db_participants d)))
        (seat_of_row d))"

definition hasParticipantAccess :: "string \<Rightarrow> string \<Rightarrow> string option \<Rightarrow> db \<Rightarrow> bool" where
  "hasParticipantAccess sid token pid d =
     (sid \<noteq> [] \<and> token \<noteq> [] \<and>
      list_ex (\<lambda>r. pr_sessionId r = sid \<and> pr_trackingToken r = token \<and>
        (truthy pid \<longrightarrow> Some (pr_id r) = pid)) (db_participants d))"

definition findByProlificSession :: "prolific_identity \<Rightarrow> db \<Rightarrow> (session \<times> participant) option" where
  "findByProlificSession i d =
     Option.bind
       (find (\<lambda>r. pr_prolificStudyId r = Some (pi_studyId i) \<and>
                  pr_prolificSessionId r = Some (pi_sessionId i)) (db_participants d))
       (seat_of_row d)"

definition allSessions :: "db \<Rightarrow> session list" where
  "allSessions d = map (sessionFromRow d) (sort_key sr_createdAt (db_sessions d))"

definition listSessionSummaries :: "db \<Rightarrow> session_summary list" where
  "listSessionSummaries d =
     map (sessionSummaryFromRow d) (sort_key (\<lambda>r. - sr_createdAt r) (db_sessions d))"

definition runningSessions :: "db \<Rightarrow> session list" where
  "runningSessions d =
     map (sessionFromRow d) (sort_key sr_createdAt
       (filter (\<lambda>r. sr_status r = Running \<and> sr_roomId r \<noteq> None) (db_sessions d)))"

definition claimedCount :: "string \<Rightarrow> int \<Rightarrow> db \<Rightarrow> nat" where
  "claimedCount conditionId roundId d =
     length (filter (\<lambda>r. cd_id (sr_conditionSnapshot r) = conditionId \<and> sr_roundId r = roundId \<and>
       sr_status r \<noteq> Aborted) (db_sessions d))"

definition completedCount :: "string \<Rightarrow> int \<Rightarrow> db \<Rightarrow> nat" where
  "completedCount conditionId roundId d =
     length (filter (\<lambda>r. cd_id (sr_conditionSnapshot r) = conditionId \<and> sr_roundId r = roundId \<and>
       sr_status r = Completed) (db_sessions d))"

section \<open>The in-memory store\<close>

record memory =
  my_sessions :: "session list"
  my_creds :: "(string \<times> matrix_creds) list"

definition mem_session :: "string \<Rightarrow> memory \<Rightarrow> session option" where
  "mem_session sid m = find (\<lambda>s. se_id s = sid) (my_sessions m)"

definition mem_update :: "string \<Rightarrow> (session \<Rightarrow> session) \<Rightarrow> memory \<Rightarrow> memory" where
  "mem_update sid f m = m\<lparr>my_sessions := map (\<lambda>s. if se_id s = sid then f s else s) (my_sessions m)\<rparr>"

definition mem_save :: "session \<Rightarrow> memory \<Rightarrow> memory" where
  "mem_save s m = m\<lparr>my_sessions := replace_or_push se_id (my_sessions m) s\<rparr>"

text \<open>An unknown session throws: \<open>None\<close>.\<close>

definition mem_addParticipant :: "string \<Rightarrow> participant \<Rightarrow> memory \<Rightarrow> memory option" where
  "mem_addParticipant sid p m =
     (if mem_session sid m = None then None
      else Some (mem_update sid (\<lambda>s. s\<lparr>se_participants := push_new pt_id (se_participants s) p\<rparr>) m))"

definition mem_remove :: "string \<Rightarrow> string \<Rightarrow> memory \<Rightarrow> bool \<times> memory" where
  "mem_remove sid pid m =
     (case mem_session sid m of
        None \<Rightarrow> (False, m)
      | Some s \<Rightarrow>
          if se_status s \<noteq> Waiting then (False, m)
          else case find_index (\<lambda>p. pt_id p = pid) (se_participants s) of
            None \<Rightarrow> (False, m)
          | Some i \<Rightarrow>
              let rest = take i (se_participants s) @ drop (Suc i) (se_participants s) in
              (True,
               mem_update sid (\<lambda>s. s\<lparr>se_participants := rest,
                  se_status := (if rest = [] then Aborted else se_status s)\<rparr>)
                (m\<lparr>my_creds := om_del pid (my_creds m)\<rparr>)))"

definition mem_lifecycle_patch :: "lifecycle_patch \<Rightarrow> session \<Rightarrow> session" where
  "mem_lifecycle_patch p s =
     s\<lparr>se_status := orelse (lp_status p) (se_status s),
       se_roomId := keep_undefined (lp_roomId p) (se_roomId s),
       se_startedAt := keep_undefined (lp_startedAt p) (se_startedAt s),
       se_completedAt := keep_undefined (lp_completedAt p) (se_completedAt s)\<rparr>"

definition mem_lifecycle :: "string \<Rightarrow> lifecycle_patch \<Rightarrow> memory \<Rightarrow> memory option" where
  "mem_lifecycle sid p m =
     (if mem_session sid m = None then None else Some (mem_update sid (mem_lifecycle_patch p) m))"

definition mem_claim :: "string \<Rightarrow> memory \<Rightarrow> bool \<times> memory" where
  "mem_claim sid m =
     (case mem_session sid m of
        None \<Rightarrow> (False, m)
      | Some s \<Rightarrow>
          (se_status s \<in> {Waiting, Provisioning},
           if se_status s = Waiting then mem_update sid (\<lambda>s. s\<lparr>se_status := Provisioning\<rparr>) m else m))"

definition mem_finish :: "string \<Rightarrow> string \<Rightarrow> stamp \<Rightarrow> memory \<Rightarrow> bool \<times> memory" where
  "mem_finish sid roomId startedAt m =
     (case mem_session sid m of
        None \<Rightarrow> (False, m)
      | Some s \<Rightarrow>
          if se_status s = Running then (se_roomId s = Some roomId, m)
          else if se_status s \<noteq> Provisioning then (False, m)
          else (True, mem_update sid
            (\<lambda>s. s\<lparr>se_roomId := Some roomId, se_status := Running, se_startedAt := Some startedAt\<rparr>) m))"

definition mem_participant :: "string \<Rightarrow> string \<Rightarrow> memory \<Rightarrow> participant option" where
  "mem_participant sid pid m =
     Option.bind (mem_session sid m) (\<lambda>s. find (\<lambda>p. pt_id p = pid) (se_participants s))"

definition mem_update_participant ::
    "string \<Rightarrow> string \<Rightarrow> (participant \<Rightarrow> participant) \<Rightarrow> memory \<Rightarrow> memory" where
  "mem_update_participant sid pid f m =
     mem_update sid (\<lambda>s. s\<lparr>se_participants :=
       update_first (\<lambda>p. pt_id p = pid) f (se_participants s)\<rparr>) m"

definition mem_saveSurvey :: "string \<Rightarrow> string \<Rightarrow> bool \<Rightarrow> survey \<Rightarrow> memory \<Rightarrow> bool \<times> memory" where
  "mem_saveSurvey sid pid entry v m =
     (if mem_participant sid pid m = None then (False, m)
      else (True, mem_update_participant sid pid
        (\<lambda>p. if entry then p\<lparr>pt_entrySurvey := Some v\<rparr> else p\<lparr>pt_exitSurvey := Some v\<rparr>) m))"

definition mem_patchExit :: "string \<Rightarrow> string \<Rightarrow> (string \<times> answer) list \<Rightarrow> memory \<Rightarrow> bool \<times> memory" where
  "mem_patchExit sid pid patch m =
     (if Option.bind (mem_participant sid pid m) pt_exitSurvey = None then (False, m)
      else (True, mem_update_participant sid pid
        (\<lambda>p. p\<lparr>pt_exitSurvey := map_option
           (\<lambda>v. v\<lparr>sv_answers := object_assign (sv_answers v) patch\<rparr>) (pt_exitSurvey p)\<rparr>) m))"

definition mem_markCompleted :: "string \<Rightarrow> string \<Rightarrow> stamp \<Rightarrow> memory \<Rightarrow> bool \<times> memory" where
  "mem_markCompleted sid pid completedAt m =
     (if mem_participant sid pid m = None then (False, m)
      else (True, mem_update_participant sid pid
        (\<lambda>p. p\<lparr>pt_completedAt := Some (orelse (pt_completedAt p) completedAt)\<rparr>) m))"

text \<open>A deadline that cannot be parsed does not compare as later, so the lobby is aborted.\<close>

definition mem_matches :: "session_status list \<Rightarrow> int option \<Rightarrow> session \<Rightarrow> bool" where
  "mem_matches statuses deadlinePassedAt s =
     (se_status s \<in> {Waiting, Provisioning} \<and> se_status s \<in> set statuses \<and>
      (case deadlinePassedAt of None \<Rightarrow> True
       | Some t \<Rightarrow>
           (case se_waitingDeadlineAt s of None \<Rightarrow> False
            | Some w \<Rightarrow> w \<noteq> Bad_Stamp [] \<and>
                (case parse_ms w of None \<Rightarrow> True | Some ms \<Rightarrow> ms \<le> t))))"

definition mem_abortLobbies :: "session_status list \<Rightarrow> int option \<Rightarrow> memory \<Rightarrow> aborted_lobby list \<times> memory" where
  "mem_abortLobbies statuses deadline m =
     (map (\<lambda>s. \<lparr>al_id = se_id s, al_createdAt = se_createdAt s,
               al_participantCount = length (se_participants s), al_priorStatus = se_status s\<rparr>)
        (filter (mem_matches statuses deadline) (my_sessions m)),
      m\<lparr>my_sessions := map (\<lambda>s. if mem_matches statuses deadline s then s\<lparr>se_status := Aborted\<rparr> else s)
        (my_sessions m)\<rparr>)"

definition mem_setCreds :: "string \<Rightarrow> matrix_creds \<Rightarrow> memory \<Rightarrow> memory" where
  "mem_setCreds pid c m =
     m\<lparr>my_creds := om_set pid c (my_creds m),
       my_sessions := map (\<lambda>s. s\<lparr>se_participants :=
         update_first (\<lambda>p. pt_id p = pid) (\<lambda>p. p\<lparr>pt_matrixUserId := Some (mc_userId c)\<rparr>)
           (se_participants s)\<rparr>) (my_sessions m)\<rparr>"

definition mem_getCreds :: "string \<Rightarrow> memory \<Rightarrow> matrix_creds option" where
  "mem_getCreds pid m = om_get (my_creds m) pid"

section \<open>Requests to either back end\<close>

datatype store_op =
    Op_Create session
  | Op_Add string participant
  | Op_Remove string string
  | Op_Lifecycle string lifecycle_patch
  | Op_Claim string
  | Op_Finish string string stamp
  | Op_Survey string string bool survey
  | Op_Feedback string string "(string \<times> answer) list"
  | Op_Complete string string stamp
  | Op_Abort "session_status list" "int option"
  | Op_Creds string matrix_creds

datatype reply = R_Unit | R_Throws | R_Bool bool | R_Lobbies "aborted_lobby list"

definition bool_reply :: "bool \<times> 's \<Rightarrow> reply \<times> 's" where
  "bool_reply r = (R_Bool (fst r), snd r)"

definition try_reply :: "'s \<Rightarrow> 's option \<Rightarrow> reply \<times> 's" where
  "try_reply s r = (case r of None \<Rightarrow> (R_Throws, s) | Some t \<Rightarrow> (R_Unit, t))"

definition ok_of :: "'e + 'a \<Rightarrow> 'a option" where
  "ok_of r = (case r of Inl e \<Rightarrow> None | Inr x \<Rightarrow> Some x)"

lemma ok_of_simps [simp]: "ok_of (Inl e) = None" "ok_of (Inr x) = Some x"
  by (simp_all add: ok_of_def)

text \<open>A thrown error leaves the tables as they were; \<open>now\<close> is the time of the request.\<close>

fun run_db :: "(nat \<Rightarrow> string) \<Rightarrow> int \<Rightarrow> store_op \<Rightarrow> db \<Rightarrow> reply \<times> db" where
  "run_db uuid now (Op_Create s) d = try_reply d (ok_of (persistSessionSnapshot uuid now s d))"
| "run_db uuid now (Op_Add sid p) d = try_reply d (ok_of (addParticipant now sid p d))"
| "run_db uuid now (Op_Remove sid pid) d = bool_reply (removeParticipantFromWaitingSession sid pid d)"
| "run_db uuid now (Op_Lifecycle sid p) d = try_reply d (ok_of (updateSessionLifecycle now sid p d))"
| "run_db uuid now (Op_Claim sid) d = bool_reply (claimSessionProvisioning sid d)"
| "run_db uuid now (Op_Finish sid room t) d = bool_reply (finishSessionProvisioning now sid room t d)"
| "run_db uuid now (Op_Survey sid pid entry v) d = bool_reply (saveParticipantSurvey now sid pid entry v d)"
| "run_db uuid now (Op_Feedback sid pid a) d = bool_reply (patchExitSurveyAnswers sid pid a d)"
| "run_db uuid now (Op_Complete sid pid t) d = bool_reply (markParticipantCompleted now sid pid t d)"
| "run_db uuid now (Op_Abort statuses deadline) d =
     (let r = abortLobbies statuses deadline d in (R_Lobbies (fst r), snd r))"
| "run_db uuid now (Op_Creds pid c) d = try_reply d (setParticipantCreds pid c d)"

fun run_memory :: "store_op \<Rightarrow> memory \<Rightarrow> reply \<times> memory" where
  "run_memory (Op_Create s) m = (R_Unit, mem_save s m)"
| "run_memory (Op_Add sid p) m = try_reply m (mem_addParticipant sid p m)"
| "run_memory (Op_Remove sid pid) m = bool_reply (mem_remove sid pid m)"
| "run_memory (Op_Lifecycle sid p) m = try_reply m (mem_lifecycle sid p m)"
| "run_memory (Op_Claim sid) m = bool_reply (mem_claim sid m)"
| "run_memory (Op_Finish sid room t) m = bool_reply (mem_finish sid room t m)"
| "run_memory (Op_Survey sid pid entry v) m = bool_reply (mem_saveSurvey sid pid entry v m)"
| "run_memory (Op_Feedback sid pid a) m = bool_reply (mem_patchExit sid pid a m)"
| "run_memory (Op_Complete sid pid t) m = bool_reply (mem_markCompleted sid pid t m)"
| "run_memory (Op_Abort statuses deadline) m =
     (let r = mem_abortLobbies statuses deadline m in (R_Lobbies (fst r), snd r))"
| "run_memory (Op_Creds pid c) m = (R_Unit, mem_setCreds pid c m)"

section \<open>The in-memory store refines the tables\<close>

text \<open>A revision that was never set counts as zero.\<close>

definition with_revision :: "session \<Rightarrow> session" where
  "with_revision s = s\<lparr>se_checkpointRevision := Some (orelse (se_checkpointRevision s) 0)\<rparr>"

definition same_store :: "memory \<Rightarrow> db \<Rightarrow> bool" where
  "same_store m d =
     (map with_revision (my_sessions m) = map (sessionFromRow d) (db_sessions d) \<and>
      (\<forall>pid. mem_getCreds pid m = getParticipantCreds pid d))"

text \<open>Primary keys and foreign keys.\<close>

definition store_ok :: "db \<Rightarrow> bool" where
  "store_ok d =
     (distinct (map sr_id (db_sessions d)) \<and> distinct (map pr_id (db_participants d)) \<and>
      pr_sessionId ` set (db_participants d) \<subseteq> sr_id ` set (db_sessions d) \<and>
      vr_participantId ` set (db_surveys d) \<subseteq> pr_id ` set (db_participants d) \<and>
      mr_sessionId ` set (db_messages d) \<subseteq> sr_id ` set (db_sessions d) \<and>
      kr_sessionId ` set (db_rankings d) \<subseteq> sr_id ` set (db_sessions d) \<and>
      ir_sessionId ` set (db_interventions d) \<subseteq> sr_id ` set (db_sessions d) \<and>
      wr_sessionId ` set (db_windows d) \<subseteq> sr_id ` set (db_sessions d))"

definition stamp_ok :: "stamp \<Rightarrow> bool" where
  "stamp_ok s = (parse_ms s \<noteq> None)"

text \<open>
  What the callers guarantee: a new session is a forming lobby with a fresh id, a new participant
  a fresh one without surveys and credentials, timestamps are ISO strings, and credentials are
  given to a participant that exists.
\<close>

fun op_ok :: "db \<Rightarrow> store_op \<Rightarrow> bool" where
  "op_ok d (Op_Create s) =
     (se_id s \<notin> sr_id ` set (db_sessions d) \<and>
      (\<exists>env pick now. newFormingSession env (se_id s) pick (se_condition s) (se_roundId s) now = Some s))"
| "op_ok d (Op_Add sid p) =
     (sid \<in> sr_id ` set (db_sessions d) \<and> participantFromRow [] (participantCreateData 0 sid p) = p \<and>
      \<not> list_ex (seat_taken (participantCreateData 0 sid p)) (db_participants d))"
| "op_ok d (Op_Lifecycle sid p) =
     (pred_option stamp_ok (lp_startedAt p) \<and> pred_option stamp_ok (lp_completedAt p))"
| "op_ok d (Op_Finish sid room t) = stamp_ok t"
| "op_ok d (Op_Survey sid pid entry v) = stamp_ok (sv_submittedAt v)"
| "op_ok d (Op_Complete sid pid t) = stamp_ok t"
| "op_ok d (Op_Abort statuses deadline) = (set statuses \<subseteq> {Waiting, Provisioning})"
| "op_ok d (Op_Creds pid c) =
     (pid \<in> pr_id ` set (db_participants d) \<and> mc_userId c \<noteq> [] \<and> mc_accessToken c \<noteq> [])"
| "op_ok d _ = True"

section \<open>Lemmas: reading sessions\<close>

lemma stamp_ok_toDate [simp]: "stamp_ok s \<Longrightarrow> Stamp (toDate now s) = s"
  by (cases s) (auto simp: stamp_ok_def)

lemma session_id [simp]: "se_id (sessionFromRow d r) = sr_id r"
  by (simp add: sessionFromRow_def Let_def)

lemma session_status [simp]: "se_status (sessionFromRow d r) = sr_status r"
  by (simp add: sessionFromRow_def Let_def)

lemma session_participants:
  "se_participants (sessionFromRow d r) =
     map (participantFromRow (db_surveys d)) (filter (\<lambda>p. pr_sessionId p = sr_id r) (db_participants d))"
  by (simp add: sessionFromRow_def Let_def)

lemma sessionFromRow_sessions [simp]: "sessionFromRow (d\<lparr>db_sessions := rows\<rparr>) r = sessionFromRow d r"
  by (simp add: sessionFromRow_def Let_def session_messages_def session_reactions_def session_rankings_def)

lemma sessionFromRow_update [simp]: "sessionFromRow (update_session_row sid f d) r = sessionFromRow d r"
  by (simp add: update_session_row_def)

lemma sessionFromRow_seats:
  "sessionFromRow (d\<lparr>db_participants := ps, db_surveys := vs\<rparr>) r =
     (sessionFromRow d r)\<lparr>se_participants :=
       map (participantFromRow vs) (filter (\<lambda>p. pr_sessionId p = sr_id r) ps)\<rparr>"
  by (simp add: sessionFromRow_def Let_def session_messages_def session_reactions_def session_rankings_def)

lemma with_revision_simps [simp]:
  "se_id (with_revision s) = se_id s" "se_status (with_revision s) = se_status s"
  "se_participants (with_revision s) = se_participants s" "se_roomId (with_revision s) = se_roomId s"
  "se_waitingDeadlineAt (with_revision s) = se_waitingDeadlineAt s"
  "se_createdAt (with_revision s) = se_createdAt s"
  by (simp_all add: with_revision_def)

lemma find_map: "find p (map f xs) = map_option f (find (p \<circ> f) xs)"
  by (induction xs) auto

lemma find_cong_pred: "(\<And>x. x \<in> set xs \<Longrightarrow> p x = q x) \<Longrightarrow> find p xs = find q xs"
  by (induction xs) auto

lemma map_same_update:
  assumes "map f xs = map g ys"
    and "\<And>x y. x \<in> set xs \<Longrightarrow> y \<in> set ys \<Longrightarrow> f x = g y \<Longrightarrow> f' (F x) = g' (G y)"
  shows "map f' (map F xs) = map g' (map G ys)"
  using assms by (induction xs arbitrary: ys) (auto simp: map_eq_Cons_conv Cons_eq_map_conv)

text \<open>Looking a session up finds related sessions.\<close>

lemma mem_session_load:
  "same_store m d \<Longrightarrow> map_option with_revision (mem_session sid m) = load_session d sid"
proof -
  assume "same_store m d"
  then have "find (\<lambda>s. se_id s = sid) (map with_revision (my_sessions m)) =
      find (\<lambda>s. se_id s = sid) (map (sessionFromRow d) (db_sessions d))"
    by (simp add: same_store_def)
  then show ?thesis
    by (simp add: find_map comp_def mem_session_def load_session_def session_row_of_def)
qed

lemma row_unique:
  "store_ok d \<Longrightarrow> r \<in> set (db_sessions d) \<Longrightarrow> session_row_of d (sr_id r) = Some r"
proof -
  assume ok: "store_ok d" and r: "r \<in> set (db_sessions d)"
  then have d: "distinct (map sr_id (db_sessions d))" by (simp add: store_ok_def)
  have "session_row_of d (sr_id r) \<noteq> None"
    using r by (auto simp: session_row_of_def find_None_iff)
  then obtain x where x: "session_row_of d (sr_id r) = Some x" by auto
  then have "x \<in> set (db_sessions d)" "sr_id x = sr_id r"
    by (auto simp: session_row_of_def find_Some_iff)
  with d r have "x = r" by (metis distinct_map inj_onD)
  with x show ?thesis by simp
qed

lemma mem_session_cases:
  assumes "same_store m d"
  obtains "mem_session sid m = None" "session_row_of d sid = None"
  | s r where "mem_session sid m = Some s" "session_row_of d sid = Some r" "sr_id r = sid"
      "se_id s = sid" "with_revision s = sessionFromRow d r" "se_status s = sr_status r"
      "r \<in> set (db_sessions d)"
proof (cases "session_row_of d sid")
  case None
  with mem_session_load [OF assms, of sid] show thesis by (auto simp: load_session_def intro: that(1))
next
  case (Some r)
  with mem_session_load [OF assms, of sid] obtain s where s: "mem_session sid m = Some s"
    "with_revision s = sessionFromRow d r" by (auto simp: load_session_def)
  have "r \<in> set (db_sessions d)" using Some by (auto simp: session_row_of_def find_Some_iff)
  moreover have "sr_id r = sid" by (rule row_of_id [OF Some])
  moreover have "se_id s = sr_id r" using arg_cong [OF s(2), of se_id] by simp
  moreover have "se_status s = sr_status r" using arg_cong [OF s(2), of se_status] by simp
  ultimately show thesis using s Some by (intro that(2)) simp_all
qed

section \<open>A session only moves forward\<close>

text \<open>
  The state machine of a session: a lobby is waiting, then provisioning, running and completed,
  or it is aborted before it ends; completed and aborted are final.
\<close>

definition status_le :: "session_status \<Rightarrow> session_status \<Rightarrow> bool" where
  "status_le a b =
     (case a of
        Waiting \<Rightarrow> True
      | Provisioning \<Rightarrow> b \<noteq> Waiting
      | Running \<Rightarrow> b \<in> {Running, Completed, Aborted}
      | Completed \<Rightarrow> b = Completed
      | Aborted \<Rightarrow> b = Aborted)"

lemma status_le_refl [simp]: "status_le a a"
  by (cases a) (simp_all add: status_le_def)

lemma status_le_trans: "status_le a b \<Longrightarrow> status_le b c \<Longrightarrow> status_le a c"
  by (cases a; cases b; cases c) (simp_all add: status_le_def)

text \<open>A running session that stays running keeps the room and the start it was published with.\<close>

definition session_row_below :: "session_row \<Rightarrow> session_row \<Rightarrow> bool" where
  "session_row_below r r' =
     (sr_id r' = sr_id r \<and> sr_roundId r' = sr_roundId r \<and>
      sr_conditionSnapshot r' = sr_conditionSnapshot r \<and> sr_createdAt r' = sr_createdAt r \<and>
      status_le (sr_status r) (sr_status r') \<and>
      (sr_status r = Running \<longrightarrow>
         sr_status r' = Running \<and> sr_roomId r' = sr_roomId r \<and> sr_startedAt r' = sr_startedAt r) \<and>
      (sr_status r' = Running \<longrightarrow> sr_status r = Running \<or> sr_roomId r' \<noteq> None \<and> sr_startedAt r' \<noteq> None))"

lemma session_row_below_refl [simp]: "session_row_below r r"
  by (simp add: session_row_below_def)

lemma session_row_below_trans:
  assumes "session_row_below a b" and "session_row_below b c"
  shows "session_row_below a c"
proof -
  have "status_le (sr_status a) (sr_status c)"
    using assms unfolding session_row_below_def by (auto intro: status_le_trans)
  moreover have "sr_status c = Running \<longrightarrow> sr_status a = Running \<or> sr_roomId c \<noteq> None \<and> sr_startedAt c \<noteq> None"
    using assms unfolding session_row_below_def by (cases "sr_status b = Running") simp_all
  ultimately show ?thesis using assms by (simp add: session_row_below_def)
qed

text \<open>
  A request that goes through the conditional operations: everything but the lifecycle patch, a
  new session having an id of its own; or a checkpoint of the Chat Service.
\<close>

fun conditional :: "db \<Rightarrow> store_op \<Rightarrow> bool" where
  "conditional d (Op_Create s) = (se_id s \<notin> sr_id ` set (db_sessions d))"
| "conditional d (Op_Lifecycle sid p) = False"
| "conditional d (Op_Abort statuses deadline) = (set statuses \<subseteq> {Waiting, Provisioning})"
| "conditional d _ = True"

definition lifecycle_step ::
    "(nat \<Rightarrow> string) \<Rightarrow> db \<Rightarrow> int \<times> (store_op + string \<times> checkpoint) \<Rightarrow> db" where
  "lifecycle_step uuid d e =
     (case snd e of
        Inl q \<Rightarrow> if conditional d q then snd (run_db uuid (fst e) q d) else d
      | Inr (sid, cp) \<Rightarrow> orelse (ok_of (persistRuntimeCheckpoint uuid (fst e) sid cp d)) d)"

definition sessions_below :: "db \<Rightarrow> db \<Rightarrow> bool" where
  "sessions_below d d' = rows_below session_row_below (db_sessions d) (db_sessions d')"

lemma sessions_below_refl: "sessions_below d d"
  by (simp add: sessions_below_def rows_below_refl)

lemma sessions_below_trans: "sessions_below a b \<Longrightarrow> sessions_below b c \<Longrightarrow> sessions_below a c"
  unfolding sessions_below_def by (rule rows_below_trans) (auto intro: session_row_below_trans)

lemma below_same: "db_sessions d' = db_sessions d \<Longrightarrow> sessions_below d d'"
  by (simp add: sessions_below_def rows_below_refl)

lemma below_update:
  "(\<And>r. session_row_below r (f r)) \<Longrightarrow> sessions_below d (update_session_row sid f d)"
  by (simp add: sessions_below_def update_session_row_def rows_below_map)

lemma below_status:
  "status_le (sr_status r) st \<Longrightarrow> sr_status r \<noteq> Running \<Longrightarrow> st \<noteq> Running \<Longrightarrow> session_row_below r (set_status st r)"
  by (simp add: session_row_below_def set_status_def)

lemma below_update_if:
  assumes "\<And>r. p r \<Longrightarrow> session_row_below r (f r)"
  shows "sessions_below d (snd (update_if sid p f d))"
  using assms by (simp add: update_if_def below_update)

lemma below_abort: "lobby_matches statuses deadline r \<Longrightarrow> set statuses \<subseteq> {Waiting, Provisioning} \<Longrightarrow>
    session_row_below r (set_status Aborted r)"
  by (rule below_status) (auto simp: lobby_matches_def status_le_def)

lemma below_abort_lobbies:
  assumes "set statuses \<subseteq> {Waiting, Provisioning}"
  shows "sessions_below (snd acc) (snd (foldl (abort_lobby statuses deadline) acc lobbies))"
proof (induction lobbies arbitrary: acc)
  case (Cons l lobbies)
  have "sessions_below (snd acc) (snd (abort_lobby statuses deadline acc l))"
    using below_update_if [of "lobby_matches statuses deadline" "set_status Aborted"] below_abort [OF _ assms]
    by (simp add: abort_lobby_def split_def Let_def)
  from sessions_below_trans [OF this Cons.IH] show ?case by simp
qed (simp add: sessions_below_refl)

lemma below_merge: "session_row_below r (mergedSessionState stored cp r)"
  by (simp add: session_row_below_def mergedSessionState_def Let_def)

lemma below_persist:
  assumes "persistRuntimeCheckpoint uuid now sid cp d = Inr d'"
  shows "sessions_below d d'"
  using assms
proof (rule persist_chat)
  fix row e
  assume e: "chat_write d e"
    and d': "d' = finish_checkpoint now sid (map kr_ranking (session_rankings d sid))
      (stored_checkpoint row cp) e"
  have "sessions_below d e" using e by (intro below_same) (simp add: chat_write_def)
  moreover have "sessions_below e d'"
    unfolding d' finish_checkpoint_def
    by (rule sessions_below_trans [OF below_same below_update [OF below_merge]])
      (simp add: insertWindowEvaluations_def insertInterventions_def appendRankingHistory_def Let_def)
  ultimately show ?thesis by (rule sessions_below_trans)
qed

lemma below_upsert_participants:
  "upsert_participants now sid ps d = Inr d' \<Longrightarrow> db_sessions d' = db_sessions d"
proof (induction ps arbitrary: d)
  case (Cons p ps)
  have "upsert_participant now sid p e = Inr f \<Longrightarrow> db_sessions f = db_sessions e" for e f
    by (auto simp: upsert_participant_def addParticipant_def upsertSurvey_def Let_def and_then_Inr
        split: if_splits option.splits)
  with Cons show ?case by (fastforce simp: and_then_Inr)
qed simp

lemma below_create:
  assumes "persistSessionSnapshot uuid now s d = Inr d'" and "se_id s \<notin> sr_id ` set (db_sessions d)"
  shows "sessions_below d d'"
proof -
  from assms(1) obtain e where e: "upsert_participants now (se_id s) (se_participants s) (upsert_session now s d) = Inr e"
    and d': "persistRuntimeCheckpoint uuid now (se_id s) (checkpointFromSession s) e = Inr d'"
    by (auto simp: persistSessionSnapshot_def and_then_Inr)
  have "session_row_of d (se_id s) = None"
    using assms(2) by (simp add: session_row_of_def find_None_iff) (metis image_eqI)
  then have "db_sessions (upsert_session now s d) = db_sessions d @ [sessionCreateData now s]"
    by (simp add: upsert_session_def)
  then have "sessions_below d e"
    using below_upsert_participants [OF e] by (simp add: sessions_below_def rows_below_append)
  then show ?thesis using below_persist [OF d'] by (rule sessions_below_trans)
qed

lemma below_publish:
  "sr_status r = Provisioning \<Longrightarrow> session_row_below r (publish_row now room t r)"
  by (simp add: session_row_below_def publish_row_def status_le_def)

lemma lifecycle_step_below: "sessions_below d (lifecycle_step uuid d e)"
proof (cases "snd e")
  case (Inr x)
  then show ?thesis
    by (cases x; cases "persistRuntimeCheckpoint uuid (fst e) (fst x) (snd x) d")
      (auto simp: lifecycle_step_def sessions_below_refl intro: below_persist)
next
  case (Inl q)
  let ?now = "fst e"
  have "sessions_below d (snd (run_db uuid ?now q d))" if ok: "conditional d q"
  proof (cases q)
    case (Op_Create s)
    with ok show ?thesis
      by (cases "persistSessionSnapshot uuid ?now s d")
        (auto simp: try_reply_def sessions_below_refl intro: below_create)
  next
    case (Op_Remove sid pid)
    have abort: "sessions_below d (snd (update_if sid (\<lambda>r. sr_status r = Waiting) (set_status Aborted) f))"
      if "db_sessions f = db_sessions d" for f
      using below_same [OF that] by (rule sessions_below_trans)
        (rule below_update_if, rule below_status, simp_all add: status_le_def)
    have seats: "sessions_below d (d\<lparr>db_participants := ps, db_surveys := vs\<rparr>)" for ps vs
      by (rule below_same) simp
    from Op_Remove show ?thesis
      by (auto simp: bool_reply_def removeParticipantFromWaitingSession_def Let_def sessions_below_refl seats
          intro!: abort split: option.splits)
  next
    case (Op_Claim sid)
    have "sessions_below d (snd (update_if sid (\<lambda>r. sr_status r = Waiting) (set_status Provisioning) d))"
      by (rule below_update_if, rule below_status) (simp_all add: status_le_def)
    with Op_Claim show ?thesis by (simp add: bool_reply_def claimSessionProvisioning_def split_def Let_def)
  next
    case (Op_Finish sid room t)
    have "sessions_below d (snd (update_if sid (\<lambda>r. sr_status r = Provisioning) (publish_row ?now room t) d))"
      by (rule below_update_if, rule below_publish)
    with Op_Finish show ?thesis by (simp add: bool_reply_def finishSessionProvisioning_def split_def Let_def)
  next
    case (Op_Abort statuses deadline)
    with ok show ?thesis
      using below_abort_lobbies [of statuses "([], d)"] by (simp add: abortLobbies_def Let_def)
  qed (use ok in \<open>auto simp: try_reply_def bool_reply_def addParticipant_def saveParticipantSurvey_def
        upsertSurvey_def patchExitSurveyAnswers_def markParticipantCompleted_def setParticipantCreds_def Let_def
      intro!: below_same\<close>)
  with Inl show ?thesis by (simp add: lifecycle_step_def sessions_below_refl)
qed

interpretation lifecycle: monotone_stepper "lifecycle_step uuid" "\<lambda>_. True" sessions_below for uuid
  by unfold_locales (auto intro: sessions_below_refl sessions_below_trans lifecycle_step_below)

text \<open>
  C17: A session only moves forward: whatever claims, publications, aborts, seat changes, surveys
  and checkpoints follow each other, its round, condition and creation time stay, its status never
  goes back, a running session keeps the room and the start it was published with, none runs
  without a room, and a completed or aborted one stays so.
\<close>

theorem sessions_only_move_forward: "sessions_below d (foldl (lifecycle_step uuid) d es)"
  by (rule lifecycle.run_below) simp

end
