(* ===== verification/Rounds.thy ===== *)
theory Rounds
  imports Session_Store
begin

text \<open>
  Study rounds, conditions, settings and the choice of a lobby: the rest of
  session-manager/src/store/store.service.ts. The current round is read and, on an empty table,
  created by several database calls; a call is a program counter that takes one database call per
  step, so that concurrent calls and the start of a new round can interleave in every order. The
  tables keep the primary key of study_rounds and the partial unique index that allows one open
  round.

  The lemmas: under every interleaving at most one round is open and the rounds are numbered
  without gaps; a first read never fails and concurrent ones agree; the grouped counts of the
  overview are the counts of the sessions; the in-memory rounds are the rows.
\<close>

section \<open>Rounds\<close>

record round_row =
  rd_id :: int
  rd_label :: string
  rd_startedAt :: int
  rd_endedAt :: "int option"

record round_state =
  ro_id :: int
  ro_label :: string
  ro_startedAt :: stamp
  ro_endedAt :: "stamp option"

definition roundFromRow :: "round_row \<Rightarrow> round_state" where
  "roundFromRow r =
     \<lparr>ro_id = rd_id r, ro_label = rd_label r, ro_startedAt = Stamp (rd_startedAt r),
      ro_endedAt = map_option Stamp (rd_endedAt r)\<rparr>"

definition open_round :: "round_row list \<Rightarrow> round_row option" where
  "open_round rows = find (\<lambda>r. rd_endedAt r = None) rows"

definition max_round_id :: "round_row list \<Rightarrow> int" where
  "max_round_id rows = (case rows of [] \<Rightarrow> 0 | r # rs \<Rightarrow> foldl max (rd_id r) (map rd_id rs))"

text \<open>The primary key, and the unique index over the open rounds.\<close>

definition insert_round :: "int \<Rightarrow> int \<Rightarrow> string \<Rightarrow> round_row list \<Rightarrow> db_error + round_row list" where
  "insert_round now i label rows =
     (if i \<in> rd_id ` set rows \<or> open_round rows \<noteq> None then Inl Unique_Violation
      else Inr (rows @ [\<lparr>rd_id = i, rd_label = label, rd_startedAt = now, rd_endedAt = None\<rparr>]))"

text \<open>
  Where a call is: before reading the open round, having seen none, with the number to create,
  after losing the race, with the round it returns, or failed; \<open>startNewRound\<close> goes on from the
  current round to its transaction.
\<close>

datatype round_pc =
    Rp_Read | Rp_Max | Rp_Create int | Rp_Again | Rp_Got round_state | Rp_Started round_state
  | Rp_Failed db_error

definition current_step :: "int \<Rightarrow> round_row list \<Rightarrow> round_pc \<Rightarrow> round_pc \<times> round_row list" where
  "current_step now rows pc =
     (case pc of
        Rp_Read \<Rightarrow>
          (case open_round rows of Some r \<Rightarrow> (Rp_Got (roundFromRow r), rows) | None \<Rightarrow> (Rp_Max, rows))
      | Rp_Max \<Rightarrow> (Rp_Create (max_round_id rows + 1), rows)
      | Rp_Create i \<Rightarrow>
          (case insert_round now i [] rows of
             Inr rows' \<Rightarrow> (Rp_Got (roundFromRow (last rows')), rows')
           | Inl e \<Rightarrow> (Rp_Again, rows))
      | Rp_Again \<Rightarrow>
          (case open_round rows of Some r \<Rightarrow> (Rp_Got (roundFromRow r), rows)
           | None \<Rightarrow> (Rp_Failed Unique_Violation, rows))
      | _ \<Rightarrow> (pc, rows))"

definition close_round :: "int \<Rightarrow> int \<Rightarrow> round_row list \<Rightarrow> round_row list" where
  "close_round now i rows = map (\<lambda>r. if rd_id r = i then r\<lparr>rd_endedAt := Some now\<rparr> else r) rows"

definition start_tx :: "int \<Rightarrow> int \<Rightarrow> string \<Rightarrow> round_row list \<Rightarrow> db_error + round_row list" where
  "start_tx now current label rows =
     (if current \<notin> rd_id ` set rows then Inl Unknown_Session
      else insert_round now (current + 1) (js_trim label) (close_round now current rows))"

datatype round_call = Call_Current | Call_Start string

definition call_step ::
    "int \<Rightarrow> round_row list \<Rightarrow> round_call \<Rightarrow> round_pc \<Rightarrow> round_pc \<times> round_row list" where
  "call_step now rows call pc =
     (case (call, pc) of
        (Call_Start label, Rp_Got current) \<Rightarrow>
          (case start_tx now (ro_id current) label rows of
             Inr rows' \<Rightarrow> (Rp_Started (roundFromRow (last rows')), rows')
           | Inl e \<Rightarrow> (Rp_Failed e, rows))
      | _ \<Rightarrow> current_step now rows pc)"

text \<open>Both operations without interference.\<close>

definition currentRound :: "int \<Rightarrow> round_row list \<Rightarrow> (db_error + round_state) \<times> round_row list" where
  "currentRound now rows =
     (case open_round rows of
        Some r \<Rightarrow> (Inr (roundFromRow r), rows)
      | None \<Rightarrow>
          (case insert_round now (max_round_id rows + 1) [] rows of
             Inr rows' \<Rightarrow> (Inr (roundFromRow (last rows')), rows')
           | Inl e \<Rightarrow> (Inl e, rows)))"

definition startNewRound ::
    "int \<Rightarrow> string \<Rightarrow> round_row list \<Rightarrow> (db_error + round_state) \<times> round_row list" where
  "startNewRound now label rows =
     (case currentRound now rows of
        (Inl e, rows1) \<Rightarrow> (Inl e, rows1)
      | (Inr current, rows1) \<Rightarrow>
          (case start_tx now (ro_id current) label rows1 of
             Inr rows2 \<Rightarrow> (Inr (roundFromRow (last rows2)), rows2)
           | Inl e \<Rightarrow> (Inl e, rows1)))"

definition updateRoundLabel ::
    "int \<Rightarrow> string \<Rightarrow> round_row list \<Rightarrow> round_state option \<times> round_row list" where
  "updateRoundLabel i label rows =
     (let rows' = map (\<lambda>r. if rd_id r = i then r\<lparr>rd_label := js_trim label\<rparr> else r) rows in
      case find (\<lambda>r. rd_id r = i) rows' of
        None \<Rightarrow> (None, rows)
      | Some r \<Rightarrow> (Some (roundFromRow r), rows'))"

text \<open>The in-memory rounds are mutable objects in creation order.\<close>

definition mem_currentRound :: "int \<Rightarrow> round_state list \<Rightarrow> round_state \<times> round_state list" where
  "mem_currentRound now rounds =
     (case find (\<lambda>r. ro_endedAt r = None) rounds of
        Some r \<Rightarrow> (r, rounds)
      | None \<Rightarrow>
          (let new = \<lparr>ro_id = foldl max 0 (map ro_id rounds) + 1, ro_label = [],
                      ro_startedAt = Stamp now, ro_endedAt = None\<rparr>
           in (new, rounds @ [new])))"

definition mem_startNewRound :: "int \<Rightarrow> string \<Rightarrow> round_state list \<Rightarrow> round_state \<times> round_state list" where
  "mem_startNewRound now label rounds =
     (let (current, rounds1) = mem_currentRound now rounds;
          new = \<lparr>ro_id = ro_id current + 1, ro_label = js_trim label, ro_startedAt = Stamp now,
                 ro_endedAt = None\<rparr>
      in (new, map (\<lambda>r. if ro_id r = ro_id current then r\<lparr>ro_endedAt := Some (Stamp now)\<rparr> else r) rounds1
                 @ [new]))"

definition mem_updateRoundLabel ::
    "int \<Rightarrow> string \<Rightarrow> round_state list \<Rightarrow> round_state option \<times> round_state list" where
  "mem_updateRoundLabel i label rounds =
     (let rounds' = update_first (\<lambda>r. ro_id r = i) (\<lambda>r. r\<lparr>ro_label := js_trim label\<rparr>) rounds
      in (find (\<lambda>r. ro_id r = i) rounds', rounds'))"

section \<open>The overview of the rounds\<close>

record study_round =
  sn_number :: int
  sn_label :: string
  sn_startedAt :: stamp
  sn_endedAt :: "stamp option"
  sn_sessionCount :: nat
  sn_completedCount :: nat

definition study_session :: "session_row \<Rightarrow> bool" where
  "study_session r = (\<not> isTestCondition (cd_id (sr_conditionSnapshot r)))"

text \<open>\<open>groupBy\<close> on round and status.\<close>

definition round_counts :: "session_row list \<Rightarrow> ((int \<times> session_status) \<times> nat) list" where
  "round_counts rows =
     (let keys = map (\<lambda>r. (sr_roundId r, sr_status r)) (filter study_session rows)
      in map (\<lambda>k. (k, count_list keys k)) (uniq keys))"

definition study_round_of :: "((int \<times> session_status) \<times> nat) list \<Rightarrow> round_state \<Rightarrow> study_round" where
  "study_round_of counts r =
     \<lparr>sn_number = ro_id r, sn_label = ro_label r, sn_startedAt = ro_startedAt r,
      sn_endedAt = ro_endedAt r,
      sn_sessionCount =
        sum_list (map snd (filter (\<lambda>x. fst (fst x) = ro_id r \<and> snd (fst x) \<noteq> Aborted) counts)),
      sn_completedCount =
        (case find (\<lambda>x. fst (fst x) = ro_id r \<and> snd (fst x) = Completed) counts of
           None \<Rightarrow> 0 | Some x \<Rightarrow> snd x)\<rparr>"

definition listRounds ::
    "int \<Rightarrow> session_row list \<Rightarrow> round_row list \<Rightarrow> (db_error + study_round list) \<times> round_row list" where
  "listRounds now sessions rows =
     (let overview = (\<lambda>rounds. Inr (map (study_round_of (round_counts sessions)) (sort_key ro_id rounds)))
      in if rows \<noteq> [] then (overview (map roundFromRow (sort_key rd_id rows)), rows)
         else case currentRound now rows of
           (Inl e, rows1) \<Rightarrow> (Inl e, rows1)
         | (Inr r, rows1) \<Rightarrow> (overview [r], rows1))"

section \<open>Runs of interleaved calls\<close>

text \<open>The calls in progress share the table; an event is one step of one of them at some time.\<close>

record round_run =
  rr_rows :: "round_row list"
  rr_calls :: "(round_call \<times> round_pc) list"

definition round_step :: "round_run \<Rightarrow> nat \<times> int \<Rightarrow> round_run" where
  "round_step s e =
     (if fst e < length (rr_calls s) then
        let (call, pc) = rr_calls s ! fst e;
            (pc', rows') = call_step (snd e) (rr_rows s) call pc
        in \<lparr>rr_rows = rows', rr_calls = (rr_calls s)[fst e := (call, pc')]\<rparr>
      else s)"

definition begin_calls :: "round_row list \<Rightarrow> round_call list \<Rightarrow> round_run" where
  "begin_calls rows calls = \<lparr>rr_rows = rows, rr_calls = map (\<lambda>c. (c, Rp_Read)) calls\<rparr>"

text \<open>Rounds are numbered from one without gaps, and the last one is the open one.\<close>

definition rounds_ok :: "round_row list \<Rightarrow> bool" where
  "rounds_ok rows =
     (map rd_id rows = map int [1..<Suc (length rows)] \<and>
      (\<forall>r\<in>set (butlast rows). rd_endedAt r \<noteq> None) \<and>
      (rows \<noteq> [] \<longrightarrow> rd_endedAt (last rows) = None))"

text \<open>What a call may rely on at each point, whatever the others did.\<close>

fun pc_ok :: "round_row list \<Rightarrow> round_call \<Rightarrow> round_pc \<Rightarrow> bool" where
  "pc_ok rows call (Rp_Create i) = (rows = [] \<longrightarrow> i = 1)"
| "pc_ok rows call Rp_Again = (rows \<noteq> [])"
| "pc_ok rows call (Rp_Got r) = (ro_id r \<in> rd_id ` set rows)"
| "pc_ok rows call (Rp_Started r) = (call \<noteq> Call_Current \<and> ro_id r \<in> rd_id ` set rows)"
| "pc_ok rows call (Rp_Failed e) = (call \<noteq> Call_Current)"
| "pc_ok rows call _ = True"

definition run_ok :: "round_run \<Rightarrow> bool" where
  "run_ok s = (rounds_ok (rr_rows s) \<and> list_all (\<lambda>x. pc_ok (rr_rows s) (fst x) (snd x)) (rr_calls s))"

text \<open>A round keeps its number and its start, and is never reopened.\<close>

definition round_below :: "round_row \<Rightarrow> round_row \<Rightarrow> bool" where
  "round_below r r' =
     (rd_id r' = rd_id r \<and> rd_startedAt r' = rd_startedAt r \<and>
      (rd_endedAt r \<noteq> None \<longrightarrow> rd_endedAt r' \<noteq> None))"

section \<open>Lemmas: the table\<close>

lemma rounds_ok_empty [simp]: "rounds_ok []"
  by (simp add: rounds_ok_def)

lemma rounds_ok_ids: "rounds_ok rows \<Longrightarrow> rd_id ` set rows = {1..int (length rows)}"
proof -
  assume "rounds_ok rows"
  then have "rd_id ` set rows = int ` {1..length rows}"
    by (metis atLeastLessThanSuc_atLeastAtMost list.set_map rounds_ok_def set_upt)
  then show ?thesis by (simp add: image_int_atLeastAtMost)
qed

lemma open_last: "rounds_ok rows \<Longrightarrow> rows \<noteq> [] \<Longrightarrow> open_round rows = Some (last rows)"
proof (cases rows rule: rev_cases)
  case (snoc xs x)
  assume "rounds_ok rows"
  with snoc have "find (\<lambda>r. rd_endedAt r = None) xs = None" "rd_endedAt x = None"
    by (auto simp: rounds_ok_def find_None_iff)
  with snoc show ?thesis by (simp add: open_round_def find_snoc)
qed simp

lemma open_none: "rounds_ok rows \<Longrightarrow> open_round rows = None \<longleftrightarrow> rows = []"
  using open_last [of rows] by (cases "rows = []") (auto simp: open_round_def)

lemma last_id: "rounds_ok rows \<Longrightarrow> rows \<noteq> [] \<Longrightarrow> rd_id (last rows) = int (length rows)"
proof -
  assume "rounds_ok rows" and ne: "rows \<noteq> []"
  then have "last (map rd_id rows) = last (map int [1..<Suc (length rows)])" by (simp add: rounds_ok_def)
  also have "\<dots> = int (length rows)" using ne by (cases rows) simp_all
  finally show ?thesis using ne by (simp add: last_map)
qed

lemma close_ids: "map rd_id (close_round now i rows) = map rd_id rows"
  by (simp add: close_round_def)

lemma all_closed:
  assumes ok: "rounds_ok rows" and r: "r \<in> set (close_round now (int (length rows)) rows)"
  shows "rd_endedAt r \<noteq> None"
proof -
  from r obtain q where q: "q \<in> set rows"
    "r = (if rd_id q = int (length rows) then q\<lparr>rd_endedAt := Some now\<rparr> else q)"
    by (auto simp: close_round_def)
  then have ne: "rows \<noteq> []" by auto
  have "q \<in> set (butlast rows) \<or> q = last rows"
    using q(1) ne by (cases rows rule: rev_cases) auto
  then show ?thesis using q(2) ok last_id [OF ok ne] by (auto simp: rounds_ok_def)
qed

text \<open>The first round is created once; afterwards every insertion without a close is refused.\<close>

lemma insert_first:
  assumes "rounds_ok rows"
  shows "insert_round now i label rows =
    (if rows = [] then Inr [\<lparr>rd_id = i, rd_label = label, rd_startedAt = now, rd_endedAt = None\<rparr>]
     else Inl Unique_Violation)"
  using open_none [OF assms] by (auto simp: insert_round_def)

lemma rounds_ok_first [simp]:
  "rounds_ok [\<lparr>rd_id = 1, rd_label = label, rd_startedAt = now, rd_endedAt = None\<rparr>]"
  by (simp add: rounds_ok_def)

text \<open>The transaction of a new round goes through exactly where the round it closes is the last.\<close>

lemma start_tx_ok:
  assumes ok: "rounds_ok rows" and i: "i \<in> rd_id ` set rows"
  shows "start_tx now i label rows =
    (if i = int (length rows)
     then Inr (close_round now i rows @
       [\<lparr>rd_id = i + 1, rd_label = js_trim label, rd_startedAt = now, rd_endedAt = None\<rparr>])
     else Inl Unique_Violation)"
proof -
  have ne: "rows \<noteq> []" using i by auto
  have ids: "rd_id ` set (close_round now i rows) = {1..int (length rows)}"
    using rounds_ok_ids [OF ok] close_ids [of now i rows] by (metis list.set_map)
  have "open_round (close_round now i rows) = None" if "i = int (length rows)"
    using all_closed [OF ok] that by (auto simp: open_round_def find_None_iff)
  moreover have "i + 1 \<in> {1..int (length rows)} \<longleftrightarrow> i \<noteq> int (length rows)"
    using i rounds_ok_ids [OF ok] by auto
  ultimately show ?thesis
    using i by (simp add: start_tx_def insert_round_def ids)
qed

lemma rounds_ok_start:
  assumes ok: "rounds_ok rows" and "rows \<noteq> []"
  shows "rounds_ok (close_round now (int (length rows)) rows @
    [\<lparr>rd_id = int (length rows) + 1, rd_label = label, rd_startedAt = t, rd_endedAt = None\<rparr>])"
proof -
  have "\<forall>r\<in>set (close_round now (int (length rows)) rows). rd_endedAt r \<noteq> None"
    using all_closed [OF ok] by blast
  moreover have "map rd_id rows = map int [1..<Suc (length rows)]" using ok by (simp add: rounds_ok_def)
  ultimately show ?thesis
    by (simp add: rounds_ok_def butlast_append close_ids) (simp add: close_round_def)
qed

section \<open>Lemmas: interleavings\<close>

lemma pc_ok_grows:
  assumes "pc_ok rows call pc" and "rd_id ` set rows \<subseteq> rd_id ` set rows'"
  shows "pc_ok rows' call pc"
proof -
  have "rows' = [] \<Longrightarrow> rows = []" using assms(2) by auto
  with assms show ?thesis by (cases pc) auto
qed

text \<open>One step of one call keeps the table, its own condition, and every round.\<close>

lemma call_step_ok:
  assumes ok: "rounds_ok rows" and pc: "pc_ok rows call pc"
    and step: "call_step now rows call pc = (pc', rows')"
  shows "rounds_ok rows' \<and> pc_ok rows' call pc' \<and> rd_id ` set rows \<subseteq> rd_id ` set rows' \<and>
    rows_below round_below rows rows'"
proof -
  have idle: "rows' = rows \<Longrightarrow> pc_ok rows call pc' \<Longrightarrow> ?thesis"
    using ok by (simp add: rows_below_refl round_below_def)
  have current: ?thesis if "current_step now rows pc = (pc', rows')"
  proof (cases "rows = []")
    case True
    then have "open_round rows = None" "max_round_id rows = 0"
      by (simp_all add: open_round_def max_round_id_def)
    with that pc True show ?thesis
      by (cases pc) (auto simp: current_step_def insert_first roundFromRow_def rows_below_def)
  next
    case False
    then have "last rows \<in> set rows" by simp
    with that pc False open_last [OF ok] show ?thesis
      by (intro idle; cases pc) (auto simp: current_step_def insert_first [OF ok] roundFromRow_def)
  qed
  show ?thesis
  proof (cases call)
    case Call_Current
    with step show ?thesis by (intro current) (simp add: call_step_def)
  next
    case (Call_Start label)
    show ?thesis
    proof (cases pc)
      case (Rp_Got r)
      with pc have r: "ro_id r \<in> rd_id ` set rows" by simp
      then have ne: "rows \<noteq> []" by auto
      have below: "rows_below round_below rows (close_round now (ro_id r) rows @ xs)" for xs
        unfolding close_round_def
        by (rule rows_below_trans [OF rows_below_map rows_below_append]) (auto simp: round_below_def)
      have ids: "rd_id ` set (close_round now i rows) = rd_id ` set rows" for i
        using close_ids [of now i rows] by (metis list.set_map)
      show ?thesis
        using step Call_Start Rp_Got rounds_ok_start [OF ok ne] below idle
        by (auto simp: call_step_def start_tx_ok [OF ok r] roundFromRow_def ids image_Un split: if_splits)
    qed (rule current, use step Call_Start in \<open>simp add: call_step_def\<close>)+
  qed
qed

lemma round_step_ok: "run_ok s \<Longrightarrow> run_ok (round_step s e)"
  and round_step_below: "run_ok s \<Longrightarrow> rows_below round_below (rr_rows s) (rr_rows (round_step s e))"
proof -
  assume s: "run_ok s"
  have "run_ok (round_step s e) \<and> rows_below round_below (rr_rows s) (rr_rows (round_step s e))"
  proof (cases "fst e < length (rr_calls s)")
    case True
    obtain call pc where at: "rr_calls s ! fst e = (call, pc)" by (cases "rr_calls s ! fst e")
    obtain pc' rows' where step: "call_step (snd e) (rr_rows s) call pc = (pc', rows')" by fastforce
    have "pc_ok (rr_rows s) call pc" using s True at by (force simp: run_ok_def list_all_length)
    from call_step_ok [OF _ this step] s
    have new: "rounds_ok rows'" "pc_ok rows' call pc'" "rd_id ` set (rr_rows s) \<subseteq> rd_id ` set rows'"
      "rows_below round_below (rr_rows s) rows'" by (auto simp: run_ok_def)
    from s new(1-3) show ?thesis
      using new(4) True at step
      by (auto simp: round_step_def run_ok_def list_all_length nth_list_update intro: pc_ok_grows)
  qed (use s in \<open>simp add: round_step_def rows_below_refl round_below_def\<close>)
  then show "run_ok (round_step s e)"
    and "rows_below round_below (rr_rows s) (rr_rows (round_step s e))" by auto
qed

interpretation rounds: monotone_stepper round_step run_ok
  "\<lambda>s t. rows_below round_below (rr_rows s) (rr_rows t)"
proof
  show "rows_below round_below (rr_rows s) (rr_rows s)" for s
    by (rule rows_below_refl) (simp add: round_below_def)
  show "rows_below round_below (rr_rows s) (rr_rows u)"
    if "rows_below round_below (rr_rows s) (rr_rows t)"
      and "rows_below round_below (rr_rows t) (rr_rows u)" for s t u
    using that by (rule rows_below_trans) (auto simp: round_below_def)
qed (auto intro: round_step_ok round_step_below)

text \<open>The number of steps a call may still take before it has read the current round.\<close>

fun steps_left :: "round_pc \<Rightarrow> nat" where
  "steps_left Rp_Read = 4"
| "steps_left Rp_Max = 3"
| "steps_left (Rp_Create i) = 2"
| "steps_left Rp_Again = 1"
| "steps_left _ = 0"

lemma steps_left_step:
  "call_step now rows Call_Current pc = (pc', rows') \<Longrightarrow> steps_left pc' \<le> steps_left pc - 1"
  by (cases pc) (auto simp: call_step_def current_step_def split: option.splits sum.splits)

lemma run_steps_left:
  assumes "i < length (rr_calls s)" and "fst (rr_calls s ! i) = Call_Current"
  shows "let x = rr_calls (foldl round_step s es) ! i in
    fst x = Call_Current \<and>
    steps_left (snd x) \<le> steps_left (snd (rr_calls s ! i)) - length (filter (\<lambda>e. fst e = i) es)"
  using assms
proof (induction es arbitrary: s)
  case (Cons e es)
  obtain call pc where at: "rr_calls s ! fst e = (call, pc)" by (cases "rr_calls s ! fst e")
  obtain pc' rows' where step: "call_step (snd e) (rr_rows s) call pc = (pc', rows')" by fastforce
  have "i < length (rr_calls (round_step s e))" "fst (rr_calls (round_step s e) ! i) = Call_Current"
    "steps_left (snd (rr_calls (round_step s e) ! i)) \<le>
      steps_left (snd (rr_calls s ! i)) - (if fst e = i then 1 else 0)"
    using Cons.prems at step steps_left_step [of "snd e" "rr_rows s" pc pc' rows']
    by (auto simp: round_step_def nth_list_update)
  with Cons.IH [of "round_step s e"] show ?case by (auto simp: Let_def)
qed simp

lemma begin_ok: "rounds_ok rows \<Longrightarrow> run_ok (begin_calls rows calls)"
  by (simp add: run_ok_def begin_calls_def list_all_length)

text \<open>Where nobody starts a round, every call reads the last one.\<close>

definition agreed :: "round_run \<Rightarrow> bool" where
  "agreed s =
     (run_ok s \<and>
      (\<forall>x\<in>set (rr_calls s). fst x = Call_Current \<and>
        (\<forall>r. snd x = Rp_Got r \<longrightarrow> ro_id r = int (length (rr_rows s)))))"

lemma current_step_last:
  assumes "rounds_ok rows" and "pc_ok rows Call_Current pc"
    and "\<forall>r. pc = Rp_Got r \<longrightarrow> ro_id r = int (length rows)"
    and "current_step now rows pc = (pc', rows')"
  shows "(rows' = rows \<or> rows = [] \<and> length rows' = 1) \<and>
    (\<forall>r. pc' = Rp_Got r \<longrightarrow> ro_id r = int (length rows'))"
proof (cases "rows = []")
  case True
  then have "open_round rows = None" "max_round_id rows = 0"
    by (simp_all add: open_round_def max_round_id_def)
  with assms True show ?thesis
    by (cases pc) (auto simp: current_step_def insert_first roundFromRow_def)
next
  case False
  with assms open_last last_id show ?thesis
    by (cases pc) (auto simp: current_step_def insert_first roundFromRow_def)
qed

lemma agreed_step: "agreed s \<Longrightarrow> agreed (round_step s e)"
proof (cases "fst e < length (rr_calls s)")
  case True
  assume s: "agreed s"
  obtain pc where at: "rr_calls s ! fst e = (Call_Current, pc)"
    using s True by (metis agreed_def nth_mem prod.collapse)
  obtain pc' rows' where step: "current_step (snd e) (rr_rows s) pc = (pc', rows')" by fastforce
  have x: "(Call_Current, pc) \<in> set (rr_calls s)" using True at by (metis nth_mem)
  have pre: "rounds_ok (rr_rows s)" "pc_ok (rr_rows s) Call_Current pc"
    "\<forall>r. pc = Rp_Got r \<longrightarrow> ro_id r = int (length (rr_rows s))"
    using s x by (auto simp: agreed_def run_ok_def list_all_iff)
  have new: "rows' = rr_rows s \<or> rr_rows s = [] \<and> length rows' = 1"
    "\<forall>r. pc' = Rp_Got r \<longrightarrow> ro_id r = int (length rows')"
    using current_step_last [OF pre step] by auto
  have "ro_id r = int (length rows')" if "y \<in> set (rr_calls s)" "snd y = Rp_Got r" for y r
  proof -
    have "ro_id r \<in> rd_id ` set (rr_rows s)" "ro_id r = int (length (rr_rows s))"
      using s that by (auto simp: agreed_def run_ok_def list_all_iff)
    then show ?thesis using new(1) by auto
  qed
  with s new(2) have "\<forall>y\<in>set ((rr_calls s)[fst e := (Call_Current, pc')]). fst y = Call_Current \<and>
      (\<forall>r. snd y = Rp_Got r \<longrightarrow> ro_id r = int (length rows'))"
    using set_update_subset_insert [of "rr_calls s" "fst e" "(Call_Current, pc')"]
    by (fastforce simp: agreed_def)
  then show ?thesis
    using s True at step round_step_ok [of s e]
    by (simp add: agreed_def round_step_def call_step_def)
qed (simp add: round_step_def)

interpretation reads: stepper round_step agreed
  by unfold_locales (rule agreed_step)

text \<open>
  C5: However many calls for the current round and starts of new rounds interleave, the rounds are
  numbered from one without gaps and exactly the last is open; a round keeps its number and start
  and is never reopened; and a call for the current round that took four steps has returned a
  round of the table, also where it lost the race to create the first one. Where nobody starts a
  round, all of them return the same one.
\<close>

theorem one_open_round:
  assumes "rounds_ok rows" and "s = foldl round_step (begin_calls rows calls) es"
  shows "rounds_ok (rr_rows s) \<and> rows_below round_below rows (rr_rows s) \<and>
    (\<forall>i<length calls. calls ! i = Call_Current \<and> 4 \<le> length (filter (\<lambda>e. fst e = i) es) \<longrightarrow>
      (\<exists>r. snd (rr_calls s ! i) = Rp_Got r \<and> ro_id r \<in> rd_id ` set (rr_rows s))) \<and>
    (set calls \<subseteq> {Call_Current} \<longrightarrow>
      (\<forall>x\<in>set (rr_calls s). \<forall>r. snd x = Rp_Got r \<longrightarrow> ro_id r = int (length (rr_rows s))))"
proof -
  let ?b = "begin_calls rows calls"
  have s: "run_ok s" unfolding assms(2) by (rule rounds.run_inv [OF begin_ok [OF assms(1)]])
  have "rows_below round_below rows (rr_rows s)"
    using rounds.run_below [OF begin_ok [OF assms(1)], of calls es] by (simp add: assms(2) begin_calls_def)
  moreover have "\<exists>r. snd (rr_calls s ! i) = Rp_Got r \<and> ro_id r \<in> rd_id ` set (rr_rows s)"
    if i: "i < length calls" "calls ! i = Call_Current" "4 \<le> length (filter (\<lambda>e. fst e = i) es)" for i
  proof -
    have len: "length (rr_calls (foldl round_step t es)) = length (rr_calls t)" for t
      by (induction es arbitrary: t) (auto simp: round_step_def split: prod.splits)
    have x: "fst (rr_calls s ! i) = Call_Current" "steps_left (snd (rr_calls s ! i)) = 0"
      using run_steps_left [of i ?b es] i by (auto simp: assms(2) begin_calls_def Let_def)
    have "pc_ok (rr_rows s) (fst (rr_calls s ! i)) (snd (rr_calls s ! i))"
      using s i(1) by (auto simp: run_ok_def list_all_length assms(2) len begin_calls_def)
    with x show ?thesis by (cases "snd (rr_calls s ! i)") auto
  qed
  moreover have "agreed s" if "set calls \<subseteq> {Call_Current}"
    unfolding assms(2) using that begin_ok [OF assms(1), of calls]
    by (intro reads.run_inv) (auto simp: agreed_def begin_calls_def)
  ultimately show ?thesis using s by (auto simp: run_ok_def agreed_def)
qed

text \<open>Two first reads race: both see no round, the second loses and returns the first one's.\<close>

definition racing_reads :: "(nat \<times> int) list" where
  "racing_reads = [(0, 1), (1, 2), (0, 3), (1, 4), (0, 5), (1, 6), (1, 7), (0, 8)]"

theorem one_open_round_witness:
  "let s = foldl round_step (begin_calls [] [Call_Current, Call_Current]) racing_reads in
     map rd_startedAt (rr_rows s) = [5] \<and> rounds_ok (rr_rows s) \<and>
     (\<exists>r. snd (rr_calls s ! 1) = Rp_Got r \<and> ro_id r \<in> rd_id ` set (rr_rows s))"
proof -
  let ?s = "foldl round_step (begin_calls [] [Call_Current, Call_Current]) racing_reads"
  have "map rd_startedAt (rr_rows ?s) = [5]" by code_simp
  moreover have "rounds_ok (rr_rows ?s) \<and>
      (\<exists>r. snd (rr_calls ?s ! 1) = Rp_Got r \<and> ro_id r \<in> rd_id ` set (rr_rows ?s))"
    using one_open_round [OF rounds_ok_empty refl, of "[Call_Current, Call_Current]" racing_reads]
    by (simp add: racing_reads_def)
  ultimately show ?thesis by (simp add: Let_def)
qed

section \<open>Lemmas: the operations alone\<close>

text \<open>Without interference the steps are the operation.\<close>

lemma currentRound_steps:
  assumes "rounds_ok rows" and "currentRound now rows = (Inr r, rows')"
  shows "rr_rows (foldl round_step (begin_calls rows [Call_Current]) (replicate 4 (0, now))) = rows' \<and>
    rr_calls (foldl round_step (begin_calls rows [Call_Current]) (replicate 4 (0, now))) =
      [(Call_Current, Rp_Got r)]"
  using assms
  by (cases "open_round rows")
    (auto simp: currentRound_def numeral_eq_Suc round_step_def begin_calls_def call_step_def
      current_step_def split: sum.splits)

lemma currentRound_ok:
  assumes "rounds_ok rows"
  shows "\<exists>r rows'. currentRound now rows = (Inr r, rows') \<and> rounds_ok rows' \<and> rows' \<noteq> [] \<and>
    r = roundFromRow (last rows')"
  using assms open_last [OF assms]
  by (cases "rows = []")
    (auto simp: currentRound_def insert_first open_round_def max_round_id_def)

lemma startNewRound_ok:
  assumes "rounds_ok rows"
  shows "\<exists>r rows'. startNewRound now label rows = (Inr r, rows') \<and> rounds_ok rows' \<and>
    ro_id r = int (length rows') \<and> ro_label r = js_trim label \<and> ro_endedAt r = None"
proof -
  obtain r rows1 where r: "currentRound now rows = (Inr r, rows1)" "rounds_ok rows1" "rows1 \<noteq> []"
    "r = roundFromRow (last rows1)"
    using currentRound_ok [OF assms] by blast
  then have i: "ro_id r = int (length rows1)" by (simp add: roundFromRow_def last_id)
  then have "ro_id r \<in> rd_id ` set rows1"
    using last_id [OF r(2,3)] r(3) by (metis image_eqI last_in_set)
  from start_tx_ok [OF r(2) this] rounds_ok_start [OF r(2,3)] show ?thesis
    by (simp add: startNewRound_def r(1) i roundFromRow_def close_round_def)
qed

text \<open>The in-memory rounds are the rows, and the operations do the same to both.\<close>

lemma foldl_max_ids: "rounds_ok rows \<Longrightarrow> foldl max 0 (map rd_id rows) = max_round_id rows"
proof (cases rows)
  case (Cons r rs)
  assume "rounds_ok rows"
  with Cons have "rd_id r = 1" by (simp add: rounds_ok_def upt_rec)
  with Cons show ?thesis by (simp add: max_round_id_def)
qed (simp add: max_round_id_def)

lemma mem_rounds_current:
  assumes "rounds_ok rows" and "currentRound now rows = (Inr r, rows')"
  shows "mem_currentRound now (map roundFromRow rows) = (r, map roundFromRow rows')"
proof (cases "rows = []")
  case True
  with assms(2) show ?thesis
    by (auto simp: currentRound_def mem_currentRound_def insert_round_def open_round_def
        max_round_id_def roundFromRow_def)
next
  case False
  from open_last [OF assms(1) False] have "find (\<lambda>r. rd_endedAt r = None) rows = Some (last rows)"
    by (simp add: open_round_def)
  then have "find (\<lambda>r. ro_endedAt r = None) (map roundFromRow rows) = Some (roundFromRow (last rows))"
    by (simp add: find_map comp_def roundFromRow_def)
  with False assms open_last [OF assms(1)] show ?thesis
    by (auto simp: currentRound_def mem_currentRound_def)
qed

lemma mem_rounds_start:
  assumes "rounds_ok rows" and "startNewRound now label rows = (Inr r, rows')"
  shows "mem_startNewRound now label (map roundFromRow rows) = (r, map roundFromRow rows')"
proof -
  obtain c rows1 where c: "currentRound now rows = (Inr c, rows1)" "rounds_ok rows1" "rows1 \<noteq> []"
    "c = roundFromRow (last rows1)"
    using currentRound_ok [OF assms(1)] by blast
  then have i: "ro_id c = int (length rows1)" by (simp add: roundFromRow_def last_id)
  then have "ro_id c \<in> rd_id ` set rows1"
    using last_id [OF c(2,3)] c(3) by (metis image_eqI last_in_set)
  from start_tx_ok [OF c(2) this] assms(2) c(1) i have
    "rows' = close_round now (ro_id c) rows1 @
       [\<lparr>rd_id = ro_id c + 1, rd_label = js_trim label, rd_startedAt = now, rd_endedAt = None\<rparr>]"
    "r = roundFromRow (last rows')"
    by (auto simp: startNewRound_def)
  then show ?thesis
    by (simp add: mem_startNewRound_def mem_rounds_current [OF assms(1) c(1)] close_round_def Let_def)
      (simp add: roundFromRow_def)
qed

section \<open>Lemmas: counts\<close>

lemma sum_counts:
  "sum_list (map snd (filter (\<lambda>x. p (fst x)) (map (\<lambda>k. (k, count_list ks k)) (uniq ks)))) =
     length (filter p ks)"
proof -
  have "sum_list (map snd (filter (\<lambda>x. p (fst x)) (map (\<lambda>k. (k, count_list ks k)) (uniq ks)))) =
      sum_list (map (count_list ks) (filter p (uniq ks)))"
    by (simp add: filter_map comp_def)
  also have "\<dots> = sum (count_list ks) (set (filter p (uniq ks)))"
    by (rule sum_list_distinct_conv_sum_set) simp
  also have "\<dots> = sum (count_list (filter p ks)) (set (filter p (uniq ks)))"
    by (rule sum.cong) (auto simp: count_list_eq_length_filter filter_filter conj_commute intro!: arg_cong [of _ _ length] filter_cong)
  also have "\<dots> = length (filter p ks)" by (rule sum_count_set) auto
  finally show ?thesis .
qed

lemma find_counts:
  "(case find (\<lambda>x. fst x = k) (map (\<lambda>k. (k, count_list ks k)) (uniq ks)) of None \<Rightarrow> 0 | Some x \<Rightarrow> snd x) =
     length (filter (\<lambda>x. x = k) ks)"
proof (cases "k \<in> set ks")
  case True
  then have "find (\<lambda>x. x = k) (uniq ks) = Some k"
  proof -
    have "find (\<lambda>x. x = k) (uniq ks) \<noteq> None" using True by (simp add: find_None_iff)
    then show ?thesis by (auto simp: find_Some_iff)
  qed
  moreover have "(\<lambda>x. k = x) = (\<lambda>x. x = k)" by auto
  ultimately show ?thesis
    by (simp add: find_map comp_def count_list_eq_length_filter)
next
  case False
  then have "find (\<lambda>x. x = k) (uniq ks) = None" "filter (\<lambda>x. x = k) ks = []"
    by (auto simp: find_None_iff filter_empty_conv)
  then show ?thesis by (simp add: find_map comp_def)
qed

text \<open>The grouped counts are the counts of the study sessions themselves.\<close>

lemma round_counts_direct:
  "study_round_of (round_counts rows) r =
     \<lparr>sn_number = ro_id r, sn_label = ro_label r, sn_startedAt = ro_startedAt r,
      sn_endedAt = ro_endedAt r,
      sn_sessionCount = length (filter (\<lambda>s. study_session s \<and> sr_roundId s = ro_id r \<and> sr_status s \<noteq> Aborted) rows),
      sn_completedCount = length (filter (\<lambda>s. study_session s \<and> sr_roundId s = ro_id r \<and> sr_status s = Completed) rows)\<rparr>"
proof -
  let ?ks = "map (\<lambda>r. (sr_roundId r, sr_status r)) (filter study_session rows)"
  have "(\<lambda>x :: (int \<times> session_status) \<times> nat. fst (fst x) = ro_id r \<and> snd (fst x) = Completed) =
      (\<lambda>x. fst x = (ro_id r, Completed))" by (auto simp: prod_eq_iff)
  with find_counts [of "(ro_id r, Completed)" ?ks]
    sum_counts [of "\<lambda>k. fst k = ro_id r \<and> snd k \<noteq> Aborted" ?ks]
  show ?thesis
    by (simp add: study_round_of_def round_counts_def Let_def filter_map comp_def conj_ac)
qed

end
