(* ===== verification/Study_Store.thy ===== *)
theory Study_Store
  imports Rounds
begin

text \<open>
  The tables of the Session Manager together, with the operations of
  session-manager/src/store/store.service.ts that span several of them: the conditions and study
  settings, saving a new session with its condition, the choice of a forming lobby and the creation
  of one. The answer of \<open>new Date()\<close>, fresh identifiers, random draws and the locale's collation
  are parameters.

  A stored condition is read back under its normalised identifier; what the choice of a lobby guarantees is in \<open>Matchmaking\<close>.
\<close>

section \<open>State\<close>

record stored_condition = condition_row +
  nr_createdAt :: int

record study =
  sy_db :: db
  sy_rounds :: "round_row list"
  sy_conditions :: "stored_condition list"
  sy_settings :: "(string \<times> string) list"
  sy_pdb :: pdb

section \<open>Conditions\<close>

definition stored :: "int \<Rightarrow> rat condition \<Rightarrow> stored_condition" where
  "stored now c = condition_row.extend (conditionData c) (stored_condition.fields now)"

definition condition_of :: "stored_condition \<Rightarrow> rat condition" where
  "condition_of r = conditionFromRow (condition_row.truncate r)"

definition listConditions :: "(string \<Rightarrow> string \<Rightarrow> int) \<Rightarrow> study \<Rightarrow> rat condition list" where
  "listConditions compare st = js_sort (sortConditions compare) (map condition_of (sy_conditions st))"

definition conditionCreatedAt :: "study \<Rightarrow> (string \<times> stamp) list" where
  "conditionCreatedAt st = map (\<lambda>r. (nr_id r, Stamp (nr_createdAt r))) (sy_conditions st)"

definition getCondition :: "string \<Rightarrow> study \<Rightarrow> rat condition option" where
  "getCondition i st = map_option condition_of (find (\<lambda>r. nr_id r = i) (sy_conditions st))"

text \<open>An upsert keeps the row's creation time; the update of \<open>seedDb\<close> is empty.\<close>

definition upsert_condition_row ::
    "(stored_condition \<Rightarrow> stored_condition) \<Rightarrow> stored_condition \<Rightarrow> stored_condition list \<Rightarrow> stored_condition list" where
  "upsert_condition_row update new rows =
     (if nr_id new \<in> nr_id ` set rows then map (\<lambda>r. if nr_id r = nr_id new then update r else r) rows
      else rows @ [new])"

definition upsertCondition :: "int \<Rightarrow> rat condition \<Rightarrow> study \<Rightarrow> rat condition \<times> study" where
  "upsertCondition now c st =
     (let next = normalize_stored c in
      (next,
       st\<lparr>sy_conditions := upsert_condition_row (\<lambda>r. stored (nr_createdAt r) next) (stored now next)
            (sy_conditions st)\<rparr>))"

definition seedDb :: "int \<Rightarrow> study \<Rightarrow> study" where
  "seedDb now st =
     st\<lparr>sy_conditions :=
       foldl (\<lambda>rows c. upsert_condition_row id (stored now c) rows) (sy_conditions st) seedConditions\<rparr>"

definition ensureConditionExists :: "int \<Rightarrow> rat condition \<Rightarrow> study \<Rightarrow> db_error + study" where
  "ensureConditionExists now c st =
     (if cd_id c \<in> nr_id ` set (sy_conditions st) then Inr st
      else
        let new = stored now (normalize_stored c) in
        if nr_id new \<in> nr_id ` set (sy_conditions st) then Inl Unique_Violation
        else Inr (st\<lparr>sy_conditions := sy_conditions st @ [new]\<rparr>))"

section \<open>Settings\<close>

definition setting_keys :: "string list" where
  "setting_keys =
     [''compensationUrl'', ''noConsentUrl'', ''ineligibleUrl'', ''withdrawalUrl'', ''unmatchedUrl'',
      ''technicalFailureUrl'']"

definition study_setting :: "study \<Rightarrow> string \<Rightarrow> string" where
  "study_setting st key = orelse (om_get (sy_settings st) key) []"

definition getStudySettings :: "study \<Rightarrow> study_settings" where
  "getStudySettings st =
     \<lparr>ss_compensationUrl = study_setting st ''compensationUrl'', ss_noConsentUrl = study_setting st ''noConsentUrl'',
      ss_ineligibleUrl = study_setting st ''ineligibleUrl'', ss_withdrawalUrl = study_setting st ''withdrawalUrl'',
      ss_unmatchedUrl = study_setting st ''unmatchedUrl'',
      ss_technicalFailureUrl = study_setting st ''technicalFailureUrl''\<rparr>"

fun string_entry :: "string \<times> answer \<Rightarrow> (string \<times> string) list" where
  "string_entry (k, A_Str v) = [(k, v)]"
| "string_entry (k, _) = []"

definition updateStudySettings :: "(string \<times> answer) list \<Rightarrow> study \<Rightarrow> study_settings \<times> study" where
  "updateStudySettings patch st =
     (let st' = st\<lparr>sy_settings :=
        foldl (\<lambda>m (k, v). om_set k (js_trim v) m) (sy_settings st) (concat (map string_entry patch))\<rparr>
      in (getStudySettings st', st'))"

section \<open>Sessions\<close>

text \<open>
  The condition is ensured before the transaction, so that it stays when the transaction fails;
  the row needs its condition and its round.
\<close>

definition saveSession :: "(nat \<Rightarrow> string) \<Rightarrow> int \<Rightarrow> session \<Rightarrow> study \<Rightarrow> (db_error + unit) \<times> study" where
  "saveSession uuid now s st =
     (case ensureConditionExists now (se_condition s) st of
        Inl e \<Rightarrow> (Inl e, st)
      | Inr st1 \<Rightarrow>
          if cd_id (se_condition s) \<notin> nr_id ` set (sy_conditions st1) \<or>
             se_roundId s \<notin> rd_id ` set (sy_rounds st1) then (Inl Foreign_Key, st1)
          else case persistSessionSnapshot uuid now s (sy_db st1) of
            Inl e \<Rightarrow> (Inl e, st1)
          | Inr d \<Rightarrow> (Inr (), st1\<lparr>sy_db := d\<rparr>))"

datatype task_mode = Task_Ranking | Task_Etherpad

definition task_of :: "rat condition \<Rightarrow> task_mode" where
  "task_of c =
     (if raw_workspaceMode (cd_config c) = Some ''etherpad'' then Task_Etherpad else Task_Ranking)"

definition active_condition :: "study \<Rightarrow> string \<Rightarrow> bool" where
  "active_condition st i = list_ex (\<lambda>r. nr_id r = i \<and> nr_active r) (sy_conditions st)"

definition waitingSessionsFromDb :: "int \<Rightarrow> string option \<Rightarrow> study \<Rightarrow> session list" where
  "waitingSessionsFromDb roundId conditionId st =
     map (sessionFromRow (sy_db st)) (sort_key sr_createdAt
       (filter (\<lambda>r. sr_status r = Waiting \<and> sr_roundId r = roundId \<and>
          active_condition st (cd_id (sr_conditionSnapshot r)) \<and>
          (truthy conditionId \<longrightarrow> cd_id (sr_conditionSnapshot r) = the conditionId)) (db_sessions (sy_db st))))"

definition free_seat :: "int \<Rightarrow> session \<Rightarrow> bool" where
  "free_seat roundId s =
     (se_roundId s = roundId \<and> of_nat (length (se_participants s)) < cd_groupSize (se_condition s))"

definition stamp_key :: "stamp \<Rightarrow> int" where
  "stamp_key s = orelse (parse_ms s) 0"

definition findForming ::
    "int \<Rightarrow> string option \<Rightarrow> task_mode option \<Rightarrow> study \<Rightarrow> (db_error + session option) \<times> study" where
  "findForming now conditionId taskMode st =
     (let (current, rounds) = currentRound now (sy_rounds st); st1 = st\<lparr>sy_rounds := rounds\<rparr> in
      case current of
        Inl e \<Rightarrow> (Inl e, st1)
      | Inr r \<Rightarrow>
          (Inr (case sort_key (\<lambda>s. stamp_key (se_createdAt s))
              (filter (free_seat (ro_id r))
                (filter (\<lambda>s. taskMode = None \<or> taskMode = Some (task_of (se_condition s)))
                  (waitingSessionsFromDb (ro_id r) conditionId st1))) of
             [] \<Rightarrow> None | s # ss \<Rightarrow> Some s),
           st1))"

text \<open>\<open>None\<close> in the second place of the error is the invalid deadline of a new lobby.\<close>

definition createForming ::
    "(nat \<Rightarrow> string) \<Rightarrow> jsnum option \<Rightarrow> string \<Rightarrow> (nat \<Rightarrow> nat) \<Rightarrow> int \<Rightarrow> rat condition \<Rightarrow> study
     \<Rightarrow> (db_error option + session) \<times> study" where
  "createForming uuid env sid pick now condition st =
     (let (current, rounds) = currentRound now (sy_rounds st); st1 = st\<lparr>sy_rounds := rounds\<rparr> in
      case current of
        Inl e \<Rightarrow> (Inl (Some e), st1)
      | Inr r \<Rightarrow>
          case newFormingSession env sid pick condition (ro_id r) now of
            None \<Rightarrow> (Inl None, st1)
          | Some s \<Rightarrow>
              case saveSession uuid now s st1 of
                (Inl e, st2) \<Rightarrow> (Inl (Some e), st2)
              | (Inr _, st2) \<Rightarrow> (Inr s, st2))"

section \<open>Lemmas\<close>

text \<open>A stored condition is read back under its normalised identifier, as the row holds it.\<close>

lemma upsert_condition_ids:
  "nr_id ` set (upsert_condition_row f new rows) \<subseteq> insert (nr_id new) (nr_id ` set rows \<union> nr_id ` f ` set rows)"
  by (auto simp: upsert_condition_row_def)

lemma upserted_condition:
  "getCondition (cd_id (normalize_stored c)) (snd (upsertCondition now c st)) =
     Some (conditionFromRow (conditionData (normalize_stored c)))"
proof -
  let ?n = "normalize_stored c"
  have id: "nr_id (stored t ?n) = cd_id ?n" "condition_of (stored t ?n) = conditionFromRow (conditionData ?n)" for t
    by (simp_all add: stored_def condition_of_def conditionData_def condition_row.defs stored_condition.defs)
  have "\<exists>t. find (\<lambda>r. nr_id r = cd_id ?n)
      (map (\<lambda>r. if nr_id r = cd_id ?n then stored (nr_createdAt r) ?n else r) rows) = Some (stored t ?n)"
    if "cd_id ?n \<in> nr_id ` set rows" for rows
    using that by (induction rows) (auto simp: id)
  moreover have "find (\<lambda>r. nr_id r = cd_id ?n) (rows @ [stored now ?n]) = Some (stored now ?n)"
    if "cd_id ?n \<notin> nr_id ` set rows" for rows
    using that by (induction rows) (auto simp: id)
  ultimately have "\<exists>t. find (\<lambda>r. nr_id r = cd_id ?n)
      (upsert_condition_row (\<lambda>r. stored (nr_createdAt r) ?n) (stored now ?n) (sy_conditions st)) = Some (stored t ?n)"
    unfolding upsert_condition_row_def id(1) by (simp split: if_split) blast
  then show ?thesis by (auto simp: upsertCondition_def Let_def getCondition_def id)
qed

end
