(* ===== verification/Store_Refinement.thy ===== *)
theory Store_Refinement
  imports Session_Store
begin

text \<open>
  The in-memory store of store.service.ts refines the tables: related states answer every request
  alike and stay related. One lemma per operation of \<open>Session_Store\<close>, each over the two general
  facts about row updates (\<open>same_store_rows\<close>) and participant updates (\<open>same_store_seats\<close>).
\<close>

section \<open>Updates of session rows\<close>

lemma row_fields:
  "sessionFromRow d (r\<lparr>sr_status := st\<rparr>) = (sessionFromRow d r)\<lparr>se_status := st\<rparr>"
  "sessionFromRow d (r\<lparr>sr_roomId := room\<rparr>) = (sessionFromRow d r)\<lparr>se_roomId := room\<rparr>"
  "sessionFromRow d (r\<lparr>sr_startedAt := t\<rparr>) = (sessionFromRow d r)\<lparr>se_startedAt := map_option Stamp t\<rparr>"
  "sessionFromRow d (r\<lparr>sr_completedAt := t\<rparr>) = (sessionFromRow d r)\<lparr>se_completedAt := map_option Stamp t\<rparr>"
  by (simp_all add: sessionFromRow_def Let_def)

lemma row_selects:
  "se_roomId (sessionFromRow d r) = sr_roomId r"
  "se_startedAt (sessionFromRow d r) = map_option Stamp (sr_startedAt r)"
  "se_completedAt (sessionFromRow d r) = map_option Stamp (sr_completedAt r)"
  "se_waitingDeadlineAt (sessionFromRow d r) = map_option Stamp (sr_waitingDeadlineAt r)"
  "se_createdAt (sessionFromRow d r) = Stamp (sr_createdAt r)"
  by (simp_all add: sessionFromRow_def Let_def)

lemma with_revision_updates [simp]:
  "with_revision (s\<lparr>se_status := st\<rparr>) = (with_revision s)\<lparr>se_status := st\<rparr>"
  "with_revision (s\<lparr>se_roomId := room\<rparr>) = (with_revision s)\<lparr>se_roomId := room\<rparr>"
  "with_revision (s\<lparr>se_startedAt := t\<rparr>) = (with_revision s)\<lparr>se_startedAt := t\<rparr>"
  "with_revision (s\<lparr>se_completedAt := t\<rparr>) = (with_revision s)\<lparr>se_completedAt := t\<rparr>"
  "with_revision (s\<lparr>se_participants := ps\<rparr>) = (with_revision s)\<lparr>se_participants := ps\<rparr>"
  by (simp_all add: with_revision_def)

lemma with_revision_eqD:
  assumes "with_revision s = sessionFromRow d r"
  shows "se_id s = sr_id r" "se_status s = sr_status r" "se_roomId s = sr_roomId r"
    "se_startedAt s = map_option Stamp (sr_startedAt r)"
    "se_completedAt s = map_option Stamp (sr_completedAt r)"
    "se_waitingDeadlineAt s = map_option Stamp (sr_waitingDeadlineAt r)"
    "se_createdAt s = Stamp (sr_createdAt r)"
    "se_participants s =
       map (participantFromRow (db_surveys d)) (filter (\<lambda>p. pr_sessionId p = sr_id r) (db_participants d))"
  using arg_cong [OF assms, of se_id] arg_cong [OF assms, of se_status]
    arg_cong [OF assms, of se_roomId] arg_cong [OF assms, of se_startedAt]
    arg_cong [OF assms, of se_completedAt] arg_cong [OF assms, of se_waitingDeadlineAt]
    arg_cong [OF assms, of se_createdAt] arg_cong [OF assms, of se_participants]
  by (simp_all add: row_selects session_participants) (simp_all add: with_revision_def)

lemma creds_sessions [simp]:
  "getParticipantCreds pid (d\<lparr>db_sessions := rows\<rparr>) = getParticipantCreds pid d"
  "mem_getCreds pid (m\<lparr>my_sessions := ss\<rparr>) = mem_getCreds pid m"
  by (simp_all add: getParticipantCreds_def mem_getCreds_def)

lemma same_store_rows:
  assumes "same_store m d"
    and "\<And>s r. r \<in> set (db_sessions d) \<Longrightarrow> with_revision s = sessionFromRow d r \<Longrightarrow>
      with_revision (F s) = sessionFromRow d (G r)"
  shows "same_store (m\<lparr>my_sessions := map F (my_sessions m)\<rparr>) (d\<lparr>db_sessions := map G (db_sessions d)\<rparr>)"
proof -
  have "map with_revision (map F (my_sessions m)) = map (sessionFromRow d) (map G (db_sessions d))"
    by (rule map_same_update [of with_revision _ "sessionFromRow d"])
      (use assms in \<open>simp_all add: same_store_def\<close>)
  with assms(1) show ?thesis by (simp add: same_store_def)
qed

lemma store_ok_rows:
  assumes "store_ok d" and "\<And>r. sr_id (G r) = sr_id r"
  shows "store_ok (d\<lparr>db_sessions := map G (db_sessions d)\<rparr>)"
proof -
  have "sr_id \<circ> G = sr_id" by (simp add: fun_eq_iff assms(2))
  then show ?thesis using assms by (simp add: store_ok_def image_image)
qed

lemma row_is:
  "store_ok d \<Longrightarrow> session_row_of d sid = Some r \<Longrightarrow> r' \<in> set (db_sessions d) \<Longrightarrow> sr_id r' = sid \<Longrightarrow> r' = r"
  using row_unique by fastforce

definition related :: "memory \<Rightarrow> db \<Rightarrow> bool" where
  "related m d = (same_store m d \<and> store_ok d)"

lemma related_rows:
  assumes "related m d" and "\<And>r. sr_id (G r) = sr_id r"
    and "\<And>s r. r \<in> set (db_sessions d) \<Longrightarrow> with_revision s = sessionFromRow d r \<Longrightarrow>
      with_revision (F s) = sessionFromRow d (G r)"
  shows "related (m\<lparr>my_sessions := map F (my_sessions m)\<rparr>) (d\<lparr>db_sessions := map G (db_sessions d)\<rparr>)"
  using assms same_store_rows [of m d F G] store_ok_rows [of d G] by (simp add: related_def)

text \<open>An update that changes no row on either side.\<close>

lemma related_idle:
  assumes "related m d" and "\<And>r. sr_id (G r) = sr_id r" and "\<And>r. r \<in> set (db_sessions d) \<Longrightarrow> G r = r"
  shows "related m (d\<lparr>db_sessions := map G (db_sessions d)\<rparr>)"
proof -
  have "map G (db_sessions d) = db_sessions d" using assms(3) by (rule map_idI)
  with assms(1) show ?thesis by simp
qed

lemma set_status_simps [simp]:
  "sr_id (set_status st r) = sr_id r" "sr_status (set_status st r) = st"
  "sessionFromRow d (set_status st r) = (sessionFromRow d r)\<lparr>se_status := st\<rparr>"
  by (simp_all add: set_status_def row_fields)

section \<open>Lifecycle operations\<close>

text \<open>\<open>updateMany\<close> on one id.\<close>

lemma no_row: "session_row_of d sid = None \<Longrightarrow> r \<in> set (db_sessions d) \<Longrightarrow> sr_id r \<noteq> sid"
  by (auto simp: session_row_of_def find_None_iff)

lemma update_if_none:
  "session_row_of d sid = None \<Longrightarrow> update_if sid p f d = (0, d)"
proof -
  assume none: "session_row_of d sid = None"
  have "map (\<lambda>r. if sr_id r = sid then if p r then f r else r else r) (db_sessions d) = db_sessions d"
    using no_row [OF none] by (intro map_idI) simp
  then show ?thesis
    using no_row [OF none] by (simp add: update_if_def update_session_row_def filter_empty_conv)
qed

lemma update_if_some:
  assumes "store_ok d" and "session_row_of d sid = Some r"
  shows "update_if sid p f d = (if p r then (1, update_session_row sid f d) else (0, d))"
proof -
  have only: "r' \<in> set (db_sessions d) \<Longrightarrow> sr_id r' = sid \<Longrightarrow> r' = r" for r'
    by (rule row_is [OF assms])
  have r: "r \<in> set (db_sessions d)" using assms(2) by (auto simp: session_row_of_def find_Some_iff)
  have id: "sr_id r = sid" by (rule row_of_id [OF assms(2)])
  have dist: "distinct (db_sessions d)" using assms(1) by (simp add: store_ok_def distinct_map)
  have rows: "map (\<lambda>r'. if sr_id r' = sid then if p r' then f r' else r' else r') (db_sessions d) =
      (if p r then map (\<lambda>r'. if sr_id r' = sid then f r' else r') (db_sessions d) else db_sessions d)"
  proof -
    have "(if sr_id r' = sid then if p r' then f r' else r' else r') =
        (if p r \<and> sr_id r' = sid then f r' else r')" if "r' \<in> set (db_sessions d)" for r'
    proof (cases "sr_id r' = sid")
      case True
      with only that have "r' = r" by simp
      then show ?thesis by simp
    qed simp
    then have eq: "map (\<lambda>r'. if sr_id r' = sid then if p r' then f r' else r' else r') (db_sessions d) =
        map (\<lambda>r'. if p r \<and> sr_id r' = sid then f r' else r') (db_sessions d)"
      by (rule map_cong [OF refl])
    show ?thesis unfolding eq by simp
  qed
  have "filter (\<lambda>r'. sr_id r' = sid \<and> p r') (db_sessions d) = filter (\<lambda>r'. r' = r \<and> p r) (db_sessions d)"
    using only id by (intro filter_cong) auto
  also have "length \<dots> = (if p r then 1 else 0)"
  proof -
    have "{x. x = r} \<inter> set (db_sessions d) = {r}" using r by auto
    with dist show ?thesis by (simp add: distinct_length_filter)
  qed
  finally show ?thesis unfolding update_if_def update_session_row_def by (simp add: rows)
qed

lemma mem_update_rows:
  "mem_update sid f m = m\<lparr>my_sessions := map (\<lambda>s. if se_id s = sid then f s else s) (my_sessions m)\<rparr>"
  by (simp add: mem_update_def)

text \<open>The same change to the session and to its row, where the row is known.\<close>

lemma related_one:
  assumes "related m d" and "session_row_of d sid = Some r" and "\<And>r. sr_id (g r) = sr_id r"
    and "\<And>s. with_revision s = sessionFromRow d r \<Longrightarrow> with_revision (f s) = sessionFromRow d (g r)"
  shows "related (mem_update sid f m) (update_session_row sid g d)"
  unfolding mem_update_rows update_session_row_def
proof (rule related_rows [OF assms(1)])
  fix s x assume x: "x \<in> set (db_sessions d)" and sx: "with_revision s = sessionFromRow d x"
  have "se_id s = sr_id x" using with_revision_eqD [OF sx] by simp
  moreover have "sr_id x = sid \<Longrightarrow> x = r"
    using assms(1,2) x row_is by (auto simp: related_def)
  ultimately show "with_revision (if se_id s = sid then f s else s) =
      sessionFromRow d (if sr_id x = sid then g x else x)"
    using assms(4) sx by auto
qed (simp add: assms(3))

lemma relatedD: "related m d \<Longrightarrow> same_store m d" "related m d \<Longrightarrow> store_ok d"
  by (simp_all add: related_def)

lemma sim_claim:
  assumes "related m d"
  shows "fst (mem_claim sid m) = fst (claimSessionProvisioning sid d) \<and>
    related (snd (mem_claim sid m)) (snd (claimSessionProvisioning sid d))"
proof (cases rule: mem_session_cases [OF relatedD(1) [OF assms], of sid])
  case 1
  with assms show ?thesis by (simp add: mem_claim_def claimSessionProvisioning_def update_if_none)
next
  case (2 s r)
  have "related (mem_update sid (\<lambda>s. s\<lparr>se_status := Provisioning\<rparr>) m)
      (update_session_row sid (set_status Provisioning) d)"
    by (rule related_one [OF assms 2(2)]) simp_all
  with 2 assms show ?thesis
    by (simp add: mem_claim_def claimSessionProvisioning_def update_if_some [OF relatedD(2) [OF assms]])
qed

lemma publish_row_simps [simp]:
  "sr_id (publish_row now room t r) = sr_id r"
  "stamp_ok t \<Longrightarrow> sessionFromRow d (publish_row now room t r) =
     (sessionFromRow d r)\<lparr>se_roomId := Some room, se_status := Running, se_startedAt := Some t\<rparr>"
  by (simp_all add: publish_row_def row_fields)

lemma sim_finish:
  assumes "related m d" and "stamp_ok t"
  shows "fst (mem_finish sid room t m) = fst (finishSessionProvisioning now sid room t d) \<and>
    related (snd (mem_finish sid room t m)) (snd (finishSessionProvisioning now sid room t d))"
proof (cases rule: mem_session_cases [OF relatedD(1) [OF assms(1)], of sid])
  case 1
  with assms show ?thesis by (simp add: mem_finish_def finishSessionProvisioning_def update_if_none)
next
  case (2 s r)
  have "related (mem_update sid
        (\<lambda>s. s\<lparr>se_roomId := Some room, se_status := Running, se_startedAt := Some t\<rparr>) m)
      (update_session_row sid (publish_row now room t) d)"
    using assms(2) by (intro related_one [OF assms(1) 2(2)]) simp_all
  moreover have "se_roomId s = sr_roomId r" by (rule with_revision_eqD [OF 2(5)])
  ultimately show ?thesis using 2(1,2,6) assms(1)
    by (simp add: mem_finish_def finishSessionProvisioning_def
        update_if_some [OF relatedD(2) [OF assms(1)]])
qed

lemma patch_row_simps [simp]: "sr_id (patch_row now p r) = sr_id r"
  by (simp add: patch_row_def)

lemma patch_related:
  assumes "pred_option stamp_ok (lp_startedAt p)" and "pred_option stamp_ok (lp_completedAt p)"
    and "with_revision s = sessionFromRow d r"
  shows "with_revision (mem_lifecycle_patch p s) = sessionFromRow d (patch_row now p r)"
proof -
  have stamps: "map_option Stamp (map_option (toDate now) x) = x" if "pred_option stamp_ok x" for x
    using that by (cases x) auto
  have keep: "map_option Stamp (keep_undefined x y) = keep_undefined (map_option Stamp x) (map_option Stamp y)"
    for x y by (simp add: keep_undefined_def)
  note eq = with_revision_eqD [OF assms(3)]
  show ?thesis using assms
    by (simp add: mem_lifecycle_patch_def patch_row_def row_fields row_selects eq keep stamps)
qed

lemma sim_lifecycle:
  assumes "related m d" and "pred_option stamp_ok (lp_startedAt p)" and "pred_option stamp_ok (lp_completedAt p)"
  shows "fst (try_reply m (mem_lifecycle sid p m)) =
      fst (try_reply d (ok_of (updateSessionLifecycle now sid p d))) \<and>
    related (snd (try_reply m (mem_lifecycle sid p m)))
      (snd (try_reply d (ok_of (updateSessionLifecycle now sid p d))))"
proof (cases rule: mem_session_cases [OF relatedD(1) [OF assms(1)], of sid])
  case 1
  with assms show ?thesis by (simp add: mem_lifecycle_def updateSessionLifecycle_def try_reply_def)
next
  case (2 s r)
  have "related (mem_update sid (mem_lifecycle_patch p) m) (update_session_row sid (patch_row now p) d)"
    by (intro related_one [OF assms(1) 2(2)] patch_related assms) simp_all
  with 2 show ?thesis by (simp add: mem_lifecycle_def updateSessionLifecycle_def try_reply_def)
qed

section \<open>Updates of participants and surveys\<close>

lemma participant_id [simp]: "pt_id (participantFromRow vs p) = pr_id p"
  by (simp add: participantFromRow_def Let_def)

lemma related_seats:
  assumes "related m d"
    and parts: "\<And>s r. r \<in> set (db_sessions d) \<Longrightarrow> se_id s = sr_id r \<Longrightarrow>
      se_participants s = map (participantFromRow (db_surveys d))
        (filter (\<lambda>p. pr_sessionId p = sr_id r) (db_participants d)) \<Longrightarrow>
      Q s = map (participantFromRow vs) (filter (\<lambda>p. pr_sessionId p = sr_id r) ps)"
    and creds: "\<And>pid. om_get cr pid = Option.bind (find (\<lambda>r. pr_id r = pid) ps) creds_of_row"
    and keys: "distinct (map pr_id ps)" "pr_sessionId ` set ps \<subseteq> sr_id ` set (db_sessions d)"
      "vr_participantId ` set vs \<subseteq> pr_id ` set ps"
  shows "related \<lparr>my_sessions = map (\<lambda>s. s\<lparr>se_participants := Q s\<rparr>) (my_sessions m), my_creds = cr\<rparr>
    (d\<lparr>db_participants := ps, db_surveys := vs\<rparr>)"
proof -
  let ?d = "d\<lparr>db_participants := ps, db_surveys := vs\<rparr>"
  have same: "map with_revision (my_sessions m) = map (sessionFromRow d) (db_sessions d)"
    using assms(1) by (simp add: related_def same_store_def)
  have "map with_revision (map (\<lambda>s. s\<lparr>se_participants := Q s\<rparr>) (my_sessions m)) =
      map (sessionFromRow ?d) (map (\<lambda>r. r) (db_sessions d))"
  proof (rule map_same_update [OF same])
    fix s r assume r: "r \<in> set (db_sessions d)" and eq: "with_revision s = sessionFromRow d r"
    have "Q s = map (participantFromRow vs) (filter (\<lambda>p. pr_sessionId p = sr_id r) ps)"
      using with_revision_eqD(1,8) [OF eq] by (intro parts [OF r]) simp_all
    with eq show "with_revision (s\<lparr>se_participants := Q s\<rparr>) = sessionFromRow ?d r"
      by (simp add: sessionFromRow_seats)
  qed
  then have "same_store \<lparr>my_sessions = map (\<lambda>s. s\<lparr>se_participants := Q s\<rparr>) (my_sessions m), my_creds = cr\<rparr> ?d"
    by (simp add: same_store_def mem_getCreds_def getParticipantCreds_def creds)
  moreover have "store_ok ?d" using assms(1) keys by (simp add: related_def store_ok_def)
  ultimately show ?thesis by (simp add: related_def)
qed

lemma relatedE:
  assumes "related m d"
  shows "distinct (map pr_id (db_participants d))"
    "pr_sessionId ` set (db_participants d) \<subseteq> sr_id ` set (db_sessions d)"
    "vr_participantId ` set (db_surveys d) \<subseteq> pr_id ` set (db_participants d)"
    "om_get (my_creds m) pid = Option.bind (find (\<lambda>r. pr_id r = pid) (db_participants d)) creds_of_row"
  using assms by (simp_all add: related_def store_ok_def same_store_def mem_getCreds_def
      getParticipantCreds_def)

text \<open>The seat a participant holds, on both sides.\<close>

lemma find_filter: "find p (filter q xs) = find (\<lambda>x. q x \<and> p x) xs"
  by (induction xs) auto

lemma mem_participant_seat:
  assumes "related m d"
  shows "mem_participant sid pid m =
    map_option (participantFromRow (db_surveys d)) (find (seat_of sid pid) (db_participants d))"
proof (cases rule: mem_session_cases [OF relatedD(1) [OF assms], of sid])
  case 1
  have "sid \<notin> sr_id ` set (db_sessions d)" using no_row [OF 1(2)] by auto
  then have "find (seat_of sid pid) (db_participants d) = None"
    using relatedE(2) [OF assms] by (auto simp: find_None_iff seat_of_def)
  with 1 show ?thesis by (simp add: mem_participant_def)
next
  case (2 s r)
  have "se_participants s = map (participantFromRow (db_surveys d))
      (filter (\<lambda>p. pr_sessionId p = sid) (db_participants d))"
    using with_revision_eqD(8) [OF 2(5)] 2(3) by simp
  moreover have "(\<lambda>x. pr_sessionId x = sid \<and> pr_id x = pid) = seat_of sid pid"
    by (auto simp: fun_eq_iff seat_of_def)
  ultimately show ?thesis
    using 2(1) by (simp add: mem_participant_def find_map find_filter comp_def)
qed

lemma mem_participant_None:
  "related m d \<Longrightarrow> mem_participant sid pid m = None \<longleftrightarrow> \<not> list_ex (seat_of sid pid) (db_participants d)"
  by (auto simp: mem_participant_seat find_None_iff list_ex_iff)

lemma find_map_keep:
  "(\<And>x. x \<in> set xs \<Longrightarrow> p (g x) = p x) \<Longrightarrow> find p (map g xs) = map_option g (find p xs)"
  by (induction xs) auto

text \<open>A change to one participant, its row or its surveys.\<close>

lemma related_participant:
  assumes rel: "related m d"
    and g: "\<And>p. p \<in> set (db_participants d) \<Longrightarrow>
      pr_id (g p) = pr_id p \<and> pr_sessionId (g p) = pr_sessionId p \<and> creds_of_row (g p) = creds_of_row p"
    and f: "\<And>p. p \<in> set (db_participants d) \<Longrightarrow> participantFromRow vs (g p) =
      (if seat_of sid pid p then f (participantFromRow (db_surveys d) p)
       else participantFromRow (db_surveys d) p)"
    and vs: "vr_participantId ` set vs \<subseteq> pr_id ` set (db_participants d)"
  shows "related (mem_update_participant sid pid f m)
    (d\<lparr>db_participants := map g (db_participants d), db_surveys := vs\<rparr>)"
proof -
  let ?ps = "map g (db_participants d)"
  let ?Q = "\<lambda>s. if se_id s = sid then update_first (\<lambda>p. pt_id p = pid) f (se_participants s) else se_participants s"
  have ids: "map pr_id ?ps = map pr_id (db_participants d)" using g by simp
  have "mem_update_participant sid pid f m =
      \<lparr>my_sessions = map (\<lambda>s. s\<lparr>se_participants := ?Q s\<rparr>) (my_sessions m), my_creds = my_creds m\<rparr>"
    by (cases m) (simp add: mem_update_participant_def mem_update_def if_distrib cong: map_cong if_cong)
  moreover have "related \<dots> (d\<lparr>db_participants := ?ps, db_surveys := vs\<rparr>)"
  proof (rule related_seats [OF rel])
    fix s r assume r: "r \<in> set (db_sessions d)" "se_id s = sr_id r"
      and ps: "se_participants s = map (participantFromRow (db_surveys d))
        (filter (\<lambda>p. pr_sessionId p = sr_id r) (db_participants d))"
    have "distinct (map pt_id (se_participants s))"
      using relatedE(1) [OF rel] by (simp add: ps comp_def distinct_map_filter)
    then have "?Q s = map (\<lambda>p. if se_id s = sid \<and> pt_id p = pid then f p else p) (se_participants s)"
      by (simp add: update_first_map)
    also have "\<dots> = map (participantFromRow vs \<circ> g)
        (filter (\<lambda>p. pr_sessionId p = sr_id r) (db_participants d))"
      unfolding ps by (simp add: f seat_of_def r(2))
    also have "\<dots> = map (participantFromRow vs) (filter (\<lambda>p. pr_sessionId p = sr_id r) ?ps)"
      using g by (simp add: filter_map comp_def cong: filter_cong)
    finally show "?Q s = map (participantFromRow vs) (filter (\<lambda>p. pr_sessionId p = sr_id r) ?ps)" .
  next
    fix pid'
    have "find (\<lambda>r. pr_id r = pid') ?ps = map_option g (find (\<lambda>r. pr_id r = pid') (db_participants d))"
      using g by (intro find_map_keep) simp
    moreover have "creds_of_row (g r) = creds_of_row r"
      if "find (\<lambda>r. pr_id r = pid') (db_participants d) = Some r" for r
      using that g by (auto simp: find_Some_iff)
    ultimately show "om_get (my_creds m) pid' = Option.bind (find (\<lambda>r. pr_id r = pid') ?ps) creds_of_row"
      unfolding relatedE(4) [OF rel] by (cases "find (\<lambda>r. pr_id r = pid') (db_participants d)") auto
  next
    show "distinct (map pr_id ?ps)" unfolding ids by (rule relatedE(1) [OF rel])
    have "pr_id ` set ?ps = pr_id ` set (db_participants d)" using ids by (metis set_map)
    with vs show "vr_participantId ` set vs \<subseteq> pr_id ` set ?ps" by simp
    show "pr_sessionId ` set ?ps \<subseteq> sr_id ` set (db_sessions d)"
      using relatedE(2) [OF rel] g by auto
  qed
  ultimately show ?thesis by simp
qed

lemma seat_unique:
  assumes "related m d" and "list_ex (seat_of sid pid) (db_participants d)"
    and "p \<in> set (db_participants d)" and "pr_id p = pid"
  shows "seat_of sid pid p"
proof -
  from assms(2) obtain q where q: "q \<in> set (db_participants d)" "seat_of sid pid q"
    by (auto simp: list_ex_iff)
  with assms(3,4) relatedE(1) [OF assms(1)] have "q = p"
    by (auto simp: seat_of_def distinct_map dest: inj_onD)
  with q show ?thesis by simp
qed

text \<open>Reading the surveys of one participant out of the table.\<close>

lemma participant_surveys:
  "participantFromRow vs p = (participantFromRow [] p)
     \<lparr>pt_entrySurvey := map_option surveyFromRow (find (survey_key (pr_id p) True) vs),
      pt_exitSurvey := map_option surveyFromRow (find (survey_key (pr_id p) False) vs)\<rparr>"
proof -
  have "(\<lambda>v. vr_participantId v = pr_id p \<and> vr_entry v) = survey_key (pr_id p) True"
    "(\<lambda>v. vr_participantId v = pr_id p \<and> \<not> vr_entry v) = survey_key (pr_id p) False"
    by (auto simp: fun_eq_iff survey_key_def)
  then show ?thesis by (simp add: participantFromRow_def Let_def find_filter)
qed

lemma surveyFromRow_simps [simp]:
  "surveyFromRow (v\<lparr>vr_answers := a, vr_submittedAt := t\<rparr>) = \<lparr>sv_answers = a, sv_submittedAt = Stamp t\<rparr>"
  "surveyFromRow (v\<lparr>vr_answers := a\<rparr>) = (surveyFromRow v)\<lparr>sv_answers := a\<rparr>"
  "surveyFromRow \<lparr>vr_participantId = p, vr_entry = e, vr_answers = a, vr_submittedAt = t\<rparr> =
     \<lparr>sv_answers = a, sv_submittedAt = Stamp t\<rparr>"
  by (simp_all add: surveyFromRow_def)

lemma find_upsert:
  assumes "stamp_ok (sv_submittedAt s)"
  shows "map_option surveyFromRow (find (survey_key pid' entry') (db_surveys (upsertSurvey now pid entry s d))) =
    (if pid' = pid \<and> entry' = entry then Some s
     else map_option surveyFromRow (find (survey_key pid' entry') (db_surveys d)))"
proof -
  let ?f = "\<lambda>v. if survey_key pid entry v
     then v\<lparr>vr_answers := sv_answers s, vr_submittedAt := toDate now (sv_submittedAt s)\<rparr> else v"
  have keys: "survey_key p e (?f v) = survey_key p e v" for p e v by (simp add: survey_key_def)
  have other: "survey_key pid' entry' v \<Longrightarrow> \<not> (pid' = pid \<and> entry' = entry) \<Longrightarrow> \<not> survey_key pid entry v"
    for v by (auto simp: survey_key_def)
  have found: "find (survey_key pid' entry') (map ?f (db_surveys d)) =
      map_option ?f (find (survey_key pid' entry') (db_surveys d))"
    by (rule find_map_keep) (rule keys)
  show ?thesis
  proof (cases "list_ex (survey_key pid entry) (db_surveys d)")
    case True
    have "map_option surveyFromRow (map_option ?f (find (survey_key pid' entry') (db_surveys d))) =
        (if pid' = pid \<and> entry' = entry then Some s
         else map_option surveyFromRow (find (survey_key pid' entry') (db_surveys d)))"
    proof (cases "find (survey_key pid' entry') (db_surveys d)")
      case None
      have "\<not> (pid' = pid \<and> entry' = entry)"
      proof
        assume "pid' = pid \<and> entry' = entry"
        with True None show False by (simp add: find_None_iff list_ex_iff)
      qed
      then show ?thesis by (simp only: None option.map if_False)
    next
      case (Some v)
      then have "survey_key pid' entry' v" by (rule find_SomeD [THEN conjunct1])
      with Some other assms show ?thesis by auto
    qed
    with True found show ?thesis by (simp add: upsertSurvey_def)
  next
    case False
    then have none: "find (survey_key pid entry) (db_surveys d) = None"
      by (auto simp: find_None_iff list_ex_iff)
    let ?v = "\<lparr>vr_participantId = pid, vr_entry = entry, vr_answers = sv_answers s,
      vr_submittedAt = toDate now (sv_submittedAt s)\<rparr>"
    have key: "survey_key pid' entry' ?v = (pid' = pid \<and> entry' = entry)" by (auto simp: survey_key_def)
    from False have "db_surveys (upsertSurvey now pid entry s d) = db_surveys d @ [?v]"
      by (simp add: upsertSurvey_def)
    with none assms key show ?thesis
      by (cases "find (survey_key pid' entry') (db_surveys d)") (auto simp: find_snoc)
  qed
qed

lemma surveys_upsert:
  "vr_participantId ` set (db_surveys (upsertSurvey now pid entry s d)) \<subseteq>
     insert pid (vr_participantId ` set (db_surveys d))"
  by (auto simp: upsertSurvey_def split: if_splits)

lemma sim_survey:
  assumes "related m d" and "stamp_ok (sv_submittedAt v)"
  shows "fst (mem_saveSurvey sid pid entry v m) = fst (saveParticipantSurvey now sid pid entry v d) \<and>
    related (snd (mem_saveSurvey sid pid entry v m)) (snd (saveParticipantSurvey now sid pid entry v d))"
proof (cases "list_ex (seat_of sid pid) (db_participants d)")
  case False
  with assms show ?thesis by (simp add: mem_saveSurvey_def saveParticipantSurvey_def mem_participant_None)
next
  case True
  let ?d = "upsertSurvey now pid entry v d"
  let ?f = "\<lambda>p. if entry then p\<lparr>pt_entrySurvey := Some v\<rparr> else p\<lparr>pt_exitSurvey := Some v\<rparr>"
  have pid: "pid \<in> pr_id ` set (db_participants d)" using True by (auto simp: list_ex_iff seat_of_def)
  have "related (mem_update_participant sid pid ?f m)
      (d\<lparr>db_participants := map (\<lambda>p. p) (db_participants d), db_surveys := db_surveys ?d\<rparr>)"
  proof (rule related_participant [OF assms(1)])
    fix p assume p: "p \<in> set (db_participants d)"
    have seat: "seat_of sid pid p \<longleftrightarrow> pr_id p = pid"
      using seat_unique [OF assms(1) True p] by (auto simp: seat_of_def)
    show "participantFromRow (db_surveys ?d) p =
        (if seat_of sid pid p then ?f (participantFromRow (db_surveys d) p)
         else participantFromRow (db_surveys d) p)"
      unfolding seat participant_surveys [of "db_surveys ?d"] participant_surveys [of "db_surveys d"]
      by (simp add: find_upsert [OF assms(2)])
  next
    show "vr_participantId ` set (db_surveys ?d) \<subseteq> pr_id ` set (db_participants d)"
      using surveys_upsert [of now pid entry v d] relatedE(3) [OF assms(1)] pid by blast
  qed simp
  moreover have "d\<lparr>db_participants := map (\<lambda>p. p) (db_participants d), db_surveys := db_surveys ?d\<rparr> = ?d"
    by (simp add: upsertSurvey_def)
  ultimately show ?thesis using True assms(1)
    by (simp add: mem_saveSurvey_def saveParticipantSurvey_def mem_participant_None)
qed

lemma sim_feedback:
  assumes "related m d"
  shows "fst (mem_patchExit sid pid a m) = fst (patchExitSurveyAnswers sid pid a d) \<and>
    related (snd (mem_patchExit sid pid a m)) (snd (patchExitSurveyAnswers sid pid a d))"
proof -
  let ?ex = "list_ex (seat_of sid pid) (db_participants d)"
    and ?survey = "list_ex (survey_key pid False) (db_surveys d)"
  have present: "(Option.bind (mem_participant sid pid m) pt_exitSurvey = None) = (\<not> ?survey \<or> \<not> ?ex)"
  proof (cases "find (seat_of sid pid) (db_participants d)")
    case None
    then have "\<not> ?ex" by (auto simp: find_None_iff list_ex_iff)
    with None show ?thesis by (simp add: mem_participant_seat [OF assms])
  next
    case (Some p)
    then have p: "seat_of sid pid p" "p \<in> set (db_participants d)" using find_SomeD by fast+
    then have "pr_id p = pid" by (simp add: seat_of_def)
    then have "pt_exitSurvey (participantFromRow (db_surveys d) p) = None \<longleftrightarrow> \<not> ?survey"
      by (simp add: participant_surveys [of "db_surveys d"]) (auto simp: find_None_iff list_ex_iff)
    moreover have ?ex using p by (auto simp: list_ex_iff)
    ultimately show ?thesis by (simp add: mem_participant_seat [OF assms] Some)
  qed
  show ?thesis
  proof (cases "?survey \<and> ?ex")
    case False
    then show ?thesis using assms present by (auto simp: mem_patchExit_def patchExitSurveyAnswers_def)
  next
    case True
    let ?g = "\<lambda>v. if survey_key pid False v then v\<lparr>vr_answers := object_assign (vr_answers v) a\<rparr> else v"
    let ?f = "\<lambda>p. p\<lparr>pt_exitSurvey := map_option
        (\<lambda>v. v\<lparr>sv_answers := object_assign (sv_answers v) a\<rparr>) (pt_exitSurvey p)\<rparr>"
    have keys: "survey_key p e (?g v) = survey_key p e v" for p e v by (simp add: survey_key_def)
    have found: "find (survey_key p e) (map ?g (db_surveys d)) =
        map_option ?g (find (survey_key p e) (db_surveys d))" for p e
      by (rule find_map_keep) (rule keys)
    have read: "map_option surveyFromRow (map_option ?g (find (survey_key p e) (db_surveys d))) =
        map_option (\<lambda>v. if p = pid \<and> \<not> e then v\<lparr>sv_answers := object_assign (sv_answers v) a\<rparr> else v)
          (map_option surveyFromRow (find (survey_key p e) (db_surveys d)))" for p e
      by (cases "find (survey_key p e) (db_surveys d)")
        (auto simp: survey_key_def surveyFromRow_def dest!: find_SomeD)
    have "related (mem_update_participant sid pid ?f m)
        (d\<lparr>db_participants := map (\<lambda>p. p) (db_participants d), db_surveys := map ?g (db_surveys d)\<rparr>)"
    proof (rule related_participant [OF assms])
      fix p assume p: "p \<in> set (db_participants d)"
      have seat: "seat_of sid pid p \<longleftrightarrow> pr_id p = pid"
        using seat_unique [OF assms _ p] True by (auto simp: seat_of_def)
      show "participantFromRow (map ?g (db_surveys d)) p =
          (if seat_of sid pid p then ?f (participantFromRow (db_surveys d) p)
           else participantFromRow (db_surveys d) p)"
        unfolding seat participant_surveys [of "map ?g (db_surveys d)"]
          participant_surveys [of "db_surveys d"] found read
        by (simp add: option.map_comp comp_def option.map_ident)
    next
      show "vr_participantId ` set (map ?g (db_surveys d)) \<subseteq> pr_id ` set (db_participants d)"
        using relatedE(3) [OF assms] by (auto simp: image_subset_iff)
    qed simp
    then show ?thesis using True present
      by (simp add: mem_patchExit_def patchExitSurveyAnswers_def)
  qed
qed

lemma sim_markCompleted:
  assumes "related m d" and "stamp_ok t"
  shows "fst (mem_markCompleted sid pid t m) = fst (markParticipantCompleted now sid pid t d) \<and>
    related (snd (mem_markCompleted sid pid t m)) (snd (markParticipantCompleted now sid pid t d))"
proof -
  let ?g = "\<lambda>r. if seat_of sid pid r \<and> pr_completedAt r = None
      then r\<lparr>pr_completedAt := Some (toDate now t)\<rparr> else r"
  let ?f = "\<lambda>p. p\<lparr>pt_completedAt := Some (orelse (pt_completedAt p) t)\<rparr>"
  have open_ex: "list_ex (\<lambda>r. seat_of sid pid r \<and> pr_completedAt r = None) (db_participants d) \<Longrightarrow>
      list_ex (seat_of sid pid) (db_participants d)"
    by (auto simp: list_ex_iff)
  have d': "snd (markParticipantCompleted now sid pid t d) =
      d\<lparr>db_participants := map ?g (db_participants d), db_surveys := db_surveys d\<rparr>"
    by (simp add: markParticipantCompleted_def)
  have rel: "related (mem_update_participant sid pid ?f m) (snd (markParticipantCompleted now sid pid t d))"
    unfolding d'
  proof (rule related_participant [OF assms(1)])
    fix p assume "p \<in> set (db_participants d)"
    show "participantFromRow (db_surveys d) (?g p) =
        (if seat_of sid pid p then ?f (participantFromRow (db_surveys d) p)
         else participantFromRow (db_surveys d) p)"
      using assms(2) by (cases "pr_completedAt p") (auto simp: participantFromRow_def Let_def)
  next
    show "vr_participantId ` set (db_surveys d) \<subseteq> pr_id ` set (db_participants d)"
      by (rule relatedE(3) [OF assms(1)])
  qed (auto simp: creds_of_row_def)
  show ?thesis
  proof (cases "list_ex (seat_of sid pid) (db_participants d)")
    case True
    with rel assms(1) show ?thesis
      by (simp add: mem_markCompleted_def mem_participant_None) (simp add: markParticipantCompleted_def Let_def)
  next
    case False
    then have "map ?g (db_participants d) = db_participants d"
      by (intro map_idI) (auto simp: list_ex_iff)
    with False open_ex assms(1) show ?thesis
      by (auto simp: mem_markCompleted_def mem_participant_None markParticipantCompleted_def Let_def)
  qed
qed

section \<open>Taking and leaving seats, credentials\<close>

lemma find_survey_fresh:
  "vr_participantId ` set vs \<subseteq> A \<Longrightarrow> pid \<notin> A \<Longrightarrow> find (survey_key pid e) vs = None"
  by (auto simp: find_None_iff survey_key_def)

lemma create_data_stamp:
  "pt_completedAt p = map_option Stamp (toOptionalDate 0 (pt_completedAt p)) \<Longrightarrow>
     participantCreateData now sid p = participantCreateData 0 sid p"
  by (cases "pt_completedAt p"; cases "the (pt_completedAt p)")
    (auto simp: participantCreateData_def map_option_case split: option.splits)

lemma push_new_fresh: "key y \<notin> key ` set xs \<Longrightarrow> push_new key xs y = xs @ [y]"
  by (simp add: push_new_def)

lemma sim_add:
  assumes "related m d" and "op_ok d (Op_Add sid p)"
  shows "fst (try_reply m (mem_addParticipant sid p m)) =
      fst (try_reply d (ok_of (addParticipant now sid p d))) \<and>
    related (snd (try_reply m (mem_addParticipant sid p m)))
      (snd (try_reply d (ok_of (addParticipant now sid p d))))"
proof -
  let ?row = "participantCreateData 0 sid p"
  from assms(2) have sid: "sid \<in> sr_id ` set (db_sessions d)" and p: "participantFromRow [] ?row = p"
    and free: "\<not> list_ex (seat_taken ?row) (db_participants d)" by simp_all
  have "pt_completedAt p = map_option Stamp (toOptionalDate 0 (pt_completedAt p))"
    using arg_cong [OF p, of pt_completedAt] by (simp add: participantFromRow_def participantCreateData_def Let_def)
  then have row: "participantCreateData now sid p = ?row" by (rule create_data_stamp)
  have row_simps [simp]: "pr_id ?row = pt_id p" "pr_sessionId ?row = sid" "creds_of_row ?row = None"
    by (simp_all add: participantCreateData_def creds_of_row_def)
  have new: "pt_id p \<notin> pr_id ` set (db_participants d)"
    using free by (auto simp: list_ex_iff seat_taken_def)
  have found: "session_row_of d sid \<noteq> None" using sid by (auto simp: session_row_of_def find_None_iff)
  have "pt_entrySurvey p = None" "pt_exitSurvey p = None"
    using arg_cong [OF p, of pt_entrySurvey] arg_cong [OF p, of pt_exitSurvey]
    by (simp_all add: participantFromRow_def Let_def)
  then have "p\<lparr>pt_entrySurvey := None, pt_exitSurvey := None\<rparr> = p" by (cases p) simp
  then have read: "participantFromRow (db_surveys d) ?row = p"
    using find_survey_fresh [OF relatedE(3) [OF assms(1)] new]
    unfolding participant_surveys [of "db_surveys d"] p by simp
  let ?ps = "db_participants d @ [?row]"
  let ?Q = "\<lambda>s. if se_id s = sid then push_new pt_id (se_participants s) p else se_participants s"
  have "related \<lparr>my_sessions = map (\<lambda>s. s\<lparr>se_participants := ?Q s\<rparr>) (my_sessions m), my_creds = my_creds m\<rparr>
      (d\<lparr>db_participants := ?ps, db_surveys := db_surveys d\<rparr>)"
  proof (rule related_seats [OF assms(1)])
    fix s r assume id: "se_id s = sr_id r" and ps: "se_participants s = map (participantFromRow (db_surveys d))
        (filter (\<lambda>p. pr_sessionId p = sr_id r) (db_participants d))"
    have "pt_id p \<notin> pt_id ` set (se_participants s)" using new by (auto simp: ps)
    then have push: "push_new pt_id (se_participants s) p = se_participants s @ [p]" by (rule push_new_fresh)
    show "?Q s = map (participantFromRow (db_surveys d)) (filter (\<lambda>p. pr_sessionId p = sr_id r) ?ps)"
      unfolding push id by (auto simp: ps read)
  next
    fix pid
    have "find (\<lambda>r. pr_id r = pt_id p) (db_participants d) = None"
      using new by (simp add: find_None_iff) (metis image_eqI)
    then show "om_get (my_creds m) pid = Option.bind (find (\<lambda>r. pr_id r = pid) ?ps) creds_of_row"
      unfolding relatedE(4) [OF assms(1)] by (auto simp: find_snoc split: option.splits)
  next
    show "distinct (map pr_id ?ps)" using relatedE(1) [OF assms(1)] new by simp
    show "pr_sessionId ` set ?ps \<subseteq> sr_id ` set (db_sessions d)" using relatedE(2) [OF assms(1)] sid by simp
    show "vr_participantId ` set (db_surveys d) \<subseteq> pr_id ` set ?ps" using relatedE(3) [OF assms(1)] by auto
  qed
  moreover have "mem_update sid (\<lambda>s. s\<lparr>se_participants := push_new pt_id (se_participants s) p\<rparr>) m =
      \<lparr>my_sessions = map (\<lambda>s. s\<lparr>se_participants := ?Q s\<rparr>) (my_sessions m), my_creds = my_creds m\<rparr>"
    by (cases m) (simp add: mem_update_def if_distrib cong: map_cong if_cong)
  moreover have "mem_session sid m \<noteq> None"
    using found mem_session_load [OF relatedD(1) [OF assms(1)], of sid] by (auto simp: load_session_def)
  moreover have "addParticipant now sid p d = Inr (d\<lparr>db_participants := ?ps\<rparr>)"
    using found free by (simp add: addParticipant_def row Let_def)
  ultimately show ?thesis by (simp add: mem_addParticipant_def try_reply_def)
qed

lemma sim_creds:
  assumes "related m d" and "op_ok d (Op_Creds pid c)"
  shows "related (mem_setCreds pid c m) (snd (try_reply d (setParticipantCreds pid c d))) \<and>
    fst (try_reply d (setParticipantCreds pid c d)) = R_Unit"
proof -
  from assms(2) have pid: "pid \<in> pr_id ` set (db_participants d)"
    and c: "mc_userId c \<noteq> []" "mc_accessToken c \<noteq> []" by simp_all
  let ?g = "\<lambda>r. if pr_id r = pid then r\<lparr>pr_matrixUserId := Some (mc_userId c),
      pr_matrixAccessToken := Some (mc_accessToken c)\<rparr> else r"
  let ?f = "\<lambda>p. p\<lparr>pt_matrixUserId := Some (mc_userId c)\<rparr>"
  let ?Q = "\<lambda>s. update_first (\<lambda>p. pt_id p = pid) ?f (se_participants s)"
  let ?ps = "map ?g (db_participants d)"
  have truthy_c: "creds_of_row (?g r) = (if pr_id r = pid then Some c else creds_of_row r)" for r
    using c by (cases c) (auto simp: creds_of_row_def)
  have "related \<lparr>my_sessions = map (\<lambda>s. s\<lparr>se_participants := ?Q s\<rparr>) (my_sessions m),
      my_creds = om_set pid c (my_creds m)\<rparr> (d\<lparr>db_participants := ?ps, db_surveys := db_surveys d\<rparr>)"
  proof (rule related_seats [OF assms(1)])
    fix s r assume "se_id s = sr_id r" and ps: "se_participants s = map (participantFromRow (db_surveys d))
        (filter (\<lambda>p. pr_sessionId p = sr_id r) (db_participants d))"
    have "distinct (map pt_id (se_participants s))"
      using relatedE(1) [OF assms(1)] by (simp add: ps comp_def distinct_map_filter)
    then have "?Q s = map (\<lambda>p. if pt_id p = pid then ?f p else p) (se_participants s)"
      by (rule update_first_map)
    also have "\<dots> = map (participantFromRow (db_surveys d) \<circ> ?g)
        (filter (\<lambda>p. pr_sessionId p = sr_id r) (db_participants d))"
      unfolding ps by (simp add: participantFromRow_def Let_def)
    also have "\<dots> = map (participantFromRow (db_surveys d)) (filter (\<lambda>p. pr_sessionId p = sr_id r) ?ps)"
    proof -
      have eq: "(\<lambda>p. pr_sessionId p = sr_id r) \<circ> ?g = (\<lambda>p. pr_sessionId p = sr_id r)"
        by (rule ext) simp
      show ?thesis by (simp only: filter_map eq map_map)
    qed
    finally show "?Q s = map (participantFromRow (db_surveys d)) (filter (\<lambda>p. pr_sessionId p = sr_id r) ?ps)" .
  next
    fix pid'
    have found: "find (\<lambda>r. pr_id r = pid') ?ps = map_option ?g (find (\<lambda>r. pr_id r = pid') (db_participants d))"
      by (rule find_map_keep) simp
    have set: "om_get (om_set pid c (my_creds m)) pid' =
        (if pid' = pid then Some c else om_get (my_creds m) pid')"
      by (simp add: update_conv')
    show "om_get (om_set pid c (my_creds m)) pid' = Option.bind (find (\<lambda>r. pr_id r = pid') ?ps) creds_of_row"
    proof (cases "find (\<lambda>r. pr_id r = pid') (db_participants d)")
      case None
      moreover from this have "pid' \<noteq> pid" using pid by (auto simp: find_None_iff)
      ultimately show ?thesis
        unfolding found set using relatedE(4) [OF assms(1), of pid'] by simp
    next
      case (Some r)
      then have "pr_id r = pid'" by (rule find_SomeD [THEN conjunct1])
      then show ?thesis
        unfolding found set Some option.map bind.simps truthy_c
        using relatedE(4) [OF assms(1), of pid'] Some by simp
    qed
  next
    have ids: "map pr_id ?ps = map pr_id (db_participants d)" by simp
    then show "distinct (map pr_id ?ps)" using relatedE(1) [OF assms(1)] by metis
    show "pr_sessionId ` set ?ps \<subseteq> sr_id ` set (db_sessions d)" using relatedE(2) [OF assms(1)] by auto
    have "pr_id ` set ?ps = pr_id ` set (db_participants d)" using ids by (metis set_map)
    then show "vr_participantId ` set (db_surveys d) \<subseteq> pr_id ` set ?ps" using relatedE(3) [OF assms(1)] by simp
  qed
  with pid show ?thesis by (cases m) (simp add: setParticipantCreds_def mem_setCreds_def try_reply_def)
qed

text \<open>\<open>splice(index, 1)\<close> removes the one participant of that id.\<close>

lemma splice_filter:
  "distinct (map key xs) \<Longrightarrow> find_index (\<lambda>x. key x = k) xs = Some i \<Longrightarrow>
     take i xs @ drop (Suc i) xs = filter (\<lambda>x. key x \<noteq> k) xs"
proof (induction xs arbitrary: i)
  case (Cons x xs)
  show ?case
  proof (cases "key x = k")
    case True
    moreover have "filter (\<lambda>y. key y \<noteq> k) xs = xs"
      using Cons.prems(1) True by (simp add: filter_id_conv) (metis image_eqI)
    ultimately show ?thesis using Cons.prems by simp
  next
    case False
    with Cons.prems obtain j where "find_index (\<lambda>x. key x = k) xs = Some j" "i = Suc j" by auto
    with Cons False show ?thesis by simp
  qed
qed simp

lemma read_without:
  assumes "pr_id p \<noteq> pid"
  shows "participantFromRow (filter (\<lambda>v. vr_participantId v \<noteq> pid) vs) p = participantFromRow vs p"
proof -
  have "find (survey_key (pr_id p) e) (filter (\<lambda>v. vr_participantId v \<noteq> pid) vs) =
      find (survey_key (pr_id p) e) vs" for e
    unfolding find_filter using assms by (intro find_cong_pred) (auto simp: survey_key_def)
  then show ?thesis by (simp only: participant_surveys [of "filter _ _"] participant_surveys [of vs])
qed

lemma find_without:
  "find (\<lambda>r. pr_id r = k) (filter (\<lambda>p. pr_id p \<noteq> pid) ps) =
     (if k = pid then None else find (\<lambda>r. pr_id r = k) ps)"
  unfolding find_filter by (auto simp: find_None_iff intro!: find_cong_pred)

text \<open>A seat given up: the row and its surveys on one side, the participant on the other.\<close>

definition vacate :: "string \<Rightarrow> db \<Rightarrow> db" where
  "vacate pid d = d\<lparr>db_participants := filter (\<lambda>p. pr_id p \<noteq> pid) (db_participants d),
     db_surveys := filter (\<lambda>v. vr_participantId v \<noteq> pid) (db_surveys d)\<rparr>"

lemma related_vacate:
  assumes rel: "related m d" and seat: "list_ex (seat_of sid pid) (db_participants d)"
  shows "related
    \<lparr>my_sessions = map (\<lambda>s. s\<lparr>se_participants :=
       (if se_id s = sid then filter (\<lambda>p. pt_id p \<noteq> pid) (se_participants s) else se_participants s)\<rparr>)
       (my_sessions m), my_creds = om_del pid (my_creds m)\<rparr> (vacate pid d)"
  unfolding vacate_def
proof (rule related_seats [OF rel])
  let ?vs = "filter (\<lambda>v. vr_participantId v \<noteq> pid) (db_surveys d)"
  let ?ps = "filter (\<lambda>p. pr_id p \<noteq> pid) (db_participants d)"
  fix s r assume id: "se_id s = sr_id r" and ps: "se_participants s = map (participantFromRow (db_surveys d))
      (filter (\<lambda>p. pr_sessionId p = sr_id r) (db_participants d))"
  have elsewhere: "filter (\<lambda>p. pr_sessionId p = sr_id r \<and> pr_id p \<noteq> pid) (db_participants d) =
      filter (\<lambda>p. pr_sessionId p = sr_id r) (db_participants d)" if "sr_id r \<noteq> sid"
  proof (rule filter_cong [OF refl])
    fix p assume "p \<in> set (db_participants d)"
    then show "(pr_sessionId p = sr_id r \<and> pr_id p \<noteq> pid) = (pr_sessionId p = sr_id r)"
      using seat_unique [OF rel seat, of p] that by (auto simp: seat_of_def)
  qed
  have "map (participantFromRow ?vs) (filter (\<lambda>p. pr_sessionId p = sr_id r) ?ps) =
      map (participantFromRow (db_surveys d))
        (filter (\<lambda>p. pr_sessionId p = sr_id r \<and> pr_id p \<noteq> pid) (db_participants d))"
    by (simp add: read_without conj_commute)
  also have "\<dots> = (if se_id s = sid then filter (\<lambda>p. pt_id p \<noteq> pid) (se_participants s) else se_participants s)"
    using elsewhere by (auto simp: ps id filter_map comp_def conj_commute)
  finally show "(if se_id s = sid then filter (\<lambda>p. pt_id p \<noteq> pid) (se_participants s) else se_participants s) =
      map (participantFromRow ?vs) (filter (\<lambda>p. pr_sessionId p = sr_id r) ?ps)" by (rule sym)
next
  fix k
  show "om_get (om_del pid (my_creds m)) k =
      Option.bind (find (\<lambda>r. pr_id r = k) (filter (\<lambda>p. pr_id p \<noteq> pid) (db_participants d))) creds_of_row"
    using relatedE(4) [OF rel, of k] by (simp add: delete_conv' find_without)
next
  show "distinct (map pr_id (filter (\<lambda>p. pr_id p \<noteq> pid) (db_participants d)))"
    using relatedE(1) [OF rel] by (simp add: distinct_map_filter)
  show "pr_sessionId ` set (filter (\<lambda>p. pr_id p \<noteq> pid) (db_participants d)) \<subseteq> sr_id ` set (db_sessions d)"
    using relatedE(2) [OF rel] by auto
  show "vr_participantId ` set (filter (\<lambda>v. vr_participantId v \<noteq> pid) (db_surveys d)) \<subseteq>
      pr_id ` set (filter (\<lambda>p. pr_id p \<noteq> pid) (db_participants d))"
    using relatedE(3) [OF rel] by (auto simp: subset_iff image_iff)
qed

lemma mem_session_unique:
  assumes "related m d" and "mem_session sid m = Some s" and "x \<in> set (my_sessions m)" and "se_id x = sid"
  shows "x = s"
proof -
  have "map se_id (map with_revision (my_sessions m)) = map se_id (map (sessionFromRow d) (db_sessions d))"
    using assms(1) by (simp add: related_def same_store_def)
  then have "map se_id (my_sessions m) = map sr_id (db_sessions d)" by (simp add: comp_def)
  then have "distinct (map se_id (my_sessions m))"
    using assms(1) by (simp add: related_def store_ok_def)
  moreover have "s \<in> set (my_sessions m)" "se_id s = sid"
    using assms(2) find_SomeD [of "\<lambda>s. se_id s = sid"] by (auto simp: mem_session_def)
  ultimately show ?thesis using assms(3,4) by (auto simp: distinct_map dest: inj_onD)
qed

lemma sim_remove:
  assumes "related m d"
  shows "fst (mem_remove sid pid m) = fst (removeParticipantFromWaitingSession sid pid d) \<and>
    related (snd (mem_remove sid pid m)) (snd (removeParticipantFromWaitingSession sid pid d))"
proof (cases rule: mem_session_cases [OF relatedD(1) [OF assms], of sid])
  case 1
  with assms show ?thesis by (simp add: mem_remove_def removeParticipantFromWaitingSession_def)
next
  case (2 s r)
  let ?seat = "list_ex (seat_of sid pid) (db_participants d)"
  have ps: "se_participants s = map (participantFromRow (db_surveys d))
      (filter (\<lambda>p. pr_sessionId p = sid) (db_participants d))"
    using with_revision_eqD(8) [OF 2(5)] 2(3) by simp
  have absent: "find_index (\<lambda>p. pt_id p = pid) (se_participants s) = None \<longleftrightarrow> \<not> ?seat"
    by (auto simp: ps find_index_None list_ex_iff seat_of_def)
  show ?thesis
  proof (cases "sr_status r = Waiting \<and> ?seat")
    case False
    with 2(1,2,6) assms absent show ?thesis
      by (auto simp: mem_remove_def removeParticipantFromWaitingSession_def)
  next
    case True
    then obtain i where i: "find_index (\<lambda>p. pt_id p = pid) (se_participants s) = Some i"
      using absent by (cases "find_index (\<lambda>p. pt_id p = pid) (se_participants s)") auto
    let ?rest = "filter (\<lambda>p. pt_id p \<noteq> pid) (se_participants s)"
    have "distinct (map pt_id (se_participants s))"
      using relatedE(1) [OF assms] by (simp add: ps comp_def distinct_map_filter)
    then have rest: "take i (se_participants s) @ drop (Suc i) (se_participants s) = ?rest"
      by (rule splice_filter [OF _ i])
    have "filter (\<lambda>r. \<not> seat_of sid pid r) (db_participants d) = filter (\<lambda>p. pr_id p \<noteq> pid) (db_participants d)"
      using seat_unique [OF assms] True by (intro filter_cong) (auto simp: seat_of_def)
    then have db0: "removeParticipantFromWaitingSession sid pid d =
        (True, if ?rest = [] then snd (update_if sid (\<lambda>r. sr_status r = Waiting) (set_status Aborted) (vacate pid d))
               else vacate pid d)"
      using True 2(2) by (auto simp: removeParticipantFromWaitingSession_def Let_def vacate_def ps
          filter_empty_conv)
    have mem: "mem_remove sid pid m = (True, mem_update sid (\<lambda>x. x\<lparr>se_participants := ?rest,
        se_status := (if ?rest = [] then Aborted else se_status x)\<rparr>) (m\<lparr>my_creds := om_del pid (my_creds m)\<rparr>))"
      using True 2(1,6) i by (simp add: mem_remove_def Let_def rest)
    let ?V = "\<lparr>my_sessions = map (\<lambda>x. x\<lparr>se_participants :=
       (if se_id x = sid then filter (\<lambda>p. pt_id p \<noteq> pid) (se_participants x) else se_participants x)\<rparr>)
       (my_sessions m), my_creds = om_del pid (my_creds m)\<rparr>"
    have vacated: "related ?V (vacate pid d)" using True by (intro related_vacate [OF assms]) simp
    have row: "session_row_of (vacate pid d) sid = Some r"
      using 2(2) by (simp add: vacate_def session_row_of_def)
    have "update_if sid (\<lambda>r. sr_status r = Waiting) (set_status Aborted) (vacate pid d) =
        (1, update_session_row sid (set_status Aborted) (vacate pid d))"
      using True by (simp add: update_if_some [OF relatedD(2) [OF vacated] row])
    with db0 have db: "removeParticipantFromWaitingSession sid pid d =
        (True, if ?rest = [] then update_session_row sid (set_status Aborted) (vacate pid d) else vacate pid d)"
      by simp
    have aborted: "related (mem_update sid (\<lambda>x. x\<lparr>se_status := Aborted\<rparr>) ?V)
        (update_session_row sid (set_status Aborted) (vacate pid d))"
      by (rule related_one [OF vacated row]) simp_all
    have "snd (mem_remove sid pid m) =
        (if ?rest = [] then mem_update sid (\<lambda>x. x\<lparr>se_status := Aborted\<rparr>) ?V else ?V)"
      unfolding mem using mem_session_unique [OF assms 2(1)]
      by (cases m) (auto simp: mem_update_def intro!: map_cong)
    with vacated aborted show ?thesis by (simp add: db) (simp add: mem)
  qed
qed

section \<open>Aborting lobbies\<close>

definition abort_row :: "session_status list \<Rightarrow> int option \<Rightarrow> session_row \<Rightarrow> session_row" where
  "abort_row statuses deadline r = (if lobby_matches statuses deadline r then set_status Aborted r else r)"

lemma abort_row_id [simp]: "sr_id (abort_row statuses deadline r) = sr_id r"
  by (simp add: abort_row_def)

text \<open>The loop, at a row with the rows before it already handled.\<close>

lemma abort_loop:
  assumes "distinct (map sr_id (pre @ rest))" and "db_sessions d = map (abort_row statuses deadline) pre @ rest"
    and "\<And>r. al_id (L r) = sr_id r"
  shows "foldl (abort_lobby statuses deadline) (out, d) (map L (filter (lobby_matches statuses deadline) rest)) =
    (out @ map L (filter (lobby_matches statuses deadline) rest),
     d\<lparr>db_sessions := map (abort_row statuses deadline) (pre @ rest)\<rparr>)"
  using assms(1,2)
proof (induction rest arbitrary: pre out d)
  case Nil
  then show ?case by simp
next
  case (Cons r rest)
  let ?A = "abort_row statuses deadline" and ?match = "lobby_matches statuses deadline"
  have next_pre: "distinct (map sr_id ((pre @ [r]) @ rest))" using Cons.prems(1) by simp
  show ?case
  proof (cases "?match r")
    case False
    then have "db_sessions d = map ?A (pre @ [r]) @ rest" using Cons.prems(2) by (simp add: abort_row_def)
    from Cons.IH [OF next_pre this] False show ?thesis by simp
  next
    case True
    let ?d = "d\<lparr>db_sessions := map ?A (pre @ [r]) @ rest\<rparr>"
    let ?u = "\<lambda>x. if sr_id x = sr_id r then if ?match x then set_status Aborted x else x else x"
    have others: "map ?u (map ?A pre) = map ?A pre" "map ?u rest = rest"
      using Cons.prems(1) by (auto intro!: map_idI simp: image_iff)
    have "map ?u (db_sessions d) = map ?A (pre @ [r]) @ rest"
      by (simp only: Cons.prems(2) map_append list.map others) (simp add: True abort_row_def)
    then have "update_session_row (sr_id r) (\<lambda>x. if ?match x then set_status Aborted x else x) d = ?d"
      by (simp only: update_session_row_def)
    moreover have "0 < length (filter (\<lambda>x. sr_id x = sr_id r \<and> ?match x) (db_sessions d))"
      using Cons.prems(2) True by (simp add: filter_empty_conv)
    ultimately have "abort_lobby statuses deadline (out, d) (L r) = (out @ [L r], ?d)"
      by (simp add: abort_lobby_def update_if_def assms(3))
    with Cons.IH [OF next_pre, of ?d "out @ [L r]"] True show ?thesis by simp
  qed
qed

lemma abortLobbies_eq:
  assumes "store_ok d"
  shows "abortLobbies statuses deadline d =
    (map (lobby_of d) (filter (lobby_matches statuses deadline) (db_sessions d)),
     d\<lparr>db_sessions := map (abort_row statuses deadline) (db_sessions d)\<rparr>)"
  using abort_loop [of "[]" "db_sessions d" d statuses deadline "lobby_of d" "[]"] assms
  by (simp add: abortLobbies_def store_ok_def lobby_of_def)

lemma match_related:
  assumes "with_revision s = sessionFromRow d r" and "set statuses \<subseteq> {Waiting, Provisioning}"
  shows "mem_matches statuses deadline s = lobby_matches statuses deadline r"
  using assms(2) with_revision_eqD(2,6) [OF assms(1)]
  by (auto simp: mem_matches_def lobby_matches_def split: option.splits)

lemma map_filter_related:
  assumes "map f xs = map g ys" and "\<And>x y. y \<in> set ys \<Longrightarrow> f x = g y \<Longrightarrow> p x = q y \<and> h x = k y"
  shows "map h (filter p xs) = map k (filter q ys)"
  using assms
proof (induction xs arbitrary: ys)
  case (Cons x xs)
  then obtain y zs where ys: "ys = y # zs" "f x = g y" "map f xs = map g zs" by (cases ys) auto
  have "p x = q y \<and> h x = k y" using Cons.prems(2) ys by simp
  moreover have "map h (filter p xs) = map k (filter q zs)"
    using Cons.prems(2) ys by (intro Cons.IH) auto
  ultimately show ?case by (simp add: ys(1))
qed simp

lemma sim_abort:
  assumes "related m d" and "set statuses \<subseteq> {Waiting, Provisioning}"
  shows "fst (mem_abortLobbies statuses deadline m) = fst (abortLobbies statuses deadline d) \<and>
    related (snd (mem_abortLobbies statuses deadline m)) (snd (abortLobbies statuses deadline d))"
proof -
  let ?lobby = "\<lambda>s. \<lparr>al_id = se_id s, al_createdAt = se_createdAt s,
    al_participantCount = length (se_participants s), al_priorStatus = se_status s\<rparr>"
  have same: "map with_revision (my_sessions m) = map (sessionFromRow d) (db_sessions d)"
    using assms(1) by (simp add: related_def same_store_def)
  have "map ?lobby (filter (mem_matches statuses deadline) (my_sessions m)) =
      map (lobby_of d) (filter (lobby_matches statuses deadline) (db_sessions d))"
  proof (rule map_filter_related [OF same], intro conjI)
    fix s r assume eq: "with_revision s = sessionFromRow d r"
    show "mem_matches statuses deadline s = lobby_matches statuses deadline r"
      by (rule match_related [OF eq assms(2)])
    show "?lobby s = lobby_of d r"
      using with_revision_eqD(1,2,7,8) [OF eq] by (simp add: lobby_of_def)
  qed
  moreover have "related (m\<lparr>my_sessions := map (\<lambda>s. if mem_matches statuses deadline s
        then s\<lparr>se_status := Aborted\<rparr> else s) (my_sessions m)\<rparr>)
      (d\<lparr>db_sessions := map (abort_row statuses deadline) (db_sessions d)\<rparr>)"
  proof (rule related_rows [OF assms(1)])
    fix s r assume eq: "with_revision s = sessionFromRow d r"
    show "with_revision (if mem_matches statuses deadline s then s\<lparr>se_status := Aborted\<rparr> else s) =
        sessionFromRow d (abort_row statuses deadline r)"
      unfolding match_related [OF eq assms(2)] by (simp add: eq abort_row_def)
  qed simp
  ultimately show ?thesis
    by (simp add: mem_abortLobbies_def abortLobbies_eq [OF relatedD(2) [OF assms(1)]])
qed

section \<open>Opening a lobby\<close>

lemma forming_row:
  assumes "newFormingSession env uuid' pick c r t = Some s"
  shows "sr_id (sessionCreateData now s) = se_id s"
    "mergedSessionState [] (checkpointFromSession s) (sessionCreateData now s) = sessionCreateData now s"
  using assms by (auto simp: newFormingSession_def sessionCreateData_def mergedSessionState_def Let_def
      checkpointFromSession_def object_assign_def mergeCheckpointValues_def acceptsCheckpointState_def
      merge_by_key_def keyed_def om_values_def append_unique_def split: jsnum.splits)

lemma filter_foreign: "key ` set xs \<subseteq> ids \<Longrightarrow> k \<notin> ids \<Longrightarrow> filter (\<lambda>x. key x = k) xs = []"
  by (auto simp: filter_empty_conv)

lemma forming_read:
  assumes "newFormingSession env uuid' pick c r t = Some s" and "store_ok d"
    and "se_id s \<notin> sr_id ` set (db_sessions d)"
  shows "sessionFromRow d (sessionCreateData now s) = with_revision s"
proof -
  have "filter (\<lambda>p. pr_sessionId p = se_id s) (db_participants d) = []"
    "filter (\<lambda>x. mr_sessionId x = se_id s) (db_messages d) = []"
    "filter (\<lambda>x. kr_sessionId x = se_id s) (db_rankings d) = []"
    "filter (\<lambda>x. ir_sessionId x = se_id s) (db_interventions d) = []"
    "filter (\<lambda>x. wr_sessionId x = se_id s) (db_windows d) = []"
    using assms(2) by (auto simp: store_ok_def intro!: filter_foreign [OF _ assms(3)])
  with assms(1) show ?thesis
    by (auto simp: newFormingSession_def sessionFromRow_def sessionCreateData_def with_revision_def Let_def
        session_messages_def session_reactions_def session_rankings_def dedupeWindowEvaluations_def
        om_values_def iso_def split: jsnum.splits)
qed

lemma forming_checkpoint:
  assumes "newFormingSession env uuid' pick c r t = Some s"
  shows "se_participants s = []" "cp_messages (checkpointFromSession s) = []"
    "cp_reactionEvents (checkpointFromSession s) = []"
    "cp_redactedReactionEventIds (checkpointFromSession s) = []"
    "cp_rankingHistory (checkpointFromSession s) = []" "cp_interventions (checkpointFromSession s) = []"
    "cp_windowEvaluations (checkpointFromSession s) = []"
    "withoutRanking (checkpointFromSession s) = checkpointFromSession s"
  using assms by (auto simp: newFormingSession_def checkpointFromSession_def withoutRanking_def
      split: jsnum.splits)

lemma fresh_row: "sid \<notin> sr_id ` set (db_sessions d) \<Longrightarrow> session_row_of d sid = None"
  by (simp add: session_row_of_def find_None_iff) (metis image_eqI)

lemma replace_or_push_absent: "key y \<notin> key ` set xs \<Longrightarrow> replace_or_push key xs y = xs @ [y]"
  by (induction xs) auto

lemma snapshot_fresh:
  assumes forming: "newFormingSession env (se_id s) pick c r t = Some s" and ok: "store_ok d"
    and fresh: "se_id s \<notin> sr_id ` set (db_sessions d)"
  shows "persistSessionSnapshot uuid now s d = Inr (d\<lparr>db_sessions := db_sessions d @ [sessionCreateData now s]\<rparr>)"
proof -
  let ?row = "sessionCreateData now s" and ?cp = "checkpointFromSession s"
  let ?d = "d\<lparr>db_sessions := db_sessions d @ [?row]\<rparr>"
  note cp = forming_checkpoint [OF forming]
  have none: "session_row_of d (se_id s) = None" by (rule fresh_row [OF fresh])
  then have row: "session_row_of ?d (se_id s) = Some ?row"
    by (simp add: session_row_of_def find_snoc forming_row(1) [OF forming])
  have ranks: "session_rankings ?d (se_id s) = []"
    using filter_foreign [of kr_sessionId "db_rankings d", OF _ fresh] ok
    by (simp add: session_rankings_def store_ok_def)
  have "map (\<lambda>r. if sr_id r = se_id s then mergedSessionState [] ?cp r else r) (db_sessions d) = db_sessions d"
    using no_row [OF none] by (intro map_idI) simp
  then have keep: "update_session_row (se_id s) (mergedSessionState [] ?cp) ?d = ?d"
    by (simp add: update_session_row_def forming_row [OF forming])
  have "insertInterventions now (se_id s) [] ?d = ?d" "insertWindowEvaluations (se_id s) [] ?d = ?d"
    "appendRankingHistory (se_id s) [] ?d = ?d"
    by (simp_all add: insertInterventions_def insertWindowEvaluations_def appendRankingHistory_def
        append_unique_conv)
  with row ranks keep cp show ?thesis
    by (simp add: persistSessionSnapshot_def upsert_session_def none persistRuntimeCheckpoint_def
        insertMessages_def insertReactionEvents_def markReactionsRedacted_def)
qed

lemma sim_create:
  assumes "related m d" and "op_ok d (Op_Create s)"
  shows "fst (run_db uuid now (Op_Create s) d) = R_Unit \<and>
    related (mem_save s m) (snd (run_db uuid now (Op_Create s) d))"
proof -
  from assms(2) obtain env pick t
    where forming: "newFormingSession env (se_id s) pick (se_condition s) (se_roundId s) t = Some s"
      and fresh: "se_id s \<notin> sr_id ` set (db_sessions d)" by auto
  note ok = relatedD(2) [OF assms(1)]
  let ?row = "sessionCreateData now s"
  let ?d = "d\<lparr>db_sessions := db_sessions d @ [?row]\<rparr>"
  have same: "map with_revision (my_sessions m) = map (sessionFromRow d) (db_sessions d)"
    using assms(1) by (simp add: related_def same_store_def)
  have "mem_session (se_id s) m = None"
    using mem_session_load [OF relatedD(1) [OF assms(1)], of "se_id s"] fresh_row [OF fresh]
    by (simp add: load_session_def)
  then have "se_id s \<notin> se_id ` set (my_sessions m)" by (auto simp: mem_session_def find_None_iff)
  then have save: "mem_save s m = m\<lparr>my_sessions := my_sessions m @ [s]\<rparr>"
    by (simp add: mem_save_def replace_or_push_absent)
  have "same_store (m\<lparr>my_sessions := my_sessions m @ [s]\<rparr>) ?d"
    using assms(1) same forming_read [OF forming ok fresh]
    by (simp add: related_def same_store_def)
  moreover have "store_ok ?d"
    using ok fresh forming_row(1) [OF forming, of now] by (auto simp: store_ok_def)
  ultimately show ?thesis
    by (simp add: snapshot_fresh [OF forming ok fresh] try_reply_def save related_def)
qed

section \<open>Sequences of requests\<close>

fun runs_db :: "(nat \<Rightarrow> string) \<Rightarrow> (int \<times> store_op) list \<Rightarrow> db \<Rightarrow> reply list \<times> db" where
  "runs_db uuid [] d = ([], d)"
| "runs_db uuid ((now, q) # qs) d =
     (let r = run_db uuid now q d; rs = runs_db uuid qs (snd r) in (fst r # fst rs, snd rs))"

fun runs_memory :: "(int \<times> store_op) list \<Rightarrow> memory \<Rightarrow> reply list \<times> memory" where
  "runs_memory [] m = ([], m)"
| "runs_memory ((now, q) # qs) m =
     (let r = run_memory q m; rs = runs_memory qs (snd r) in (fst r # fst rs, snd rs))"

fun requests_ok :: "(nat \<Rightarrow> string) \<Rightarrow> (int \<times> store_op) list \<Rightarrow> db \<Rightarrow> bool" where
  "requests_ok uuid [] d = True"
| "requests_ok uuid ((now, q) # qs) d = (op_ok d q \<and> requests_ok uuid qs (snd (run_db uuid now q d)))"

lemma sim_op:
  assumes "related m d" and "op_ok d q"
  shows "fst (run_memory q m) = fst (run_db uuid now q d) \<and>
    related (snd (run_memory q m)) (snd (run_db uuid now q d))"
proof (cases q)
  case (Op_Create s)
  with sim_create [OF assms(1)] assms(2) show ?thesis by simp
next
  case (Op_Add sid p)
  with sim_add [OF assms(1)] assms(2) show ?thesis by (simp only: run_memory.simps run_db.simps)
next
  case (Op_Remove sid pid)
  with sim_remove [OF assms(1)] show ?thesis by (simp add: bool_reply_def)
next
  case (Op_Lifecycle sid p)
  with sim_lifecycle [OF assms(1)] assms(2) show ?thesis
    by (simp only: run_memory.simps run_db.simps op_ok.simps)
next
  case (Op_Claim sid)
  with sim_claim [OF assms(1)] show ?thesis by (simp add: bool_reply_def)
next
  case (Op_Finish sid room t)
  with sim_finish [OF assms(1)] assms(2) show ?thesis by (simp add: bool_reply_def)
next
  case (Op_Survey sid pid e v)
  with sim_survey [OF assms(1)] assms(2) show ?thesis by (simp add: bool_reply_def)
next
  case (Op_Feedback sid pid a)
  with sim_feedback [OF assms(1)] show ?thesis by (simp add: bool_reply_def)
next
  case (Op_Complete sid pid t)
  with sim_markCompleted [OF assms(1)] assms(2) show ?thesis by (simp add: bool_reply_def)
next
  case (Op_Abort st deadline)
  with sim_abort [OF assms(1)] assms(2) show ?thesis by (simp add: Let_def)
next
  case (Op_Creds pid c)
  with sim_creds [OF assms(1)] assms(2) show ?thesis
    by (simp only: run_memory.simps run_db.simps fst_conv snd_conv)
qed

text \<open>
  C16: The two back ends of the store are interchangeable: from related states, every sequence of
  requests is answered alike by the tables and by the in-memory map, and leaves them related, so
  that the sessions and credentials read afterwards agree.
\<close>

theorem store_refines_memory:
  assumes "related m d" and "requests_ok uuid qs d"
  shows "fst (runs_memory qs m) = fst (runs_db uuid qs d) \<and>
    related (snd (runs_memory qs m)) (snd (runs_db uuid qs d))"
  using assms
proof (induction qs arbitrary: m d)
  case (Cons nq qs)
  obtain now q where nq: "nq = (now, q)" by force
  with Cons.prems sim_op [of m d q uuid now]
  have "fst (run_memory q m) = fst (run_db uuid now q d)"
    and "related (snd (run_memory q m)) (snd (run_db uuid now q d))" by simp_all
  with Cons.IH Cons.prems(2) nq show ?case by (simp add: Let_def)
qed simp

definition empty_db :: db where
  "empty_db = \<lparr>db_sessions = [], db_participants = [], db_surveys = [], db_messages = [],
     db_reactions = [], db_rankings = [], db_interventions = [], db_windows = [], db_nextId = 0\<rparr>"

definition empty_memory :: memory where
  "empty_memory = \<lparr>my_sessions = [], my_creds = []\<rparr>"

lemma related_empty: "related empty_memory empty_db"
  by (simp add: related_def same_store_def store_ok_def empty_memory_def empty_db_def
      mem_getCreds_def getParticipantCreds_def)

definition sample_lobby :: session where
  "sample_lobby = the (newFormingSession None ''s1'' (\<lambda>i. i) sample_condition 1 0)"

definition sample_participant :: "string \<Rightarrow> participant" where
  "sample_participant pid =
     \<lparr>pt_id = pid, pt_name = ''P'', pt_trackingToken = ''token'' @ pid, pt_recruitmentSource = Rs_Direct,
      pt_prolific = None, pt_completedAt = None, pt_matrixUserId = None, pt_entrySurvey = None,
      pt_exitSurvey = None\<rparr>"

definition sample_requests :: "(int \<times> store_op) list" where
  "sample_requests =
     [(0, Op_Create sample_lobby), (1, Op_Add ''s1'' (sample_participant ''p1'')), (2, Op_Claim ''s1''),
      (3, Op_Finish ''s1'' ''!r:h'' (Stamp 3)), (4, Op_Abort [Waiting, Provisioning] (Some 5))]"

lemma sample_forming: "newFormingSession None ''s1'' (\<lambda>i. i) sample_condition 1 0 = Some sample_lobby"
  by (simp add: sample_lobby_def newFormingSession_def waitingTimeoutMinutes_def env_number_def)

lemma sample_requests_ok: "requests_ok sample_uuid sample_requests empty_db"
proof -
  have id: "se_id sample_lobby = ''s1''" "se_condition sample_lobby = sample_condition"
    "se_roundId sample_lobby = 1"
    using forming_session_fields [OF sample_forming] by simp_all
  have forming: "newFormingSession None (se_id sample_lobby) (\<lambda>i. i) (se_condition sample_lobby)
      (se_roundId sample_lobby) 0 = Some sample_lobby"
    using sample_forming by (simp add: id)
  let ?d = "empty_db\<lparr>db_sessions := [sessionCreateData 0 sample_lobby]\<rparr>"
  have opened: "run_db sample_uuid 0 (Op_Create sample_lobby) empty_db = (R_Unit, ?d)"
    using snapshot_fresh [OF forming, of empty_db sample_uuid 0] related_empty
    by (simp add: related_def try_reply_def) (simp add: empty_db_def)
  have "op_ok empty_db (Op_Create sample_lobby)" using forming by (auto simp: empty_db_def)
  moreover have "op_ok ?d (Op_Add ''s1'' (sample_participant ''p1''))"
    by (simp add: id forming_row(1) [OF sample_forming] empty_db_def participantFromRow_def
        participantCreateData_def sample_participant_def)
  ultimately show ?thesis
    by (simp add: sample_requests_def opened del: run_db.simps op_ok.simps(1,2)) (simp add: stamp_ok_def)
qed

theorem store_refines_memory_witness:
  "fst (runs_memory sample_requests empty_memory) = fst (runs_db sample_uuid sample_requests empty_db) \<and>
   related (snd (runs_memory sample_requests empty_memory)) (snd (runs_db sample_uuid sample_requests empty_db))"
  by (rule store_refines_memory [OF related_empty sample_requests_ok])

end
