(* ===== verification/Group_Ending.thy ===== *)
theory Group_Ending
  imports Study_Store Store_Refinement
begin

text \<open>
  How participations and groups end before their time, in
  session-manager/src/sessions/sessions.service.ts: the sweep of expired lobbies, a participant
  who leaves or stops answering, the dropout of a group that was being provisioned, and the start
  of a new round. Each call to the store is one function of the tables; a handler that works on a
  session it has read earlier takes that session as an argument, so that what others wrote in
  between is in the tables it runs on. Kicks out of a Matrix room are values; a failing one is
  only logged.

  The lemmas: ending a group ends every Prolific participation of it, a sweep leaves no expired
  lobby behind, a participant who withdraws frees the seat; and two races in which a handler acts
  on a status that is no longer the session's.
\<close>

section \<open>Operations\<close>

datatype service_error =
    Se_Not_Found string | Se_Conflict string | Se_Bad_Request string | Se_Database db_error

record kick =
  kk_roomId :: string
  kk_userId :: string
  kk_reason :: string

text \<open>What the handlers take from their surroundings.\<close>

record surroundings =
  en_uuid :: "nat \<Rightarrow> string"
  en_payment :: payment_env
  en_reconnectGraceSeconds :: nat

definition loaded :: "string \<Rightarrow> study \<Rightarrow> service_error + session" where
  "loaded sid st =
     (case getSession sid (sy_db st) of
        None \<Rightarrow> Inl (Se_Not_Found (''Unknown session '' @ sid)) | Some s \<Rightarrow> Inr s)"

text \<open>One turn of the loop over the participants of a group.\<close>

definition terminate_member ::
    "surroundings \<Rightarrow> int \<Rightarrow> outcome \<Rightarrow> string \<Rightarrow> stamp \<Rightarrow> pdb \<Rightarrow> participant \<Rightarrow> pdb" where
  "terminate_member env now oc reason createdAt d p =
     (case pt_prolific p of
        None \<Rightarrow> d
      | Some i \<Rightarrow>
          (case find_arrival i d of
             None \<Rightarrow>
               terminateProlificParticipation (en_uuid env) now i
                 (group_ending (en_payment env) now oc reason createdAt) d
           | Some r \<Rightarrow>
               if ar_outcome r \<noteq> None then d
               else terminateProlificParticipation (en_uuid env) now i
                 (group_ending (en_payment env) now oc reason (Stamp (ar_arrivedAt r))) d))"

definition terminateSessionParticipants ::
    "surroundings \<Rightarrow> int \<Rightarrow> string \<Rightarrow> outcome \<Rightarrow> string \<Rightarrow> study \<Rightarrow> service_error + study" where
  "terminateSessionParticipants env now sid oc reason st =
     and_then (loaded sid st) (\<lambda>s.
       Inr (st\<lparr>sy_pdb :=
         foldl (terminate_member env now oc reason (se_createdAt s)) (sy_pdb st) (se_participants s)\<rparr>))"

definition lobby_ending :: "aborted_lobby \<Rightarrow> outcome \<times> string" where
  "lobby_ending lobby =
     (if al_priorStatus lobby = Provisioning
      then (Oc_Technical_Failure, ''The complete group could not enter the chat because room '' @
              ''provisioning did not finish before the deadline.'')
      else (Oc_Unmatched, ''The required live group did not form before the waiting deadline.''))"

fun end_lobbies ::
    "surroundings \<Rightarrow> int \<Rightarrow> (aborted_lobby \<Rightarrow> outcome \<times> string) \<Rightarrow> aborted_lobby list \<Rightarrow> study
     \<Rightarrow> service_error option \<times> study" where
  "end_lobbies env now ending [] st = (None, st)"
| "end_lobbies env now ending (l # ls) st =
     (case terminateSessionParticipants env now (al_id l) (fst (ending l)) (snd (ending l)) st of
        Inl e \<Rightarrow> (Some e, st)
      | Inr st' \<Rightarrow> end_lobbies env now ending ls st')"

definition sweepExpiredWaitingRooms :: "surroundings \<Rightarrow> int \<Rightarrow> study \<Rightarrow> (service_error + nat) \<times> study" where
  "sweepExpiredWaitingRooms env now st =
     (let (expired, d) = abortExpiredWaitingSessions now (sy_db st); st1 = st\<lparr>sy_db := d\<rparr> in
      case end_lobbies env now lobby_ending expired st1 of
        (Some e, st2) \<Rightarrow> (Inl e, st2) | (None, st2) \<Rightarrow> (Inr (length expired), st2))"

text \<open>
  \<open>leaveSession\<close> decides on the session it is given. The result: whether an unstarted group was
  aborted, the kicks, and the tables.
\<close>

definition leaveSession ::
    "surroundings \<Rightarrow> int \<Rightarrow> session \<times> participant \<Rightarrow> string \<Rightarrow> study
     \<Rightarrow> service_error + (bool \<times> kick list \<times> study)" where
  "leaveSession env now existing dropoutReason st =
     (let (s, p) = existing in
      case se_status s of
        Waiting \<Rightarrow>
          Inr (False, [], st\<lparr>sy_db :=
            snd (removeParticipantFromWaitingSession (se_id s) (pt_id p) (sy_db st))\<rparr>)
      | Running \<Rightarrow>
          Inr (False,
            (if truthy (se_roomId s) \<and> truthy (pt_matrixUserId p)
             then [\<lparr>kk_roomId = the (se_roomId s), kk_userId = the (pt_matrixUserId p),
                    kk_reason = ''Your participation in this study has ended.''\<rparr>] else []), st)
      | Provisioning \<Rightarrow>
          (case updateSessionLifecycle now (se_id s)
              \<lparr>lp_status = Some Aborted, lp_roomId = None, lp_startedAt = None, lp_completedAt = None\<rparr>
              (sy_db st) of
             Inl e \<Rightarrow> Inl (Se_Database e)
           | Inr d \<Rightarrow>
               and_then (terminateSessionParticipants env now (se_id s) Oc_Participant_Dropout
                   dropoutReason (st\<lparr>sy_db := d\<rparr>))
                 (\<lambda>st'. Inr (True, [], st')))
      | _ \<Rightarrow> Inr (False, [], st))"

text \<open>The service's lookup: a submission of another participant is refused.\<close>

definition findByProlificIdentity ::
    "prolific_identity \<Rightarrow> study \<Rightarrow> service_error + (session \<times> participant) option" where
  "findByProlificIdentity i st =
     (let existing = findByProlificSession i (sy_db st) in
      case existing of
        None \<Rightarrow> Inr None
      | Some (s, p) \<Rightarrow>
          if map_option pi_participantId (pt_prolific p) \<noteq> Some (pi_participantId i)
          then Inl (Se_Conflict ''This Prolific submission belongs to a different participant'')
          else Inr existing)"

text \<open>
  The part of \<open>terminateParticipation\<close> inside the matchmaking queue, after the identity has been
  validated. The store hands back the recorded outcome.
\<close>

definition terminateParticipation ::
    "surroundings \<Rightarrow> int \<Rightarrow> prolific_identity \<Rightarrow> self_outcome \<Rightarrow> string \<Rightarrow> study
     \<Rightarrow> (service_error + outcome_response option) \<times> study" where
  "terminateParticipation env now i oc reason st =
     (let st1 = st\<lparr>sy_pdb := recordProlificArrival (en_uuid env) now i (sy_pdb st)\<rparr> in
      case findByProlificIdentity i st1 of
        Inl e \<Rightarrow> (Inl e, st1)
      | Inr existing \<Rightarrow>
          (let stage = (case find_arrival i (sy_pdb st1) of None \<Rightarrow> St_Arrived | Some a \<Rightarrow> ar_stage a);
               st2 = st1\<lparr>sy_pdb := terminateProlificParticipation (en_uuid env) now i
                 (self_ending oc reason stage) (sy_pdb st1)\<rparr>;
               response = (\<lambda>st. Inr (map_option (\<lambda>r. toOutcomeResponse r (getStudySettings st))
                 (getParticipationOutcome i (sy_pdb st2))))
           in case existing of
                None \<Rightarrow> (response st2, st2)
              | Some seat \<Rightarrow>
                  (case leaveSession env now seat
                      ''The live group could not continue after a participant left.'' st2 of
                     Inl e \<Rightarrow> (Inl e, st2)
                   | Inr (aborted, kicks, st3) \<Rightarrow> (response st3, st3))))"

text \<open>One stale arrival of the sweep: the claimed record, the kicks and the tables.\<close>

definition dropout_kicks :: "session \<Rightarrow> kick list" where
  "dropout_kicks s =
     (if truthy (se_roomId s)
      then concat (map (\<lambda>p. if truthy (pt_matrixUserId p)
        then [\<lparr>kk_roomId = the (se_roomId s), kk_userId = the (pt_matrixUserId p),
               kk_reason = ''The study group ended after a participant disconnected.''\<rparr>] else [])
        (se_participants s))
      else [])"

definition sweep_arrival ::
    "surroundings \<Rightarrow> int \<Rightarrow> int \<Rightarrow> prolific_arrival \<Rightarrow> study
     \<Rightarrow> (service_error + (outcome_record option \<times> kick list)) \<times> study" where
  "sweep_arrival env now cutoff arrival st =
     (let i = pa_identity arrival;
          (d, claimed) = terminateStaleProlificParticipation now cutoff i
            (disconnect_ending (en_payment env) (en_reconnectGraceSeconds env) now arrival) (sy_pdb st);
          st1 = st\<lparr>sy_pdb := d\<rparr>
      in if \<not> claimed then (Inr (None, []), st1)
         else case findByProlificIdentity i st1 of
           Inl e \<Rightarrow> (Inl e, st1)
         | Inr None \<Rightarrow> (Inr (getParticipationOutcome i d, []), st1)
         | Inr (Some seat) \<Rightarrow>
             (case leaveSession env now seat
                 ''The live group could not continue after a participant disconnected.'' st1 of
                Inl e \<Rightarrow> (Inl e, st1)
              | Inr (aborted, kicks, st2) \<Rightarrow>
                  (Inr (getParticipationOutcome i d,
                     kicks @ (if aborted then dropout_kicks (fst seat) else [])), st2)))"

fun sweep_arrivals ::
    "surroundings \<Rightarrow> int \<Rightarrow> int \<Rightarrow> prolific_arrival list \<Rightarrow> study
     \<Rightarrow> (service_error + (outcome_record list \<times> kick list)) \<times> study" where
  "sweep_arrivals env now cutoff [] st = (Inr ([], []), st)"
| "sweep_arrivals env now cutoff (a # as) st =
     (case sweep_arrival env now cutoff a st of
        (Inl e, st1) \<Rightarrow> (Inl e, st1)
      | (Inr (record, kicks), st1) \<Rightarrow>
          (case sweep_arrivals env now cutoff as st1 of
             (Inl e, st2) \<Rightarrow> (Inl e, st2)
           | (Inr (records, kicks'), st2) \<Rightarrow>
               (Inr ((case record of None \<Rightarrow> [] | Some r \<Rightarrow> [r]) @ records, kicks @ kicks'), st2)))"

definition sweepDisconnectedParticipants ::
    "surroundings \<Rightarrow> int \<Rightarrow> study \<Rightarrow> (service_error + (outcome_record list \<times> kick list)) \<times> study" where
  "sweepDisconnectedParticipants env now st =
     (let cutoff = now - int (en_reconnectGraceSeconds env) * 1000 in
      sweep_arrivals env now cutoff (listStaleProlificArrivals cutoff 100 (sy_pdb st)) st)"

text \<open>The timer's sweep: a failure of either half ends it.\<close>

definition runLifecycleSweep :: "surroundings \<Rightarrow> int \<Rightarrow> study \<Rightarrow> study" where
  "runLifecycleSweep env now st =
     (case sweepExpiredWaitingRooms env now st of
        (Inl e, st1) \<Rightarrow> st1 | (Inr n, st1) \<Rightarrow> snd (sweepDisconnectedParticipants env now st1))"

definition doStartRound ::
    "surroundings \<Rightarrow> int \<Rightarrow> string \<Rightarrow> study \<Rightarrow> (service_error + (round_state \<times> nat)) \<times> study" where
  "doStartRound env now label st =
     (let (waiting, d) = abortWaitingSessions (sy_db st); st1 = st\<lparr>sy_db := d\<rparr> in
      case end_lobbies env now
          (\<lambda>_. (Oc_Group_Aborted, ''The waiting lobby closed when the researcher started a new round.''))
          waiting st1 of
        (Some e, st2) \<Rightarrow> (Inl e, st2)
      | (None, st2) \<Rightarrow>
          (let (started, rounds) = startNewRound now label (sy_rounds st2); st3 = st2\<lparr>sy_rounds := rounds\<rparr>
           in case started of
                Inl e \<Rightarrow> (Inl (Se_Database e), st3) | Inr r \<Rightarrow> (Inr (r, length waiting), st3)))"

section \<open>Lemmas: ending participations\<close>

definition ended :: "prolific_identity \<Rightarrow> pdb \<Rightarrow> bool" where
  "ended i d = (case find_arrival i d of None \<Rightarrow> False | Some r \<Rightarrow> ar_outcome r \<noteq> None)"

text \<open>
  Of the participations with these keys, the open ones end with one of the outcomes and a partial
  payment; every other one stays as it was.
\<close>

definition closed_with ::
    "(nat \<Rightarrow> string) \<Rightarrow> outcome set \<Rightarrow> (string \<times> string) set \<Rightarrow> pdb \<Rightarrow> pdb \<Rightarrow> bool" where
  "closed_with uuid ocs keys d d' =
     (pdb_wf uuid d' \<and>
      (\<forall>i. key_of i \<in> keys \<longrightarrow> \<not> ended i d \<longrightarrow>
         (\<exists>r. find_arrival i d' = Some r \<and> ar_outcome r \<in> Some ` ocs \<and>
            ar_compensationKind r = Some Ck_Partial)) \<and>
      (\<forall>i. key_of i \<notin> keys \<or> ended i d \<longrightarrow> find_arrival i d' = find_arrival i d))"

lemma closed_with_refl: "pdb_wf uuid d \<Longrightarrow> closed_with uuid ocs {} d d"
  by (simp add: closed_with_def)

lemma closed_with_ended: "closed_with uuid ocs keys d d' \<Longrightarrow> key_of i \<in> keys \<or> ended i d \<Longrightarrow> ended i d'"
proof -
  assume c: "closed_with uuid ocs keys d d'" and i: "key_of i \<in> keys \<or> ended i d"
  show "ended i d'"
  proof (cases "ended i d")
    case True
    with c have "find_arrival i d' = find_arrival i d" by (simp add: closed_with_def)
    with True show ?thesis by (simp add: ended_def)
  next
    case False
    with c i obtain r where "find_arrival i d' = Some r" "ar_outcome r \<in> Some ` ocs"
      by (auto simp: closed_with_def)
    then show ?thesis by (auto simp: ended_def)
  qed
qed

lemma closed_with_trans:
  assumes one: "closed_with uuid ocs k1 d d1" and two: "closed_with uuid ocs k2 d1 d2"
  shows "closed_with uuid ocs (k1 \<union> k2) d d2"
  unfolding closed_with_def
proof (intro conjI allI impI)
  show "pdb_wf uuid d2" using two by (simp add: closed_with_def)
next
  fix i
  assume i: "key_of i \<in> k1 \<union> k2" "\<not> ended i d"
  show "\<exists>r. find_arrival i d2 = Some r \<and> ar_outcome r \<in> Some ` ocs \<and> ar_compensationKind r = Some Ck_Partial"
  proof (cases "key_of i \<in> k1")
    case True
    then have "ended i d1" using closed_with_ended [OF one] by blast
    with two have "find_arrival i d2 = find_arrival i d1" by (simp add: closed_with_def)
    with one True i(2) show ?thesis by (auto simp: closed_with_def)
  next
    case False
    with one have "find_arrival i d1 = find_arrival i d" by (simp add: closed_with_def)
    with i(2) have "\<not> ended i d1" by (simp add: ended_def)
    with two False i(1) show ?thesis by (auto simp: closed_with_def)
  qed
next
  fix i
  assume i: "key_of i \<notin> k1 \<union> k2 \<or> ended i d"
  then have same: "find_arrival i d1 = find_arrival i d" using one by (auto simp: closed_with_def)
  then have "ended i d1 = ended i d" by (simp add: ended_def)
  with i two same show "find_arrival i d2 = find_arrival i d" by (auto simp: closed_with_def)
qed

lemma find_arrival_key: "key_of i = key_of j \<Longrightarrow> find_arrival i d = find_arrival j d"
  by (simp add: find_arrival_def)

lemma find_arrival_update:
  "(\<And>r. ar_identity (f r) = ar_identity r) \<Longrightarrow>
     find_arrival i (update_arrivals p f d) = map_option (\<lambda>r. if p r then f r else r) (find_arrival i d)"
proof -
  assume f: "\<And>r. ar_identity (f r) = ar_identity r"
  have "((\<lambda>r. key_of (ar_identity r) = key_of i) \<circ> (\<lambda>r. if p r then f r else r)) =
      (\<lambda>r. key_of (ar_identity r) = key_of i)" by (rule ext) (simp add: f)
  then show ?thesis by (simp add: find_arrival_def find_map)
qed

lemma find_arrival_upsert [simp]: "find_arrival i (upsert_compensation c u d) = find_arrival i d"
  by (simp add: upsert_compensation_def find_arrival_def)

lemma find_arrival_events [simp]: "find_arrival i (d\<lparr>pd_events := e\<rparr>) = find_arrival i d"
  by (simp add: find_arrival_def)

lemma find_arrival_terminate:
  "find_arrival i (terminate_row now t r d) =
     map_option (\<lambda>x. if ar_id x = ar_id r then terminationData now t x else x) (find_arrival i d)"
  by (simp add: terminate_row_def Let_def find_arrival_update terminationData_def)

lemma new_arrival_identity: "ar_identity (new_arrival aid now i) = i"
  by (simp add: new_arrival_def)

lemma find_arrival_record:
  "find_arrival j (recordProlificArrival uuid now i d) =
     (if key_of j = key_of i \<and> find_arrival i d = None then Some (new_arrival (uuid (pd_nextId d)) now i)
      else find_arrival j d)"
proof (cases "find_arrival i d")
  case None
  then have "find_arrival j (recordProlificArrival uuid now i d) =
      (case find_arrival j d of None \<Rightarrow>
         if key_of i = key_of j then Some (new_arrival (uuid (pd_nextId d)) now i) else None
       | Some r \<Rightarrow> Some r)"
    by (simp add: recordProlificArrival_def find_arrival_def find_snoc new_arrival_identity)
  moreover have "key_of j = key_of i \<Longrightarrow> find_arrival j d = None"
    using None find_arrival_key [of j i d] by simp
  ultimately show ?thesis using None by (auto split: option.splits)
qed (simp add: recordProlificArrival_def)

text \<open>One request ends one open participation and leaves every other alone.\<close>

lemma terminate_effect:
  assumes wf: "pdb_wf uuid d" and new: "\<not> ended i d"
  shows "let d' = terminateProlificParticipation uuid now i t d in
    pdb_wf uuid d' \<and>
    (\<exists>r. find_arrival i d' = Some r \<and> ar_outcome r = Some (tm_outcome t) \<and>
      ar_compensationKind r = Some (tm_compensationKind t)) \<and>
    (\<forall>j. key_of j \<noteq> key_of i \<longrightarrow> find_arrival j d' = find_arrival j d)"
proof -
  let ?d1 = "recordProlificArrival uuid now i d"
  obtain r where r: "find_arrival i ?d1 = Some r" "ar_outcome r = None"
    using new by (auto simp: find_arrival_record ended_def new_arrival_def split: option.splits)
  have wf1: "pdb_wf uuid ?d1" using record_good [OF wf] by simp
  have d': "terminateProlificParticipation uuid now i t d = terminate_row now t r ?d1"
    by (simp add: terminateProlificParticipation_def terminate_tx_def Let_def r)
  have "find_arrival j (terminate_row now t r ?d1) = find_arrival j d" if "key_of j \<noteq> key_of i" for j
  proof -
    have same: "find_arrival j ?d1 = find_arrival j d" using that by (simp add: find_arrival_record)
    have "ar_id x \<noteq> ar_id r" if x: "find_arrival j ?d1 = Some x" for x
    proof
      assume "ar_id x = ar_id r"
      with wf1 find_arrival_Some [OF x] find_arrival_Some [OF r(1)] have "x = r"
        by (auto simp: pdb_wf_def intro: rows_other)
      with find_arrival_Some [OF x] find_arrival_Some [OF r(1)] \<open>key_of j \<noteq> key_of i\<close> show False by simp
    qed
    then show ?thesis unfolding find_arrival_terminate same
      using same by (cases "find_arrival j d") auto
  qed
  moreover have "pdb_wf uuid (terminate_row now t r ?d1)"
    using terminate_row_good [OF wf1 _ r(2)] find_arrival_Some [OF r(1)] by simp
  moreover have "find_arrival i (terminate_row now t r ?d1) = Some (terminationData now t r)"
    by (simp add: find_arrival_terminate r)
  ultimately show ?thesis by (simp add: d' Let_def terminationData_def)
qed

definition member_keys :: "participant list \<Rightarrow> (string \<times> string) set" where
  "member_keys ps = {key_of i |i p. p \<in> set ps \<and> pt_prolific p = Some i}"

lemma terminate_member_closes:
  assumes "pdb_wf (en_uuid env) d"
  shows "closed_with (en_uuid env) {oc} (member_keys [p]) d (terminate_member env now oc reason createdAt d p)"
proof (cases "pt_prolific p")
  case None
  then show ?thesis using closed_with_refl [OF assms] by (simp add: terminate_member_def member_keys_def)
next
  case (Some i)
  then have keys: "member_keys [p] = {key_of i}" by (auto simp: member_keys_def)
  show ?thesis
  proof (cases "ended i d")
    case True
    then have "terminate_member env now oc reason createdAt d p = d"
      by (auto simp: terminate_member_def Some ended_def split: option.splits)
    moreover have "key_of j = key_of i \<Longrightarrow> ended j d" for j
      using True find_arrival_key [of j i d] by (simp add: ended_def)
    ultimately show ?thesis using assms by (auto simp: closed_with_def keys)
  next
    case False
    then obtain start where "terminate_member env now oc reason createdAt d p =
        terminateProlificParticipation (en_uuid env) now i (group_ending (en_payment env) now oc reason start) d"
      by (auto simp: terminate_member_def Some ended_def split: option.splits)
    with terminate_effect [OF assms False, of now "group_ending (en_payment env) now oc reason start"]
    obtain r where r: "pdb_wf (en_uuid env) (terminate_member env now oc reason createdAt d p)"
      "find_arrival i (terminate_member env now oc reason createdAt d p) = Some r"
      "ar_outcome r = Some oc" "ar_compensationKind r = Some Ck_Partial"
      "key_of j \<noteq> key_of i \<Longrightarrow> find_arrival j (terminate_member env now oc reason createdAt d p) = find_arrival j d" for j
      by (auto simp: Let_def group_ending_def)
    have "find_arrival j (terminate_member env now oc reason createdAt d p) = Some r" if "key_of j = key_of i" for j
      using find_arrival_key [OF that] r(2) by metis
    moreover have "ended j d = ended i d" if "key_of j = key_of i" for j
      using find_arrival_key [OF that] by (simp add: ended_def)
    ultimately show ?thesis using r False unfolding closed_with_def keys by auto
  qed
qed

lemma terminate_members_close:
  assumes "pdb_wf (en_uuid env) d"
  shows "closed_with (en_uuid env) {oc} (member_keys ps) d
    (foldl (terminate_member env now oc reason createdAt) d ps)"
  using assms
proof (induction ps arbitrary: d)
  case (Cons p ps)
  let ?d = "terminate_member env now oc reason createdAt d p"
  have one: "closed_with (en_uuid env) {oc} (member_keys [p]) d ?d"
    by (rule terminate_member_closes [OF Cons.prems])
  then have "pdb_wf (en_uuid env) ?d" by (simp add: closed_with_def)
  from closed_with_trans [OF one Cons.IH [OF this]]
  have "closed_with (en_uuid env) {oc} (member_keys [p] \<union> member_keys ps) d
      (foldl (terminate_member env now oc reason createdAt) ?d ps)" .
  moreover have "member_keys [p] \<union> member_keys ps = member_keys (p # ps)"
    by (auto simp: member_keys_def)
  ultimately show ?case by simp
qed (simp add: closed_with_def member_keys_def)

section \<open>Ending groups\<close>

definition lobby_members :: "db \<Rightarrow> string \<Rightarrow> participant list" where
  "lobby_members d sid = (case getSession sid d of None \<Rightarrow> [] | Some s \<Rightarrow> se_participants s)"

lemma lobby_members_update:
  assumes "\<And>r. sr_id (f r) = sr_id r"
  shows "lobby_members (update_session_row sid f d) k = lobby_members d k"
proof -
  let ?g = "\<lambda>r. if sr_id r = sid then f r else r"
  have "session_row_of (update_session_row sid f d) k = map_option ?g (session_row_of d k)"
    using assms by (simp add: session_row_of_def update_session_row_def find_map comp_def if_distrib [of sr_id] cong: if_cong)
  then show ?thesis
    using assms by (simp add: lobby_members_def getSession_def load_session_def session_participants
        split: option.split)
qed

lemma terminate_session_closes:
  assumes "pdb_wf (en_uuid env) (sy_pdb st)" and "getSession sid (sy_db st) = Some s"
  shows "\<exists>d'. terminateSessionParticipants env now sid oc reason st = Inr (st\<lparr>sy_pdb := d'\<rparr>) \<and>
    closed_with (en_uuid env) {oc} (member_keys (lobby_members (sy_db st) sid)) (sy_pdb st) d'"
  using terminate_members_close [OF assms(1)] assms(2)
  by (simp add: terminateSessionParticipants_def loaded_def lobby_members_def) blast

lemma closed_with_mono: "closed_with uuid ocs keys d d' \<Longrightarrow> ocs \<subseteq> ocs' \<Longrightarrow> closed_with uuid ocs' keys d d'"
  unfolding closed_with_def by (meson image_mono subsetD)

lemma end_lobbies_close:
  assumes "pdb_wf (en_uuid env) (sy_pdb st)" and "\<forall>l\<in>set ls. getSession (al_id l) (sy_db st) \<noteq> None"
    and "\<forall>l\<in>set ls. fst (ending l) \<in> ocs"
  shows "\<exists>d'. end_lobbies env now ending ls st = (None, st\<lparr>sy_pdb := d'\<rparr>) \<and>
    closed_with (en_uuid env) ocs (\<Union>l\<in>set ls. member_keys (lobby_members (sy_db st) (al_id l))) (sy_pdb st) d'"
  using assms
proof (induction ls arbitrary: st)
  case Nil
  then show ?case using closed_with_refl by (intro exI [of _ "sy_pdb st"]) simp
next
  case (Cons l ls)
  let ?k = "\<lambda>l. member_keys (lobby_members (sy_db st) (al_id l))"
  obtain s where "getSession (al_id l) (sy_db st) = Some s" using Cons.prems(2) by auto
  from terminate_session_closes [OF Cons.prems(1) this] obtain d1 where
    d1: "terminateSessionParticipants env now (al_id l) (fst (ending l)) (snd (ending l)) st = Inr (st\<lparr>sy_pdb := d1\<rparr>)"
      "closed_with (en_uuid env) {fst (ending l)} (?k l) (sy_pdb st) d1" by blast
  then have one: "closed_with (en_uuid env) ocs (?k l) (sy_pdb st) d1"
    using Cons.prems(3) by (intro closed_with_mono [OF d1(2)]) simp
  then have "pdb_wf (en_uuid env) d1" by (simp add: closed_with_def)
  with Cons.IH [of "st\<lparr>sy_pdb := d1\<rparr>"] Cons.prems obtain d2 where
    d2: "end_lobbies env now ending ls (st\<lparr>sy_pdb := d1\<rparr>) = (None, st\<lparr>sy_pdb := d2\<rparr>)"
      "closed_with (en_uuid env) ocs (\<Union>l\<in>set ls. ?k l) d1 d2" by auto
  from closed_with_trans [OF one d2(2)] d1(1) d2(1) show ?case by (intro exI [of _ d2]) simp
qed

text \<open>Aborting lobbies changes no member.\<close>

lemma abort_members:
  assumes "store_ok d"
  shows "lobby_members (snd (abortLobbies statuses deadline d)) sid = lobby_members d sid"
    and "getSession sid (snd (abortLobbies statuses deadline d)) = None \<longleftrightarrow> sid \<notin> sr_id ` set (db_sessions d)"
proof -
  let ?f = "abort_row statuses deadline"
  have find: "session_row_of (d\<lparr>db_sessions := map ?f (db_sessions d)\<rparr>) sid = map_option ?f (session_row_of d sid)"
    by (simp add: session_row_of_def find_map comp_def)
  have "se_participants (sessionFromRow d (?f r)) = se_participants (sessionFromRow d r)" for r
    by (simp add: session_participants)
  with find show "lobby_members (snd (abortLobbies statuses deadline d)) sid = lobby_members d sid"
    by (simp add: abortLobbies_eq [OF assms] lobby_members_def getSession_def load_session_def
        split: option.split)
  have "session_row_of d sid = None \<longleftrightarrow> sid \<notin> sr_id ` set (db_sessions d)"
    by (auto simp: session_row_of_def find_None_iff)
  with find show "getSession sid (snd (abortLobbies statuses deadline d)) = None \<longleftrightarrow> sid \<notin> sr_id ` set (db_sessions d)"
    by (simp add: abortLobbies_eq [OF assms] getSession_def load_session_def)
qed

text \<open>A sweep of lobbies, whatever ends them: the rows are aborted and the members ended.\<close>

lemma aborted_lobbies_close:
  assumes "store_ok (sy_db st)" and "pdb_wf (en_uuid env) (sy_pdb st)"
    and "abortLobbies statuses deadline (sy_db st) = (lobbies, d)"
    and "\<forall>l\<in>set lobbies. fst (ending l) \<in> ocs"
  shows "\<exists>p. end_lobbies env now ending lobbies (st\<lparr>sy_db := d\<rparr>) = (None, st\<lparr>sy_db := d, sy_pdb := p\<rparr>) \<and>
    closed_with (en_uuid env) ocs
      (\<Union>r\<in>{r \<in> set (db_sessions (sy_db st)). lobby_matches statuses deadline r}.
         member_keys (lobby_members (sy_db st) (sr_id r))) (sy_pdb st) p"
proof -
  have d: "d = snd (abortLobbies statuses deadline (sy_db st))"
    and lobbies: "lobbies = map (lobby_of (sy_db st)) (filter (lobby_matches statuses deadline) (db_sessions (sy_db st)))"
    using assms(3) abortLobbies_eq [OF assms(1), of statuses deadline] by auto
  have "\<forall>l\<in>set lobbies. getSession (al_id l) d \<noteq> None"
    using abort_members(2) [OF assms(1)] by (auto simp: d lobbies lobby_of_def)
  moreover have "(\<Union>l\<in>set lobbies. member_keys (lobby_members d (al_id l))) =
      (\<Union>r\<in>{r \<in> set (db_sessions (sy_db st)). lobby_matches statuses deadline r}.
         member_keys (lobby_members (sy_db st) (sr_id r)))"
    by (simp add: d abort_members(1) [OF assms(1)] lobbies lobby_of_def)
  ultimately show ?thesis
    using end_lobbies_close [of env "st\<lparr>sy_db := d\<rparr>" lobbies ending ocs now] assms(2,4) by simp
qed

abbreviation expired :: "int \<Rightarrow> session_row \<Rightarrow> bool" where
  "expired now \<equiv> lobby_matches [Waiting, Provisioning] (Some now)"

text \<open>
  C6: A sweep leaves no expired lobby behind: exactly the lobbies that wait or are being provisioned
  past their deadline are aborted, and of their members every open Prolific participation ends as
  unmatched or as a technical failure with a partial payment, while every other participation stays
  as it was.
\<close>

theorem expired_lobbies_are_closed:
  assumes "store_ok (sy_db st)" and "pdb_wf (en_uuid env) (sy_pdb st)"
  shows "\<exists>st'. sweepExpiredWaitingRooms env now st =
      (Inr (length (filter (expired now) (db_sessions (sy_db st)))), st') \<and>
    db_sessions (sy_db st') =
      map (\<lambda>r. if expired now r then set_status Aborted r else r) (db_sessions (sy_db st)) \<and>
    (\<forall>r\<in>set (db_sessions (sy_db st')). \<not> expired now r) \<and>
    closed_with (en_uuid env) {Oc_Unmatched, Oc_Technical_Failure}
      (\<Union>r\<in>{r \<in> set (db_sessions (sy_db st)). expired now r}.
         member_keys (lobby_members (sy_db st) (sr_id r))) (sy_pdb st) (sy_pdb st')"
proof -
  obtain lobbies d where a: "abortLobbies [Waiting, Provisioning] (Some now) (sy_db st) = (lobbies, d)"
    by fastforce
  have "\<forall>l\<in>set lobbies. fst (lobby_ending l) \<in> {Oc_Unmatched, Oc_Technical_Failure}"
    by (simp add: lobby_ending_def)
  from aborted_lobbies_close [OF assms a this] obtain p where
    p: "end_lobbies env now lobby_ending lobbies (st\<lparr>sy_db := d\<rparr>) = (None, st\<lparr>sy_db := d, sy_pdb := p\<rparr>)"
      "closed_with (en_uuid env) {Oc_Unmatched, Oc_Technical_Failure}
        (\<Union>r\<in>{r \<in> set (db_sessions (sy_db st)). expired now r}.
           member_keys (lobby_members (sy_db st) (sr_id r))) (sy_pdb st) p"
    by blast
  have "sweepExpiredWaitingRooms env now st = (Inr (length lobbies), st\<lparr>sy_db := d, sy_pdb := p\<rparr>)"
    by (simp add: sweepExpiredWaitingRooms_def abortExpiredWaitingSessions_def a p)
  moreover have "length lobbies = length (filter (expired now) (db_sessions (sy_db st)))"
    and rows: "db_sessions d = map (\<lambda>r. if expired now r then set_status Aborted r else r) (db_sessions (sy_db st))"
    using a abortLobbies_eq [OF assms(1), of "[Waiting, Provisioning]" "Some now"]
    by (auto simp: abort_row_def)
  moreover have "\<not> expired now (set_status Aborted r)" for r
    by (simp add: lobby_matches_def set_status_def)
  ultimately show ?thesis using p(2) by (auto simp: rows)
qed

text \<open>
  A new round starts clean: no lobby is left waiting, the members of every waiting lobby end as
  part of an aborted group with a partial payment, no other session and no other participation is
  touched, and the new round is the open one, numbered next.
\<close>

theorem new_round_starts_clean:
  assumes "store_ok (sy_db st)" and "pdb_wf (en_uuid env) (sy_pdb st)" and "rounds_ok (sy_rounds st)"
  shows "\<exists>r n st'. doStartRound env now label st = (Inr (r, n), st') \<and>
    n = length (filter (\<lambda>r. sr_status r = Waiting) (db_sessions (sy_db st))) \<and>
    db_sessions (sy_db st') =
      map (\<lambda>r. if sr_status r = Waiting then set_status Aborted r else r) (db_sessions (sy_db st)) \<and>
    closed_with (en_uuid env) {Oc_Group_Aborted}
      (\<Union>r\<in>{r \<in> set (db_sessions (sy_db st)). sr_status r = Waiting}.
         member_keys (lobby_members (sy_db st) (sr_id r))) (sy_pdb st) (sy_pdb st') \<and>
    rounds_ok (sy_rounds st') \<and> ro_id r = int (length (sy_rounds st')) \<and> ro_endedAt r = None"
proof -
  let ?e = "\<lambda>l :: aborted_lobby. (Oc_Group_Aborted, ''The waiting lobby closed when the researcher started a new round.'')"
  have match: "lobby_matches [Waiting] None = (\<lambda>r. sr_status r = Waiting)"
    by (simp add: lobby_matches_def fun_eq_iff)
  obtain lobbies d where a: "abortLobbies [Waiting] None (sy_db st) = (lobbies, d)" by fastforce
  have "\<forall>l\<in>set lobbies. fst (?e l) \<in> {Oc_Group_Aborted}" by simp
  from aborted_lobbies_close [OF assms(1,2) a this] obtain p where
    p: "end_lobbies env now ?e lobbies (st\<lparr>sy_db := d\<rparr>) = (None, st\<lparr>sy_db := d, sy_pdb := p\<rparr>)"
      "closed_with (en_uuid env) {Oc_Group_Aborted}
        (\<Union>r\<in>{r \<in> set (db_sessions (sy_db st)). sr_status r = Waiting}.
           member_keys (lobby_members (sy_db st) (sr_id r))) (sy_pdb st) p"
    by (auto simp: match)
  obtain r rounds where r: "startNewRound now label (sy_rounds st) = (Inr r, rounds)" "rounds_ok rounds"
    "ro_id r = int (length rounds)" "ro_endedAt r = None"
    using startNewRound_ok [OF assms(3)] by blast
  have "doStartRound env now label st =
      (Inr (r, length lobbies), st\<lparr>sy_db := d, sy_pdb := p, sy_rounds := rounds\<rparr>)"
    by (simp add: doStartRound_def abortWaitingSessions_def a p r(1) Let_def)
  moreover have "length lobbies = length (filter (\<lambda>r. sr_status r = Waiting) (db_sessions (sy_db st)))"
    "db_sessions d = map (\<lambda>r. if sr_status r = Waiting then set_status Aborted r else r) (db_sessions (sy_db st))"
    using a abortLobbies_eq [OF assms(1), of "[Waiting]" None] by (auto simp: abort_row_def match)
  ultimately show ?thesis using p(2) r by simp
qed

section \<open>Leaving\<close>

lemma claim_waiting:
  assumes "session_row_of d sid = Some row" and "sr_status row = Waiting"
  shows "claimSessionProvisioning sid d =
    (True, update_session_row sid (\<lambda>r. if sr_status r = Waiting then set_status Provisioning r else r) d)"
proof -
  have "row \<in> set (db_sessions d)" "sr_id row = sid"
    using assms(1) by (auto simp: session_row_of_def find_Some_iff)
  with assms(2) have "filter (\<lambda>r. sr_id r = sid \<and> sr_status r = Waiting) (db_sessions d) \<noteq> []"
    by (auto simp: filter_empty_conv)
  then show ?thesis by (simp add: claimSessionProvisioning_def update_if_def)
qed

lemma status_after_update:
  assumes "session_row_of d sid = Some row" and "\<And>r. sr_id (f r) = sr_id r"
  shows "session_row_of (update_session_row sid f d) sid = Some (f row)"
  using session_row_of_update [OF assms(2), of sid d] assms(1) by simp

text \<open>
  A withdrawal that has read the group as waiting does not take the participant out of it when
  the group is claimed for provisioning in between: the seat is not freed, nobody is kicked, and
  the group goes on being provisioned with a member whose participation has ended.
\<close>

theorem claimed_group_keeps_leaver:
  assumes "session_row_of (sy_db st) (se_id s) = Some row" and "sr_status row = Waiting"
    and "se_status s = Waiting"
  shows "let claimed = st\<lparr>sy_db := snd (claimSessionProvisioning (se_id s) (sy_db st))\<rparr> in
    leaveSession env now (s, p) reason claimed = Inr (False, [], claimed) \<and>
    db_participants (sy_db claimed) = db_participants (sy_db st) \<and>
    map_option sr_status (session_row_of (sy_db claimed) (se_id s)) = Some Provisioning"
proof -
  let ?f = "\<lambda>r. if sr_status r = Waiting then set_status Provisioning r else r"
  let ?d = "update_session_row (se_id s) ?f (sy_db st)"
  have "session_row_of ?d (se_id s) = Some (?f row)"
    by (rule status_after_update [OF assms(1)]) (simp add: set_status_def)
  with assms show ?thesis
    by (simp add: claim_waiting leaveSession_def Let_def removeParticipantFromWaitingSession_def set_status_def
        update_session_row_def)
qed

text \<open>
  A dropout that has read the group as being provisioned ends it although the room was published
  in between: the abort is unconditional, so a session that is running turns aborted and keeps its
  room, and every open participation of the group ends, instead of the one participant being removed
  from the discussion.
\<close>

theorem published_group_is_aborted:
  assumes "session_row_of (sy_db st) (se_id s) = Some row" and "sr_status row = Provisioning"
    and "se_status s = Provisioning" and "pdb_wf (en_uuid env) (sy_pdb st)"
  shows "let (published, d) = finishSessionProvisioning now (se_id s) roomId startedAt (sy_db st) in
    published \<and> map_option sr_status (session_row_of d (se_id s)) = Some Running \<and>
    (\<exists>st'. leaveSession env later (s, p) reason (st\<lparr>sy_db := d\<rparr>) = Inr (True, [], st') \<and>
      map_option sr_status (session_row_of (sy_db st') (se_id s)) = Some Aborted \<and>
      map_option sr_roomId (session_row_of (sy_db st') (se_id s)) = Some (Some roomId) \<and>
      closed_with (en_uuid env) {Oc_Participant_Dropout}
        (member_keys (lobby_members (sy_db st) (se_id s))) (sy_pdb st) (sy_pdb st'))"
proof -
  let ?sid = "se_id s" and ?f = "\<lambda>r. if sr_status r = Provisioning then publish_row now roomId startedAt r else r"
  let ?d = "update_session_row ?sid ?f (sy_db st)"
  let ?patch = "\<lparr>lp_status = Some Aborted, lp_roomId = None, lp_startedAt = None, lp_completedAt = None\<rparr>"
  let ?e = "update_session_row ?sid (patch_row later ?patch) ?d"
  have row: "row \<in> set (db_sessions (sy_db st))" "sr_id row = ?sid"
    using assms(1) by (auto simp: session_row_of_def find_Some_iff)
  then have "filter (\<lambda>r. sr_id r = ?sid \<and> sr_status r = Provisioning) (db_sessions (sy_db st)) \<noteq> []"
    using assms(2) by (auto simp: filter_empty_conv)
  then have finish: "finishSessionProvisioning now ?sid roomId startedAt (sy_db st) = (True, ?d)"
    by (simp add: finishSessionProvisioning_def update_if_def)
  have run: "session_row_of ?d ?sid = Some (?f row)"
    by (rule status_after_update [OF assms(1)]) (simp add: publish_row_def)
  have abort: "session_row_of ?e ?sid = Some (patch_row later ?patch (?f row))"
    by (rule status_after_update [OF run]) (simp add: patch_row_def)
  have load: "getSession ?sid ?e = Some (sessionFromRow ?e (patch_row later ?patch (?f row)))"
    by (simp add: getSession_def load_session_def abort)
  have members: "lobby_members ?e ?sid = lobby_members (sy_db st) ?sid"
    by (simp add: lobby_members_update patch_row_def publish_row_def)
  from terminate_session_closes [of env "st\<lparr>sy_db := ?e\<rparr>" ?sid, OF _ _, of _ later Oc_Participant_Dropout reason] load assms(4)
  obtain p' where p': "terminateSessionParticipants env later ?sid Oc_Participant_Dropout reason (st\<lparr>sy_db := ?e\<rparr>) =
      Inr (st\<lparr>sy_db := ?e, sy_pdb := p'\<rparr>)"
    "closed_with (en_uuid env) {Oc_Participant_Dropout} (member_keys (lobby_members (sy_db st) ?sid)) (sy_pdb st) p'"
    by (auto simp: members)
  have "updateSessionLifecycle later ?sid ?patch ?d = Inr ?e"
    by (simp add: updateSessionLifecycle_def run)
  then have "leaveSession env later (s, p) reason (st\<lparr>sy_db := ?d\<rparr>) = Inr (True, [], st\<lparr>sy_db := ?e, sy_pdb := p'\<rparr>)"
    using p'(1) by (simp add: leaveSession_def assms(3))
  with finish run abort p'(2) show ?thesis
    using assms(2) by (simp add: patch_row_def publish_row_def keep_undefined_def)
qed

text \<open>The seat of a submission, and the row it was read from.\<close>

lemma prolific_seat:
  assumes "findByProlificIdentity i st = Inr (Some (s, p))"
  obtains r row where "r \<in> set (db_participants (sy_db st))" "pr_id r = pt_id p" "pr_sessionId r = se_id s"
    "session_row_of (sy_db st) (se_id s) = Some row" "sr_status row = se_status s"
proof -
  from assms have "findByProlificSession i (sy_db st) = Some (s, p)"
    by (auto simp: findByProlificIdentity_def Let_def split: option.splits if_splits prod.splits)
  then obtain r where r: "r \<in> set (db_participants (sy_db st))" "seat_of_row (sy_db st) r = Some (s, p)"
    by (auto simp: findByProlificSession_def bind_eq_Some_conv dest: find_SomeD)
  then obtain row where "session_row_of (sy_db st) (pr_sessionId r) = Some row"
    "s = sessionFromRow (sy_db st) row" "pt_id p = pr_id r"
    by (auto simp: seat_of_row_def bind_eq_Some_conv getSession_def load_session_def find_Some_iff)
  with r(1) row_of_id [of "sy_db st" "pr_sessionId r" row] show thesis by (intro that [of r row]) auto
qed

lemma vacate_filter:
  assumes "distinct (map pr_id ps)" and "r \<in> set ps"
  shows "filter (\<lambda>x. \<not> seat_of (pr_sessionId r) (pr_id r) x) ps = filter (\<lambda>x. pr_id x \<noteq> pr_id r) ps"
  using assms by (intro filter_cong) (auto simp: seat_of_def distinct_map dest: inj_onD)

text \<open>
  A participant who withdraws from a waiting lobby is done: the participation ends with what
  they reported, the seat is free again and nobody else's is touched, and a lobby they leave empty is
  aborted, while one with others in it goes on waiting.
\<close>

theorem withdrawal_frees_seat:
  assumes "store_ok (sy_db st)" and "pdb_wf (en_uuid env) (sy_pdb st)"
    and seat: "findByProlificIdentity i st = Inr (Some (s, p))" and "se_status s = Waiting"
  shows "\<exists>response st'. terminateParticipation env now i oc reason st = (Inr (Some response), st') \<and>
    (\<exists>r. find_arrival i (sy_pdb st') = Some r \<and> ar_outcome r \<noteq> None \<and>
      (\<not> ended i (sy_pdb st) \<longrightarrow> ar_outcome r = Some (outcome_of_self oc))) \<and>
    db_participants (sy_db st') = filter (\<lambda>r. pr_id r \<noteq> pt_id p) (db_participants (sy_db st)) \<and>
    map_option sr_status (session_row_of (sy_db st') (se_id s)) =
      Some (if filter (\<lambda>r. pr_sessionId r = se_id s) (db_participants (sy_db st')) = [] then Aborted else Waiting)"
proof -
  let ?d = "sy_db st" and ?p1 = "recordProlificArrival (en_uuid env) now i (sy_pdb st)"
  obtain r row where r: "r \<in> set (db_participants ?d)" "pr_id r = pt_id p" "pr_sessionId r = se_id s"
    and row: "session_row_of ?d (se_id s) = Some row" "sr_status row = Waiting"
    using prolific_seat [OF seat] assms(4) by metis
  have wf1: "pdb_wf (en_uuid env) ?p1" using record_good [OF assms(2)] by simp
  have open1: "ended i ?p1 = ended i (sy_pdb st)"
    by (simp add: ended_def find_arrival_record new_arrival_def)
  define ending where "ending = self_ending oc reason
    (case find_arrival i ?p1 of None \<Rightarrow> St_Arrived | Some a \<Rightarrow> ar_stage a)"
  let ?p2 = "terminateProlificParticipation (en_uuid env) now i ending ?p1"
  have out: "\<exists>a. find_arrival i ?p2 = Some a \<and> ar_outcome a \<noteq> None \<and>
      (\<not> ended i (sy_pdb st) \<longrightarrow> ar_outcome a = Some (outcome_of_self oc))"
  proof (cases "ended i ?p1")
    case True
    then have "?p2 = ?p1"
      by (auto simp: terminateProlificParticipation_def recordProlificArrival_def ended_def split: option.splits)
    with True open1 show ?thesis by (auto simp: ended_def split: option.splits)
  next
    case False
    from terminate_effect [OF wf1 this, of now ending] show ?thesis
      by (auto simp: Let_def ending_def self_ending_def)
  qed
  have again: "findByProlificIdentity i (st\<lparr>sy_pdb := ?p1\<rparr>) = Inr (Some (s, p))"
    using seat by (simp add: findByProlificIdentity_def)
  let ?ps = "filter (\<lambda>r. pr_id r \<noteq> pt_id p) (db_participants ?d)"
  let ?d1 = "?d\<lparr>db_participants := ?ps, db_surveys := filter (\<lambda>v. vr_participantId v \<noteq> pt_id p) (db_surveys ?d)\<rparr>"
  let ?d2 = "if filter (\<lambda>r. pr_sessionId r = se_id s) ?ps = []
    then update_session_row (se_id s) (\<lambda>r. if sr_status r = Waiting then set_status Aborted r else r) ?d1 else ?d1"
  have "filter (\<lambda>x. \<not> seat_of (se_id s) (pt_id p) x) (db_participants ?d) = ?ps"
    using vacate_filter [of "db_participants ?d" r] assms(1) r by (simp add: store_ok_def)
  moreover have "list_ex (seat_of (se_id s) (pt_id p)) (db_participants ?d)"
    using r by (auto simp: list_ex_iff seat_of_def)
  ultimately have remove: "removeParticipantFromWaitingSession (se_id s) (pt_id p) ?d = (True, ?d2)"
    by (simp add: removeParticipantFromWaitingSession_def row Let_def update_if_def)
  have row1: "session_row_of ?d1 (se_id s) = Some row" using row(1) by (simp add: session_row_of_def)
  have status: "map_option sr_status (session_row_of ?d2 (se_id s)) =
      Some (if filter (\<lambda>r. pr_sessionId r = se_id s) ?ps = [] then Aborted else Waiting)"
    using status_after_update [OF row1, of "\<lambda>r. if sr_status r = Waiting then set_status Aborted r else r"] row(2) row1
    by (auto simp: set_status_def)
  obtain a where a: "find_arrival i ?p2 = Some a" using out by auto
  then have "terminateParticipation env now i oc reason st =
      (Inr (Some (toOutcomeResponse (participationOutcomeFromRow (compensation_of (ar_id a) ?p2) a)
         (getStudySettings (st\<lparr>sy_pdb := ?p2, sy_db := ?d2\<rparr>)))), st\<lparr>sy_pdb := ?p2, sy_db := ?d2\<rparr>)"
    by (simp add: terminateParticipation_def again leaveSession_def assms(4) remove
        getParticipationOutcome_def ending_def [symmetric] Let_def)
  moreover have "db_participants ?d2 = ?ps" by (simp add: update_session_row_def)
  ultimately show ?thesis using out status by auto
qed

section \<open>Concrete runs\<close>

text \<open>A lobby of the first round with one Prolific participant in it.\<close>

definition sample_surroundings :: surroundings where
  "sample_surroundings =
     \<lparr>en_uuid = unary_id, en_payment = \<lparr>env_pencePerMinute = None, env_maxPence = None\<rparr>,
      en_reconnectGraceSeconds = 30\<rparr>"

definition prolific_member :: participant where
  "prolific_member =
     (sample_participant ''p1'')\<lparr>pt_recruitmentSource := Rs_Prolific, pt_prolific := Some sample_identity\<rparr>"

definition lobby_study :: study where
  "lobby_study =
     \<lparr>sy_db = empty_db\<lparr>db_sessions := [sessionCreateData 0 sample_lobby],
        db_participants := [participantCreateData 0 ''s1'' prolific_member]\<rparr>,
      sy_rounds = [\<lparr>rd_id = 1, rd_label = [], rd_startedAt = 0, rd_endedAt = None\<rparr>],
      sy_conditions = [], sy_settings = [], sy_pdb = empty_pdb\<rparr>"

lemma lobby_row:
  "sr_id (sessionCreateData 0 sample_lobby) = ''s1''"
  "sr_status (sessionCreateData 0 sample_lobby) = Waiting"
  "sr_waitingDeadlineAt (sessionCreateData 0 sample_lobby) = Some 300000"
  by (simp_all add: sessionCreateData_def sample_lobby_def newFormingSession_def waitingTimeoutMinutes_def
      env_number_def iso_def js_trunc_def toOptionalDate_def toDate_def)

lemma lobby_study_ok:
  "store_ok (sy_db lobby_study)" "pdb_wf (en_uuid sample_surroundings) (sy_pdb lobby_study)"
  "rounds_ok (sy_rounds lobby_study)"
  by (simp_all add: lobby_study_def store_ok_def lobby_row empty_db_def participantCreateData_def
      sample_surroundings_def empty_pdb_wf unary_id_inj)

lemma lobby_study_seat:
  "findByProlificIdentity sample_identity lobby_study =
     Inr (Some (sessionFromRow (sy_db lobby_study) (sessionCreateData 0 sample_lobby), prolific_member))"
  by (simp add: findByProlificIdentity_def findByProlificSession_def seat_of_row_def getSession_def
      load_session_def session_row_of_def session_participants lobby_study_def lobby_row empty_db_def
      participantCreateData_def participantFromRow_def prolific_member_def sample_participant_def sample_identity_def)

theorem expired_lobbies_are_closed_witness:
  "\<exists>st'. sweepExpiredWaitingRooms sample_surroundings 300000 lobby_study = (Inr 1, st') \<and>
     map sr_status (db_sessions (sy_db st')) = [Aborted] \<and>
     (\<exists>a. find_arrival sample_identity (sy_pdb st') = Some a \<and> ar_compensationKind a = Some Ck_Partial)"
proof -
  have rows: "db_sessions (sy_db lobby_study) = [sessionCreateData 0 sample_lobby]"
    by (simp add: lobby_study_def)
  have due: "expired 300000 (sessionCreateData 0 sample_lobby)"
    by (simp add: lobby_matches_def lobby_row)
  have members: "lobby_members (sy_db lobby_study) ''s1'' = [prolific_member]"
    by (simp add: lobby_members_def getSession_def load_session_def session_row_of_def session_participants
        lobby_study_def lobby_row empty_db_def participantCreateData_def participantFromRow_def
        prolific_member_def sample_participant_def sample_identity_def)
  have keys: "key_of sample_identity \<in> member_keys [prolific_member]"
    by (auto simp: member_keys_def prolific_member_def)
  have "\<not> ended sample_identity (sy_pdb lobby_study)"
    by (simp add: ended_def find_arrival_def lobby_study_def empty_pdb_def)
  with expired_lobbies_are_closed [OF lobby_study_ok(1,2), of 300000] keys show ?thesis
    by (auto simp: rows due members lobby_row set_status_def closed_with_def)
qed

theorem new_round_starts_clean_witness:
  "\<exists>r st'. doStartRound sample_surroundings 10 ''pilot'' lobby_study = (Inr (r, 1), st') \<and>
     map sr_status (db_sessions (sy_db st')) = [Aborted] \<and> ro_id r = int (length (sy_rounds st'))"
  using new_round_starts_clean [OF lobby_study_ok, of 10 "''pilot''"]
  by (auto simp: lobby_study_def lobby_row set_status_def)

theorem withdrawal_frees_seat_witness:
  "\<exists>response st'. terminateParticipation sample_surroundings 10 sample_identity Self_Voluntary_Withdrawal [] lobby_study =
       (Inr (Some response), st') \<and>
     db_participants (sy_db st') = [] \<and>
     map_option sr_status (session_row_of (sy_db st') ''s1'') = Some Aborted"
proof -
  have "se_status (sessionFromRow (sy_db lobby_study) (sessionCreateData 0 sample_lobby)) = Waiting"
    by (simp add: lobby_row)
  from withdrawal_frees_seat [OF lobby_study_ok(1,2) lobby_study_seat this, of 10 Self_Voluntary_Withdrawal "[]"]
  show ?thesis
    by (auto simp: lobby_study_def lobby_row participantCreateData_def prolific_member_def sample_participant_def)
qed

theorem claimed_group_keeps_leaver_witness:
  "let claimed = lobby_study\<lparr>sy_db := snd (claimSessionProvisioning ''s1'' (sy_db lobby_study))\<rparr> in
     leaveSession sample_surroundings 10
       (sessionFromRow (sy_db lobby_study) (sessionCreateData 0 sample_lobby), prolific_member) [] claimed =
       Inr (False, [], claimed) \<and>
     map pr_id (db_participants (sy_db claimed)) = [''p1'']"
  using claimed_group_keeps_leaver [of lobby_study
      "sessionFromRow (sy_db lobby_study) (sessionCreateData 0 sample_lobby)" "sessionCreateData 0 sample_lobby"
      sample_surroundings 10 prolific_member "[]"]
  by (simp add: lobby_row Let_def)
    (simp add: lobby_study_def session_row_of_def lobby_row participantCreateData_def prolific_member_def
      sample_participant_def)

text \<open>The same lobby once it has been claimed.\<close>

definition claimed_study :: study where
  "claimed_study = lobby_study\<lparr>sy_db := snd (claimSessionProvisioning ''s1'' (sy_db lobby_study))\<rparr>"

lemma claimed_row:
  "session_row_of (sy_db claimed_study) ''s1'' = Some (set_status Provisioning (sessionCreateData 0 sample_lobby))"
  by (simp add: claimed_study_def lobby_study_def claimSessionProvisioning_def update_if_def
      update_session_row_def session_row_of_def lobby_row set_status_def)

theorem published_group_is_aborted_witness:
  "let (published, d) = finishSessionProvisioning 20 ''s1'' ''!room'' (Stamp 20) (sy_db claimed_study) in
     published \<and>
     (\<exists>st'. leaveSession sample_surroundings 30
         (sessionFromRow (sy_db claimed_study) (set_status Provisioning (sessionCreateData 0 sample_lobby)), prolific_member) []
         (claimed_study\<lparr>sy_db := d\<rparr>) = Inr (True, [], st') \<and>
       map_option sr_status (session_row_of (sy_db st') ''s1'') = Some Aborted)"
proof -
  let ?row = "set_status Provisioning (sessionCreateData 0 sample_lobby)"
  let ?s = "sessionFromRow (sy_db claimed_study) ?row"
  have s: "se_id ?s = ''s1''" "se_status ?s = Provisioning" "sr_status ?row = Provisioning"
    by (simp_all add: set_status_def lobby_row)
  have wf: "pdb_wf (en_uuid sample_surroundings) (sy_pdb claimed_study)"
    using lobby_study_ok(2) by (simp add: claimed_study_def)
  from published_group_is_aborted [of claimed_study ?s ?row, unfolded s, OF claimed_row refl refl wf,
      of 20 "''!room''" "Stamp 20" 30 prolific_member "[]"]
  show ?thesis by (auto simp: split_def Let_def)
qed

end
