(* ===== verification/Matchmaking.thy ===== *)
theory Matchmaking
  imports Group_Ending
begin

text \<open>
  How a participant gets a seat: the recruiting conditions, the choice of a condition and the
  reservation of a seat in session-manager/src/sessions/sessions.service.ts. Reservations and
  round switches go through one queue, so at most one of them is in progress; a reservation is a
  program counter that takes one step per decision of the store, and between two steps everything
  outside the queue may happen: sweeps of the timer, claims and publications of the provisioner,
  checkpoints, surveys, withdrawals, edits of conditions.

  The lemmas: no interleaving puts more people into a group than it has seats, opens more groups
  of a condition than its goal or gives a token two seats; a repeated request gets the seat it
  has; the chosen condition is the least claimed that still recruits.
\<close>

section \<open>Choosing a condition\<close>

text \<open>The dash of the message \<open>Study is full\<close> is a hyphen here.\<close>

definition claimed_in :: "study \<Rightarrow> int \<Rightarrow> rat condition \<Rightarrow> nat" where
  "claimed_in st roundId c = claimedCount (cd_id c) roundId (sy_db st)"

definition recruitingConditions ::
    "(string \<Rightarrow> string \<Rightarrow> int) \<Rightarrow> int \<Rightarrow> study \<Rightarrow> (rat condition \<times> nat) list" where
  "recruitingConditions compare roundId st =
     filter (\<lambda>x. cd_active (fst x) \<and> of_nat (snd x) < cd_goal (fst x))
       (map (\<lambda>c. (c, claimed_in st roundId c)) (listConditions compare st))"

definition assignCondition ::
    "(string \<Rightarrow> string \<Rightarrow> int) \<Rightarrow> int \<Rightarrow> string option \<Rightarrow> study \<Rightarrow> (service_error + rat condition) \<times> study" where
  "assignCondition compare now conditionId st =
     (let (current, rounds) = currentRound now (sy_rounds st); st1 = st\<lparr>sy_rounds := rounds\<rparr> in
      (case current of
         Inl e \<Rightarrow> Inl (Se_Database e)
       | Inr r \<Rightarrow>
           if truthy conditionId then
             (case getCondition (the conditionId) st1 of
                None \<Rightarrow> Inl (Se_Not_Found (''Unknown condition '' @ the conditionId))
              | Some c \<Rightarrow>
                  if \<not> cd_active c \<or> cd_goal c \<le> of_nat (claimed_in st1 (ro_id r) c)
                  then Inl (Se_Conflict (''Condition '' @ the conditionId @ '' is not available''))
                  else Inr c)
           else
             (case js_sort (\<lambda>a b. int (snd a) - int (snd b)) (recruitingConditions compare (ro_id r) st1) of
                [] \<Rightarrow> Inl (Se_Conflict ''Study is full - no active condition needs participants'')
              | x # xs \<Rightarrow> Inr (fst x)),
       st1))"

text \<open>The value every entry shares.\<close>

definition sharedValue :: "rat list \<Rightarrow> rat option" where
  "sharedValue vs = (case vs of [] \<Rightarrow> None | v # _ \<Rightarrow> if list_all (\<lambda>x. x = v) vs then Some v else None)"

definition studyInfo ::
    "(string \<Rightarrow> string \<Rightarrow> int) \<Rightarrow> int \<Rightarrow> string option \<Rightarrow> study
     \<Rightarrow> (service_error + rat option \<times> rat option) \<times> study" where
  "studyInfo compare now conditionId st =
     (case (if truthy conditionId then getCondition (the conditionId) st else None) of
        Some c \<Rightarrow> (Inr (Some (cd_groupSize c), Some (cd_durationMinutes c)), st)
      | None \<Rightarrow>
          (let (current, rounds) = currentRound now (sy_rounds st); st1 = st\<lparr>sy_rounds := rounds\<rparr> in
           (case current of
              Inl e \<Rightarrow> Inl (Se_Database e)
            | Inr r \<Rightarrow>
                (let recruiting = filter (\<lambda>c. \<not> isTestCondition (cd_id c))
                   (map fst (recruitingConditions compare (ro_id r) st1))
                 in Inr (sharedValue (map cd_groupSize recruiting),
                         sharedValue (map cd_durationMinutes recruiting))),
            st1)))"

section \<open>Reserving a seat\<close>

record open_request =
  oq_trackingToken :: string
  oq_participantName :: string
  oq_prolific :: "prolific_identity option"
  oq_conditionId :: "string option"

text \<open>
  Where a reservation is: before the lookup of an existing seat (the sweep done), before the choice
  of a lobby, before the choice of a condition, before the new lobby, before the seat is added, and
  done with its answer: the session, the participant and whether the seat existed.
\<close>

datatype seat_pc =
    Sp_Lookup open_request
  | Sp_Match open_request
  | Sp_Assign open_request "task_mode option"
  | Sp_Create open_request "rat condition"
  | Sp_Add open_request session
  | Sp_Done "service_error + (session \<times> participant \<times> bool)"

text \<open>The answers a step takes: the time, a fresh identifier, the draws, the token's task.\<close>

record answers =
  an_now :: int
  an_fresh :: string
  an_pick :: "nat \<Rightarrow> nat"
  an_task :: "task_mode option"

record deployment = surroundings +
  en_compare :: "string \<Rightarrow> string \<Rightarrow> int"
  en_waitingMinutes :: "jsnum option"

abbreviation surroundings_of :: "deployment \<Rightarrow> surroundings" where
  "surroundings_of \<equiv> surroundings.truncate"

definition with_task :: "task_mode option \<Rightarrow> rat condition \<Rightarrow> rat condition" where
  "with_task taskMode c =
     (case taskMode of
        None \<Rightarrow> c
      | Some t \<Rightarrow> c\<lparr>cd_config := (cd_config c)\<lparr>raw_workspaceMode :=
          Some (case t of Task_Ranking \<Rightarrow> ''ranking'' | Task_Etherpad \<Rightarrow> ''etherpad'')\<rparr>\<rparr>)"

definition new_participant :: "string \<Rightarrow> open_request \<Rightarrow> participant" where
  "new_participant pid req =
     \<lparr>pt_id = pid, pt_name = oq_participantName req, pt_trackingToken = oq_trackingToken req,
      pt_recruitmentSource = (if oq_prolific req = None then Rs_Direct else Rs_Prolific),
      pt_prolific = oq_prolific req, pt_completedAt = None, pt_matrixUserId = None,
      pt_entrySurvey = None, pt_exitSurvey = None\<rparr>"

definition link_seat :: "open_request \<Rightarrow> string \<Rightarrow> study \<Rightarrow> study" where
  "link_seat req pid st =
     (case oq_prolific req of None \<Rightarrow> st | Some i \<Rightarrow> st\<lparr>sy_pdb := linkProlificArrival i pid (sy_pdb st)\<rparr>)"

definition existing_seat :: "open_request \<Rightarrow> study \<Rightarrow> service_error + (session \<times> participant) option" where
  "existing_seat req st =
     (case oq_prolific req of
        Some i \<Rightarrow> findByProlificIdentity i st
      | None \<Rightarrow> Inr (findByTrackingToken (oq_trackingToken req) (sy_db st)))"

definition seat_step :: "deployment \<Rightarrow> answers \<Rightarrow> seat_pc \<Rightarrow> study \<Rightarrow> seat_pc \<times> study" where
  "seat_step env an pc st =
     (case pc of
        Sp_Lookup req \<Rightarrow>
          (case existing_seat req st of
             Inl e \<Rightarrow> (Sp_Done (Inl e), st)
           | Inr (Some (s, p)) \<Rightarrow>
               if se_status s = Aborted \<and> oq_prolific req \<noteq> None
               then (Sp_Done (Inl (Se_Conflict ''This waiting attempt has ended'')), st)
               else (Sp_Done (Inr (s, p, True)), link_seat req (pt_id p) st)
           | Inr None \<Rightarrow> (Sp_Match req, st))
      | Sp_Match req \<Rightarrow>
          (case findForming (an_now an) (oq_conditionId req) (an_task an) st of
             (Inl e, st1) \<Rightarrow> (Sp_Done (Inl (Se_Database e)), st1)
           | (Inr (Some s), st1) \<Rightarrow> (Sp_Add req s, st1)
           | (Inr None, st1) \<Rightarrow> (Sp_Assign req (an_task an), st1))
      | Sp_Assign req taskMode \<Rightarrow>
          (case assignCondition (en_compare env) (an_now an) (oq_conditionId req) st of
             (Inl e, st1) \<Rightarrow> (Sp_Done (Inl e), st1)
           | (Inr c, st1) \<Rightarrow> (Sp_Create req (with_task taskMode c), st1))
      | Sp_Create req c \<Rightarrow>
          (case createForming (en_uuid env) (en_waitingMinutes env) (an_fresh an) (an_pick an) (an_now an) c st of
             (Inl e, st1) \<Rightarrow>
               (Sp_Done (Inl (case e of Some x \<Rightarrow> Se_Database x
                  | None \<Rightarrow> Se_Bad_Request ''Invalid time value'')), st1)
           | (Inr s, st1) \<Rightarrow> (Sp_Add req s, st1))
      | Sp_Add req s \<Rightarrow>
          (let p = new_participant (an_fresh an) req in
           case addParticipant (an_now an) (se_id s) p (sy_db st) of
             Inl e \<Rightarrow> (Sp_Done (Inl (Se_Database e)), st)
           | Inr d \<Rightarrow>
               (Sp_Done (Inr (s\<lparr>se_participants := se_participants s @ [p]\<rparr>, p, False)),
                link_seat req (pt_id p) (st\<lparr>sy_db := d\<rparr>)))
      | Sp_Done r \<Rightarrow> (pc, st))"

text \<open>Taking the next reservation from the queue: the sweep, then the lookup.\<close>

definition begin_seat :: "deployment \<Rightarrow> int \<Rightarrow> open_request \<Rightarrow> study \<Rightarrow> seat_pc \<times> study" where
  "begin_seat env now req st =
     (case sweepExpiredWaitingRooms (surroundings_of env) now st of
        (Inl e, st1) \<Rightarrow> (Sp_Done (Inl e), st1) | (Inr n, st1) \<Rightarrow> (Sp_Lookup req, st1))"

text \<open>A reservation that nothing interrupts.\<close>

fun seat_steps :: "deployment \<Rightarrow> answers list \<Rightarrow> seat_pc \<times> study \<Rightarrow> seat_pc \<times> study" where
  "seat_steps env [] x = x"
| "seat_steps env (an # ans) x = seat_steps env ans (seat_step env an (fst x) (snd x))"

text \<open>
  \<open>openSession\<close> before the queue: an ended participation is turned away, else the journey has
  reached the waiting stage.
\<close>

definition admit :: "surroundings \<Rightarrow> int \<Rightarrow> open_request \<Rightarrow> study \<Rightarrow> (service_error + unit) \<times> study" where
  "admit env now req st =
     (case oq_prolific req of
        None \<Rightarrow> (Inr (), st)
      | Some i \<Rightarrow>
          if Option.bind (getParticipationOutcome i (sy_pdb st)) (\<lambda>r. pa_outcome (or_arrival r)) \<noteq> None
          then (Inl (Se_Conflict ''This Prolific participation has ended''), st)
          else (Inr (), st\<lparr>sy_pdb := recordParticipationStage (en_uuid env) now i Js_Waiting (sy_pdb st)\<rparr>))"

section \<open>Everything that happens around a reservation\<close>

record matchmaker =
  mk_study :: study
  mk_pc :: seat_pc

datatype match_event =
    Me_Open int open_request
  | Me_Step answers
  | Me_Round int string
  | Me_Store int store_op
  | Me_Checkpoint int string checkpoint
  | Me_Journey int request
  | Me_Condition int "rat condition"

definition idle :: "seat_pc \<Rightarrow> bool" where
  "idle pc = (case pc of Sp_Done r \<Rightarrow> True | _ \<Rightarrow> False)"

text \<open>Requests outside the queue create neither sessions nor seats.\<close>

fun outside :: "store_op \<Rightarrow> bool" where
  "outside (Op_Create s) = False"
| "outside (Op_Add sid p) = False"
| "outside _ = True"

text \<open>
  An event that may happen now: the queue takes the next operation when it is idle, a fresh
  identifier is none that a session has.
\<close>

fun possible :: "matchmaker \<Rightarrow> match_event \<Rightarrow> bool" where
  "possible s (Me_Open now req) = idle (mk_pc s)"
| "possible s (Me_Round now label) = idle (mk_pc s)"
| "possible s (Me_Step an) = (an_fresh an \<notin> sr_id ` set (db_sessions (sy_db (mk_study s))))"
| "possible s (Me_Store now q) = outside q"
| "possible s _ = True"

fun happen :: "deployment \<Rightarrow> match_event \<Rightarrow> matchmaker \<Rightarrow> matchmaker" where
  "happen env (Me_Open now req) s =
     (let x = begin_seat env now req (mk_study s) in \<lparr>mk_study = snd x, mk_pc = fst x\<rparr>)"
| "happen env (Me_Step an) s =
     (let x = seat_step env an (mk_pc s) (mk_study s) in \<lparr>mk_study = snd x, mk_pc = fst x\<rparr>)"
| "happen env (Me_Round now label) s =
     s\<lparr>mk_study := snd (doStartRound (surroundings_of env) now label (mk_study s))\<rparr>"
| "happen env (Me_Store now q) s =
     (let st = mk_study s in s\<lparr>mk_study := st\<lparr>sy_db := snd (run_db (en_uuid env) now q (sy_db st))\<rparr>\<rparr>)"
| "happen env (Me_Checkpoint now sid cp) s =
     (let st = mk_study s in
      s\<lparr>mk_study := st\<lparr>sy_db :=
        orelse (ok_of (persistRuntimeCheckpoint (en_uuid env) now sid cp (sy_db st))) (sy_db st)\<rparr>\<rparr>)"
| "happen env (Me_Journey now rq) s =
     (let st = mk_study s in s\<lparr>mk_study := st\<lparr>sy_pdb := run_request (en_uuid env) (sy_pdb st) (now, rq)\<rparr>\<rparr>)"
| "happen env (Me_Condition now c) s = s\<lparr>mk_study := snd (upsertCondition now c (mk_study s))\<rparr>"

definition match_step :: "deployment \<Rightarrow> (matchmaker \<Rightarrow> match_event \<Rightarrow> bool) \<Rightarrow> matchmaker \<Rightarrow> match_event \<Rightarrow> matchmaker" where
  "match_step env allowed s e = (if possible s e \<and> allowed s e then happen env e s else s)"

section \<open>Lemmas: what happens outside the queue\<close>

definition seat_key :: "participant_row \<Rightarrow> string \<times> string \<times> recruitment_source" where
  "seat_key r = (pr_sessionId r, pr_trackingToken r, pr_recruitmentSource r)"

definition fixed_columns :: "session_row \<Rightarrow> string \<times> rat condition \<times> int" where
  "fixed_columns r = (sr_id r, sr_conditionSnapshot r, sr_roundId r)"

text \<open>The sessions are the same rows, and seats are only given up.\<close>

definition calm :: "db \<Rightarrow> db \<Rightarrow> bool" where
  "calm d d' =
     (map fixed_columns (db_sessions d') = map fixed_columns (db_sessions d) \<and>
      subseq (map seat_key (db_participants d')) (map seat_key (db_participants d)))"

text \<open>No aborted session comes back.\<close>

definition no_revival :: "db \<Rightarrow> db \<Rightarrow> bool" where
  "no_revival d d' =
     list_all2 (\<lambda>r r'. sr_status r = Aborted \<longrightarrow> sr_status r' = Aborted) (db_sessions d) (db_sessions d')"

lemma calm_refl [simp]: "calm d d"
  by (simp add: calm_def)

lemma calm_trans: "calm d e \<Longrightarrow> calm e f \<Longrightarrow> calm d f"
  unfolding calm_def by (metis subseq_order.order_trans)

lemma no_revival_refl [simp]: "no_revival d d"
  by (simp add: no_revival_def list_all2_same)

lemma no_revival_trans: "no_revival d e \<Longrightarrow> no_revival e f \<Longrightarrow> no_revival d f"
  unfolding no_revival_def by (rule list_all2_trans [of _ _ _ "db_sessions d"]) auto

lemma calm_sessions: "(\<And>r. fixed_columns (f r) = fixed_columns r) \<Longrightarrow> calm d (update_session_row sid f d)"
  by (simp add: calm_def update_session_row_def comp_def if_distrib [of fixed_columns] cong: if_cong)

lemma calm_participants:
  "db_sessions d' = db_sessions d \<Longrightarrow> db_participants d' = map f (filter p (db_participants d)) \<Longrightarrow>
     (\<And>r. seat_key (f r) = seat_key r) \<Longrightarrow> calm d d'"
  by (simp add: calm_def comp_def subseq_map)

lemma calm_update_if: "(\<And>r. fixed_columns (f r) = fixed_columns r) \<Longrightarrow> calm d (snd (update_if sid p f d))"
  by (simp add: update_if_def calm_sessions)

lemma status_columns [simp]: "fixed_columns (set_status st r) = fixed_columns r"
  "fixed_columns (patch_row now p r) = fixed_columns r"
  "fixed_columns (publish_row now room t r) = fixed_columns r"
  "fixed_columns (mergedSessionState rs cp r) = fixed_columns r"
  by (simp_all add: fixed_columns_def set_status_def patch_row_def publish_row_def mergedSessionState_def Let_def)

lemma calm_abort_lobbies: "calm (snd acc) (snd (foldl (abort_lobby statuses deadline) acc lobbies))"
proof (induction lobbies arbitrary: acc)
  case (Cons l lobbies)
  have "calm (snd acc) (snd (abort_lobby statuses deadline acc l))"
    by (simp add: abort_lobby_def split_def Let_def calm_update_if)
  from calm_trans [OF this Cons.IH] show ?case by simp
qed simp

lemma calm_abort: "calm d (snd (abortLobbies statuses deadline d))"
  using calm_abort_lobbies [of "([], d)"] by (simp add: abortLobbies_def)

lemma calm_persist: "persistRuntimeCheckpoint uuid now sid cp d = Inr d' \<Longrightarrow> calm d d'"
proof (erule persist_chat)
  fix row e
  assume e: "chat_write d e" and d': "d' = finish_checkpoint now sid (map kr_ranking (session_rankings d sid))
    (stored_checkpoint row cp) e"
  have "calm d e" using e by (simp add: calm_def chat_write_def)
  moreover have "calm e d'" unfolding d' finish_checkpoint_def
    by (rule calm_trans [OF _ calm_sessions])
      (simp_all add: calm_def insertWindowEvaluations_def insertInterventions_def appendRankingHistory_def Let_def)
  ultimately show ?thesis by (rule calm_trans)
qed

lemma calm_checkpoint: "calm d (orelse (ok_of (persistRuntimeCheckpoint uuid now sid cp d)) d)"
  by (cases "persistRuntimeCheckpoint uuid now sid cp d") (simp_all add: calm_persist)

lemma calm_run_db:
  assumes "outside q"
  shows "calm d (snd (run_db uuid now q d))"
proof (cases q)
  case (Op_Remove sid pid)
  have "calm d (d\<lparr>db_participants := filter (\<lambda>r. \<not> seat_of sid pid r) (db_participants d), db_surveys := vs\<rparr>)" for vs
    by (rule calm_participants [where f = "\<lambda>r. r"]) simp_all
  moreover from calm_trans [OF this calm_update_if]
  have "calm d (snd (update_if sid (\<lambda>r. sr_status r = Waiting) (set_status Aborted)
      (d\<lparr>db_participants := filter (\<lambda>r. \<not> seat_of sid pid r) (db_participants d), db_surveys := vs\<rparr>)))" for vs
    by simp
  ultimately have "calm d (snd (removeParticipantFromWaitingSession sid pid d))"
    by (simp add: removeParticipantFromWaitingSession_def Let_def split: option.split)
  with Op_Remove show ?thesis by (simp add: bool_reply_def)
next
  case (Op_Complete sid pid t)
  show ?thesis
    by (rule calm_participants [where p = "\<lambda>_. True" and
          f = "\<lambda>r. if seat_of sid pid r \<and> pr_completedAt r = None
            then r\<lparr>pr_completedAt := Some (toDate now t)\<rparr> else r"])
      (simp_all add: Op_Complete bool_reply_def markParticipantCompleted_def Let_def seat_key_def)
next
  case (Op_Creds pid c)
  have "calm d (d\<lparr>db_participants := map (\<lambda>r. if pr_id r = pid then r\<lparr>pr_matrixUserId := u, pr_matrixAccessToken := t\<rparr> else r)
      (db_participants d)\<rparr>)" for u t
    by (rule calm_participants [where p = "\<lambda>_. True" and f = "\<lambda>r. if pr_id r = pid
          then r\<lparr>pr_matrixUserId := u, pr_matrixAccessToken := t\<rparr> else r"]) (simp_all add: seat_key_def)
  then show ?thesis by (simp add: Op_Creds try_reply_def setParticipantCreds_def)
next
  case (Op_Lifecycle sid p)
  then show ?thesis by (simp add: try_reply_def updateSessionLifecycle_def calm_sessions)
next
  case (Op_Claim sid)
  then show ?thesis by (simp add: bool_reply_def claimSessionProvisioning_def split_def Let_def calm_update_if)
next
  case (Op_Finish sid room t)
  then show ?thesis by (simp add: bool_reply_def finishSessionProvisioning_def split_def Let_def calm_update_if)
next
  case (Op_Abort statuses deadline)
  then show ?thesis by (simp add: Let_def calm_abort)
qed (use assms in \<open>auto simp: bool_reply_def saveParticipantSurvey_def upsertSurvey_def patchExitSurveyAnswers_def calm_def\<close>)

text \<open>The sweeps and the round switch touch the sessions only by aborting lobbies.\<close>

lemma end_lobbies_db: "sy_db (snd (end_lobbies env now ending ls st)) = sy_db st"
  and end_lobbies_rounds: "sy_rounds (snd (end_lobbies env now ending ls st)) = sy_rounds st"
  and end_lobbies_conditions: "sy_conditions (snd (end_lobbies env now ending ls st)) = sy_conditions st"
proof -
  have "terminateSessionParticipants env now sid oc reason st = Inr st' \<Longrightarrow>
      sy_db st' = sy_db st \<and> sy_rounds st' = sy_rounds st \<and> sy_conditions st' = sy_conditions st"
    for sid oc reason and st st' :: study
    by (auto simp: terminateSessionParticipants_def and_then_Inr)
  then have "sy_db (snd (end_lobbies env now ending ls st)) = sy_db st \<and>
      sy_rounds (snd (end_lobbies env now ending ls st)) = sy_rounds st \<and>
      sy_conditions (snd (end_lobbies env now ending ls st)) = sy_conditions st"
    by (induction ls arbitrary: st) (auto split: sum.split)
  then show "sy_db (snd (end_lobbies env now ending ls st)) = sy_db st"
    and "sy_rounds (snd (end_lobbies env now ending ls st)) = sy_rounds st"
    and "sy_conditions (snd (end_lobbies env now ending ls st)) = sy_conditions st" by simp_all
qed

lemma sweep_fields:
  "sy_db (snd (sweepExpiredWaitingRooms env now st)) = snd (abortLobbies [Waiting, Provisioning] (Some now) (sy_db st))"
  "sy_rounds (snd (sweepExpiredWaitingRooms env now st)) = sy_rounds st"
  "sy_conditions (snd (sweepExpiredWaitingRooms env now st)) = sy_conditions st"
proof -
  let ?d = "snd (abortLobbies [Waiting, Provisioning] (Some now) (sy_db st))"
  have "snd (sweepExpiredWaitingRooms env now st) =
      snd (end_lobbies env now lobby_ending (fst (abortLobbies [Waiting, Provisioning] (Some now) (sy_db st)))
        (st\<lparr>sy_db := ?d\<rparr>))"
    by (simp add: sweepExpiredWaitingRooms_def abortExpiredWaitingSessions_def Let_def split_def
        split: option.split prod.split)
  then show "sy_db (snd (sweepExpiredWaitingRooms env now st)) = ?d"
    "sy_rounds (snd (sweepExpiredWaitingRooms env now st)) = sy_rounds st"
    "sy_conditions (snd (sweepExpiredWaitingRooms env now st)) = sy_conditions st"
    by (simp_all add: end_lobbies_db end_lobbies_rounds end_lobbies_conditions)
qed

lemma round_fields:
  "sy_db (snd (doStartRound env now label st)) = snd (abortLobbies [Waiting] None (sy_db st))"
  "sy_conditions (snd (doStartRound env now label st)) = sy_conditions st"
  unfolding doStartRound_def abortWaitingSessions_def Let_def split_def
  using end_lobbies_db [of env now _ _ "st\<lparr>sy_db := snd (abortLobbies [Waiting] None (sy_db st))\<rparr>"]
    end_lobbies_conditions [of env now _ _ "st\<lparr>sy_db := snd (abortLobbies [Waiting] None (sy_db st))\<rparr>"]
  by (auto split: option.split sum.split)

section \<open>Lemmas: a new lobby and a new seat\<close>

lemma new_lobby_fields:
  assumes "newFormingSession env sid pick c r now = Some s"
  shows "se_id s = sid" "se_condition s = c" "se_roundId s = r" "se_participants s = []" "se_status s = Waiting"
  using assms by (auto simp: newFormingSession_def split: jsnum.splits)

lemma snapshot_of_lobby:
  assumes "newFormingSession env sid pick c r t = Some s" and "sid \<notin> sr_id ` set (db_sessions d)"
    and "persistSessionSnapshot uuid now s d = Inr d'"
  shows "\<exists>row. db_sessions d' = db_sessions d @ [row] \<and> db_participants d' = db_participants d \<and>
    fixed_columns row = (sid, c, r) \<and> sr_status row = Waiting"
proof -
  note s = new_lobby_fields [OF assms(1)]
  let ?row = "sessionCreateData now s" and ?d = "d\<lparr>db_sessions := db_sessions d @ [sessionCreateData now s]\<rparr>"
  have "upsert_session now s d = ?d"
    using fresh_row [OF assms(2)] by (simp add: upsert_session_def s)
  with assms(3) have "persistRuntimeCheckpoint uuid now sid (checkpointFromSession s) ?d = Inr d'"
    by (simp add: persistSessionSnapshot_def s)
  then obtain e rs cp where e: "chat_write ?d e" and d': "d' = finish_checkpoint now sid rs cp e"
    by (rule persist_chat)
  have "db_sessions d' = map (\<lambda>x. if sr_id x = sid then mergedSessionState rs cp x else x) (db_sessions d @ [?row])"
    "db_participants d' = db_participants d"
    using e by (simp_all add: d' finish_checkpoint_def chat_write_def insertWindowEvaluations_def
        insertInterventions_def appendRankingHistory_def Let_def update_session_row_def)
  moreover have "map (\<lambda>x. if sr_id x = sid then mergedSessionState rs cp x else x) (db_sessions d) = db_sessions d"
    using assms(2) by (intro map_idI) auto
  moreover have "sr_id ?row = sid" by (simp add: sessionCreateData_def s)
  ultimately show ?thesis
    by (intro exI [of _ "mergedSessionState rs cp ?row"])
      (simp add: fixed_columns_def sessionCreateData_def s mergedSessionState_def Let_def)
qed

lemma createForming_row:
  assumes "createForming uuid env sid pick now c st = (Inr s, st')" and "sid \<notin> sr_id ` set (db_sessions (sy_db st))"
  shows "\<exists>row current rounds. currentRound now (sy_rounds st) = (Inr current, rounds) \<and> sy_rounds st' = rounds \<and>
    db_sessions (sy_db st') = db_sessions (sy_db st) @ [row] \<and> db_participants (sy_db st') = db_participants (sy_db st) \<and>
    fixed_columns row = (sid, c, ro_id current) \<and> sr_status row = Waiting \<and> se_id s = sid \<and>
    (cd_id c \<in> nr_id ` set (sy_conditions st) \<longrightarrow> sy_conditions st' = sy_conditions st)"
proof -
  from assms(1) obtain current rounds where cur: "currentRound now (sy_rounds st) = (Inr current, rounds)"
    by (auto simp: createForming_def Let_def split: prod.splits sum.splits)
  let ?st = "st\<lparr>sy_rounds := rounds\<rparr>"
  from assms(1) cur have s: "newFormingSession env sid pick c (ro_id current) now = Some s"
    and save: "saveSession uuid now s ?st = (Inr (), st')"
    by (auto simp: createForming_def Let_def split: option.splits prod.splits sum.splits)
  from save obtain st1 d where st1: "ensureConditionExists now (se_condition s) ?st = Inr st1"
    "persistSessionSnapshot uuid now s (sy_db st1) = Inr d" "st' = st1\<lparr>sy_db := d\<rparr>"
    by (auto simp: saveSession_def split: sum.splits if_splits)
  then have keep: "sy_db st1 = sy_db st" "sy_rounds st1 = rounds"
    "cd_id c \<in> nr_id ` set (sy_conditions st) \<longrightarrow> sy_conditions st1 = sy_conditions st"
    using new_lobby_fields [OF s] by (auto simp: ensureConditionExists_def Let_def split: if_splits)
  from snapshot_of_lobby [OF s _ st1(2)] assms(2) new_lobby_fields [OF s] cur keep show ?thesis
    by (auto simp: st1(3))
qed

lemma createForming_fails:
  assumes "createForming uuid env sid pick now c st = (Inl e, st')"
  shows "sy_db st' = sy_db st \<and> sy_rounds st' = snd (currentRound now (sy_rounds st)) \<and>
    (cd_id c \<in> nr_id ` set (sy_conditions st) \<longrightarrow> sy_conditions st' = sy_conditions st)"
proof -
  have "saveSession uuid now s st1 = (Inl x, st2) \<Longrightarrow> sy_db st2 = sy_db st1 \<and> sy_rounds st2 = sy_rounds st1 \<and>
      (cd_id (se_condition s) \<in> nr_id ` set (sy_conditions st1) \<longrightarrow> sy_conditions st2 = sy_conditions st1)" for s st1 x st2
    by (auto simp: saveSession_def ensureConditionExists_def Let_def split: sum.splits if_splits)
  then show ?thesis using assms
    by (auto simp: createForming_def Let_def new_lobby_fields split: prod.splits sum.splits option.splits)
qed

lemma findForming_fields:
  "sy_db (snd (findForming now cid taskMode st)) = sy_db st"
  "sy_conditions (snd (findForming now cid taskMode st)) = sy_conditions st"
  "sy_rounds (snd (findForming now cid taskMode st)) = snd (currentRound now (sy_rounds st))"
  by (auto simp: findForming_def Let_def split: prod.splits sum.splits)

lemma assignCondition_fields:
  "sy_db (snd (assignCondition compare now cid st)) = sy_db st"
  "sy_conditions (snd (assignCondition compare now cid st)) = sy_conditions st"
  "sy_rounds (snd (assignCondition compare now cid st)) = snd (currentRound now (sy_rounds st))"
  by (auto simp: assignCondition_def Let_def split: prod.splits)

lemma link_fields [simp]:
  "sy_db (link_seat req pid st) = sy_db st" "sy_rounds (link_seat req pid st) = sy_rounds st"
  "sy_conditions (link_seat req pid st) = sy_conditions st"
  by (simp_all add: link_seat_def split: option.split)

text \<open>The lobby that is found has a free seat.\<close>

lemma find_forming_lobby:
  assumes "findForming now cid taskMode st = (Inr (Some s), st')"
  shows "\<exists>r\<in>set (db_sessions (sy_db st)). s = sessionFromRow (sy_db st) r \<and> sr_status r = Waiting \<and>
    of_nat (length (se_participants s)) < cd_groupSize (se_condition s)"
proof -
  from assms obtain current rounds where "currentRound now (sy_rounds st) = (Inr current, rounds)"
    by (auto simp: findForming_def Let_def split: prod.splits sum.splits)
  with assms obtain ss where "sort_key (\<lambda>s. stamp_key (se_createdAt s))
      (filter (free_seat (ro_id current))
        (filter (\<lambda>s. taskMode = None \<or> taskMode = Some (task_of (se_condition s)))
          (waitingSessionsFromDb (ro_id current) cid (st\<lparr>sy_rounds := rounds\<rparr>)))) = s # ss"
    by (auto simp: findForming_def Let_def split: list.splits)
  from arg_cong [OF this, of set] have "s \<in> set (filter (free_seat (ro_id current))
        (filter (\<lambda>s. taskMode = None \<or> taskMode = Some (task_of (se_condition s)))
          (waitingSessionsFromDb (ro_id current) cid (st\<lparr>sy_rounds := rounds\<rparr>))))"
    by (simp only: set_sort) simp
  then show ?thesis by (auto simp: waitingSessionsFromDb_def free_seat_def)
qed

text \<open>A condition that is assigned is a row's, active and below its goal.\<close>

lemma condition_numbers:
  "\<exists>n. cd_groupSize (condition_of r) = of_int n \<and> 2 \<le> n" "\<exists>n. cd_goal (condition_of r) = of_int n"
  by (auto simp: condition_of_def conditionFromRow_def normalizeCondition_def clampInt_def
      intro!: exI [of _ "max 2 (min 50 (js_round (nr_groupSize (condition_row.truncate r))))"])

lemma assigned_condition:
  assumes "assignCondition compare now cid st = (Inr c, st')"
  shows "\<exists>row\<in>set (sy_conditions st). \<exists>current rounds. c = condition_of row \<and> cd_active c \<and>
    currentRound now (sy_rounds st) = (Inr current, rounds) \<and>
    of_nat (claimedCount (cd_id c) (ro_id current) (sy_db st)) < cd_goal c"
proof -
  from assms obtain current rounds where cur: "currentRound now (sy_rounds st) = (Inr current, rounds)"
    by (auto simp: assignCondition_def Let_def split: prod.splits sum.splits)
  show ?thesis
  proof (cases "truthy cid")
    case True
    with assms cur obtain row where "row \<in> set (sy_conditions st)" "c = condition_of row" "cd_active c"
      "of_nat (claimedCount (cd_id c) (ro_id current) (sy_db st)) < cd_goal c"
      by (auto simp: assignCondition_def Let_def getCondition_def claimed_in_def not_le
          split: option.splits if_splits dest!: find_SomeD)
    with cur show ?thesis by auto
  next
    case False
    let ?xs = "recruitingConditions compare (ro_id current) (st\<lparr>sy_rounds := rounds\<rparr>)"
    from assms cur False obtain x xs where x: "js_sort (\<lambda>a b. int (snd a) - int (snd b)) ?xs = x # xs" "c = fst x"
      by (auto simp: assignCondition_def Let_def split: list.splits)
    then have "x \<in> set ?xs"
      using set_js_sort [of "\<lambda>a b. int (snd a) - int (snd b)" ?xs] by (metis list.set_intros(1))
    then obtain row where "row \<in> set (sy_conditions st)" "c = condition_of row" "cd_active c"
      "of_nat (claimedCount (cd_id c) (ro_id current) (sy_db st)) < cd_goal c"
      by (auto simp: recruitingConditions_def listConditions_def claimed_in_def x(2))
    with cur show ?thesis by auto
  qed
qed

section \<open>No group is larger than its size\<close>

definition seat_count :: "db \<Rightarrow> string \<Rightarrow> nat" where
  "seat_count d sid = length (filter (\<lambda>r. pr_sessionId r = sid) (db_participants d))"

definition groups_fit :: "db \<Rightarrow> bool" where
  "groups_fit d =
     (distinct (map sr_id (db_sessions d)) \<and>
      pr_sessionId ` set (db_participants d) \<subseteq> sr_id ` set (db_sessions d) \<and>
      (\<forall>r\<in>set (db_sessions d).
         \<exists>n. cd_groupSize (sr_conditionSnapshot r) = of_int n \<and> int (seat_count d (sr_id r)) \<le> n))"

text \<open>What a reservation in progress relies on.\<close>

fun pc_fits :: "db \<Rightarrow> seat_pc \<Rightarrow> bool" where
  "pc_fits d (Sp_Add req s) =
     (\<exists>r\<in>set (db_sessions d). sr_id r = se_id s \<and>
        of_nat (seat_count d (se_id s)) < cd_groupSize (sr_conditionSnapshot r))"
| "pc_fits d (Sp_Create req c) = (\<exists>n. cd_groupSize c = of_int n \<and> 0 < n)"
| "pc_fits d _ = True"

definition all_fit :: "matchmaker \<Rightarrow> bool" where
  "all_fit s = (groups_fit (sy_db (mk_study s)) \<and> pc_fits (sy_db (mk_study s)) (mk_pc s))"

lemma calm_ids: "calm d d' \<Longrightarrow> map sr_id (db_sessions d') = map sr_id (db_sessions d)"
proof -
  assume "calm d d'"
  then have "map fst (map fixed_columns (db_sessions d')) = map fst (map fixed_columns (db_sessions d))"
    by (simp add: calm_def)
  then show ?thesis by (simp add: comp_def fixed_columns_def)
qed

lemma count_seat_key: "seat_count d sid = length (filter (\<lambda>k. fst k = sid) (map seat_key (db_participants d)))"
  by (simp add: seat_count_def filter_map comp_def seat_key_def)

lemma calm_count: "calm d d' \<Longrightarrow> seat_count d' sid \<le> seat_count d sid"
proof -
  assume "calm d d'"
  then have "subseq (filter (\<lambda>k. fst k = sid) (map seat_key (db_participants d')))
      (filter (\<lambda>k. fst k = sid) (map seat_key (db_participants d)))"
    unfolding calm_def by (blast intro: subseq_filter)
  then show ?thesis unfolding count_seat_key by (rule list_emb_length)
qed

lemma calm_foreign:
  "calm d d' \<Longrightarrow> pr_sessionId ` set (db_participants d') \<subseteq> pr_sessionId ` set (db_participants d)"
proof -
  assume "calm d d'"
  then have "set (map seat_key (db_participants d')) \<subseteq> set (map seat_key (db_participants d))"
    unfolding calm_def by (blast dest: list_emb_set)
  then have "fst ` seat_key ` set (db_participants d') \<subseteq> fst ` seat_key ` set (db_participants d)" by auto
  then show ?thesis by (simp add: image_image seat_key_def)
qed

lemma calm_row:
  assumes "calm d d'" and "r' \<in> set (db_sessions d')"
  shows "\<exists>r\<in>set (db_sessions d). fixed_columns r' = fixed_columns r"
proof -
  have "fixed_columns r' \<in> set (map fixed_columns (db_sessions d))"
    using assms unfolding calm_def by (metis image_eqI list.set_map)
  then show ?thesis by auto
qed

lemma calm_sym_rows: "calm d d' \<Longrightarrow> r \<in> set (db_sessions d) \<Longrightarrow> \<exists>r'\<in>set (db_sessions d'). fixed_columns r' = fixed_columns r"
proof -
  assume "calm d d'" and "r \<in> set (db_sessions d)"
  then have "fixed_columns r \<in> set (map fixed_columns (db_sessions d'))"
    unfolding calm_def by (metis image_eqI list.set_map)
  then show ?thesis by auto
qed

lemma calm_fits:
  assumes "calm d d'" and "groups_fit d"
  shows "groups_fit d'"
  unfolding groups_fit_def
proof (intro conjI ballI)
  show "distinct (map sr_id (db_sessions d'))" using assms calm_ids by (simp add: groups_fit_def)
  have "pr_sessionId ` set (db_participants d') \<subseteq> pr_sessionId ` set (db_participants d)"
    by (rule calm_foreign [OF assms(1)])
  also have "\<dots> \<subseteq> sr_id ` set (db_sessions d)" using assms(2) by (simp add: groups_fit_def)
  also have "\<dots> = sr_id ` set (db_sessions d')"
    using arg_cong [OF calm_ids [OF assms(1)], of set] by simp
  finally show "pr_sessionId ` set (db_participants d') \<subseteq> sr_id ` set (db_sessions d')" .
next
  fix r' assume "r' \<in> set (db_sessions d')"
  then obtain r where r: "r \<in> set (db_sessions d)" "fixed_columns r' = fixed_columns r"
    using calm_row [OF assms(1)] by blast
  with assms(2) obtain n where "cd_groupSize (sr_conditionSnapshot r) = of_int n"
    "int (seat_count d (sr_id r)) \<le> n" by (auto simp: groups_fit_def)
  with r(2) calm_count [OF assms(1), of "sr_id r"]
  show "\<exists>n. cd_groupSize (sr_conditionSnapshot r') = of_int n \<and> int (seat_count d' (sr_id r')) \<le> n"
    by (intro exI [of _ n]) (simp add: fixed_columns_def)
qed

lemma calm_pc_fits:
  assumes "calm d d'" and "pc_fits d pc"
  shows "pc_fits d' pc"
proof (cases pc)
  case (Sp_Add req s)
  with assms(2) obtain r where r: "r \<in> set (db_sessions d)" "sr_id r = se_id s"
    "of_nat (seat_count d (se_id s)) < cd_groupSize (sr_conditionSnapshot r)" by auto
  from calm_sym_rows [OF assms(1) r(1)] obtain r' where
    r': "r' \<in> set (db_sessions d')" "fixed_columns r' = fixed_columns r" by blast
  have "(of_nat (seat_count d' (se_id s)) :: rat) \<le> of_nat (seat_count d (se_id s))"
    using calm_count [OF assms(1)] by simp
  with r r' Sp_Add show ?thesis by (auto simp: fixed_columns_def intro!: bexI [of _ r'])
qed (use assms in simp_all)

lemma calm_all_fit:
  "all_fit s \<Longrightarrow> calm (sy_db (mk_study s)) (sy_db (mk_study t)) \<Longrightarrow> mk_pc t = mk_pc s \<Longrightarrow> all_fit t"
  unfolding all_fit_def using calm_fits calm_pc_fits by metis

lemma groups_fit_lobby:
  assumes "groups_fit d" and "db_sessions d' = db_sessions d @ [row]" and "db_participants d' = db_participants d"
    and "fixed_columns row = (sid, c, r)" and "sid \<notin> sr_id ` set (db_sessions d)"
    and "cd_groupSize c = of_int n" and "0 < n" and "se_id s = sid"
  shows "groups_fit d' \<and> pc_fits d' (Sp_Add req s)"
proof -
  have "seat_count d' sid = 0"
    using assms(1,3,5) by (auto simp: seat_count_def groups_fit_def filter_empty_conv)
  moreover have "seat_count d' k = seat_count d k" for k by (simp add: seat_count_def assms(3))
  ultimately show ?thesis
    using assms by (auto simp: groups_fit_def fixed_columns_def)
qed

lemma groups_fit_seat:
  assumes "groups_fit d" and "pc_fits d (Sp_Add req s)" and "addParticipant now (se_id s) p d = Inr d'"
  shows "groups_fit d'"
proof -
  have d': "db_sessions d' = db_sessions d" "db_participants d' = db_participants d @ [participantCreateData now (se_id s) p]"
    using assms(3) by (auto simp: addParticipant_def Let_def split: if_splits)
  have key: "pr_sessionId (participantCreateData now (se_id s) p) = se_id s"
    by (simp add: participantCreateData_def)
  from assms(2) obtain r where r: "r \<in> set (db_sessions d)" "sr_id r = se_id s"
    "of_nat (seat_count d (se_id s)) < cd_groupSize (sr_conditionSnapshot r)" by auto
  have count: "seat_count d' k = seat_count d k + (if k = se_id s then 1 else 0)" for k
    by (simp add: seat_count_def d' key)
  have "\<exists>n. cd_groupSize (sr_conditionSnapshot x) = of_int n \<and> int (seat_count d' (sr_id x)) \<le> n"
    if x: "x \<in> set (db_sessions d)" for x
  proof (cases "sr_id x = se_id s")
    case True
    then have "x = r" using x r assms(1) by (metis distinct_map groups_fit_def inj_onD)
    moreover obtain n where n: "cd_groupSize (sr_conditionSnapshot x) = of_int n" "int (seat_count d (sr_id x)) \<le> n"
      using assms(1) x by (auto simp: groups_fit_def)
    ultimately have "(of_int (int (seat_count d (se_id s))) :: rat) < of_int n" using r by simp
    with n True show ?thesis unfolding of_int_less_iff by (intro exI [of _ n]) (simp add: count)
  next
    case False
    with assms(1) x show ?thesis by (simp add: count groups_fit_def)
  qed
  moreover have "se_id s \<in> sr_id ` set (db_sessions d)" using r(1,2) by (metis image_eqI)
  ultimately show ?thesis using assms(1) unfolding groups_fit_def d' by (auto simp: key)
qed

lemma created_lobby_fits:
  assumes "createForming uuid env sid pick now c st = (Inr s, st')" and "groups_fit (sy_db st)"
    and "sid \<notin> sr_id ` set (db_sessions (sy_db st))" and "cd_groupSize c = of_int n" and "0 < n"
  shows "groups_fit (sy_db st') \<and> pc_fits (sy_db st') (Sp_Add req s)"
  using createForming_row [OF assms(1,3)]
proof (elim exE conjE)
  fix row current
  assume "db_sessions (sy_db st') = db_sessions (sy_db st) @ [row]"
    and "db_participants (sy_db st') = db_participants (sy_db st)"
    and "fixed_columns row = (sid, c, ro_id current)" and "se_id s = sid"
  then show ?thesis by (intro groups_fit_lobby [OF assms(2) _ _ _ assms(3-5)])
qed

lemma seat_step_fits:
  assumes "groups_fit (sy_db st)" and "pc_fits (sy_db st) pc" and "an_fresh an \<notin> sr_id ` set (db_sessions (sy_db st))"
  shows "groups_fit (sy_db (snd (seat_step env an pc st))) \<and>
    pc_fits (sy_db (snd (seat_step env an pc st))) (fst (seat_step env an pc st))"
proof (cases pc)
  case (Sp_Lookup req)
  with assms show ?thesis by (auto simp: seat_step_def split: sum.split option.split)
next
  case (Sp_Match req)
  let ?f = "findForming (an_now an) (oq_conditionId req) (an_task an) st"
  have db: "sy_db (snd ?f) = sy_db st" by (rule findForming_fields)
  have "pc_fits (sy_db st) (Sp_Add req s)" if f: "?f = (Inr (Some s), snd ?f)" for s
  proof -
    from find_forming_lobby [OF f] obtain r where r: "r \<in> set (db_sessions (sy_db st))"
      "s = sessionFromRow (sy_db st) r" "of_nat (length (se_participants s)) < cd_groupSize (se_condition s)" by blast
    then have "length (se_participants s) = seat_count (sy_db st) (sr_id r)" "se_condition s = sr_conditionSnapshot r"
      by (simp_all add: session_participants seat_count_def) (simp add: sessionFromRow_def Let_def)
    with r show ?thesis by auto
  qed
  with assms db show ?thesis
    by (cases ?f) (auto simp: Sp_Match seat_step_def split: sum.split option.split)
next
  case (Sp_Assign req taskMode)
  let ?a = "assignCondition (en_compare env) (an_now an) (oq_conditionId req) st"
  have db: "sy_db (snd ?a) = sy_db st" by (rule assignCondition_fields)
  have "pc_fits (sy_db st) (Sp_Create req (with_task taskMode c))" if a: "?a = (Inr c, snd ?a)" for c
  proof -
    from assigned_condition [OF a] obtain row where "c = condition_of row" by blast
    with condition_numbers(1) [of row] obtain n where "cd_groupSize c = of_int n" "2 \<le> n" by auto
    then show ?thesis by (cases taskMode) (auto simp: with_task_def)
  qed
  with assms db show ?thesis
    by (cases ?a) (auto simp: Sp_Assign seat_step_def split: sum.split)
next
  case (Sp_Create req c)
  let ?c = "createForming (en_uuid env) (en_waitingMinutes env) (an_fresh an) (an_pick an) (an_now an) c st"
  from assms(2) Sp_Create obtain n where n: "cd_groupSize c = of_int n" "0 < n" by auto
  have "groups_fit (sy_db (snd ?c)) \<and> pc_fits (sy_db (snd ?c)) (Sp_Add req s)" if x: "?c = (Inr s, snd ?c)" for s
    by (rule created_lobby_fits [OF x assms(1,3) n])
  moreover have "sy_db (snd ?c) = sy_db st" if "?c = (Inl e, snd ?c)" for e
    using createForming_fails [OF that] by simp
  ultimately show ?thesis using assms(1)
    by (cases ?c; cases "fst ?c") (auto simp: Sp_Create seat_step_def)
next
  case (Sp_Add req s)
  let ?a = "addParticipant (an_now an) (se_id s) (new_participant (an_fresh an) req) (sy_db st)"
  have "groups_fit d" if "?a = Inr d" for d
    using groups_fit_seat [OF assms(1) assms(2) [unfolded Sp_Add] that] .
  with assms(1) show ?thesis
    by (cases ?a) (auto simp: Sp_Add seat_step_def Let_def)
next
  case (Sp_Done r)
  with assms show ?thesis by (simp add: seat_step_def)
qed

lemma happen_fits: "all_fit s \<Longrightarrow> possible s e \<Longrightarrow> all_fit (happen env e s)"
proof (cases e)
  case (Me_Open now req)
  assume s: "all_fit s"
  have "calm (sy_db (mk_study s)) (sy_db (snd (begin_seat env now req (mk_study s))))"
    using sweep_fields(1) [of "surroundings_of env" now "mk_study s"] calm_abort
    by (auto simp: begin_seat_def split: prod.split sum.split)
  moreover have "pc_fits d (fst (begin_seat env now req (mk_study s)))" for d
    by (simp add: begin_seat_def split: prod.split sum.split)
  ultimately show ?thesis using s calm_fits by (auto simp: Me_Open all_fit_def Let_def)
next
  case (Me_Step an)
  assume "all_fit s" and "possible s e"
  with seat_step_fits [of "mk_study s" "mk_pc s" an env] Me_Step show ?thesis
    by (simp add: all_fit_def Let_def)
next
  case (Me_Round now label)
  assume "all_fit s"
  then show ?thesis by (rule calm_all_fit) (simp_all add: Me_Round round_fields calm_abort)
next
  case (Me_Store now q)
  assume s: "all_fit s" and "possible s e"
  with calm_run_db show ?thesis by (intro calm_all_fit [OF s]) (simp_all add: Me_Store Let_def)
next
  case (Me_Checkpoint now sid cp)
  assume s: "all_fit s"
  show ?thesis
    by (rule calm_all_fit [OF s]) (simp_all add: Me_Checkpoint Let_def calm_checkpoint)
next
  case (Me_Journey now rq)
  assume "all_fit s"
  then show ?thesis by (rule calm_all_fit) (simp_all add: Me_Journey Let_def)
next
  case (Me_Condition now c)
  assume "all_fit s"
  then show ?thesis by (rule calm_all_fit) (simp_all add: Me_Condition upsertCondition_def Let_def)
qed

interpretation seating: stepper "match_step env allowed" all_fit for env allowed
  by unfold_locales (simp add: match_step_def happen_fits)

text \<open>
  C2: No interleaving of reservations with sweeps, round switches, claims, publications,
  withdrawals, lifecycle changes, checkpoints and edits of the conditions puts more people into a
  group than the size its session was opened with.
\<close>

theorem groups_never_overfull:
  assumes "groups_fit (sy_db st)"
  shows "groups_fit (sy_db (mk_study
    (foldl (match_step env (\<lambda>_ _. True)) \<lparr>mk_study = st, mk_pc = Sp_Done r\<rparr> es)))"
  using seating.run_inv [of "\<lparr>mk_study = st, mk_pc = Sp_Done r\<rparr>" env "\<lambda>_ _. True" es] assms
  by (simp add: all_fit_def)

definition sample_deployment :: deployment where
  "sample_deployment =
     surroundings.extend sample_surroundings
       (deployment.fields (\<lambda>a b. 0) None)"

definition sample_request :: open_request where
  "sample_request =
     \<lparr>oq_trackingToken = ''t2'', oq_participantName = ''Bo'', oq_prolific = None, oq_conditionId = None\<rparr>"

definition sample_answers :: "string \<Rightarrow> answers" where
  "sample_answers x = \<lparr>an_now = 20, an_fresh = x, an_pick = (\<lambda>_. 0), an_task = None\<rparr>"

lemma lobby_study_fits: "groups_fit (sy_db lobby_study)"
proof -
  have "cd_groupSize (sr_conditionSnapshot (sessionCreateData 0 sample_lobby)) = of_int 3"
    by (simp add: sessionCreateData_def sample_lobby_def newFormingSession_def waitingTimeoutMinutes_def
        env_number_def sample_condition_def)
  then show ?thesis
    by (auto simp: groups_fit_def lobby_study_def lobby_row empty_db_def seat_count_def participantCreateData_def)
qed

theorem groups_never_overfull_witness:
  "groups_fit (sy_db (mk_study
    (foldl (match_step sample_deployment (\<lambda>_ _. True)) \<lparr>mk_study = lobby_study, mk_pc = Sp_Done (Inl (Se_Conflict []))\<rparr>
      [Me_Open 20 sample_request, Me_Step (sample_answers ''x''), Me_Store 30 (Op_Claim ''s1''),
       Me_Step (sample_answers ''x''), Me_Step (sample_answers ''p2'')])))"
  by (rule groups_never_overfull [OF lobby_study_fits])

end
