(* ===== verification/Recruitment.thy ===== *)
theory Recruitment
  imports Matchmaking
begin

text \<open>
  What recruitment keeps: the goals of the conditions and one seat per token. The state machine is
  that of \<open>Matchmaking\<close>, with the two things excluded that give claims back on purpose: a
  lifecycle write that turns an aborted session into another one (\<open>no_comeback\<close>), and, for the
  goals, an edit of the conditions (\<open>unedited\<close>).
\<close>

section \<open>What gives nothing back\<close>

definition no_comeback :: "deployment \<Rightarrow> matchmaker \<Rightarrow> match_event \<Rightarrow> bool" where
  "no_comeback env s e =
     (case e of
        Me_Store now q \<Rightarrow>
          no_revival (sy_db (mk_study s)) (snd (run_db (en_uuid env) now q (sy_db (mk_study s))))
      | _ \<Rightarrow> True)"

definition unedited :: "deployment \<Rightarrow> matchmaker \<Rightarrow> match_event \<Rightarrow> bool" where
  "unedited env s e = (no_comeback env s e \<and> (case e of Me_Condition now c \<Rightarrow> False | _ \<Rightarrow> True))"

text \<open>The rows agree in their fixed columns, in order, and no aborted one is back.\<close>

definition quiet :: "db \<Rightarrow> db \<Rightarrow> bool" where
  "quiet d d' = (calm d d' \<and> no_revival d d')"

lemma quiet_refl [simp]: "quiet d d"
  by (simp add: quiet_def)

lemma quiet_rows:
  assumes "quiet d d'"
  shows "list_all2 (\<lambda>r r'. fixed_columns r' = fixed_columns r \<and> (sr_status r = Aborted \<longrightarrow> sr_status r' = Aborted))
    (db_sessions d) (db_sessions d')"
proof -
  have "list_all2 (\<lambda>r r'. fixed_columns r' = fixed_columns r) (db_sessions d) (db_sessions d')"
    using assms by (simp add: quiet_def calm_def list_all2_conv_all_nth list_eq_iff_nth_eq)
  then show ?thesis
    using assms by (auto simp: quiet_def no_revival_def list_all2_conv_all_nth)
qed

lemma filter_shrinks:
  "list_all2 R xs ys \<Longrightarrow> (\<And>x y. R x y \<Longrightarrow> P y \<Longrightarrow> P x) \<Longrightarrow> length (filter P ys) \<le> length (filter P xs)"
  by (induction rule: list_all2_induct) (auto simp: le_SucI)

lemma quiet_claims: "quiet d d' \<Longrightarrow> claimedCount i r d' \<le> claimedCount i r d"
  unfolding claimedCount_def by (erule quiet_rows [THEN filter_shrinks]) (auto simp: fixed_columns_def)

lemma quiet_live: "quiet d d' \<Longrightarrow> live_session d' sid \<Longrightarrow> live_session d sid"
proof -
  have "list_all2 (\<lambda>r r'. fixed_columns r' = fixed_columns r \<and> (sr_status r = Aborted \<longrightarrow> sr_status r' = Aborted)) xs ys \<Longrightarrow>
      (case find (\<lambda>r. sr_id r = sid) ys of None \<Rightarrow> False | Some r \<Rightarrow> sr_status r \<noteq> Aborted) \<Longrightarrow>
      (case find (\<lambda>r. sr_id r = sid) xs of None \<Rightarrow> False | Some r \<Rightarrow> sr_status r \<noteq> Aborted)" for xs ys
    by (induction rule: list_all2_induct) (auto simp: fixed_columns_def)
  then show "quiet d d' \<Longrightarrow> live_session d' sid \<Longrightarrow> live_session d sid"
    unfolding live_session_def session_row_of_def using quiet_rows by blast
qed

lemma no_revival_sessions:
  "(\<And>r. sr_status r = Aborted \<Longrightarrow> sr_status (f r) = Aborted) \<Longrightarrow> no_revival d (update_session_row sid f d)"
  by (simp add: no_revival_def update_session_row_def list_all2_conv_all_nth)

lemma no_revival_abort: "no_revival d (snd (abortLobbies statuses deadline d))"
proof -
  have "no_revival (snd acc) (snd (foldl (abort_lobby statuses deadline) acc lobbies))" for acc lobbies
  proof (induction lobbies arbitrary: acc)
    case (Cons l lobbies)
    have "no_revival (snd acc) (snd (abort_lobby statuses deadline acc l))"
      by (simp add: abort_lobby_def split_def Let_def update_if_def no_revival_sessions set_status_def)
    from no_revival_trans [OF this Cons.IH] show ?case by simp
  qed simp
  from this [of "([], d)"] show ?thesis by (simp add: abortLobbies_def)
qed

lemma no_revival_checkpoint: "no_revival d (orelse (ok_of (persistRuntimeCheckpoint uuid now sid cp d)) d)"
proof (cases "persistRuntimeCheckpoint uuid now sid cp d")
  case (Inr d')
  then obtain rs scp e where e: "chat_write d e" and d': "d' = finish_checkpoint now sid rs scp e"
    by (rule persist_chat)
  have "no_revival e d'" unfolding d' finish_checkpoint_def
    by (rule no_revival_trans [OF _ no_revival_sessions])
      (simp_all add: no_revival_def insertWindowEvaluations_def insertInterventions_def appendRankingHistory_def
        Let_def mergedSessionState_def list_all2_same)
  moreover have "no_revival d e" using e by (simp add: no_revival_def chat_write_def list_all2_same)
  ultimately show ?thesis using Inr no_revival_trans [of d e d'] by simp
qed simp

lemma quiet_abort [simp]: "quiet d (snd (abortLobbies statuses deadline d))"
  by (simp add: quiet_def calm_abort no_revival_abort)

lemma quiet_begin: "quiet (sy_db st) (sy_db (snd (begin_seat env now req st)))"
  using sweep_fields(1) [of "surroundings_of env" now st]
  by (auto simp: begin_seat_def split: prod.split sum.split)

text \<open>Everything but the steps of the reservation is quiet.\<close>

lemma quiet_event:
  assumes "possible s e" and "no_comeback env s e" and "\<nexists>an. e = Me_Step an"
  shows "quiet (sy_db (mk_study s)) (sy_db (mk_study (happen env e s)))"
proof (cases e)
  case (Me_Open now req)
  then show ?thesis by (simp add: Let_def quiet_begin)
next
  case (Me_Round now label)
  then show ?thesis by (simp add: round_fields)
next
  case (Me_Store now q)
  with assms(1,2) show ?thesis by (simp add: Let_def no_comeback_def quiet_def calm_run_db)
next
  case (Me_Checkpoint now sid cp)
  then show ?thesis by (simp add: Let_def quiet_def calm_checkpoint no_revival_checkpoint)
next
  case (Me_Condition now c)
  then show ?thesis by (simp add: upsertCondition_def Let_def)
qed (use assms in \<open>simp_all add: Let_def\<close>)

section \<open>A token has one live seat\<close>

definition holds :: "db \<Rightarrow> string \<Rightarrow> string \<times> string \<times> recruitment_source \<Rightarrow> bool" where
  "holds d token k = (fst (snd k) = token \<and> snd (snd k) = Rs_Direct \<and> live_session d (fst k))"

text \<open>The seats a direct participant's token has in sessions that are not aborted.\<close>

definition live_seats :: "db \<Rightarrow> string \<Rightarrow> nat" where
  "live_seats d token = length (filter (holds d token) (map seat_key (db_participants d)))"

definition single_seats :: "db \<Rightarrow> bool" where
  "single_seats d = (groups_fit d \<and> (\<forall>token. token \<noteq> [] \<longrightarrow> live_seats d token \<le> 1))"

definition token_free :: "db \<Rightarrow> open_request \<Rightarrow> bool" where
  "token_free d req =
     (oq_prolific req = None \<and> oq_trackingToken req \<noteq> [] \<longrightarrow> live_seats d (oq_trackingToken req) = 0)"

text \<open>Past the lookup, a reservation's token has no seat.\<close>

fun pc_seatless :: "db \<Rightarrow> seat_pc \<Rightarrow> bool" where
  "pc_seatless d (Sp_Match req) = token_free d req"
| "pc_seatless d (Sp_Assign req t) = token_free d req"
| "pc_seatless d (Sp_Create req c) = token_free d req"
| "pc_seatless d (Sp_Add req s) = token_free d req"
| "pc_seatless d _ = True"

definition all_single :: "matchmaker \<Rightarrow> bool" where
  "all_single s =
     (all_fit s \<and> single_seats (sy_db (mk_study s)) \<and> pc_seatless (sy_db (mk_study s)) (mk_pc s))"

lemma subseq_filter_le:
  assumes "subseq xs ys" and "\<And>x. P x \<Longrightarrow> Q x"
  shows "length (filter P xs) \<le> length (filter Q ys)"
proof -
  have "length (filter P xs) \<le> length (filter Q xs)"
    using assms(2) by (induction xs) auto
  also have "\<dots> \<le> length (filter Q ys)"
    using list_emb_length [OF subseq_filter [OF assms(1)]] .
  finally show ?thesis .
qed

lemma quiet_seats: "quiet d d' \<Longrightarrow> live_seats d' token \<le> live_seats d token"
  unfolding live_seats_def
  by (rule subseq_filter_le) (auto simp: quiet_def calm_def holds_def intro: quiet_live)

lemma quiet_single: "quiet d d' \<Longrightarrow> single_seats d \<Longrightarrow> single_seats d'"
  unfolding single_seats_def by (metis calm_fits le_trans quiet_def quiet_seats)

lemma quiet_free: "quiet d d' \<Longrightarrow> token_free d req \<Longrightarrow> token_free d' req"
  unfolding token_free_def by (metis le_zero_eq quiet_seats)

lemma quiet_seatless: "quiet d d' \<Longrightarrow> pc_seatless d pc \<Longrightarrow> pc_seatless d' pc"
  by (cases pc) (simp_all add: quiet_free)

text \<open>The lookup of a token that has a live seat finds one.\<close>

lemma lookup_finds:
  assumes "findByTrackingToken token d = None" and "token \<noteq> []"
  shows "live_seats d token = 0"
proof -
  have "\<not> (pr_trackingToken r = token \<and> live_session d (pr_sessionId r))" if r: "r \<in> set (db_participants d)" for r
  proof
    assume live: "pr_trackingToken r = token \<and> live_session d (pr_sessionId r)"
    obtain x where x: "find (\<lambda>r. pr_trackingToken r = token \<and> live_session d (pr_sessionId r))
        (rev (db_participants d)) = Some x"
      using r live
      by (cases "find (\<lambda>r. pr_trackingToken r = token \<and> live_session d (pr_sessionId r)) (rev (db_participants d))")
        (auto simp: find_None_iff)
    from find_SomeD [OF x] have m: "x \<in> set (db_participants d)" "live_session d (pr_sessionId x)" by auto
    then obtain row where row: "session_row_of d (pr_sessionId x) = Some row"
      by (auto simp: live_session_def split: option.splits)
    then have "sr_id row = pr_sessionId x" by (auto simp: session_row_of_def dest: find_SomeD)
    with m(1) have "\<exists>p\<in>set (se_participants (sessionFromRow d row)). pt_id p = pr_id x"
      by (auto simp: session_participants)
    then have "seat_of_row d x \<noteq> None"
      by (auto simp: seat_of_row_def getSession_def load_session_def row find_None_iff)
    with assms x show False by (simp add: findByTrackingToken_def)
  qed
  then show ?thesis by (auto simp: live_seats_def filter_empty_conv holds_def seat_key_def)
qed

lemma find_before: "find P xs = Some x \<Longrightarrow> find P (xs @ ys) = Some x"
  by (induction xs) (auto split: if_splits)

lemma new_lobby_live:
  assumes "groups_fit d" and "db_sessions d' = db_sessions d @ [row]" and "db_participants d' = db_participants d"
  shows "live_seats d' token = live_seats d token"
proof -
  have "live_session d' (pr_sessionId r) = live_session d (pr_sessionId r)" if "r \<in> set (db_participants d)" for r
  proof -
    have "pr_sessionId r \<in> sr_id ` set (db_sessions d)" using assms(1) that by (auto simp: groups_fit_def)
    then obtain x where "session_row_of d (pr_sessionId r) = Some x"
      by (cases "session_row_of d (pr_sessionId r)") (auto simp: session_row_of_def find_None_iff)
    moreover from this have "session_row_of d' (pr_sessionId r) = Some x"
      unfolding session_row_of_def assms(2) by (rule find_before)
    ultimately show ?thesis by (simp add: live_session_def)
  qed
  then have "filter (holds d' token) (map seat_key (db_participants d)) = filter (holds d token) (map seat_key (db_participants d))"
    by (intro filter_cong) (auto simp: holds_def seat_key_def)
  then show ?thesis by (simp add: live_seats_def assms(3))
qed

lemma new_seat_count:
  assumes "addParticipant now sid p d = Inr d'"
  shows "live_seats d' token = live_seats d token +
    (if pt_trackingToken p = token \<and> pt_recruitmentSource p = Rs_Direct \<and> live_session d sid then 1 else 0)"
proof -
  have d': "db_sessions d' = db_sessions d" "db_participants d' = db_participants d @ [participantCreateData now sid p]"
    using assms by (auto simp: addParticipant_def Let_def split: if_splits)
  then have "holds d' token = holds d token"
    by (intro ext) (simp add: holds_def live_session_def session_row_of_def)
  moreover have "seat_key (participantCreateData now sid p) = (sid, pt_trackingToken p, pt_recruitmentSource p)"
    by (simp add: seat_key_def participantCreateData_def)
  ultimately show ?thesis by (simp add: live_seats_def d'(2)) (auto simp: holds_def)
qed

lemma seat_step_single:
  assumes "pc_fits (sy_db st) pc" and "single_seats (sy_db st)" and "pc_seatless (sy_db st) pc"
    and fresh: "an_fresh an \<notin> sr_id ` set (db_sessions (sy_db st))"
  shows "single_seats (sy_db (snd (seat_step env an pc st))) \<and>
    pc_seatless (sy_db (snd (seat_step env an pc st))) (fst (seat_step env an pc st))"
proof -
  let ?r = "seat_step env an pc st"
  have fit: "groups_fit (sy_db (snd ?r))"
    using seat_step_fits [of st pc an env] assms(1,2) fresh by (simp add: single_seats_def)
  have keep: "single_seats (sy_db (snd ?r))" if "\<And>t. live_seats (sy_db (snd ?r)) t = live_seats (sy_db st) t"
    using assms(2) fit by (simp add: single_seats_def that)
  show ?thesis
  proof (cases pc)
    case (Sp_Lookup req)
    have "token_free (sy_db st) req" if "existing_seat req st = Inr None"
      using that lookup_finds [of "oq_trackingToken req" "sy_db st"] by (auto simp: token_free_def existing_seat_def)
    with assms(2) show ?thesis
      by (auto simp: Sp_Lookup seat_step_def split: sum.split option.split)
  next
    case (Sp_Match req)
    with assms show ?thesis using findForming_fields [of "an_now an" "oq_conditionId req" "an_task an" st]
      by (auto simp: seat_step_def split: sum.split option.split prod.split)
  next
    case (Sp_Assign req taskMode)
    with assms show ?thesis using assignCondition_fields [of "en_compare env" "an_now an" "oq_conditionId req" st]
      by (auto simp: seat_step_def split: sum.split prod.split)
  next
    case (Sp_Create req c)
    let ?c = "createForming (en_uuid env) (en_waitingMinutes env) (an_fresh an) (an_pick an) (an_now an) c st"
    have "live_seats (sy_db (snd ?c)) t = live_seats (sy_db st) t" for t
    proof (cases "fst ?c")
      case (Inl e)
      then have "?c = (Inl e, snd ?c)" by (metis prod.collapse)
      from createForming_fails [OF this] show ?thesis by simp
    next
      case (Inr s)
      then have "?c = (Inr s, snd ?c)" by (metis prod.collapse)
      from createForming_row [OF this fresh] show ?thesis
        using new_lobby_live [of "sy_db st" "sy_db (snd ?c)" _ t] assms(2) by (auto simp: single_seats_def)
    qed
    moreover have "sy_db (snd ?r) = sy_db (snd ?c)" "pc_seatless d (fst ?r) \<longleftrightarrow> (\<forall>s. fst ?c = Inr s \<longrightarrow> token_free d req)" for d
      by (simp_all add: Sp_Create seat_step_def split: sum.split prod.split)
    ultimately show ?thesis using keep assms(3) by (simp add: Sp_Create token_free_def)
  next
    case (Sp_Add req s)
    let ?p = "new_participant (an_fresh an) req"
    show ?thesis
    proof (cases "addParticipant (an_now an) (se_id s) ?p (sy_db st)")
      case (Inl e)
      with assms(2) show ?thesis by (simp add: Sp_Add seat_step_def Let_def)
    next
      case (Inr d)
      have "live_seats d t \<le> 1" if t: "t \<noteq> []" for t
      proof (cases "oq_trackingToken req = t \<and> oq_prolific req = None")
        case True
        with assms(3) t show ?thesis by (simp add: new_seat_count [OF Inr] Sp_Add token_free_def)
      next
        case False
        then have "live_seats d t = live_seats (sy_db st) t"
          by (auto simp: new_seat_count [OF Inr] new_participant_def)
        with assms(2) t show ?thesis by (simp add: single_seats_def)
      qed
      with fit Inr show ?thesis by (simp add: Sp_Add seat_step_def Let_def single_seats_def)
    qed
  next
    case (Sp_Done x)
    with assms(2) show ?thesis by (simp add: seat_step_def)
  qed
qed

lemma happen_single:
  assumes "all_single s" and "possible s e" and "no_comeback env s e"
  shows "all_single (happen env e s)"
proof (cases "\<exists>an. e = Me_Step an")
  case True
  then obtain an where e: "e = Me_Step an" ..
  have fit: "all_fit s" using assms(1) by (simp add: all_single_def)
  have "single_seats (sy_db (mk_study (happen env e s))) \<and>
      pc_seatless (sy_db (mk_study (happen env e s))) (mk_pc (happen env e s))"
    using seat_step_single [of "mk_study s" "mk_pc s" an env] assms e
    by (simp add: all_single_def all_fit_def Let_def)
  with happen_fits [OF fit assms(2)] show ?thesis by (simp add: all_single_def)
next
  case False
  have fit: "all_fit s" using assms(1) by (simp add: all_single_def)
  have q: "quiet (sy_db (mk_study s)) (sy_db (mk_study (happen env e s)))"
    by (rule quiet_event) (use assms False in auto)
  have "mk_pc (happen env e s) = mk_pc s \<or> (\<forall>d. pc_seatless d (mk_pc (happen env e s)))"
    using False by (cases e) (auto simp: Let_def begin_seat_def split: sum.split prod.split)
  with assms(1) q have "pc_seatless (sy_db (mk_study (happen env e s))) (mk_pc (happen env e s))"
    by (metis all_single_def quiet_seatless)
  with q assms happen_fits [OF fit assms(2)] show ?thesis by (simp add: all_single_def quiet_single)
qed

interpretation single: stepper "match_step env (no_comeback env)" all_single for env
  by unfold_locales (simp add: match_step_def happen_single)



section \<open>No condition recruits past its goal\<close>

text \<open>
  A stored condition is read back under the identifier of its row, and has at most as many groups
  in a round as its goal says.
\<close>

definition within_goals :: "study \<Rightarrow> bool" where
  "within_goals st =
     (\<forall>row\<in>set (sy_conditions st). cd_id (condition_of row) = nr_id row \<and>
        (\<forall>r. of_nat (claimedCount (nr_id row) r (sy_db st)) \<le> cd_goal (condition_of row)))"

definition recruiting :: "study \<Rightarrow> bool" where
  "recruiting st = (rounds_ok (sy_rounds st) \<and> distinct (map nr_id (sy_conditions st)) \<and> within_goals st)"

text \<open>A chosen condition has a group left in the open round, which no other operation may take.\<close>

fun pc_claims :: "study \<Rightarrow> seat_pc \<Rightarrow> bool" where
  "pc_claims st (Sp_Create req c) =
     (sy_rounds st \<noteq> [] \<and>
      (\<exists>row\<in>set (sy_conditions st). cd_id c = nr_id row \<and>
         of_nat (claimedCount (nr_id row) (rd_id (last (sy_rounds st))) (sy_db st)) < cd_goal (condition_of row)))"
| "pc_claims st _ = True"

definition all_recruiting :: "matchmaker \<Rightarrow> bool" where
  "all_recruiting s = (recruiting (mk_study s) \<and> pc_claims (mk_study s) (mk_pc s))"

lemma quiet_goals:
  assumes "quiet (sy_db st) (sy_db st')" and "sy_conditions st' = sy_conditions st" and "within_goals st"
  shows "within_goals st'"
proof -
  have "of_nat (claimedCount i r (sy_db st')) \<le> (of_nat (claimedCount i r (sy_db st)) :: rat)" for i r
    using quiet_claims [OF assms(1)] by simp
  with assms(2,3) show ?thesis unfolding within_goals_def by (metis order_trans)
qed

lemma quiet_pc_claims:
  assumes "quiet (sy_db st) (sy_db st')" and "sy_conditions st' = sy_conditions st"
    and "sy_rounds st' = sy_rounds st" and "pc_claims st pc"
  shows "pc_claims st' pc"
proof (cases pc)
  case (Sp_Create req c)
  with assms(4) obtain row where row: "sy_rounds st \<noteq> []" "row \<in> set (sy_conditions st)" "cd_id c = nr_id row"
    "of_nat (claimedCount (nr_id row) (rd_id (last (sy_rounds st))) (sy_db st)) < cd_goal (condition_of row)" by auto
  have "(of_nat (claimedCount (nr_id row) (rd_id (last (sy_rounds st))) (sy_db st')) :: rat)
      \<le> of_nat (claimedCount (nr_id row) (rd_id (last (sy_rounds st))) (sy_db st))"
    using quiet_claims [OF assms(1)] by simp
  with row have "of_nat (claimedCount (nr_id row) (rd_id (last (sy_rounds st))) (sy_db st')) < cd_goal (condition_of row)"
    by linarith
  with row assms(2,3) show ?thesis by (auto simp: Sp_Create)
qed simp_all

text \<open>Reading the current round leaves the rounds well-formed and opens one at most.\<close>

lemma current_round_id:
  assumes "rounds_ok rows" and "currentRound now rows = (Inr current, rows')"
  shows "rounds_ok rows'" "rows' \<noteq> []" "ro_id current = rd_id (last rows')" "rows \<noteq> [] \<Longrightarrow> rows' = rows"
proof -
  from currentRound_ok [OF assms(1), of now] assms(2)
  show "rounds_ok rows'" "rows' \<noteq> []" "ro_id current = rd_id (last rows')" by (auto simp: roundFromRow_def)
  show "rows \<noteq> [] \<Longrightarrow> rows' = rows"
    using assms(2) open_last [OF assms(1)] by (simp add: currentRound_def)
qed

lemma current_round_rows: "rounds_ok rows \<Longrightarrow> rounds_ok (snd (currentRound now rows))"
  by (metis current_round_id(1) currentRound_ok snd_conv)

lemma new_lobby_claims:
  assumes "db_sessions d' = db_sessions d @ [row]" and "fixed_columns row = (sid, c, r)"
  shows "claimedCount i k d' \<le> claimedCount i k d + (if cd_id c = i \<and> k = r then 1 else 0)"
  using assms by (auto simp: claimedCount_def fixed_columns_def)

lemma created_within_goals:
  assumes "createForming uuid env sid pick now c st = (Inr s, st')" and "recruiting st"
    and "pc_claims st (Sp_Create req c)" and "sid \<notin> sr_id ` set (db_sessions (sy_db st))"
  shows "recruiting st'"
  using createForming_row [OF assms(1,4)]
proof (elim exE conjE)
  fix row current rounds
  assume cur: "currentRound now (sy_rounds st) = (Inr current, rounds)" "sy_rounds st' = rounds"
    and db: "db_sessions (sy_db st') = db_sessions (sy_db st) @ [row]" "fixed_columns row = (sid, c, ro_id current)"
    and con: "cd_id c \<in> nr_id ` set (sy_conditions st) \<longrightarrow> sy_conditions st' = sy_conditions st"
  from assms(2) have ok: "rounds_ok (sy_rounds st)" "within_goals st" "distinct (map nr_id (sy_conditions st))"
    by (simp_all add: recruiting_def)
  from assms(3) obtain own where own: "own \<in> set (sy_conditions st)" "cd_id c = nr_id own"
    "of_nat (claimedCount (nr_id own) (rd_id (last (sy_rounds st))) (sy_db st)) < cd_goal (condition_of own)"
    "sy_rounds st \<noteq> []" by auto
  note r = current_round_id [OF ok(1) cur(1)]
  from con own have keep: "sy_conditions st' = sy_conditions st" by (metis image_eqI)
  have "of_nat (claimedCount (nr_id x) k (sy_db st')) \<le> cd_goal (condition_of x)"
    if x: "x \<in> set (sy_conditions st)" for x k
  proof (cases "nr_id x = nr_id own \<and> k = ro_id current")
    case True
    then have "x = own" using ok(3) x own(1) by (metis distinct_map inj_onD)
    obtain n where n: "cd_goal (condition_of own) = of_int n" using condition_numbers(2) by blast
    with own(3) have "int (claimedCount (nr_id own) (rd_id (last (sy_rounds st))) (sy_db st)) < n"
      by (metis of_int_less_iff of_int_of_nat_eq)
    moreover have "claimedCount (nr_id x) k (sy_db st') \<le> claimedCount (nr_id x) k (sy_db st) + 1"
      using new_lobby_claims [OF db, of "nr_id x" k] by (simp split: if_splits)
    ultimately have "int (claimedCount (nr_id x) k (sy_db st')) \<le> n"
      using True r own(4) \<open>x = own\<close> by simp
    then show ?thesis unfolding \<open>x = own\<close> n by (metis of_int_le_iff of_int_of_nat_eq)
  next
    case False
    then have "claimedCount (nr_id x) k (sy_db st') \<le> claimedCount (nr_id x) k (sy_db st)"
      using new_lobby_claims [OF db, of "nr_id x" k] own(2) by (auto split: if_splits)
    then have "(of_nat (claimedCount (nr_id x) k (sy_db st')) :: rat) \<le> of_nat (claimedCount (nr_id x) k (sy_db st))"
      by simp
    also have "\<dots> \<le> cd_goal (condition_of x)" using ok(2) x by (simp add: within_goals_def)
    finally show ?thesis .
  qed
  then show ?thesis using ok keep r cur(2) by (simp add: recruiting_def within_goals_def)
qed

lemma assigned_claims:
  assumes "assignCondition compare now cid st = (Inr c, st')" and "recruiting st"
  shows "pc_claims st' (Sp_Create req (with_task taskMode c))"
proof -
  from assigned_condition [OF assms(1)] obtain row current rounds where row: "row \<in> set (sy_conditions st)"
    "c = condition_of row" "currentRound now (sy_rounds st) = (Inr current, rounds)"
    "of_nat (claimedCount (cd_id c) (ro_id current) (sy_db st)) < cd_goal c" by blast
  have st': "sy_db st' = sy_db st" "sy_conditions st' = sy_conditions st" "sy_rounds st' = rounds"
    using assignCondition_fields [of compare now cid st] assms(1) row(3) by simp_all
  have id: "cd_id (with_task taskMode x) = cd_id x" for x by (simp add: with_task_def split: option.split)
  from assms(2) row(1) have "cd_id (condition_of row) = nr_id row" by (simp add: recruiting_def within_goals_def)
  with row current_round_id [OF _ row(3)] assms(2) show ?thesis
    by (auto simp: recruiting_def st' id intro!: bexI [of _ row])
qed

lemma seat_step_recruiting:
  assumes "recruiting st" and "pc_claims st pc" and fresh: "an_fresh an \<notin> sr_id ` set (db_sessions (sy_db st))"
  shows "recruiting (snd (seat_step env an pc st)) \<and>
    pc_claims (snd (seat_step env an pc st)) (fst (seat_step env an pc st))"
proof -
  have keep: "recruiting st'" if "sy_db st' = sy_db st" "sy_conditions st' = sy_conditions st"
    "sy_rounds st' = sy_rounds st \<or> (\<exists>now. sy_rounds st' = snd (currentRound now (sy_rounds st)))" for st'
    using assms(1) that current_round_rows by (auto simp: recruiting_def within_goals_def)
  show ?thesis
  proof (cases pc)
    case (Sp_Lookup req)
    with assms(1) keep show ?thesis by (auto simp: seat_step_def split: sum.split option.split)
  next
    case (Sp_Match req)
    let ?f = "findForming (an_now an) (oq_conditionId req) (an_task an) st"
    have "recruiting (snd ?f)" by (rule keep) (auto simp: findForming_fields)
    then show ?thesis by (auto simp: Sp_Match seat_step_def split: sum.split option.split prod.split)
  next
    case (Sp_Assign req taskMode)
    let ?a = "assignCondition (en_compare env) (an_now an) (oq_conditionId req) st"
    have "recruiting (snd ?a)" by (rule keep) (auto simp: assignCondition_fields)
    with assigned_claims [OF _ assms(1), of "en_compare env" "an_now an" "oq_conditionId req"] show ?thesis
      by (auto simp: Sp_Assign seat_step_def split: sum.split prod.split)
  next
    case (Sp_Create req c)
    let ?c = "createForming (en_uuid env) (en_waitingMinutes env) (an_fresh an) (an_pick an) (an_now an) c st"
    have "recruiting (snd ?c)"
    proof (cases "fst ?c")
      case (Inl e)
      then have "?c = (Inl e, snd ?c)" by (metis prod.collapse)
      note failed = createForming_fails [OF this]
      have "cd_id c \<in> nr_id ` set (sy_conditions st)" using assms(2) by (auto simp: Sp_Create)
      with failed have "sy_conditions (snd ?c) = sy_conditions st" by simp
      then show ?thesis using failed keep [of "snd ?c"] by blast
    next
      case (Inr s)
      then have "?c = (Inr s, snd ?c)" by (metis prod.collapse)
      from created_within_goals [OF this assms(1) assms(2) [unfolded Sp_Create] fresh] show ?thesis .
    qed
    then show ?thesis by (auto simp: Sp_Create seat_step_def split: sum.split prod.split)
  next
    case (Sp_Add req s)
    let ?a = "addParticipant (an_now an) (se_id s) (new_participant (an_fresh an) req) (sy_db st)"
    show ?thesis
    proof (cases ?a)
      case (Inl e)
      with assms(1) show ?thesis by (simp add: Sp_Add seat_step_def Let_def)
    next
      case (Inr d)
      then have "db_sessions d = db_sessions (sy_db st)"
        by (auto simp: addParticipant_def Let_def split: if_splits)
      then have "claimedCount i r d = claimedCount i r (sy_db st)" for i r
        by (simp add: claimedCount_def)
      with assms(1) Inr show ?thesis
        by (simp add: Sp_Add seat_step_def Let_def recruiting_def within_goals_def)
    qed
  next
    case (Sp_Done r)
    with assms show ?thesis by (simp add: seat_step_def)
  qed
qed

lemma round_switch_rows:
  assumes "rounds_ok (sy_rounds st)"
  shows "rounds_ok (sy_rounds (snd (doStartRound env now label st)))"
proof -
  let ?e = "end_lobbies env now
    (\<lambda>_. (Oc_Group_Aborted, ''The waiting lobby closed when the researcher started a new round.''))
    (fst (abortWaitingSessions (sy_db st))) (st\<lparr>sy_db := snd (abortWaitingSessions (sy_db st))\<rparr>)"
  have rows: "sy_rounds (snd ?e) = sy_rounds st" by (simp add: end_lobbies_rounds)
  have "rounds_ok (snd (startNewRound now label (sy_rounds st)))"
    using startNewRound_ok [OF assms, of now label] by auto
  with rows assms show ?thesis
    by (cases ?e) (auto simp: doStartRound_def Let_def split_def split: option.split sum.split)
qed

lemma outside_event_rounds:
  "\<nexists>an. e = Me_Step an \<Longrightarrow> \<nexists>now label. e = Me_Round now label \<Longrightarrow>
     sy_rounds (mk_study (happen env e s)) = sy_rounds (mk_study s)"
  using sweep_fields(2) [of "surroundings_of env" _ "mk_study s"]
  by (cases e) (auto simp: Let_def begin_seat_def upsertCondition_def split: sum.split prod.split,
      (metis snd_conv)+)

lemma outside_event_conditions:
  "\<nexists>an. e = Me_Step an \<Longrightarrow> unedited env s e \<Longrightarrow>
     sy_conditions (mk_study (happen env e s)) = sy_conditions (mk_study s)"
  using sweep_fields(3) [of "surroundings_of env" _ "mk_study s"]
  by (cases e) (auto simp: Let_def begin_seat_def round_fields unedited_def split: sum.split prod.split,
      (metis snd_conv)+)

lemma outside_event_pc:
  "\<nexists>an. e = Me_Step an \<Longrightarrow> mk_pc (happen env e s) = mk_pc s \<or> (\<forall>st. pc_claims st (mk_pc (happen env e s)))"
  by (cases e) (auto simp: Let_def begin_seat_def split: sum.split prod.split)

lemma happen_recruiting:
  assumes "all_recruiting s" and "possible s e" and "unedited env s e"
  shows "all_recruiting (happen env e s)"
proof (cases "\<exists>an. e = Me_Step an")
  case True
  with assms show ?thesis
    using seat_step_recruiting [of "mk_study s" "mk_pc s"] by (auto simp: all_recruiting_def Let_def)
next
  case False
  let ?t = "happen env e s"
  have q: "quiet (sy_db (mk_study s)) (sy_db (mk_study ?t))"
    by (rule quiet_event) (use assms False in \<open>auto simp: unedited_def\<close>)
  have con: "sy_conditions (mk_study ?t) = sy_conditions (mk_study s)"
    using outside_event_conditions False assms(3) by blast
  have goals: "within_goals (mk_study ?t)"
    using quiet_goals [OF q con] assms(1) by (simp add: all_recruiting_def recruiting_def)
  show ?thesis
  proof (cases "\<exists>now label. e = Me_Round now label")
    case True
    then obtain now label where e: "e = Me_Round now label" by blast
    with assms(2) have "pc_claims (mk_study ?t) (mk_pc ?t)" by (cases "mk_pc s") (simp_all add: idle_def)
    with goals con round_switch_rows assms(1) e show ?thesis
      by (simp add: all_recruiting_def recruiting_def)
  next
    case no_round: False
    have rows: "sy_rounds (mk_study ?t) = sy_rounds (mk_study s)"
      using outside_event_rounds False no_round by blast
    have "pc_claims (mk_study ?t) (mk_pc ?t)"
      using outside_event_pc [OF False, of env s] quiet_pc_claims [OF q con rows] assms(1)
      by (auto simp: all_recruiting_def)
    with goals con rows assms(1) show ?thesis by (simp add: all_recruiting_def recruiting_def)
  qed
qed

interpretation recruitment: stepper "match_step env (unedited env)" all_recruiting for env
  by unfold_locales (simp add: match_step_def happen_recruiting)


text \<open>A study with the seeded conditions.\<close>

definition seeded_study :: study where
  "seeded_study =
     seedDb 0 \<lparr>sy_db = empty_db, sy_rounds = [], sy_conditions = [], sy_settings = [], sy_pdb = empty_pdb\<rparr>"

lemma stored_id [simp]: "nr_id (stored now c) = cd_id c"
  by (simp add: stored_def conditionData_def condition_row.defs stored_condition.defs)

lemma stored_reads_id: "cd_id (condition_of (stored now c)) = take 128 (js_trim (cd_id c))"
  by (simp add: condition_of_def stored_def conditionFromRow_def conditionData_def normalizeCondition_def
      condition_row.defs stored_condition.defs)

lemma goal_not_negative: "0 \<le> cd_goal (condition_of row)"
  by (simp add: condition_of_def conditionFromRow_def normalizeCondition_def clampInt_def)

lemma upsert_fresh:
  "distinct (map nr_id (rows @ map (stored now) cs)) \<Longrightarrow>
     foldl (\<lambda>rows c. upsert_condition_row id (stored now c) rows) rows cs = rows @ map (stored now) cs"
  by (induction cs arbitrary: rows) (auto simp: upsert_condition_row_def)

lemma seeded_study_recruits: "recruiting seeded_study"
proof -
  have "distinct (map nr_id (map (stored 0) seedConditions))"
    by (simp add: comp_def seed_ids)
  then have rows: "sy_conditions seeded_study = map (stored 0) seedConditions"
    using upsert_fresh [of "[]" 0 seedConditions] by (simp add: seeded_study_def seedDb_def)
  have seeds: "set (map cd_id seedConditions) = {''baseline'', ''public-llm'', ''private-llm''}" by (simp only: seed_ids) auto
  then have ids: "take 128 (js_trim (cd_id c)) = cd_id c" if "c \<in> set seedConditions" for c
  proof -
    have "cd_id c = ''baseline'' \<or> cd_id c = ''public-llm'' \<or> cd_id c = ''private-llm''"
      using that seeds imageI [OF that, of cd_id] by (simp only: list.set_map insert_iff empty_iff HOL.simp_thms)
    then show ?thesis by (elim disjE) (simp_all add: js_trim_def is_space_def Let_def)
  qed
  have db: "sy_db seeded_study = empty_db" "sy_rounds seeded_study = []"
    by (simp_all add: seeded_study_def seedDb_def)
  have "claimedCount i r empty_db = 0" for i r by (simp add: claimedCount_def empty_db_def)
  with ids goal_not_negative show ?thesis
    by (simp add: recruiting_def within_goals_def rows db comp_def seed_ids stored_reads_id)
qed


section \<open>The chosen condition\<close>

text \<open>A stable sort puts the first of the least elements in front.\<close>

lemma sort_key_front:
  fixes key :: "'a \<Rightarrow> 'k :: linorder"
  assumes "sort_key key xs = x # ys"
  shows "\<exists>pre post. xs = pre @ x # post \<and> (\<forall>y\<in>set pre. key x < key y) \<and> (\<forall>y\<in>set post. key x \<le> key y)"
proof -
  have least: "key x \<le> key y" if "y \<in> set xs" for y
  proof -
    have "sorted (map key (x # ys))" using sorted_sort_key [of key xs] assms by simp
    moreover have "y \<in> set (x # ys)" using that assms set_sort [of key xs] by simp
    ultimately show ?thesis by auto
  qed
  have same: "filter (\<lambda>y. key y = key x) xs = x # filter (\<lambda>y. key y = key x) ys"
    using filter_sort [of "\<lambda>y. key y = key x" key xs] assms
      sort_key_stable [of key "key x" xs] by (simp add: eq_commute)
  then obtain pre post where split: "xs = pre @ x # post" "\<forall>y\<in>set pre. key y \<noteq> key x"
    by (auto simp: filter_eq_Cons_iff)
  with least have "\<forall>y\<in>set pre. key x < key y" "\<forall>y\<in>set post. key x \<le> key y"
    by (auto simp: order_less_le dest!: least)
  with split show ?thesis by blast
qed

text \<open>
  Without a requested condition a new group gets, of the active conditions below their goal,
  the one with the fewest groups in the round, and of several the first in the listed order; if
  none recruits the study is full.
\<close>

theorem assigned_is_least_claimed:
  assumes "currentRound now (sy_rounds st) = (Inr r, rounds)" and "\<not> truthy conditionId"
    and "recruitingConditions compare (ro_id r) (st\<lparr>sy_rounds := rounds\<rparr>) = xs"
  shows "if xs = []
    then fst (assignCondition compare now conditionId st) =
      Inl (Se_Conflict ''Study is full - no active condition needs participants'')
    else \<exists>pre c n post. xs = pre @ (c, n) # post \<and> fst (assignCondition compare now conditionId st) = Inr c \<and>
      (\<forall>y\<in>set pre. n < snd y) \<and> (\<forall>y\<in>set post. n \<le> snd y)"
proof -
  have sort: "js_sort (\<lambda>a b. int (snd a) - int (snd b)) ys = sort_key snd ys" for ys :: "(rat condition \<times> nat) list"
    by (rule js_sort_key) simp
  have assign: "fst (assignCondition compare now conditionId st) =
      (case sort_key snd xs of
         [] \<Rightarrow> Inl (Se_Conflict ''Study is full - no active condition needs participants'')
       | x # _ \<Rightarrow> Inr (fst x))"
    using assms by (simp add: assignCondition_def Let_def sort split: list.split)
  show ?thesis
  proof (cases "sort_key snd xs")
    case Nil
    then have "xs = []" using set_sort [of snd xs] by simp
    with assign show ?thesis by simp
  next
    case (Cons x ys)
    then have "xs \<noteq> []" by auto
    moreover obtain c n where "x = (c, n)" by (cases x)
    ultimately show ?thesis using sort_key_front [OF Cons] assign Cons by auto
  qed
qed

lemma halves: "\<lfloor>(11 :: rat) / 2\<rfloor> = 5" "\<lfloor>(1 :: rat) / 2\<rfloor> = 0"
  by (simp_all add: floor_eq_iff)

lemma seeds_recruit:
  assumes "c \<in> set seedConditions"
  shows "cd_active (condition_of (stored 0 c))" "cd_goal (condition_of (stored 0 c)) = 5"
  using assms halves by (auto simp: seedConditions_def condition_of_def stored_def conditionFromRow_def conditionData_def
      normalizeCondition_def condition_row.defs stored_condition.defs clampInt_def js_round_def)

theorem assigned_is_least_claimed_witness:
  "\<exists>c r. fst (assignCondition (\<lambda>a b. 0) 0 None seeded_study) = Inr c \<and>
    (c, 0) \<in> set (recruitingConditions (\<lambda>a b. 0) r seeded_study)"
proof -
  obtain r rounds where cur: "currentRound 0 (sy_rounds seeded_study) = (Inr r, rounds)"
    using currentRound_ok [of "sy_rounds seeded_study" 0] seeded_study_recruits by (auto simp: recruiting_def)
  let ?xs = "recruitingConditions (\<lambda>a b. 0) (ro_id r) (seeded_study\<lparr>sy_rounds := rounds\<rparr>)"
  have db: "sy_db seeded_study = empty_db" by (simp add: seeded_study_def seedDb_def)
  have rows: "sy_conditions seeded_study = map (stored 0) seedConditions"
    using upsert_fresh [of "[]" 0 seedConditions] by (simp add: seeded_study_def seedDb_def comp_def seed_ids)
  have none: "claimedCount i k empty_db = 0" for i k by (simp add: claimedCount_def empty_db_def)
  have "?xs = map (\<lambda>c. (c, 0)) (filter (\<lambda>c. cd_active c \<and> 0 < cd_goal c) (listConditions (\<lambda>a b. 0) seeded_study))"
    by (simp add: recruitingConditions_def listConditions_def claimed_in_def db none filter_map comp_def)
  moreover have "set (listConditions (\<lambda>a b. 0) seeded_study) = (\<lambda>c. condition_of (stored 0 c)) ` set seedConditions"
    by (simp add: listConditions_def rows image_image)
  moreover from this have "listConditions (\<lambda>a b. 0) seeded_study \<noteq> []"
    by (metis image_is_empty length_0_conv length_seedConditions set_empty zero_neq_numeral)
  ultimately have xs: "?xs \<noteq> []" "\<forall>x\<in>set ?xs. snd x = 0"
    using seeds_recruit by (auto simp: filter_empty_conv)
  from assigned_is_least_claimed [OF cur _ refl, of None "\<lambda>a b. 0"] xs(1)
  obtain pre c n post where "?xs = pre @ (c, n) # post" "fst (assignCondition (\<lambda>a b. 0) 0 None seeded_study) = Inr c"
    by auto
  then have c: "fst (assignCondition (\<lambda>a b. 0) 0 None seeded_study) = Inr c" "(c, n) \<in> set ?xs" by simp_all
  moreover from xs(2) c(2) have "n = 0" by auto
  moreover have "?xs = recruitingConditions (\<lambda>a b. 0) (ro_id r) seeded_study"
    by (simp add: recruitingConditions_def listConditions_def claimed_in_def)
  ultimately show ?thesis by auto
qed

section \<open>A repeated request\<close>

text \<open>
  A direct participant who was given a seat in a session that is not aborted gets this seat
  back when the same request comes again.
\<close>

theorem refresh_returns_seat:
  assumes "seat_step env an (Sp_Add req s) st = (Sp_Done (Inr (s', p, False)), st')"
    and "oq_prolific req = None" and "oq_trackingToken req \<noteq> []" and "live_session (sy_db st) (se_id s)"
  shows "\<exists>s'' p''. fst (seat_step env an' (Sp_Lookup req) st') = Sp_Done (Inr (s'', p'', True)) \<and>
    se_id s'' = se_id s \<and> pt_id p'' = pt_id p"
proof -
  let ?p = "new_participant (an_fresh an) req" and ?t = "oq_trackingToken req"
  from assms(1,2) obtain d where d: "addParticipant (an_now an) (se_id s) ?p (sy_db st) = Inr d"
    "p = ?p" "st' = st\<lparr>sy_db := d\<rparr>"
    by (auto simp: seat_step_def Let_def link_seat_def split: sum.splits)
  let ?row = "participantCreateData (an_now an) (se_id s) ?p"
  have db: "db_sessions d = db_sessions (sy_db st)" "db_participants d = db_participants (sy_db st) @ [?row]"
    using d(1) by (auto simp: addParticipant_def Let_def split: if_splits)
  have row: "pr_trackingToken ?row = ?t" "pr_sessionId ?row = se_id s" "pr_id ?row = pt_id ?p"
    by (simp_all add: participantCreateData_def new_participant_def)
  have "live_session d (se_id s)" using assms(4) by (simp add: live_session_def session_row_of_def db(1))
  then have first: "find (\<lambda>r. pr_trackingToken r = ?t \<and> live_session d (pr_sessionId r)) (rev (db_participants d)) = Some ?row"
    by (simp add: db(2) row)
  obtain x where x: "session_row_of d (se_id s) = Some x"
    using assms(4) by (auto simp: live_session_def session_row_of_def db(1) split: option.splits)
  then have id: "sr_id x = se_id s" by (auto simp: session_row_of_def dest: find_SomeD)
  let ?s = "sessionFromRow d x"
  have "\<exists>q\<in>set (se_participants ?s). pt_id q = pr_id ?row"
    using row(2) by (auto simp: session_participants db(2) id intro!: bexI [of _ ?row])
  then obtain q where q: "find (\<lambda>q. pt_id q = pr_id ?row) (se_participants ?s) = Some q" "pt_id q = pr_id ?row"
    by (cases "find (\<lambda>q. pt_id q = pr_id ?row) (se_participants ?s)") (auto simp: find_None_iff dest: find_SomeD)
  then have "findByTrackingToken ?t d = Some (?s, q)"
    using assms(3) first x by (simp add: findByTrackingToken_def seat_of_row_def getSession_def load_session_def row(2))
  moreover have "se_id ?s = se_id s" using id by (simp add: sessionFromRow_def Let_def)
  ultimately show ?thesis using assms(2) q(2) d(2,3) row(3)
    by (simp add: seat_step_def existing_seat_def link_seat_def)
qed

theorem refresh_returns_seat_witness:
  "\<exists>s p. fst (seat_step sample_deployment (sample_answers ''y'') (Sp_Lookup sample_request)
      (snd (seat_step sample_deployment (sample_answers ''p2'')
        (Sp_Add sample_request (sessionFromRow (sy_db lobby_study) (sessionCreateData 0 sample_lobby))) lobby_study))) =
    Sp_Done (Inr (s, p, True)) \<and> se_id s = ''s1'' \<and> pt_id p = ''p2''"
proof -
  let ?s = "sessionFromRow (sy_db lobby_study) (sessionCreateData 0 sample_lobby)"
  have id: "se_id ?s = ''s1''" by (simp add: sessionFromRow_def Let_def lobby_row)
  have row: "session_row_of (sy_db lobby_study) ''s1'' = Some (sessionCreateData 0 sample_lobby)"
    by (simp add: lobby_study_def session_row_of_def lobby_row)
  let ?p = "new_participant ''p2'' sample_request"
  have pid: "pt_id ?p = ''p2''" by (simp add: new_participant_def)
  have "\<not> list_ex (seat_taken (participantCreateData 20 ''s1'' ?p)) (db_participants (sy_db lobby_study))"
    by (simp add: lobby_study_def participantCreateData_def seat_taken_def new_participant_def sample_request_def
        prolific_member_def sample_participant_def)
  with row have "\<exists>d. addParticipant 20 ''s1'' ?p (sy_db lobby_study) = Inr d"
    by (simp add: addParticipant_def Let_def)
  moreover have "an_now (sample_answers x) = 20" "an_fresh (sample_answers x) = x" for x
    by (simp_all add: sample_answers_def)
  ultimately obtain s' p st' where "seat_step sample_deployment (sample_answers ''p2'') (Sp_Add sample_request ?s) lobby_study =
      (Sp_Done (Inr (s', p, False)), st')" "pt_id p = ''p2''"
    using that by (auto simp: seat_step_def Let_def lobby_row pid)
  moreover from this refresh_returns_seat [OF this(1), of "sample_answers ''y''"] show ?thesis
    using row by (auto simp: id sample_request_def live_session_def lobby_row)
qed

end
