(* ===== verification/Room_Provisioning.thy ===== *)
theory Room_Provisioning
  imports Store_Refinement
begin

text \<open>
  The Matrix side of a session: session-manager/src/sessions/room-provisioning.ts. A provisioning
  attempt and an access request are program counters that stop at every await; the homeserver and
  the Chat Service answer each request or fail, and their acknowledgements are kept in a log. One
  attempt per session and one access request per participant are in progress at a time. Between
  two steps the rest of the Session Manager changes the store.

  The lemmas: a room is published only when the Chat Service has accepted it and every member has
  joined it, over every interleaving with failures, retries and everything else; a session's room
  and a participant's credentials are never replaced; a full group is running at the end of an
  attempt in which every service answers. A group whose member left between the check of its size
  and the claim starts short.
\<close>

section \<open>State\<close>

datatype matrix_reply = Mx_Failed | Mx_Ok string

datatype matrix_effect =
    Fx_Registered matrix_creds
  | Fx_Created string string
  | Fx_Invited string string
  | Fx_Joined string string
  | Fx_Power string string int
  | Fx_Started start_notification

datatype provision_error =
    Pe_Unknown_Session | Pe_No_Credentials string | Pe_Matrix | Pe_Chat_Service | Pe_Left_Provisioning
  | Pe_Store

text \<open>
  Where an attempt is: loading the session, checking the credentials of its participants, claiming
  it, reloading it, having a room made, storing the room, reading, inviting and joining a member
  (the flag says that the invitation failed), asking for the bot, inviting it, empowering it,
  handing the session to the Chat Service, publishing the room, reading the outcome, and done.
\<close>

datatype provision_pc =
    Pv_Load
  | Pv_Check session "participant list"
  | Pv_Claim session
  | Pv_Reload
  | Pv_Create session
  | Pv_Store_Room session string
  | Pv_Member session string "participant list"
  | Pv_Invite session string matrix_creds "participant list"
  | Pv_Join session string matrix_creds bool "participant list"
  | Pv_Bot session string
  | Pv_Invite_Bot session string string
  | Pv_Bot_Power session string string
  | Pv_Start session string int
  | Pv_Publish session string int
  | Pv_Final
  | Pv_Done "provision_error + session"

text \<open>Where an access request is.\<close>

datatype access_pc =
    Ac_Read session
  | Ac_Register session
  | Ac_Save session matrix_creds
  | Ac_Invite session matrix_creds
  | Ac_Join session matrix_creds
  | Ac_Done "provision_error + matrix_creds"

record provisioner =
  pv_db :: db
  pv_log :: "matrix_effect list"
  pv_attempts :: "string \<Rightarrow> provision_pc option"
  pv_access :: "string \<Rightarrow> access_pc option"

section \<open>An attempt\<close>

definition bot_power :: int where
  "bot_power = 50"

definition full_group :: "session \<Rightarrow> bool" where
  "full_group s =
     ((se_status s = Waiting \<or> se_status s = Provisioning) \<and>
      cd_groupSize (se_condition s) \<le> of_nat (length (se_participants s)))"

definition start_note :: "session \<Rightarrow> start_notification" where
  "start_note s =
     \<lparr>sn_sessionId = se_id s, sn_roomId = orelse (se_roomId s) [], sn_condition = se_condition s,
      sn_durationMinutes = se_durationMinutes s, sn_startedAt = Option.bind (se_startedAt s) parse_ms,
      sn_participantUserIds =
        concat (map (\<lambda>p. if truthy (pt_matrixUserId p) then [the (pt_matrixUserId p)] else [])
          (se_participants s)),
      sn_checkpoint = None\<rparr>"

definition ready_session :: "session \<Rightarrow> string \<Rightarrow> int \<Rightarrow> session" where
  "ready_session s room startedAt =
     s\<lparr>se_roomId := Some room, se_status := Running, se_startedAt := Some (Stamp startedAt)\<rparr>"

definition room_name :: "session \<Rightarrow> string" where
  "room_name s = ''GDM '' @ cd_name (se_condition s) @ [CHR '' '', CHR 0xB7, CHR '' ''] @ take 8 (se_id s)"

text \<open>Where \<open>provision\<close> begins: with a room to make, or with the room of an earlier attempt.\<close>

definition begin_provision :: "session \<Rightarrow> provision_pc" where
  "begin_provision s =
     (if truthy (se_roomId s) then Pv_Member s (the (se_roomId s)) (se_participants s) else Pv_Create s)"

definition checked :: "session \<Rightarrow> participant list \<Rightarrow> provision_pc" where
  "checked s ps =
     (case ps of
        [] \<Rightarrow> (if se_status s = Waiting then Pv_Claim s else begin_provision s)
      | p # rest \<Rightarrow> Pv_Check s ps)"

definition next_member :: "session \<Rightarrow> string \<Rightarrow> participant list \<Rightarrow> provision_pc" where
  "next_member s room ps = (case ps of [] \<Rightarrow> Pv_Bot s room | p # rest \<Rightarrow> Pv_Member s room ps)"

fun provision_step ::
    "string \<Rightarrow> int \<Rightarrow> matrix_reply \<Rightarrow> provision_pc \<Rightarrow> db \<Rightarrow> provision_pc \<times> db \<times> matrix_effect list" where
  "provision_step sid now reply Pv_Load d =
     (case getSession sid d of
        None \<Rightarrow> (Pv_Done (Inl Pe_Unknown_Session), d, [])
      | Some s \<Rightarrow> (if full_group s then checked s (se_participants s) else Pv_Done (Inr s), d, []))"
| "provision_step sid now reply (Pv_Check s ps) d =
     (case ps of
        [] \<Rightarrow> (checked s [], d, [])
      | p # rest \<Rightarrow>
          (if getParticipantCreds (pt_id p) d = None then Pv_Done (Inr s) else checked s rest, d, []))"
| "provision_step sid now reply (Pv_Claim s) d =
     (let (claimed, d') = claimSessionProvisioning sid d in
      (if claimed then Pv_Reload else Pv_Final, d', []))"
| "provision_step sid now reply Pv_Reload d =
     (case getSession sid d of
        None \<Rightarrow> (Pv_Done (Inl Pe_Unknown_Session), d, [])
      | Some s \<Rightarrow> (begin_provision s, d, []))"
| "provision_step sid now reply (Pv_Create s) d =
     (case reply of
        Mx_Failed \<Rightarrow> (Pv_Done (Inl Pe_Matrix), d, [])
      | Mx_Ok room \<Rightarrow> (Pv_Store_Room s room, d, [Fx_Created (room_name s) room]))"
| "provision_step sid now reply (Pv_Store_Room s room) d =
     (case updateSessionLifecycle now sid
         \<lparr>lp_status = None, lp_roomId = Some room, lp_startedAt = None, lp_completedAt = None\<rparr> d of
        Inl e \<Rightarrow> (Pv_Done (Inl Pe_Store), d, [])
      | Inr d' \<Rightarrow> (next_member (s\<lparr>se_roomId := Some room\<rparr>) room (se_participants s), d', []))"
| "provision_step sid now reply (Pv_Member s room ps) d =
     (case ps of
        [] \<Rightarrow> (Pv_Bot s room, d, [])
      | p # rest \<Rightarrow>
          (case getParticipantCreds (pt_id p) d of
             None \<Rightarrow> (Pv_Done (Inl (Pe_No_Credentials (pt_id p))), d, [])
           | Some c \<Rightarrow> (Pv_Invite s room c rest, d, [])))"
| "provision_step sid now reply (Pv_Invite s room c rest) d =
     (case reply of
        Mx_Failed \<Rightarrow> (Pv_Join s room c True rest, d, [])
      | Mx_Ok x \<Rightarrow> (Pv_Join s room c False rest, d, [Fx_Invited room (mc_userId c)]))"
| "provision_step sid now reply (Pv_Join s room c uninvited rest) d =
     (case reply of
        Mx_Failed \<Rightarrow> (Pv_Done (Inl Pe_Matrix), d, [])
      | Mx_Ok x \<Rightarrow> (next_member s room rest, d, [Fx_Joined room (mc_accessToken c)]))"
| "provision_step sid now reply (Pv_Bot s room) d =
     (case reply of
        Mx_Ok (c # user) \<Rightarrow> (Pv_Invite_Bot s room (c # user), d, [])
      | _ \<Rightarrow> (Pv_Start s room now, d, []))"
| "provision_step sid now reply (Pv_Invite_Bot s room botId) d =
     (case reply of
        Mx_Failed \<Rightarrow> (Pv_Start s room now, d, [])
      | Mx_Ok x \<Rightarrow> (Pv_Bot_Power s room botId, d, [Fx_Invited room botId]))"
| "provision_step sid now reply (Pv_Bot_Power s room botId) d =
     (Pv_Start s room now, d, (case reply of Mx_Failed \<Rightarrow> [] | Mx_Ok x \<Rightarrow> [Fx_Power room botId bot_power]))"
| "provision_step sid now reply (Pv_Start s room startedAt) d =
     (case reply of
        Mx_Failed \<Rightarrow> (Pv_Done (Inl Pe_Chat_Service), d, [])
      | Mx_Ok x \<Rightarrow>
          (Pv_Publish s room startedAt, d, [Fx_Started (start_note (ready_session s room startedAt))]))"
| "provision_step sid now reply (Pv_Publish s room startedAt) d =
     (let (published, d') = finishSessionProvisioning now sid room (Stamp startedAt) d in
      (if published then Pv_Final else Pv_Done (Inl Pe_Left_Provisioning), d', []))"
| "provision_step sid now reply Pv_Final d =
     ((case getSession sid d of None \<Rightarrow> Pv_Done (Inl Pe_Unknown_Session) | Some s \<Rightarrow> Pv_Done (Inr s)), d, [])"
| "provision_step sid now reply (Pv_Done r) d = (Pv_Done r, d, [])"

section \<open>Access\<close>

fun access_step ::
    "string \<Rightarrow> matrix_reply \<Rightarrow> matrix_creds \<Rightarrow> access_pc \<Rightarrow> db \<Rightarrow> access_pc \<times> db \<times> matrix_effect list" where
  "access_step pid reply fresh (Ac_Read s) d =
     ((case getParticipantCreds pid d of Some c \<Rightarrow> Ac_Done (Inr c) | None \<Rightarrow> Ac_Register s), d, [])"
| "access_step pid reply fresh (Ac_Register s) d =
     (case reply of
        Mx_Failed \<Rightarrow> (Ac_Done (Inl Pe_Matrix), d, [])
      | Mx_Ok x \<Rightarrow> (Ac_Save s fresh, d, [Fx_Registered fresh]))"
| "access_step pid reply fresh (Ac_Save s c) d =
     (case setParticipantCreds pid c d of
        None \<Rightarrow> (Ac_Done (Inl Pe_Store), d, [])
      | Some d' \<Rightarrow> (if truthy (se_roomId s) then Ac_Invite s c else Ac_Done (Inr c), d', []))"
| "access_step pid reply fresh (Ac_Invite s c) d =
     (case reply of
        Mx_Failed \<Rightarrow> (Ac_Done (Inl Pe_Matrix), d, [])
      | Mx_Ok x \<Rightarrow> (Ac_Join s c, d, [Fx_Invited (the (se_roomId s)) (mc_userId c)]))"
| "access_step pid reply fresh (Ac_Join s c) d =
     (case reply of
        Mx_Failed \<Rightarrow> (Ac_Done (Inl Pe_Matrix), d, [])
      | Mx_Ok x \<Rightarrow> (Ac_Done (Inr c), d, [Fx_Joined (the (se_roomId s)) (mc_accessToken c)]))"
| "access_step pid reply fresh (Ac_Done r) d = (Ac_Done r, d, [])"

section \<open>Everything together\<close>

text \<open>
  \<open>Ve_Poll\<close> is \<open>provisionInBackgroundIfFull\<close> for a session that was read at some time,
  \<open>Ve_Access\<close> the call of \<open>ensureParticipantAccess\<close>; the store changes by \<open>Ve_Store\<close>.
\<close>

datatype provision_event =
    Ve_Poll session
  | Ve_Step string int matrix_reply
  | Ve_Access session string
  | Ve_Access_Step string matrix_reply matrix_creds
  | Ve_Store int store_op
  | Ve_Checkpoint int string checkpoint

definition attempt_over :: "provision_pc option \<Rightarrow> bool" where
  "attempt_over pc = (case pc of None \<Rightarrow> True | Some (Pv_Done r) \<Rightarrow> True | _ \<Rightarrow> False)"

definition access_over :: "access_pc option \<Rightarrow> bool" where
  "access_over pc = (case pc of None \<Rightarrow> True | Some (Ac_Done r) \<Rightarrow> True | _ \<Rightarrow> False)"

definition provisionInBackgroundIfFull :: "session \<Rightarrow> provisioner \<Rightarrow> provisioner" where
  "provisionInBackgroundIfFull s w =
     (if full_group s \<and> attempt_over (pv_attempts w (se_id s))
      then w\<lparr>pv_attempts := (pv_attempts w)(se_id s \<mapsto> Pv_Load)\<rparr> else w)"

definition ensureParticipantAccess :: "session \<Rightarrow> string \<Rightarrow> provisioner \<Rightarrow> provisioner" where
  "ensureParticipantAccess s pid w =
     (if access_over (pv_access w pid) then w\<lparr>pv_access := (pv_access w)(pid \<mapsto> Ac_Read s)\<rparr> else w)"

fun provisioner_step :: "(nat \<Rightarrow> string) \<Rightarrow> provisioner \<Rightarrow> provision_event \<Rightarrow> provisioner" where
  "provisioner_step uuid w (Ve_Poll s) = provisionInBackgroundIfFull s w"
| "provisioner_step uuid w (Ve_Step sid now reply) =
     (case pv_attempts w sid of
        None \<Rightarrow> w
      | Some pc \<Rightarrow>
          (let (pc', d, fx) = provision_step sid now reply pc (pv_db w) in
           w\<lparr>pv_db := d, pv_log := pv_log w @ fx, pv_attempts := (pv_attempts w)(sid \<mapsto> pc')\<rparr>))"
| "provisioner_step uuid w (Ve_Access s pid) = ensureParticipantAccess s pid w"
| "provisioner_step uuid w (Ve_Access_Step pid reply fresh) =
     (case pv_access w pid of
        None \<Rightarrow> w
      | Some pc \<Rightarrow>
          (let (pc', d, fx) = access_step pid reply fresh pc (pv_db w) in
           w\<lparr>pv_db := d, pv_log := pv_log w @ fx, pv_access := (pv_access w)(pid \<mapsto> pc')\<rparr>))"
| "provisioner_step uuid w (Ve_Store now q) = w\<lparr>pv_db := snd (run_db uuid now q (pv_db w))\<rparr>"
| "provisioner_step uuid w (Ve_Checkpoint now sid cp) =
     w\<lparr>pv_db := orelse (ok_of (persistRuntimeCheckpoint uuid now sid cp (pv_db w))) (pv_db w)\<rparr>"

text \<open>
  What the rest of the Session Manager asks of the store: new sessions are lobbies without a room
  and without participants, seats are added to waiting lobbies only, claims and publications come
  from the provisioner alone, and a lifecycle write ends a session.
\<close>

fun elsewhere :: "db \<Rightarrow> store_op \<Rightarrow> bool" where
  "elsewhere d (Op_Create s) =
     (se_id s \<notin> sr_id ` set (db_sessions d) \<and> se_status s = Waiting \<and> se_roomId s = None \<and> se_participants s = [])"
| "elsewhere d (Op_Add sid p) = (map_option sr_status (session_row_of d sid) = Some Waiting)"
| "elsewhere d (Op_Lifecycle sid p) =
     (lp_roomId p = None \<and> (lp_status p = Some Aborted \<or> lp_status p = Some Completed))"
| "elsewhere d (Op_Claim sid) = False"
| "elsewhere d (Op_Finish sid room t) = False"
| "elsewhere d (Op_Creds pid c) = False"
| "elsewhere d _ = True"

definition world_step :: "(nat \<Rightarrow> string) \<Rightarrow> provisioner \<Rightarrow> provision_event \<Rightarrow> provisioner" where
  "world_step uuid w e =
     (case e of
        Ve_Store now q \<Rightarrow> if elsewhere (pv_db w) q then provisioner_step uuid w e else w
      | _ \<Rightarrow> provisioner_step uuid w e)"

section \<open>Lemmas: what the rest of the Session Manager changes\<close>

definition quiet_row :: "session_row \<Rightarrow> session_row \<Rightarrow> bool" where
  "quiet_row r r' =
     (sr_id r' = sr_id r \<and> sr_roomId r' = sr_roomId r \<and>
      (sr_status r' = sr_status r \<or> sr_status r' = Aborted \<or> sr_status r' = Completed \<or>
       sr_status r = Waiting \<and> sr_status r' = Provisioning))"

definition member_ids :: "db \<Rightarrow> string \<Rightarrow> string list" where
  "member_ids d sid = map pr_id (filter (\<lambda>p. pr_sessionId p = sid) (db_participants d))"

definition same_access :: "participant_row \<Rightarrow> participant_row \<Rightarrow> bool" where
  "same_access p p' =
     (pr_id p' = pr_id p \<and> pr_sessionId p' = pr_sessionId p \<and> creds_of_row p' = creds_of_row p)"

text \<open>
  A change that leaves rooms, credentials and the members of every group past its lobby alone, and
  starts nothing.
\<close>

definition tame :: "db \<Rightarrow> db \<Rightarrow> bool" where
  "tame d d' =
     ((\<forall>sid r. session_row_of d sid = Some r \<longrightarrow>
         (\<exists>r'. session_row_of d' sid = Some r' \<and> quiet_row r r') \<and>
         (sr_status r \<noteq> Waiting \<longrightarrow> member_ids d' sid = member_ids d sid \<and>
            (\<forall>i\<in>set (member_ids d sid). getParticipantCreds i d' = getParticipantCreds i d))) \<and>
      (\<forall>sid r'. session_row_of d sid = None \<longrightarrow> session_row_of d' sid = Some r' \<longrightarrow> sr_status r' \<noteq> Running) \<and>
      (\<forall>i. getParticipantCreds i d = None \<longrightarrow> getParticipantCreds i d' = None) \<and>
      (distinct (map pr_id (db_participants d)) \<longrightarrow> distinct (map pr_id (db_participants d'))) \<and>
      (distinct (map sr_id (db_sessions d)) \<longrightarrow> distinct (map sr_id (db_sessions d'))))"

lemma tameI:
  assumes "\<And>sid r. session_row_of d sid = Some r \<Longrightarrow> \<exists>r'. session_row_of d' sid = Some r' \<and> quiet_row r r'"
    and "\<And>sid r. session_row_of d sid = Some r \<Longrightarrow> sr_status r \<noteq> Waiting \<Longrightarrow> member_ids d' sid = member_ids d sid"
    and "\<And>sid r i. session_row_of d sid = Some r \<Longrightarrow> sr_status r \<noteq> Waiting \<Longrightarrow> i \<in> set (member_ids d sid) \<Longrightarrow>
      getParticipantCreds i d' = getParticipantCreds i d"
    and "\<And>sid r'. session_row_of d sid = None \<Longrightarrow> session_row_of d' sid = Some r' \<Longrightarrow> sr_status r' \<noteq> Running"
    and "\<And>i. getParticipantCreds i d = None \<Longrightarrow> getParticipantCreds i d' = None"
    and "distinct (map pr_id (db_participants d'))"
    and "distinct (map sr_id (db_sessions d)) \<Longrightarrow> distinct (map sr_id (db_sessions d'))"
  shows "tame d d'"
  using assms unfolding tame_def by blast

lemma tame_refl [simp]: "tame d d"
  by (auto simp: tame_def quiet_row_def)

lemma find_same_id:
  "distinct (map pr_id ps) \<Longrightarrow> p \<in> set ps \<Longrightarrow> find (\<lambda>r. pr_id r = pr_id p) ps = Some p"
  by (induction ps) auto

lemma creds_of_member:
  "distinct (map pr_id (db_participants d)) \<Longrightarrow> p \<in> set (db_participants d) \<Longrightarrow>
     getParticipantCreds (pr_id p) d = creds_of_row p"
  by (simp add: getParticipantCreds_def find_same_id)

lemma no_creds_row:
  "distinct (map pr_id (db_participants d)) \<Longrightarrow> getParticipantCreds i d = None \<longleftrightarrow>
     (\<forall>p\<in>set (db_participants d). pr_id p = i \<longrightarrow> creds_of_row p = None)"
proof (cases "find (\<lambda>r. pr_id r = i) (db_participants d)")
  case (Some p)
  assume d: "distinct (map pr_id (db_participants d))"
  from find_SomeD [OF Some] have p: "p \<in> set (db_participants d)" "pr_id p = i" by auto
  then have "q = p" if "q \<in> set (db_participants d)" "pr_id q = i" for q
    using d that by (metis distinct_map inj_onD)
  with p have "(\<forall>q\<in>set (db_participants d). pr_id q = i \<longrightarrow> creds_of_row q = None) \<longleftrightarrow> creds_of_row p = None"
    by blast
  with Some show ?thesis by (simp add: getParticipantCreds_def)
next
  case None
  then have "\<forall>p\<in>set (db_participants d). pr_id p \<noteq> i" by (auto simp: find_None_iff)
  with None show ?thesis by (simp add: getParticipantCreds_def)
qed

lemma tame_maps:
  assumes sessions: "db_sessions d' = map g (db_sessions d)" "\<And>r. quiet_row r (g r)"
    and seats: "db_participants d' = map f (filter P (db_participants d))" "\<And>p. same_access p (f p)"
    and left: "\<And>p. p \<in> set (db_participants d) \<Longrightarrow> \<not> P p \<Longrightarrow>
      map_option sr_status (session_row_of d (pr_sessionId p)) = Some Waiting"
    and ids: "distinct (map pr_id (db_participants d))"
  shows "tame d d'"
proof -
  have f: "pr_id (f p) = pr_id p" "pr_sessionId (f p) = pr_sessionId p" "creds_of_row (f p) = creds_of_row p" for p
    using seats(2) by (simp_all add: same_access_def)
  have g: "sr_id (g r) = sr_id r" for r using sessions(2) by (simp add: quiet_row_def)
  have row: "session_row_of d' sid = map_option g (session_row_of d sid)" for sid
    by (simp add: session_row_of_def sessions(1) find_map comp_def g)
  have ids': "distinct (map pr_id (db_participants d'))"
    using ids by (simp add: seats(1) comp_def f distinct_map_filter)
  have members: "member_ids d' sid = map pr_id (filter (\<lambda>p. P p \<and> pr_sessionId p = sid) (db_participants d))" for sid
    by (simp add: member_ids_def seats(1) filter_map comp_def f conj_commute)
  have keep: "member_ids d' sid = member_ids d sid \<and>
      (\<forall>i\<in>set (member_ids d sid). getParticipantCreds i d' = getParticipantCreds i d)"
    if r: "session_row_of d sid = Some r" "sr_status r \<noteq> Waiting" for sid r
  proof -
    have all: "P p" if "p \<in> set (db_participants d)" "pr_sessionId p = sid" for p
      using left [of p] that r by auto
    then have "filter (\<lambda>p. P p \<and> pr_sessionId p = sid) (db_participants d) =
        filter (\<lambda>p. pr_sessionId p = sid) (db_participants d)" by (intro filter_cong) auto
    moreover have "getParticipantCreds i d' = getParticipantCreds i d" if i: "i \<in> set (member_ids d sid)" for i
    proof -
      from i obtain p where p: "p \<in> set (db_participants d)" "pr_sessionId p = sid" "i = pr_id p"
        by (auto simp: member_ids_def)
      with all have "f p \<in> set (db_participants d')" by (auto simp: seats(1))
      from creds_of_member [OF ids' this] creds_of_member [OF ids p(1)] show ?thesis by (simp add: f p(3))
    qed
    ultimately show ?thesis unfolding members by (simp add: member_ids_def)
  qed
  have "getParticipantCreds i d' = None" if "getParticipantCreds i d = None" for i
    using that unfolding no_creds_row [OF ids] no_creds_row [OF ids'] by (auto simp: seats(1) f)
  moreover have "\<exists>r'. session_row_of d' sid = Some r' \<and> quiet_row r r'" if "session_row_of d sid = Some r" for sid r
    using that sessions(2) by (simp add: row)
  moreover have "session_row_of d' sid = None" if "session_row_of d sid = None" for sid
    using that by (simp add: row)
  moreover have "map sr_id (db_sessions d') = map sr_id (db_sessions d)" by (simp add: sessions(1) comp_def g)
  ultimately show ?thesis using keep ids' by (intro tameI) auto
qed

lemma same_access_refl [simp]: "same_access p p"
  by (simp add: same_access_def)

lemma quiet_row_refl [simp]: "quiet_row r r"
  by (simp add: quiet_row_def)

lemma tame_sessions:
  "(\<And>r. quiet_row r (f r)) \<Longrightarrow> distinct (map pr_id (db_participants d)) \<Longrightarrow> tame d (update_session_row sid f d)"
  by (rule tame_maps [where g = "\<lambda>r. if sr_id r = sid then f r else r" and f = "\<lambda>p. p" and P = "\<lambda>p. True"])
    (simp_all add: update_session_row_def)

lemma tame_update_if:
  "(\<And>r. p r \<Longrightarrow> quiet_row r (f r)) \<Longrightarrow> distinct (map pr_id (db_participants d)) \<Longrightarrow>
     tame d (snd (update_if sid p f d))"
  by (simp add: update_if_def tame_sessions)

lemma quiet_attempt_rows [simp]:
  "quiet_row r (set_status Aborted r)" "quiet_row r (mergedSessionState rs cp r)"
  "lp_roomId p = None \<Longrightarrow> lp_status p = Some Aborted \<or> lp_status p = Some Completed \<Longrightarrow> quiet_row r (patch_row now p r)"
  by (auto simp: quiet_row_def set_status_def mergedSessionState_def Let_def patch_row_def keep_undefined_def)

lemma tame_row:
  assumes "tame d d'" and "session_row_of d sid = Some r"
  obtains r' where "session_row_of d' sid = Some r'" "quiet_row r r'"
  using assms unfolding tame_def by blast

lemma tame_members:
  assumes "tame d d'" and "session_row_of d sid = Some r" and "sr_status r \<noteq> Waiting"
  shows "member_ids d' sid = member_ids d sid"
    and "i \<in> set (member_ids d sid) \<Longrightarrow> getParticipantCreds i d' = getParticipantCreds i d"
  using assms unfolding tame_def by blast+

lemma tame_creds: "tame d d' \<Longrightarrow> getParticipantCreds i d = None \<Longrightarrow> getParticipantCreds i d' = None"
  unfolding tame_def by blast

lemma tame_ids: "tame d d' \<Longrightarrow> distinct (map pr_id (db_participants d)) \<Longrightarrow> distinct (map pr_id (db_participants d'))"
  unfolding tame_def by blast

lemma tame_session_ids: "tame d d' \<Longrightarrow> distinct (map sr_id (db_sessions d)) \<Longrightarrow> distinct (map sr_id (db_sessions d'))"
  unfolding tame_def by blast

lemma tame_new_row: "tame d d' \<Longrightarrow> session_row_of d sid = None \<Longrightarrow> session_row_of d' sid = Some r \<Longrightarrow> sr_status r \<noteq> Running"
  unfolding tame_def by blast

lemma quiet_not_waiting: "quiet_row r r' \<Longrightarrow> sr_status r \<noteq> Waiting \<Longrightarrow> sr_status r' \<noteq> Waiting"
  by (auto simp: quiet_row_def)

lemma quiet_not_running: "quiet_row r r' \<Longrightarrow> sr_status r \<noteq> Running \<Longrightarrow> sr_status r' \<noteq> Running"
  by (auto simp: quiet_row_def)

lemma quiet_row_trans: "quiet_row r s \<Longrightarrow> quiet_row s t \<Longrightarrow> quiet_row r t"
  by (auto simp: quiet_row_def)

lemma tame_trans:
  assumes "tame d e" and "tame e f"
  shows "tame d f"
  unfolding tame_def
proof (intro conjI allI impI ballI)
  fix sid r assume r: "session_row_of d sid = Some r"
  from tame_row [OF assms(1) r] obtain s where s: "session_row_of e sid = Some s" "quiet_row r s" .
  from tame_row [OF assms(2) s(1)] s(2) quiet_row_trans
  show "\<exists>r'. session_row_of f sid = Some r' \<and> quiet_row r r'" by metis
  assume w: "sr_status r \<noteq> Waiting"
  note de = tame_members [OF assms(1) r w] and ef = tame_members [OF assms(2) s(1) quiet_not_waiting [OF s(2) w]]
  show "member_ids f sid = member_ids d sid" by (simp add: de(1) ef(1))
  fix i assume "i \<in> set (member_ids d sid)"
  then show "getParticipantCreds i f = getParticipantCreds i d" by (simp add: de ef(2))
next
  fix sid r assume none: "session_row_of d sid = None" and f: "session_row_of f sid = Some r"
  show "sr_status r \<noteq> Running"
  proof (cases "session_row_of e sid")
    case None
    from tame_new_row [OF assms(2) this f] show ?thesis .
  next
    case (Some s)
    from tame_row [OF assms(2) Some] f have "quiet_row s r" by auto
    with tame_new_row [OF assms(1) none Some] show ?thesis by (rule quiet_not_running [rotated])
  qed
next
  fix i assume "getParticipantCreds i d = None"
  then show "getParticipantCreds i f = None" by (intro tame_creds [OF assms(2)] tame_creds [OF assms(1)])
next
  assume "distinct (map pr_id (db_participants d))"
  then show "distinct (map pr_id (db_participants f))" by (intro tame_ids [OF assms(2)] tame_ids [OF assms(1)])
next
  assume "distinct (map sr_id (db_sessions d))"
  then show "distinct (map sr_id (db_sessions f))"
    by (intro tame_session_ids [OF assms(2)] tame_session_ids [OF assms(1)])
qed

lemma tame_abort: "distinct (map pr_id (db_participants d)) \<Longrightarrow> tame d (snd (abortLobbies statuses deadline d))"
proof -
  have "distinct (map pr_id (db_participants (snd acc))) \<Longrightarrow>
      tame (snd acc) (snd (foldl (abort_lobby statuses deadline) acc lobbies))" for acc lobbies
  proof (induction lobbies arbitrary: acc)
    case (Cons l lobbies)
    have "tame (snd acc) (snd (abort_lobby statuses deadline acc l))"
      using tame_update_if [OF quiet_attempt_rows(1) Cons.prems] by (simp add: abort_lobby_def split_def Let_def)
    moreover from this Cons.prems have "distinct (map pr_id (db_participants (snd (abort_lobby statuses deadline acc l))))"
      by (simp add: tame_def)
    ultimately show ?case using Cons.IH tame_trans by simp
  qed simp
  from this [of "([], d)"] show "distinct (map pr_id (db_participants d)) \<Longrightarrow> ?thesis"
    by (simp add: abortLobbies_def)
qed

lemma tame_chat: "chat_write d e \<Longrightarrow> distinct (map pr_id (db_participants d)) \<Longrightarrow> tame d e"
  by (rule tame_maps [where g = "\<lambda>r. r" and f = "\<lambda>p. p" and P = "\<lambda>p. True"]) (simp_all add: chat_write_def)

lemma tame_checkpoint:
  assumes "distinct (map pr_id (db_participants d))"
  shows "persistRuntimeCheckpoint uuid now sid cp d = Inr d' \<Longrightarrow> tame d d'"
proof (erule persist_chat)
  fix row e
  assume e: "chat_write d e" and d': "d' = finish_checkpoint now sid (map kr_ranking (session_rankings d sid))
    (stored_checkpoint row cp) e"
  have "tame d e" by (rule tame_chat [OF e assms])
  moreover have "tame e d'"
    using e assms unfolding d' finish_checkpoint_def
    by (intro tame_maps [where f = "\<lambda>p. p" and P = "\<lambda>p. True" and
          g = "\<lambda>r. if sr_id r = sid then mergedSessionState (map kr_ranking (session_rankings d sid)) (stored_checkpoint row cp) r else r"])
      (simp_all add: insertWindowEvaluations_def insertInterventions_def appendRankingHistory_def Let_def
        update_session_row_def chat_write_def)
  ultimately show ?thesis by (rule tame_trans)
qed

lemma tame_seat:
  assumes "addParticipant now sid p d = Inr d'" and "map_option sr_status (session_row_of d sid) = Some Waiting"
    and "distinct (map pr_id (db_participants d))"
  shows "tame d d'"
proof -
  let ?row = "participantCreateData now sid p"
  have new: "pr_sessionId ?row = sid" "creds_of_row ?row = None" "pr_id ?row = pt_id p"
    by (simp_all add: participantCreateData_def creds_of_row_def)
  from assms(1) have d': "db_sessions d' = db_sessions d" "db_participants d' = db_participants d @ [?row]"
    and fresh: "\<not> list_ex (seat_taken ?row) (db_participants d)"
    by (auto simp: addParticipant_def Let_def split: if_splits)
  have row: "session_row_of d' k = session_row_of d k" for k by (simp add: session_row_of_def d'(1))
  have ids: "distinct (map pr_id (db_participants d'))"
    using assms(3) fresh by (auto simp: d'(2) new list_ex_iff seat_taken_def)
  have creds: "getParticipantCreds i d' = getParticipantCreds i d" if "i \<in> pr_id ` set (db_participants d)" for i
  proof -
    from that obtain x where x: "x \<in> set (db_participants d)" "i = pr_id x" by auto
    then show ?thesis using creds_of_member [OF ids, of x] creds_of_member [OF assms(3) x(1)] by (simp add: d'(2))
  qed
  have "member_ids d' k = member_ids d k" if "k \<noteq> sid" for k
    using that by (simp add: member_ids_def d'(2) new)
  then have members: "member_ids d' k = member_ids d k" if "session_row_of d k = Some r" "sr_status r \<noteq> Waiting" for k r
    using that assms(2) by (cases "k = sid") auto
  have inside: "i \<in> pr_id ` set (db_participants d)" if "i \<in> set (member_ids d k)" for i k
    using that by (auto simp: member_ids_def)
  have none: "getParticipantCreds i d' = None" if "getParticipantCreds i d = None" for i
    using that unfolding no_creds_row [OF ids] no_creds_row [OF assms(3)] by (auto simp: d'(2) new)
  show ?thesis
    by (rule tameI) (use members inside none creds ids in \<open>auto simp: row d'(1)\<close>)
qed

lemma tame_new_lobby:
  assumes "persistSessionSnapshot uuid now s d = Inr d'" and "elsewhere d (Op_Create s)"
    and ids: "distinct (map pr_id (db_participants d))"
  shows "tame d d'"
proof -
  let ?row = "sessionCreateData now s"
  let ?d = "d\<lparr>db_sessions := db_sessions d @ [?row]\<rparr>"
  from assms(2) have s: "se_id s \<notin> sr_id ` set (db_sessions d)" "se_status s = Waiting" "se_participants s = []"
    by simp_all
  have row: "session_row_of ?d k = (case session_row_of d k of None \<Rightarrow> if se_id s = k then Some ?row else None | x \<Rightarrow> x)" for k
  proof -
    have "find P (xs @ [y]) = (case find P xs of None \<Rightarrow> if P y then Some y else None | x \<Rightarrow> x)" for P :: "session_row \<Rightarrow> bool" and xs y
      by (induction xs) auto
    moreover have "sr_id ?row = se_id s" by (simp add: sessionCreateData_def)
    ultimately show ?thesis by (simp add: session_row_of_def)
  qed
  have members: "member_ids ?d k = member_ids d k" "getParticipantCreds i ?d = getParticipantCreds i d" for k i
    by (simp_all add: member_ids_def getParticipantCreds_def)
  have "sr_status ?row = Waiting" "sr_id ?row = se_id s" by (simp_all add: sessionCreateData_def s)
  with ids s(1) have "tame d ?d" unfolding tame_def row members by (auto split: option.splits if_splits)
  moreover have "persistRuntimeCheckpoint uuid now (se_id s) (checkpointFromSession s) ?d = Inr d'"
    using assms(1) fresh_row [OF s(1)] by (simp add: persistSessionSnapshot_def s upsert_session_def)
  then have "tame ?d d'" using tame_checkpoint [of ?d] ids by simp
  ultimately show ?thesis by (rule tame_trans)
qed

lemma tame_run_db:
  assumes "elsewhere d q" and ids: "distinct (map pr_id (db_participants d))"
  shows "tame d (snd (run_db uuid now q d))"
proof (cases q)
  case (Op_Create s)
  with assms show ?thesis
    by (cases "persistSessionSnapshot uuid now s d") (simp_all add: try_reply_def tame_new_lobby del: elsewhere.simps)
next
  case (Op_Add sid p)
  with assms tame_seat show ?thesis by (cases "addParticipant now sid p d") (simp_all add: try_reply_def)
next
  case (Op_Remove sid pid)
  let ?d = "d\<lparr>db_participants := filter (\<lambda>r. \<not> seat_of sid pid r) (db_participants d),
    db_surveys := filter (\<lambda>v. vr_participantId v \<noteq> pid) (db_surveys d)\<rparr>"
  show ?thesis
  proof (cases "map_option sr_status (session_row_of d sid) = Some Waiting")
    case True
    have "tame d ?d"
      by (rule tame_maps [where g = "\<lambda>r. r" and f = "\<lambda>p. p" and P = "\<lambda>r. \<not> seat_of sid pid r"])
        (use ids True in \<open>simp_all add: seat_of_def\<close>)
    moreover from tame_ids [OF this ids]
    have "tame ?d (snd (update_if sid (\<lambda>r. sr_status r = Waiting) (set_status Aborted) ?d))"
      by (rule tame_update_if [OF quiet_attempt_rows(1)])
    ultimately have both: "tame d ?d" "tame d (snd (update_if sid (\<lambda>r. sr_status r = Waiting) (set_status Aborted) ?d))"
      by (blast intro: tame_trans)+
    from True obtain r where "session_row_of d sid = Some r" "sr_status r = Waiting" by auto
    with both show ?thesis
      by (simp add: Op_Remove bool_reply_def removeParticipantFromWaitingSession_def Let_def)
  next
    case False
    then have "removeParticipantFromWaitingSession sid pid d = (False, d)"
      by (auto simp: removeParticipantFromWaitingSession_def split: option.split)
    then show ?thesis by (simp add: Op_Remove bool_reply_def)
  qed
next
  case (Op_Complete sid pid t)
  show ?thesis
    by (rule tame_maps [where g = "\<lambda>r. r" and P = "\<lambda>p. True" and
          f = "\<lambda>r. if seat_of sid pid r \<and> pr_completedAt r = None then r\<lparr>pr_completedAt := Some (toDate now t)\<rparr> else r"])
      (use ids in \<open>simp_all add: Op_Complete bool_reply_def markParticipantCompleted_def Let_def same_access_def creds_of_row_def\<close>)
next
  case (Op_Abort statuses deadline)
  with ids show ?thesis by (simp add: Let_def tame_abort)
next
  case (Op_Lifecycle sid p)
  with assms show ?thesis by (simp add: try_reply_def updateSessionLifecycle_def tame_sessions)
next
  case (Op_Survey sid pid entry v)
  have "tame d (upsertSurvey now pid entry v d)"
    by (rule tame_maps [where g = "\<lambda>r. r" and f = "\<lambda>p. p" and P = "\<lambda>p. True"]) (use ids in \<open>simp_all add: upsertSurvey_def\<close>)
  then show ?thesis by (simp add: Op_Survey bool_reply_def saveParticipantSurvey_def)
next
  case (Op_Feedback sid pid a)
  have "tame d (d\<lparr>db_surveys := vs\<rparr>)" for vs
    by (rule tame_maps [where g = "\<lambda>r. r" and f = "\<lambda>p. p" and P = "\<lambda>p. True"]) (use ids in simp_all)
  then show ?thesis by (simp add: Op_Feedback bool_reply_def patchExitSurveyAnswers_def)
qed (use assms in auto)

section \<open>What an attempt has achieved\<close>

text \<open>The part of \<open>tame\<close> an attempt on one session relies on; credentials may appear.\<close>

definition tame_at :: "string \<Rightarrow> db \<Rightarrow> db \<Rightarrow> bool" where
  "tame_at sid d d' =
     ((\<forall>r. session_row_of d sid = Some r \<longrightarrow>
         (\<exists>r'. session_row_of d' sid = Some r' \<and> quiet_row r r') \<and>
         (sr_status r \<noteq> Waiting \<longrightarrow> member_ids d' sid = member_ids d sid \<and>
            (\<forall>i\<in>set (member_ids d sid). \<forall>c. getParticipantCreds i d = Some c \<longrightarrow> getParticipantCreds i d' = Some c))) \<and>
      (\<forall>r'. session_row_of d sid = None \<longrightarrow> session_row_of d' sid = Some r' \<longrightarrow> sr_status r' \<noteq> Running))"

lemma tame_tame_at: "tame d d' \<Longrightarrow> tame_at sid d d'"
  unfolding tame_def tame_at_def by metis

definition joined :: "db \<Rightarrow> matrix_effect list \<Rightarrow> string \<Rightarrow> string \<Rightarrow> bool" where
  "joined d acks room i =
     (case getParticipantCreds i d of None \<Rightarrow> False | Some c \<Rightarrow> Fx_Joined room (mc_accessToken c) \<in> set acks)"

definition accepted :: "matrix_effect list \<Rightarrow> string \<Rightarrow> string \<Rightarrow> bool" where
  "accepted acks sid room = (\<exists>n. Fx_Started n \<in> set acks \<and> sn_sessionId n = sid \<and> sn_roomId n = room)"

text \<open>A running session: its room was accepted by the Chat Service, its members have joined it.\<close>

definition ready :: "db \<Rightarrow> matrix_effect list \<Rightarrow> string \<Rightarrow> bool" where
  "ready d acks sid =
     (\<forall>r. session_row_of d sid = Some r \<longrightarrow> sr_status r = Running \<longrightarrow>
        (\<exists>room. sr_roomId r = Some room \<and> accepted acks sid room \<and>
           (\<forall>i\<in>set (member_ids d sid). joined d acks room i)))"

text \<open>The attempt's copy of the session is that of the store, past its lobby and not yet running.\<close>

definition loaded_as :: "db \<Rightarrow> string \<Rightarrow> session \<Rightarrow> bool" where
  "loaded_as d sid s =
     (se_id s = sid \<and> map pt_id (se_participants s) = member_ids d sid \<and>
      (\<exists>r. session_row_of d sid = Some r \<and> sr_status r \<noteq> Waiting \<and> sr_status r \<noteq> Running \<and>
         sr_roomId r = se_roomId s))"

definition in_room :: "db \<Rightarrow> matrix_effect list \<Rightarrow> string \<Rightarrow> session \<Rightarrow> string \<Rightarrow> participant list \<Rightarrow> bool" where
  "in_room d acks sid s room rest =
     (loaded_as d sid s \<and> se_roomId s = Some room \<and>
      (\<exists>ps. se_participants s = ps @ rest \<and> (\<forall>p\<in>set ps. joined d acks room (pt_id p))))"

fun attempt_ok :: "db \<Rightarrow> matrix_effect list \<Rightarrow> string \<Rightarrow> provision_pc \<Rightarrow> bool" where
  "attempt_ok d acks sid (Pv_Check s ps) = (se_status s \<noteq> Waiting \<longrightarrow> loaded_as d sid s)"
| "attempt_ok d acks sid Pv_Reload =
     (\<exists>r. session_row_of d sid = Some r \<and> sr_status r \<noteq> Waiting \<and> sr_status r \<noteq> Running)"
| "attempt_ok d acks sid (Pv_Create s) = (loaded_as d sid s \<and> \<not> truthy (se_roomId s))"
| "attempt_ok d acks sid (Pv_Store_Room s room) = (loaded_as d sid s \<and> \<not> truthy (se_roomId s))"
| "attempt_ok d acks sid (Pv_Member s room ps) = in_room d acks sid s room ps"
| "attempt_ok d acks sid (Pv_Invite s room c rest) =
     (\<exists>p. in_room d acks sid s room (p # rest) \<and> getParticipantCreds (pt_id p) d = Some c)"
| "attempt_ok d acks sid (Pv_Join s room c b rest) =
     (\<exists>p. in_room d acks sid s room (p # rest) \<and> getParticipantCreds (pt_id p) d = Some c)"
| "attempt_ok d acks sid (Pv_Bot s room) = in_room d acks sid s room []"
| "attempt_ok d acks sid (Pv_Invite_Bot s room b) = in_room d acks sid s room []"
| "attempt_ok d acks sid (Pv_Bot_Power s room b) = in_room d acks sid s room []"
| "attempt_ok d acks sid (Pv_Start s room t) = in_room d acks sid s room []"
| "attempt_ok d acks sid (Pv_Publish s room t) = (in_room d acks sid s room [] \<and> accepted acks sid room)"
| "attempt_ok d acks sid _ = True"

lemma accepted_grows: "accepted acks sid room \<Longrightarrow> accepted (acks @ fx) sid room"
  by (auto simp: accepted_def)

lemma joined_grows:
  assumes "tame_at sid d d'" and "session_row_of d sid = Some r" and "sr_status r \<noteq> Waiting"
    and "i \<in> set (member_ids d sid)" and "joined d acks room i"
  shows "joined d' (acks @ fx) room i"
proof -
  from assms(5) obtain c where c: "getParticipantCreds i d = Some c" "Fx_Joined room (mc_accessToken c) \<in> set acks"
    by (auto simp: joined_def split: option.splits)
  with assms(1-4) have "getParticipantCreds i d' = Some c" unfolding tame_at_def by blast
  with c(2) show ?thesis by (simp add: joined_def)
qed

lemma loaded_stays:
  assumes "tame_at sid d d'" and "loaded_as d sid s"
  shows "loaded_as d' sid s"
proof -
  from assms(2) obtain r where r: "se_id s = sid" "map pt_id (se_participants s) = member_ids d sid"
    "session_row_of d sid = Some r" "sr_status r \<noteq> Waiting" "sr_status r \<noteq> Running" "sr_roomId r = se_roomId s"
    by (auto simp: loaded_as_def)
  with assms(1) obtain r' where r': "session_row_of d' sid = Some r'" "quiet_row r r'"
    "member_ids d' sid = member_ids d sid" unfolding tame_at_def by blast
  with r show ?thesis
    using quiet_not_waiting [OF r'(2)] quiet_not_running [OF r'(2)] by (auto simp: loaded_as_def quiet_row_def)
qed

lemma in_room_stays:
  assumes "tame_at sid d d'" and "in_room d acks sid s room rest"
  shows "in_room d' (acks @ fx) sid s room rest"
proof -
  from assms(2) obtain ps r where ps: "loaded_as d sid s" "se_roomId s = Some room" "se_participants s = ps @ rest"
    "\<forall>p\<in>set ps. joined d acks room (pt_id p)" and r: "session_row_of d sid = Some r" "sr_status r \<noteq> Waiting"
    by (auto simp: in_room_def loaded_as_def)
  have "joined d' (acks @ fx) room (pt_id p)" if "p \<in> set ps" for p
  proof (rule joined_grows [OF assms(1) r])
    have "member_ids d sid = map pt_id (se_participants s)" using ps(1) by (simp add: loaded_as_def)
    then show "pt_id p \<in> set (member_ids d sid)" using that ps(3) by simp
  qed (use ps(4) that in blast)
  with ps loaded_stays [OF assms(1)] show ?thesis by (auto simp: in_room_def)
qed

lemma member_creds_stay:
  assumes "tame_at sid d d'" and "in_room d acks sid s room (p # rest)" and "getParticipantCreds (pt_id p) d = Some c"
  shows "getParticipantCreds (pt_id p) d' = Some c"
proof -
  from assms(2) obtain ps r where "se_participants s = ps @ p # rest" "map pt_id (se_participants s) = member_ids d sid"
    and r: "session_row_of d sid = Some r" "sr_status r \<noteq> Waiting"
    by (auto simp: in_room_def loaded_as_def)
  from this(1) have "pt_id p \<in> set (map pt_id (se_participants s))" by simp
  then have "pt_id p \<in> set (member_ids d sid)" using \<open>map pt_id (se_participants s) = member_ids d sid\<close> by simp
  with assms(1,3) r show ?thesis unfolding tame_at_def by blast
qed

lemma attempt_stays:
  assumes "tame_at sid d d'" and "attempt_ok d acks sid pc"
  shows "attempt_ok d' (acks @ fx) sid pc"
proof (cases pc)
  case Pv_Reload
  with assms(2) obtain r where r: "session_row_of d sid = Some r" "sr_status r \<noteq> Waiting" "sr_status r \<noteq> Running" by auto
  with assms(1) obtain r' where r': "session_row_of d' sid = Some r'" "quiet_row r r'" unfolding tame_at_def by blast
  with r quiet_not_waiting [OF r'(2)] quiet_not_running [OF r'(2)] show ?thesis by (simp add: Pv_Reload)
next
  case (Pv_Invite s room c rest)
  with assms show ?thesis using in_room_stays [OF assms(1)] member_creds_stay [OF assms(1)] by fastforce
next
  case (Pv_Join s room c b rest)
  with assms show ?thesis using in_room_stays [OF assms(1)] member_creds_stay [OF assms(1)] by fastforce
qed (use assms loaded_stays in_room_stays accepted_grows in auto)

lemma ready_stays:
  assumes "tame_at sid d d'" and "ready d acks sid"
  shows "ready d' (acks @ fx) sid"
  unfolding ready_def
proof (intro allI impI)
  fix r' assume r': "session_row_of d' sid = Some r'" "sr_status r' = Running"
  with assms(1) obtain r where r: "session_row_of d sid = Some r" "quiet_row r r'"
    unfolding tame_at_def by (metis option.exhaust option.inject)
  then have run: "sr_status r = Running" "sr_status r \<noteq> Waiting" using r'(2) by (auto simp: quiet_row_def)
  with assms(2) r(1) obtain room where room: "sr_roomId r = Some room" "accepted acks sid room"
    "\<forall>i\<in>set (member_ids d sid). joined d acks room i" by (auto simp: ready_def)
  have "member_ids d' sid = member_ids d sid" using assms(1) r(1) run(2) by (auto simp: tame_at_def)
  with room r(2) joined_grows [OF assms(1) r(1) run(2)] accepted_grows
  show "\<exists>room. sr_roomId r' = Some room \<and> accepted (acks @ fx) sid room \<and>
      (\<forall>i\<in>set (member_ids d' sid). joined d' (acks @ fx) room i)"
    by (auto simp: quiet_row_def)
qed

section \<open>Steps of an attempt\<close>

lemma tame_at_refl [simp]: "tame_at sid d d"
  by (simp add: tame_tame_at)

lemma loaded_session:
  assumes "getSession sid d = Some s"
  shows "\<exists>r. session_row_of d sid = Some r \<and> se_status s = sr_status r \<and> se_roomId s = sr_roomId r \<and> se_id s = sid \<and>
    map pt_id (se_participants s) = member_ids d sid"
proof -
  from assms obtain r where r: "session_row_of d sid = Some r" "s = sessionFromRow d r"
    by (auto simp: getSession_def load_session_def)
  then have "sr_id r = sid" by (simp add: row_of_id)
  with r show ?thesis
    by (simp add: session_participants member_ids_def comp_def) (simp add: sessionFromRow_def Let_def)
qed

lemma other_row:
  assumes "k \<noteq> sid" and "\<And>r. sr_id (f r) = sr_id r"
  shows "session_row_of (update_session_row sid f d) k = session_row_of d k"
proof -
  have "find (\<lambda>r. sr_id r = k) (map (\<lambda>r. if sr_id r = sid then f r else r) xs) = find (\<lambda>r. sr_id r = k) xs" for xs
    using assms by (induction xs) auto
  then show ?thesis by (simp add: session_row_of_def update_session_row_def)
qed

lemma tame_at_other:
  assumes "k \<noteq> sid" and "\<And>r. sr_id (f r) = sr_id r"
  shows "tame_at k d (update_session_row sid f d)"
proof -
  have "member_ids (update_session_row sid f d) k = member_ids d k"
    "getParticipantCreds i (update_session_row sid f d) = getParticipantCreds i d" for i
    by (simp_all add: member_ids_def getParticipantCreds_def update_session_row_def)
  then show ?thesis by (simp add: tame_at_def other_row [OF assms])
qed

lemma tame_claim:
  "distinct (map pr_id (db_participants d)) \<Longrightarrow> tame d (snd (claimSessionProvisioning sid d))"
proof -
  assume "distinct (map pr_id (db_participants d))"
  then have "tame d (snd (update_if sid (\<lambda>r. sr_status r = Waiting) (set_status Provisioning) d))"
    by (rule tame_update_if [rotated]) (simp add: quiet_row_def set_status_def)
  then show ?thesis by (simp add: claimSessionProvisioning_def split_def Let_def)
qed

lemma row_found:
  "distinct (map sr_id (db_sessions d)) \<Longrightarrow> r \<in> set (db_sessions d) \<Longrightarrow> session_row_of d (sr_id r) = Some r"
proof -
  have "distinct (map sr_id rs) \<Longrightarrow> r \<in> set rs \<Longrightarrow> find (\<lambda>x. sr_id x = sr_id r) rs = Some r" for rs
    by (induction rs) auto
  then show "distinct (map sr_id (db_sessions d)) \<Longrightarrow> r \<in> set (db_sessions d) \<Longrightarrow> ?thesis"
    by (simp add: session_row_of_def)
qed

lemma claimed_attempt_row:
  assumes "claimSessionProvisioning sid d = (True, d')" and "distinct (map sr_id (db_sessions d))"
  shows "\<exists>r. session_row_of d' sid = Some r \<and> sr_status r = Provisioning"
proof -
  let ?f = "\<lambda>r. if sr_status r = Waiting then set_status Provisioning r else r"
  have row: "session_row_of (update_session_row sid ?f d) sid = map_option ?f (session_row_of d sid)"
    by (rule session_row_of_update) (simp add: set_status_def)
  have count: "length (filter (\<lambda>r. sr_id r = sid \<and> sr_status r = Waiting) (db_sessions d)) > 0 \<Longrightarrow>
      \<exists>r. session_row_of d sid = Some r \<and> sr_status r = Waiting"
    using assms(2) by (auto simp: filter_empty_conv) (metis row_found)
  show ?thesis
  proof (cases "session_row_of d sid")
    case None
    with assms(1) row count show ?thesis
      by (auto simp: claimSessionProvisioning_def update_if_def Let_def split: if_splits)
  next
    case (Some r)
    with assms(1) row count show ?thesis
      by (cases "sr_status r = Waiting")
        (auto simp: claimSessionProvisioning_def update_if_def Let_def set_status_def split: if_splits)
  qed
qed

lemma in_room_grows: "in_room d acks sid s room rest \<Longrightarrow> in_room d (acks @ fx) sid s room rest"
  by (rule in_room_stays [OF tame_at_refl])

lemma begin_attempt_ok: "loaded_as d sid s \<Longrightarrow> attempt_ok d acks sid (begin_provision s)"
  by (cases "se_roomId s") (auto simp: begin_provision_def in_room_def)

lemma checked_ok: "(se_status s \<noteq> Waiting \<longrightarrow> loaded_as d sid s) \<Longrightarrow> attempt_ok d acks sid (checked s ps)"
  by (cases ps) (auto simp: checked_def begin_attempt_ok)

lemma next_member_ok: "in_room d acks sid s room ps \<Longrightarrow> attempt_ok d acks sid (next_member s room ps)"
  by (cases ps) (simp_all add: next_member_def)

lemma full_not_running: "full_group s \<Longrightarrow> se_status s \<noteq> Waiting \<Longrightarrow> se_status s = Provisioning"
  by (auto simp: full_group_def)

lemma load_ok: "getSession sid d = Some s \<Longrightarrow> full_group s \<Longrightarrow> se_status s \<noteq> Waiting \<Longrightarrow> loaded_as d sid s"
  using loaded_session [of sid d s] full_not_running [of s] by (auto simp: loaded_as_def)

lemma reload_ok: "getSession sid d = Some s \<Longrightarrow> attempt_ok d acks sid Pv_Reload \<Longrightarrow> loaded_as d sid s"
  using loaded_session [of sid d s] by (auto simp: loaded_as_def)

lemma joined_member_ok:
  assumes "in_room d acks sid s room (p # rest)" and "getParticipantCreds (pt_id p) d = Some c"
  shows "in_room d (acks @ [Fx_Joined room (mc_accessToken c)]) sid s room rest"
proof -
  let ?acks = "acks @ [Fx_Joined room (mc_accessToken c)]"
  from in_room_grows [OF assms(1)] obtain ps where ps: "loaded_as d sid s" "se_roomId s = Some room"
    "se_participants s = ps @ p # rest" "\<forall>q\<in>set ps. joined d ?acks room (pt_id q)"
    unfolding in_room_def by blast
  have "joined d ?acks room (pt_id p)" using assms(2) by (simp add: joined_def)
  with ps show ?thesis unfolding in_room_def by (intro conjI exI [of _ "ps @ [p]"]) auto
qed

text \<open>The steps that write: the claim, the room, the publication.\<close>

lemma claim_step:
  assumes "claimSessionProvisioning sid d = (claimed, d')" and "distinct (map pr_id (db_participants d))"
    and "distinct (map sr_id (db_sessions d))"
  shows "tame d d'" and "claimed \<Longrightarrow> attempt_ok d' acks sid Pv_Reload"
  using tame_claim [OF assms(2), of sid] claimed_attempt_row [of sid d d'] assms by auto

lemma room_stored:
  assumes "updateSessionLifecycle now sid \<lparr>lp_status = None, lp_roomId = Some room, lp_startedAt = None, lp_completedAt = None\<rparr> d = Inr d'"
    and "loaded_as d sid s"
  shows "in_room d' acks sid (s\<lparr>se_roomId := Some room\<rparr>) room (se_participants s)" and "ready d' acks sid"
    and "k \<noteq> sid \<Longrightarrow> tame_at k d d'" and "db_participants d' = db_participants d"
    and "map sr_id (db_sessions d') = map sr_id (db_sessions d)"
proof -
  let ?f = "patch_row now \<lparr>lp_status = None, lp_roomId = Some room, lp_startedAt = None, lp_completedAt = None\<rparr>"
  have f: "sr_id (?f r) = sr_id r" "sr_status (?f r) = sr_status r" "sr_roomId (?f r) = Some room" for r
    by (simp_all add: patch_row_def keep_undefined_def)
  from assms(1) have d': "d' = update_session_row sid ?f d" by (auto simp: updateSessionLifecycle_def split: if_splits)
  then have row: "session_row_of d' sid = map_option ?f (session_row_of d sid)"
    using session_row_of_update [of ?f] f(1) by simp
  have members: "member_ids d' sid = member_ids d sid" by (simp add: d' member_ids_def update_session_row_def)
  from assms(2) row members have "loaded_as d' sid (s\<lparr>se_roomId := Some room\<rparr>)"
    by (auto simp: loaded_as_def f)
  then show "in_room d' acks sid (s\<lparr>se_roomId := Some room\<rparr>) room (se_participants s)"
    by (simp add: in_room_def)
  from assms(2) row show "ready d' acks sid" by (auto simp: ready_def loaded_as_def f)
  show "k \<noteq> sid \<Longrightarrow> tame_at k d d'" unfolding d' by (rule tame_at_other) (simp_all add: f)
  show "db_participants d' = db_participants d" "map sr_id (db_sessions d') = map sr_id (db_sessions d)"
    by (simp_all add: d' update_session_row_def f(1) if_distrib [of sr_id] comp_def cong: if_cong)
qed

lemma room_published:
  assumes "finishSessionProvisioning now sid room t d = (published, d')"
    and "in_room d acks sid s room []" and "accepted acks sid room"
  shows "ready d' acks sid"
    and "k \<noteq> sid \<Longrightarrow> tame_at k d d'" and "db_participants d' = db_participants d"
    and "map sr_id (db_sessions d') = map sr_id (db_sessions d)"
proof -
  let ?f = "\<lambda>r. if sr_status r = Provisioning then publish_row now room t r else r"
  have f: "sr_id (?f r) = sr_id r" for r by (simp add: publish_row_def)
  from assms(1) have d': "d' = update_session_row sid ?f d"
    by (auto simp: finishSessionProvisioning_def update_if_def Let_def split: if_splits)
  then have row: "session_row_of d' sid = map_option ?f (session_row_of d sid)"
    using session_row_of_update [of ?f] f by simp
  have members: "member_ids d' sid = member_ids d sid" "joined d' acks room i = joined d acks room i" for i
    by (simp_all add: d' member_ids_def update_session_row_def joined_def getParticipantCreds_def)
  from assms(2) have s: "map pt_id (se_participants s) = member_ids d sid"
    "\<forall>p\<in>set (se_participants s). joined d acks room (pt_id p)"
    by (auto simp: in_room_def loaded_as_def)
  have all: "joined d acks room i" if "i \<in> set (member_ids d sid)" for i
    using that s(2) unfolding s(1) [symmetric] by auto
  from assms(2) obtain r where "session_row_of d sid = Some r" "sr_status r \<noteq> Running" by (auto simp: in_room_def loaded_as_def)
  with row all assms(3) show "ready d' acks sid" by (auto simp: ready_def members publish_row_def)
  show "k \<noteq> sid \<Longrightarrow> tame_at k d d'" unfolding d' by (rule tame_at_other) (simp_all add: f)
  show "db_participants d' = db_participants d" "map sr_id (db_sessions d') = map sr_id (db_sessions d)"
    by (simp_all add: d' update_session_row_def f if_distrib [of sr_id] comp_def publish_row_def cong: if_cong)
qed

text \<open>What a step of the attempt on \<open>sid\<close> does to the store.\<close>

definition step_effect :: "string \<Rightarrow> db \<Rightarrow> db \<Rightarrow> matrix_effect list \<Rightarrow> bool" where
  "step_effect sid d d' acks =
     (ready d' acks sid \<and> (\<forall>k. k \<noteq> sid \<longrightarrow> tame_at k d d') \<and>
      db_participants d' = db_participants d \<and> map sr_id (db_sessions d') = map sr_id (db_sessions d))"

lemma no_effect: "ready d acks sid \<Longrightarrow> step_effect sid d d (acks @ fx)"
  using ready_stays [OF tame_at_refl] by (simp add: step_effect_def)

lemma provision_step_ok:
  assumes "distinct (map pr_id (db_participants d))" and "distinct (map sr_id (db_sessions d))"
    and "ready d acks sid" and "attempt_ok d acks sid pc" and "provision_step sid now reply pc d = (pc', d', fx)"
  shows "attempt_ok d' (acks @ fx) sid pc' \<and> step_effect sid d d' (acks @ fx)"
proof -
  have idle: "step_effect sid d d acks" using no_effect [OF assms(3), of "[]"] by simp
  show ?thesis
proof (cases pc)
  case Pv_Load
  with assms no_effect [OF assms(3)] idle show ?thesis
    by (auto simp: checked_ok load_ok split: option.splits if_splits)
next
  case (Pv_Check s ps)
  with assms no_effect [OF assms(3)] idle show ?thesis
    by (auto simp: checked_ok split: list.splits if_splits)
next
  case (Pv_Claim s)
  obtain claimed e where c: "claimSessionProvisioning sid d = (claimed, e)" by fastforce
  note t = claim_step [OF c assms(1,2)]
  have "db_participants e = db_participants d" "map sr_id (db_sessions e) = map sr_id (db_sessions d)"
    using c by (auto simp: claimSessionProvisioning_def update_if_def update_session_row_def Let_def set_status_def
        if_distrib [of sr_id] comp_def split: if_splits cong: if_cong)
  with t ready_stays [OF tame_tame_at [OF t(1)] assms(3), of "[]"] tame_tame_at [OF t(1)]
  have "step_effect sid d e acks" by (simp add: step_effect_def)
  moreover from assms(5) Pv_Claim c have "pc' = (if claimed then Pv_Reload else Pv_Final)" "d' = e" "fx = []" by auto
  ultimately show ?thesis using t(2) by (simp del: attempt_ok.simps(2))
next
  case Pv_Reload
  with assms no_effect [OF assms(3)] idle show ?thesis
    by (auto simp: begin_attempt_ok reload_ok simp del: attempt_ok.simps(2) split: option.splits)
next
  case (Pv_Create s)
  with assms no_effect [OF assms(3)] idle show ?thesis by (auto split: matrix_reply.splits)
next
  case (Pv_Store_Room s room)
  let ?u = "updateSessionLifecycle now sid
    \<lparr>lp_status = None, lp_roomId = Some room, lp_startedAt = None, lp_completedAt = None\<rparr> d"
  show ?thesis
  proof (cases ?u)
    case (Inl e)
    with assms Pv_Store_Room no_effect [OF assms(3)] idle show ?thesis by auto
  next
    case (Inr e)
    with assms(4) Pv_Store_Room have s: "loaded_as d sid s" by simp
    note stored = room_stored [OF Inr s]
    from assms(5) Pv_Store_Room Inr have
      "pc' = next_member (s\<lparr>se_roomId := Some room\<rparr>) room (se_participants s)" "d' = e" "fx = []" by auto
    with stored show ?thesis by (simp add: next_member_ok step_effect_def)
  qed
next
  case (Pv_Member s room ps)
  with assms no_effect [OF assms(3)] idle show ?thesis by (auto split: list.splits option.splits)
next
  case (Pv_Invite s room c rest)
  with assms no_effect [OF assms(3)] idle in_room_grows show ?thesis by (fastforce split: matrix_reply.splits)
next
  case (Pv_Join s room c b rest)
  with assms(4) obtain p where p: "in_room d acks sid s room (p # rest)" "getParticipantCreds (pt_id p) d = Some c"
    by auto
  from next_member_ok [OF joined_member_ok [OF p]] assms(5) Pv_Join no_effect [OF assms(3)] idle show ?thesis
    by (auto split: matrix_reply.splits)
next
  case (Pv_Bot s room)
  with assms no_effect [OF assms(3)] idle show ?thesis by (auto split: matrix_reply.splits list.splits)
next
  case (Pv_Invite_Bot s room b)
  with assms no_effect [OF assms(3)] idle in_room_grows show ?thesis by (auto split: matrix_reply.splits)
next
  case (Pv_Bot_Power s room b)
  with assms no_effect [OF assms(3)] idle in_room_grows show ?thesis by (auto split: matrix_reply.splits)
next
  case (Pv_Start s room t)
  have "accepted (acks @ [Fx_Started (start_note (ready_session s room t))]) (se_id s) room"
    unfolding accepted_def
    by (rule exI [of _ "start_note (ready_session s room t)"]) (simp, simp add: start_note_def ready_session_def)
  moreover from assms(4) Pv_Start have s: "in_room d acks sid s room []" by simp
  moreover from this have "se_id s = sid" by (simp add: in_room_def loaded_as_def)
  ultimately have start: "accepted (acks @ [Fx_Started (start_note (ready_session s room t))]) sid room" by simp
  show ?thesis
  proof (cases reply)
    case Mx_Failed
    with assms(5) Pv_Start idle show ?thesis by auto
  next
    case (Mx_Ok x)
    with assms(5) Pv_Start have "pc' = Pv_Publish s room t" "d' = d"
      "fx = [Fx_Started (start_note (ready_session s room t))]" by auto
    with start in_room_grows [OF s] no_effect [OF assms(3)] show ?thesis by simp
  qed
next
  case (Pv_Publish s room t)
  obtain published e where f: "finishSessionProvisioning now sid room (Stamp t) d = (published, e)" by fastforce
  from assms(4) Pv_Publish have "in_room d acks sid s room []" "accepted acks sid room" by simp_all
  note pub = room_published [OF f this]
  from assms(5) Pv_Publish f have "pc' = (if published then Pv_Final else Pv_Done (Inl Pe_Left_Provisioning))"
    "d' = e" "fx = []" by auto
  with pub show ?thesis by (simp add: step_effect_def)
next
  case Pv_Final
  with assms no_effect [OF assms(3)] idle show ?thesis by (auto split: option.splits)
next
  case (Pv_Done r)
  with assms no_effect [OF assms(3)] idle show ?thesis by auto
qed
qed

section \<open>Access requests\<close>

fun access_ok :: "db \<Rightarrow> string \<Rightarrow> access_pc \<Rightarrow> bool" where
  "access_ok d pid (Ac_Register s) = (getParticipantCreds pid d = None)"
| "access_ok d pid (Ac_Save s c) = (getParticipantCreds pid d = None)"
| "access_ok d pid _ = True"

lemma access_stays:
  "access_ok d pid pc \<Longrightarrow> (getParticipantCreds pid d = None \<Longrightarrow> getParticipantCreds pid d' = None) \<Longrightarrow> access_ok d' pid pc"
  by (cases pc) auto

lemma saved_creds:
  assumes "setParticipantCreds pid c d = Some d'" and "getParticipantCreds pid d = None"
  shows "tame_at sid d d'" and "i \<noteq> pid \<Longrightarrow> getParticipantCreds i d' = getParticipantCreds i d"
    and "map pr_id (db_participants d') = map pr_id (db_participants d)" and "db_sessions d' = db_sessions d"
proof -
  let ?f = "\<lambda>r. if pr_id r = pid then r\<lparr>pr_matrixUserId := Some (mc_userId c), pr_matrixAccessToken := Some (mc_accessToken c)\<rparr> else r"
  from assms(1) have d': "d' = d\<lparr>db_participants := map ?f (db_participants d)\<rparr>"
    by (auto simp: setParticipantCreds_def split: if_splits)
  show ids: "map pr_id (db_participants d') = map pr_id (db_participants d)" and rows: "db_sessions d' = db_sessions d"
    by (simp_all add: d' comp_def if_distrib [of pr_id] cong: if_cong)
  have other: "getParticipantCreds i d' = getParticipantCreds i d" if "i \<noteq> pid" for i
  proof -
    have "find (\<lambda>r. pr_id r = i) (map ?f ps) = find (\<lambda>r. pr_id r = i) ps" for ps :: "participant_row list"
      using that by (induction ps) auto
    then show ?thesis by (simp add: getParticipantCreds_def d')
  qed
  then show "i \<noteq> pid \<Longrightarrow> getParticipantCreds i d' = getParticipantCreds i d" .
  have "getParticipantCreds i d' = Some x" if "getParticipantCreds i d = Some x" for i x
    using that assms(2) other by (cases "i = pid") auto
  moreover have "member_ids d' sid = member_ids d sid"
    by (simp add: d' member_ids_def filter_map comp_def if_distrib [of pr_id] if_distrib [of pr_sessionId] cong: if_cong)
  ultimately show "tame_at sid d d'" by (simp add: tame_at_def session_row_of_def rows)
qed

lemma access_step_ok:
  assumes "access_ok d pid pc" and "access_step pid reply fresh pc d = (pc', d', fx)"
  shows "access_ok d' pid pc'" and "tame_at sid d d'" and "i \<noteq> pid \<Longrightarrow> getParticipantCreds i d' = getParticipantCreds i d"
    and "map pr_id (db_participants d') = map pr_id (db_participants d)" and "db_sessions d' = db_sessions d"
proof -
  have "access_ok d' pid pc' \<and> tame_at sid d d' \<and> (i \<noteq> pid \<longrightarrow> getParticipantCreds i d' = getParticipantCreds i d) \<and>
      map pr_id (db_participants d') = map pr_id (db_participants d) \<and> db_sessions d' = db_sessions d"
  proof (cases pc)
    case (Ac_Save s c)
    with assms(1) have none: "getParticipantCreds pid d = None" by simp
    show ?thesis
    proof (cases "setParticipantCreds pid c d")
      case None
      with assms(2) Ac_Save show ?thesis by auto
    next
      case (Some e)
      with assms(2) Ac_Save saved_creds [OF Some none] show ?thesis by (auto split: if_splits)
    qed
  qed (use assms in \<open>auto split: option.splits matrix_reply.splits\<close>)
  then show "access_ok d' pid pc'" "tame_at sid d d'" "i \<noteq> pid \<Longrightarrow> getParticipantCreds i d' = getParticipantCreds i d"
    "map pr_id (db_participants d') = map pr_id (db_participants d)" "db_sessions d' = db_sessions d" by simp_all
qed

section \<open>The invariant\<close>

definition world_ok :: "provisioner \<Rightarrow> bool" where
  "world_ok w =
     (distinct (map pr_id (db_participants (pv_db w))) \<and> distinct (map sr_id (db_sessions (pv_db w))) \<and>
      (\<forall>sid. ready (pv_db w) (pv_log w) sid) \<and>
      (\<forall>sid pc. pv_attempts w sid = Some pc \<longrightarrow> attempt_ok (pv_db w) (pv_log w) sid pc) \<and>
      (\<forall>pid pc. pv_access w pid = Some pc \<longrightarrow> access_ok (pv_db w) pid pc))"

lemma tame_world:
  assumes "world_ok w" and "tame (pv_db w) d"
  shows "world_ok (w\<lparr>pv_db := d\<rparr>)"
proof -
  have "access_ok d pid pc" if "pv_access w pid = Some pc" for pid pc
    using that assms(1) access_stays [of "pv_db w" pid pc d] tame_creds [OF assms(2)] by (simp add: world_ok_def)
  then show ?thesis
    using assms ready_stays [OF tame_tame_at [OF assms(2)], of _ _ "[]"]
      attempt_stays [OF tame_tame_at [OF assms(2)], of _ _ _ "[]"]
      tame_ids [OF assms(2)] tame_session_ids [OF assms(2)]
    by (simp add: world_ok_def)
qed

lemma attempt_world:
  assumes "world_ok w" and "pv_attempts w sid = Some pc"
    and "provision_step sid now reply pc (pv_db w) = (pc', d, fx)"
  shows "world_ok (w\<lparr>pv_db := d, pv_log := pv_log w @ fx, pv_attempts := (pv_attempts w)(sid \<mapsto> pc')\<rparr>)"
proof -
  let ?d = "pv_db w" and ?acks = "pv_log w"
  from assms(1,2) have "distinct (map pr_id (db_participants ?d))" "distinct (map sr_id (db_sessions ?d))"
    "ready ?d ?acks sid" "attempt_ok ?d ?acks sid pc" by (simp_all add: world_ok_def)
  from provision_step_ok [OF this assms(3)]
  have own: "attempt_ok d (?acks @ fx) sid pc'" "ready d (?acks @ fx) sid" and others: "\<And>k. k \<noteq> sid \<Longrightarrow> tame_at k ?d d"
    and same: "db_participants d = db_participants ?d" "map sr_id (db_sessions d) = map sr_id (db_sessions ?d)"
    by (simp_all add: step_effect_def)
  have "ready d (?acks @ fx) k" for k
    using own(2) others ready_stays [of k ?d d ?acks fx] assms(1) by (cases "k = sid") (simp_all add: world_ok_def)
  moreover have "attempt_ok d (?acks @ fx) k q" if "((pv_attempts w)(sid \<mapsto> pc')) k = Some q" for k q
    using that own(1) others attempt_stays [of k ?d d ?acks q fx] assms(1) by (cases "k = sid") (simp_all add: world_ok_def)
  moreover have "getParticipantCreds i d = getParticipantCreds i ?d" for i by (simp add: getParticipantCreds_def same)
  then have "access_ok d pid q" if "pv_access w pid = Some q" for pid q
    using that assms(1) access_stays [of ?d pid q d] by (simp add: world_ok_def)
  ultimately show ?thesis using assms(1) same by (simp add: world_ok_def)
qed

lemma access_world:
  assumes "world_ok w" and "pv_access w pid = Some pc"
    and "access_step pid reply fresh pc (pv_db w) = (pc', d, fx)"
  shows "world_ok (w\<lparr>pv_db := d, pv_log := pv_log w @ fx, pv_access := (pv_access w)(pid \<mapsto> pc')\<rparr>)"
proof -
  have "access_ok (pv_db w) pid pc" using assms(1,2) by (simp add: world_ok_def)
  note step = access_step_ok [OF this assms(3)]
  have "access_ok d k q" if "((pv_access w)(pid \<mapsto> pc')) k = Some q" for k q
    using that step(1) step(3) [of k] assms(1) access_stays [of "pv_db w" k q d]
    by (cases "k = pid") (simp_all add: world_ok_def)
  moreover have "ready d (pv_log w @ fx) k" for k
    using ready_stays [OF step(2)] assms(1) by (simp add: world_ok_def)
  moreover have "attempt_ok d (pv_log w @ fx) k q" if "pv_attempts w k = Some q" for k q
    using that attempt_stays [OF step(2)] assms(1) by (simp add: world_ok_def)
  ultimately show ?thesis using assms(1) step(4,5) by (simp add: world_ok_def)
qed

lemma world_step_ok: "world_ok w \<Longrightarrow> world_ok (world_step uuid w e)"
proof (cases e)
  case (Ve_Step sid now reply)
  assume "world_ok w"
  with attempt_world show ?thesis
    by (cases "pv_attempts w sid") (auto simp: Ve_Step world_step_def split: prod.split)
next
  case (Ve_Access_Step pid reply fresh)
  assume "world_ok w"
  with access_world show ?thesis
    by (cases "pv_access w pid") (auto simp: Ve_Access_Step world_step_def split: prod.split)
next
  case (Ve_Store now q)
  assume w: "world_ok w"
  then show ?thesis
    using tame_world [OF w tame_run_db] by (simp add: Ve_Store world_step_def world_ok_def del: elsewhere.simps)
next
  case (Ve_Checkpoint now sid cp)
  assume w: "world_ok w"
  then have "tame (pv_db w) (orelse (ok_of (persistRuntimeCheckpoint uuid now sid cp (pv_db w))) (pv_db w))"
    by (cases "persistRuntimeCheckpoint uuid now sid cp (pv_db w)") (simp_all add: tame_checkpoint world_ok_def)
  from tame_world [OF w this] show ?thesis by (simp add: Ve_Checkpoint world_step_def)
qed (auto simp: world_step_def provisionInBackgroundIfFull_def ensureParticipantAccess_def world_ok_def)

interpretation provisioning: stepper "world_step uuid" world_ok for uuid
  by unfold_locales (rule world_step_ok)


section \<open>An attempt in which every service answers\<close>

text \<open>\<open>n\<close> steps of an attempt, all requests of which are acknowledged.\<close>

fun answered :: "string \<Rightarrow> int \<Rightarrow> string \<Rightarrow> nat \<Rightarrow> provision_pc \<times> db \<times> matrix_effect list \<Rightarrow> provision_pc \<times> db \<times> matrix_effect list" where
  "answered sid now x 0 (pc, d, acks) = (pc, d, acks)"
| "answered sid now x (Suc n) (pc, d, acks) =
     (let (pc', d', fx) = provision_step sid now (Mx_Ok x) pc d in answered sid now x n (pc', d', acks @ fx))"

definition leads :: "string \<Rightarrow> int \<Rightarrow> string \<Rightarrow> provision_pc \<times> db \<times> matrix_effect list \<Rightarrow> provision_pc \<times> db \<times> matrix_effect list \<Rightarrow> bool" where
  "leads sid now x a b = (\<exists>n. answered sid now x n a = b)"

lemma answered_add: "answered sid now x (m + n) a = answered sid now x n (answered sid now x m a)"
  by (induction sid now x m a rule: answered.induct) (auto simp: Let_def split: prod.split)

lemma leads_refl [simp]: "leads sid now x a a"
  unfolding leads_def by (rule exI [of _ 0]) (cases a, simp)

lemma leads_trans: "leads sid now x a b \<Longrightarrow> leads sid now x b c \<Longrightarrow> leads sid now x a c"
  unfolding leads_def using answered_add by metis

lemma leads_step:
  assumes "provision_step sid now (Mx_Ok x) pc d = (pc', d', fx)" and "leads sid now x (pc', d', acks @ fx) b"
  shows "leads sid now x (pc, d, acks) b"
proof -
  from assms(2) obtain n where "answered sid now x n (pc', d', acks @ fx) = b" by (auto simp: leads_def)
  then have "answered sid now x (Suc n) (pc, d, acks) = b" by (simp add: assms(1))
  then show ?thesis unfolding leads_def by blast
qed

lemma leads_quiet:
  "provision_step sid now (Mx_Ok x) pc d = (pc', d', []) \<Longrightarrow> leads sid now x (pc', d', acks) b \<Longrightarrow>
     leads sid now x (pc, d, acks) b"
  by (rule leads_step [where fx = "[]"]) simp_all

lemma checks_pass:
  "\<forall>p\<in>set ps. getParticipantCreds (pt_id p) d \<noteq> None \<Longrightarrow> leads sid now x (checked s ps, d, acks) (checked s [], d, acks)"
proof (induction ps)
  case (Cons p ps)
  then have "leads sid now x (checked s ps, d, acks) (checked s [], d, acks)" by simp
  moreover have "provision_step sid now (Mx_Ok x) (checked s (p # ps)) d = (checked s ps, d, [])"
    using Cons.prems by (auto simp: checked_def [of s "p # ps"])
  ultimately show ?case by (rule leads_quiet [rotated])
qed simp

lemma members_join:
  "\<forall>p\<in>set ps. getParticipantCreds (pt_id p) d \<noteq> None \<Longrightarrow>
     \<exists>acks'. leads sid now x (next_member s room ps, d, acks) (Pv_Bot s room, d, acks')"
proof (induction ps arbitrary: acks)
  case Nil
  show ?case by (auto simp: next_member_def intro: exI [of _ acks])
next
  case (Cons p ps)
  then obtain c where c: "getParticipantCreds (pt_id p) d = Some c" by auto
  let ?i = "[Fx_Invited room (mc_userId c)]" and ?j = "[Fx_Joined room (mc_accessToken c)]"
  have "\<forall>p\<in>set ps. getParticipantCreds (pt_id p) d \<noteq> None" using Cons.prems by simp
  from Cons.IH [OF this, of "(acks @ ?i) @ ?j"] obtain acks' where
    "leads sid now x (next_member s room ps, d, (acks @ ?i) @ ?j) (Pv_Bot s room, d, acks')" ..
  then have "leads sid now x (Pv_Join s room c False ps, d, acks @ ?i) (Pv_Bot s room, d, acks')"
    by (rule leads_step [rotated]) simp
  then have "leads sid now x (Pv_Invite s room c ps, d, acks) (Pv_Bot s room, d, acks')"
    by (rule leads_step [rotated]) simp
  then have "leads sid now x (Pv_Member s room (p # ps), d, acks) (Pv_Bot s room, d, acks')"
    by (rule leads_quiet [rotated]) (simp add: c)
  then show ?case by (auto simp: next_member_def)
qed

text \<open>From the bot to the running session.\<close>

lemma published_row:
  assumes "session_row_of d sid = Some r" and "sr_status r = Provisioning"
  shows "\<exists>d' r'. finishSessionProvisioning now sid room t d = (True, d') \<and> session_row_of d' sid = Some r' \<and>
    sr_status r' = Running \<and> sr_roomId r' = Some room"
proof -
  let ?f = "\<lambda>r. if sr_status r = Provisioning then publish_row now room t r else r"
  have "r \<in> set (db_sessions d)" "sr_id r = sid"
    using assms(1) by (auto simp: session_row_of_def dest: find_SomeD)
  then have "filter (\<lambda>r. sr_id r = sid \<and> sr_status r = Provisioning) (db_sessions d) \<noteq> []"
    using assms(2) by (auto simp: filter_empty_conv)
  moreover have "session_row_of (update_session_row sid ?f d) sid = Some (publish_row now room t r)"
    using session_row_of_update [of ?f sid d] assms by (simp add: publish_row_def)
  ultimately show ?thesis
    by (simp add: finishSessionProvisioning_def update_if_def Let_def publish_row_def)
qed

lemma bot_to_running:
  assumes "session_row_of d sid = Some r" and "sr_status r = Provisioning"
  shows "\<exists>d' acks' r' s'. leads sid now x (Pv_Bot s room, d, acks) (Pv_Done (Inr s'), d', acks') \<and>
    session_row_of d' sid = Some r' \<and> sr_status r' = Running \<and> sr_roomId r' = Some room"
proof -
  from published_row [OF assms] obtain d' r' where d': "finishSessionProvisioning now sid room (Stamp now) d = (True, d')"
    "session_row_of d' sid = Some r'" "sr_status r' = Running" "sr_roomId r' = Some room" by blast
  then obtain s' where s': "getSession sid d' = Some s'" by (simp add: getSession_def load_session_def)
  have "leads sid now x (Pv_Final, d', a) (Pv_Done (Inr s'), d', a)" for a
    by (rule leads_quiet [OF _ leads_refl]) (simp add: s')
  then have "leads sid now x (Pv_Publish s room now, d, a) (Pv_Done (Inr s'), d', a)" for a
    by (rule leads_quiet [rotated]) (simp add: d'(1))
  then have "leads sid now x (Pv_Start s room now, d, a)
      (Pv_Done (Inr s'), d', a @ [Fx_Started (start_note (ready_session s room now))])" for a
    by (rule leads_step [rotated]) simp
  then have start: "\<exists>b. leads sid now x (Pv_Start s room now, d, a) (Pv_Done (Inr s'), d', b)" for a by blast
  have "\<exists>b. leads sid now x (Pv_Bot s room, d, acks) (Pv_Done (Inr s'), d', b)"
  proof (cases x)
    case Nil
    from start [of acks] obtain b where "leads sid now x (Pv_Start s room now, d, acks) (Pv_Done (Inr s'), d', b)" ..
    then have "leads sid now x (Pv_Bot s room, d, acks) (Pv_Done (Inr s'), d', b)"
      by (rule leads_quiet [rotated]) (simp add: Nil)
    then show ?thesis ..
  next
    case (Cons y ys)
    let ?i = "[Fx_Invited room x]" and ?p = "[Fx_Power room x bot_power]"
    from start [of "(acks @ ?i) @ ?p"] obtain b where
      "leads sid now x (Pv_Start s room now, d, (acks @ ?i) @ ?p) (Pv_Done (Inr s'), d', b)" ..
    then have "leads sid now x (Pv_Bot_Power s room x, d, acks @ ?i) (Pv_Done (Inr s'), d', b)"
      by (rule leads_step [rotated]) simp
    then have "leads sid now x (Pv_Invite_Bot s room x, d, acks) (Pv_Done (Inr s'), d', b)"
      by (rule leads_step [rotated]) simp
    then have "leads sid now x (Pv_Bot s room, d, acks) (Pv_Done (Inr s'), d', b)"
      by (rule leads_quiet [rotated]) (simp add: Cons)
    then show ?thesis ..
  qed
  with d' show ?thesis by blast
qed

lemma claim_from_waiting:
  assumes "session_row_of d sid = Some r" and "sr_status r = Waiting"
  shows "\<exists>d'. claimSessionProvisioning sid d = (True, d') \<and> session_row_of d' sid = Some (set_status Provisioning r) \<and>
    db_participants d' = db_participants d"
proof -
  let ?f = "\<lambda>r. if sr_status r = Waiting then set_status Provisioning r else r"
  have "r \<in> set (db_sessions d)" "sr_id r = sid"
    using assms(1) by (auto simp: session_row_of_def dest: find_SomeD)
  then have "filter (\<lambda>r. sr_id r = sid \<and> sr_status r = Waiting) (db_sessions d) \<noteq> []"
    using assms(2) by (auto simp: filter_empty_conv)
  moreover have "session_row_of (update_session_row sid ?f d) sid = Some (set_status Provisioning r)"
    using session_row_of_update [of ?f sid d] assms by (simp add: set_status_def)
  moreover have "db_participants (update_session_row sid ?f d) = db_participants d" by (simp add: update_session_row_def)
  ultimately show ?thesis by (simp add: claimSessionProvisioning_def update_if_def Let_def)
qed

text \<open>The room an attempt uses: that of an earlier attempt, or the one that is made.\<close>

definition attempt_room :: "session \<Rightarrow> string \<Rightarrow> string" where
  "attempt_room s x = (if truthy (se_roomId s) then the (se_roomId s) else x)"

lemma provision_to_running:
  assumes "session_row_of d sid = Some r" and "sr_status r = Provisioning"
    and "\<forall>p\<in>set (se_participants s). getParticipantCreds (pt_id p) d \<noteq> None"
  shows "\<exists>d' acks' r' s'. leads sid now x (begin_provision s, d, acks) (Pv_Done (Inr s'), d', acks') \<and>
    session_row_of d' sid = Some r' \<and> sr_status r' = Running \<and> sr_roomId r' = Some (attempt_room s x)"
proof (cases "truthy (se_roomId s)")
  case True
  let ?room = "the (se_roomId s)"
  from members_join [OF assms(3)] obtain b where
    "leads sid now x (next_member s ?room (se_participants s), d, acks) (Pv_Bot s ?room, d, b)" by blast
  then have "leads sid now x (begin_provision s, d, acks) (Pv_Bot s ?room, d, b)"
    using True leads_quiet [of sid now x "Pv_Member s ?room []" d "Pv_Bot s ?room" d acks]
    by (cases "se_participants s") (simp_all add: begin_provision_def next_member_def)
  with bot_to_running [OF assms(1,2), of now x s ?room b] show ?thesis
    unfolding attempt_room_def if_P [OF True] using leads_trans by blast
next
  case False
  let ?patch = "\<lparr>lp_status = None, lp_roomId = Some x, lp_startedAt = None, lp_completedAt = None\<rparr>"
  let ?d = "update_session_row sid (patch_row now ?patch) d" and ?s = "s\<lparr>se_roomId := Some x\<rparr>"
  let ?acks = "acks @ [Fx_Created (room_name s) x]"
  have row: "session_row_of ?d sid = Some (patch_row now ?patch r)"
    using session_row_of_update [of "patch_row now ?patch" sid d] assms(1) by (simp add: patch_row_def)
  have status: "sr_status (patch_row now ?patch r) = Provisioning" using assms(2) by (simp add: patch_row_def)
  have "\<forall>p\<in>set (se_participants s). getParticipantCreds (pt_id p) ?d \<noteq> None"
    using assms(3) by (simp add: getParticipantCreds_def update_session_row_def)
  from members_join [OF this] obtain b where
    "leads sid now x (next_member ?s x (se_participants s), ?d, ?acks) (Pv_Bot ?s x, ?d, b)" by blast
  then have "leads sid now x (Pv_Store_Room s x, d, ?acks) (Pv_Bot ?s x, ?d, b)"
    by (rule leads_quiet [rotated]) (simp add: updateSessionLifecycle_def assms(1))
  then have "leads sid now x (begin_provision s, d, acks) (Pv_Bot ?s x, ?d, b)"
    by (rule leads_step [rotated]) (simp add: begin_provision_def False)
  with bot_to_running [OF row status, of now x ?s x b] show ?thesis
    unfolding attempt_room_def if_not_P [OF False] using leads_trans by blast
qed

lemma attempt_to_running:
  assumes "getSession sid d = Some s" and "full_group s"
    and creds: "\<forall>p\<in>set (se_participants s). getParticipantCreds (pt_id p) d \<noteq> None"
  shows "\<exists>d' acks' r' s'. leads sid now x (Pv_Load, d, acks) (Pv_Done (Inr s'), d', acks') \<and>
    session_row_of d' sid = Some r' \<and> sr_status r' = Running \<and> sr_roomId r' = Some (attempt_room s x)"
proof -
  from loaded_session [OF assms(1)] obtain r where r: "session_row_of d sid = Some r" "se_status s = sr_status r"
    "se_roomId s = sr_roomId r" "map pt_id (se_participants s) = member_ids d sid" by blast
  have "leads sid now x (Pv_Load, d, acks) (checked s (se_participants s), d, acks)"
    by (rule leads_quiet [OF _ leads_refl]) (simp add: assms(1,2))
  from leads_trans [OF this checks_pass [OF creds]]
  have load: "leads sid now x (Pv_Load, d, acks) (checked s [], d, acks)" .
  show ?thesis
  proof (cases "se_status s = Waiting")
    case True
    from claim_from_waiting [OF r(1)] True r(2) obtain e where e: "claimSessionProvisioning sid d = (True, e)"
      "session_row_of e sid = Some (set_status Provisioning r)" "db_participants e = db_participants d" by auto
    then obtain t where t: "getSession sid e = Some t" by (simp add: getSession_def load_session_def)
    from loaded_session [OF t] e(2) have t': "se_roomId t = se_roomId s" "map pt_id (se_participants t) = member_ids e sid"
      by (auto simp: r(3) set_status_def)
    have "member_ids e sid = member_ids d sid" by (simp add: member_ids_def e(3))
    with t'(2) r(4) have "pt_id ` set (se_participants t) = pt_id ` set (se_participants s)" by (metis list.set_map)
    moreover have "\<forall>i\<in>pt_id ` set (se_participants s). getParticipantCreds i e \<noteq> None"
      using creds by (simp add: getParticipantCreds_def e(3))
    ultimately have "\<forall>i\<in>pt_id ` set (se_participants t). getParticipantCreds i e \<noteq> None" by simp
    then have "\<forall>p\<in>set (se_participants t). getParticipantCreds (pt_id p) e \<noteq> None" by blast
    from provision_to_running [OF e(2) _ this, of now x acks] obtain d' acks' r' s' where
      run: "leads sid now x (begin_provision t, e, acks) (Pv_Done (Inr s'), d', acks')"
      "session_row_of d' sid = Some r'" "sr_status r' = Running" "sr_roomId r' = Some (attempt_room t x)"
      by (auto simp: set_status_def)
    from run(1) have "leads sid now x (Pv_Reload, e, acks) (Pv_Done (Inr s'), d', acks')"
      by (rule leads_quiet [rotated]) (simp add: t)
    then have "leads sid now x (Pv_Claim s, d, acks) (Pv_Done (Inr s'), d', acks')"
      by (rule leads_quiet [rotated]) (simp add: e(1))
    with load True have "leads sid now x (Pv_Load, d, acks) (Pv_Done (Inr s'), d', acks')"
      by (simp add: checked_def) (rule leads_trans)
    moreover have "sr_roomId r' = Some (attempt_room s x)" using run(4) by (simp add: attempt_room_def t'(1))
    ultimately show ?thesis using run(2,3) by blast
  next
    case False
    with assms(2) r(2) have "sr_status r = Provisioning" by (auto simp: full_group_def)
    from provision_to_running [OF r(1) this creds, of now x acks] obtain d' acks' r' s' where
      run: "leads sid now x (begin_provision s, d, acks) (Pv_Done (Inr s'), d', acks')"
      "session_row_of d' sid = Some r'" "sr_status r' = Running" "sr_roomId r' = Some (attempt_room s x)"
      by blast
    from load run(1) False have "leads sid now x (Pv_Load, d, acks) (Pv_Done (Inr s'), d', acks')"
      by (simp add: checked_def) (rule leads_trans)
    with run(2-4) show ?thesis by blast
  qed
qed

text \<open>The steps of an attempt in the world.\<close>

lemma world_answered:
  assumes "pv_attempts w sid = Some pc" and "answered sid now x n (pc, pv_db w, pv_log w) = (pc', d, acks)"
  shows "\<exists>w'. foldl (world_step uuid) w (replicate n (Ve_Step sid now (Mx_Ok x))) = w' \<and>
    pv_db w' = d \<and> pv_log w' = acks \<and> pv_attempts w' sid = Some pc'"
  using assms
proof (induction n arbitrary: w pc)
  case (Suc n)
  obtain q e fx where q: "provision_step sid now (Mx_Ok x) pc (pv_db w) = (q, e, fx)" by (metis prod_cases3)
  let ?w = "w\<lparr>pv_db := e, pv_log := pv_log w @ fx, pv_attempts := (pv_attempts w)(sid \<mapsto> q)\<rparr>"
  have "world_step uuid w (Ve_Step sid now (Mx_Ok x)) = ?w"
    using Suc.prems(1) q by (simp add: world_step_def)
  moreover have "\<exists>w'. foldl (world_step uuid) ?w (replicate n (Ve_Step sid now (Mx_Ok x))) = w' \<and>
      pv_db w' = d \<and> pv_log w' = acks \<and> pv_attempts w' sid = Some pc'"
    by (rule Suc.IH) (use Suc.prems(2) q in simp_all)
  ultimately show ?case by simp
qed simp

text \<open>
  C9: A full group whose members have credentials is running at the end of an attempt in which the
  homeserver and the Chat Service answer every request: in the room of an earlier attempt if the
  session has one, else in the room that was made.
\<close>

theorem full_group_goes_live:
  assumes "pv_attempts w sid = Some Pv_Load" and "getSession sid (pv_db w) = Some s" and "full_group s"
    and "\<forall>p\<in>set (se_participants s). getParticipantCreds (pt_id p) (pv_db w) \<noteq> None"
  shows "\<exists>n w' r s'. foldl (world_step uuid) w (replicate n (Ve_Step sid now (Mx_Ok x))) = w' \<and>
    pv_attempts w' sid = Some (Pv_Done (Inr s')) \<and> session_row_of (pv_db w') sid = Some r \<and>
    sr_status r = Running \<and> sr_roomId r = Some (attempt_room s x)"
proof -
  from attempt_to_running [OF assms(2-4), of now x "pv_log w"] obtain d acks r s' n where
    "answered sid now x n (Pv_Load, pv_db w, pv_log w) = (Pv_Done (Inr s'), d, acks)"
    and r: "session_row_of d sid = Some r" "sr_status r = Running" "sr_roomId r = Some (attempt_room s x)"
    unfolding leads_def by blast
  from world_answered [OF assms(1) this(1), of uuid] r show ?thesis by metis
qed

section \<open>Rooms and members stay\<close>

text \<open>
  The room of a session is never replaced, and past its lobby a group keeps its members and they
  keep their credentials.
\<close>

definition room_below :: "provisioner \<Rightarrow> provisioner \<Rightarrow> bool" where
  "room_below w w' =
     (\<forall>sid r. session_row_of (pv_db w) sid = Some r \<longrightarrow>
        (\<exists>r'. session_row_of (pv_db w') sid = Some r' \<and>
           (truthy (sr_roomId r) \<longrightarrow> sr_roomId r' = sr_roomId r) \<and>
           (sr_status r \<noteq> Waiting \<longrightarrow> sr_status r' \<noteq> Waiting \<and>
              member_ids (pv_db w') sid = member_ids (pv_db w) sid \<and>
              (\<forall>i\<in>set (member_ids (pv_db w) sid). \<forall>c.
                 getParticipantCreds i (pv_db w) = Some c \<longrightarrow> getParticipantCreds i (pv_db w') = Some c))))"

lemma room_below_tame: "(\<And>sid. tame_at sid (pv_db w) (pv_db w')) \<Longrightarrow> room_below w w'"
  unfolding room_below_def
proof (intro allI impI)
  fix sid r assume t: "\<And>sid. tame_at sid (pv_db w) (pv_db w')" and r: "session_row_of (pv_db w) sid = Some r"
  from t [of sid] r obtain r' where "session_row_of (pv_db w') sid = Some r'" "quiet_row r r'"
    "sr_status r \<noteq> Waiting \<Longrightarrow> member_ids (pv_db w') sid = member_ids (pv_db w) sid \<and>
       (\<forall>i\<in>set (member_ids (pv_db w) sid). \<forall>c.
          getParticipantCreds i (pv_db w) = Some c \<longrightarrow> getParticipantCreds i (pv_db w') = Some c)"
    unfolding tame_at_def by blast
  moreover from \<open>quiet_row r r'\<close> have "sr_roomId r' = sr_roomId r" by (simp add: quiet_row_def)
  moreover from quiet_not_waiting [OF \<open>quiet_row r r'\<close>] have "sr_status r \<noteq> Waiting \<longrightarrow> sr_status r' \<noteq> Waiting" by blast
  ultimately show "\<exists>r'. session_row_of (pv_db w') sid = Some r' \<and>
           (truthy (sr_roomId r) \<longrightarrow> sr_roomId r' = sr_roomId r) \<and>
           (sr_status r \<noteq> Waiting \<longrightarrow> sr_status r' \<noteq> Waiting \<and>
              member_ids (pv_db w') sid = member_ids (pv_db w) sid \<and>
              (\<forall>i\<in>set (member_ids (pv_db w) sid). \<forall>c.
                 getParticipantCreds i (pv_db w) = Some c \<longrightarrow> getParticipantCreds i (pv_db w') = Some c))"
    by blast
qed

text \<open>The two writes that change a row's room: storing a room, when there is none, and publishing it.\<close>

lemma room_below_row:
  assumes "pv_db w' = update_session_row sid f (pv_db w)" and "\<And>r. sr_id (f r) = sr_id r"
    and "\<And>r. session_row_of (pv_db w) sid = Some r \<Longrightarrow>
      (truthy (sr_roomId r) \<longrightarrow> sr_roomId (f r) = sr_roomId r) \<and> (sr_status r \<noteq> Waiting \<longrightarrow> sr_status (f r) \<noteq> Waiting)"
  shows "room_below w w'"
  unfolding room_below_def
proof (intro allI impI)
  fix k r assume r: "session_row_of (pv_db w) k = Some r"
  have same: "member_ids (pv_db w') k = member_ids (pv_db w) k" "getParticipantCreds i (pv_db w') = getParticipantCreds i (pv_db w)" for i
    by (simp_all add: assms(1) member_ids_def getParticipantCreds_def update_session_row_def)
  have "session_row_of (pv_db w') k = Some (if k = sid then f r else r)"
    using r other_row [of k sid f "pv_db w"] session_row_of_update [of f sid "pv_db w"] assms(2) by (auto simp: assms(1))
  then show "\<exists>r'. session_row_of (pv_db w') k = Some r' \<and>
      (truthy (sr_roomId r) \<longrightarrow> sr_roomId r' = sr_roomId r) \<and>
      (sr_status r \<noteq> Waiting \<longrightarrow> sr_status r' \<noteq> Waiting \<and>
         member_ids (pv_db w') k = member_ids (pv_db w) k \<and>
         (\<forall>i\<in>set (member_ids (pv_db w) k). \<forall>c.
            getParticipantCreds i (pv_db w) = Some c \<longrightarrow> getParticipantCreds i (pv_db w') = Some c))"
    using assms(3) r unfolding same by (cases "k = sid") auto
qed

lemma provision_keeps_rooms:
  assumes "world_ok w" and "pv_attempts w sid = Some pc" and "provision_step sid now reply pc (pv_db w) = (pc', d, fx)"
  shows "room_below w (w\<lparr>pv_db := d, pv_log := l, pv_attempts := m\<rparr>)"
proof -
  let ?d = "pv_db w" and ?w = "w\<lparr>pv_db := d, pv_log := l, pv_attempts := m\<rparr>"
  have ok: "attempt_ok ?d (pv_log w) sid pc" "distinct (map pr_id (db_participants ?d))" using assms(1,2) by (simp_all add: world_ok_def)
  have same: "room_below w ?w" if "d = ?d" using that by (intro room_below_tame) simp
  show ?thesis
  proof (cases pc)
    case (Pv_Claim s)
    with assms(3) have "d = snd (claimSessionProvisioning sid ?d)" by (auto split: prod.splits)
    with tame_claim [OF ok(2)] show ?thesis by (intro room_below_tame) (simp add: tame_tame_at)
  next
    case (Pv_Store_Room s room)
    let ?patch = "\<lparr>lp_status = None, lp_roomId = Some room, lp_startedAt = None, lp_completedAt = None\<rparr>"
    from assms(3) Pv_Store_Room have "d = ?d \<or> d = update_session_row sid (patch_row now ?patch) ?d"
      by (auto simp: updateSessionLifecycle_def split: if_splits)
    moreover have "room_below w ?w" if "d = update_session_row sid (patch_row now ?patch) ?d"
      using ok(1) Pv_Store_Room that
      by (intro room_below_row [where sid = sid and f = "patch_row now ?patch"])
        (auto simp: patch_row_def keep_undefined_def loaded_as_def)
    ultimately show ?thesis using same by blast
  next
    case (Pv_Publish s room t)
    let ?f = "\<lambda>r. if sr_status r = Provisioning then publish_row now room (Stamp t) r else r"
    from assms(3) Pv_Publish have "d = update_session_row sid ?f ?d"
      by (auto simp: finishSessionProvisioning_def update_if_def Let_def split: if_splits)
    then show ?thesis using ok(1) Pv_Publish
      by (intro room_below_row [where sid = sid and f = ?f]) (auto simp: publish_row_def in_room_def loaded_as_def)
  qed (use assms(3) same in \<open>auto split: option.splits list.splits matrix_reply.splits if_splits\<close>)
qed

lemma world_step_rooms:
  assumes "world_ok w"
  shows "room_below w (world_step uuid w e)"
proof (cases e)
  case (Ve_Step sid now reply)
  then show ?thesis
    using provision_keeps_rooms [OF assms] room_below_tame [of w w]
    by (cases "pv_attempts w sid") (auto simp: world_step_def split: prod.split)
next
  case (Ve_Access_Step pid reply fresh)
  show ?thesis
  proof (cases "pv_access w pid")
    case None
    then show ?thesis using room_below_tame [of w w] by (simp add: Ve_Access_Step world_step_def)
  next
    case (Some pc)
    with assms have "access_ok (pv_db w) pid pc" by (simp add: world_ok_def)
    from access_step_ok(2) [OF this] show ?thesis
      using room_below_tame [of w] Some by (auto simp: Ve_Access_Step world_step_def split: prod.split)
  qed
next
  case (Ve_Store now q)
  from assms have "distinct (map pr_id (db_participants (pv_db w)))" by (simp add: world_ok_def)
  with tame_run_db room_below_tame [of w] show ?thesis
    by (auto simp: Ve_Store world_step_def tame_tame_at simp del: elsewhere.simps)
next
  case (Ve_Checkpoint now sid cp)
  from assms have "distinct (map pr_id (db_participants (pv_db w)))" by (simp add: world_ok_def)
  from tame_checkpoint [OF this] have "tame (pv_db w) (orelse (ok_of (persistRuntimeCheckpoint uuid now sid cp (pv_db w))) (pv_db w))"
    by (cases "persistRuntimeCheckpoint uuid now sid cp (pv_db w)") simp_all
  then show ?thesis using room_below_tame [of w] by (simp add: Ve_Checkpoint world_step_def tame_tame_at)
qed (use room_below_tame in \<open>simp_all add: world_step_def provisionInBackgroundIfFull_def ensureParticipantAccess_def\<close>)

lemma room_below_trans:
  assumes "room_below u v" and "room_below v w"
  shows "room_below u w"
  unfolding room_below_def
proof (intro allI impI)
  fix sid r assume "session_row_of (pv_db u) sid = Some r"
  with assms(1) obtain s where s: "session_row_of (pv_db v) sid = Some s" "truthy (sr_roomId r) \<longrightarrow> sr_roomId s = sr_roomId r"
    "sr_status r \<noteq> Waiting \<longrightarrow> sr_status s \<noteq> Waiting \<and> member_ids (pv_db v) sid = member_ids (pv_db u) sid \<and>
       (\<forall>i\<in>set (member_ids (pv_db u) sid). \<forall>c. getParticipantCreds i (pv_db u) = Some c \<longrightarrow> getParticipantCreds i (pv_db v) = Some c)"
    unfolding room_below_def by blast
  with assms(2) obtain t where "session_row_of (pv_db w) sid = Some t" "truthy (sr_roomId s) \<longrightarrow> sr_roomId t = sr_roomId s"
    "sr_status s \<noteq> Waiting \<longrightarrow> sr_status t \<noteq> Waiting \<and> member_ids (pv_db w) sid = member_ids (pv_db v) sid \<and>
       (\<forall>i\<in>set (member_ids (pv_db v) sid). \<forall>c. getParticipantCreds i (pv_db v) = Some c \<longrightarrow> getParticipantCreds i (pv_db w) = Some c)"
    unfolding room_below_def by blast
  with s show "\<exists>r'. session_row_of (pv_db w) sid = Some r' \<and> (truthy (sr_roomId r) \<longrightarrow> sr_roomId r' = sr_roomId r) \<and>
      (sr_status r \<noteq> Waiting \<longrightarrow> sr_status r' \<noteq> Waiting \<and> member_ids (pv_db w) sid = member_ids (pv_db u) sid \<and>
         (\<forall>i\<in>set (member_ids (pv_db u) sid). \<forall>c. getParticipantCreds i (pv_db u) = Some c \<longrightarrow> getParticipantCreds i (pv_db w) = Some c))"
    by (intro exI [of _ t]) auto
qed

interpretation rooms: monotone_stepper "world_step uuid" world_ok room_below for uuid
  by unfold_locales (auto intro: world_step_rooms room_below_trans room_below_tame)


section \<open>A group that starts short\<close>

lemma step_participants:
  "provision_step sid now reply pc d = (pc', d', fx) \<Longrightarrow> db_participants d' = db_participants d"
  by (cases pc) (auto simp: claimSessionProvisioning_def finishSessionProvisioning_def updateSessionLifecycle_def
      update_if_def update_session_row_def Let_def split: option.splits list.splits matrix_reply.splits if_splits)

lemma answered_participants:
  "answered sid now x n (pc, d, acks) = (pc', d', acks') \<Longrightarrow> db_participants d' = db_participants d"
proof (induction n arbitrary: pc d acks)
  case (Suc n)
  obtain q e fx where q: "provision_step sid now (Mx_Ok x) pc d = (q, e, fx)" by (metis prod_cases3)
  with Suc.prems Suc.IH have "db_participants d' = db_participants e" by simp
  with step_participants [OF q] show ?case by simp
qed simp

lemma claim_to_running:
  assumes "session_row_of d sid = Some r" and "sr_status r = Waiting"
    and creds: "\<forall>i\<in>set (member_ids d sid). getParticipantCreds i d \<noteq> None"
  shows "\<exists>n d' acks' r' s'. answered sid now x n (Pv_Claim s, d, acks) = (Pv_Done (Inr s'), d', acks') \<and>
    session_row_of d' sid = Some r' \<and> sr_status r' = Running"
proof -
  from claim_from_waiting [OF assms(1,2)] obtain e where e: "claimSessionProvisioning sid d = (True, e)"
    "session_row_of e sid = Some (set_status Provisioning r)" "db_participants e = db_participants d" by blast
  then obtain t where t: "getSession sid e = Some t" by (simp add: getSession_def load_session_def)
  from loaded_session [OF t] have "map pt_id (se_participants t) = member_ids e sid" by blast
  then have "pt_id ` set (se_participants t) = set (member_ids d sid)"
    by (metis list.set_map e(3) member_ids_def)
  moreover have "\<forall>i\<in>set (member_ids d sid). getParticipantCreds i e \<noteq> None"
    using creds by (simp add: getParticipantCreds_def e(3))
  ultimately have "\<forall>p\<in>set (se_participants t). getParticipantCreds (pt_id p) e \<noteq> None" by blast
  from provision_to_running [OF e(2) _ this, of now x acks] obtain d' acks' r' s' where
    run: "leads sid now x (begin_provision t, e, acks) (Pv_Done (Inr s'), d', acks')"
    "session_row_of d' sid = Some r'" "sr_status r' = Running" by (auto simp: set_status_def)
  from run(1) have "leads sid now x (Pv_Reload, e, acks) (Pv_Done (Inr s'), d', acks')"
    by (rule leads_quiet [rotated]) (simp add: t)
  then have "leads sid now x (Pv_Claim s, d, acks) (Pv_Done (Inr s'), d', acks')"
    by (rule leads_quiet [rotated]) (simp add: e(1))
  with run(2,3) show ?thesis unfolding leads_def by blast
qed

text \<open>
  The claim of a group does not look at its size again. When a member withdraws from the lobby
  after the attempt has counted the group and before it claims it, the attempt goes on, and with
  every service answering the session runs without the one who left and with fewer members than
  the attempt had counted.
\<close>

theorem short_group_starts:
  assumes "pv_attempts w sid = Some (Pv_Claim s)" and "session_row_of (pv_db w) sid = Some r"
    and "sr_status r = Waiting" and "map pt_id (se_participants s) = member_ids (pv_db w) sid"
    and "pid \<in> set (member_ids (pv_db w) sid)" and "\<exists>i\<in>set (member_ids (pv_db w) sid). i \<noteq> pid"
    and "distinct (map pr_id (db_participants (pv_db w)))"
    and "\<forall>i\<in>set (member_ids (pv_db w) sid). getParticipantCreds i (pv_db w) \<noteq> None"
  shows "\<exists>n w' r'. foldl (world_step uuid) w (Ve_Store now (Op_Remove sid pid) # replicate n (Ve_Step sid now (Mx_Ok x))) = w' \<and>
    session_row_of (pv_db w') sid = Some r' \<and> sr_status r' = Running \<and> pid \<notin> set (member_ids (pv_db w') sid) \<and>
    length (member_ids (pv_db w') sid) < length (se_participants s)"
proof -
  let ?d = "pv_db w"
  let ?keep = "filter (\<lambda>p. \<not> seat_of sid pid p) (db_participants ?d)"
  let ?e = "?d\<lparr>db_participants := ?keep, db_surveys := filter (\<lambda>v. vr_participantId v \<noteq> pid) (db_surveys ?d)\<rparr>"
  have members: "member_ids ?e sid = filter (\<lambda>i. i \<noteq> pid) (member_ids ?d sid)"
    by (auto simp: member_ids_def filter_map comp_def seat_of_def intro!: arg_cong [of _ _ "map pr_id"] filter_cong)
  with assms(6) have "filter (\<lambda>p. pr_sessionId p = sid) ?keep \<noteq> []"
    by (auto simp: member_ids_def filter_empty_conv seat_of_def)
  moreover have "list_ex (seat_of sid pid) (db_participants ?d)"
    using assms(5) by (auto simp: member_ids_def list_ex_iff seat_of_def)
  ultimately have "removeParticipantFromWaitingSession sid pid ?d = (True, ?e)"
    using assms(2,3) by (simp add: removeParticipantFromWaitingSession_def Let_def)
  then have left: "world_step uuid w (Ve_Store now (Op_Remove sid pid)) = w\<lparr>pv_db := ?e\<rparr>"
    by (simp add: world_step_def bool_reply_def)
  have ids: "distinct (map pr_id (db_participants ?e))" using assms(7) by (simp add: distinct_map_filter)
  have creds: "getParticipantCreds i ?e \<noteq> None" if "i \<in> set (member_ids ?e sid)" for i
  proof -
    from that obtain p where p: "p \<in> set ?keep" "pr_sessionId p = sid" "i = pr_id p" by (auto simp: member_ids_def)
    then have "i \<in> set (member_ids ?d sid)" by (auto simp: member_ids_def)
    with assms(8) have "getParticipantCreds i ?d \<noteq> None" by blast
    with creds_of_member [OF assms(7), of p] p have "creds_of_row p \<noteq> None" by simp
    with creds_of_member [OF ids, of p] p show ?thesis by simp
  qed
  have row: "session_row_of ?e sid = Some r" using assms(2) by (simp add: session_row_of_def)
  from claim_to_running [OF row assms(3), of now x s "pv_log w"] creds obtain n d' acks' r' s' where
    run: "answered sid now x n (Pv_Claim s, ?e, pv_log w) = (Pv_Done (Inr s'), d', acks')"
    "session_row_of d' sid = Some r'" "sr_status r' = Running" by blast
  let ?w = "w\<lparr>pv_db := ?e\<rparr>"
  have "pv_attempts ?w sid = Some (Pv_Claim s)"
    "answered sid now x n (Pv_Claim s, pv_db ?w, pv_log ?w) = (Pv_Done (Inr s'), d', acks')"
    using assms(1) run(1) by simp_all
  from world_answered [OF this] obtain w' where
    w': "foldl (world_step uuid) ?w (replicate n (Ve_Step sid now (Mx_Ok x))) = w'" "pv_db w' = d'" by blast
  have "member_ids d' sid = filter (\<lambda>i. i \<noteq> pid) (member_ids ?d sid)"
    using answered_participants [OF run(1)] members by (simp add: member_ids_def)
  moreover have "length (filter (\<lambda>i. i \<noteq> pid) (member_ids ?d sid)) < length (member_ids ?d sid)"
    using assms(5) by (intro length_filter_less) auto
  moreover have "length (se_participants s) = length (member_ids ?d sid)" by (metis assms(4) length_map)
  ultimately show ?thesis using w' run(2,3) left by (intro exI [of _ n] exI [of _ w'] exI [of _ r']) simp
qed

section \<open>Witnesses\<close>

text \<open>A full lobby of three whose members have credentials.\<close>

definition sample_member :: "string \<Rightarrow> participant_row" where
  "sample_member pid =
     (participantCreateData 0 ''s1'' (sample_participant pid))
       \<lparr>pr_matrixUserId := Some (''@'' @ pid), pr_matrixAccessToken := Some (''t'' @ pid)\<rparr>"

definition full_lobby :: db where
  "full_lobby =
     empty_db\<lparr>db_sessions := [sessionCreateData 0 sample_lobby],
       db_participants := map sample_member [''p1'', ''p2'', ''p3'']\<rparr>"

definition sample_world :: "provision_pc \<Rightarrow> provisioner" where
  "sample_world pc =
     \<lparr>pv_db = full_lobby, pv_log = [], pv_attempts = [''s1'' \<mapsto> pc], pv_access = Map.empty\<rparr>"

lemma sample_row:
  "sr_id (sessionCreateData 0 sample_lobby) = ''s1''" "sr_status (sessionCreateData 0 sample_lobby) = Waiting"
  "sr_roomId (sessionCreateData 0 sample_lobby) = None"
  "cd_groupSize (sr_conditionSnapshot (sessionCreateData 0 sample_lobby)) = 3"
  by (simp_all add: sessionCreateData_def sample_lobby_def newFormingSession_def waitingTimeoutMinutes_def
      env_number_def sample_condition_def)

lemma sample_member_fields [simp]:
  "pr_id (sample_member pid) = pid" "pr_sessionId (sample_member pid) = ''s1''"
  "creds_of_row (sample_member pid) = Some \<lparr>mc_userId = ''@'' @ pid, mc_accessToken = ''t'' @ pid\<rparr>"
  by (simp_all add: sample_member_def participantCreateData_def sample_participant_def creds_of_row_def)

abbreviation full_session :: session where
  "full_session \<equiv> sessionFromRow full_lobby (sessionCreateData 0 sample_lobby)"

lemma full_lobby_facts:
  "session_row_of full_lobby ''s1'' = Some (sessionCreateData 0 sample_lobby)"
  "member_ids full_lobby ''s1'' = [''p1'', ''p2'', ''p3'']"
  "distinct (map pr_id (db_participants full_lobby))" "distinct (map sr_id (db_sessions full_lobby))"
  by (simp_all add: full_lobby_def session_row_of_def sample_row member_ids_def)

lemma full_lobby_creds: "\<forall>i\<in>set (member_ids full_lobby ''s1''). getParticipantCreds i full_lobby \<noteq> None"
  unfolding full_lobby_facts(2) by (simp add: full_lobby_def getParticipantCreds_def)

lemma full_lobby_loads:
  "getSession ''s1'' full_lobby = Some full_session" "map pt_id (se_participants full_session) = [''p1'', ''p2'', ''p3'']"
  "se_status full_session = Waiting"
proof -
  show load: "getSession ''s1'' full_lobby = Some full_session"
    by (simp add: getSession_def load_session_def full_lobby_facts(1))
  from loaded_session [OF load] show "map pt_id (se_participants full_session) = [''p1'', ''p2'', ''p3'']"
    "se_status full_session = Waiting" by (auto simp: full_lobby_facts sample_row)
qed

lemma full_lobby_full: "full_group full_session"
proof -
  have "length (se_participants full_session) = 3"
    using arg_cong [OF full_lobby_loads(2), of length] by simp
  moreover have "se_condition full_session = sr_conditionSnapshot (sessionCreateData 0 sample_lobby)"
    by (simp add: sessionFromRow_def Let_def)
  ultimately show ?thesis by (simp add: full_group_def full_lobby_loads(3) sample_row)
qed

lemma sample_world_ok: "attempt_ok full_lobby [] ''s1'' pc \<Longrightarrow> world_ok (sample_world pc)"
  using full_lobby_facts(3,4)
  by (auto simp: world_ok_def sample_world_def ready_def full_lobby_def session_row_of_def sample_row split: if_splits)

theorem full_group_goes_live_witness:
  "\<exists>n w' r s'. foldl (world_step sample_uuid) (sample_world Pv_Load) (replicate n (Ve_Step ''s1'' 5 (Mx_Ok ''!r''))) = w' \<and>
    pv_attempts w' ''s1'' = Some (Pv_Done (Inr s')) \<and> session_row_of (pv_db w') ''s1'' = Some r \<and>
    sr_status r = Running \<and> sr_roomId r = Some (attempt_room full_session ''!r'')"
proof (rule full_group_goes_live)
  show "getSession ''s1'' (pv_db (sample_world Pv_Load)) = Some full_session"
    by (simp add: sample_world_def full_lobby_loads)
  show "\<forall>p\<in>set (se_participants full_session). getParticipantCreds (pt_id p) (pv_db (sample_world Pv_Load)) \<noteq> None"
  proof -
    have db: "pv_db (sample_world Pv_Load) = full_lobby" by (simp add: sample_world_def)
    have "pt_id ` set (se_participants full_session) = set (member_ids full_lobby ''s1'')"
      unfolding full_lobby_facts(2) list.set_map [symmetric] full_lobby_loads(2) ..
    with full_lobby_creds have "\<forall>i\<in>pt_id ` set (se_participants full_session). getParticipantCreds i full_lobby \<noteq> None"
      by simp
    then show ?thesis unfolding db by blast
  qed
  show "pv_attempts (sample_world Pv_Load) ''s1'' = Some Pv_Load" by (simp add: sample_world_def)
  show "full_group full_session" by (rule full_lobby_full)
qed

text \<open>A run of the provisioner that ends with a running session.\<close>

lemma sample_run:
  "\<exists>es r. session_row_of (pv_db (foldl (world_step sample_uuid) (sample_world (Pv_Claim full_session)) es)) ''s1'' = Some r \<and>
    sr_status r = Running"
proof -
  from claim_to_running [of full_lobby "''s1''" _ 5 "''!r''" full_session "[]"] full_lobby_creds
  obtain n d' acks' r' s' where run: "answered ''s1'' 5 ''!r'' n (Pv_Claim full_session, full_lobby, []) = (Pv_Done (Inr s'), d', acks')"
    "session_row_of d' ''s1'' = Some r'" "sr_status r' = Running"
    using full_lobby_facts(1) sample_row(2) by blast
  from world_answered [of "sample_world (Pv_Claim full_session)" "''s1''" "Pv_Claim full_session" 5 "''!r''" n] run
  show ?thesis by (fastforce simp: sample_world_def)
qed



theorem short_group_starts_witness:
  "\<exists>n w' r'. foldl (world_step sample_uuid) (sample_world (Pv_Claim full_session))
      (Ve_Store 5 (Op_Remove ''s1'' ''p2'') # replicate n (Ve_Step ''s1'' 5 (Mx_Ok ''!r''))) = w' \<and>
    session_row_of (pv_db w') ''s1'' = Some r' \<and> sr_status r' = Running \<and> ''p2'' \<notin> set (member_ids (pv_db w') ''s1'') \<and>
    length (member_ids (pv_db w') ''s1'') < length (se_participants full_session)"
  by (rule short_group_starts [where r = "sessionCreateData 0 sample_lobby"])
    (use full_lobby_creds in \<open>simp_all add: sample_world_def full_lobby_facts sample_row full_lobby_loads\<close>)

end
