(* ===== verification/Prolific_Verification.thy ===== *)
theory Prolific_Verification
  imports Participation
begin

text \<open>
  Who may take part: session-manager/src/sessions/prolific-verification.ts and the identity check of
  sessions.service.ts. A submission is looked up at the Prolific API, and a confirmed one is not
  looked up again for a minute. Requests suspend while their lookup is on its way; the reply of the
  API and the clock are arguments.

  The lemmas: everyone who is admitted was confirmed by Prolific for exactly this study, submission
  and participant within the last minute; the cache stays bounded by its limit and the number of
  lookups on their way. A lookup that accepts an ended submission vouches for it in the cache, so
  that it is admitted as one in progress.
\<close>

section \<open>Identifiers\<close>

definition is_alnum :: "char \<Rightarrow> bool" where
  "is_alnum c = (let n = of_char c :: nat in n \<in> {48..57} \<or> n \<in> {65..90} \<or> n \<in> {97..122})"

definition id_pattern :: "string \<Rightarrow> bool" where
  "id_pattern s = (length s = 24 \<and> list_all is_alnum s)"

definition preview_pattern :: "string \<Rightarrow> bool" where
  "preview_pattern s = (12 \<le> length s \<and> length s \<le> 23 \<and> list_all is_alnum s)"

datatype verify_error = Vr_Bad_Request string | Vr_Conflict string | Vr_Unavailable | Vr_Broken_Reply

definition assertProlificIdentifiers ::
    "string option \<Rightarrow> prolific_identity \<Rightarrow> string option \<Rightarrow> verify_error option" where
  "assertProlificIdentifiers configuredStudy i apiToken =
     (let validSessionId = id_pattern (pi_sessionId i) \<or> \<not> truthy apiToken \<and> preview_pattern (pi_sessionId i);
          expectedStudyId = map_option js_trim configuredStudy
      in if \<not> id_pattern (pi_participantId i) \<or> \<not> id_pattern (pi_studyId i) \<or> \<not> validSessionId
         then Some (Vr_Bad_Request ''Invalid Prolific identifiers'')
         else if truthy expectedStudyId \<and> Some (pi_studyId i) \<noteq> expectedStudyId
         then Some (Vr_Bad_Request ''Unexpected Prolific study'')
         else None)"

section \<open>The status of a submission\<close>

definition upper_char :: "char \<Rightarrow> char" where
  "upper_char c = (let n = of_char c :: nat in if n \<in> {97..122} then char_of (n - 32) else c)"

text \<open>A run of blanks and hyphens becomes one underscore.\<close>

definition is_gap :: "char \<Rightarrow> bool" where
  "is_gap c = (is_space c \<or> c = CHR ''-'')"

fun underscored :: "string \<Rightarrow> string" where
  "underscored [] = []"
| "underscored [c] = (if is_gap c then ''_'' else [c])"
| "underscored (c # d # s) =
     (if is_gap c then (if is_gap d then underscored (d # s) else ''_'' @ underscored (d # s))
      else c # underscored (d # s))"

definition submission_status :: "string \<Rightarrow> string" where
  "submission_status s = underscored (map upper_char (js_trim s))"

definition allowed_statuses :: "bool \<Rightarrow> string list" where
  "allowed_statuses allowEnded =
     [''RESERVED'', ''ACTIVE'', ''AWAITING_REVIEW'', ''APPROVED''] @
     (if allowEnded then [''RETURNED'', ''TIMED_OUT'', ''SCREENED_OUT'', ''REJECTED''] else [])"

section \<open>A verification\<close>

record submission =
  sb_id :: "string option"
  sb_study_id :: "string option"
  sb_participant :: "string option"
  sb_status :: "string option"

text \<open>No answer, a status that is not a success, a body that is no JSON, a submission.\<close>

datatype lookup_reply = Lk_Failed | Lk_Status nat | Lk_Broken | Lk_Body submission

definition verification_ttl :: int where
  "verification_ttl = 60000"

definition cache_max :: nat where
  "cache_max = 5000"

definition cacheKey :: "prolific_identity \<Rightarrow> string" where
  "cacheKey i = pi_studyId i @ '':'' @ pi_sessionId i @ '':'' @ pi_participantId i"

definition pruneCache :: "int \<Rightarrow> (string \<times> int) list \<Rightarrow> (string \<times> int) list" where
  "pruneCache now cache =
     (let live = filter (\<lambda>(k, expiresAt). \<not> expiresAt \<le> now) cache
      in drop (length live - (cache_max - 1)) live)"

text \<open>What a reply means: an error, or a confirmed submission.\<close>

definition judge :: "prolific_identity \<Rightarrow> bool \<Rightarrow> lookup_reply \<Rightarrow> verify_error option" where
  "judge i allowEnded reply =
     (case reply of
        Lk_Failed \<Rightarrow> Some Vr_Unavailable
      | Lk_Status n \<Rightarrow> Some (if n = 404 then Vr_Bad_Request ''Unknown Prolific submission'' else Vr_Unavailable)
      | Lk_Broken \<Rightarrow> Some Vr_Broken_Reply
      | Lk_Body b \<Rightarrow>
          if sb_id b \<noteq> Some (pi_sessionId i) \<or> sb_study_id b \<noteq> Some (pi_studyId i) \<or>
             sb_participant b \<noteq> Some (pi_participantId i)
          then Some (Vr_Bad_Request ''Prolific submission identity mismatch'')
          else
            let status = map_option submission_status (sb_status b)
            in if truthy status \<and> the status \<notin> set (allowed_statuses allowEnded)
               then Some (Vr_Bad_Request (''Prolific submission is '' @ map lower_char (the status)))
               else None)"

record lookup =
  lk_identity :: prolific_identity
  lk_allowEnded :: bool

record admission =
  ad_at :: int
  ad_identity :: prolific_identity
  ad_allowEnded :: bool

text \<open>
  The verifier: its cache, the lookups on their way, and as a record of what happened the requests
  that were admitted and the submissions the API described, each with the time of its reply.
\<close>

record verifier =
  vf_cache :: "(string \<times> int) list"
  vf_flight :: "lookup list"
  vf_admitted :: "admission list"
  vf_described :: "(int \<times> submission) list"

definition new_verifier :: verifier where
  "new_verifier = \<lparr>vf_cache = [], vf_flight = [], vf_admitted = [], vf_described = []\<rparr>"

definition verify :: "int \<Rightarrow> prolific_identity \<Rightarrow> bool \<Rightarrow> verifier \<Rightarrow> verifier" where
  "verify now i allowEnded v =
     (if orelse (om_get (vf_cache v) (cacheKey i)) 0 > now
      then v\<lparr>vf_admitted := vf_admitted v @ [\<lparr>ad_at = now, ad_identity = i, ad_allowEnded = allowEnded\<rparr>]\<rparr>
      else v\<lparr>vf_cache := pruneCache now (vf_cache v),
             vf_flight := vf_flight v @ [\<lparr>lk_identity = i, lk_allowEnded = allowEnded\<rparr>]\<rparr>)"

definition described :: "int \<Rightarrow> lookup_reply \<Rightarrow> (int \<times> submission) list" where
  "described now reply = (case reply of Lk_Body b \<Rightarrow> [(now, b)] | _ \<Rightarrow> [])"

text \<open>The reply to the lookup in place \<open>k\<close>.\<close>

definition verified :: "int \<Rightarrow> nat \<Rightarrow> lookup_reply \<Rightarrow> verifier \<Rightarrow> verifier" where
  "verified now k reply v =
     (if length (vf_flight v) \<le> k then v
      else
        let l = vf_flight v ! k;
            v1 = v\<lparr>vf_flight := take k (vf_flight v) @ drop (Suc k) (vf_flight v),
                   vf_described := vf_described v @ described now reply\<rparr>;
            a = \<lparr>ad_at = now, ad_identity = lk_identity l, ad_allowEnded = lk_allowEnded l\<rparr>
        in case judge (lk_identity l) (lk_allowEnded l) reply of
             Some e \<Rightarrow> v1
           | None \<Rightarrow>
               v1\<lparr>vf_cache := om_set (cacheKey (lk_identity l)) (now + verification_ttl) (vf_cache v1),
                  vf_admitted := vf_admitted v1 @ [a]\<rparr>)"

text \<open>
  \<open>validateProlificIdentity\<close> before the lookup: the identifiers, then the participant the submission
  is recorded for; \<open>None\<close> in the second place means that nothing is looked up.
\<close>

definition validateProlificIdentity ::
    "string option \<Rightarrow> string option \<Rightarrow> prolific_identity option \<Rightarrow> pdb \<Rightarrow> verify_error + prolific_identity option" where
  "validateProlificIdentity configuredStudy apiToken identity d =
     (case identity of
        None \<Rightarrow> Inr None
      | Some i \<Rightarrow>
          (case assertProlificIdentifiers configuredStudy i apiToken of
             Some e \<Rightarrow> Inl e
           | None \<Rightarrow>
               (case find_arrival i d of
                  Some r \<Rightarrow>
                    if pi_participantId (ar_identity r) \<noteq> pi_participantId i
                    then Inl (Vr_Conflict ''This Prolific submission belongs to a different participant'')
                    else Inr (if truthy apiToken then Some i else None)
                | None \<Rightarrow> Inr (if truthy apiToken then Some i else None))))"

datatype verify_event = Vf_Call int prolific_identity bool | Vf_Reply int nat lookup_reply

text \<open>
  Requests whose identifiers passed the check, at a time the clock can show; at most \<open>n\<close> lookups are
  on their way at once.
\<close>

fun verify_step :: "nat \<Rightarrow> verifier \<Rightarrow> verify_event \<Rightarrow> verifier" where
  "verify_step n v (Vf_Call now i allowEnded) =
     (if id_pattern (pi_participantId i) \<and> id_pattern (pi_studyId i) \<and> id_pattern (pi_sessionId i) \<and>
         0 \<le> now \<and> length (vf_flight v) < n then verify now i allowEnded v else v)"
| "verify_step n v (Vf_Reply now k reply) = verified now k reply v"

section \<open>Lemmas\<close>

text \<open>Identifiers contain no colon, so that a cache key tells the three of them.\<close>

lemma alnum_no_colon: "list_all is_alnum s \<Longrightarrow> CHR '':'' \<notin> set s"
  by (auto simp: list_all_iff is_alnum_def)

lemma split_at_colon:
  "CHR '':'' \<notin> set a \<Longrightarrow> CHR '':'' \<notin> set b \<Longrightarrow> a @ CHR '':'' # x = b @ CHR '':'' # y \<Longrightarrow> a = b \<and> x = y"
proof (induction a arbitrary: b)
  case Nil
  then show ?case by (cases b) auto
next
  case (Cons c a)
  then show ?case by (cases b) auto
qed

definition plain_identity :: "prolific_identity \<Rightarrow> bool" where
  "plain_identity i = (id_pattern (pi_participantId i) \<and> id_pattern (pi_studyId i) \<and> id_pattern (pi_sessionId i))"

lemma cacheKey_inj:
  assumes "plain_identity i" and "plain_identity j" and "cacheKey i = cacheKey j"
  shows "i = j"
proof -
  have no: "CHR '':'' \<notin> set (pi_studyId x)" "CHR '':'' \<notin> set (pi_sessionId x)" if "plain_identity x" for x
    using that alnum_no_colon by (auto simp: plain_identity_def id_pattern_def)
  from assms(3) have "pi_studyId i = pi_studyId j \<and>
      pi_sessionId i @ CHR '':'' # pi_participantId i = pi_sessionId j @ CHR '':'' # pi_participantId j"
    unfolding cacheKey_def by (intro split_at_colon) (simp_all add: no assms)
  moreover from this have "pi_sessionId i = pi_sessionId j \<and> pi_participantId i = pi_participantId j"
    by (intro split_at_colon) (simp_all add: no assms)
  ultimately show ?thesis by simp
qed

lemma pruned_entries: "set (pruneCache now cache) \<subseteq> set cache"
  by (auto simp: pruneCache_def Let_def dest: in_set_dropD)

lemma pruned_keys: "distinct (map fst cache) \<Longrightarrow> distinct (map fst (pruneCache now cache))"
  by (simp add: pruneCache_def Let_def drop_map [symmetric] distinct_map_filter)

lemma pruned_length: "length (pruneCache now cache) \<le> cache_max - 1"
  by (simp add: pruneCache_def Let_def)

text \<open>
  A submission that confirms an identity: it names the submission, the study and the participant,
  and its status is one of those any request admits.
\<close>

definition confirms :: "submission \<Rightarrow> prolific_identity \<Rightarrow> bool" where
  "confirms b i =
     (sb_id b = Some (pi_sessionId i) \<and> sb_study_id b = Some (pi_studyId i) \<and>
      sb_participant b = Some (pi_participantId i) \<and>
      (truthy (map_option submission_status (sb_status b)) \<longrightarrow>
         submission_status (the (sb_status b)) \<in> set (allowed_statuses True)))"

lemma judged_confirms:
  assumes "judge i allowEnded reply = None"
  obtains b where "reply = Lk_Body b" and "confirms b i"
proof -
  from assms obtain b where b: "reply = Lk_Body b" by (cases reply) (auto simp: judge_def)
  from assms b have "confirms b i"
    by (cases "sb_status b") (auto simp: judge_def confirms_def Let_def allowed_statuses_def split: if_splits)
  with b that show ?thesis by blast
qed

text \<open>The invariant: every entry of the cache, and every admission, rests on a confirmation.\<close>

definition vouched :: "verifier \<Rightarrow> prolific_identity \<Rightarrow> int \<Rightarrow> bool" where
  "vouched v i until = (\<exists>(t, b)\<in>set (vf_described v). confirms b i \<and> t + verification_ttl = until)"

definition verifier_ok :: "nat \<Rightarrow> verifier \<Rightarrow> bool" where
  "verifier_ok n v =
     (distinct (map fst (vf_cache v)) \<and>
      (\<forall>(k, until)\<in>set (vf_cache v). \<exists>i. plain_identity i \<and> k = cacheKey i \<and> vouched v i until) \<and>
      (\<forall>l\<in>set (vf_flight v). plain_identity (lk_identity l)) \<and>
      (\<forall>a\<in>set (vf_admitted v). \<exists>until. vouched v (ad_identity a) until \<and> ad_at a < until) \<and>
      length (vf_flight v) \<le> n \<and> length (vf_cache v) + length (vf_flight v) \<le> cache_max - 1 + n)"

lemma cached_is_vouched:
  assumes "verifier_ok n v" and "plain_identity i" and "om_get (vf_cache v) (cacheKey i) = Some until"
  shows "vouched v i until"
proof -
  from assms(3) have "(cacheKey i, until) \<in> set (vf_cache v)" by (rule map_of_SomeD)
  with assms(1) obtain j where "plain_identity j" "cacheKey i = cacheKey j" "vouched v j until"
    by (fastforce simp: verifier_ok_def)
  with cacheKey_inj [OF assms(2)] show ?thesis by blast
qed

lemma call_ok:
  assumes "verifier_ok n v" and "0 \<le> now" and "plain_identity i" and "length (vf_flight v) < n"
  shows "verifier_ok n (verify now i allowEnded v)"
proof (cases "orelse (om_get (vf_cache v) (cacheKey i)) 0 > now")
  case True
  with assms(2) obtain until where u: "om_get (vf_cache v) (cacheKey i) = Some until" "now < until"
    by (cases "om_get (vf_cache v) (cacheKey i)") auto
  have "vouched (verify now i allowEnded v) = vouched v"
    by (intro ext) (simp add: verify_def vouched_def)
  moreover from cached_is_vouched [OF assms(1,3) u(1)] u(2)
  have "\<exists>until. vouched v i until \<and> now < until" by blast
  ultimately show ?thesis using assms(1) True unfolding verifier_ok_def by (simp add: verify_def)
next
  case False
  have "length (pruneCache now (vf_cache v)) + Suc (length (vf_flight v)) \<le> cache_max - 1 + n"
    using pruned_length [of now "vf_cache v"] assms(4) by linarith
  with False assms pruned_entries [of now "vf_cache v"] pruned_keys [of "vf_cache v" now]
  show ?thesis by (auto simp: verify_def verifier_ok_def vouched_def)
qed

lemma updated_length: "length (om_set k u m) \<le> Suc (length m)"
  by (induction m) auto

lemma updated_entries: "set (om_set k u m) \<subseteq> insert (k, u) (set m)"
  by (induction m) auto

lemma vouched_grows: "vouched v i until \<Longrightarrow> set (vf_described v) \<subseteq> set (vf_described v') \<Longrightarrow> vouched v' i until"
  by (auto simp: vouched_def)

lemma fewer_lookups:
  assumes "verifier_ok n v" and "set rest \<subseteq> set (vf_flight v)" and "length rest \<le> length (vf_flight v)"
  shows "verifier_ok n (v\<lparr>vf_flight := rest, vf_described := vf_described v @ ds\<rparr>)" (is "verifier_ok n ?v")
proof -
  have more: "vouched ?v i until" if "vouched v i until" for i until
    using that by (rule vouched_grows) simp
  from assms have "length rest \<le> n" "length (vf_cache v) + length rest \<le> cache_max - 1 + n"
    "\<forall>l\<in>set rest. plain_identity (lk_identity l)" unfolding verifier_ok_def by auto
  moreover have "\<forall>(k, until)\<in>set (vf_cache v). \<exists>i. plain_identity i \<and> k = cacheKey i \<and> vouched ?v i until"
    using assms(1) more unfolding verifier_ok_def by fast
  moreover have "\<forall>a\<in>set (vf_admitted v). \<exists>until. vouched ?v (ad_identity a) until \<and> ad_at a < until"
    using assms(1) more unfolding verifier_ok_def by blast
  ultimately show ?thesis using assms(1) unfolding verifier_ok_def by simp
qed

lemma reply_ok:
  assumes "verifier_ok n v"
  shows "verifier_ok n (verified now k reply v)"
proof (cases "length (vf_flight v) \<le> k")
  case True
  with assms show ?thesis by (simp add: verified_def)
next
  case False
  let ?l = "vf_flight v ! k" and ?rest = "take k (vf_flight v) @ drop (Suc k) (vf_flight v)"
  let ?a = "\<lparr>ad_at = now, ad_identity = lk_identity ?l, ad_allowEnded = lk_allowEnded ?l\<rparr>"
  let ?v1 = "v\<lparr>vf_flight := ?rest, vf_described := vf_described v @ described now reply\<rparr>"
  have rest: "set ?rest \<subseteq> set (vf_flight v)" "length (vf_flight v) = Suc (length ?rest)"
    using False by (auto dest: in_set_takeD in_set_dropD)
  have plain: "plain_identity (lk_identity ?l)" using assms False by (simp add: verifier_ok_def)
  have "length ?rest \<le> length (vf_flight v)" using rest(2) by linarith
  from fewer_lookups [OF assms rest(1) this] have v1: "verifier_ok n ?v1" .
  show ?thesis
  proof (cases "judge (lk_identity ?l) (lk_allowEnded ?l) reply")
    case (Some e)
    with False have "verified now k reply v = ?v1" by (simp add: verified_def Let_def)
    with v1 show ?thesis by (simp only:)
  next
    case None
    let ?cache = "om_set (cacheKey (lk_identity ?l)) (now + verification_ttl) (vf_cache v)"
    let ?v2 = "?v1\<lparr>vf_cache := ?cache, vf_admitted := vf_admitted v @ [?a]\<rparr>"
    have v': "verified now k reply v = ?v2" using None False by (simp add: verified_def Let_def)
    have cache: "length ?cache \<le> Suc (length (vf_cache v))"
      "set ?cache \<subseteq> insert (cacheKey (lk_identity ?l), now + verification_ttl) (set (vf_cache v))"
      by (rule updated_length) (rule updated_entries)
    obtain b where b: "reply = Lk_Body b" "confirms b (lk_identity ?l)" using None by (rule judged_confirms)
    then have now_ok: "vouched ?v2 (lk_identity ?l) (now + verification_ttl)"
      by (simp add: vouched_def described_def)
    have same: "vouched ?v2 = vouched ?v1" by (intro ext) (simp add: vouched_def)
    have "\<exists>i. plain_identity i \<and> key = cacheKey i \<and> vouched ?v2 i until"
      if e: "(key, until) \<in> set ?cache" for key until
    proof (cases "(key, until) \<in> set (vf_cache v)")
      case True
      with v1 show ?thesis unfolding same verifier_ok_def by fastforce
    next
      case False
      with e cache(2) have "key = cacheKey (lk_identity ?l)" "until = now + verification_ttl" by auto
      with plain now_ok show ?thesis by blast
    qed
    then have "\<forall>(key, until)\<in>set ?cache. \<exists>i. plain_identity i \<and> key = cacheKey i \<and> vouched ?v2 i until" by blast
    moreover have "\<exists>until. vouched ?v2 (ad_identity a) until \<and> ad_at a < until"
      if a: "a \<in> set (vf_admitted v @ [?a])" for a
    proof (cases "a = ?a")
      case True
      have "now < now + verification_ttl" by (simp add: verification_ttl_def)
      with True now_ok show ?thesis by auto
    next
      case False
      with a v1 show ?thesis unfolding same verifier_ok_def by auto
    qed
    moreover have "length ?cache + length ?rest \<le> cache_max - 1 + n" "length ?rest \<le> n"
      using cache(1) rest(2) assms unfolding verifier_ok_def by linarith+
    moreover have "\<forall>l\<in>set ?rest. plain_identity (lk_identity l)" using rest(1) assms by (auto simp: verifier_ok_def)
    moreover have "distinct (map fst ?cache)" using assms by (simp add: verifier_ok_def)
    ultimately show ?thesis unfolding verifier_ok_def v' by simp
  qed
qed

lemma verify_step_ok: "verifier_ok n v \<Longrightarrow> verifier_ok n (verify_step n v e)"
  by (cases e) (auto simp: reply_ok call_ok plain_identity_def)

interpretation verification: stepper "verify_step n" "verifier_ok n" for n
  by unfold_locales (rule verify_step_ok)

lemma new_verifier_ok: "verifier_ok n new_verifier"
  by (simp add: verifier_ok_def new_verifier_def)


text \<open>
  The cache of confirmed submissions stays bounded whatever identifiers arrive: with at most
  \<open>n\<close> lookups on their way at once it never has more than 4999 + \<open>n\<close> entries, one lookup at a
  time keeps the limit of 5000.
\<close>

theorem verification_cache_bounded:
  "length (vf_cache (foldl (verify_step n) new_verifier es)) \<le> 4999 + n"
  using verification.run_inv [OF new_verifier_ok, of n es] by (simp add: verifier_ok_def cache_max_def)

text \<open>
  A lookup that admits ended submissions, as the page that shows an outcome makes it, vouches
  for the submission in the cache: within the minute the same submission is admitted as one in
  progress, although the lookup for a submission in progress refuses the status Prolific reported.
\<close>

theorem ended_submission_admitted:
  assumes "vf_flight v = [\<lparr>lk_identity = i, lk_allowEnded = True\<rparr>]"
    and "sb_id b = Some (pi_sessionId i)" and "sb_study_id b = Some (pi_studyId i)"
    and "sb_participant b = Some (pi_participantId i)" and "sb_status b = Some ''RETURNED''"
    and "now \<le> now'" and "now' < now + 60000"
  shows "judge i False (Lk_Body b) = Some (Vr_Bad_Request ''Prolific submission is returned'') \<and>
    vf_admitted (verify now' i False (verified now 0 (Lk_Body b) v)) =
      vf_admitted v @ [\<lparr>ad_at = now, ad_identity = i, ad_allowEnded = True\<rparr>,
        \<lparr>ad_at = now', ad_identity = i, ad_allowEnded = False\<rparr>]"
proof -
  have status: "submission_status ''RETURNED'' = ''RETURNED''"
    by (simp add: submission_status_def js_trim_def is_space_def Let_def upper_char_def is_gap_def)
  have lower: "map lower_char ''RETURNED'' = ''returned''" by code_simp
  have refused: "judge i False (Lk_Body b) = Some (Vr_Bad_Request ''Prolific submission is returned'')"
    using assms(2-5) lower by (simp add: judge_def status allowed_statuses_def)
  have "judge i True (Lk_Body b) = None"
    using assms(2-5) by (simp add: judge_def status allowed_statuses_def)
  with assms(1,7) have "vf_admitted (verify now' i False (verified now 0 (Lk_Body b) v)) =
      vf_admitted v @ [\<lparr>ad_at = now, ad_identity = i, ad_allowEnded = True\<rparr>,
        \<lparr>ad_at = now', ad_identity = i, ad_allowEnded = False\<rparr>]"
    by (simp add: verified_def verify_def Let_def update_conv' verification_ttl_def)
  with refused show ?thesis ..
qed

definition sample_submission :: submission where
  "sample_submission =
     \<lparr>sb_id = Some ''aaaaaaaaaaaaaaaaaaaaaaa3'', sb_study_id = Some ''aaaaaaaaaaaaaaaaaaaaaaa2'',
      sb_participant = Some ''aaaaaaaaaaaaaaaaaaaaaaa1'', sb_status = Some ''RETURNED''\<rparr>"

definition plain_sample :: prolific_identity where
  "plain_sample =
     \<lparr>pi_participantId = ''aaaaaaaaaaaaaaaaaaaaaaa1'', pi_studyId = ''aaaaaaaaaaaaaaaaaaaaaaa2'',
      pi_sessionId = ''aaaaaaaaaaaaaaaaaaaaaaa3''\<rparr>"

theorem ended_submission_admitted_witness:
  "judge plain_sample False (Lk_Body sample_submission) = Some (Vr_Bad_Request ''Prolific submission is returned'') \<and>
    vf_admitted (verify 30000 plain_sample False (verified 0 0 (Lk_Body sample_submission)
      (new_verifier\<lparr>vf_flight := [\<lparr>lk_identity = plain_sample, lk_allowEnded = True\<rparr>]\<rparr>))) =
      [\<lparr>ad_at = 0, ad_identity = plain_sample, ad_allowEnded = True\<rparr>,
       \<lparr>ad_at = 30000, ad_identity = plain_sample, ad_allowEnded = False\<rparr>]"
  using ended_submission_admitted [of "new_verifier\<lparr>vf_flight := [\<lparr>lk_identity = plain_sample, lk_allowEnded = True\<rparr>]\<rparr>"
      plain_sample sample_submission 0 30000]
  by (simp add: new_verifier_def sample_submission_def plain_sample_def)


end
