(* ===== verification/Request_Validation.thy ===== *)
theory Request_Validation
  imports Study_Models
begin

text \<open>
  session-manager/src/validation/request-validation.ts: the checks every request body passes before
  it reaches a service. A body is a JSON value (\<open>answer\<close>), an absent field is \<open>None\<close>. A check is
  \<open>None\<close> when it passes and otherwise the error it throws.

  The lemmas: a ranking is accepted exactly when it is an order of the expected items; the recursive
  check with its shared counter accepts exactly the values within the limits of size, depth and
  number of nodes, and never looks at more than 501 nodes, however large the body is. Stages and
  outcomes are compared after conversion to a string, so that a list of one stage passes.
\<close>

section \<open>Verdicts\<close>

text \<open>A rejected request, or the TypeError of a conversion.\<close>

datatype request_error = Rq_Bad string | Rq_Type_Error

type_synonym verdict = "request_error option"

text \<open>Checks in sequence: the first that throws decides.\<close>

fun checks :: "verdict list \<Rightarrow> verdict" where
  "checks [] = None"
| "checks (v # vs) = (case v of None \<Rightarrow> checks vs | Some e \<Rightarrow> Some e)"

definition demand :: "bool \<Rightarrow> string \<Rightarrow> verdict" where
  "demand b message = (if b then None else Some (Rq_Bad message))"

lemma verdicts_pass: "checks vs = None \<longleftrightarrow> (\<forall>v\<in>set vs. v = None)"
  by (induction vs) (auto split: option.splits)

lemma demand_pass [simp]: "demand b m = None \<longleftrightarrow> b"
  by (simp add: demand_def)

lemma checks_append: "checks (vs @ ws) = (case checks vs of None \<Rightarrow> checks ws | Some e \<Rightarrow> Some e)"
  by (induction vs) (auto split: option.splits)

section \<open>Primitive checks\<close>

definition record_of :: "answer option \<Rightarrow> string \<Rightarrow> ((string \<times> answer) list \<Rightarrow> verdict) \<Rightarrow> verdict" where
  "record_of v message rest =
     (case v of Some (A_Obj fs) \<Rightarrow> rest fs | _ \<Rightarrow> Some (Rq_Bad message))"

definition range_text :: "nat \<Rightarrow> nat \<Rightarrow> string" where
  "range_text lo hi = show_nat lo @ ''-'' @ show_nat hi"

definition boundedString :: "answer option \<Rightarrow> string \<Rightarrow> nat \<Rightarrow> nat \<Rightarrow> request_error + string" where
  "boundedString v field lo hi =
     (let wrong = Inl (Rq_Bad (field @ '' must be a string of '' @ range_text lo hi @ '' characters''))
      in case v of Some (A_Str s) \<Rightarrow> if length s < lo \<or> hi < length s then wrong else Inr s | _ \<Rightarrow> wrong)"

text \<open>A check that goes on with the string, and one that does not need it.\<close>

definition string_then :: "request_error + string \<Rightarrow> (string \<Rightarrow> verdict) \<Rightarrow> verdict" where
  "string_then r rest = (case r of Inl e \<Rightarrow> Some e | Inr s \<Rightarrow> rest s)"

definition bounded :: "answer option \<Rightarrow> string \<Rightarrow> nat \<Rightarrow> nat \<Rightarrow> verdict" where
  "bounded v field lo hi = string_then (boundedString v field lo hi) (\<lambda>s. None)"

definition optional :: "answer option \<Rightarrow> (answer option \<Rightarrow> verdict) \<Rightarrow> verdict" where
  "optional v rest = (if v = None then None else rest v)"

definition safe_char :: "char \<Rightarrow> bool" where
  "safe_char c = (let n = of_char c :: nat
     in n \<in> {48..57} \<or> n \<in> {65..90} \<or> n \<in> {97..122} \<or> c \<in> set ''._:@-'')"

definition SAFE_ID :: "string \<Rightarrow> bool" where
  "SAFE_ID s = (s \<noteq> [] \<and> list_all safe_char s)"

definition optionalSafeId :: "answer option \<Rightarrow> string \<Rightarrow> nat \<Rightarrow> verdict" where
  "optionalSafeId v field maximum =
     optional v (\<lambda>v. string_then (boundedString v field 1 maximum)
       (\<lambda>s. demand (SAFE_ID s) (field @ '' contains invalid characters'')))"

definition is_integer :: "rat \<Rightarrow> bool" where
  "is_integer r = (of_int \<lfloor>r\<rfloor> = r)"

definition integerInRange :: "answer option \<Rightarrow> string \<Rightarrow> nat \<Rightarrow> nat \<Rightarrow> verdict" where
  "integerInRange v field lo hi =
     demand (case v of Some (A_Num (Num r)) \<Rightarrow> is_integer r \<and> \<not> r < of_nat lo \<and> \<not> of_nat hi < r | _ \<Rightarrow> False)
       (field @ '' must be an integer from '' @ show_nat lo @ '' to '' @ show_nat hi)"

definition finiteNumber :: "answer option \<Rightarrow> string \<Rightarrow> verdict" where
  "finiteNumber v field =
     demand (case v of Some (A_Num (Num r)) \<Rightarrow> True | _ \<Rightarrow> False) (field @ '' must be a finite number'')"

definition is_boolean :: "answer option \<Rightarrow> bool" where
  "is_boolean v = (case v of Some (A_Bool b) \<Rightarrow> True | _ \<Rightarrow> False)"

text \<open>\<open>String(value)\<close>; \<open>num_text\<close> is the text of a number. \<open>None\<close> is the TypeError of an object
  whose own field \<open>toString\<close> is no function.\<close>

definition joined :: "string list \<Rightarrow> string" where
  "joined = join '',''"

fun js_String :: "(jsnum \<Rightarrow> string) \<Rightarrow> answer \<Rightarrow> string option" and
    js_elements :: "(jsnum \<Rightarrow> string) \<Rightarrow> answer list \<Rightarrow> string list option" where
  "js_String t A_Null = Some ''null''"
| "js_String t (A_Str s) = Some s"
| "js_String t (A_Num n) = Some (t n)"
| "js_String t (A_Bool b) = Some (if b then ''true'' else ''false'')"
| "js_String t (A_List vs) = map_option joined (js_elements t vs)"
| "js_String t (A_Obj fs) = (if ''toString'' \<in> fst ` set fs then None else Some ''[object Object]'')"
| "js_elements t [] = Some []"
| "js_elements t (v # vs) =
     (case (if v = A_Null then Some '''' else js_String t v) of
        None \<Rightarrow> None
      | Some s \<Rightarrow> map_option (\<lambda>ss. s # ss) (js_elements t vs))"

definition one_of :: "(jsnum \<Rightarrow> string) \<Rightarrow> answer option \<Rightarrow> string list \<Rightarrow> string \<Rightarrow> verdict" where
  "one_of t v allowed message =
     (case (case v of None \<Rightarrow> Some ''undefined'' | Some a \<Rightarrow> js_String t a) of
        None \<Rightarrow> Some Rq_Type_Error
      | Some s \<Rightarrow> demand (s \<in> set allowed) message)"

text \<open>A ranking: every expected item exactly once.\<close>

fun strings_of :: "answer list \<Rightarrow> string list option" where
  "strings_of [] = Some []"
| "strings_of (A_Str s # vs) = map_option (\<lambda>ss. s # ss) (strings_of vs)"
| "strings_of (v # vs) = None"

definition exactRanking :: "answer option \<Rightarrow> string list \<Rightarrow> string \<Rightarrow> verdict" where
  "exactRanking v expected field =
     (case (case v of Some (A_List vs) \<Rightarrow> strings_of vs | _ \<Rightarrow> None) of
        None \<Rightarrow> Some (Rq_Bad (field @ '' must be a ranking''))
      | Some order \<Rightarrow>
          demand (\<not> (length order \<noteq> length expected \<or> length (uniq order) \<noteq> length expected \<or>
                     list_ex (\<lambda>item. item \<notin> set expected) order))
            (field @ '' must contain every task item exactly once''))"

section \<open>Bounded JSON\<close>

text \<open>The shared counter of visited nodes is threaded through.\<close>

fun validateBoundedJson :: "string \<Rightarrow> nat \<Rightarrow> answer \<Rightarrow> nat \<Rightarrow> verdict \<times> nat" and
    json_items :: "string \<Rightarrow> nat \<Rightarrow> answer list \<Rightarrow> nat \<Rightarrow> verdict \<times> nat" and
    json_entries :: "string \<Rightarrow> nat \<Rightarrow> (string \<times> answer) list \<Rightarrow> nat \<Rightarrow> verdict \<times> nat" where
  "validateBoundedJson field depth v nodes =
     (let nodes = nodes + 1
      in if nodes > 500 \<or> depth > 8 then (Some (Rq_Bad (field @ '' is too complex'')), nodes)
         else case v of
             A_Null \<Rightarrow> (None, nodes)
           | A_Bool b \<Rightarrow> (None, nodes)
           | A_Num n \<Rightarrow>
               (case n of Num r \<Rightarrow> (None, nodes)
                | _ \<Rightarrow> (Some (Rq_Bad (field @ '' contains an unsupported value'')), nodes))
           | A_Str s \<Rightarrow> (demand (\<not> length s > 4000) (field @ '' contains an oversized string''), nodes)
           | A_List vs \<Rightarrow>
               if length vs > 100 then (Some (Rq_Bad (field @ '' contains an oversized array'')), nodes)
               else json_items field (depth + 1) vs nodes
           | A_Obj fs \<Rightarrow>
               if length fs > 100 then (Some (Rq_Bad (field @ '' has too many properties'')), nodes)
               else json_entries field (depth + 1) fs nodes)"
| "json_items field depth [] nodes = (None, nodes)"
| "json_items field depth (v # vs) nodes =
     (case validateBoundedJson field depth v nodes of
        (None, nodes') \<Rightarrow> json_items field depth vs nodes'
      | (Some e, nodes') \<Rightarrow> (Some e, nodes'))"
| "json_entries field depth [] nodes = (None, nodes)"
| "json_entries field depth ((k, v) # fs) nodes =
     (if length k > 100 then (Some (Rq_Bad (field @ '' contains an oversized property name'')), nodes)
      else case validateBoundedJson field depth v nodes of
             (None, nodes') \<Rightarrow> json_entries field depth fs nodes'
           | (Some e, nodes') \<Rightarrow> (Some e, nodes'))"

declare validateBoundedJson.simps [simp del]

definition bounded_json :: "answer \<Rightarrow> string \<Rightarrow> verdict" where
  "bounded_json v field = fst (validateBoundedJson field 0 v 0)"

section \<open>Requests\<close>

definition validateProlificShape :: "answer option \<Rightarrow> verdict" where
  "validateProlificShape v =
     record_of v ''Invalid Prolific identity'' (\<lambda>prolific. checks (map (\<lambda>key.
       string_then (boundedString (map_of prolific key) (''prolific.'' @ key) 1 64)
         (\<lambda>i. demand (SAFE_ID i) (''prolific.'' @ key @ '' contains invalid characters'')))
       [''participantId'', ''studyId'', ''sessionId'']))"

definition validateOpenSessionRequest :: "answer option \<Rightarrow> verdict" where
  "validateOpenSessionRequest v =
     record_of v ''Invalid session request'' (\<lambda>request. checks [
       string_then (boundedString (map_of request ''trackingToken'') ''trackingToken'' 1 256)
         (\<lambda>token. demand (\<not> list_ex is_space token) ''trackingToken must not contain whitespace''),
       bounded (map_of request ''participantName'') ''participantName'' 0 100,
       optionalSafeId (map_of request ''conditionId'') ''conditionId'' 128,
       optional (map_of request ''prolific'') validateProlificShape])"

definition validateProlificArrivalRequest :: "answer option \<Rightarrow> verdict" where
  "validateProlificArrivalRequest v =
     record_of v ''Invalid Prolific request'' (\<lambda>request. validateProlificShape (map_of request ''prolific''))"

definition CLIENT_REPORTED_STAGES :: "string list" where
  "CLIENT_REPORTED_STAGES = [''arrived'', ''consent'', ''entry'', ''waiting'', ''chat'', ''exit'']"

definition validateParticipationProgressRequest :: "(jsnum \<Rightarrow> string) \<Rightarrow> answer option \<Rightarrow> verdict" where
  "validateParticipationProgressRequest t v =
     record_of v ''Invalid participation progress'' (\<lambda>request. checks [
       validateProlificShape (map_of request ''prolific''),
       one_of t (map_of request ''stage'') CLIENT_REPORTED_STAGES ''Invalid participation stage''])"

definition validateTerminateParticipationRequest :: "(jsnum \<Rightarrow> string) \<Rightarrow> answer option \<Rightarrow> verdict" where
  "validateTerminateParticipationRequest t v =
     record_of v ''Invalid participation termination'' (\<lambda>request. checks [
       validateProlificShape (map_of request ''prolific''),
       one_of t (map_of request ''outcome'') [''declined_consent'', ''ineligible'', ''voluntary_withdrawal'']
         ''Invalid participant-selectable outcome'',
       optional (map_of request ''reason'') (\<lambda>v. bounded v ''reason'' 0 500)])"

text \<open>\<open>readable\<close>: Date.parse reads the text as a timestamp.\<close>

definition validateSurveyRequest :: "(string \<Rightarrow> bool) \<Rightarrow> answer option \<Rightarrow> verdict" where
  "validateSurveyRequest readable v =
     record_of v ''Invalid survey request'' (\<lambda>request. checks [
       bounded (map_of request ''sessionId'') ''sessionId'' 1 100,
       bounded (map_of request ''participantId'') ''participantId'' 1 100,
       demand (map_of request ''kind'' \<in> {Some (A_Str ''entry''), Some (A_Str ''exit'')})
         ''kind must be entry or exit'',
       record_of (map_of request ''survey'') ''Invalid survey'' (\<lambda>survey. checks [
         string_then (boundedString (map_of survey ''submittedAt'') ''survey.submittedAt'' 1 64)
           (\<lambda>s. demand (readable s) ''survey.submittedAt must be a valid timestamp''),
         record_of (map_of survey ''answers'') ''survey.answers must be an object''
           (\<lambda>answers. bounded_json (A_Obj answers) ''survey.answers'')])])"

definition validateDebriefFeedbackRequest :: "answer option \<Rightarrow> verdict" where
  "validateDebriefFeedbackRequest v =
     record_of v ''Invalid debrief feedback'' (\<lambda>request. checks [
       bounded (map_of request ''sessionId'') ''sessionId'' 1 100,
       bounded (map_of request ''participantId'') ''participantId'' 1 100,
       demand (case map_of request ''feedback'' of Some (A_Str s) \<Rightarrow> True | _ \<Rightarrow> False)
         ''feedback must be a string''])"

definition CHECKPOINT_ARRAY_FIELDS :: "string list" where
  "CHECKPOINT_ARRAY_FIELDS =
     [''messages'', ''rankingHistory'', ''interventions'', ''behavioralEvents'',
      ''contributionClassifications'', ''windowEvaluations'', ''classificationFailures'',
      ''processedEventIds'', ''redactedReactionEventIds'', ''reactionEvents'']"

definition validateCheckpointRequest :: "answer option \<Rightarrow> verdict" where
  "validateCheckpointRequest v =
     record_of v ''Invalid checkpoint'' (\<lambda>request. checks (
       [optional (map_of request ''revision'') (\<lambda>v.
          demand (case v of Some (A_Num (Num r)) \<Rightarrow> \<not> r < 0 | _ \<Rightarrow> False)
            ''revision must be a non-negative number'')] @
       map (\<lambda>field. optional (map_of request field) (\<lambda>v.
          demand (case v of Some (A_List vs) \<Rightarrow> True | _ \<Rightarrow> False) (field @ '' must be an array'')))
         CHECKPOINT_ARRAY_FIELDS @
       [optional (map_of request ''ruleState'') (\<lambda>v. record_of v ''ruleState must be an object'' (\<lambda>_. None))]))"

definition validateCondition :: "answer option \<Rightarrow> verdict" where
  "validateCondition v =
     record_of v ''Invalid condition'' (\<lambda>condition. checks [
       optionalSafeId (map_of condition ''id'') ''condition.id'' 128,
       bounded (map_of condition ''name'') ''condition.name'' 1 160,
       demand (is_boolean (map_of condition ''active'')) ''condition.active must be a boolean'',
       finiteNumber (map_of condition ''goal'') ''condition.goal'',
       finiteNumber (map_of condition ''durationMinutes'') ''condition.durationMinutes'',
       finiteNumber (map_of condition ''groupSize'') ''condition.groupSize'',
       record_of (map_of condition ''config'') ''condition.config must be an object''
         (\<lambda>config. bounded_json (A_Obj config) ''condition.config'')])"

definition validateRoundLabel :: "answer option \<Rightarrow> request_error + string" where
  "validateRoundLabel v =
     (if v = None then Inr '''' else case boundedString v ''label'' 0 120 of Inl e \<Rightarrow> Inl e | Inr s \<Rightarrow> Inr (js_trim s))"

text \<open>A parsed URL: protocol, host name, and its text.\<close>

record url =
  url_protocol :: string
  url_hostname :: string
  url_text :: string

definition validateCompensationUrl ::
    "(string \<Rightarrow> url option) \<Rightarrow> answer option \<Rightarrow> string \<Rightarrow> request_error + string" where
  "validateCompensationUrl parse v field =
     (case boundedString v field 0 2000 of
        Inl e \<Rightarrow> Inl e
      | Inr raw \<Rightarrow>
          if js_trim raw = '''' then Inr ''''
          else case parse (js_trim raw) of
              None \<Rightarrow> Inl (Rq_Bad (field @ '' must be a valid URL''))
            | Some parsed \<Rightarrow>
                let localHttp = url_protocol parsed = ''http:'' \<and>
                      url_hostname parsed \<in> {''localhost'', ''127.0.0.1'', ''::1''}
                in if url_protocol parsed \<noteq> ''https:'' \<and> \<not> localHttp
                   then Inl (Rq_Bad (field @ '' must use HTTPS'')) else Inr (url_text parsed))"

section \<open>The questionnaire\<close>

type_synonym answer_fields = "(string \<times> answer) list"

definition present :: "answer_fields \<Rightarrow> string \<Rightarrow> (answer option \<Rightarrow> verdict) \<Rightarrow> verdict" where
  "present answers key check = optional (map_of answers key) check"

definition likert :: "answer_fields \<Rightarrow> string \<Rightarrow> nat \<Rightarrow> nat \<Rightarrow> verdict" where
  "likert answers key lo hi = present answers key (\<lambda>v. integerInRange v key lo hi)"

definition text_answer :: "answer_fields \<Rightarrow> string \<Rightarrow> nat \<Rightarrow> nat \<Rightarrow> verdict" where
  "text_answer answers key lo hi = present answers key (\<lambda>v. bounded v key lo hi)"

definition flag_answer :: "answer_fields \<Rightarrow> string \<Rightarrow> verdict" where
  "flag_answer answers key = present answers key (\<lambda>v. demand (is_boolean v) (key @ '' must be a boolean''))"

definition consent_keys :: "string list" where
  "consent_keys = [''consentAdult'', ''consentInformed'', ''consentWithdrawal'', ''consentParticipation'',
     ''groupInstructionsAcknowledged'']"

definition exitLikert5Keys :: "string list" where
  "exitLikert5Keys =
     [''groupConsidered'', ''groupBalanced'', ''attentionCheck1'', ''groupDominated'', ''feltTeam'',
      ''comfortableAgain'', ''safeSpeakUp'', ''raiseConcerns'', ''contradicted'', ''attentionCheck2'',
      ''contributionSerious'', ''contributionInfluenced'', ''heldBack'', ''botIntrusive'', ''botHelpful'',
      ''botAppropriate'', ''botObserved'', ''botSupport'']"

definition entry_answers :: "string list \<Rightarrow> answer_fields \<Rightarrow> verdict list" where
  "entry_answers expected a =
     map (\<lambda>key. present a key (\<lambda>v. demand (v = Some (A_Bool True)) (key @ '' must be accepted''))) consent_keys @
     [likert a ''age'' 18 120,
      text_answer a ''gender'' 1 40,
      text_answer a ''education'' 1 120,
      text_answer a ''fieldOfStudy'' 1 200,
      text_answer a ''genderCustom'' 1 200,
      text_answer a ''educationOther'' 1 200,
      flag_answer a ''agePreferNotToSay'',
      present a ''individualRanking'' (\<lambda>v. exactRanking v expected ''individualRanking''),
      flag_answer a ''rankingCompleted'',
      likert a ''rankingSecondsUsed'' 0 300,
      text_answer a ''englishProficiency'' 1 40,
      text_answer a ''teamworkFrequency'' 1 40,
      likert a ''chatComfort'' 1 7,
      likert a ''topicFamiliarity'' 1 7,
      likert a ''spaceflightFamiliarity'' 1 5,
      likert a ''survivalFamiliarity'' 1 5] @
     concat (map (\<lambda>i. [likert a (''gaais'' @ show_nat i) 1 5, likert a (''tipi'' @ show_nat i) 1 7]) [1..<11])"

definition exit_answers :: "string list \<Rightarrow> answer_fields \<Rightarrow> verdict list" where
  "exit_answers expected a =
     [present a ''finalRanking'' (\<lambda>v. exactRanking v expected ''finalRanking'')] @
     map (flag_answer a) [''finalRankingCompleted'', ''finalRankingTimedOut''] @
     [likert a ''exitRankingSecondsUsed'' 0 180,
      likert a ''satisfaction'' 1 7,
      likert a ''fairness'' 1 7,
      likert a ''feltHeard'' 1 7,
      likert a ''taskConfidence'' 1 5] @
     map (\<lambda>key. likert a key 1 5) exitLikert5Keys @
     [text_answer a ''debriefFeedback'' 0 4000]"

definition validateSurveyAnswers :: "bool \<Rightarrow> answer_fields \<Rightarrow> string list \<Rightarrow> verdict" where
  "validateSurveyAnswers entry a expected =
     checks (if entry then entry_answers expected a else exit_answers expected a)"

section \<open>Lemmas on bounded JSON\<close>

text \<open>The limits, read off the value: number of nodes, nesting, and what no node may be.\<close>

fun json_nodes :: "answer \<Rightarrow> nat" where
  "json_nodes (A_List vs) = Suc (sum_list (map json_nodes vs))"
| "json_nodes (A_Obj fs) = Suc (sum_list (map (\<lambda>(k, v). json_nodes v) fs))"
| "json_nodes v = 1"

fun json_depth :: "answer \<Rightarrow> nat" where
  "json_depth (A_List vs) = foldr max (map (\<lambda>v. Suc (json_depth v)) vs) 0"
| "json_depth (A_Obj fs) = foldr max (map (\<lambda>(k, v). Suc (json_depth v)) fs) 0"
| "json_depth v = 0"

fun json_plain :: "answer \<Rightarrow> bool" where
  "json_plain (A_Num n) = (case n of Num r \<Rightarrow> True | _ \<Rightarrow> False)"
| "json_plain (A_Str s) = (length s \<le> 4000)"
| "json_plain (A_List vs) = (length vs \<le> 100 \<and> (\<forall>v\<in>set vs. json_plain v))"
| "json_plain (A_Obj fs) = (length fs \<le> 100 \<and> (\<forall>(k, v)\<in>set fs. length k \<le> 100 \<and> json_plain v))"
| "json_plain v = True"

lemma foldr_max_le: "foldr max (map f xs) 0 \<le> (m::nat) \<longleftrightarrow> (\<forall>x\<in>set xs. f x \<le> m)"
  by (induction xs) auto

lemma depth_list [simp]: "d + json_depth (A_List vs) \<le> 8 \<longleftrightarrow> d \<le> 8 \<and> (\<forall>v\<in>set vs. Suc d + json_depth v \<le> 8)"
proof (cases "d \<le> 8")
  case True
  then have "d + m \<le> 8 \<longleftrightarrow> m \<le> 8 - d" for m by linarith
  moreover have "Suc m \<le> 8 - d \<longleftrightarrow> Suc d + m \<le> 8" for m using True by linarith
  ultimately show ?thesis using True by (simp only: json_depth.simps foldr_max_le simp_thms)
qed simp

lemma depth_obj [simp]:
  "d + json_depth (A_Obj fs) \<le> 8 \<longleftrightarrow> d \<le> 8 \<and> (\<forall>(k, v)\<in>set fs. Suc d + json_depth v \<le> 8)"
proof (cases "d \<le> 8")
  case True
  then have "d + m \<le> 8 \<longleftrightarrow> m \<le> 8 - d" for m by linarith
  moreover have "Suc m \<le> 8 - d \<longleftrightarrow> Suc d + m \<le> 8" for m using True by linarith
  ultimately show ?thesis using True by (simp only: json_depth.simps foldr_max_le case_prod_unfold simp_thms)
qed simp

lemma json_nodes_pos: "1 \<le> json_nodes v"
  by (cases v) auto

declare json_depth.simps(1,2) [simp del]

text \<open>The checks below a node, and two checks in sequence.\<close>

definition json_children :: "string \<Rightarrow> nat \<Rightarrow> answer \<Rightarrow> nat \<Rightarrow> verdict \<times> nat" where
  "json_children f d v n =
     (case v of A_List vs \<Rightarrow> json_items f (d + 1) vs n | A_Obj fs \<Rightarrow> json_entries f (d + 1) fs n
      | _ \<Rightarrow> (None, n))"

definition json_node :: "answer \<Rightarrow> bool" where
  "json_node v =
     (case v of A_Str s \<Rightarrow> length s \<le> 4000 | A_Num n \<Rightarrow> (case n of Num r \<Rightarrow> True | _ \<Rightarrow> False)
      | A_List vs \<Rightarrow> length vs \<le> 100 | A_Obj fs \<Rightarrow> length fs \<le> 100 | _ \<Rightarrow> True)"

lemma refused_node:
  "n + 1 > 500 \<or> d > 8 \<or> \<not> json_node v \<Longrightarrow> \<exists>e. validateBoundedJson f d v n = (Some e, n + 1)"
  by (subst validateBoundedJson.simps) (auto simp: json_node_def demand_def split: answer.splits jsnum.splits)

lemma passed_node:
  "\<not> n + 1 > 500 \<Longrightarrow> \<not> d > 8 \<Longrightarrow> json_node v \<Longrightarrow> validateBoundedJson f d v n = json_children f d v (n + 1)"
  by (subst validateBoundedJson.simps)
    (auto simp: json_node_def json_children_def demand_def split: answer.splits jsnum.splits)

lemma node_induct:
  assumes "\<And>f d n v. \<not> n + 1 > 500 \<Longrightarrow> \<not> d > 8 \<Longrightarrow> json_node v \<Longrightarrow>
      (\<And>vs. v = A_List vs \<Longrightarrow> Q f (d + 1) vs (n + 1)) \<Longrightarrow>
      (\<And>fs. v = A_Obj fs \<Longrightarrow> R f (d + 1) fs (n + 1)) \<Longrightarrow> P f d v n"
    and "\<And>f d n v. n + 1 > 500 \<or> d > 8 \<or> \<not> json_node v \<Longrightarrow> P f d v n"
    and "\<And>f d n. Q f d [] n" and "\<And>f d n. R f d [] n"
    and "\<And>f d v vs n. P f d v n \<Longrightarrow> (\<And>n'. validateBoundedJson f d v n = (None, n') \<Longrightarrow> Q f d vs n') \<Longrightarrow>
      Q f d (v # vs) n"
    and "\<And>f d k v fs n. (length k \<le> 100 \<Longrightarrow> P f d v n) \<Longrightarrow>
      (\<And>n'. length k \<le> 100 \<Longrightarrow> validateBoundedJson f d v n = (None, n') \<Longrightarrow> R f d fs n') \<Longrightarrow>
      R f d ((k, v) # fs) n"
  shows "P f d v n" and "Q f d vs n" and "R f d fs n"
proof (induction f d v n and f d vs n and f d fs n rule: validateBoundedJson_json_items_json_entries.induct)
  case (1 f d v n)
  then show ?case
  proof (cases "n + 1 > 500 \<or> d > 8 \<or> \<not> json_node v")
    case False
    then show ?thesis using 1 by (intro assms(1)) (auto simp: json_node_def)
  qed (rule assms(2))
qed (auto intro: assms)

text \<open>Invariant of the counter: it grows, and passes 500 only by the node that is refused.\<close>

definition counted :: "nat \<Rightarrow> verdict \<times> nat \<Rightarrow> bool" where
  "counted n r = (n \<le> snd r \<and> snd r \<le> 501 \<and> (fst r = None \<longrightarrow> snd r \<le> 500))"

lemma json_visits:
  shows "n \<le> 500 \<longrightarrow> counted n (validateBoundedJson f d v n)"
    and "n \<le> 500 \<longrightarrow> counted n (json_items f d vs n)"
    and "n \<le> 500 \<longrightarrow> counted n (json_entries f d fs n)"
proof (induction f d v n and f d vs n and f d fs n rule: node_induct)
  case (1 f d n v)
  then show ?case by (auto simp: passed_node json_children_def counted_def split: answer.split)
next
  case (2 f d n v)
  with refused_node [OF 2, of f] show ?case by (auto simp: counted_def)
next
  case (5 f d v vs n)
  then show ?case
    by (cases "validateBoundedJson f d v n"; cases "fst (validateBoundedJson f d v n)") (auto simp: counted_def)
next
  case (6 f d k v fs n)
  then show ?case
    by (cases "validateBoundedJson f d v n"; cases "fst (validateBoundedJson f d v n)") (auto simp: counted_def)
qed (auto simp: counted_def)

text \<open>The verdict and the counter after a check of \<open>k\<close> nodes that holds when \<open>ok\<close>.\<close>

definition decided :: "nat \<Rightarrow> nat \<Rightarrow> bool \<Rightarrow> verdict \<times> nat \<Rightarrow> bool" where
  "decided n k ok r = ((fst r = None \<longleftrightarrow> n + k \<le> 500 \<and> ok) \<and> (fst r = None \<longrightarrow> snd r = n + k))"

lemma json_verdict:
  shows "n \<le> 500 \<longrightarrow> decided n (json_nodes v) (d + json_depth v \<le> 8 \<and> json_plain v) (validateBoundedJson f d v n)"
    and "n \<le> 500 \<longrightarrow> decided n (sum_list (map json_nodes vs)) (\<forall>v\<in>set vs. d + json_depth v \<le> 8 \<and> json_plain v)
      (json_items f d vs n)"
    and "n \<le> 500 \<longrightarrow> decided n (sum_list (map (\<lambda>(k, v). json_nodes v) fs))
      (\<forall>(k, v)\<in>set fs. length k \<le> 100 \<and> d + json_depth v \<le> 8 \<and> json_plain v) (json_entries f d fs n)"
proof (induction f d v n and f d vs n and f d fs n rule: node_induct)
  case (1 f d n v)
  then show ?case
    by (cases v) (auto simp: passed_node json_children_def decided_def json_node_def split: jsnum.splits)
next
  case (2 f d n v)
  have "\<not> (n + json_nodes v \<le> 500 \<and> d + json_depth v \<le> 8 \<and> json_plain v)"
    using 2 json_nodes_pos [of v] by (cases v) (auto simp: json_node_def split: jsnum.splits)
  with refused_node [OF 2, of f] show ?case by (auto simp: decided_def)
next
  case (5 f d v vs n)
  then show ?case
    by (cases "validateBoundedJson f d v n"; cases "fst (validateBoundedJson f d v n)") (auto simp: decided_def)
next
  case (6 f d k v fs n)
  then show ?case
    by (cases "validateBoundedJson f d v n"; cases "fst (validateBoundedJson f d v n)") (auto simp: decided_def)
qed (auto simp: decided_def)

section \<open>Lemmas on rankings and conversions\<close>

lemma strings_of_Some: "strings_of vs = Some ss \<longleftrightarrow> vs = map A_Str ss"
proof (induction vs arbitrary: ss rule: strings_of.induct)
  case (2 s vs)
  then show ?case by (cases ss) auto
qed auto

lemma uniq_length: "length (uniq xs) = card (set xs)"
  using distinct_card [of "uniq xs"] by (simp add: uniq_def)

lemma exact_order:
  assumes "length order = length expected" and "card (set order) = length expected"
    and "set order \<subseteq> set expected"
  shows "distinct expected \<and> mset order = mset expected"
proof -
  have "distinct order" using assms(1,2) by (simp add: card_distinct)
  moreover have "card (set order) = card (set expected)"
    using card_mono [OF _ assms(3)] card_length [of expected] assms(2) by simp
  moreover from this have "set order = set expected" using assms(3) by (simp add: card_subset_eq)
  ultimately show ?thesis
    using assms(2) by (metis card_distinct set_eq_iff_mset_eq_distinct)
qed

lemma ranking_order:
  "exactRanking (Some (A_List (map A_Str order))) expected field = None \<longleftrightarrow>
     distinct expected \<and> mset order = mset expected"
proof -
  have "strings_of (map A_Str order) = Some order" by (simp add: strings_of_Some)
  moreover have "length order = length expected \<and> card (set order) = length expected \<and>
      set order \<subseteq> set expected \<longleftrightarrow> distinct expected \<and> mset order = mset expected"
  proof
    assume "distinct expected \<and> mset order = mset expected"
    then show "length order = length expected \<and> card (set order) = length expected \<and> set order \<subseteq> set expected"
      by (metis distinct_card mset_eq_imp_distinct_iff mset_eq_length mset_eq_setD order_refl)
  qed (use exact_order in blast)
  ultimately show ?thesis by (auto simp: exactRanking_def uniq_length list_ex_iff)
qed

lemma exactRanking_order:
  "exactRanking v expected field = None \<longleftrightarrow>
     distinct expected \<and> (\<exists>order. v = Some (A_List (map A_Str order)) \<and> mset order = mset expected)"
proof (cases "\<exists>order. v = Some (A_List (map A_Str order))")
  case True
  then obtain order where "v = Some (A_List (map A_Str order))" by blast
  moreover have "inj A_Str" by (simp add: inj_def)
  ultimately show ?thesis by (auto simp: ranking_order inj_map_eq_map)
next
  case False
  then have "(case v of Some (A_List vs) \<Rightarrow> strings_of vs | _ \<Rightarrow> None) = None"
    by (auto split: option.splits answer.splits) (metis not_None_eq strings_of_Some)
  with False show ?thesis by (auto simp: exactRanking_def)
qed

lemma one_of_singleton: "v \<noteq> A_Null \<Longrightarrow> one_of t (Some (A_List [v])) allowed m = one_of t (Some v) allowed m"
  by (cases "js_String t v") (simp_all add: one_of_def joined_def join_def)

section \<open>Properties\<close>

text \<open>
  A ranking passes the check exactly when it is a list of strings that orders the expected
  items, each once.
\<close>

theorem exact_ranking_iff:
  "exactRanking v expected field = None \<longleftrightarrow>
     distinct expected \<and> (\<exists>order. v = Some (A_List (map A_Str order)) \<and> mset order = mset expected)"
  by (rule exactRanking_order)

text \<open>
  C12: The recursive check with its shared counter accepts exactly the values of at most 500 nodes
  and nesting 8 without a number that is not finite, an oversized string, list, object or name.
\<close>

theorem bounded_json_iff:
  "bounded_json v field = None \<longleftrightarrow> json_nodes v \<le> 500 \<and> json_depth v \<le> 8 \<and> json_plain v"
  using json_verdict(1) [of 0 v 0 field] by (simp add: bounded_json_def decided_def)

text \<open>
  The check stops after at most 501 nodes, however large the body is.
\<close>

theorem json_check_stops: "snd (validateBoundedJson field 0 v 0) \<le> 501"
  using json_visits(1) [of 0 field 0 v] by (simp add: counted_def)

text \<open>
  The stage of a progress report is compared after conversion to a string, so that a list with
  one stage passes the check that asserts a stage.
\<close>

theorem listed_stage_accepted:
  assumes "validateProlificShape (Some p) = None" and "s \<in> set CLIENT_REPORTED_STAGES"
  shows "validateParticipationProgressRequest t
    (Some (A_Obj [(''prolific'', p), (''stage'', A_List [A_Str s])])) = None"
  using assms
  by (simp add: validateParticipationProgressRequest_def record_of_def one_of_singleton)
    (simp add: one_of_def demand_def)

theorem listed_stage_accepted_witness:
  "validateParticipationProgressRequest (\<lambda>n. '''')
    (Some (A_Obj [(''prolific'', A_Obj [(''participantId'', A_Str ''p1''), (''studyId'', A_Str ''s1''),
       (''sessionId'', A_Str ''q1'')]), (''stage'', A_List [A_Str ''waiting''])])) = None"
  by (rule listed_stage_accepted) code_simp+

end
