(* ===== verification/Session_Lifecycle.thy ===== *)
theory Session_Lifecycle
  imports Group_Ending Request_Validation
begin

text \<open>
  The rest of a session's life in session-manager/src/sessions/sessions.service.ts: what a
  participant may see of it (public-session.ts), questionnaires, the end of the session and of each
  participation in it, and the checkpoints and the finalisation the Chat Service sends, which are
  queued per session. A handler that decides on values it has read is split there, so that what
  others write in between is part of the tables it goes on with.

  The lemmas: a stored ranking orders the items of the session's task; completion is idempotent and
  recorded with the participation; the view of a session is independent of everything secret in it;
  the checkpoints of a session are saved in the order in which they arrived, whatever else happens
  in between. Two races remain: a participation that ends while its completion is checked still
  gets the completion link, and a group that is aborted while it is being finalised is completed.
\<close>

section \<open>The view of a session\<close>

record public_participant =
  pp_id :: string
  pp_name :: string
  pp_matrixUserId :: "string option"

record public_session =
  ps_id :: string
  ps_status :: session_status
  ps_roundId :: int
  ps_condition :: "rat condition"
  ps_llmEnabled :: bool
  ps_participants :: "public_participant list"
  ps_messages :: "message list"
  ps_rankingTask :: ranking_task
  ps_ranking :: ranking
  ps_rankingHistory :: "ranking list"
  ps_interventions :: "intervention_log list"
  ps_durationMinutes :: rat
  ps_roomId :: "string option"
  ps_waitingDeadlineAt :: "stamp option"
  ps_createdAt :: stamp
  ps_startedAt :: "stamp option"
  ps_completedAt :: "stamp option"

definition public_participant_of :: "participant \<Rightarrow> public_participant" where
  "public_participant_of p = \<lparr>pp_id = pt_id p, pp_name = pt_name p, pp_matrixUserId = pt_matrixUserId p\<rparr>"

definition toPublicSession :: "session \<Rightarrow> public_session" where
  "toPublicSession s =
     \<lparr>ps_id = se_id s, ps_status = se_status s, ps_roundId = se_roundId s, ps_condition = se_condition s,
      ps_llmEnabled = se_llmEnabled s, ps_participants = map public_participant_of (se_participants s),
      ps_messages = se_messages s, ps_rankingTask = se_rankingTask s, ps_ranking = se_ranking s,
      ps_rankingHistory = se_rankingHistory s, ps_interventions = se_interventions s,
      ps_durationMinutes = se_durationMinutes s,
      ps_roomId = (if se_status s = Provisioning then None else se_roomId s),
      ps_waitingDeadlineAt = se_waitingDeadlineAt s, ps_createdAt = se_createdAt s,
      ps_startedAt = se_startedAt s, ps_completedAt = se_completedAt s\<rparr>"

record open_response =
  op_session :: public_session
  op_participantId :: string
  op_homeserverUrl :: string
  op_userId :: string
  op_accessToken :: string
  op_roomId :: string

definition openResponse :: "string \<Rightarrow> session \<Rightarrow> participant \<Rightarrow> matrix_creds \<Rightarrow> open_response" where
  "openResponse publicUrl s p creds =
     \<lparr>op_session = toPublicSession s, op_participantId = pt_id p, op_homeserverUrl = publicUrl,
      op_userId = mc_userId creds, op_accessToken = mc_accessToken creds,
      op_roomId = (if se_status s = Running then orelse (se_roomId s) [] else [])\<rparr>"

text \<open>
  \<open>resumeProlific\<close>: the answer to someone whose participation has ended, the seat to rejoin, and the
  stage after the seat was handed back.
\<close>

datatype resume_stage = Re_Waiting | Re_Chat | Re_Exit | Re_Done | Re_Terminated

datatype resume_decision =
    Resume_None | Resume_Ended outcome_response | Resume_Seat session participant

definition resumeProlific :: "prolific_identity \<Rightarrow> study \<Rightarrow> service_error + resume_decision" where
  "resumeProlific i st =
     (let rejoin = and_then (findByProlificIdentity i st) (\<lambda>existing. Inr (case existing of
            None \<Rightarrow> Resume_None
          | Some (s, p) \<Rightarrow> if se_status s = Aborted then Resume_None else Resume_Seat s p))
      in case getParticipationOutcome i (sy_pdb st) of
           None \<Rightarrow> rejoin
         | Some r \<Rightarrow>
             if pa_outcome (or_arrival r) \<notin> {None, Some Oc_Completed}
             then Inr (Resume_Ended (toOutcomeResponse r (getStudySettings st))) else rejoin)"

definition resume_stage_of :: "participant \<Rightarrow> open_response \<Rightarrow> resume_stage" where
  "resume_stage_of p response =
     (if pt_completedAt p \<noteq> None \<or> pt_exitSurvey p \<noteq> None then Re_Done
      else if ps_status (op_session response) = Completed then Re_Exit
      else if truthy (ps_roomId (op_session response)) then Re_Chat else Re_Waiting)"

definition participation_outcome :: "prolific_identity \<Rightarrow> study \<Rightarrow> outcome_response option" where
  "participation_outcome i st =
     (case getParticipationOutcome i (sy_pdb st) of
        None \<Rightarrow> None
      | Some r \<Rightarrow> if pa_outcome (or_arrival r) = None then None else Some (toOutcomeResponse r (getStudySettings st)))"

section \<open>Questionnaires\<close>

record survey_request =
  sq_sessionId :: string
  sq_participantId :: string
  sq_entry :: bool
  sq_survey :: survey

datatype survey_error = Sv_Service service_error | Sv_Rejected request_error

definition ranking_keys :: "string list" where
  "ranking_keys =
     [''individualRanking'', ''finalRanking'', ''finalRankingPartial'', ''finalRankingCompleted'',
      ''finalRankingTimedOut'', ''rankingCompleted'', ''rankingSecondsUsed'', ''exitRankingCompleted'',
      ''exitRankingSecondsUsed'', ''entryEtherpadId'', ''exitEtherpadId'']"

definition etherpad_answers :: "bool \<Rightarrow> string \<Rightarrow> answer_fields \<Rightarrow> answer_fields" where
  "etherpad_answers entry pad a =
     om_set (if entry then ''entryEtherpadId'' else ''exitEtherpadId'') (A_Str pad)
       (filter (\<lambda>(k, v). k \<notin> set ranking_keys) a)"

text \<open>\<open>pads\<close> is the Etherpad service, if there is one: the captured pad of a participant.\<close>

definition survey_answers ::
    "(string \<Rightarrow> string \<Rightarrow> bool \<Rightarrow> service_error + string) option \<Rightarrow> session \<Rightarrow> survey_request
     \<Rightarrow> survey_error + answer_fields" where
  "survey_answers pads s q =
     (if raw_workspaceMode (cd_config (se_condition s)) = Some ''etherpad''
      then case (case pads of None \<Rightarrow> Inr [] | Some f \<Rightarrow> f (se_id s) (sq_participantId q) (sq_entry q)) of
          Inl e \<Rightarrow> Inl (Sv_Service e)
        | Inr pad \<Rightarrow>
            if pad = [] then Inl (Sv_Service (Se_Conflict ''Writing task not saved''))
            else Inr (etherpad_answers (sq_entry q) pad (sv_answers (sq_survey q)))
      else Inr (sv_answers (sq_survey q)))"

definition submitSurvey ::
    "(string \<Rightarrow> string \<Rightarrow> bool \<Rightarrow> service_error + string) option \<Rightarrow> int \<Rightarrow> survey_request \<Rightarrow> study
     \<Rightarrow> survey_error + study" where
  "submitSurvey pads now q st =
     (case loaded (sq_sessionId q) st of
        Inl e \<Rightarrow> Inl (Sv_Service e)
      | Inr s \<Rightarrow>
          and_then (survey_answers pads s q) (\<lambda>a.
            case validateSurveyAnswers (sq_entry q) a (map ri_id (rt_items (se_rankingTask s))) of
              Some e \<Rightarrow> Inl (Sv_Rejected e)
            | None \<Rightarrow>
                (let (saved, d) = saveParticipantSurvey now (sq_sessionId q) (sq_participantId q) (sq_entry q)
                       ((sq_survey q)\<lparr>sv_answers := a\<rparr>) (sy_db st)
                 in if saved then Inr (st\<lparr>sy_db := d\<rparr>)
                    else Inl (Sv_Service (Se_Not_Found (''Unknown participant '' @ sq_participantId q))))))"

definition submitDebriefFeedback :: "string \<Rightarrow> string \<Rightarrow> string \<Rightarrow> study \<Rightarrow> service_error + study" where
  "submitDebriefFeedback sid pid feedback st =
     (let (patched, d) = patchExitSurveyAnswers sid pid [(''debriefFeedback'', A_Str feedback)] (sy_db st)
      in if patched then Inr (st\<lparr>sy_db := d\<rparr>)
         else Inl (Se_Not_Found ''Unknown participant or missing exit survey''))"

section \<open>The end of a session and of a participation\<close>

definition completion_patch :: "int \<Rightarrow> lifecycle_patch" where
  "completion_patch now =
     \<lparr>lp_status = Some Completed, lp_roomId = None, lp_startedAt = None, lp_completedAt = Some (Stamp now)\<rparr>"

definition completeSession :: "int \<Rightarrow> string \<Rightarrow> study \<Rightarrow> service_error + (session \<times> study)" where
  "completeSession now sid st =
     and_then (loaded sid st) (\<lambda>s.
       if se_status s \<noteq> Completed \<and> se_status s \<noteq> Aborted
       then case updateSessionLifecycle now sid (completion_patch now) (sy_db st) of
           Inl e \<Rightarrow> Inl (Se_Database e)
         | Inr d \<Rightarrow> Inr (s\<lparr>se_status := Completed, se_completedAt := Some (Stamp now)\<rparr>, st\<lparr>sy_db := d\<rparr>)
       else Inr (s, st))"

record completion_response =
  cx_completedAt :: stamp
  cx_compensationUrl :: string
  cx_recruitmentSource :: recruitment_source

text \<open>\<open>completeParticipant\<close>: what it checks, and what it writes afterwards.\<close>

definition completion_checks :: "string \<Rightarrow> string \<Rightarrow> study \<Rightarrow> service_error + participant" where
  "completion_checks sid pid st =
     and_then (loaded sid st) (\<lambda>s.
       case find (\<lambda>p. pt_id p = pid) (se_participants s) of
         None \<Rightarrow> Inl (Se_Not_Found (''Unknown participant '' @ pid))
       | Some p \<Rightarrow>
           if pt_exitSurvey p = None
           then Inl (Se_Conflict ''The exit survey must be submitted before completion'')
           else case pt_prolific p of
               None \<Rightarrow> Inr p
             | Some i \<Rightarrow>
                 if Option.bind (getParticipationOutcome i (sy_pdb st)) (\<lambda>r. pa_outcome (or_arrival r))
                     \<notin> {None, Some Oc_Completed}
                 then Inl (Se_Conflict ''This participation has already ended'') else Inr p)"

definition completion_writes ::
    "surroundings \<Rightarrow> int \<Rightarrow> string \<Rightarrow> participant \<Rightarrow> study \<Rightarrow> completion_response \<times> study" where
  "completion_writes env now sid p st =
     (let completedAt = orelse (pt_completedAt p) (Stamp now);
          d = (if pt_completedAt p = None
               then snd (markParticipantCompleted now sid (pt_id p) (Stamp now) (sy_db st)) else sy_db st);
          e = (case pt_prolific p of None \<Rightarrow> sy_pdb st
               | Some i \<Rightarrow> completeProlificParticipation (en_uuid env) now i (sy_pdb st))
      in (\<lparr>cx_completedAt = completedAt,
           cx_compensationUrl = (if pt_prolific p \<noteq> None then ss_compensationUrl (getStudySettings st) else []),
           cx_recruitmentSource = pt_recruitmentSource p\<rparr>,
          st\<lparr>sy_db := d, sy_pdb := e\<rparr>))"

definition completeParticipant ::
    "surroundings \<Rightarrow> int \<Rightarrow> string \<Rightarrow> string \<Rightarrow> study \<Rightarrow> service_error + (completion_response \<times> study)" where
  "completeParticipant env now sid pid st =
     and_then (completion_checks sid pid st) (\<lambda>p. Inr (completion_writes env now sid p st))"

section \<open>Checkpoints and finalisation\<close>

text \<open>
  A queued write: saving its checkpoint and, when it finalises, reading the session and completing
  it. \<open>Wp_Done\<close> carries the error that rejected it.
\<close>

datatype write_pc = Wp_Save | Wp_Read | Wp_Complete | Wp_Done "db_error option"

record write_job =
  wj_session :: string
  wj_checkpoint :: checkpoint
  wj_finalize :: bool
  wj_pc :: write_pc

definition write_step :: "(nat \<Rightarrow> string) \<Rightarrow> int \<Rightarrow> write_job \<Rightarrow> db \<Rightarrow> write_pc \<times> db" where
  "write_step uuid now j d =
     (case wj_pc j of
        Wp_Save \<Rightarrow>
          (case persistRuntimeCheckpoint uuid now (wj_session j) (wj_checkpoint j) d of
             Inl e \<Rightarrow> (Wp_Done (Some e), d)
           | Inr d' \<Rightarrow> (if wj_finalize j then Wp_Read else Wp_Done None, d'))
      | Wp_Read \<Rightarrow>
          (case session_row_of d (wj_session j) of
             None \<Rightarrow> (Wp_Done (Some Unknown_Session), d)
           | Some r \<Rightarrow> (if sr_status r \<noteq> Aborted then Wp_Complete else Wp_Done None, d))
      | Wp_Complete \<Rightarrow>
          (case updateSessionLifecycle now (wj_session j) (completion_patch now) d of
             Inl e \<Rightarrow> (Wp_Done (Some e), d) | Inr d' \<Rightarrow> (Wp_Done None, d'))
      | Wp_Done e \<Rightarrow> (Wp_Done e, d))"

definition write_over :: "write_job \<Rightarrow> bool" where
  "write_over j = (case wj_pc j of Wp_Done e \<Rightarrow> True | _ \<Rightarrow> False)"

text \<open>
  All writes in the order of their requests; a write runs once every earlier one of its session is
  over, with or without an error. \<open>wt_saves\<close> records the order in which they
  saved their checkpoints.
\<close>

record writer =
  wt_db :: db
  wt_jobs :: "write_job list"
  wt_saves :: "nat list"

definition its_turn :: "write_job list \<Rightarrow> nat \<Rightarrow> bool" where
  "its_turn jobs k =
     (k < length jobs \<and>
      list_all (\<lambda>j. wj_session j = wj_session (jobs ! k) \<longrightarrow> write_over j) (take k jobs))"

datatype write_event =
    We_Request string checkpoint bool
  | We_Step nat int
  | We_Store int store_op

text \<open>\<open>queueRuntimeWrite\<close>\<close>

definition queueRuntimeWrite :: "string \<Rightarrow> checkpoint \<Rightarrow> bool \<Rightarrow> writer \<Rightarrow> writer" where
  "queueRuntimeWrite sid cp finalize w =
     w\<lparr>wt_jobs := wt_jobs w @
       [\<lparr>wj_session = sid, wj_checkpoint = cp, wj_finalize = finalize, wj_pc = Wp_Save\<rparr>]\<rparr>"

definition run_write :: "(nat \<Rightarrow> string) \<Rightarrow> int \<Rightarrow> nat \<Rightarrow> writer \<Rightarrow> writer" where
  "run_write uuid now k w =
     (if its_turn (wt_jobs w) k
      then let j = wt_jobs w ! k; (pc, d) = write_step uuid now j (wt_db w)
           in w\<lparr>wt_db := d, wt_jobs := (wt_jobs w)[k := j\<lparr>wj_pc := pc\<rparr>],
                wt_saves := (if wj_pc j = Wp_Save then wt_saves w @ [k] else wt_saves w)\<rparr>
      else w)"

fun writer_step :: "(nat \<Rightarrow> string) \<Rightarrow> writer \<Rightarrow> write_event \<Rightarrow> writer" where
  "writer_step uuid w (We_Request sid cp finalize) = queueRuntimeWrite sid cp finalize w"
| "writer_step uuid w (We_Step k now) = run_write uuid now k w"
| "writer_step uuid w (We_Store now q) = w\<lparr>wt_db := snd (run_db uuid now q (wt_db w))\<rparr>"

text \<open>
  \<open>recoverRunningSessions\<close>: the invitation of the new bot into each room may fail without effect on
  the answer.
\<close>

definition recovery_note :: "session \<Rightarrow> start_notification" where
  "recovery_note s =
     \<lparr>sn_sessionId = se_id s, sn_roomId = the (se_roomId s), sn_condition = se_condition s,
      sn_durationMinutes = se_durationMinutes s, sn_startedAt = Option.bind (se_startedAt s) parse_ms,
      sn_participantUserIds =
        concat (map (\<lambda>p. if truthy (pt_matrixUserId p) then [the (pt_matrixUserId p)] else [])
          (se_participants s)),
      sn_checkpoint = Some (checkpointFromSession s)\<rparr>"

definition recoverRunningSessions :: "string \<Rightarrow> db \<Rightarrow> service_error + start_notification list" where
  "recoverRunningSessions botUserId d =
     (if botUserId = [] then Inl (Se_Bad_Request ''botUserId is required'')
      else Inr (map recovery_note (runningSessions d)))"

section \<open>Lemmas: the queue\<close>

definition same_session :: "write_job list \<Rightarrow> nat \<Rightarrow> nat \<Rightarrow> bool" where
  "same_session jobs i k = (wj_session (jobs ! i) = wj_session (jobs ! k))"

lemma its_turn_iff:
  "its_turn jobs k \<longleftrightarrow> k < length jobs \<and> (\<forall>i<k. same_session jobs i k \<longrightarrow> write_over (jobs ! i))"
  by (auto simp: its_turn_def same_session_def list_all_length)

text \<open>
  Whatever has begun has only finished predecessors in its session, and what was saved was saved in
  the order of the requests.
\<close>

definition writer_ok :: "writer \<Rightarrow> bool" where
  "writer_ok w =
     ((\<forall>k<length (wt_jobs w). wj_pc (wt_jobs w ! k) \<noteq> Wp_Save \<longrightarrow>
         (\<forall>i<k. same_session (wt_jobs w) i k \<longrightarrow> write_over (wt_jobs w ! i))) \<and>
      (\<forall>k\<in>set (wt_saves w). k < length (wt_jobs w) \<and> wj_pc (wt_jobs w ! k) \<noteq> Wp_Save) \<and>
      sorted_wrt (\<lambda>i k. same_session (wt_jobs w) i k \<longrightarrow> i < k) (wt_saves w))"

lemma write_step_begun: "fst (write_step uuid now j d) \<noteq> Wp_Save"
  by (auto simp: write_step_def split: write_pc.splits sum.splits option.splits)

lemma write_step_over: "write_over j \<Longrightarrow> fst (write_step uuid now j d) = wj_pc j"
  by (auto simp: write_step_def write_over_def split: write_pc.splits)

lemma request_ok:
  assumes "writer_ok w"
  shows "writer_ok (queueRuntimeWrite sid cp f w)"
proof -
  let ?jobs = "wt_jobs w"
  let ?new = "\<lparr>wj_session = sid, wj_checkpoint = cp, wj_finalize = f, wj_pc = Wp_Save\<rparr>"
  have nth: "(?jobs @ [?new]) ! k = ?jobs ! k" if "k < length ?jobs" for k
    using that by (simp add: nth_append)
  have begun: "k < length ?jobs" if "k < Suc (length ?jobs)" "wj_pc ((?jobs @ [?new]) ! k) \<noteq> Wp_Save" for k
    using that by (cases "k = length ?jobs") auto
  have in_jobs: "i < length ?jobs \<and> k < length ?jobs" if "i \<in> set (wt_saves w)" "k \<in> set (wt_saves w)" for i k
    using that assms by (simp add: writer_ok_def)
  have "sorted_wrt (\<lambda>i k. same_session (?jobs @ [?new]) i k \<longrightarrow> i < k) (wt_saves w)"
  proof (rule sorted_wrt_mono_rel)
    show "sorted_wrt (\<lambda>i k. same_session ?jobs i k \<longrightarrow> i < k) (wt_saves w)"
      using assms by (simp add: writer_ok_def)
  qed (use in_jobs in \<open>simp add: same_session_def nth\<close>)
  moreover have "\<forall>i<k. same_session (?jobs @ [?new]) i k \<longrightarrow> write_over ((?jobs @ [?new]) ! i)"
    if "k < Suc (length ?jobs)" "wj_pc ((?jobs @ [?new]) ! k) \<noteq> Wp_Save" for k
  proof -
    have k: "k < length ?jobs" using begun that by blast
    with that(2) have "wj_pc (?jobs ! k) \<noteq> Wp_Save" by (simp add: nth)
    with assms k have "\<forall>i<k. same_session ?jobs i k \<longrightarrow> write_over (?jobs ! i)"
      by (simp add: writer_ok_def)
    with k show ?thesis by (simp add: same_session_def nth)
  qed
  moreover have "\<forall>k\<in>set (wt_saves w). k < Suc (length ?jobs) \<and> wj_pc ((?jobs @ [?new]) ! k) \<noteq> Wp_Save"
    using assms by (auto simp: writer_ok_def nth)
  ultimately show ?thesis unfolding writer_ok_def queueRuntimeWrite_def by simp
qed

lemma run_write_ok:
  assumes "writer_ok w"
  shows "writer_ok (run_write uuid now k w)"
proof (cases "its_turn (wt_jobs w) k")
  case False
  with assms show ?thesis by (simp add: run_write_def)
next
  case True
  let ?jobs = "wt_jobs w" and ?j = "wt_jobs w ! k"
  obtain pc d where step: "write_step uuid now ?j (wt_db w) = (pc, d)" by fastforce
  let ?jobs' = "?jobs[k := ?j\<lparr>wj_pc := pc\<rparr>]"
  have k: "k < length ?jobs" "\<And>i. i < k \<Longrightarrow> same_session ?jobs i k \<Longrightarrow> write_over (?jobs ! i)"
    using True by (auto simp: its_turn_iff)
  have pc: "pc \<noteq> Wp_Save" using write_step_begun [of uuid now ?j "wt_db w"] step by simp
  have same: "same_session ?jobs' i l = same_session ?jobs i l" for i l
    using k(1) by (auto simp: same_session_def nth_list_update)
  have over: "write_over (?jobs' ! i)" if "write_over (?jobs ! i)" for i
    using that k(1) step write_step_over [of ?j uuid now "wt_db w"]
    by (cases "i = k") (auto simp: write_over_def)
  have begun: "\<forall>i<l. same_session ?jobs' i l \<longrightarrow> write_over (?jobs' ! i)"
    if "l < length ?jobs" "wj_pc (?jobs' ! l) \<noteq> Wp_Save" for l
    using that assms k over unfolding same writer_ok_def by (cases "l = k") auto
  have saves: "l < length ?jobs \<and> wj_pc (?jobs ! l) \<noteq> Wp_Save" if "l \<in> set (wt_saves w)" for l
    using that assms by (simp add: writer_ok_def)
  have "i < k" if "wj_pc ?j = Wp_Save" "i \<in> set (wt_saves w)" "same_session ?jobs i k" for i
  proof (rule ccontr)
    assume "\<not> i < k"
    moreover have "i \<noteq> k" using that saves by auto
    ultimately have "write_over ?j"
      using that saves [OF that(2)] assms by (auto simp: writer_ok_def same_session_def)
    with that(1) show False by (simp add: write_over_def)
  qed
  then have "sorted_wrt (\<lambda>i l. same_session ?jobs' i l \<longrightarrow> i < l)
      (if wj_pc ?j = Wp_Save then wt_saves w @ [k] else wt_saves w)"
    using assms unfolding same writer_ok_def by (auto simp: sorted_wrt_append)
  moreover have "\<forall>l\<in>set (if wj_pc ?j = Wp_Save then wt_saves w @ [k] else wt_saves w).
      l < length ?jobs' \<and> wj_pc (?jobs' ! l) \<noteq> Wp_Save"
    using saves k(1) pc by (auto simp: nth_list_update)
  ultimately show ?thesis
    using True step begun unfolding run_write_def writer_ok_def by (simp add: Let_def)
qed

lemma writer_step_ok: "writer_ok w \<Longrightarrow> writer_ok (writer_step uuid w e)"
  by (cases e) (simp_all add: request_ok run_write_ok, simp add: writer_ok_def)

interpretation runtime_writes: stepper "writer_step uuid" writer_ok for uuid
  by unfold_locales (rule writer_step_ok)

section \<open>Lemmas: completion\<close>

definition recorded_outcome :: "prolific_identity \<Rightarrow> pdb \<Rightarrow> outcome option" where
  "recorded_outcome i d = Option.bind (find_arrival i d) ar_outcome"

lemma outcome_of_record:
  "Option.bind (getParticipationOutcome i d) (\<lambda>r. pa_outcome (or_arrival r)) = recorded_outcome i d"
  by (cases "find_arrival i d")
    (simp_all add: getParticipationOutcome_def participationOutcomeFromRow_def prolificArrivalFromRow_def
      recorded_outcome_def)

lemma completion_outcome:
  assumes "recorded_outcome i d \<in> {None, Some Oc_Completed}"
  shows "recorded_outcome i (completeProlificParticipation uuid now i d) = Some Oc_Completed"
proof -
  let ?d1 = "recordProlificArrival uuid now i d"
  obtain r where r: "find_arrival i ?d1 = Some r"
    by (cases "find_arrival i d") (auto simp: find_arrival_record)
  have "ar_outcome r \<in> {None, Some Oc_Completed}"
    using assms r by (cases "find_arrival i d") (auto simp: find_arrival_record recorded_outcome_def new_arrival_def)
  then show ?thesis
    by (auto simp: completeProlificParticipation_def completion_allowed_def completion_write_def Let_def r
        recorded_outcome_def find_arrival_update)
qed

lemma completion_settled:
  assumes "recorded_outcome i d = Some oc"
  shows "completeProlificParticipation uuid now i d = d"
proof -
  obtain r where "find_arrival i d = Some r" "ar_outcome r = Some oc"
    using assms by (auto simp: recorded_outcome_def bind_eq_Some_conv)
  then show ?thesis
    by (simp add: completeProlificParticipation_def recordProlificArrival_def completion_allowed_def)
qed

definition mark_participant :: "string \<Rightarrow> int \<Rightarrow> participant \<Rightarrow> participant" where
  "mark_participant pid now p =
     (if pt_id p = pid \<and> pt_completedAt p = None then p\<lparr>pt_completedAt := Some (Stamp now)\<rparr> else p)"

lemma marked_members:
  assumes "getSession sid d = Some s"
  shows "\<exists>s'. getSession sid (snd (markParticipantCompleted now sid pid (Stamp now) d)) = Some s' \<and>
    se_participants s' = map (mark_participant pid now) (se_participants s)"
proof -
  let ?g = "\<lambda>r. if seat_of sid pid r \<and> pr_completedAt r = None
      then r\<lparr>pr_completedAt := Some (toDate now (Stamp now))\<rparr> else r"
  let ?d = "d\<lparr>db_participants := map ?g (db_participants d)\<rparr>"
  obtain row where row: "session_row_of d sid = Some row" "s = sessionFromRow d row"
    using assms by (auto simp: getSession_def load_session_def)
  have id: "sr_id row = sid" by (rule row_of_id [OF row(1)])
  have "participantFromRow vs (?g r) = mark_participant pid now (participantFromRow vs r)"
    if "pr_sessionId r = sid" for vs r
    using that by (auto simp: participantFromRow_def mark_participant_def seat_of_def toDate_def Let_def)
  moreover have "pr_sessionId (?g r) = pr_sessionId r" for r by simp
  moreover have "filter (\<lambda>p. pr_sessionId p = sid) (map ?g rs) = map ?g (filter (\<lambda>p. pr_sessionId p = sid) rs)" for rs
    by (induction rs) auto
  ultimately have "map (participantFromRow (db_surveys d)) (filter (\<lambda>p. pr_sessionId p = sid) (map ?g (db_participants d))) =
      map (mark_participant pid now) (map (participantFromRow (db_surveys d))
        (filter (\<lambda>p. pr_sessionId p = sid) (db_participants d)))"
    by simp
  then have "se_participants (sessionFromRow ?d row) = map (mark_participant pid now) (se_participants s)"
    by (simp add: session_participants row(2) id)
  moreover have "session_row_of ?d sid = Some row" using row(1) by (simp add: session_row_of_def)
  ultimately show ?thesis
    by (auto simp: markParticipantCompleted_def Let_def getSession_def load_session_def)
qed

text \<open>What passed checks say.\<close>

lemma checks_passed:
  assumes "completion_checks sid pid st = Inr p"
  obtains s where "getSession sid (sy_db st) = Some s"
    and "find (\<lambda>p. pt_id p = pid) (se_participants s) = Some p" and "pt_exitSurvey p \<noteq> None"
    and "\<And>i. pt_prolific p = Some i \<Longrightarrow> recorded_outcome i (sy_pdb st) \<in> {None, Some Oc_Completed}"
  using assms
  by (auto simp: completion_checks_def loaded_def outcome_of_record split: option.splits if_splits)

lemma completion_checks_pass:
  assumes "getSession sid (sy_db st) = Some s" and "find (\<lambda>p. pt_id p = pid) (se_participants s) = Some p"
    and "pt_exitSurvey p \<noteq> None"
    and "\<And>i. pt_prolific p = Some i \<Longrightarrow> recorded_outcome i (sy_pdb st) \<in> {None, Some Oc_Completed}"
  shows "completion_checks sid pid st = Inr p"
  using assms by (auto simp: completion_checks_def loaded_def outcome_of_record split: option.split)

text \<open>
  A completion that succeeds records the participant as completed and, for someone from
  Prolific, the outcome of the participation; asking again later gives the same answer and changes
  nothing, so that a refresh of the last page shows the same link.
\<close>

theorem completion_is_idempotent:
  assumes "completeParticipant env now sid pid st = Inr (response, st')"
  shows "completeParticipant env later sid pid st' = Inr (response, st') \<and>
    (\<exists>s p. getSession sid (sy_db st') = Some s \<and> p \<in> set (se_participants s) \<and> pt_id p = pid \<and>
       pt_completedAt p = Some (cx_completedAt response) \<and>
       (\<forall>i. pt_prolific p = Some i \<longrightarrow> recorded_outcome i (sy_pdb st') = Some Oc_Completed))"
proof -
  from assms obtain p where p: "completion_checks sid pid st = Inr p"
    "completion_writes env now sid p st = (response, st')"
    by (cases "completion_checks sid pid st") (auto simp: completeParticipant_def)
  obtain s where s: "getSession sid (sy_db st) = Some s"
    "find (\<lambda>p. pt_id p = pid) (se_participants s) = Some p" "pt_exitSurvey p \<noteq> None"
    "\<And>i. pt_prolific p = Some i \<Longrightarrow> recorded_outcome i (sy_pdb st) \<in> {None, Some Oc_Completed}"
    using checks_passed [OF p(1)] by metis
  have pid: "pt_id p = pid" using s(2) by (auto simp: find_Some_iff)
  let ?q = "p\<lparr>pt_completedAt := Some (orelse (pt_completedAt p) (Stamp now))\<rparr>"
  have outcome: "recorded_outcome i (sy_pdb st') = Some Oc_Completed" if "pt_prolific p = Some i" for i
    using p(2) completion_outcome [OF s(4) [OF that]] that by (auto simp: completion_writes_def Let_def)
  obtain s' where s': "getSession sid (sy_db st') = Some s'"
    "find (\<lambda>p. pt_id p = pid) (se_participants s') = Some ?q"
  proof (cases "pt_completedAt p")
    case None
    obtain s' where s': "getSession sid (sy_db st') = Some s'"
      "se_participants s' = map (mark_participant pid now) (se_participants s)"
      using marked_members [OF s(1), of now pid] p(2) None pid by (auto simp: completion_writes_def Let_def)
    have "((\<lambda>p. pt_id p = pid) \<circ> mark_participant pid now) = (\<lambda>p. pt_id p = pid)"
      by (rule ext) (simp add: mark_participant_def)
    with s'(2) s(2) have "find (\<lambda>p. pt_id p = pid) (se_participants s') = Some (mark_participant pid now p)"
      by (simp add: find_map)
    with s'(1) show ?thesis using that None pid by (simp add: mark_participant_def)
  next
    case (Some t)
    then have "sy_db st' = sy_db st" using p(2) by (auto simp: completion_writes_def Let_def)
    moreover have "?q = p" using Some by simp
    ultimately show ?thesis using that s by simp
  qed
  have "completion_checks sid pid st' = Inr ?q"
    by (rule completion_checks_pass [OF s']) (use s(3) outcome in auto)
  moreover have "completion_writes env later sid ?q st' = (response, st')"
  proof -
    have "(case pt_prolific p of None \<Rightarrow> sy_pdb st'
        | Some i \<Rightarrow> completeProlificParticipation (en_uuid env) later i (sy_pdb st')) = sy_pdb st'"
      using outcome by (auto simp: completion_settled split: option.split)
    moreover have "getStudySettings st' = getStudySettings st"
      using p(2) by (auto simp: completion_writes_def Let_def getStudySettings_def study_setting_def)
    ultimately show ?thesis using p(2) by (auto simp: completion_writes_def Let_def)
  qed
  ultimately have "completeParticipant env later sid pid st' = Inr (response, st')"
    by (simp add: completeParticipant_def)
  moreover have "?q \<in> set (se_participants s')" using s'(2) by (auto simp: find_Some_iff)
  moreover have "cx_completedAt response = orelse (pt_completedAt p) (Stamp now)"
    using p(2) by (auto simp: completion_writes_def Let_def)
  ultimately show ?thesis using s'(1) pid outcome by (auto intro!: exI [of _ s'] exI [of _ ?q])
qed

section \<open>Lemmas: questionnaires\<close>

lemma accepted_ranking:
  assumes "validateSurveyAnswers entry a expected = None"
    and "map_of a (if entry then ''individualRanking'' else ''finalRanking'') = Some v"
  shows "\<exists>order. v = A_List (map A_Str order) \<and> mset order = mset expected"
proof -
  let ?key = "if entry then ''individualRanking'' else ''finalRanking''"
  have "present a ?key (\<lambda>v. exactRanking v expected ?key)
      \<in> set (if entry then entry_answers expected a else exit_answers expected a)"
    by (simp add: entry_answers_def exit_answers_def)
  with assms(1) have "present a ?key (\<lambda>v. exactRanking v expected ?key) = None"
    unfolding validateSurveyAnswers_def verdicts_pass by blast
  then have "exactRanking (Some v) expected ?key = None"
    by (simp only: present_def optional_def assms(2) option.distinct simp_thms if_False)
  then show ?thesis unfolding exactRanking_order by simp
qed

lemma survey_saved:
  assumes "saveParticipantSurvey now sid pid entry s d = (True, d')"
  shows "\<exists>v\<in>set (db_surveys d'). survey_key pid entry v \<and> vr_answers v = sv_answers s"
proof -
  have d': "d' = upsertSurvey now pid entry s d"
    using assms by (simp add: saveParticipantSurvey_def split: if_splits)
  show ?thesis
  proof (cases "list_ex (survey_key pid entry) (db_surveys d)")
    case True
    then obtain v where v: "v \<in> set (db_surveys d)" "survey_key pid entry v" by (auto simp: list_ex_iff)
    let ?v = "v\<lparr>vr_answers := sv_answers s, vr_submittedAt := toDate now (sv_submittedAt s)\<rparr>"
    have "?v \<in> set (db_surveys d')" using True v by (force simp: d' upsertSurvey_def)
    with v(2) show ?thesis by (intro bexI [of _ ?v]) (simp_all add: survey_key_def)
  qed (simp add: d' upsertSurvey_def survey_key_def)
qed

text \<open>
  A questionnaire that is stored for a ranking task orders exactly the items of the session's
  task, whatever the request body contained; the stored row has the answers of the request.
\<close>

theorem stored_ranking_is_order:
  assumes "submitSurvey pads now q st = Inr st'"
    and "getSession (sq_sessionId q) (sy_db st) = Some s"
    and "raw_workspaceMode (cd_config (se_condition s)) \<noteq> Some ''etherpad''"
    and "map_of (sv_answers (sq_survey q)) (if sq_entry q then ''individualRanking'' else ''finalRanking'') = Some v"
  shows "(\<exists>order. v = A_List (map A_Str order) \<and> mset order = mset (map ri_id (rt_items (se_rankingTask s)))) \<and>
    (\<exists>r\<in>set (db_surveys (sy_db st')). survey_key (sq_participantId q) (sq_entry q) r \<and>
       vr_answers r = sv_answers (sq_survey q))"
proof -
  let ?a = "sv_answers (sq_survey q)"
  from assms(1-3) obtain d where
    ok: "validateSurveyAnswers (sq_entry q) ?a (map ri_id (rt_items (se_rankingTask s))) = None"
    and d: "saveParticipantSurvey now (sq_sessionId q) (sq_participantId q) (sq_entry q) (sq_survey q) (sy_db st) = (True, d)"
      "st' = st\<lparr>sy_db := d\<rparr>"
    by (auto simp: submitSurvey_def loaded_def survey_answers_def split: option.splits prod.splits if_splits)
  from accepted_ranking [OF ok assms(4)] survey_saved [OF d(1)] d(2) show ?thesis by simp
qed

section \<open>Properties: races and the order of writes\<close>


definition abortion :: lifecycle_patch where
  "abortion = \<lparr>lp_status = Some Aborted, lp_roomId = None, lp_startedAt = None, lp_completedAt = None\<rparr>"

lemma lifecycle_row:
  assumes "session_row_of d sid = Some r"
  shows "\<exists>d'. updateSessionLifecycle now sid p d = Inr d' \<and> session_row_of d' sid = Some (patch_row now p r)"
  using assms by (simp add: updateSessionLifecycle_def session_row_of_update patch_row_def)

text \<open>
  A finalisation that has read the session before its group is aborted completes the session
  nevertheless: the aborted group becomes a completed one.
\<close>

theorem aborted_group_is_completed:
  assumes "its_turn (wt_jobs w) k" and "wj_pc (wt_jobs w ! k) = Wp_Read"
    and "session_row_of (wt_db w) (wj_session (wt_jobs w ! k)) = Some r" and "sr_status r \<noteq> Aborted"
    and "w' = foldl (writer_step uuid) w [We_Step k t1, We_Store t2 (Op_Lifecycle (wj_session (wt_jobs w ! k)) abortion)]"
  shows "map_option sr_status (session_row_of (wt_db w') (wj_session (wt_jobs w ! k))) = Some Aborted \<and>
    map_option sr_status (session_row_of (wt_db (writer_step uuid w' (We_Step k t3))) (wj_session (wt_jobs w ! k))) =
      Some Completed"
proof -
  let ?sid = "wj_session (wt_jobs w ! k)" and ?jobs = "(wt_jobs w)[k := (wt_jobs w ! k)\<lparr>wj_pc := Wp_Complete\<rparr>]"
  have k: "k < length (wt_jobs w)" using assms(1) by (simp add: its_turn_iff)
  obtain d where d: "updateSessionLifecycle t2 ?sid abortion (wt_db w) = Inr d"
    "session_row_of d ?sid = Some (patch_row t2 abortion r)"
    using lifecycle_row [OF assms(3)] by blast
  have w': "w' = w\<lparr>wt_db := d, wt_jobs := ?jobs\<rparr>"
    using assms d(1) by (simp add: run_write_def write_step_def Let_def try_reply_def ok_of_def)
  have turn: "its_turn ?jobs k" using assms(1) k by (simp add: its_turn_iff same_session_def nth_list_update)
  obtain d' where d': "updateSessionLifecycle t3 ?sid (completion_patch t3) d = Inr d'"
    "session_row_of d' ?sid = Some (patch_row t3 (completion_patch t3) (patch_row t2 abortion r))"
    using lifecycle_row [OF d(2)] by blast
  then have "wt_db (writer_step uuid w' (We_Step k t3)) = d'"
    using turn k unfolding w' by (simp add: run_write_def write_step_def Let_def)
  with d(2) d'(2) show ?thesis unfolding w' by (simp add: patch_row_def abortion_def completion_patch_def)
qed

text \<open>
  A participation that ends after the checks of a completion and before its writes keeps its
  outcome, but the participant is given the completion link all the same.
\<close>

theorem late_ending_keeps_link:
  assumes "completion_checks sid pid st = Inr p" and "pt_prolific p = Some i"
    and "recorded_outcome i (sy_pdb st1) = Some oc" and "oc \<noteq> Oc_Completed"
    and "completion_writes env now sid p st1 = (response, st2)"
  shows "cx_compensationUrl response = ss_compensationUrl (getStudySettings st1) \<and>
    recorded_outcome i (sy_pdb st2) = Some oc"
  using assms(2-5) completion_settled [OF assms(3)] by (auto simp: completion_writes_def Let_def)

section \<open>Witnesses\<close>

definition ranked_items :: "string list" where
  "ranked_items = [''oxygen'', ''map'', ''food'', ''firstaid'', ''parachute'', ''raft'', ''pistols'',
     ''heater'', ''compass'', ''matches'']"

definition ranking_request :: survey_request where
  "ranking_request =
     \<lparr>sq_sessionId = ''s1'', sq_participantId = ''p1'', sq_entry = True,
      sq_survey = \<lparr>sv_answers = [(''age'', A_Num (Num 30)), (''individualRanking'', A_List (map A_Str ranked_items))],
                   sv_submittedAt = Stamp 5\<rparr>\<rparr>"

lemma ranking_request_accepted:
  "validateSurveyAnswers True (sv_answers (sq_survey ranking_request)) (map ri_id (rt_items MOON_SURVIVAL)) = None"
  by code_simp

lemma lobby_session:
  "getSession ''s1'' (sy_db lobby_study) = Some (sessionFromRow (sy_db lobby_study) (sessionCreateData 0 sample_lobby))"
  by (simp add: getSession_def load_session_def session_row_of_def lobby_study_def lobby_row empty_db_def)

lemma lobby_task:
  "se_rankingTask (sessionFromRow (sy_db lobby_study) (sessionCreateData 0 sample_lobby)) = MOON_SURVIVAL"
  "raw_workspaceMode (cd_config (se_condition (sessionFromRow (sy_db lobby_study) (sessionCreateData 0 sample_lobby)))) \<noteq>
     Some ''etherpad''"
  by (simp_all add: sessionFromRow_def Let_def sessionCreateData_def sample_lobby_def newFormingSession_def
      waitingTimeoutMinutes_def env_number_def sample_condition_def raw_of_config_def workspace_name_def)

theorem stored_ranking_is_order_witness:
  "\<exists>st'. submitSurvey None 7 ranking_request lobby_study = Inr st' \<and>
     (\<exists>r\<in>set (db_surveys (sy_db st')). survey_key ''p1'' True r \<and>
        vr_answers r = sv_answers (sq_survey ranking_request)) \<and>
     mset ranked_items = mset (map ri_id (rt_items MOON_SURVIVAL))"
proof -
  have q: "sq_sessionId ranking_request = ''s1''" "sq_participantId ranking_request = ''p1''"
    "sq_entry ranking_request" by (simp_all add: ranking_request_def)
  have "fst (saveParticipantSurvey 7 ''s1'' ''p1'' True (sq_survey ranking_request) (sy_db lobby_study))"
    by (simp add: saveParticipantSurvey_def lobby_study_def empty_db_def seat_of_def participantCreateData_def
        prolific_member_def sample_participant_def)
  then obtain d where "saveParticipantSurvey 7 ''s1'' ''p1'' True (sq_survey ranking_request) (sy_db lobby_study) = (True, d)"
    by (metis prod.exhaust_sel)
  then have st': "submitSurvey None 7 ranking_request lobby_study = Inr (lobby_study\<lparr>sy_db := d\<rparr>)"
    using ranking_request_accepted
    by (simp add: submitSurvey_def loaded_def q lobby_session lobby_task survey_answers_def)
  have "map_of (sv_answers (sq_survey ranking_request))
      (if sq_entry ranking_request then ''individualRanking'' else ''finalRanking'') =
      Some (A_List (map A_Str ranked_items))"
    by (simp add: ranking_request_def)
  from stored_ranking_is_order [OF st' _ _ this] st' show ?thesis
    by (auto simp: q lobby_session lobby_task inj_map_eq_map inj_def)
qed

text \<open>The group of the lobby, whose member has answered the exit questionnaire.\<close>

definition exit_study :: study where
  "exit_study =
     lobby_study\<lparr>sy_db := (sy_db lobby_study)\<lparr>db_surveys :=
         [\<lparr>vr_participantId = ''p1'', vr_entry = False, vr_answers = [], vr_submittedAt = 4\<rparr>]\<rparr>,
       sy_settings := [(''compensationUrl'', ''https://x/done'')]\<rparr>"

definition exit_member :: participant where
  "exit_member = prolific_member\<lparr>pt_exitSurvey := Some \<lparr>sv_answers = [], sv_submittedAt = Stamp 4\<rparr>\<rparr>"

lemma exit_session:
  "getSession ''s1'' (sy_db exit_study) = Some (sessionFromRow (sy_db exit_study) (sessionCreateData 0 sample_lobby))"
  "se_participants (sessionFromRow (sy_db exit_study) (sessionCreateData 0 sample_lobby)) = [exit_member]"
  by (simp_all add: getSession_def load_session_def session_row_of_def exit_study_def lobby_study_def lobby_row
      empty_db_def session_participants participantCreateData_def participantFromRow_def prolific_member_def
      sample_participant_def sample_identity_def exit_member_def surveyFromRow_def)

lemma exit_checks: "completion_checks ''s1'' ''p1'' exit_study = Inr exit_member"
  by (rule completion_checks_pass [OF exit_session(1)])
    (simp_all add: exit_session(2), simp_all add: exit_member_def prolific_member_def sample_participant_def
      recorded_outcome_def find_arrival_def exit_study_def lobby_study_def empty_pdb_def)

theorem completion_is_idempotent_witness:
  "\<exists>response st'. completeParticipant sample_surroundings 100 ''s1'' ''p1'' exit_study = Inr (response, st') \<and>
     completeParticipant sample_surroundings 900 ''s1'' ''p1'' st' = Inr (response, st')"
proof -
  obtain response st' where r: "completeParticipant sample_surroundings 100 ''s1'' ''p1'' exit_study = Inr (response, st')"
    by (cases "completion_writes sample_surroundings 100 ''s1'' exit_member exit_study")
      (simp add: completeParticipant_def exit_checks)
  with completion_is_idempotent [OF r, of 900] show ?thesis by blast
qed

theorem late_ending_keeps_link_witness:
  "\<exists>response st1 st2. recorded_outcome sample_identity (sy_pdb st1) = Some Oc_Voluntary_Withdrawal \<and>
     completion_writes sample_surroundings 100 ''s1'' exit_member st1 = (response, st2) \<and>
     cx_compensationUrl response = ''https://x/done'' \<and>
     recorded_outcome sample_identity (sy_pdb st2) = Some Oc_Voluntary_Withdrawal"
proof -
  let ?ending = "self_ending Self_Voluntary_Withdrawal [] St_Exit"
  let ?st = "exit_study\<lparr>sy_pdb := terminateProlificParticipation (en_uuid sample_surroundings) 50 sample_identity
      ?ending (sy_pdb exit_study)\<rparr>"
  have pdb: "sy_pdb exit_study = empty_pdb" by (simp add: exit_study_def lobby_study_def)
  have wf: "pdb_wf (en_uuid sample_surroundings) empty_pdb"
    by (simp add: sample_surroundings_def empty_pdb_wf unary_id_inj)
  have "\<not> ended sample_identity empty_pdb" by (simp add: ended_def find_arrival_def empty_pdb_def)
  from terminate_effect [OF wf this, of 50 ?ending]
  have gone: "recorded_outcome sample_identity (sy_pdb ?st) = Some Oc_Voluntary_Withdrawal"
    by (auto simp: Let_def pdb recorded_outcome_def self_ending_def)
  obtain response st2 where w: "completion_writes sample_surroundings 100 ''s1'' exit_member ?st = (response, st2)"
    by fastforce
  have "pt_prolific exit_member = Some sample_identity" by (simp add: exit_member_def prolific_member_def)
  from late_ending_keeps_link [OF exit_checks this gone _ w] gone w
  have "cx_compensationUrl response = ''https://x/done'' \<and>
      recorded_outcome sample_identity (sy_pdb st2) = Some Oc_Voluntary_Withdrawal"
    by (simp add: getStudySettings_def study_setting_def exit_study_def)
  with gone w show ?thesis by blast
qed

definition no_checkpoint :: checkpoint where
  "no_checkpoint =
     \<lparr>cp_revision = Some 1, cp_messages = [], cp_rankingHistory = [], cp_interventions = [],
      cp_behavioralEvents = [], cp_contributionClassifications = [], cp_windowEvaluations = [],
      cp_classificationFailures = [], cp_processedEventIds = [], cp_redactedReactionEventIds = [],
      cp_reactionEvents = [], cp_ruleState = []\<rparr>"

definition finalising :: writer where
  "finalising =
     \<lparr>wt_db = sy_db lobby_study,
      wt_jobs = [\<lparr>wj_session = ''s1'', wj_checkpoint = no_checkpoint, wj_finalize = True, wj_pc = Wp_Read\<rparr>],
      wt_saves = [0]\<rparr>"

theorem aborted_group_is_completed_witness:
  "map_option sr_status (session_row_of (wt_db (foldl (writer_step unary_id) finalising
     [We_Step 0 1, We_Store 2 (Op_Lifecycle ''s1'' abortion), We_Step 0 3])) ''s1'') = Some Completed"
proof -
  have row: "session_row_of (wt_db finalising) ''s1'' = Some (sessionCreateData 0 sample_lobby)"
    by (simp add: finalising_def session_row_of_def lobby_study_def lobby_row empty_db_def)
  have turn: "its_turn (wt_jobs finalising) 0" by (simp add: finalising_def its_turn_def)
  have pc: "wj_pc (wt_jobs finalising ! 0) = Wp_Read" by (simp add: finalising_def)
  have sid: "wj_session (wt_jobs finalising ! 0) = ''s1''" by (simp add: finalising_def)
  from row have "session_row_of (wt_db finalising) (wj_session (wt_jobs finalising ! 0)) =
      Some (sessionCreateData 0 sample_lobby)" unfolding sid .
  from aborted_group_is_completed [OF turn pc this _ refl, of unary_id 1 2 3] show ?thesis
    by (simp add: sid lobby_row)
qed


end
