(* ===== verification/Etherpad_Models.thy ===== *)
theory Etherpad_Models
  imports Session_Rows
begin

text \<open>
  packages/shared/src/etherpad.ts: the writing tasks of a study whose workspace is Etherpad, and
  the record the Session Manager keeps of a pad. The revision Etherpad counts is whole.
\<close>

datatype pad_phase = Pad_Entry | Pad_Group | Pad_Exit

datatype pad_state = Pad_Open | Pad_Captured | Pad_Error

datatype server_state = Es_Stopped | Es_Starting | Es_Ready | Es_Draining | Es_Stopping | Es_Error

record etherpad_status =
  es_enabled :: bool
  es_state :: server_state
  es_activeParticipants :: nat
  es_error :: "string option"

record pad =
  pd_id :: string
  pd_phase :: pad_phase
  pd_deadline :: stamp
  pd_state :: pad_state
  pd_text :: "string option"
  pd_revision :: "int option"
  pd_capturedAt :: "stamp option"
  pd_error :: "string option"
  pd_owner :: "string option"
  pd_sessionId :: "string option"
  pd_participantId :: "string option"
  pd_conditionId :: "string option"
  pd_roundId :: "int option"

definition isEtherpad :: "session \<Rightarrow> bool" where
  "isEtherpad s = (raw_workspaceMode (cd_config (se_condition s)) = Some ''etherpad'')"

end
