(* ===== verification/Research_Values.thy ===== *)
theory Research_Values
  imports Request_Validation Etherpad_Models
begin

text \<open>
  The shared ground of the research exports, session-manager/src/reports: csv.ts, scoring.ts,
  equality.ts, filter.ts, pseudonym.ts, report-values.ts and what codebook.ts computes. The texts of
  numbers and timestamps, the hash behind pseudonyms, the square root and \<open>Number\<close> are arguments.

  The lemmas: a reader of comma-separated values gets back every cell of a table, with the mark that
  keeps a spreadsheet from running it; a ranking is scored exactly when it orders the items, the
  score lies between 0 and 50 and is 0 for the experts' order only; the Gini coefficient lies
  between 0 and (n - 1) / n and is 0 exactly when everyone contributed the same.
\<close>

section \<open>csv.ts\<close>

definition apostrophe :: string where "apostrophe = [CHR 39]"

definition csv_guarded :: "string \<Rightarrow> string" where
  "csv_guarded value = (if value \<noteq> [] \<and> hd value \<in> set ''=+-@'' then apostrophe @ value else value)"

definition csv_special :: "char \<Rightarrow> bool" where
  "csv_special c = (c = CHR 34 \<or> c = CHR '','' \<or> c = CHR 10)"

definition doubled_quotes :: "string \<Rightarrow> string" where
  "doubled_quotes s = concat (map (\<lambda>c. if c = CHR 34 then quote @ quote else [c]) s)"

definition csvCell :: "string \<Rightarrow> string" where
  "csvCell value =
     (let guarded = csv_guarded value
      in if \<not> list_ex csv_special guarded then guarded else quote @ doubled_quotes guarded @ quote)"

definition toCsv :: "string list list \<Rightarrow> string" where
  "toCsv rows = join newline (map (\<lambda>row. join '','' (map csvCell row)) rows)"

section \<open>scoring.ts\<close>

text \<open>Item identifiers are none of the names every object inherits.\<close>

definition rankingErrorScore :: "string list option \<Rightarrow> (string \<times> nat) list \<Rightarrow> int option" where
  "rankingErrorScore order expert =
     (case order of
        None \<Rightarrow> None
      | Some ids \<Rightarrow>
          if length ids \<noteq> length (map fst expert) then None
          else if length (uniq ids) \<noteq> length ids then None
          else if list_ex (\<lambda>i. map_of expert i = None) ids then None
          else Some (foldl (\<lambda>sum (index, i). sum + \<bar>int index + 1 - int (the (map_of expert i))\<bar>) 0
                 (List.enumerate 0 ids)))"

definition rankingError :: "string list option \<Rightarrow> int option" where
  "rankingError order = rankingErrorScore order MOON_SURVIVAL_EXPERT_RANKING"

section \<open>codebook.ts\<close>

text \<open>What the codebook computes: the error of the reversed order and the table of the expert ranks.\<close>

definition maximumError :: int where
  "maximumError =
     orelse (rankingError (Some (map fst (sort_key (\<lambda>(i, rank). - int rank) MOON_SURVIVAL_EXPERT_RANKING)))) 0"

definition expertKey :: string where
  "expertKey = join newline (map (\<lambda>i. ''| '' @ ri_id i @ '' | '' @ ri_label i @ '' | '' @
     show_nat (the (map_of MOON_SURVIVAL_EXPERT_RANKING (ri_id i))) @ '' |'') (rt_items MOON_SURVIVAL))"

section \<open>equality.ts\<close>

text \<open>A stored condition has both weights or none.\<close>

definition contributionScores :: "session \<Rightarrow> rat list" where
  "contributionScores s =
     (let weights = scoreWeights (spread_config (\<lambda>x. x) (cd_config (se_condition s))) in
      map (\<lambda>p.
        let messages = filter (\<lambda>m. \<not> isServiceUser (ms_senderId m) \<and>
              Some (ms_senderId m) = pt_matrixUserId p) (se_messages s);
            wordCount = foldl (\<lambda>sum m. sum + countWords (ms_text m)) 0 messages
        in of_nat (length messages) * sw_messages weights + of_nat wordCount * sw_words weights)
        (se_participants s))"

definition shareVariance :: "rat list \<Rightarrow> rat option" where
  "shareVariance scores =
     (let total = sum_list scores in
      if length scores < 2 \<or> total \<le> 0 then None
      else
        let shares = map (\<lambda>score. score / total) scores; mean = 1 / of_nat (length scores)
        in Some (sum_list (map (\<lambda>share. (share - mean) ^ 2) shares) / of_nat (length scores)))"

definition shareStdDev :: "(rat \<Rightarrow> rat) \<Rightarrow> rat list \<Rightarrow> rat option" where
  "shareStdDev sqrt_fn scores = map_option sqrt_fn (shareVariance scores)"

definition gini :: "rat list \<Rightarrow> rat option" where
  "gini scores =
     (let total = sum_list scores; n = length scores in
      if n < 2 \<or> total \<le> 0 then None
      else
        let pairwise = sum_list (map (\<lambda>a. sum_list (map (\<lambda>b. \<bar>a - b\<bar>) scores)) scores)
        in Some (pairwise / (2 * of_nat n * total)))"

definition meanOf :: "rat option list \<Rightarrow> rat option" where
  "meanOf values =
     (let present = map the (filter (\<lambda>v. v \<noteq> None) values)
      in if present = [] then None else Some (sum_list present / of_nat (length present)))"

definition meanMeaningfulnessScore :: "contribution_classification list \<Rightarrow> rat option" where
  "meanMeaningfulnessScore cs = meanOf (map (\<lambda>c. Some (cc_meaningfulnessScore c)) cs)"

section \<open>filter.ts\<close>

record research_filter =
  rf_conditionIds :: "string list"
  rf_roundIds :: "int list"

fun split_commas :: "string \<Rightarrow> string list" where
  "split_commas [] = [[]]"
| "split_commas (c # s) =
     (case split_commas s of
        [] \<Rightarrow> [[c]]
      | w # ws \<Rightarrow> if c = CHR '','' then [] # w # ws else (c # w) # ws)"

definition parseConditionIds :: "string option \<Rightarrow> string list" where
  "parseConditionIds q =
     (if truthy q then filter (\<lambda>i. i \<noteq> []) (map js_trim (split_commas (the q))) else [])"

text \<open>\<open>number_of\<close> is \<open>Number\<close> on strings.\<close>

definition parseRoundIds :: "(string \<Rightarrow> jsnum) \<Rightarrow> string option \<Rightarrow> int list" where
  "parseRoundIds number_of q =
     (if truthy q
      then concat (map (\<lambda>i. case number_of (js_trim i) of
              Num r \<Rightarrow> if is_integer r \<and> 0 < r then [\<lfloor>r\<rfloor>] else []
            | _ \<Rightarrow> []) (split_commas (the q)))
      else [])"

definition researchFilter :: "(string \<Rightarrow> jsnum) \<Rightarrow> string option \<Rightarrow> string option \<Rightarrow> research_filter" where
  "researchFilter number_of conditionIds roundIds =
     \<lparr>rf_conditionIds = parseConditionIds conditionIds, rf_roundIds = parseRoundIds number_of roundIds\<rparr>"

definition filterResearchSessions :: "session list \<Rightarrow> research_filter \<Rightarrow> session list" where
  "filterResearchSessions sessions f =
     filter (\<lambda>s. \<not> isTestCondition (cd_id (se_condition s)) \<and>
         (rf_conditionIds f = [] \<or> cd_id (se_condition s) \<in> set (rf_conditionIds f)) \<and>
         (rf_roundIds f = [] \<or> se_roundId s \<in> set (rf_roundIds f))) sessions"

definition filterResearchPads :: "pad list \<Rightarrow> session list \<Rightarrow> research_filter \<Rightarrow> pad list" where
  "filterResearchPads pads sessions f =
     (let ids = map se_id (filter isEtherpad sessions);
          unfiltered = (rf_conditionIds f = [] \<and> rf_roundIds f = [])
      in filter (\<lambda>p. if truthy (pd_sessionId p) then the (pd_sessionId p) \<in> set ids else unfiltered) pads)"

section \<open>pseudonym.ts\<close>

text \<open>\<open>hash\<close>: the hexadecimal SHA-256 digest.\<close>

definition pseudonymize :: "(string \<Rightarrow> string) \<Rightarrow> string \<Rightarrow> string \<Rightarrow> string" where
  "pseudonymize hash kind i = kind @ ''-'' @ take 8 (hash i)"

definition senderPseudonym :: "(string \<Rightarrow> string) \<Rightarrow> session \<Rightarrow> string \<Rightarrow> string" where
  "senderPseudonym hash s senderId =
     (case find (\<lambda>p. pt_id p = senderId \<or> pt_matrixUserId p = Some senderId) (se_participants s) of
        Some p \<Rightarrow> pseudonymize hash ''P'' (pt_id p)
      | None \<Rightarrow> if isServiceUser senderId then ''BOT'' else pseudonymize hash ''P'' senderId)"

section \<open>report-values.ts\<close>

definition interventionModeOf :: "session \<Rightarrow> string" where
  "interventionModeOf s =
     mode_name (normalizeInterventionMode (orelse (raw_interventionMode (cd_config (se_condition s)))
       (mode_name (interventionMode DEFAULT_INTERVENTION_CONFIG))))"

definition llm_name :: "llm_mode \<Rightarrow> string" where
  "llm_name m = (case m of Llm_Off \<Rightarrow> ''off'' | Llm_Active \<Rightarrow> ''active'')"

definition llmModeOf :: "session \<Rightarrow> string" where
  "llmModeOf s = llm_name (orelse (raw_llmMode (cd_config (se_condition s))) Llm_Off)"

definition survey_answer :: "survey option \<Rightarrow> string \<Rightarrow> answer" where
  "survey_answer sv key = orelse (Option.bind sv (\<lambda>v. map_of (sv_answers v) key)) A_Null"

definition scalarAnswer :: "survey option \<Rightarrow> string \<Rightarrow> answer" where
  "scalarAnswer sv key = (case survey_answer sv key of A_List vs \<Rightarrow> A_Null | v \<Rightarrow> v)"

text \<open>An accepted ranking is a list of strings.\<close>

definition rankingAnswer :: "survey option \<Rightarrow> string \<Rightarrow> string list option" where
  "rankingAnswer sv key = (case survey_answer sv key of A_List vs \<Rightarrow> strings_of vs | _ \<Rightarrow> None)"

definition GROUP_DYNAMICS_KEYS :: "string list" where
  "GROUP_DYNAMICS_KEYS =
     [''groupConsidered'', ''groupBalanced'', ''attentionCheck1'', ''groupDominated'', ''feltTeam'',
      ''comfortableAgain'']"

definition PSYCH_SAFETY_KEYS :: "string list" where
  "PSYCH_SAFETY_KEYS =
     [''safeSpeakUp'', ''raiseConcerns'', ''contradicted'', ''attentionCheck2'', ''contributionSerious'',
      ''contributionInfluenced'', ''heldBack'']"

definition BOT_PERCEPTION_KEYS :: "string list" where
  "BOT_PERCEPTION_KEYS = [''botIntrusive'', ''botHelpful'', ''botAppropriate'', ''botObserved'', ''botSupport'']"

definition byKey :: "string list \<Rightarrow> 'v list \<Rightarrow> (string \<times> 'v) list" where
  "byKey keys vals = zip keys vals"

definition round4 :: "rat \<Rightarrow> rat" where
  "round4 value = of_int (js_round (value * 10000)) / 10000"

text \<open>A cell of a scalar; \<open>t\<close> is the text of a number. An accepted answer is no object.\<close>

definition cell :: "(jsnum \<Rightarrow> string) \<Rightarrow> answer \<Rightarrow> string" where
  "cell t v = (if v = A_Null then [] else the (js_String t v))"

definition cell_number :: "(jsnum \<Rightarrow> string) \<Rightarrow> rat option \<Rightarrow> string" where
  "cell_number t v = (case v of None \<Rightarrow> [] | Some r \<Rightarrow> t (Num r))"

definition cell_count :: "nat option \<Rightarrow> string" where
  "cell_count v = (case v of None \<Rightarrow> [] | Some n \<Rightarrow> show_nat n)"

definition cell_bool :: "bool option \<Rightarrow> string" where
  "cell_bool v = (case v of None \<Rightarrow> [] | Some b \<Rightarrow> if b then ''true'' else ''false'')"

section \<open>Lemmas: reading a table back\<close>

text \<open>A reader of comma-separated values: inside quotes or not, the cell and the row so far.\<close>

fun csv_read :: "bool \<Rightarrow> string \<Rightarrow> string list \<Rightarrow> string \<Rightarrow> string list list" where
  "csv_read quoted item row [] = [row @ [item]]"
| "csv_read False item row (c # s) =
     (if c = CHR '','' then csv_read False [] (row @ [item]) s
      else if c = CHR 10 then (row @ [item]) # csv_read False [] [] s
      else if c = CHR 34 \<and> item = [] then csv_read True [] row s
      else csv_read False (item @ [c]) row s)"
| "csv_read True item row (c # s) =
     (if c = CHR 34
      then case s of d # s' \<Rightarrow> if d = CHR 34 then csv_read True (item @ [d]) row s' else csv_read False item row s
           | [] \<Rightarrow> csv_read False item row []
      else csv_read True (item @ [c]) row s)"

definition after_cell :: "string \<Rightarrow> bool" where
  "after_cell rest = (rest = [] \<or> hd rest = CHR '','' \<or> hd rest = CHR 10)"

lemma read_plain:
  "\<not> list_ex csv_special v \<Longrightarrow> csv_read False item row (v @ rest) = csv_read False (item @ v) row rest"
  by (induction v arbitrary: item) (auto simp: csv_special_def)

lemma read_quoted:
  "after_cell rest \<Longrightarrow> csv_read True item row (doubled_quotes v @ quote @ rest) = csv_read False (item @ v) row rest"
proof (induction v arbitrary: item)
  case Nil
  then show ?case by (cases rest) (auto simp: doubled_quotes_def quote_def after_cell_def)
next
  case (Cons c v)
  then show ?case by (auto simp: doubled_quotes_def quote_def)
qed

lemma read_cell:
  assumes "after_cell rest"
  shows "csv_read False [] row (csvCell v @ rest) = csv_read False (csv_guarded v) row rest"
proof (cases "list_ex csv_special (csv_guarded v)")
  case False
  then show ?thesis using read_plain [OF False, of "[]"] by (simp add: csvCell_def Let_def)
next
  case True
  then have "csvCell v @ rest = CHR 34 # doubled_quotes (csv_guarded v) @ quote @ rest"
    by (simp add: csvCell_def Let_def quote_def)
  with read_quoted [OF assms, of "[]" row "csv_guarded v"] show ?thesis by simp
qed

lemma join_Cons: "join sep (x # y # ys) = x @ sep @ join sep (y # ys)"
  by (simp add: join_def)

lemma join_single [simp]: "join sep [x] = x"
  by (simp add: join_def)

lemma read_row:
  assumes "vs \<noteq> []" and "rest = [] \<or> hd rest = CHR 10"
  shows "csv_read False [] row (join '','' (map csvCell vs) @ rest) =
    (case rest of [] \<Rightarrow> [row @ map csv_guarded vs] | c # s \<Rightarrow> (row @ map csv_guarded vs) # csv_read False [] [] s)"
  using assms
proof (induction vs arbitrary: row)
  case (Cons v vs)
  show ?case
  proof (cases vs)
    case Nil
    with Cons.prems read_cell [of rest row v] show ?thesis
      by (cases rest) (auto simp: after_cell_def)
  next
    case (Cons w ws)
    let ?rest = "CHR '','' # join '','' (map csvCell vs) @ rest"
    have "csv_read False [] row (join '','' (map csvCell (v # vs)) @ rest) = csv_read False [] row (csvCell v @ ?rest)"
      by (simp add: Cons join_Cons)
    also have "\<dots> = csv_read False [] (row @ [csv_guarded v]) (join '','' (map csvCell vs) @ rest)"
      by (subst read_cell) (simp_all add: after_cell_def)
    finally show ?thesis using Cons.IH [of "row @ [csv_guarded v]"] Cons.prems(2) Cons
      by (simp split: list.split)
  qed
qed simp

lemma read_rows:
  "rows \<noteq> [] \<Longrightarrow> \<forall>r\<in>set rows. r \<noteq> [] \<Longrightarrow> csv_read False [] [] (toCsv rows) = map (map csv_guarded) rows"
proof (induction rows)
  case (Cons r rows)
  show ?case
  proof (cases rows)
    case Nil
    with Cons.prems read_row [of r "[]" "[]"] show ?thesis by (simp add: toCsv_def)
  next
    case (Cons r' rows')
    then have "toCsv (r # rows) = join '','' (map csvCell r) @ CHR 10 # toCsv rows"
      by (simp add: toCsv_def join_Cons newline_def)
    with Cons.prems Cons.IH read_row [of r "CHR 10 # toCsv rows" "[]"] Cons show ?thesis by simp
  qed
qed simp

lemma guarded_harmless: "csv_guarded v = [] \<or> hd (csv_guarded v) \<notin> set ''=+-@''"
  by (simp add: csv_guarded_def apostrophe_def)



section \<open>Lemmas: scores of rankings\<close>

abbreviation expert_rank :: "string \<Rightarrow> nat" where
  "expert_rank i \<equiv> the (map_of MOON_SURVIVAL_EXPERT_RANKING i)"

definition expert_items :: "string list" where
  "expert_items = map fst MOON_SURVIVAL_EXPERT_RANKING"

lemma expert_facts:
  "distinct expert_items" "length expert_items = 10" "map expert_rank expert_items = [1..<11]"
  by code_simp+

lemma foldl_plus: "foldl (\<lambda>sum x. sum + f x) a xs = a + sum_list (map f xs)" for a :: "'b::monoid_add"
  by (induction xs arbitrary: a) (simp_all add: add.assoc)

lemma known_item: "map_of MOON_SURVIVAL_EXPERT_RANKING i = None \<longleftrightarrow> i \<notin> set expert_items"
  by (simp add: map_of_eq_None_iff expert_items_def)

lemma score_defined: "rankingError (Some ids) =
    (if length ids = 10 \<and> length (uniq ids) = length ids \<and> set ids \<subseteq> set expert_items
     then Some (sum_list (map (\<lambda>(index, i). \<bar>int index + 1 - int (expert_rank i)\<bar>) (List.enumerate 0 ids)))
     else None)"
  using expert_facts(2)
  by (auto simp: rankingError_def rankingErrorScore_def list_ex_iff case_prod_unfold foldl_plus known_item
      expert_items_def [symmetric] simp flip: length_map [of fst])

text \<open>The distance of two positions, through the middle of the list.\<close>

lemma distance_middle: "2 * \<bar>int i + 1 - int r\<bar> \<le> \<bar>2 * int i - 9\<bar> + \<bar>2 * int r - 11\<bar>"
  by (simp add: abs_if)

lemma over_positions: "sum_list (map (\<lambda>p. f (fst p)) (List.enumerate 0 xs)) = sum_list (map f (map fst (List.enumerate 0 xs)))"
  by (simp only: map_map o_def)

lemma over_members: "sum_list (map (\<lambda>p. f (snd p)) (List.enumerate 0 xs)) = sum_list (map f (map snd (List.enumerate 0 xs)))"
  by (simp only: map_map o_def)

lemma scored_order:
  assumes "rankingError (Some ids) = Some e"
  shows "length ids = 10 \<and> distinct ids \<and> set ids = set expert_items \<and>
    e = sum_list (map (\<lambda>(index, i). \<bar>int index + 1 - int (expert_rank i)\<bar>) (List.enumerate 0 ids))"
proof -
  from assms have len: "length ids = 10" and uniq: "length (uniq ids) = length ids"
    and known: "set ids \<subseteq> set expert_items"
    and e: "e = sum_list (map (\<lambda>(index, i). \<bar>int index + 1 - int (expert_rank i)\<bar>) (List.enumerate 0 ids))"
    by (auto simp: score_defined split: if_splits)
  have dist: "distinct ids" using uniq by (simp add: uniq_length card_distinct)
  have "card (set ids) = card (set expert_items)"
    using distinct_card [OF dist] distinct_card [OF expert_facts(1)] len expert_facts(2) by (simp only:)
  with known have "set ids = set expert_items" by (simp add: card_subset_eq)
  with len dist e show ?thesis by simp
qed

lemma sum_over_items: "distinct ids \<Longrightarrow> set ids = set expert_items \<Longrightarrow>
    sum_list (map (\<lambda>i. f (expert_rank i)) ids) = sum_list (map f [1..<11])" for f :: "nat \<Rightarrow> int"
proof -
  assume ids: "distinct ids" "set ids = set expert_items"
  then have "sum_list (map (\<lambda>i. f (expert_rank i)) ids) = sum_list (map (\<lambda>i. f (expert_rank i)) expert_items)"
    using expert_facts(1) by (simp only: sum_list_distinct_conv_sum_set)
  also have "\<dots> = sum_list (map f (map expert_rank expert_items))" by (simp only: map_map o_def)
  finally show ?thesis using expert_facts(3) by (simp only:)
qed

lemma score_bounds:
  assumes "rankingError (Some ids) = Some e"
  shows "0 \<le> e \<and> e \<le> 50"
proof -
  have len: "length ids = 10" and ids: "distinct ids" "set ids = set expert_items"
    and e: "e = sum_list (map (\<lambda>(index, i). \<bar>int index + 1 - int (expert_rank i)\<bar>) (List.enumerate 0 ids))"
    using scored_order [OF assms] by simp_all
  let ?m = "\<lambda>(index, i). \<bar>2 * int index - 9\<bar> + \<bar>2 * int (expert_rank i) - 11\<bar>"
  have "2 * e = sum_list (map (\<lambda>(index, i). 2 * \<bar>int index + 1 - int (expert_rank i)\<bar>) (List.enumerate 0 ids))"
    unfolding e by (simp add: sum_list_const_mult case_prod_unfold)
  also have "\<dots> \<le> sum_list (map ?m (List.enumerate 0 ids))"
    by (rule sum_list_mono) (auto simp: distance_middle)
  also have "\<dots> = sum_list (map (\<lambda>k. \<bar>2 * int k - 9\<bar>) (map fst (List.enumerate 0 ids))) +
      sum_list (map (\<lambda>i. \<bar>2 * int (expert_rank i) - 11\<bar>) (map snd (List.enumerate 0 ids)))"
    using over_positions [of "\<lambda>k. \<bar>2 * int k - 9\<bar>" ids]
      over_members [of "\<lambda>i. \<bar>2 * int (expert_rank i) - 11\<bar>" ids]
    by (simp only: case_prod_unfold sum_list_addf)
  also have "\<dots> = 100"
  proof -
    have one: "sum_list (map (\<lambda>k. \<bar>2 * int k - 9\<bar>) [0..<10]) = 50"
      and two: "sum_list (map (\<lambda>k. \<bar>2 * int k - 11\<bar>) [1..<11]) = 50" by code_simp+
    from sum_over_items [OF ids, of "\<lambda>k. \<bar>2 * int k - 11\<bar>"] two
    have "sum_list (map (\<lambda>i. \<bar>2 * int (expert_rank i) - 11\<bar>) ids) = 50" by (simp only:)
    with one show ?thesis by (simp only: map_fst_enumerate map_snd_enumerate len) simp
  qed
  finally have "e \<le> 50" by simp
  moreover have "0 \<le> e" unfolding e by (rule sum_list_nonneg) auto
  ultimately show ?thesis by simp
qed

lemma perfect_order:
  assumes "rankingError (Some ids) = Some 0"
  shows "ids = expert_items"
proof -
  have len: "length ids = 10" and ids: "set ids = set expert_items"
    and e: "sum_list (map (\<lambda>(index, i). \<bar>int index + 1 - int (expert_rank i)\<bar>) (List.enumerate 0 ids)) = 0"
    using scored_order [OF assms] by simp_all
  have "\<forall>x\<in>set (List.enumerate 0 ids). (\<lambda>(index, i). \<bar>int index + 1 - int (expert_rank i)\<bar>) x = 0"
    using e by (subst (asm) sum_list_nonneg_eq_0_iff) auto
  then have "expert_rank (ids ! k) = k + 1" if "k < 10" for k
    using that len in_set_enumerate_eq [of "(k, ids ! k)" 0 ids] by force
  then have "map expert_rank ids = map expert_rank expert_items"
    unfolding expert_facts(3) by (intro nth_equalityI) (simp_all add: len)
  moreover have "inj_on expert_rank (set expert_items)"
    using expert_facts(1,3) distinct_map [of expert_rank expert_items] by simp
  ultimately show ?thesis using ids by (simp add: inj_on_map_eq_map)
qed

lemma maximum_error: "maximumError = 50"
  by code_simp

lemma expert_error: "rankingError (Some expert_items) = Some 0"
  by code_simp


section \<open>Lemmas: the Gini coefficient\<close>

definition pairwise_gap :: "rat list \<Rightarrow> rat" where
  "pairwise_gap xs = sum_list (map (\<lambda>a. sum_list (map (\<lambda>b. \<bar>a - b\<bar>) xs)) xs)"

lemma gap_upper:
  assumes "\<forall>x\<in>set xs. 0 \<le> x"
  shows "pairwise_gap xs \<le> 2 * (of_nat (length xs) - 1) * sum_list xs"
proof -
  let ?n = "of_nat (length xs) :: rat"
  have row: "sum_list (map (\<lambda>b. \<bar>a - b\<bar>) xs) \<le> ?n * a + sum_list xs - 2 * a" if a: "a \<in> set xs" for a
  proof -
    have "a \<le> sum_list (map (\<lambda>b. min a b) xs)"
      using member_le_sum_list_rat [of a xs "\<lambda>b. min a b"] a assms by (simp add: min_def)
    moreover have "sum_list (map (\<lambda>b. \<bar>a - b\<bar>) xs) = sum_list (map (\<lambda>b. a + b - 2 * min a b) xs)"
      by (rule arg_cong [of _ _ sum_list]) (auto simp: min_def)
    moreover have "\<dots> = ?n * a + sum_list xs - 2 * sum_list (map (\<lambda>b. min a b) xs)"
      by (simp add: sum_list_subtractf sum_list_addf sum_list_triv sum_list_const_mult)
    ultimately show ?thesis by linarith
  qed
  have "pairwise_gap xs \<le> sum_list (map (\<lambda>a. ?n * a + sum_list xs - 2 * a) xs)"
    unfolding pairwise_gap_def by (rule sum_list_mono) (rule row)
  also have "\<dots> = 2 * (?n - 1) * sum_list xs"
    by (simp add: sum_list_subtractf sum_list_addf sum_list_triv sum_list_const_mult) (simp add: algebra_simps)
  finally show ?thesis .
qed

lemma gap_nonneg: "0 \<le> pairwise_gap xs"
  unfolding pairwise_gap_def by (intro sum_list_nonneg_rat) simp

lemma gap_zero: "pairwise_gap xs = 0 \<longleftrightarrow> (\<forall>a\<in>set xs. \<forall>b\<in>set xs. a = b)"
proof -
  have "0 \<le> sum_list (map (\<lambda>b. \<bar>a - b\<bar>) xs)" for a by (rule sum_list_nonneg) auto
  then have "pairwise_gap xs = 0 \<longleftrightarrow> (\<forall>a\<in>set xs. sum_list (map (\<lambda>b. \<bar>a - b\<bar>) xs) = 0)"
    unfolding pairwise_gap_def by (subst sum_list_nonneg_eq_0_iff) auto
  also have "\<dots> \<longleftrightarrow> (\<forall>a\<in>set xs. \<forall>b\<in>set xs. a = b)"
    by (intro ball_cong refl) (subst sum_list_nonneg_eq_0_iff, auto)
  finally show ?thesis .
qed

text \<open>
  The Gini coefficient of contributions lies between 0 and (n - 1) / n, and is 0 exactly when
  all contributed the same.
\<close>

theorem gini_bounds:
  assumes "gini scores = Some g" and "\<forall>x\<in>set scores. 0 \<le> x"
  shows "0 \<le> g \<and> g \<le> (of_nat (length scores) - 1) / of_nat (length scores) \<and>
    (g = 0 \<longleftrightarrow> (\<forall>a\<in>set scores. \<forall>b\<in>set scores. a = b))"
proof -
  let ?n = "of_nat (length scores) :: rat" and ?t = "sum_list scores"
  have g: "g = pairwise_gap scores / (2 * ?n * ?t)" and pos: "2 \<le> length scores" "0 < ?t"
    using assms(1) by (auto simp: gini_def pairwise_gap_def Let_def split: if_splits)
  have n: "0 < ?n" using pos(1) by (cases scores) simp_all
  then have d: "0 < 2 * ?n * ?t" using pos(2) by simp
  have "(?n - 1) / ?n * (2 * ?n * ?t) = 2 * (?n - 1) * ?t" using n by (simp add: field_simps)
  then have "pairwise_gap scores \<le> (?n - 1) / ?n * (2 * ?n * ?t)"
    using gap_upper [OF assms(2)] by (simp only:)
  then have "g \<le> (?n - 1) / ?n" unfolding g using d by (simp only: pos_divide_le_eq)
  moreover have "0 \<le> g" unfolding g using gap_nonneg d by (intro divide_nonneg_pos)
  moreover have "g = 0 \<longleftrightarrow> pairwise_gap scores = 0" unfolding g using n pos(2) by auto
  ultimately show ?thesis by (simp add: gap_zero)
qed

theorem gini_bounds_witness:
  "gini [3, 0, 0] = Some (2 / 3) \<and> (2 / 3 :: rat) \<le> (3 - 1) / 3"
proof -
  have "gini [3, 0, 0] = Some (2 / 3)" by (simp add: gini_def Let_def)
  with gini_bounds [OF this] show ?thesis by simp
qed

end
