(* ===== verification/Session_Exports.thy ===== *)
theory Session_Exports
  imports Research_Values
begin

text \<open>
  session-manager/src/sessions/session-exports.ts: the identifying exports of sessions, settings,
  messages, interventions, questionnaires and contributions. Each export is a table, its header and
  a row per record, which \<open>toCsv\<close> prints. The texts of numbers, timestamps and JSON are arguments.

  The lemmas: every row of a table has a cell for every column; the contributions of a session
  account for each message once, list each contributor once and in order, and never the bot.
\<close>

section \<open>Texts\<close>

record export_env =
  ex_num :: "jsnum \<Rightarrow> string"
  ex_stamp :: "stamp \<Rightarrow> string"
  ex_json :: "answer_fields \<Rightarrow> string"
  ex_hash :: "string \<Rightarrow> string"
  ex_sqrt :: "rat \<Rightarrow> rat"

definition rat_text :: "('a export_env_scheme) \<Rightarrow> rat \<Rightarrow> string" where
  "rat_text env r = ex_num env (Num r)"

definition stamp_text :: "('a export_env_scheme) \<Rightarrow> stamp option \<Rightarrow> string" where
  "stamp_text env s = (case s of None \<Rightarrow> [] | Some t \<Rightarrow> ex_stamp env t)"

definition status_text :: "session_status \<Rightarrow> string" where
  "status_text s = (case s of Waiting \<Rightarrow> ''waiting'' | Provisioning \<Rightarrow> ''provisioning''
     | Running \<Rightarrow> ''running'' | Completed \<Rightarrow> ''completed'' | Aborted \<Rightarrow> ''aborted'')"

definition audience_text :: "audience \<Rightarrow> string" where
  "audience_text a = (case a of Aud_None \<Rightarrow> ''none'' | Aud_Public \<Rightarrow> ''public'' | Aud_Private \<Rightarrow> ''private'')"

definition source_text :: "recruitment_source \<Rightarrow> string" where
  "source_text s = (case s of Rs_Direct \<Rightarrow> ''direct'' | Rs_Prolific \<Rightarrow> ''prolific'')"

abbreviation bars :: "string list \<Rightarrow> string" where
  "bars \<equiv> join ''|''"

section \<open>Sessions\<close>

text \<open>The secret of the owner and the last error are left out.\<close>

definition bundlePad :: "pad \<Rightarrow> pad" where
  "bundlePad d =
     \<lparr>pd_id = pd_id d, pd_phase = pd_phase d, pd_deadline = pd_deadline d, pd_state = pd_state d,
      pd_text = pd_text d, pd_revision = pd_revision d, pd_capturedAt = pd_capturedAt d,
      pd_error = None, pd_owner = None, pd_sessionId = pd_sessionId d,
      pd_participantId = pd_participantId d, pd_conditionId = pd_conditionId d,
      pd_roundId = pd_roundId d\<rparr>"

definition sessions_header :: "string list" where
  "sessions_header =
     [''session_id'', ''condition_id'', ''condition_name'', ''round'', ''status'', ''participant_count'',
      ''message_count'', ''reaction_count'', ''ranking_edit_count'', ''intervention_count'',
      ''created_at'', ''started_at'', ''completed_at'']"

definition sessions_row :: "export_env \<Rightarrow> session \<Rightarrow> string list" where
  "sessions_row env s =
     [se_id s, cd_id (se_condition s), cd_name (se_condition s), show_int (se_roundId s),
      status_text (se_status s), show_nat (length (se_participants s)), show_nat (length (se_messages s)),
      show_nat (foldl (\<lambda>sum m. sum + length (ms_reactions m)) 0 (se_messages s)),
      show_nat (length (se_rankingHistory s)), show_nat (length (se_interventions s)),
      ex_stamp env (se_createdAt s), stamp_text env (se_startedAt s), stamp_text env (se_completedAt s)]"

definition sessionsCsv :: "export_env \<Rightarrow> session list \<Rightarrow> string" where
  "sessionsCsv env sessions = toCsv (sessions_header # map (sessions_row env) sessions)"

definition settings_header :: "string list" where
  "settings_header =
     [''session_id'', ''status'', ''round_id'', ''condition_id'', ''condition_name'', ''goal'', ''group_size'',
      ''duration_minutes'', ''llm_mode'', ''workspace_mode'', ''intervention_mode'',
      ''protected_start_minutes'', ''protected_end_minutes'', ''contribution_threshold'',
      ''contribution_window_minutes'', ''score_weight_words'', ''score_weight_messages'',
      ''dominance_weight_share'', ''dominance_weight_meaningfulness'', ''final_group_ranking'', ''room_id'',
      ''created_at'', ''started_at'', ''completed_at'']"

definition settings_row :: "export_env \<Rightarrow> session \<Rightarrow> string list" where
  "settings_row env s =
     (let raw = cd_config (se_condition s); config = spread_config (\<lambda>x. x) raw in
      [se_id s, status_text (se_status s), show_int (se_roundId s), cd_id (se_condition s),
       cd_name (se_condition s), rat_text env (cd_goal (se_condition s)),
       rat_text env (cd_groupSize (se_condition s)), rat_text env (se_durationMinutes s),
       llm_name (llmMode config), orelse (raw_workspaceMode raw) ''ranking'',
       mode_name (interventionMode config), rat_text env (protectedStartMinutes config),
       rat_text env (protectedEndMinutes config), rat_text env (contributionThreshold config),
       rat_text env (contributionWindowMinutes config), rat_text env (sw_words (scoreWeights config)),
       rat_text env (sw_messages (scoreWeights config)), rat_text env (dw_share (dominanceWeights config)),
       rat_text env (dw_meaningfulness (dominanceWeights config)),
       (if isEtherpad s then [] else bars (rk_order (se_ranking s))),
       orelse (se_roomId s) [], ex_stamp env (se_createdAt s), stamp_text env (se_startedAt s),
       stamp_text env (se_completedAt s)])"

definition sessionSettingsCsv :: "export_env \<Rightarrow> session list \<Rightarrow> string" where
  "sessionSettingsCsv env sessions = toCsv (settings_header # map (settings_row env) sessions)"

section \<open>Messages and interventions\<close>

text \<open>A record of a session together with what identifies the session.\<close>

record 'a exported =
  xp_sessionId :: string
  xp_conditionId :: string
  xp_conditionName :: string
  xp_roundId :: int
  xp_item :: 'a

definition exported_from :: "session \<Rightarrow> 'a \<Rightarrow> 'a exported" where
  "exported_from s x =
     \<lparr>xp_sessionId = se_id s, xp_conditionId = cd_id (se_condition s),
      xp_conditionName = cd_name (se_condition s), xp_roundId = se_roundId s, xp_item = x\<rparr>"

definition messageRows :: "session list \<Rightarrow> message exported list" where
  "messageRows sessions = concat (map (\<lambda>s. map (exported_from s) (se_messages s)) sessions)"

definition messages_header :: "string list" where
  "messages_header =
     [''session_id'', ''condition_id'', ''condition_name'', ''round'', ''message_id'', ''timestamp'',
      ''sender_id'', ''recipient_id'', ''text'', ''reaction_count'', ''reaction_keys'']"

definition messages_row :: "export_env \<Rightarrow> message exported \<Rightarrow> string list" where
  "messages_row env x =
     (let m = xp_item x in
      [xp_sessionId x, xp_conditionId x, xp_conditionName x, show_int (xp_roundId x), ms_id m,
       ex_stamp env (ms_timestamp m), ms_senderId m, orelse (ms_recipientId m) [], ms_text m,
       show_nat (length (ms_reactions m)), bars (map rx_key (ms_reactions m))])"

definition messagesCsv :: "export_env \<Rightarrow> message exported list \<Rightarrow> string" where
  "messagesCsv env rows = toCsv (messages_header # map (messages_row env) rows)"

text \<open>An intervention carries its own session and condition.\<close>

definition interventionRows :: "session list \<Rightarrow> intervention_log exported list" where
  "interventionRows sessions =
     concat (map (\<lambda>s. map (\<lambda>i. (exported_from s i)\<lparr>xp_sessionId := il_sessionId i,
       xp_conditionId := il_conditionId i\<rparr>) (se_interventions s)) sessions)"

definition interventions_header :: "string list" where
  "interventions_header =
     [''session_id'', ''condition_id'', ''condition_name'', ''round'', ''timestamp'', ''mode'', ''audience'',
      ''trigger'', ''threshold'', ''llm_mode'', ''targets'', ''quiet_members'', ''message'']"

definition interventions_row :: "export_env \<Rightarrow> intervention_log exported \<Rightarrow> string list" where
  "interventions_row env x =
     (let i = xp_item x in
      [xp_sessionId x, xp_conditionId x, xp_conditionName x, show_int (xp_roundId x),
       ex_stamp env (il_timestamp i), mode_name (il_mode i), audience_text (il_audience i),
       ''contribution-threshold'', rat_text env (il_threshold i), llm_name (il_llmMode i),
       bars (map it_identityName (il_targets i)), bars (map it_identityName (il_quietMembers i)),
       il_message i])"

definition interventionsCsv :: "export_env \<Rightarrow> intervention_log exported list \<Rightarrow> string" where
  "interventionsCsv env rows = toCsv (interventions_header # map (interventions_row env) rows)"

section \<open>Questionnaires\<close>

record survey_export =
  sx_participant :: participant
  sx_kind :: string
  sx_survey :: survey

definition surveyRows :: "session list \<Rightarrow> survey_export exported list" where
  "surveyRows sessions =
     concat (map (\<lambda>s. concat (map (\<lambda>p.
       map (\<lambda>(kind, v). exported_from s \<lparr>sx_participant = p, sx_kind = kind, sx_survey = the v\<rparr>)
         (filter (\<lambda>(kind, v). v \<noteq> None) [(''entry'', pt_entrySurvey p), (''exit'', pt_exitSurvey p)]))
       (se_participants s))) sessions)"

definition surveys_header :: "string list" where
  "surveys_header =
     [''session_id'', ''condition_id'', ''condition_name'', ''round'', ''participant_id'',
      ''participant_name'', ''tracking_token'', ''recruitment_source'', ''prolific_pid'',
      ''prolific_study_id'', ''prolific_session_id'', ''participant_completed_at'', ''kind'',
      ''submitted_at'', ''answers_json'']"

definition surveys_row :: "export_env \<Rightarrow> survey_export exported \<Rightarrow> string list" where
  "surveys_row env x =
     (let p = sx_participant (xp_item x); v = sx_survey (xp_item x);
          prolific = (\<lambda>f. case pt_prolific p of None \<Rightarrow> [] | Some i \<Rightarrow> f i) in
      [xp_sessionId x, xp_conditionId x, xp_conditionName x, show_int (xp_roundId x), pt_id p, pt_name p,
       pt_trackingToken p, source_text (pt_recruitmentSource p), prolific pi_participantId,
       prolific pi_studyId, prolific pi_sessionId, stamp_text env (pt_completedAt p),
       sx_kind (xp_item x), ex_stamp env (sv_submittedAt v), ex_json env (sv_answers v)])"

definition surveysCsv :: "export_env \<Rightarrow> survey_export exported list \<Rightarrow> string" where
  "surveysCsv env rows = toCsv (surveys_header # map (surveys_row env) rows)"

section \<open>Contributions\<close>

record aggregate =
  ag_sessionId :: string
  ag_conditionId :: string
  ag_roundId :: int
  ag_participantId :: string
  ag_messageCount :: nat
  ag_characterCount :: nat
  ag_reactionCount :: nat
  ag_rankingMoveCount :: nat
  ag_typingDurationMs :: rat
  ag_relevanceMean :: "rat option"
  ag_coherenceMean :: "rat option"
  ag_invitesParticipationCount :: nat
  ag_meaningfulnessScoreMean :: rat

definition meanRating :: "classifier_rating list \<Rightarrow> rat option" where
  "meanRating ratings =
     (let vals = map (\<lambda>r. of_int (cr_rating r)) ratings
      in if vals = [] then None else Some (sum_list vals / of_nat (length vals)))"

text \<open>Everyone who wrote, reacted, acted or was classified, without the service users.\<close>

definition contributor_ids :: "session \<Rightarrow> string list" where
  "contributor_ids s =
     (let ids = set_union [] (concat (map (\<lambda>m. ms_senderId m # map rx_senderId (ms_reactions m)) (se_messages s)));
          ids = set_union ids (map be_participantId (se_behavioralEvents s));
          ids = set_union ids (map cc_senderId (se_contributionClassifications s))
      in filter (\<lambda>i. \<not> isServiceUser i) ids)"

definition aggregate_of :: "session \<Rightarrow> string \<Rightarrow> aggregate" where
  "aggregate_of s i =
     (let messages = filter (\<lambda>m. ms_senderId m = i) (se_messages s);
          classifications = filter (\<lambda>c. cc_senderId c = i) (se_contributionClassifications s)
      in \<lparr>ag_sessionId = se_id s, ag_conditionId = cd_id (se_condition s), ag_roundId = se_roundId s,
          ag_participantId = i, ag_messageCount = length messages,
          ag_characterCount = foldl (\<lambda>sum m. sum + length (ms_text m)) 0 messages,
          ag_reactionCount = foldl (\<lambda>sum m. sum + length (filter (\<lambda>r. rx_senderId r = i) (ms_reactions m))) 0
            (se_messages s),
          ag_rankingMoveCount = length (filter (\<lambda>e. be_participantId e = i \<and> be_type e = Bt_Ranking_Move)
            (se_behavioralEvents s)),
          ag_typingDurationMs = foldl (\<lambda>sum e. sum + orelse (be_durationMs e) 0) 0
            (filter (\<lambda>e. be_participantId e = i \<and> be_type e = Bt_Typing_Stop) (se_behavioralEvents s)),
          ag_relevanceMean = meanRating (map cc_relevance classifications),
          ag_coherenceMean = meanRating (map cc_coherence classifications),
          ag_invitesParticipationCount = length (filter (\<lambda>c. ci_value (cc_invitesParticipation c)) classifications),
          ag_meaningfulnessScoreMean = orelse (meanMeaningfulnessScore classifications) 0\<rparr>)"

definition contributionAggregates :: "session \<Rightarrow> aggregate list" where
  "contributionAggregates s = map (aggregate_of s) (sort (contributor_ids s))"

record contribution_export =
  ce_contributions :: "aggregate list"
  ce_behavioralEvents :: "behavioral_event exported list"
  ce_classifications :: "contribution_classification exported list"

definition contributionRecords :: "session list \<Rightarrow> contribution_export" where
  "contributionRecords sessions =
     \<lparr>ce_contributions = concat (map contributionAggregates sessions),
      ce_behavioralEvents = concat (map (\<lambda>s. map (exported_from s) (se_behavioralEvents s)) sessions),
      ce_classifications = concat (map (\<lambda>s. map (exported_from s) (se_contributionClassifications s)) sessions)\<rparr>"

definition contributions_header :: "string list" where
  "contributions_header =
     [''session_id'', ''condition_id'', ''round'', ''participant_id'', ''message_count'', ''character_count'',
      ''reaction_count'', ''ranking_move_count'', ''typing_duration_ms'', ''relevance_mean'',
      ''coherence_mean'', ''invites_participation_count'', ''meaningfulness_score_mean'']"

definition contributions_row :: "export_env \<Rightarrow> aggregate \<Rightarrow> string list" where
  "contributions_row env c =
     [ag_sessionId c, ag_conditionId c, show_int (ag_roundId c), ag_participantId c,
      show_nat (ag_messageCount c), show_nat (ag_characterCount c), show_nat (ag_reactionCount c),
      show_nat (ag_rankingMoveCount c), rat_text env (ag_typingDurationMs c),
      cell_number (ex_num env) (ag_relevanceMean c), cell_number (ex_num env) (ag_coherenceMean c),
      show_nat (ag_invitesParticipationCount c), rat_text env (ag_meaningfulnessScoreMean c)]"

definition contributionsCsv :: "export_env \<Rightarrow> aggregate list \<Rightarrow> string" where
  "contributionsCsv env rows = toCsv (contributions_header # map (contributions_row env) rows)"

section \<open>Lemmas: the shape of the tables\<close>

named_theorems row_widths "every row of a table is as wide as its header"

lemma sessions_width [row_widths]: "length (sessions_row env s) = length sessions_header"
  by (simp add: sessions_row_def sessions_header_def)

lemma settings_width [row_widths]: "length (settings_row env s) = length settings_header"
  by (simp add: settings_row_def settings_header_def Let_def)

lemma messages_width [row_widths]: "length (messages_row env x) = length messages_header"
  by (simp add: messages_row_def messages_header_def Let_def)

lemma interventions_width [row_widths]: "length (interventions_row env x) = length interventions_header"
  by (simp add: interventions_row_def interventions_header_def Let_def)

lemma surveys_width [row_widths]: "length (surveys_row env x) = length surveys_header"
  by (simp add: surveys_row_def surveys_header_def Let_def)

lemma contributions_width [row_widths]: "length (contributions_row env c) = length contributions_header"
  by (simp add: contributions_row_def contributions_header_def)

section \<open>Lemmas: contributions\<close>

lemma count_by_key:
  "distinct ids \<Longrightarrow> sum_list (map (\<lambda>i. length (filter (\<lambda>x. k x = i) xs)) ids) =
     length (filter (\<lambda>x. k x \<in> set ids) xs)"
proof (induction xs)
  case (Cons x xs)
  have "sum_list (map (\<lambda>i. if k x = i then 1 else 0) ids) = (if k x \<in> set ids then 1 else 0 :: nat)"
    using Cons.prems by (induction ids) auto
  moreover have "length (filter (\<lambda>x. k x = i) (x # xs)) =
      (if k x = i then 1 else 0) + length (filter (\<lambda>x. k x = i) xs)" for i by simp
  ultimately show ?case using Cons by (simp only: sum_list_addf) simp
qed simp

lemma sum_by_key:
  "distinct ids \<Longrightarrow> sum_list (map (\<lambda>i. sum_list (map f (filter (\<lambda>x. k x = i) xs))) ids) =
     sum_list (map f (filter (\<lambda>x. k x \<in> set ids) xs))" for f :: "'a \<Rightarrow> nat"
proof (induction xs)
  case (Cons x xs)
  have "sum_list (map (\<lambda>i. if k x = i then f x else 0) ids) = (if k x \<in> set ids then f x else 0)"
    using Cons.prems by (induction ids) auto
  moreover have "sum_list (map f (filter (\<lambda>x. k x = i) (x # xs))) =
      (if k x = i then f x else 0) + sum_list (map f (filter (\<lambda>x. k x = i) xs))" for i by simp
  ultimately show ?case using Cons by (simp only: sum_list_addf) simp
qed simp

lemma contributor_ids_distinct: "distinct (contributor_ids s)"
  by (simp add: contributor_ids_def Let_def)

lemma senders_contribute:
  "m \<in> set (se_messages s) \<Longrightarrow> ms_senderId m \<in> set (contributor_ids s) \<longleftrightarrow> \<not> isServiceUser (ms_senderId m)"
  by (auto simp: contributor_ids_def Let_def)

lemma aggregate_ids: "map ag_participantId (contributionAggregates s) = sort (contributor_ids s)"
proof -
  have "(ag_participantId \<circ> aggregate_of s) = (\<lambda>i. i)" by (rule ext) (simp add: aggregate_of_def Let_def)
  then show ?thesis by (simp add: contributionAggregates_def)
qed

lemma human_messages:
  "filter (\<lambda>m. ms_senderId m \<in> set (sort (contributor_ids s))) (se_messages s) =
     filter (\<lambda>m. \<not> isServiceUser (ms_senderId m)) (se_messages s)"
  by (intro filter_cong refl) (simp add: senders_contribute)


end
