(* ===== verification/Research_Rows.thy ===== *)
theory Research_Rows
  imports Session_Exports
begin

text \<open>
  The pseudonymous research tables of session-manager/src/reports: message-rows.ts, ranking-rows.ts,
  window-rows.ts, session-rows.ts and participant-rows.ts. A table is its header and a row per record.

  The lemmas: the pairing of the bot's messages with interventions uses no message and no
  intervention twice, pairs equal texts only and leaves a message alone only where the interventions
  with its text are used up.
\<close>

section \<open>message-rows.ts\<close>

definition bool_text :: "bool \<Rightarrow> string" where
  "bool_text b = (if b then ''true'' else ''false'')"

definition session_pseudonym :: "export_env \<Rightarrow> session \<Rightarrow> string" where
  "session_pseudonym env s = pseudonymize (ex_hash env) ''S'' (se_id s)"

definition research_messages_header :: "string list" where
  "research_messages_header =
     [''session_pseudonym'', ''condition_id'', ''round'', ''message_id'', ''timestamp'',
      ''sender_pseudonym'', ''sender_is_bot'', ''recipient_pseudonym'', ''text'', ''word_count'']"

definition research_message :: "export_env \<Rightarrow> session \<Rightarrow> message \<Rightarrow> string list" where
  "research_message env s m =
     [session_pseudonym env s, cd_id (se_condition s), show_int (se_roundId s), ms_id m,
      ex_stamp env (ms_timestamp m), senderPseudonym (ex_hash env) s (ms_senderId m),
      bool_text (isServiceUser (ms_senderId m)),
      (if truthy (ms_recipientId m) then senderPseudonym (ex_hash env) s (the (ms_recipientId m)) else []),
      ms_text m, show_nat (countWords (ms_text m))]"

definition research_messages :: "export_env \<Rightarrow> session list \<Rightarrow> string list list" where
  "research_messages env sessions =
     research_messages_header # concat (map (\<lambda>s. map (research_message env s) (se_messages s)) sessions)"

definition researchMessagesCsv :: "export_env \<Rightarrow> session list \<Rightarrow> string" where
  "researchMessagesCsv env sessions = toCsv (research_messages env sessions)"

text \<open>
  \<open>interventionIdsByMessage\<close>: the queues of interventions by their text, and one message's turn.
  \<open>rank\<close> is the place of a timestamp in the order of timestamps.
\<close>

definition intervention_queues :: "(stamp \<Rightarrow> int) \<Rightarrow> session \<Rightarrow> (string \<times> intervention_log list) list" where
  "intervention_queues rank s =
     foldl (\<lambda>m i. om_set (il_message i) (orelse (om_get m (il_message i)) [] @ [i]) m) []
       (sort_key (\<lambda>i. rank (il_timestamp i)) (se_interventions s))"

definition fits_message :: "message \<Rightarrow> intervention_log \<Rightarrow> bool" where
  "fits_message m i =
     (if truthy (ms_recipientId m)
      then il_audience i = Aud_Private \<and> list_ex (\<lambda>t. Some (it_userId t) = ms_recipientId m) (il_targets i)
      else il_audience i \<noteq> Aud_Private)"

definition pair_message ::
    "(string \<times> intervention_log list) list \<times> (string \<times> string) list \<Rightarrow> message
     \<Rightarrow> (string \<times> intervention_log list) list \<times> (string \<times> string) list" where
  "pair_message acc m =
     (if \<not> isServiceUser (ms_senderId m) then acc
      else case om_get (fst acc) (ms_text m) of
          None \<Rightarrow> acc
        | Some queue \<Rightarrow>
            if queue = [] then acc
            else
              let k = orelse (find_index (fits_message m) queue) 0
              in (om_set (ms_text m) (take k queue @ drop (Suc k) queue) (fst acc),
                  om_set (ms_id m) (il_id (queue ! k)) (snd acc)))"

definition interventionIdsByMessage :: "(stamp \<Rightarrow> int) \<Rightarrow> session \<Rightarrow> (string \<times> string) list" where
  "interventionIdsByMessage rank s = snd (foldl pair_message (intervention_queues rank s, []) (se_messages s))"

definition messages_flat_header :: "string list" where
  "messages_flat_header =
     [''session_id'', ''group_id'', ''condition'', ''round'', ''message_id'', ''timestamp'', ''member_id'',
      ''sender_is_bot'', ''intervention_id'', ''text'', ''word_count'']"

definition member_index :: "session \<Rightarrow> (string \<times> nat) list" where
  "member_index s =
     foldl (\<lambda>m (i, p). if truthy (pt_matrixUserId p) then om_set (the (pt_matrixUserId p)) (i + 1) m else m) []
       (List.enumerate 0 (se_participants s))"

definition message_flat ::
    "export_env \<Rightarrow> session \<Rightarrow> (string \<times> nat) list \<Rightarrow> (string \<times> string) list \<Rightarrow> message \<Rightarrow> string list" where
  "message_flat env s members byMessage m =
     (let isBotMsg = isServiceUser (ms_senderId m) in
      [se_id s, se_id s, cd_name (se_condition s), show_int (se_roundId s), ms_id m,
       ex_stamp env (ms_timestamp m),
       (if isBotMsg then [] else cell_count (om_get members (ms_senderId m))), bool_text isBotMsg,
       (if isBotMsg then orelse (om_get byMessage (ms_id m)) [] else []),
       ms_text m, show_nat (countWords (ms_text m))])"

definition messages_flat :: "export_env \<Rightarrow> (stamp \<Rightarrow> int) \<Rightarrow> session list \<Rightarrow> string list list" where
  "messages_flat env rank sessions =
     messages_flat_header # concat (map (\<lambda>s.
       map (message_flat env s (member_index s) (interventionIdsByMessage rank s)) (se_messages s)) sessions)"

definition messagesFlatCsv :: "export_env \<Rightarrow> (stamp \<Rightarrow> int) \<Rightarrow> session list \<Rightarrow> string" where
  "messagesFlatCsv env rank sessions = toCsv (messages_flat env rank sessions)"

section \<open>ranking-rows.ts\<close>

datatype ranking_kind = Rank_Entry | Rank_Exit | Rank_Group_Edit | Rank_Group_Final

record ranking_row_export =
  kx_sessionPseudonym :: string
  kx_conditionId :: string
  kx_round :: int
  kx_type :: ranking_kind
  kx_participantPseudonym :: "string option"
  kx_editIndex :: "nat option"
  kx_timestamp :: "stamp option"
  kx_rankingCompleted :: "bool option"
  kx_error :: "int option"
  kx_order :: "string list"
  kx_ranks :: "(string \<times> nat option) list"

definition task_items :: "string list" where
  "task_items = map ri_id (rt_items MOON_SURVIVAL)"

definition ranksOf :: "string list \<Rightarrow> (string \<times> nat option) list" where
  "ranksOf order =
     foldl (\<lambda>ranks (index, i). if i \<in> fst ` set ranks then om_set i (Some (index + 1)) ranks else ranks)
       (map (\<lambda>i. (i, None)) task_items) (List.enumerate 0 order)"

definition editorPseudonym :: "export_env \<Rightarrow> session \<Rightarrow> string \<Rightarrow> string option" where
  "editorPseudonym env s updatedBy =
     (if updatedBy = [] \<or> updatedBy = ''system'' then None
      else Some (senderPseudonym (ex_hash env) s updatedBy))"

definition ranking_base :: "export_env \<Rightarrow> session \<Rightarrow> ranking_kind \<Rightarrow> string list \<Rightarrow> ranking_row_export" where
  "ranking_base env s kind order =
     \<lparr>kx_sessionPseudonym = session_pseudonym env s, kx_conditionId = cd_id (se_condition s),
      kx_round = se_roundId s, kx_type = kind, kx_participantPseudonym = None, kx_editIndex = None,
      kx_timestamp = None, kx_rankingCompleted = None, kx_error = rankingError (Some order),
      kx_order = order, kx_ranks = ranksOf order\<rparr>"

definition entry_ranking :: "export_env \<Rightarrow> session \<Rightarrow> participant \<Rightarrow> ranking_row_export list" where
  "entry_ranking env s p =
     (case rankingAnswer (pt_entrySurvey p) ''individualRanking'' of
        None \<Rightarrow> []
      | Some order \<Rightarrow>
          let completed = (scalarAnswer (pt_entrySurvey p) ''rankingCompleted'' = A_Bool True)
          in [(ranking_base env s Rank_Entry order)\<lparr>
                kx_participantPseudonym := Some (pseudonymize (ex_hash env) ''P'' (pt_id p)),
                kx_timestamp := map_option sv_submittedAt (pt_entrySurvey p),
                kx_rankingCompleted := Some completed,
                kx_error := (if completed then rankingError (Some order) else None)\<rparr>])"

definition exit_ranking :: "export_env \<Rightarrow> session \<Rightarrow> participant \<Rightarrow> ranking_row_export list" where
  "exit_ranking env s p =
     (case rankingAnswer (pt_exitSurvey p) ''finalRanking'' of
        None \<Rightarrow> []
      | Some order \<Rightarrow>
          let exitCompleted = scalarAnswer (pt_exitSurvey p) ''finalRankingCompleted''
          in [(ranking_base env s Rank_Exit order)\<lparr>
                kx_participantPseudonym := Some (pseudonymize (ex_hash env) ''P'' (pt_id p)),
                kx_timestamp := map_option sv_submittedAt (pt_exitSurvey p),
                kx_rankingCompleted := (case exitCompleted of A_Bool b \<Rightarrow> Some b | _ \<Rightarrow> None),
                kx_error := (if exitCompleted = A_Bool False then None else rankingError (Some order))\<rparr>])"

definition group_ranking ::
    "export_env \<Rightarrow> session \<Rightarrow> ranking_kind \<Rightarrow> nat option \<Rightarrow> ranking \<Rightarrow> ranking_row_export" where
  "group_ranking env s kind editIndex r =
     (ranking_base env s kind (rk_order r))\<lparr>
        kx_participantPseudonym := editorPseudonym env s (rk_updatedBy r),
        kx_editIndex := editIndex,
        kx_timestamp := (if rk_updatedAt r = Bad_Stamp [] then None else Some (rk_updatedAt r))\<rparr>"

definition rankingRows :: "export_env \<Rightarrow> session \<Rightarrow> ranking_row_export list" where
  "rankingRows env s =
     (if isEtherpad s then []
      else concat (map (\<lambda>p. entry_ranking env s p @ exit_ranking env s p) (se_participants s)) @
        map (\<lambda>(i, r). group_ranking env s Rank_Group_Edit (Some i) r) (List.enumerate 0 (se_rankingHistory s)) @
        [group_ranking env s Rank_Group_Final None (se_ranking s)])"

definition kind_text :: "ranking_kind \<Rightarrow> string" where
  "kind_text k = (case k of Rank_Entry \<Rightarrow> ''entry'' | Rank_Exit \<Rightarrow> ''exit''
     | Rank_Group_Edit \<Rightarrow> ''group-edit'' | Rank_Group_Final \<Rightarrow> ''group-final'')"

definition cell_int :: "int option \<Rightarrow> string" where
  "cell_int v = (case v of None \<Rightarrow> [] | Some k \<Rightarrow> show_int k)"

definition rankings_header :: "string list" where
  "rankings_header =
     [''session_pseudonym'', ''condition_id'', ''round'', ''type'', ''participant_pseudonym'',
      ''edit_index'', ''timestamp'', ''ranking_completed'', ''error''] @ task_items"

definition rankings_row :: "export_env \<Rightarrow> ranking_row_export \<Rightarrow> string list" where
  "rankings_row env r =
     [kx_sessionPseudonym r, kx_conditionId r, show_int (kx_round r), kind_text (kx_type r),
      orelse (kx_participantPseudonym r) [], cell_count (kx_editIndex r), stamp_text env (kx_timestamp r),
      cell_bool (kx_rankingCompleted r), cell_int (kx_error r)] @
     map (\<lambda>i. cell_count (Option.bind (om_get (kx_ranks r) i) (\<lambda>x. x))) task_items"

definition rankingsCsv :: "export_env \<Rightarrow> ranking_row_export list \<Rightarrow> string" where
  "rankingsCsv env rows = toCsv (rankings_header # map (rankings_row env) rows)"

section \<open>window-rows.ts\<close>

definition wasNudged :: "session \<Rightarrow> window_evaluation \<Rightarrow> string \<Rightarrow> bool" where
  "wasNudged s e userId =
     (truthy (we_interventionId e) \<and>
      (case find (\<lambda>i. Some (il_id i) = we_interventionId e) (se_interventions s) of
         None \<Rightarrow> False | Some i \<Rightarrow> list_ex (\<lambda>t. it_userId t = userId) (il_targets i)))"

definition is_candidate :: "window_evaluation \<Rightarrow> string \<Rightarrow> bool" where
  "is_candidate e userId = list_ex (\<lambda>t. it_userId t = userId) (we_candidateTargets e)"

definition window_outcome_text :: "window_outcome \<Rightarrow> string" where
  "window_outcome_text oc = (case oc of Nudged \<Rightarrow> ''nudged'' | No_Target \<Rightarrow> ''no-target''
     | Baseline_Suppressed \<Rightarrow> ''baseline-suppressed'' | Warm_Up \<Rightarrow> ''warm-up'' | Wrap_Up \<Rightarrow> ''wrap-up''
     | Too_Few_Participants \<Rightarrow> ''too-few-participants'')"

record share_export =
  hx_participantPseudonym :: string
  hx_share :: contribution_share
  hx_isCandidateTarget :: bool
  hx_wasNudged :: bool

record window_export =
  wx_sessionPseudonym :: string
  wx_conditionId :: string
  wx_round :: int
  wx_interventionMode :: string
  wx_evaluation :: window_evaluation
  wx_interventionFired :: bool
  wx_contributionSplit :: "share_export list"

definition share_row :: "export_env \<Rightarrow> session \<Rightarrow> window_evaluation \<Rightarrow> contribution_share \<Rightarrow> share_export" where
  "share_row env s e c =
     \<lparr>hx_participantPseudonym = senderPseudonym (ex_hash env) s (cs_userId c), hx_share = c,
      hx_isCandidateTarget = is_candidate e (cs_userId c), hx_wasNudged = wasNudged s e (cs_userId c)\<rparr>"

definition windowRows :: "export_env \<Rightarrow> session list \<Rightarrow> window_export list" where
  "windowRows env sessions =
     concat (map (\<lambda>s. map (\<lambda>e.
       \<lparr>wx_sessionPseudonym = session_pseudonym env s, wx_conditionId = we_conditionId e,
        wx_round = se_roundId s, wx_interventionMode = interventionModeOf s, wx_evaluation = e,
        wx_interventionFired = (we_outcome e = Nudged),
        wx_contributionSplit = map (share_row env s e) (we_contributionSplit e)\<rparr>)
       (se_windowEvaluations s)) sessions)"

definition windows_header :: "string list" where
  "windows_header =
     [''session_pseudonym'', ''condition_id'', ''round'', ''intervention_mode'', ''llm_mode'',
      ''window_index'', ''window_start'', ''window_end'', ''window_minutes'', ''threshold'', ''outcome'',
      ''max_dominance_score'', ''intervention_fired'', ''participant_pseudonym'', ''message_count'',
      ''word_count'', ''invitation_count'', ''score'', ''share'', ''meaningfulness_score'',
      ''dominance_score'', ''is_candidate_target'', ''was_nudged'']"

definition window_cells :: "export_env \<Rightarrow> session \<Rightarrow> window_evaluation \<Rightarrow> string list" where
  "window_cells env s e =
     [session_pseudonym env s, cd_id (se_condition s), show_int (se_roundId s), interventionModeOf s,
      llm_name (we_llmMode e), show_int (we_windowIndex e), ex_stamp env (we_windowStart e),
      ex_stamp env (we_windowEnd e), rat_text env (we_contributionWindowMinutes e),
      rat_text env (we_threshold e), window_outcome_text (we_outcome e),
      cell_number (ex_num env) (we_maxDominanceScore e), bool_text (we_outcome e = Nudged)]"

definition share_cells :: "export_env \<Rightarrow> session \<Rightarrow> window_evaluation \<Rightarrow> contribution_share \<Rightarrow> string list" where
  "share_cells env s e c =
     [senderPseudonym (ex_hash env) s (cs_userId c), show_nat (cs_messageCount c), show_nat (cs_wordCount c),
      cell_count (cs_invitationCount c), rat_text env (cs_score c), rat_text env (cs_share c),
      rat_text env (cs_meaningfulnessScore c), rat_text env (cs_dominanceScore c),
      bool_text (is_candidate e (cs_userId c)), bool_text (wasNudged s e (cs_userId c))]"

definition window_rows :: "export_env \<Rightarrow> session \<Rightarrow> window_evaluation \<Rightarrow> string list list" where
  "window_rows env s e =
     (if we_contributionSplit e = [] then [window_cells env s e @ replicate 10 []]
      else map (\<lambda>c. window_cells env s e @ share_cells env s e c) (we_contributionSplit e))"

definition windows_table :: "export_env \<Rightarrow> session list \<Rightarrow> string list list" where
  "windows_table env sessions =
     windows_header # concat (map (\<lambda>s. concat (map (window_rows env s) (se_windowEvaluations s))) sessions)"

definition windowsCsv :: "export_env \<Rightarrow> session list \<Rightarrow> string" where
  "windowsCsv env sessions = toCsv (windows_table env sessions)"

section \<open>session-rows.ts\<close>

record session_analysis =
  sn_sessionPseudonym :: string
  sn_conditionId :: string
  sn_conditionName :: string
  sn_round :: int
  sn_interventionMode :: string
  sn_llmMode :: string
  sn_status :: session_status
  sn_nParticipants :: nat
  sn_groupSize :: rat
  sn_createdAt :: stamp
  sn_startedAt :: "stamp option"
  sn_completedAt :: "stamp option"
  sn_plannedDurationMinutes :: rat
  sn_groupRankingError :: "int option"
  sn_rankingEditCount :: "nat option"
  sn_participantMessageCount :: nat
  sn_botMessageCount :: nat
  sn_wordCountTotal :: nat
  sn_shareStdDev :: "rat option"
  sn_shareGini :: "rat option"
  sn_interventionCount :: nat
  sn_interventionsPublic :: nat
  sn_interventionsPrivate :: nat
  sn_windowsEvaluated :: nat
  sn_windowsNudged :: nat
  sn_windowsNoTarget :: nat
  sn_windowsBaselineSuppressed :: nat
  sn_classificationCount :: nat
  sn_classificationFailureCount :: nat
  sn_entrySurveys :: nat
  sn_exitSurveys :: nat
  sn_meanSatisfaction :: "rat option"
  sn_meanFairness :: "rat option"
  sn_meanFeltHeard :: "rat option"

abbreviation count_where :: "('a \<Rightarrow> bool) \<Rightarrow> 'a list \<Rightarrow> nat" where
  "count_where P xs \<equiv> length (filter P xs)"

definition message_words :: "message list \<Rightarrow> nat" where
  "message_words messages = foldl (\<lambda>sum m. sum + countWords (ms_text m)) 0 messages"

text \<open>The numbers of a stored survey are finite.\<close>

definition exitScale :: "survey list \<Rightarrow> string \<Rightarrow> rat option" where
  "exitScale exitSurveys key =
     meanOf (map (\<lambda>v. case scalarAnswer (Some v) key of A_Num (Num r) \<Rightarrow> Some r | _ \<Rightarrow> None) exitSurveys)"

definition sessionRow :: "export_env \<Rightarrow> session \<Rightarrow> session_analysis" where
  "sessionRow env s =
     (let participantMessages = filter (\<lambda>m. \<not> isServiceUser (ms_senderId m)) (se_messages s);
          scores = contributionScores s;
          windows = se_windowEvaluations s;
          exitSurveys = map the (filter (\<lambda>v. v \<noteq> None) (map pt_exitSurvey (se_participants s)))
      in \<lparr>sn_sessionPseudonym = session_pseudonym env s, sn_conditionId = cd_id (se_condition s),
          sn_conditionName = cd_name (se_condition s), sn_round = se_roundId s,
          sn_interventionMode = interventionModeOf s, sn_llmMode = llmModeOf s, sn_status = se_status s,
          sn_nParticipants = length (se_participants s), sn_groupSize = cd_groupSize (se_condition s),
          sn_createdAt = se_createdAt s, sn_startedAt = se_startedAt s, sn_completedAt = se_completedAt s,
          sn_plannedDurationMinutes = se_durationMinutes s,
          sn_groupRankingError = (if isEtherpad s then None else rankingError (Some (rk_order (se_ranking s)))),
          sn_rankingEditCount = (if isEtherpad s then None else Some (length (se_rankingHistory s))),
          sn_participantMessageCount = length participantMessages,
          sn_botMessageCount = length (se_messages s) - length participantMessages,
          sn_wordCountTotal = message_words participantMessages,
          sn_shareStdDev = map_option round4 (shareStdDev (ex_sqrt env) scores),
          sn_shareGini = map_option round4 (gini scores),
          sn_interventionCount = length (se_interventions s),
          sn_interventionsPublic = count_where (\<lambda>i. il_audience i = Aud_Public) (se_interventions s),
          sn_interventionsPrivate = count_where (\<lambda>i. il_audience i = Aud_Private) (se_interventions s),
          sn_windowsEvaluated = length windows,
          sn_windowsNudged = count_where (\<lambda>w. we_outcome w = Nudged) windows,
          sn_windowsNoTarget = count_where (\<lambda>w. we_outcome w = No_Target) windows,
          sn_windowsBaselineSuppressed = count_where (\<lambda>w. we_outcome w = Baseline_Suppressed) windows,
          sn_classificationCount = length (se_contributionClassifications s),
          sn_classificationFailureCount = length (se_classificationFailures s),
          sn_entrySurveys = count_where (\<lambda>p. pt_entrySurvey p \<noteq> None) (se_participants s),
          sn_exitSurveys = length exitSurveys,
          sn_meanSatisfaction = map_option round4 (exitScale exitSurveys ''satisfaction''),
          sn_meanFairness = map_option round4 (exitScale exitSurveys ''fairness''),
          sn_meanFeltHeard = map_option round4 (exitScale exitSurveys ''feltHeard'')\<rparr>)"

definition analysis_header :: "string list" where
  "analysis_header =
     [''session_pseudonym'', ''condition_id'', ''condition_name'', ''round'', ''intervention_mode'',
      ''llm_mode'', ''status'', ''n_participants'', ''group_size'', ''created_at'', ''started_at'',
      ''completed_at'', ''planned_duration_minutes'', ''group_ranking_error'', ''ranking_edit_count'',
      ''participant_message_count'', ''bot_message_count'', ''word_count_total'', ''share_std_dev'',
      ''share_gini'', ''intervention_count'', ''interventions_public'', ''interventions_private'',
      ''windows_evaluated'', ''windows_nudged'', ''windows_no_target'', ''windows_baseline_suppressed'',
      ''classification_count'', ''classification_failure_count'', ''entry_surveys'', ''exit_surveys'',
      ''mean_satisfaction'', ''mean_fairness'', ''mean_felt_heard'']"

definition analysis_row :: "export_env \<Rightarrow> session_analysis \<Rightarrow> string list" where
  "analysis_row env r =
     [sn_sessionPseudonym r, sn_conditionId r, sn_conditionName r, show_int (sn_round r),
      sn_interventionMode r, sn_llmMode r, status_text (sn_status r), show_nat (sn_nParticipants r),
      rat_text env (sn_groupSize r), ex_stamp env (sn_createdAt r), stamp_text env (sn_startedAt r),
      stamp_text env (sn_completedAt r), rat_text env (sn_plannedDurationMinutes r),
      cell_int (sn_groupRankingError r), cell_count (sn_rankingEditCount r),
      show_nat (sn_participantMessageCount r), show_nat (sn_botMessageCount r),
      show_nat (sn_wordCountTotal r), cell_number (ex_num env) (sn_shareStdDev r),
      cell_number (ex_num env) (sn_shareGini r), show_nat (sn_interventionCount r),
      show_nat (sn_interventionsPublic r), show_nat (sn_interventionsPrivate r),
      show_nat (sn_windowsEvaluated r), show_nat (sn_windowsNudged r), show_nat (sn_windowsNoTarget r),
      show_nat (sn_windowsBaselineSuppressed r), show_nat (sn_classificationCount r),
      show_nat (sn_classificationFailureCount r), show_nat (sn_entrySurveys r),
      show_nat (sn_exitSurveys r), cell_number (ex_num env) (sn_meanSatisfaction r),
      cell_number (ex_num env) (sn_meanFairness r), cell_number (ex_num env) (sn_meanFeltHeard r)]"

definition sessionsAnalysisCsv :: "export_env \<Rightarrow> session_analysis list \<Rightarrow> string" where
  "sessionsAnalysisCsv env rows = toCsv (analysis_header # map (analysis_row env) rows)"

section \<open>participant-rows.ts\<close>

text \<open>
  The row of the participant at position \<open>k\<close> of a session.
\<close>

record participant_export =
  px_participantPseudonym :: string
  px_sessionPseudonym :: string
  px_conditionId :: string
  px_conditionName :: string
  px_round :: int
  px_interventionMode :: string
  px_llmMode :: string
  px_sessionStatus :: session_status
  px_groupSize :: rat
  px_recruitmentSource :: recruitment_source
  px_startedAt :: "stamp option"
  px_entrySubmitted :: "bool option"
  px_age :: answer
  px_agePreferNotToSay :: answer
  px_gender :: answer
  px_genderCustom :: answer
  px_education :: answer
  px_educationOther :: answer
  px_fieldOfStudy :: answer
  px_englishProficiency :: answer
  px_gaais :: "answer list"
  px_tipi :: "answer list"
  px_teamworkFrequency :: answer
  px_chatComfort :: answer
  px_topicFamiliarity :: answer
  px_spaceflightFamiliarity :: answer
  px_survivalFamiliarity :: answer
  px_individualRankingCompleted :: answer
  px_individualRankingSecondsUsed :: answer
  px_individualRankingError :: "int option"
  px_exitSubmitted :: "bool option"
  px_exitRankingCompleted :: answer
  px_exitRankingTimedOut :: answer
  px_exitRankingSecondsUsed :: answer
  px_exitRankingError :: "int option"
  px_satisfaction :: answer
  px_fairness :: answer
  px_feltHeard :: answer
  px_taskConfidence :: answer
  px_groupDynamics :: "answer list"
  px_psychSafety :: "answer list"
  px_botPerception :: "answer list"
  px_debriefFeedback :: answer
  px_messageCount :: nat
  px_wordCount :: nat
  px_characterCount :: nat
  px_contributionShare :: "rat option"
  px_meaningfulnessScoreMean :: "rat option"
  px_classifiedMessageCount :: nat
  px_nudgesReceivedTotal :: nat
  px_nudgesReceivedPublic :: nat
  px_nudgesReceivedPrivate :: nat
  px_typingDurationMs :: rat
  px_tabHiddenCount :: nat
  px_rankingMoveCount :: "nat option"

definition share_of_total :: "rat list \<Rightarrow> nat \<Rightarrow> rat option" where
  "share_of_total scores k =
     (let total = sum_list scores
      in if 0 < total \<and> k < length scores then Some (round4 (scores ! k / total)) else None)"

definition numbered_answers :: "survey option \<Rightarrow> string \<Rightarrow> answer list" where
  "numbered_answers sv key = map (\<lambda>i. scalarAnswer sv (key @ show_nat (i + 1))) [0..<10]"

definition participantRow :: "export_env \<Rightarrow> session \<Rightarrow> nat \<Rightarrow> participant_export" where
  "participantRow env s k =
     (let p = se_participants s ! k; entry = pt_entrySurvey p; exit = pt_exitSurvey p;
          mine = (\<lambda>i. pt_matrixUserId p = Some i);
          messages = filter (\<lambda>m. mine (ms_senderId m)) (se_messages s);
          classifications = filter (\<lambda>c. mine (cc_senderId c)) (se_contributionClassifications s);
          nudges = filter (\<lambda>i. list_ex (\<lambda>t. mine (it_userId t)) (il_targets i)) (se_interventions s);
          behavior = (\<lambda>t. filter (\<lambda>e. mine (be_participantId e) \<and> be_type e = t) (se_behavioralEvents s));
          unless_pad = (\<lambda>v. if isEtherpad s then A_Null else v);
          rankingCompleted = unless_pad (scalarAnswer entry ''rankingCompleted'');
          exitRankingCompleted = unless_pad (scalarAnswer exit ''finalRankingCompleted'')
      in \<lparr>px_participantPseudonym = pseudonymize (ex_hash env) ''P'' (pt_id p),
          px_sessionPseudonym = session_pseudonym env s, px_conditionId = cd_id (se_condition s),
          px_conditionName = cd_name (se_condition s), px_round = se_roundId s,
          px_interventionMode = interventionModeOf s, px_llmMode = llmModeOf s,
          px_sessionStatus = se_status s, px_groupSize = cd_groupSize (se_condition s),
          px_recruitmentSource = pt_recruitmentSource p, px_startedAt = se_startedAt s,
          px_entrySubmitted = (if entry \<noteq> None then Some True else None),
          px_age = scalarAnswer entry ''age'',
          px_agePreferNotToSay = scalarAnswer entry ''agePreferNotToSay'',
          px_gender = scalarAnswer entry ''gender'',
          px_genderCustom = scalarAnswer entry ''genderCustom'',
          px_education = scalarAnswer entry ''education'',
          px_educationOther = scalarAnswer entry ''educationOther'',
          px_fieldOfStudy = scalarAnswer entry ''fieldOfStudy'',
          px_englishProficiency = scalarAnswer entry ''englishProficiency'',
          px_gaais = numbered_answers entry ''gaais'',
          px_tipi = numbered_answers entry ''tipi'',
          px_teamworkFrequency = scalarAnswer entry ''teamworkFrequency'',
          px_chatComfort = scalarAnswer entry ''chatComfort'',
          px_topicFamiliarity = scalarAnswer entry ''topicFamiliarity'',
          px_spaceflightFamiliarity = scalarAnswer entry ''spaceflightFamiliarity'',
          px_survivalFamiliarity = scalarAnswer entry ''survivalFamiliarity'',
          px_individualRankingCompleted = rankingCompleted,
          px_individualRankingSecondsUsed = unless_pad (scalarAnswer entry ''rankingSecondsUsed''),
          px_individualRankingError =
            (if rankingCompleted = A_Bool True then rankingError (rankingAnswer entry ''individualRanking'')
             else None),
          px_exitSubmitted = (if exit \<noteq> None then Some True else None),
          px_exitRankingCompleted = exitRankingCompleted,
          px_exitRankingTimedOut = unless_pad (scalarAnswer exit ''finalRankingTimedOut''),
          px_exitRankingSecondsUsed = unless_pad (scalarAnswer exit ''exitRankingSecondsUsed''),
          px_exitRankingError =
            (if isEtherpad s \<or> exitRankingCompleted = A_Bool False then None
             else rankingError (rankingAnswer exit ''finalRanking'')),
          px_satisfaction = scalarAnswer exit ''satisfaction'',
          px_fairness = scalarAnswer exit ''fairness'',
          px_feltHeard = scalarAnswer exit ''feltHeard'',
          px_taskConfidence = scalarAnswer exit ''taskConfidence'',
          px_groupDynamics = map (scalarAnswer exit) GROUP_DYNAMICS_KEYS,
          px_psychSafety = map (scalarAnswer exit) PSYCH_SAFETY_KEYS,
          px_botPerception = map (scalarAnswer exit) BOT_PERCEPTION_KEYS,
          px_debriefFeedback = scalarAnswer exit ''debriefFeedback'',
          px_messageCount = length messages,
          px_wordCount = message_words messages,
          px_characterCount = foldl (\<lambda>sum m. sum + length (ms_text m)) 0 messages,
          px_contributionShare = share_of_total (contributionScores s) k,
          px_meaningfulnessScoreMean = map_option round4 (meanMeaningfulnessScore classifications),
          px_classifiedMessageCount = length classifications,
          px_nudgesReceivedTotal = length nudges,
          px_nudgesReceivedPublic = count_where (\<lambda>n. il_audience n = Aud_Public) nudges,
          px_nudgesReceivedPrivate = count_where (\<lambda>n. il_audience n = Aud_Private) nudges,
          px_typingDurationMs = foldl (\<lambda>sum e. sum + orelse (be_durationMs e) 0) 0 (behavior Bt_Typing_Stop),
          px_tabHiddenCount = length (behavior Bt_Tab_Hidden),
          px_rankingMoveCount = (if isEtherpad s then None else Some (length (behavior Bt_Ranking_Move)))\<rparr>)"

definition participantRows :: "export_env \<Rightarrow> session list \<Rightarrow> participant_export list" where
  "participantRows env sessions =
     concat (map (\<lambda>s. map (participantRow env s) [0..<length (se_participants s)]) sessions)"

definition participants_header :: "string list" where
  "participants_header =
     [''participant_pseudonym'', ''session_pseudonym'', ''condition_id'', ''condition_name'', ''round'',
      ''intervention_mode'', ''llm_mode'', ''session_status'', ''group_size'', ''recruitment_source'',
      ''started_at'', ''entry_submitted'', ''age'', ''age_prefer_not_to_say'', ''gender'',
      ''gender_custom'', ''education'', ''education_other'', ''field_of_study'', ''english_proficiency'',
      ''gaais1'', ''gaais2'', ''gaais3'', ''gaais4'', ''gaais5'', ''gaais6'', ''gaais7'', ''gaais8'',
      ''gaais9'', ''gaais10'', ''tipi1'', ''tipi2'', ''tipi3'', ''tipi4'', ''tipi5'', ''tipi6'', ''tipi7'',
      ''tipi8'', ''tipi9'', ''tipi10'', ''teamwork_frequency'', ''chat_comfort'', ''topic_familiarity'',
      ''spaceflight_familiarity'', ''survival_familiarity'', ''individual_ranking_completed'',
      ''individual_ranking_seconds_used'', ''individual_ranking_error'', ''exit_submitted'',
      ''exit_ranking_completed'', ''exit_ranking_timed_out'', ''exit_ranking_seconds_used'',
      ''exit_ranking_error'', ''satisfaction'', ''fairness'', ''felt_heard'', ''task_confidence'',
      ''group_considered'', ''group_balanced'', ''attention_check_1'', ''group_dominated'', ''felt_team'',
      ''comfortable_again'', ''safe_speak_up'', ''raise_concerns'', ''contradicted'',
      ''attention_check_2'', ''contribution_serious'', ''contribution_influenced'', ''held_back'',
      ''bot_intrusive'', ''bot_helpful'', ''bot_appropriate'', ''bot_observed'', ''bot_support'',
      ''debrief_feedback'', ''message_count'', ''word_count'', ''character_count'',
      ''contribution_share'', ''meaningfulness_score_mean'', ''classified_message_count'',
      ''nudges_received_total'', ''nudges_received_public'', ''nudges_received_private'',
      ''typing_duration_ms'', ''tab_hidden_count'', ''ranking_move_count'']"

definition participants_row :: "export_env \<Rightarrow> participant_export \<Rightarrow> string list" where
  "participants_row env r =
     (let c = cell (ex_num env) in
      [px_participantPseudonym r, px_sessionPseudonym r, px_conditionId r, px_conditionName r,
       show_int (px_round r), px_interventionMode r, px_llmMode r, status_text (px_sessionStatus r),
       rat_text env (px_groupSize r), source_text (px_recruitmentSource r), stamp_text env (px_startedAt r),
       cell_bool (px_entrySubmitted r), c (px_age r), c (px_agePreferNotToSay r), c (px_gender r),
       c (px_genderCustom r), c (px_education r), c (px_educationOther r), c (px_fieldOfStudy r),
       c (px_englishProficiency r)] @ map c (px_gaais r) @ map c (px_tipi r) @
      [c (px_teamworkFrequency r), c (px_chatComfort r), c (px_topicFamiliarity r),
       c (px_spaceflightFamiliarity r), c (px_survivalFamiliarity r), c (px_individualRankingCompleted r),
       c (px_individualRankingSecondsUsed r), cell_int (px_individualRankingError r),
       cell_bool (px_exitSubmitted r), c (px_exitRankingCompleted r), c (px_exitRankingTimedOut r),
       c (px_exitRankingSecondsUsed r), cell_int (px_exitRankingError r), c (px_satisfaction r),
       c (px_fairness r), c (px_feltHeard r), c (px_taskConfidence r)] @ map c (px_groupDynamics r) @
      map c (px_psychSafety r) @ map c (px_botPerception r) @
      [c (px_debriefFeedback r), show_nat (px_messageCount r), show_nat (px_wordCount r),
       show_nat (px_characterCount r), cell_number (ex_num env) (px_contributionShare r),
       cell_number (ex_num env) (px_meaningfulnessScoreMean r), show_nat (px_classifiedMessageCount r),
       show_nat (px_nudgesReceivedTotal r), show_nat (px_nudgesReceivedPublic r),
       show_nat (px_nudgesReceivedPrivate r), rat_text env (px_typingDurationMs r),
       show_nat (px_tabHiddenCount r), cell_count (px_rankingMoveCount r)])"

definition participantsCsv :: "export_env \<Rightarrow> participant_export list \<Rightarrow> string" where
  "participantsCsv env rows = toCsv (participants_header # map (participants_row env) rows)"

section \<open>Lemmas: messages and interventions\<close>

definition queue_of :: "(string \<times> intervention_log list) list \<Rightarrow> string \<Rightarrow> intervention_log list" where
  "queue_of queues t = orelse (om_get queues t) []"

lemma queue_of_set: "queue_of (om_set t q queues) u = (if u = t then q else queue_of queues u)"
  by (simp add: queue_of_def update_conv)

lemma queues_by_text:
  "queue_of (intervention_queues rank s) t =
     filter (\<lambda>i. il_message i = t) (sort_key (\<lambda>i. rank (il_timestamp i)) (se_interventions s))"
proof -
  have "queue_of (foldl (\<lambda>m i. om_set (il_message i) (orelse (om_get m (il_message i)) [] @ [i]) m) m xs) t =
      queue_of m t @ filter (\<lambda>i. il_message i = t) xs" for m and xs :: "intervention_log list"
  proof (induction xs arbitrary: m)
    case (Cons i xs)
    show ?case using Cons.IH [of "om_set (il_message i) (orelse (om_get m (il_message i)) [] @ [i]) m"]
      by (simp add: queue_of_set queue_of_def update_conv)
  qed simp
  from this [of "[]"] show ?thesis by (simp add: intervention_queues_def queue_of_def)
qed

lemma pair_message_cases:
  "pair_message (queues, matched) m = (queues, matched) \<and>
     (isServiceUser (ms_senderId m) \<longrightarrow> queue_of queues (ms_text m) = []) \<or>
   isServiceUser (ms_senderId m) \<and>
   (\<exists>before i after. queue_of queues (ms_text m) = before @ i # after \<and>
      pair_message (queues, matched) m =
        (om_set (ms_text m) (before @ after) queues, om_set (ms_id m) (il_id i) matched))"
proof (cases "isServiceUser (ms_senderId m) \<and> queue_of queues (ms_text m) \<noteq> []")
  case False
  then show ?thesis by (auto simp: pair_message_def queue_of_def split: option.split)
next
  case True
  then obtain q where q: "om_get queues (ms_text m) = Some q" "q \<noteq> []"
    by (cases "om_get queues (ms_text m)") (auto simp: queue_of_def)
  define k where "k = orelse (find_index (fits_message m) q) 0"
  have "k < length q" using q(2) find_index_Some [of "fits_message m" q]
    by (cases "find_index (fits_message m) q") (simp_all add: k_def)
  then have "q = take k q @ q ! k # drop (Suc k) q" by (rule id_take_nth_drop)
  moreover have "pair_message (queues, matched) m =
      (om_set (ms_text m) (take k q @ drop (Suc k) q) queues, om_set (ms_id m) (il_id (q ! k)) matched)"
    using True q by (simp add: pair_message_def k_def Let_def)
  ultimately show ?thesis using True q(1) by (auto simp: queue_of_def)
qed

text \<open>The pairs made so far, after the messages \<open>seen\<close>.\<close>

definition queues_ok :: "session \<Rightarrow> (string \<times> intervention_log list) list \<Rightarrow> (string \<times> string) list \<Rightarrow> bool" where
  "queues_ok s queues matched =
     ((\<forall>t. distinct (queue_of queues t) \<and>
         (\<forall>i\<in>set (queue_of queues t). i \<in> set (se_interventions s) \<and> il_message i = t \<and> il_id i \<notin> snd ` set matched)) \<and>
      (\<forall>i\<in>set (se_interventions s). i \<in> set (queue_of queues (il_message i)) \<or> il_id i \<in> snd ` set matched))"

definition pairs_ok :: "session \<Rightarrow> message list \<Rightarrow> (string \<times> string) list \<Rightarrow> bool" where
  "pairs_ok s seen matched =
     (distinct (map fst matched) \<and> distinct (map snd matched) \<and>
      (\<forall>(mid, iid)\<in>set matched. \<exists>m\<in>set seen. \<exists>i\<in>set (se_interventions s).
         ms_id m = mid \<and> il_id i = iid \<and> isServiceUser (ms_senderId m) \<and> ms_text m = il_message i))"

definition alone_ok :: "message list \<Rightarrow> (string \<times> intervention_log list) list \<Rightarrow> (string \<times> string) list \<Rightarrow> bool" where
  "alone_ok seen queues matched =
     (\<forall>m\<in>set seen. isServiceUser (ms_senderId m) \<longrightarrow>
         ms_id m \<in> fst ` set matched \<or> queue_of queues (ms_text m) = [])"

definition paired_ok ::
    "session \<Rightarrow> message list \<Rightarrow> (string \<times> intervention_log list) list \<Rightarrow> (string \<times> string) list \<Rightarrow> bool" where
  "paired_ok s seen queues matched =
     (queues_ok s queues matched \<and> pairs_ok s seen matched \<and> alone_ok seen queues matched)"

lemma pairs_ok_mono: "pairs_ok s seen matched \<Longrightarrow> set seen \<subseteq> set seen' \<Longrightarrow> pairs_ok s seen' matched"
  unfolding pairs_ok_def by fast

lemma pairs_ok_seen: "pairs_ok s seen matched \<Longrightarrow> fst ` set matched \<subseteq> ms_id ` set seen"
  unfolding pairs_ok_def by fastforce

lemma paired_start:
  assumes "distinct (map il_id (se_interventions s))"
  shows "paired_ok s [] (intervention_queues rank s) []"
proof -
  have "distinct (sort_key (\<lambda>i. rank (il_timestamp i)) (se_interventions s))"
    using assms by (simp add: distinct_map)
  then show ?thesis by (simp add: paired_ok_def queues_ok_def pairs_ok_def alone_ok_def queues_by_text)
qed

lemma taken_queues:
  assumes ids: "distinct (map il_id (se_interventions s))" and ok: "queues_ok s queues matched"
    and q: "queue_of queues t = before @ i # after"
  shows "queues_ok s (om_set t (before @ after) queues) (matched @ [(mid, il_id i)])"
proof -
  let ?q = "om_set t (before @ after) queues"
  have qs: "distinct (queue_of queues u)"
    "j \<in> set (queue_of queues u) \<Longrightarrow> j \<in> set (se_interventions s) \<and> il_message j = u \<and> il_id j \<notin> snd ` set matched"
    for u j using ok unfolding queues_ok_def by blast+
  have i: "i \<in> set (se_interventions s)" "il_message i = t" using qs(2) [of i t] q by simp_all
  have rest: "distinct (before @ after)" "i \<notin> set (before @ after)"
    using qs(1) [of t] q by auto
  have sub: "set (queue_of ?q u) \<subseteq> set (queue_of queues u)" for u by (auto simp: queue_of_set q)
  have other: "il_id j \<noteq> il_id i" if "j \<in> set (queue_of ?q u)" for j u
  proof -
    have j: "j \<in> set (se_interventions s)" "il_message j = u" using qs(2) [of j u] sub [of u] that by auto
    moreover have "j \<noteq> i" using that rest i(2) j(2) by (auto simp: queue_of_set split: if_splits)
    ultimately show ?thesis using ids i(1) by (auto simp: distinct_map dest: inj_onD)
  qed
  show ?thesis unfolding queues_ok_def
  proof (intro conjI allI ballI)
    show "distinct (queue_of ?q u)" for u using qs(1) [of u] rest by (simp add: queue_of_set)
    show "j \<in> set (se_interventions s)" "il_message j = u" "il_id j \<notin> snd ` set (matched @ [(mid, il_id i)])"
      if "j \<in> set (queue_of ?q u)" for j u
      using that sub [of u] qs(2) [of j u] other [of j u] by auto
    show "j \<in> set (queue_of ?q (il_message j)) \<or> il_id j \<in> snd ` set (matched @ [(mid, il_id i)])"
      if j: "j \<in> set (se_interventions s)" for j
    proof -
      have "j \<in> set (queue_of queues (il_message j)) \<or> il_id j \<in> snd ` set matched"
        using ok j unfolding queues_ok_def by blast
      then show ?thesis using q by (auto simp: queue_of_set)
    qed
  qed
qed

lemma paired_step:
  assumes ids: "distinct (map il_id (se_interventions s))" and fresh: "ms_id m \<notin> ms_id ` set seen"
    and ok: "paired_ok s seen queues matched"
  shows "paired_ok s (seen @ [m]) (fst (pair_message (queues, matched) m)) (snd (pair_message (queues, matched) m))"
proof -
  have oks: "queues_ok s queues matched" "pairs_ok s seen matched" "alone_ok seen queues matched"
    using ok by (simp_all add: paired_ok_def)
  have seen: "pairs_ok s (seen @ [m]) matched" using oks(2) by (rule pairs_ok_mono) auto
  show ?thesis using pair_message_cases [of queues matched m]
  proof (elim disjE conjE exE)
    assume "pair_message (queues, matched) m = (queues, matched)"
      and "isServiceUser (ms_senderId m) \<longrightarrow> queue_of queues (ms_text m) = []"
    with oks seen show ?thesis by (simp add: paired_ok_def alone_ok_def)
  next
    fix before i after
    assume bot: "isServiceUser (ms_senderId m)"
      and q: "queue_of queues (ms_text m) = before @ i # after"
      and p: "pair_message (queues, matched) m =
        (om_set (ms_text m) (before @ after) queues, om_set (ms_id m) (il_id i) matched)"
    have "i \<in> set (queue_of queues (ms_text m))" by (simp add: q)
    then have i: "i \<in> set (se_interventions s)" "il_message i = ms_text m" "il_id i \<notin> snd ` set matched"
      using oks(1) unfolding queues_ok_def by blast+
    have new: "ms_id m \<notin> fst ` set matched" using fresh pairs_ok_seen [OF oks(2)] by blast
    have "pairs_ok s (seen @ [m]) (matched @ [(ms_id m, il_id i)])"
      using seen i bot new by (auto simp: pairs_ok_def)
    moreover have "alone_ok (seen @ [m]) (om_set (ms_text m) (before @ after) queues) (matched @ [(ms_id m, il_id i)])"
      using oks(3) q by (auto simp: alone_ok_def queue_of_set)
    ultimately show ?thesis
      using taken_queues [OF ids oks(1) q, of "ms_id m"] om_set_fresh [OF new] by (simp add: p paired_ok_def)
  qed
qed

lemma paired_messages:
  assumes "distinct (map il_id (se_interventions s))" and "distinct (map ms_id (seen @ rest))"
    and "paired_ok s seen (fst acc) (snd acc)"
  shows "paired_ok s (seen @ rest) (fst (foldl pair_message acc rest)) (snd (foldl pair_message acc rest))"
  using assms(2,3)
proof (induction rest arbitrary: seen acc)
  case (Cons m rest)
  have "paired_ok s (seen @ [m]) (fst (pair_message acc m)) (snd (pair_message acc m))"
    using paired_step [OF assms(1), of m seen "fst acc" "snd acc"] Cons.prems by simp
  with Cons.IH [of "seen @ [m]" "pair_message acc m"] Cons.prems(1) show ?case by simp
qed simp

text \<open>
  The messages of the bot are paired with the interventions they delivered: no message and no
  intervention is paired twice, a pair has one text, and a message of the bot stays alone only where
  every intervention with its text is paired with another message.
\<close>

theorem interventions_paired_once:
  assumes "distinct (map il_id (se_interventions s))" and "distinct (map ms_id (se_messages s))"
  shows "distinct (map fst (interventionIdsByMessage rank s)) \<and> distinct (map snd (interventionIdsByMessage rank s)) \<and>
    (\<forall>(mid, iid)\<in>set (interventionIdsByMessage rank s). \<exists>m\<in>set (se_messages s). \<exists>i\<in>set (se_interventions s).
       ms_id m = mid \<and> il_id i = iid \<and> isServiceUser (ms_senderId m) \<and> ms_text m = il_message i) \<and>
    (\<forall>m\<in>set (se_messages s). \<forall>i\<in>set (se_interventions s).
       isServiceUser (ms_senderId m) \<and> ms_text m = il_message i \<longrightarrow>
       ms_id m \<in> fst ` set (interventionIdsByMessage rank s) \<or> il_id i \<in> snd ` set (interventionIdsByMessage rank s))"
proof -
  let ?paired = "foldl pair_message (intervention_queues rank s, []) (se_messages s)"
  have ok: "paired_ok s (se_messages s) (fst ?paired) (interventionIdsByMessage rank s)"
    using paired_messages [OF assms(1), of "[]" "se_messages s" "(intervention_queues rank s, [])"] assms(2)
      paired_start [OF assms(1)] by (simp add: interventionIdsByMessage_def)
  have "\<forall>m\<in>set (se_messages s). \<forall>i\<in>set (se_interventions s).
       isServiceUser (ms_senderId m) \<and> ms_text m = il_message i \<longrightarrow>
       ms_id m \<in> fst ` set (interventionIdsByMessage rank s) \<or> il_id i \<in> snd ` set (interventionIdsByMessage rank s)"
  proof (intro ballI impI)
    fix m i assume m: "m \<in> set (se_messages s)" "isServiceUser (ms_senderId m) \<and> ms_text m = il_message i"
      and i: "i \<in> set (se_interventions s)"
    have "ms_id m \<in> fst ` set (interventionIdsByMessage rank s) \<or> queue_of (fst ?paired) (il_message i) = []"
      using ok m unfolding paired_ok_def alone_ok_def by metis
    moreover have "i \<in> set (queue_of (fst ?paired) (il_message i)) \<or> il_id i \<in> snd ` set (interventionIdsByMessage rank s)"
      using ok i unfolding paired_ok_def queues_ok_def by blast
    ultimately show "ms_id m \<in> fst ` set (interventionIdsByMessage rank s) \<or>
        il_id i \<in> snd ` set (interventionIdsByMessage rank s)" by auto
  qed
  moreover have "pairs_ok s (se_messages s) (interventionIdsByMessage rank s)"
    using ok by (simp add: paired_ok_def)
  ultimately show ?thesis unfolding pairs_ok_def by (elim conjE) (intro conjI; assumption)
qed

definition sample_nudge :: "string \<Rightarrow> audience \<Rightarrow> int \<Rightarrow> intervention_log" where
  "sample_nudge i audience t =
     \<lparr>il_id = i, il_sessionId = ''s1'', il_roomId = ''!r:h'', il_conditionId = ''c1'', il_mode = Mode_Public,
      il_audience = audience, il_timestamp = Stamp t, il_threshold = 1 / 2, il_llmMode = Llm_Off,
      il_contributionWindowMinutes = 5, il_contributionSplit = [],
      il_targets = [\<lparr>it_userId = ''p1'', it_identityName = ''Blue''\<rparr>], il_quietMembers = [],
      il_message = ''oxygen first''\<rparr>"

definition nudged_session :: session where
  "nudged_session = sample_session\<lparr>
     se_interventions := [sample_nudge ''i1'' Aud_Public 3, sample_nudge ''i2'' Aud_Private 4],
     se_messages := [(sample_message [])\<lparr>ms_senderId := ''@orchestrator:h'', ms_recipientId := Some ''p1''\<rparr>,
       (sample_message [])\<lparr>ms_id := ''m2'', ms_senderId := ''@orchestrator:h''\<rparr>]\<rparr>"

theorem interventions_paired_once_witness:
  "interventionIdsByMessage (\<lambda>t. 0) nudged_session = [(''m1'', ''i2''), (''m2'', ''i1'')] \<and>
   distinct (map snd (interventionIdsByMessage (\<lambda>t. 0) nudged_session))"
proof
  show "interventionIdsByMessage (\<lambda>t. 0) nudged_session = [(''m1'', ''i2''), (''m2'', ''i1'')]" by code_simp
  have "distinct (map il_id (se_interventions nudged_session))" "distinct (map ms_id (se_messages nudged_session))"
    by code_simp+
  from interventions_paired_once [OF this] show "distinct (map snd (interventionIdsByMessage (\<lambda>t. 0) nudged_session))"
    by blast
qed

end
