(* ===== verification/Research_Bundles.thy ===== *)
theory Research_Bundles
  imports Research_Rows
begin

text \<open>
  session-manager/src/reports: results-rows.ts, linkage.ts, etherpad-rows.ts and reports.service.ts,
  the exports it serves, the files of its bundles and the queue that builds one bundle at a time.
  The codebook's text and the archiver are arguments.

  The lemmas: every row of every table of the exports has a cell for every column; filters that
  share a bundle in progress select the same sessions and pads; every bundle asked for is built.
\<close>

section \<open>results-rows.ts\<close>

definition EXPERT_ORDER :: string where
  "EXPERT_ORDER = bars (map fst (sort_key snd MOON_SURVIVAL_EXPERT_RANKING))"

definition results_header :: "string list" where
  "results_header =
     [''prolific_id'', ''group_id'', ''member_id'', ''condition'', ''round'', ''session_status'', ''age'',
      ''gender'', ''education'', ''english''] @
     map (\<lambda>i. ''gaais'' @ show_nat (i + 1)) [0..<10] @ map (\<lambda>i. ''person'' @ show_nat (i + 1)) [0..<10] @
     [''team'', ''text'', ''space'', ''survival'', ''rank_true'', ''rank_init'', ''init_ranking_score'',
      ''rank_fin'', ''final_ranking_score'', ''rank_group'', ''group_ranking_score'', ''rank_completed'',
      ''confidence'', ''groupcoh1'', ''groupcoh2'', ''groupcoh3'', ''groupcoh4'', ''groupcoh5'',
      ''psysafe1'', ''psysafe2'', ''psysafe3'', ''psysafe4'', ''psysafe5'', ''psysafe6'', ''attention1'',
      ''attention2'', ''feedback'', ''message_count'', ''character_count'', ''intervention_count'',
      ''intervention_id'']"

text \<open>The value a group of items has under a key.\<close>

definition item_of :: "string list \<Rightarrow> answer list \<Rightarrow> string \<Rightarrow> answer" where
  "item_of keys vals key = orelse (map_of (byKey keys vals) key) A_Null"

definition result_row :: "export_env \<Rightarrow> session \<Rightarrow> nat \<Rightarrow> string list" where
  "result_row env s k =
     (let p = se_participants s ! k; row = participantRow env s k; c = cell (ex_num env);
          nudges = filter (\<lambda>i. list_ex (\<lambda>t. Some (it_userId t) = pt_matrixUserId p) (il_targets i))
            (se_interventions s);
          dynamics = (\<lambda>key. c (item_of GROUP_DYNAMICS_KEYS (px_groupDynamics row) key));
          safety = (\<lambda>key. c (item_of PSYCH_SAFETY_KEYS (px_psychSafety row) key));
          unless_pad = (\<lambda>v. if isEtherpad s then [] else v);
          ids = (\<lambda>order. case order of None \<Rightarrow> [] | Some is \<Rightarrow> bars is);
          initial = rankingAnswer (pt_entrySurvey p) ''individualRanking'';
          final = rankingAnswer (pt_exitSurvey p) ''finalRanking''
      in [(case pt_prolific p of None \<Rightarrow> [] | Some i \<Rightarrow> pi_participantId i), se_id s, show_nat (k + 1),
          cd_name (se_condition s), show_int (se_roundId s),
          (if se_status s = Completed then ''1'' else ''0''), c (px_age row), c (px_gender row),
          c (px_education row), c (px_englishProficiency row)] @ map c (px_gaais row) @
         map c (px_tipi row) @
         [c (px_teamworkFrequency row), c (px_chatComfort row), c (px_spaceflightFamiliarity row),
          c (px_survivalFamiliarity row), unless_pad EXPERT_ORDER, unless_pad (ids initial),
          unless_pad (cell_int (rankingError initial)), unless_pad (ids final),
          unless_pad (cell_int (rankingError final)), unless_pad (bars (rk_order (se_ranking s))),
          unless_pad (cell_int (rankingError (Some (rk_order (se_ranking s))))),
          c (px_individualRankingCompleted row), c (px_taskConfidence row), dynamics ''groupConsidered'',
          dynamics ''groupBalanced'', dynamics ''groupDominated'', dynamics ''feltTeam'',
          dynamics ''comfortableAgain'', safety ''safeSpeakUp'', safety ''raiseConcerns'',
          safety ''contradicted'', safety ''contributionSerious'', safety ''contributionInfluenced'',
          safety ''heldBack'', dynamics ''attentionCheck1'', safety ''attentionCheck2'',
          c (px_debriefFeedback row), show_nat (px_messageCount row), show_nat (px_characterCount row),
          show_nat (length nudges), bars (map il_id nudges)])"

definition results_table :: "export_env \<Rightarrow> session list \<Rightarrow> string list list" where
  "results_table env sessions =
     results_header # concat (map (\<lambda>s. map (result_row env s) [0..<length (se_participants s)]) sessions)"

definition resultsCsv :: "export_env \<Rightarrow> session list \<Rightarrow> string" where
  "resultsCsv env sessions = toCsv (results_table env sessions)"

section \<open>linkage.ts\<close>

definition linkage_header :: "string list" where
  "linkage_header =
     [''participant_pseudonym'', ''session_pseudonym'', ''round'', ''participant_id'', ''session_id'',
      ''tracking_token'', ''recruitment_source'', ''matrix_user_id'']"

definition linkage_row :: "export_env \<Rightarrow> session \<Rightarrow> participant \<Rightarrow> string list" where
  "linkage_row env s p =
     [pseudonymize (ex_hash env) ''P'' (pt_id p), session_pseudonym env s, show_int (se_roundId s), pt_id p,
      se_id s, pt_trackingToken p, source_text (pt_recruitmentSource p), orelse (pt_matrixUserId p) []]"

definition linkage_table :: "export_env \<Rightarrow> session list \<Rightarrow> string list list" where
  "linkage_table env sessions =
     linkage_header # concat (map (\<lambda>s. map (linkage_row env s) (se_participants s)) sessions)"

definition linkageCsv :: "export_env \<Rightarrow> session list \<Rightarrow> string" where
  "linkageCsv env sessions = toCsv (linkage_table env sessions)"

section \<open>etherpad-rows.ts\<close>

record research_pad =
  qx_padPseudonym :: string
  qx_sessionPseudonym :: "string option"
  qx_participantPseudonym :: "string option"
  qx_conditionId :: "string option"
  qx_round :: "int option"
  qx_phase :: pad_phase
  qx_state :: pad_state
  qx_deadline :: stamp
  qx_capturedAt :: "stamp option"
  qx_revision :: "int option"
  qx_text :: "string option"

definition pseudonym_if :: "export_env \<Rightarrow> string \<Rightarrow> string option \<Rightarrow> string option" where
  "pseudonym_if env kind i = (if truthy i then Some (pseudonymize (ex_hash env) kind (the i)) else None)"

definition researchPad :: "export_env \<Rightarrow> pad \<Rightarrow> research_pad" where
  "researchPad env d =
     \<lparr>qx_padPseudonym = pseudonymize (ex_hash env) ''D'' (pd_id d),
      qx_sessionPseudonym = pseudonym_if env ''S'' (pd_sessionId d),
      qx_participantPseudonym = pseudonym_if env ''P'' (pd_participantId d),
      qx_conditionId = pd_conditionId d, qx_round = pd_roundId d, qx_phase = pd_phase d,
      qx_state = pd_state d, qx_deadline = pd_deadline d, qx_capturedAt = pd_capturedAt d,
      qx_revision = pd_revision d, qx_text = pd_text d\<rparr>"

definition etherpad_header :: "string list" where
  "etherpad_header =
     [''pad_pseudonym'', ''session_pseudonym'', ''participant_pseudonym'', ''condition_id'', ''round'',
      ''phase'', ''state'', ''deadline'', ''captured_at'', ''revision'', ''raw_text'']"

definition phase_text :: "pad_phase \<Rightarrow> string" where
  "phase_text p = (case p of Pad_Entry \<Rightarrow> ''entry'' | Pad_Group \<Rightarrow> ''group'' | Pad_Exit \<Rightarrow> ''exit'')"

definition pad_state_text :: "pad_state \<Rightarrow> string" where
  "pad_state_text s = (case s of Pad_Open \<Rightarrow> ''open'' | Pad_Captured \<Rightarrow> ''captured'' | Pad_Error \<Rightarrow> ''error'')"

definition etherpad_row :: "export_env \<Rightarrow> research_pad \<Rightarrow> string list" where
  "etherpad_row env p =
     [qx_padPseudonym p, orelse (qx_sessionPseudonym p) [], orelse (qx_participantPseudonym p) [],
      orelse (qx_conditionId p) [], cell_int (qx_round p), phase_text (qx_phase p),
      pad_state_text (qx_state p), ex_stamp env (qx_deadline p), stamp_text env (qx_capturedAt p), cell_int (qx_revision p), orelse (qx_text p) []]"

definition etherpadCsv :: "export_env \<Rightarrow> research_pad list \<Rightarrow> string" where
  "etherpadCsv env pads = toCsv (etherpad_header # map (etherpad_row env) pads)"

section \<open>The exports of reports.service.ts\<close>

text \<open>
  What an export reads: all sessions of the store, the pads of the Etherpad service (none where there
  is no such service), and the texts of the codebook for the moment of the export.
\<close>

record report_source =
  rs_env :: export_env
  rs_rank :: "stamp \<Rightarrow> int"
  rs_sessions :: "session list"
  rs_pads :: "pad list"
  rs_codebook :: string
  rs_etherpadCodebook :: string

definition report_sessions :: "report_source \<Rightarrow> research_filter \<Rightarrow> session list" where
  "report_sessions src f = filterResearchSessions (rs_sessions src) f"

definition exportEtherpad :: "report_source \<Rightarrow> research_filter \<Rightarrow> research_pad list" where
  "exportEtherpad src f =
     map (researchPad (rs_env src)) (filterResearchPads (rs_pads src) (report_sessions src f) f)"

definition exportEtherpadCsv :: "report_source \<Rightarrow> research_filter \<Rightarrow> string" where
  "exportEtherpadCsv src f = etherpadCsv (rs_env src) (exportEtherpad src f)"

definition exportParticipants :: "report_source \<Rightarrow> research_filter \<Rightarrow> participant_export list" where
  "exportParticipants src f = participantRows (rs_env src) (report_sessions src f)"

definition exportParticipantsCsv :: "report_source \<Rightarrow> research_filter \<Rightarrow> string" where
  "exportParticipantsCsv src f = participantsCsv (rs_env src) (exportParticipants src f)"

definition exportSessionsAnalysis :: "report_source \<Rightarrow> research_filter \<Rightarrow> session_analysis list" where
  "exportSessionsAnalysis src f = map (sessionRow (rs_env src)) (report_sessions src f)"

definition exportSessionsAnalysisCsv :: "report_source \<Rightarrow> research_filter \<Rightarrow> string" where
  "exportSessionsAnalysisCsv src f = sessionsAnalysisCsv (rs_env src) (exportSessionsAnalysis src f)"

definition exportWindows :: "report_source \<Rightarrow> research_filter \<Rightarrow> window_export list" where
  "exportWindows src f = windowRows (rs_env src) (report_sessions src f)"

definition exportWindowsCsv :: "report_source \<Rightarrow> research_filter \<Rightarrow> string" where
  "exportWindowsCsv src f = windowsCsv (rs_env src) (report_sessions src f)"

definition exportResearchMessagesCsv :: "report_source \<Rightarrow> research_filter \<Rightarrow> string" where
  "exportResearchMessagesCsv src f = researchMessagesCsv (rs_env src) (report_sessions src f)"

definition exportRankings :: "report_source \<Rightarrow> research_filter \<Rightarrow> ranking_row_export list" where
  "exportRankings src f = concat (map (rankingRows (rs_env src)) (report_sessions src f))"

definition exportRankingsCsv :: "report_source \<Rightarrow> research_filter \<Rightarrow> string" where
  "exportRankingsCsv src f = rankingsCsv (rs_env src) (exportRankings src f)"

definition exportLinkageCsv :: "report_source \<Rightarrow> research_filter \<Rightarrow> string" where
  "exportLinkageCsv src f = linkageCsv (rs_env src) (report_sessions src f)"

definition exportResultsCsv :: "report_source \<Rightarrow> research_filter \<Rightarrow> string" where
  "exportResultsCsv src f = resultsCsv (rs_env src) (report_sessions src f)"

definition exportMessagesFlatCsv :: "report_source \<Rightarrow> research_filter \<Rightarrow> string" where
  "exportMessagesFlatCsv src f = messagesFlatCsv (rs_env src) (rs_rank src) (report_sessions src f)"

text \<open>The members of the two archives, by name.\<close>

type_synonym zip_entry = "string \<times> string"

definition bundleResearchDataZip :: "report_source \<Rightarrow> research_filter \<Rightarrow> zip_entry list" where
  "bundleResearchDataZip src f =
     (let pads = exportEtherpad src f in
      [(''results.csv'', exportResultsCsv src f), (''messages.csv'', exportMessagesFlatCsv src f)] @
      (if pads \<noteq> [] then [(''etherpad.csv'', etherpadCsv (rs_env src) pads)] else []))"

definition buildBundle :: "report_source \<Rightarrow> research_filter \<Rightarrow> zip_entry list" where
  "buildBundle src f =
     (let pads = exportEtherpad src f; hasPads = (pads \<noteq> []) in
      [(''participants.csv'', exportParticipantsCsv src f),
       (''sessions_analysis.csv'', exportSessionsAnalysisCsv src f),
       (''windows.csv'', exportWindowsCsv src f), (''rankings.csv'', exportRankingsCsv src f),
       (''messages.csv'', exportResearchMessagesCsv src f),
       (''codebook.md'', rs_codebook src @ (if hasPads then rs_etherpadCodebook src else []))] @
      (if hasPads then [(''etherpad.csv'', etherpadCsv (rs_env src) pads)] else []))"

section \<open>The queue of bundles\<close>

text \<open>
  Each bundle asked for is a job. A request joins the job in progress of an equal filter
  (\<open>bundleZip\<close>), or waits for the jobs before it (\<open>enqueueBundle\<close>); the first job builds. A job that
  ended, well or not, lets the next one start, and is forgotten afterwards. Two filters have the
  same text as a key exactly when their sorted identifiers are the same.
\<close>

type_synonym bundle_key = "string list \<times> int list"

definition bundleFilterKey :: "research_filter \<Rightarrow> bundle_key" where
  "bundleFilterKey f = (sort (rf_conditionIds f), sort (rf_roundIds f))"

record bundle_jobs =
  bj_inFlight :: "(bundle_key \<times> nat) list"
  bj_queue :: "(nat \<times> research_filter) list"
  bj_ended :: "(nat \<times> research_filter) list"
  bj_next :: nat

definition no_bundles :: bundle_jobs where
  "no_bundles = \<lparr>bj_inFlight = [], bj_queue = [], bj_ended = [], bj_next = 0\<rparr>"

definition enqueueBundle :: "research_filter \<Rightarrow> bundle_jobs \<Rightarrow> nat \<times> bundle_jobs" where
  "enqueueBundle f q = (bj_next q, q\<lparr>bj_queue := bj_queue q @ [(bj_next q, f)], bj_next := bj_next q + 1\<rparr>)"

definition bundleZip :: "research_filter \<Rightarrow> bundle_jobs \<Rightarrow> nat \<times> bundle_jobs" where
  "bundleZip f q =
     (let key = bundleFilterKey f
      in case om_get (bj_inFlight q) key of
           Some current \<Rightarrow> (current, q)
         | None \<Rightarrow>
             let (queued, q) = enqueueBundle f q
             in (queued, q\<lparr>bj_inFlight := om_set key queued (bj_inFlight q)\<rparr>))"

definition bundle_ended :: "bundle_jobs \<Rightarrow> bundle_jobs" where
  "bundle_ended q =
     (case bj_queue q of
        [] \<Rightarrow> q
      | job # waiting \<Rightarrow> q\<lparr>bj_queue := waiting, bj_ended := bj_ended q @ [job]\<rparr>)"

definition bundle_forgotten :: "bundle_jobs \<Rightarrow> bundle_jobs" where
  "bundle_forgotten q =
     (case bj_ended q of
        [] \<Rightarrow> q
      | (queued, f) # ended \<Rightarrow>
          let key = bundleFilterKey f
          in q\<lparr>bj_ended := ended,
               bj_inFlight := (if om_get (bj_inFlight q) key = Some queued
                  then AList.delete key (bj_inFlight q) else bj_inFlight q)\<rparr>)"

inductive bundle_step :: "bundle_jobs \<Rightarrow> bundle_jobs \<Rightarrow> bool" where
  asked: "bundle_step q (snd (bundleZip f q))"
| ended: "bundle_step q (bundle_ended q)"
| forgotten: "bundle_step q (bundle_forgotten q)"

section \<open>Lemmas: the shape of the tables\<close>

lemma research_messages_width [row_widths]: "length (research_message env s m) = length research_messages_header"
  by (simp add: research_message_def research_messages_header_def)

lemma messages_flat_width [row_widths]: "length (message_flat env s ms bs m) = length messages_flat_header"
  by (simp add: message_flat_def messages_flat_header_def Let_def)

lemma rankings_width [row_widths]: "length (rankings_row env r) = length rankings_header"
  by (simp add: rankings_row_def rankings_header_def)

lemma windows_width [row_widths]: "r \<in> set (window_rows env s e) \<Longrightarrow> length r = length windows_header"
  by (auto simp: window_rows_def window_cells_def share_cells_def windows_header_def split: if_splits)

lemma analysis_width [row_widths]: "length (analysis_row env r) = length analysis_header"
  by (simp add: analysis_row_def analysis_header_def)

lemma answer_groups:
  "length (px_gaais (participantRow env s k)) = 10" "length (px_tipi (participantRow env s k)) = 10"
  "length (px_groupDynamics (participantRow env s k)) = 6" "length (px_psychSafety (participantRow env s k)) = 7"
  "length (px_botPerception (participantRow env s k)) = 5"
  by (simp_all add: participantRow_def Let_def numbered_answers_def GROUP_DYNAMICS_KEYS_def
      PSYCH_SAFETY_KEYS_def BOT_PERCEPTION_KEYS_def)

lemma participants_width [row_widths]:
  "length (participants_row env (participantRow env s k)) = length participants_header"
  by (simp add: participants_row_def participants_header_def Let_def answer_groups)

lemma results_width [row_widths]: "length (result_row env s k) = length results_header"
  by (simp add: result_row_def results_header_def Let_def answer_groups)

lemma linkage_width [row_widths]: "length (linkage_row env s p) = length linkage_header"
  by (simp add: linkage_row_def linkage_header_def)

lemma etherpad_width [row_widths]: "length (etherpad_row env p) = length etherpad_header"
  by (simp add: etherpad_row_def etherpad_header_def)

text \<open>A table with columns, each of whose rows has a cell for every column, reads back from its text.\<close>

definition reads_back :: "string \<Rightarrow> bool" where
  "reads_back text =
     (let rows = csv_read False [] [] text
      in rows \<noteq> [] \<and> 1 < length (hd rows) \<and> list_all (\<lambda>row. length row = length (hd rows)) rows)"

lemma rectangular_reads_back:
  assumes "1 < length header" and "\<forall>r\<in>set rows. length r = length header"
  shows "reads_back (toCsv (header # rows)) \<and>
    csv_read False [] [] (toCsv (header # rows)) = map (map csv_guarded) (header # rows)"
proof -
  have "csv_read False [] [] (toCsv (header # rows)) = map (map csv_guarded) (header # rows)"
    using assms by (intro read_rows) auto
  with assms show ?thesis by (simp add: reads_back_def list_all_iff Let_def)
qed

lemma rows_read_back:
  "1 < length header \<Longrightarrow> (\<And>r. r \<in> set rows \<Longrightarrow> length r = length header) \<Longrightarrow> reads_back (toCsv (header # rows))"
  using rectangular_reads_back [of header rows] by simp

lemmas headers = sessions_header_def settings_header_def messages_header_def interventions_header_def
  surveys_header_def contributions_header_def research_messages_header_def messages_flat_header_def
  rankings_header_def windows_header_def analysis_header_def participants_header_def results_header_def
  linkage_header_def etherpad_header_def

lemmas session_csvs = sessionsCsv_def sessionSettingsCsv_def messagesCsv_def interventionsCsv_def
  surveysCsv_def contributionsCsv_def

lemmas report_csvs = exportParticipantsCsv_def exportParticipants_def participantRows_def
  participantsCsv_def exportSessionsAnalysisCsv_def sessionsAnalysisCsv_def exportWindowsCsv_def
  windowsCsv_def windows_table_def exportRankingsCsv_def rankingsCsv_def exportResearchMessagesCsv_def
  researchMessagesCsv_def research_messages_def exportResultsCsv_def resultsCsv_def results_table_def
  exportMessagesFlatCsv_def messagesFlatCsv_def messages_flat_def exportLinkageCsv_def linkageCsv_def
  linkage_table_def exportEtherpadCsv_def etherpadCsv_def

text \<open>
  Every export of sessions, whatever was written in them, reads back as a table: a header, and
  rows with a cell for each of its columns.
\<close>

theorem exports_read_back:
  "list_all reads_back
     [sessionsCsv env sessions, sessionSettingsCsv env sessions, messagesCsv env (messageRows sessions),
      interventionsCsv env (interventionRows sessions), surveysCsv env (surveyRows sessions),
      contributionsCsv env (ce_contributions (contributionRecords sessions)),
      exportParticipantsCsv src f, exportSessionsAnalysisCsv src f, exportWindowsCsv src f,
      exportRankingsCsv src f, exportResearchMessagesCsv src f, exportResultsCsv src f,
      exportMessagesFlatCsv src f, exportLinkageCsv src f, exportEtherpadCsv src f]"
proof -
  have "list_all reads_back
     [sessionsCsv env sessions, sessionSettingsCsv env sessions, messagesCsv env (messageRows sessions),
      interventionsCsv env (interventionRows sessions), surveysCsv env (surveyRows sessions),
      contributionsCsv env (ce_contributions (contributionRecords sessions))]"
    unfolding session_csvs list.pred_inject
    by (intro conjI TrueI rows_read_back) (auto simp: row_widths, simp_all add: headers)
  moreover have "list_all reads_back
     [exportParticipantsCsv src f, exportSessionsAnalysisCsv src f, exportWindowsCsv src f,
      exportRankingsCsv src f, exportResearchMessagesCsv src f, exportResultsCsv src f,
      exportMessagesFlatCsv src f, exportLinkageCsv src f, exportEtherpadCsv src f]"
    unfolding report_csvs list.pred_inject
    by (intro conjI TrueI rows_read_back) (auto simp: row_widths, simp_all add: headers)
  ultimately show ?thesis by simp
qed

text \<open>
  results.csv scores the entry ranking of a participant who ran out of time, which participants.csv
  leaves out.
\<close>

lemma timed_out_entry_ranking:
  assumes "scalarAnswer (pt_entrySurvey (se_participants s ! k)) ''rankingCompleted'' = A_Bool False"
    and "rankingAnswer (pt_entrySurvey (se_participants s ! k)) ''individualRanking'' = Some expert_items"
    and "\<not> isEtherpad s"
  shows "px_individualRankingError (participantRow env s k) = None \<and>
    results_header ! 36 = ''init_ranking_score'' \<and> result_row env s k ! 36 = ''0''"
proof -
  have "results_header ! 36 = ''init_ranking_score''" by code_simp
  moreover have "show_int 0 = ''0''" by code_simp
  ultimately show ?thesis using assms
    by (simp add: participantRow_def result_row_def Let_def answer_groups numbered_answers_def expert_error
        cell_int_def nth_append)
qed

section \<open>Lemmas: bundles\<close>

lemma key_same_selection:
  assumes "bundleFilterKey f = bundleFilterKey g"
  shows "filterResearchSessions sessions f = filterResearchSessions sessions g"
    and "filterResearchPads pads sessions f = filterResearchPads pads sessions g"
proof -
  have "set (rf_conditionIds f) = set (rf_conditionIds g)" "set (rf_roundIds f) = set (rf_roundIds g)"
    using assms set_sort by (metis bundleFilterKey_def prod.inject)+
  moreover from this have "rf_conditionIds f = [] \<longleftrightarrow> rf_conditionIds g = []"
    "rf_roundIds f = [] \<longleftrightarrow> rf_roundIds g = []" by auto
  ultimately show "filterResearchSessions sessions f = filterResearchSessions sessions g"
    and "filterResearchPads pads sessions f = filterResearchPads pads sessions g"
    by (simp_all add: filterResearchSessions_def filterResearchPads_def)
qed

lemma key_same_bundle:
  assumes "bundleFilterKey f = bundleFilterKey g"
  shows "buildBundle src f = buildBundle src g"
proof -
  have "report_sessions src f = report_sessions src g" "exportEtherpad src f = exportEtherpad src g"
    by (simp_all add: report_sessions_def exportEtherpad_def key_same_selection [OF assms])
  then show ?thesis
    by (simp add: buildBundle_def exportParticipantsCsv_def exportParticipants_def
        exportSessionsAnalysisCsv_def exportSessionsAnalysis_def exportWindowsCsv_def exportRankingsCsv_def
        exportRankings_def exportResearchMessagesCsv_def)
qed

text \<open>The jobs that are not forgotten, in the order they were asked for.\<close>

definition live_jobs :: "bundle_jobs \<Rightarrow> (nat \<times> research_filter) list" where
  "live_jobs q = bj_ended q @ bj_queue q"

definition bundles_ok :: "bundle_jobs \<Rightarrow> bool" where
  "bundles_ok q =
     (distinct (map fst (bj_inFlight q)) \<and> distinct (map fst (live_jobs q)) \<and>
      (\<forall>(j, f)\<in>set (live_jobs q). j < bj_next q \<and> om_get (bj_inFlight q) (bundleFilterKey f) = Some j) \<and>
      (\<forall>(key, j)\<in>set (bj_inFlight q). \<exists>f. (j, f) \<in> set (live_jobs q) \<and> bundleFilterKey f = key))"

lemma bundles_okI:
  assumes "distinct (map fst (bj_inFlight q))" and "distinct (map fst (live_jobs q))"
    and "\<And>j f. (j, f) \<in> set (live_jobs q) \<Longrightarrow> j < bj_next q \<and> om_get (bj_inFlight q) (bundleFilterKey f) = Some j"
    and "\<And>key j. om_get (bj_inFlight q) key = Some j \<Longrightarrow> \<exists>f. (j, f) \<in> set (live_jobs q) \<and> bundleFilterKey f = key"
  shows "bundles_ok q"
  using assms by (auto simp: bundles_ok_def map_of_eq_Some_iff [OF assms(1)])

lemma no_bundles_ok: "bundles_ok no_bundles"
  by (rule bundles_okI) (simp_all add: no_bundles_def live_jobs_def)

lemma live_job:
  "bundles_ok q \<Longrightarrow> (j, f) \<in> set (live_jobs q) \<Longrightarrow>
     j < bj_next q \<and> om_get (bj_inFlight q) (bundleFilterKey f) = Some j"
  by (auto simp: bundles_ok_def)

lemma in_flight_job:
  "bundles_ok q \<Longrightarrow> om_get (bj_inFlight q) key = Some j \<Longrightarrow>
     \<exists>f. (j, f) \<in> set (live_jobs q) \<and> bundleFilterKey f = key"
  by (auto simp: bundles_ok_def dest: map_of_SomeD)

lemma bundles_distinct:
  "bundles_ok q \<Longrightarrow> distinct (map fst (bj_inFlight q))"
  "bundles_ok q \<Longrightarrow> distinct (map fst (live_jobs q))"
  by (simp_all add: bundles_ok_def)

lemma ended_live_jobs: "live_jobs (bundle_ended q) = live_jobs q"
  by (simp add: bundle_ended_def live_jobs_def split: list.split)

lemma ended_ok: "bundles_ok q \<Longrightarrow> bundles_ok (bundle_ended q)"
proof -
  have eq: "bj_inFlight (bundle_ended q) = bj_inFlight q" "bj_next (bundle_ended q) = bj_next q"
    by (simp_all add: bundle_ended_def split: list.split)
  show "bundles_ok q \<Longrightarrow> bundles_ok (bundle_ended q)" unfolding bundles_ok_def ended_live_jobs eq .
qed

lemma asked_ok:
  assumes ok: "bundles_ok q"
  shows "bundles_ok (snd (bundleZip f q))"
proof (cases "om_get (bj_inFlight q) (bundleFilterKey f)")
  case (Some j)
  with ok show ?thesis by (simp add: bundleZip_def)
next
  case None
  let ?q = "snd (bundleZip f q)"
  have q: "bj_inFlight ?q = om_set (bundleFilterKey f) (bj_next q) (bj_inFlight q)"
    "live_jobs ?q = live_jobs q @ [(bj_next q, f)]" "bj_next ?q = bj_next q + 1"
    by (simp_all add: bundleZip_def None enqueueBundle_def live_jobs_def)
  have fresh: "bj_next q \<notin> fst ` set (live_jobs q)" using live_job [OF ok] by fastforce
  have other: "bundleFilterKey g \<noteq> bundleFilterKey f" if "(j, g) \<in> set (live_jobs q)" for j g
    using live_job [OF ok that] None by auto
  show ?thesis
  proof (rule bundles_okI)
    show "distinct (map fst (bj_inFlight ?q))" "distinct (map fst (live_jobs ?q))"
      using bundles_distinct [OF ok] fresh unfolding q by (simp_all add: distinct_update)
    show "j < bj_next ?q \<and> om_get (bj_inFlight ?q) (bundleFilterKey g) = Some j"
      if "(j, g) \<in> set (live_jobs ?q)" for j g
      using that live_job [OF ok, of j g] other [of j g] unfolding q by (auto simp: update_conv)
    show "\<exists>g. (j, g) \<in> set (live_jobs ?q) \<and> bundleFilterKey g = key"
      if "om_get (bj_inFlight ?q) key = Some j" for key j
      using that in_flight_job [OF ok, of key j] unfolding q by (auto simp: update_conv split: if_splits)
  qed
qed

lemma forgotten_ok:
  assumes ok: "bundles_ok q"
  shows "bundles_ok (bundle_forgotten q)"
proof (cases "bj_ended q")
  case Nil
  with ok show ?thesis by (simp add: bundle_forgotten_def)
next
  case (Cons job ended)
  obtain k f where job: "job = (k, f)" by (cases job)
  let ?q = "bundle_forgotten q"
  have live: "live_jobs q = (k, f) # live_jobs ?q" and "bj_next ?q = bj_next q"
    by (simp_all add: bundle_forgotten_def live_jobs_def Cons job Let_def)
  have "om_get (bj_inFlight q) (bundleFilterKey f) = Some k" using live_job [OF ok, of k f] live by simp
  then have q: "bj_inFlight ?q = AList.delete (bundleFilterKey f) (bj_inFlight q)"
    by (simp add: bundle_forgotten_def Cons job Let_def)
  show ?thesis
  proof (rule bundles_okI)
    show "distinct (map fst (bj_inFlight ?q))" "distinct (map fst (live_jobs ?q))"
      using bundles_distinct [OF ok] live unfolding q by (simp_all add: distinct_delete)
    show "j < bj_next ?q \<and> om_get (bj_inFlight ?q) (bundleFilterKey g) = Some j"
      if "(j, g) \<in> set (live_jobs ?q)" for j g
    proof -
      have "(j, g) \<in> set (live_jobs q)" "j \<noteq> k"
        using that live bundles_distinct(2) [OF ok] by (auto simp: image_iff)
      with live_job [OF ok, of j g] live_job [OF ok, of k f] live \<open>bj_next ?q = bj_next q\<close> show ?thesis
        unfolding q by (auto simp: delete_conv)
    qed
    show "\<exists>g. (j, g) \<in> set (live_jobs ?q) \<and> bundleFilterKey g = key"
      if "om_get (bj_inFlight ?q) key = Some j" for key j
    proof -
      have "key \<noteq> bundleFilterKey f" "om_get (bj_inFlight q) key = Some j"
        using that unfolding q by (auto simp: delete_conv split: if_splits)
      with in_flight_job [OF ok, of key j] live show ?thesis by auto
    qed
  qed
qed

lemma bundles_reachable: "bundle_step\<^sup>*\<^sup>* no_bundles q \<Longrightarrow> bundles_ok q"
proof (induction rule: rtranclp_induct)
  case base
  show ?case by (rule no_bundles_ok)
next
  case (step q q')
  from step.hyps(2) step.IH show ?case by cases (simp_all add: asked_ok ended_ok forgotten_ok)
qed

text \<open>
  C37: A request for the research bundle is answered by exactly one job that is not forgotten, and
  the bundle of that job is the bundle of the request's own filter; no two jobs that build or wait
  ever have filters of the same key.
\<close>

theorem bundle_answers_request:
  assumes "bundle_step\<^sup>*\<^sup>* no_bundles q" and "bundleZip f q = (j, q')"
  shows "(\<exists>!g. (j, g) \<in> set (live_jobs q')) \<and>
    (\<exists>g. (j, g) \<in> set (live_jobs q') \<and> (\<forall>src. buildBundle src g = buildBundle src f)) \<and>
    distinct (map (bundleFilterKey \<circ> snd) (live_jobs q'))"
proof -
  have ok: "bundles_ok q'"
    using asked_ok [OF bundles_reachable [OF assms(1)], of f] assms(2) by simp
  have "om_get (bj_inFlight q') (bundleFilterKey f) = Some j"
    using assms(2) by (auto simp: bundleZip_def enqueueBundle_def update_conv Let_def split: option.splits)
  from in_flight_job [OF ok this] obtain g where g: "(j, g) \<in> set (live_jobs q')" "bundleFilterKey g = bundleFilterKey f"
    by blast
  have "\<exists>!g. (j, g) \<in> set (live_jobs q')"
    using g bundles_distinct(2) [OF ok] by (metis eq_key_imp_eq_value)
  moreover have "distinct (map (bundleFilterKey \<circ> snd) (live_jobs q'))"
  proof -
    have "inj_on (bundleFilterKey \<circ> snd) (set (live_jobs q'))"
    proof (rule inj_onI)
      fix x y assume "x \<in> set (live_jobs q')" "y \<in> set (live_jobs q')"
        "(bundleFilterKey \<circ> snd) x = (bundleFilterKey \<circ> snd) y"
      with live_job [OF ok, of "fst x" "snd x"] live_job [OF ok, of "fst y" "snd y"]
      have "fst x = fst y" by simp
      with \<open>x \<in> _\<close> \<open>y \<in> _\<close> bundles_distinct(2) [OF ok] show "x = y"
        by (metis eq_key_imp_eq_value prod.collapse)
    qed
    with bundles_distinct(2) [OF ok] show ?thesis by (simp add: distinct_map)
  qed
  ultimately show ?thesis using g key_same_bundle by blast
qed

definition witness_filters :: "research_filter \<times> research_filter" where
  "witness_filters =
     (\<lparr>rf_conditionIds = [''b'', ''a''], rf_roundIds = [2, 1]\<rparr>, \<lparr>rf_conditionIds = [''a'', ''b''], rf_roundIds = [1, 2]\<rparr>)"

theorem bundle_answers_request_witness:
  "bundleZip (snd witness_filters) (snd (bundleZip (fst witness_filters) no_bundles)) =
     (0, snd (bundleZip (fst witness_filters) no_bundles)) \<and>
   (\<exists>!g. (0, g) \<in> set (live_jobs (snd (bundleZip (fst witness_filters) no_bundles))))"
proof -
  let ?q = "snd (bundleZip (fst witness_filters) no_bundles)"
  have "bundle_step\<^sup>*\<^sup>* no_bundles ?q" using bundle_step.asked by (rule r_into_rtranclp)
  moreover have "bundleZip (snd witness_filters) ?q = (0, ?q)" by code_simp
  ultimately show ?thesis using bundle_answers_request [of ?q "snd witness_filters" 0 ?q] by simp
qed

end
