(* ===== verification/Matrix_Transport.thy ===== *)
theory Matrix_Transport
  imports Bot_Rules Session_Store
begin

text \<open>
  How both services talk to the homeserver: packages/shared/src/server/index.ts (retries, the token
  of the services, numbers of the environment), chat-service/src/matrix/matrix-bot.service.ts (the
  bot's account, the history of a room, the stream of events) and
  session-manager/src/matrix/matrix.service.ts (the orchestrator's account, rooms, power levels).
  Replies of the homeserver are arguments; a request that times out has none.

  The lemmas: a rate-limited request is repeated a bounded number of times with bounded waits and
  answered by the first reply that is not a refusal; the history of a room is exactly what was said
  since the start of the session, each event once and in order, whatever the sizes of the pages; the
  stream of events loses and repeats nothing through lost and refused requests.
\<close>

section \<open>packages/shared/src/server/index.ts\<close>

definition safeTokenEqual :: "string \<Rightarrow> string \<Rightarrow> bool" where
  "safeTokenEqual provided expected =
     (length provided = length expected \<and> list_all (\<lambda>(a, b). a = b) (zip provided expected))"

text \<open>A header is absent, sent once, or sent several times.\<close>

datatype header = No_Header | Header string | Headers "string list"

datatype token_check = Token_Open | Token_Allowed | Token_Denied

definition checkInternalToken :: "string option \<Rightarrow> header \<Rightarrow> token_check" where
  "checkInternalToken expected provided =
     (if \<not> truthy expected then Token_Open
      else case provided of
          Header t \<Rightarrow> if safeTokenEqual t (the expected) then Token_Allowed else Token_Denied
        | _ \<Rightarrow> Token_Denied)"

definition internalHeaders :: "string option \<Rightarrow> (string \<times> string) list" where
  "internalHeaders token =
     (''Content-Type'', ''application/json'') #
     (if truthy token then [(''x-internal-token'', the token)] else [])"

text \<open>\<open>number_of\<close> is \<open>Number\<close> on strings; the number of an absent value is not a number.\<close>

definition env_value :: "(string \<Rightarrow> jsnum) \<Rightarrow> string option \<Rightarrow> jsnum" where
  "env_value number_of v = (case v of None \<Rightarrow> Not_A_Number | Some s \<Rightarrow> number_of s)"

definition positiveInt :: "(string \<Rightarrow> jsnum) \<Rightarrow> string option \<Rightarrow> int \<Rightarrow> int" where
  "positiveInt number_of v fallback =
     (case env_value number_of v of Num x \<Rightarrow> if 0 < x then \<lfloor>x\<rfloor> else fallback | _ \<Rightarrow> fallback)"

definition nonNegativeInt :: "(string \<Rightarrow> jsnum) \<Rightarrow> string option \<Rightarrow> int \<Rightarrow> int" where
  "nonNegativeInt number_of v fallback =
     (case env_value number_of v of Num x \<Rightarrow> max 0 \<lfloor>x\<rfloor> | _ \<Rightarrow> fallback)"

text \<open>A reply: its status, the \<open>Retry-After\<close> header and the \<open>retry_after_ms\<close> of its body as numbers.\<close>

record 'a response =
  rp_status :: nat
  rp_retryHeader :: jsnum
  rp_retryBody :: jsnum
  rp_body :: 'a

definition response_ok :: "'a response \<Rightarrow> bool" where
  "response_ok r = (200 \<le> rp_status r \<and> rp_status r < 300)"

definition matrixRetryAfterMs :: "'a response \<Rightarrow> int" where
  "matrixRetryAfterMs r =
     (case rp_retryHeader r of
        Num s \<Rightarrow> if 0 \<le> s then max 1 (js_round (s * 1000))
                 else (case rp_retryBody r of Num v \<Rightarrow> if 0 \<le> v then max 1 (js_round v) else 1000 | _ \<Rightarrow> 1000)
      | _ \<Rightarrow> (case rp_retryBody r of Num v \<Rightarrow> if 0 \<le> v then max 1 (js_round v) else 1000 | _ \<Rightarrow> 1000))"

text \<open>The wait before the next attempt; \<open>draw\<close> is \<open>Math.random()\<close>.\<close>

definition retry_wait :: "int \<Rightarrow> rat \<Rightarrow> 'a response \<Rightarrow> int" where
  "retry_wait maxDelayMs draw r =
     (let hinted = min maxDelayMs (matrixRetryAfterMs r)
      in min maxDelayMs (hinted + \<lfloor>draw * min 1000 (of_int hinted / 4)\<rfloor>))"

text \<open>
  \<open>left\<close> is the number of retries that remain, \<open>request k\<close> the reply to the attempt \<open>k\<close> (none where
  it throws). The result: the reply returned, the attempts made and the waits between them.
\<close>

fun fetch_from ::
    "nat \<Rightarrow> int \<Rightarrow> (nat \<Rightarrow> rat) \<Rightarrow> (nat \<Rightarrow> 'a response option) \<Rightarrow> nat \<Rightarrow> 'a response option \<times> nat \<times> int list" where
  "fetch_from left maxDelayMs draw request attempt =
     (case request attempt of
        None \<Rightarrow> (None, attempt + 1, [])
      | Some r \<Rightarrow>
          if rp_status r \<noteq> 429 \<or> left = 0 then (Some r, attempt + 1, [])
          else case fetch_from (left - 1) maxDelayMs draw request (attempt + 1) of
              (result, attempts, waits) \<Rightarrow> (result, attempts, retry_wait maxDelayMs (draw attempt) r # waits))"

declare fetch_from.simps [simp del]

definition fetchWithRateLimitRetry ::
    "nat \<Rightarrow> int \<Rightarrow> (nat \<Rightarrow> rat) \<Rightarrow> (nat \<Rightarrow> 'a response option) \<Rightarrow> 'a response option \<times> nat \<times> int list" where
  "fetchWithRateLimitRetry retries maxDelayMs draw request = fetch_from retries maxDelayMs draw request 0"

section \<open>The history of a room\<close>

text \<open>
  The content of an event is what the JSON says; \<open>no_content\<close> stands for the empty object an event
  without content gets.
\<close>

record 'c sync_room_event =
  ev_type :: string
  ev_sender :: string
  ev_event_id :: string
  ev_origin_server_ts :: int
  ev_content :: "'c option"

record 'c room_event = timeline_event +
  te_content :: 'c

definition toTimelineEvent :: "'c \<Rightarrow> string \<Rightarrow> 'c sync_room_event \<Rightarrow> 'c room_event" where
  "toTimelineEvent no_content roomId ev =
     \<lparr>te_roomId = roomId, te_type = ev_type ev, te_sender = ev_sender ev, te_eventId = ev_event_id ev,
      te_ts = ev_origin_server_ts ev, te_content = orelse (ev_content ev) no_content\<rparr>"

record 'c history_page =
  hp_chunk :: "'c sync_room_event list"
  hp_end :: "string option"

datatype history_error = He_No_Reply | He_Status nat | He_Stalled | He_Exceeded

text \<open>What the bot talks through: its limits, the draws and the replies to each attempt for each page.\<close>

record 'c history_env =
  he_retries :: nat
  he_maxDelayMs :: int
  he_draw :: "nat \<Rightarrow> nat \<Rightarrow> rat"
  he_request :: "nat \<Rightarrow> string option \<Rightarrow> nat \<Rightarrow> 'c history_page response option"
  he_noContent :: 'c

definition page_reply :: "'c history_env \<Rightarrow> nat \<Rightarrow> string option \<Rightarrow> 'c history_page response option" where
  "page_reply env page tok =
     fst (fetchWithRateLimitRetry (he_retries env) (he_maxDelayMs env) (he_draw env page) (he_request env page tok))"

text \<open>One page: the events not older than the start and not seen yet, and whether it reaches behind the start.\<close>

fun read_event ::
    "'c \<Rightarrow> string \<Rightarrow> int \<Rightarrow> 'c room_event list \<times> string list \<times> bool \<Rightarrow> 'c sync_room_event
     \<Rightarrow> 'c room_event list \<times> string list \<times> bool" where
  "read_event no_content roomId startedAtMs (newestFirst, seen, reached) raw =
     (if ev_origin_server_ts raw < startedAtMs then (newestFirst, seen, True)
      else if ev_event_id raw \<in> set seen then (newestFirst, seen, reached)
      else (newestFirst @ [toTimelineEvent no_content roomId raw], seen @ [ev_event_id raw], reached))"

definition read_chunk ::
    "'c \<Rightarrow> string \<Rightarrow> int \<Rightarrow> 'c room_event list \<Rightarrow> string list \<Rightarrow> 'c sync_room_event list
     \<Rightarrow> 'c room_event list \<times> string list \<times> bool" where
  "read_chunk no_content roomId startedAtMs newestFirst seen chunk =
     foldl (read_event no_content roomId startedAtMs) (newestFirst, seen, False) chunk"

text \<open>\<open>left\<close> pages may still be asked for; the next one is \<open>page\<close>.\<close>

fun history_from ::
    "'c history_env \<Rightarrow> string \<Rightarrow> int \<Rightarrow> nat \<Rightarrow> nat \<Rightarrow> string option \<Rightarrow> 'c room_event list \<Rightarrow> string list
     \<Rightarrow> history_error + 'c room_event list" where
  "history_from env roomId startedAtMs 0 page tok newestFirst seen = Inl He_Exceeded"
| "history_from env roomId startedAtMs (Suc left) page tok newestFirst seen =
     (case page_reply env page tok of
        None \<Rightarrow> Inl He_No_Reply
      | Some res \<Rightarrow>
          if \<not> response_ok res then Inl (He_Status (rp_status res))
          else
            let chunk = hp_chunk (rp_body res);
                endToken = hp_end (rp_body res);
                (newestFirst', seen', reachedSessionStart) =
                  read_chunk (he_noContent env) roomId startedAtMs newestFirst seen chunk
            in if reachedSessionStart \<or> chunk = [] \<or> \<not> truthy endToken then Inr (rev newestFirst')
               else if endToken = tok then Inl He_Stalled
               else history_from env roomId startedAtMs left (Suc page) endToken newestFirst' seen')"

definition roomHistory :: "'c history_env \<Rightarrow> string \<Rightarrow> int \<Rightarrow> history_error + 'c room_event list" where
  "roomHistory env roomId startedAtMs = history_from env roomId startedAtMs 1000 0 None [] []"

section \<open>The bot's account and its stream of events\<close>

definition mx_result :: "'a response option \<Rightarrow> 'a option" where
  "mx_result r = (case r of None \<Rightarrow> None | Some res \<Rightarrow> if response_ok res then Some (rp_body res) else None)"

text \<open>
  The bot: its credentials, whether it runs and is connected, the outcome of its registration, the
  streams being read with the token of the next request of each (\<open>None\<close> at first), those that wait
  after an error, and the events handed to the handlers. A stream is named by its number.
\<close>

datatype stream = Sm_Reading "string option" | Sm_Waiting "string option" | Sm_Ended

record 'c bot =
  bt_userId :: string
  bt_accessToken :: string
  bt_running :: bool
  bt_syncConnected :: bool
  bt_registration :: "bool option"
  bt_streams :: "stream list"
  bt_handed :: "'c room_event list"

definition new_bot :: "'c bot" where
  "new_bot = \<lparr>bt_userId = [], bt_accessToken = [], bt_running = False, bt_syncConnected = False,
     bt_registration = None, bt_streams = [], bt_handed = []\<rparr>"

definition isReady :: "'c bot \<Rightarrow> bool" where
  "isReady b = (bt_userId b \<noteq> [] \<and> bt_accessToken b \<noteq> [] \<and> bt_running b \<and> bt_syncConnected b)"

definition registerBot :: "matrix_creds response option \<Rightarrow> 'c bot \<Rightarrow> bool \<times> 'c bot" where
  "registerBot r b =
     (case mx_result r of
        None \<Rightarrow> (False, b)
      | Some c \<Rightarrow> (True, b\<lparr>bt_userId := mc_userId c, bt_accessToken := mc_accessToken c\<rparr>))"

text \<open>The registration is attempted once; whoever asks again gets its outcome.\<close>

definition ensureReady :: "matrix_creds response option \<Rightarrow> 'c bot \<Rightarrow> bool \<times> 'c bot" where
  "ensureReady r b =
     (case bt_registration b of
        Some outcome \<Rightarrow> (outcome, b)
      | None \<Rightarrow> (let (outcome, b') = registerBot r b in (outcome, b'\<lparr>bt_registration := Some outcome\<rparr>)))"

definition getJoinedMemberIds :: "(string \<times> 'm) list response option \<Rightarrow> string list option" where
  "getJoinedMemberIds r = map_option (map fst) (mx_result r)"

definition startBot :: "'c bot \<Rightarrow> 'c bot" where
  "startBot b = (if bt_running b then b else b\<lparr>bt_running := True, bt_streams := bt_streams b @ [Sm_Reading None]\<rparr>)"

definition stopBot :: "'c bot \<Rightarrow> 'c bot" where
  "stopBot b = b\<lparr>bt_running := False, bt_syncConnected := False\<rparr>"

record 'c sync_response =
  sy_next_batch :: string
  sy_join :: "(string \<times> 'c sync_room_event list) list"

definition batch_events :: "'c \<Rightarrow> 'c sync_response \<Rightarrow> 'c room_event list" where
  "batch_events no_content data =
     concat (map (\<lambda>(roomId, events). map (toTimelineEvent no_content roomId) events) (sy_join data))"

text \<open>The events of a batch up to the first one whose handler throws.\<close>

fun hand_over :: "('e \<Rightarrow> bool) \<Rightarrow> 'e list \<Rightarrow> 'e list \<times> bool" where
  "hand_over throws [] = ([], True)"
| "hand_over throws (e # es) =
     (if throws e then ([e], False) else (let (handed, fine) = hand_over throws es in (e # handed, fine)))"

text \<open>The head of the loop: the next request is sent while the bot runs.\<close>

definition next_request :: "'c bot \<Rightarrow> string option \<Rightarrow> stream" where
  "next_request b token = (if bt_running b then Sm_Reading token else Sm_Ended)"

text \<open>After an error: a stream of a stopped bot ends, another one waits.\<close>

definition sync_failed :: "nat \<Rightarrow> string option \<Rightarrow> 'c bot \<Rightarrow> 'c bot" where
  "sync_failed k token b =
     (if \<not> bt_running b then b\<lparr>bt_streams := (bt_streams b)[k := Sm_Ended]\<rparr>
      else b\<lparr>bt_syncConnected := False, bt_streams := (bt_streams b)[k := Sm_Waiting token]\<rparr>)"

definition sync_reply ::
    "'c \<Rightarrow> ('c room_event \<Rightarrow> bool) \<Rightarrow> nat \<Rightarrow> 'c sync_response response option \<Rightarrow> 'c bot \<Rightarrow> 'c bot" where
  "sync_reply no_content throws k reply b =
     (if length (bt_streams b) \<le> k then b
      else case bt_streams b ! k of
          Sm_Reading token \<Rightarrow>
            (case reply of
               None \<Rightarrow> sync_failed k token b
             | Some res \<Rightarrow>
                 if \<not> response_ok res
                 then b\<lparr>bt_syncConnected := False,
                   bt_streams := (bt_streams b)[k := if bt_running b then Sm_Waiting token else Sm_Ended]\<rparr>
                 else
                   let data = rp_body res;
                       token' = Some (sy_next_batch data);
                       (handed, fine) = hand_over throws (batch_events no_content data);
                       b' = b\<lparr>bt_syncConnected := True, bt_handed := bt_handed b @ handed\<rparr>
                   in if fine then b'\<lparr>bt_streams := (bt_streams b')[k := next_request b' token']\<rparr>
                      else sync_failed k token' b')
        | _ \<Rightarrow> b)"

definition sync_resume :: "nat \<Rightarrow> 'c bot \<Rightarrow> 'c bot" where
  "sync_resume k b =
     (if length (bt_streams b) \<le> k then b
      else case bt_streams b ! k of
          Sm_Waiting token \<Rightarrow> b\<lparr>bt_streams := (bt_streams b)[k := next_request b token]\<rparr>
        | _ \<Rightarrow> b)"

datatype 'c bot_event =
    Be_Ensure "matrix_creds response option"
  | Be_Start
  | Be_Stop
  | Be_Reply nat "'c sync_response response option"
  | Be_Resume nat

fun bot_step :: "'c \<Rightarrow> ('c room_event \<Rightarrow> bool) \<Rightarrow> 'c bot \<Rightarrow> 'c bot_event \<Rightarrow> 'c bot" where
  "bot_step no_content throws b (Be_Ensure r) = snd (ensureReady r b)"
| "bot_step no_content throws b Be_Start = startBot b"
| "bot_step no_content throws b Be_Stop = stopBot b"
| "bot_step no_content throws b (Be_Reply k reply) = sync_reply no_content throws k reply b"
| "bot_step no_content throws b (Be_Resume k) = sync_resume k b"

section \<open>The orchestrator\<close>

text \<open>The requests of session-manager/src/matrix/matrix.service.ts; a token says who sends one. Of the
  power levels of a room the code reads those of the users.\<close>

record power_levels =
  pl_users :: "(string \<times> int) list option"
  pl_other :: "(string \<times> string) list"

datatype mx_request =
    Mq_Login string string
  | Mq_Register string string
  | Mq_Create_Room string string int
  | Mq_Invite string string string
  | Mq_Kick string string string string
  | Mq_Join string string
  | Mq_Get_Levels string string
  | Mq_Put_Levels string string power_levels

record mx_body =
  mb_creds :: matrix_creds
  mb_room_id :: string
  mb_levels :: power_levels

text \<open>
  \<open>ask n q\<close> is what the homeserver finally answers to the request \<open>q\<close>, the \<open>n\<close>th of an operation.
  The result: an error or the value, the requests sent and the account of the orchestrator.
\<close>

type_synonym homeserver = "nat \<Rightarrow> mx_request \<Rightarrow> mx_body response option"

definition loginOrRegisterOrchestrator ::
    "string \<Rightarrow> homeserver \<Rightarrow> (string + matrix_creds) \<times> mx_request list" where
  "loginOrRegisterOrchestrator servicePassword ask =
     (let login = Mq_Login ''gdm_orchestrator'' servicePassword;
          register = Mq_Register ''gdm_orchestrator'' servicePassword
      in case ask 0 login of
           None \<Rightarrow> (Inl ''orchestrator login'', [login])
         | Some res \<Rightarrow>
             if response_ok res then (Inr (mb_creds (rp_body res)), [login])
             else case mx_result (ask 1 register) of
                 None \<Rightarrow> (Inl ''orchestrator login/register failed'', [login, register])
               | Some body \<Rightarrow> (Inr (mb_creds body), [login, register]))"

definition getOrchestrator ::
    "string \<Rightarrow> homeserver \<Rightarrow> matrix_creds option \<Rightarrow> (string + matrix_creds) \<times> mx_request list \<times> matrix_creds option" where
  "getOrchestrator servicePassword ask orchestrator =
     (case orchestrator of
        Some c \<Rightarrow> (Inr c, [], orchestrator)
      | None \<Rightarrow>
          (case loginOrRegisterOrchestrator servicePassword ask of
             (Inl e, sent) \<Rightarrow> (Inl e, sent, None)
           | (Inr c, sent) \<Rightarrow> (Inr c, sent, Some c)))"

text \<open>A request the orchestrator sends, and its answer.\<close>

definition orchestrated ::
    "string \<Rightarrow> homeserver \<Rightarrow> matrix_creds option \<Rightarrow> string \<Rightarrow> (string \<Rightarrow> mx_request)
     \<Rightarrow> (string + mx_body) \<times> mx_request list \<times> matrix_creds option" where
  "orchestrated servicePassword ask orchestrator operation request =
     (case getOrchestrator servicePassword ask orchestrator of
        (Inl e, sent, orchestrator') \<Rightarrow> (Inl e, sent, orchestrator')
      | (Inr orch, sent, orchestrator') \<Rightarrow>
          let q = request (mc_accessToken orch)
          in (case mx_result (ask (length sent) q) of
                None \<Rightarrow> (Inl (operation @ '' failed''), sent @ [q], orchestrator')
              | Some body \<Rightarrow> (Inr body, sent @ [q], orchestrator')))"

definition registerUser :: "string \<Rightarrow> string \<Rightarrow> string \<Rightarrow> homeserver \<Rightarrow> (string + matrix_creds) \<times> mx_request list" where
  "registerUser localpartHint unique password ask =
     (let q = Mq_Register (localpartHint @ ''_'' @ unique) password
      in (case mx_result (ask 0 q) of None \<Rightarrow> Inl ''register failed'' | Some body \<Rightarrow> Inr (mb_creds body), [q]))"

text \<open>Only the orchestrator may invite into a study room (power level 100).\<close>

definition doCreateRoom ::
    "string \<Rightarrow> homeserver \<Rightarrow> matrix_creds option \<Rightarrow> string \<Rightarrow> (string + string) \<times> mx_request list \<times> matrix_creds option" where
  "doCreateRoom servicePassword ask orchestrator name =
     (case orchestrated servicePassword ask orchestrator ''createRoom'' (\<lambda>token. Mq_Create_Room token name 100) of
        (Inl e, rest) \<Rightarrow> (Inl e, rest) | (Inr body, rest) \<Rightarrow> (Inr (mb_room_id body), rest))"

definition inviteUser ::
    "string \<Rightarrow> homeserver \<Rightarrow> matrix_creds option \<Rightarrow> string \<Rightarrow> string \<Rightarrow> (string + mx_body) \<times> mx_request list \<times> matrix_creds option" where
  "inviteUser servicePassword ask orchestrator roomId userId =
     orchestrated servicePassword ask orchestrator ''invite'' (\<lambda>token. Mq_Invite token roomId userId)"

definition kickUser ::
    "string \<Rightarrow> homeserver \<Rightarrow> matrix_creds option \<Rightarrow> string \<Rightarrow> string \<Rightarrow> string
     \<Rightarrow> (string + mx_body) \<times> mx_request list \<times> matrix_creds option" where
  "kickUser servicePassword ask orchestrator roomId userId reason =
     orchestrated servicePassword ask orchestrator ''kick'' (\<lambda>token. Mq_Kick token roomId userId reason)"

definition joinRoom :: "homeserver \<Rightarrow> string \<Rightarrow> string \<Rightarrow> (string + unit) \<times> mx_request list" where
  "joinRoom ask accessToken roomId =
     (let q = Mq_Join accessToken roomId
      in (case mx_result (ask 0 q) of None \<Rightarrow> Inl ''join failed'' | Some _ \<Rightarrow> Inr (), [q]))"

text \<open>The power levels of a room are read, one user's is set, and all are written back.\<close>

definition setUserPowerLevel ::
    "string \<Rightarrow> homeserver \<Rightarrow> matrix_creds option \<Rightarrow> string \<Rightarrow> string \<Rightarrow> int
     \<Rightarrow> (string + unit) \<times> mx_request list \<times> matrix_creds option" where
  "setUserPowerLevel servicePassword ask orchestrator roomId userId level =
     (case orchestrated servicePassword ask orchestrator ''get power_levels'' (\<lambda>token. Mq_Get_Levels token roomId) of
        (Inl e, sent, orch) \<Rightarrow> (Inl e, sent, orch)
      | (Inr body, sent, None) \<Rightarrow> (Inl ''orchestrator'', sent, None)
      | (Inr body, sent, Some orch) \<Rightarrow>
          let q = Mq_Put_Levels (mc_accessToken orch) roomId
                ((mb_levels body)\<lparr>pl_users := Some (om_set userId level (orelse (pl_users (mb_levels body)) []))\<rparr>)
          in (case mx_result (ask (length sent) q) of
                None \<Rightarrow> (Inl ''set power_levels failed'', sent @ [q], Some orch)
              | Some _ \<Rightarrow> (Inr (), sent @ [q], Some orch)))"

section \<open>Lemmas: retries\<close>

text \<open>A value between zero and one is no positive integer, yet it is taken and rounded down to zero.\<close>

lemma positiveInt_zero: "positiveInt (\<lambda>_. Num (1 / 2)) (Some ''0.5'') 15000 = 0"
  by code_simp

lemma matrixRetryAfterMs_pos: "1 \<le> matrixRetryAfterMs r"
  by (auto simp: matrixRetryAfterMs_def split: jsnum.split)

lemma retry_wait_bounds:
  assumes "0 \<le> maxDelayMs" and "0 \<le> draw"
  shows "min maxDelayMs (matrixRetryAfterMs r) \<le> retry_wait maxDelayMs draw r \<and> retry_wait maxDelayMs draw r \<le> maxDelayMs"
proof -
  have "0 \<le> draw * min 1000 (of_int (min maxDelayMs (matrixRetryAfterMs r)) / 4)"
    using assms matrixRetryAfterMs_pos [of r] by (intro mult_nonneg_nonneg) (auto simp: min_def)
  then show ?thesis by (auto simp: retry_wait_def Let_def min_def)
qed

lemma fetch_from_bounds:
  "fetch_from left maxDelayMs draw request attempt = (result, attempts, waits) \<Longrightarrow>
     attempt < attempts \<and> attempts \<le> attempt + left + 1 \<and> length waits = attempts - attempt - 1 \<and>
     result = request (attempts - 1) \<and>
     (\<forall>k<length waits. \<exists>r. request (attempt + k) = Some r \<and> rp_status r = 429 \<and>
        waits ! k = retry_wait maxDelayMs (draw (attempt + k)) r) \<and>
     (\<forall>r. result = Some r \<and> rp_status r = 429 \<longrightarrow> attempts = attempt + left + 1)"
proof (induction left maxDelayMs draw request attempt arbitrary: result attempts waits rule: fetch_from.induct)
  case (1 left maxDelayMs draw request attempt)
  show ?case
  proof (cases "request attempt")
    case None
    with "1.prems" show ?thesis by (auto simp: fetch_from.simps [of left])
  next
    case (Some r)
    show ?thesis
    proof (cases "rp_status r \<noteq> 429 \<or> left = 0")
      case True
      with Some "1.prems" show ?thesis by (auto simp: fetch_from.simps [of left])
    next
      case False
      obtain result' attempts' waits' where
        rest: "fetch_from (left - 1) maxDelayMs draw request (attempt + 1) = (result', attempts', waits')"
        by (cases "fetch_from (left - 1) maxDelayMs draw request (attempt + 1)")
      have now: "result = result'" "attempts = attempts'" "waits = retry_wait maxDelayMs (draw attempt) r # waits'"
        using "1.prems" Some False rest by (auto simp: fetch_from.simps [of left])
      have ih: "attempt + 1 < attempts' \<and> attempts' \<le> attempt + 1 + (left - 1) + 1 \<and> length waits' = attempts' - (attempt + 1) - 1 \<and>
         result' = request (attempts' - 1) \<and>
         (\<forall>k<length waits'. \<exists>r. request (attempt + 1 + k) = Some r \<and> rp_status r = 429 \<and>
            waits' ! k = retry_wait maxDelayMs (draw (attempt + 1 + k)) r) \<and>
         (\<forall>r. result' = Some r \<and> rp_status r = 429 \<longrightarrow> attempts' = attempt + 1 + (left - 1) + 1)"
        using "1.IH" [OF Some False rest] .
      have len: "length waits = Suc (length waits')" using now by simp
      have "\<exists>r. request (attempt + k) = Some r \<and> rp_status r = 429 \<and>
          waits ! k = retry_wait maxDelayMs (draw (attempt + k)) r" if k: "k < length waits" for k
      proof (cases k)
        case 0
        with now Some False show ?thesis by simp
      next
        case (Suc j)
        with k len have "j < length waits'" by simp
        with ih have "\<exists>r. request (attempt + 1 + j) = Some r \<and> rp_status r = 429 \<and>
            waits' ! j = retry_wait maxDelayMs (draw (attempt + 1 + j)) r" by blast
        then show ?thesis unfolding now(3) Suc by simp
      qed
      moreover have "attempt < attempts \<and> attempts \<le> attempt + left + 1 \<and> length waits = attempts - attempt - 1"
      proof -
        from ih have "attempt + 1 < attempts'" "attempts' \<le> attempt + 1 + (left - 1) + 1"
          "length waits' = attempts' - (attempt + 1) - 1" by blast+
        with now(2) len False show ?thesis by linarith
      qed
      moreover have "result = request (attempts - 1)" unfolding now using ih by blast
      moreover have "attempts = attempt + left + 1" if "result = Some r \<and> rp_status r = 429" for r
      proof -
        have "attempts' = attempt + 1 + (left - 1) + 1" using ih that now(1) by blast
        with False now(2) show ?thesis by simp
      qed
      ultimately show ?thesis by blast
    qed
  qed
qed

text \<open>
  C31: A rate-limited request is tried a bounded number of times: at most one attempt more than the
  configured retries. Every attempt before the last was refused for its rate and followed by one wait,
  which is never longer than the configured maximum and never shorter than the homeserver's hint
  where that is within the maximum; the result is the reply to the last attempt, a refusal only when
  the retries are used up.
\<close>

theorem fetch_bounded:
  assumes "fetchWithRateLimitRetry retries maxDelayMs draw request = (result, attempts, waits)"
    and "0 \<le> maxDelayMs" and "\<forall>k. 0 \<le> draw k"
  shows "1 \<le> attempts \<and> attempts \<le> retries + 1 \<and> length waits = attempts - 1 \<and> result = request (attempts - 1) \<and>
    (\<forall>k<length waits. waits ! k \<le> maxDelayMs \<and>
       (\<exists>r. request k = Some r \<and> rp_status r = 429 \<and> min maxDelayMs (matrixRetryAfterMs r) \<le> waits ! k)) \<and>
    (\<forall>r. result = Some r \<and> rp_status r = 429 \<longrightarrow> attempts = retries + 1)"
proof -
  have all: "0 < attempts \<and> attempts \<le> 0 + retries + 1 \<and> length waits = attempts - 0 - 1 \<and>
     result = request (attempts - 1) \<and>
     (\<forall>k<length waits. \<exists>r. request (0 + k) = Some r \<and> rp_status r = 429 \<and>
        waits ! k = retry_wait maxDelayMs (draw (0 + k)) r) \<and>
     (\<forall>r. result = Some r \<and> rp_status r = 429 \<longrightarrow> attempts = 0 + retries + 1)"
    using assms(1) unfolding fetchWithRateLimitRetry_def by (rule fetch_from_bounds)
  have "waits ! k \<le> maxDelayMs \<and>
       (\<exists>r. request k = Some r \<and> rp_status r = 429 \<and> min maxDelayMs (matrixRetryAfterMs r) \<le> waits ! k)"
    if "k < length waits" for k
  proof -
    from all that have "\<exists>r. request (0 + k) = Some r \<and> rp_status r = 429 \<and>
        waits ! k = retry_wait maxDelayMs (draw (0 + k)) r" by blast
    then obtain r where "request k = Some r" "rp_status r = 429" "waits ! k = retry_wait maxDelayMs (draw k) r"
      by auto
    with retry_wait_bounds [of maxDelayMs "draw k" r] assms(2,3) show ?thesis by auto
  qed
  moreover have "0 < attempts" "attempts \<le> 0 + retries + 1" "length waits = attempts - 0 - 1"
    "result = request (attempts - 1)" "\<forall>r. result = Some r \<and> rp_status r = 429 \<longrightarrow> attempts = 0 + retries + 1"
    using all by blast+
  ultimately show ?thesis by (intro conjI) (linarith | simp only: add_0_left diff_zero | blast)+
qed

definition reply_with :: "nat \<Rightarrow> rat \<Rightarrow> 'a \<Rightarrow> 'a response" where
  "reply_with status seconds body =
     \<lparr>rp_status = status, rp_retryHeader = Num seconds, rp_retryBody = Not_A_Number, rp_body = body\<rparr>"

theorem fetch_bounded_witness:
  "\<exists>result attempts waits. fetchWithRateLimitRetry 8 30000 (\<lambda>_. 1 / 2)
       (\<lambda>k. Some (reply_with (if k < 2 then 429 else 200) 60 k)) = (result, attempts, waits) \<and>
     attempts = 3 \<and> length waits = 2 \<and> list_all (\<lambda>w. w \<le> 30000) waits"
proof -
  let ?fetch = "fetchWithRateLimitRetry 8 30000 (\<lambda>_. 1 / 2) (\<lambda>k. Some (reply_with (if k < 2 then 429 else 200) 60 k))"
  obtain result attempts waits where f: "?fetch = (result, attempts, waits)" by (cases ?fetch)
  have "fst (snd ?fetch) = 3" by code_simp
  with f have "attempts = 3" by simp
  with fetch_bounded [OF f] f show ?thesis by (auto simp: list_all_length)
qed


section \<open>Lemmas: the history of a room\<close>

definition since :: "int \<Rightarrow> 'c sync_room_event \<Rightarrow> bool" where
  "since startedAtMs ev = (startedAtMs \<le> ev_origin_server_ts ev)"

lemma read_chunk_fresh:
  assumes "distinct (map ev_event_id chunk)" and "set (map ev_event_id chunk) \<inter> set seen = {}"
  shows "read_chunk no_content roomId startedAtMs newestFirst seen chunk =
    (newestFirst @ map (toTimelineEvent no_content roomId) (filter (since startedAtMs) chunk),
     seen @ map ev_event_id (filter (since startedAtMs) chunk), \<not> list_all (since startedAtMs) chunk)"
proof -
  have "foldl (read_event no_content roomId startedAtMs) (newestFirst, seen, b) chunk =
    (newestFirst @ map (toTimelineEvent no_content roomId) (filter (since startedAtMs) chunk),
     seen @ map ev_event_id (filter (since startedAtMs) chunk), b \<or> \<not> list_all (since startedAtMs) chunk)" for b
    using assms
  proof (induction chunk arbitrary: newestFirst seen b)
    case (Cons ev chunk)
    then show ?case by (cases "since startedAtMs ev") (auto simp: since_def)
  qed simp
  then show ?thesis by (simp add: read_chunk_def)
qed

text \<open>
  The homeserver serves \<open>events\<close> (newest first) in at most \<open>n\<close> pages from \<open>tok\<close> on: every request is
  answered in time by a page, the pages follow each other without a gap, and only the last of them has
  no token of a next page.
\<close>

inductive serves :: "'c history_env \<Rightarrow> nat \<Rightarrow> nat \<Rightarrow> string option \<Rightarrow> 'c sync_room_event list \<Rightarrow> bool"
  for env :: "'c history_env" where
  serves_last: "page_reply env page tok = Some res \<Longrightarrow> response_ok res \<Longrightarrow> \<not> truthy (hp_end (rp_body res)) \<Longrightarrow>
     serves env (Suc n) page tok (hp_chunk (rp_body res))"
| serves_page: "page_reply env page tok = Some res \<Longrightarrow> response_ok res \<Longrightarrow> hp_chunk (rp_body res) \<noteq> [] \<Longrightarrow>
     truthy (hp_end (rp_body res)) \<Longrightarrow> hp_end (rp_body res) \<noteq> tok \<Longrightarrow>
     serves env n (Suc page) (hp_end (rp_body res)) rest \<Longrightarrow>
     serves env (Suc n) page tok (hp_chunk (rp_body res) @ rest)"

inductive_cases serves_0: "serves env 0 page tok events"

lemma older_than_start:
  assumes "sorted_wrt (\<lambda>a b. ev_origin_server_ts b \<le> ev_origin_server_ts a) (chunk @ rest)"
    and "\<not> list_all (since startedAtMs) chunk"
  shows "filter (since startedAtMs) rest = []"
  using assms by (fastforce simp: since_def list_all_iff sorted_wrt_append filter_empty_conv)

lemma history_from_serves:
  assumes "serves env n page tok events"
    and "sorted_wrt (\<lambda>a b. ev_origin_server_ts b \<le> ev_origin_server_ts a) events"
    and "distinct (map ev_event_id events)" and "set (map ev_event_id events) \<inter> set seen = {}"
  shows "history_from env roomId startedAtMs n page tok newestFirst seen =
    Inr (rev (newestFirst @ map (toTimelineEvent (he_noContent env) roomId) (filter (since startedAtMs) events)))"
  using assms
proof (induction arbitrary: newestFirst seen rule: serves.induct)
  case (serves_last page tok res n)
  then show ?case by (simp add: read_chunk_fresh)
next
  case (serves_page page tok res n rest)
  let ?chunk = "hp_chunk (rp_body res)"
  have chunk: "read_chunk (he_noContent env) roomId startedAtMs newestFirst seen ?chunk =
    (newestFirst @ map (toTimelineEvent (he_noContent env) roomId) (filter (since startedAtMs) ?chunk),
     seen @ map ev_event_id (filter (since startedAtMs) ?chunk), \<not> list_all (since startedAtMs) ?chunk)"
    using serves_page.prems by (intro read_chunk_fresh) auto
  show ?case
  proof (cases "list_all (since startedAtMs) ?chunk")
    case True
    have "history_from env roomId startedAtMs (Suc n) page tok newestFirst seen =
      history_from env roomId startedAtMs n (Suc page) (hp_end (rp_body res))
        (newestFirst @ map (toTimelineEvent (he_noContent env) roomId) (filter (since startedAtMs) ?chunk))
        (seen @ map ev_event_id (filter (since startedAtMs) ?chunk))"
      using True serves_page.hyps(1-5) chunk by (simp add: Let_def)
    also have "\<dots> = Inr (rev ((newestFirst @ map (toTimelineEvent (he_noContent env) roomId) (filter (since startedAtMs) ?chunk)) @
        map (toTimelineEvent (he_noContent env) roomId) (filter (since startedAtMs) rest)))"
      using serves_page.prems by (intro serves_page.IH) (auto simp: sorted_wrt_append)
    finally show ?thesis by simp
  next
    case False
    then have "filter (since startedAtMs) rest = []" by (rule older_than_start [OF serves_page.prems(1)])
    with False serves_page.hyps(1,2) chunk show ?thesis by simp
  qed
qed


definition said :: "nat \<Rightarrow> int \<Rightarrow> string sync_room_event" where
  "said k ts = \<lparr>ev_type = ''m.room.message'', ev_sender = ''@a:x'', ev_event_id = ''e'' @ show_nat k,
     ev_origin_server_ts = ts, ev_content = None\<rparr>"

text \<open>A homeserver that serves the given pages, refusing the first attempt for each.\<close>

definition page_token :: "nat \<Rightarrow> string option" where
  "page_token k = (if k = 0 then None else Some (''t'' @ show_nat k))"

definition paged :: "string sync_room_event list list \<Rightarrow> string history_env" where
  "paged pages =
     \<lparr>he_retries = 8, he_maxDelayMs = 30000, he_draw = (\<lambda>_ _. 0),
      he_request = (\<lambda>page tok k.
        if k = 0 then Some (reply_with 429 1 \<lparr>hp_chunk = [], hp_end = None\<rparr>)
        else Some (reply_with 200 1 \<lparr>hp_chunk = pages ! page,
          hp_end = (if Suc page < length pages then page_token (Suc page) else None)\<rparr>)),
      he_noContent = ''{}''\<rparr>"


text \<open>A page without events ends the history even where it names a next page.\<close>

lemma empty_page_truncates:
  "roomHistory (paged [[said 2 20], [], [said 1 10]]) ''!r'' 0 = Inr [toTimelineEvent ''{}'' ''!r'' (said 2 20)]"
  by code_simp

text \<open>Whatever the homeserver answers, no event comes twice and none from before the start.\<close>

lemma history_is_clean:
  assumes "history_from env roomId startedAtMs left page tok newestFirst seen = Inr events"
    and "map te_eventId newestFirst = seen" and "distinct seen" and "\<forall>e\<in>set newestFirst. startedAtMs \<le> te_ts e"
  shows "distinct (map te_eventId events) \<and> (\<forall>e\<in>set events. startedAtMs \<le> te_ts e)"
  using assms
proof (induction env roomId startedAtMs left page tok newestFirst seen rule: history_from.induct)
  case (2 env roomId startedAtMs left page tok newestFirst seen)
  have clean: "map te_eventId nf = sn \<and> distinct sn \<and> (\<forall>e\<in>set nf. startedAtMs \<le> te_ts e)"
    if "foldl (read_event c roomId startedAtMs) (nf0, sn0, b0) chunk = (nf, sn, b)"
      and "map te_eventId nf0 = sn0" "distinct sn0" "\<forall>e\<in>set nf0. startedAtMs \<le> te_ts e"
    for nf sn b nf0 sn0 b0 chunk and c :: 'a
    using that
  proof (induction chunk arbitrary: nf0 sn0 b0)
    case (Cons ev chunk)
    show ?case
    proof (cases "read_event c roomId startedAtMs (nf0, sn0, b0) ev")
      case (fields nf1 sn1 b1)
      with Cons.prems have "map te_eventId nf1 = sn1" "distinct sn1" "\<forall>e\<in>set nf1. startedAtMs \<le> te_ts e"
        by (auto simp: toTimelineEvent_def split: if_splits)
      with Cons fields show ?thesis by simp
    qed
  qed auto
  obtain res where res: "page_reply env page tok = Some res" "response_ok res"
    using "2.prems"(1) by (auto split: option.splits if_splits)
  obtain nf sn b where r: "read_chunk (he_noContent env) roomId startedAtMs newestFirst seen (hp_chunk (rp_body res)) = (nf, sn, b)"
    by (cases "read_chunk (he_noContent env) roomId startedAtMs newestFirst seen (hp_chunk (rp_body res))")
  have ok: "map te_eventId nf = sn \<and> distinct sn \<and> (\<forall>e\<in>set nf. startedAtMs \<le> te_ts e)"
    using clean r "2.prems"(2-4) unfolding read_chunk_def by blast
  show ?case
  proof (cases "b \<or> hp_chunk (rp_body res) = [] \<or> \<not> truthy (hp_end (rp_body res))")
    case True
    with "2.prems"(1) res r have "events = rev nf" by auto
    with ok show ?thesis by (simp add: rev_map [symmetric])
  next
    case False
    with "2.prems"(1) res r have "hp_end (rp_body res) \<noteq> tok"
      "history_from env roomId startedAtMs left (Suc page) (hp_end (rp_body res)) nf sn = Inr events"
      by (auto simp: Let_def split: if_splits)
    with "2.IH" [OF res(1) _ refl refl r [symmetric] refl refl] False res(2) ok show ?thesis by auto
  qed
qed simp


section \<open>Lemmas: the stream of events\<close>

text \<open>
  The homeserver keeps \<open>timeline\<close>, the events of all rooms in order; the token of the position \<open>n\<close> is
  \<open>tok n\<close>, and a request without a token starts at the position \<open>p\<close>. An answer to a request hands out,
  for every room, its events from the position of the request to that of the token it names.
\<close>

definition at_position :: "(nat \<Rightarrow> string) \<Rightarrow> nat \<Rightarrow> string option \<Rightarrow> nat \<Rightarrow> bool" where
  "at_position tok p token n = (case token of None \<Rightarrow> n = p | Some t \<Rightarrow> t = tok n)"

definition of_room :: "string \<Rightarrow> 'c room_event list \<Rightarrow> 'c room_event list" where
  "of_room r = filter (\<lambda>e. te_roomId e = r)"

definition part :: "nat \<Rightarrow> nat \<Rightarrow> 'a list \<Rightarrow> 'a list" where
  "part n m xs = take (m - n) (drop n xs)"

definition honest_reply ::
    "'c room_event list \<Rightarrow> (nat \<Rightarrow> string) \<Rightarrow> nat \<Rightarrow> 'c \<Rightarrow> string option \<Rightarrow> 'c sync_response \<Rightarrow> bool" where
  "honest_reply timeline tok p no_content token data =
     (\<exists>n m. at_position tok p token n \<and> n \<le> m \<and> m \<le> length timeline \<and> sy_next_batch data = tok m \<and>
        (\<forall>r. of_room r (batch_events no_content data) = of_room r (part n m timeline)))"

text \<open>A request may also go unanswered or be refused; everything else happens at any time.\<close>

fun honest_event ::
    "'c room_event list \<Rightarrow> (nat \<Rightarrow> string) \<Rightarrow> nat \<Rightarrow> 'c \<Rightarrow> 'c bot \<Rightarrow> 'c bot_event \<Rightarrow> bool" where
  "honest_event timeline tok p no_content b (Be_Reply k (Some res)) =
     (response_ok res \<longrightarrow> (\<forall>token. k < length (bt_streams b) \<and> bt_streams b ! k = Sm_Reading token \<longrightarrow>
        honest_reply timeline tok p no_content token (rp_body res)))"
| "honest_event timeline tok p no_content b Be_Start = bt_running b"
| "honest_event timeline tok p no_content b e = True"

inductive streaming :: "'c room_event list \<Rightarrow> (nat \<Rightarrow> string) \<Rightarrow> nat \<Rightarrow> 'c \<Rightarrow> 'c bot \<Rightarrow> bool"
  for timeline :: "'c room_event list" and tok :: "nat \<Rightarrow> string" and p :: nat and no_content :: 'c where
  stream_starts: "\<not> bt_running b \<Longrightarrow> bt_streams b = [] \<Longrightarrow> bt_handed b = [] \<Longrightarrow> streaming timeline tok p no_content (startBot b)"
| stream_goes_on: "streaming timeline tok p no_content b \<Longrightarrow> honest_event timeline tok p no_content b e \<Longrightarrow>
     streaming timeline tok p no_content (bot_step no_content (\<lambda>_. False) b e)"

text \<open>What is handed over so far, and where the one stream goes on.\<close>

definition handed_up_to :: "'c room_event list \<Rightarrow> nat \<Rightarrow> nat \<Rightarrow> 'c bot \<Rightarrow> bool" where
  "handed_up_to timeline p n b =
     (p \<le> n \<and> n \<le> length timeline \<and> (\<forall>r. of_room r (bt_handed b) = of_room r (part p n timeline)))"

definition stream_ok :: "'c room_event list \<Rightarrow> (nat \<Rightarrow> string) \<Rightarrow> nat \<Rightarrow> 'c bot \<Rightarrow> bool" where
  "stream_ok timeline tok p b =
     (\<exists>n token. handed_up_to timeline p n b \<and> at_position tok p token n \<and>
        bt_streams b \<in> {[Sm_Reading token], [Sm_Waiting token], [Sm_Ended]})"

lemma part_append: "p \<le> n \<Longrightarrow> n \<le> m \<Longrightarrow> m \<le> length xs \<Longrightarrow> part p n xs @ part n m xs = part p m xs"
  using take_add [of "n - p" "m - n" "drop p xs"] by (simp add: part_def)

lemma of_room_append: "of_room r (xs @ ys) = of_room r xs @ of_room r ys"
  by (simp add: of_room_def)

lemma hand_over_all [simp]: "hand_over (\<lambda>_. False) es = (es, True)"
  by (induction es) simp_all

lemma at_position_unique:
  "inj tok \<Longrightarrow> at_position tok p (Some t) n \<Longrightarrow> at_position tok p (Some t) m \<Longrightarrow> n = m"
  by (auto simp: at_position_def dest: injD)

lemma at_position_inj: "inj tok \<Longrightarrow> at_position tok p token n \<Longrightarrow> at_position tok p token m \<Longrightarrow> n = m"
  by (cases token) (auto simp: at_position_def dest: injD)

lemma stream_ok_same:
  "stream_ok timeline tok p b \<Longrightarrow> bt_streams b' = bt_streams b \<Longrightarrow> bt_handed b' = bt_handed b \<Longrightarrow> stream_ok timeline tok p b'"
  by (simp add: stream_ok_def handed_up_to_def)

lemma stream_ok_failed:
  assumes "handed_up_to timeline p n b" and "at_position tok p token n" and "bt_streams b = [st]"
    and "bt_handed b' = bt_handed b" and "bt_streams b' = [Sm_Waiting token] \<or> bt_streams b' = [Sm_Reading token] \<or> bt_streams b' = [Sm_Ended]"
  shows "stream_ok timeline tok p b'"
  unfolding stream_ok_def using assms by (intro exI [of _ n] exI [of _ token]) (auto simp: handed_up_to_def)

lemma stream_ok_reply:
  assumes ok: "stream_ok timeline tok p b" and inj: "inj tok"
    and honest: "honest_event timeline tok p no_content b (Be_Reply k reply)"
  shows "stream_ok timeline tok p (sync_reply no_content (\<lambda>_. False) k reply b)"
proof (cases "k < length (bt_streams b) \<and> (\<exists>token. bt_streams b ! k = Sm_Reading token)")
  case False
  then have "sync_reply no_content (\<lambda>_. False) k reply b = b"
    by (auto simp: sync_reply_def split: stream.split)
  with ok show ?thesis by simp
next
  case True
  then obtain n token where n: "handed_up_to timeline p n b" "at_position tok p token n" and k: "k = 0"
    and st: "bt_streams b = [Sm_Reading token]"
    using ok by (auto simp: stream_ok_def)
  note failed = stream_ok_failed [OF n st]
  show ?thesis
  proof (cases reply)
    case None
    then show ?thesis by (intro failed) (auto simp: sync_reply_def sync_failed_def st k)
  next
    case (Some res)
    show ?thesis
    proof (cases "response_ok res")
      case False
      with Some show ?thesis by (intro failed) (auto simp: sync_reply_def st k)
    next
      case True
      let ?data = "rp_body res"
      have "honest_reply timeline tok p no_content token ?data" using honest Some True st k by simp
      then obtain n' m where "at_position tok p token n'" and m: "n' \<le> m" "m \<le> length timeline" "sy_next_batch ?data = tok m"
        and batch: "\<And>r. of_room r (batch_events no_content ?data) = of_room r (part n' m timeline)"
        unfolding honest_reply_def by blast
      then have "n' = n" using at_position_inj [OF inj] n(2) by blast
      let ?b = "sync_reply no_content (\<lambda>_. False) k reply b"
      have b: "bt_handed ?b = bt_handed b @ batch_events no_content ?data"
        "bt_streams ?b = [Sm_Reading (Some (tok m))] \<or> bt_streams ?b = [Sm_Ended]"
        using Some True st k m(3) by (auto simp: sync_reply_def next_request_def Let_def)
      have "handed_up_to timeline p m ?b"
        using n(1) m batch \<open>n' = n\<close> part_append [of p n m timeline, symmetric]
        by (simp add: handed_up_to_def b(1) of_room_append)
      with b(2) show ?thesis
        unfolding stream_ok_def by (intro exI [of _ m] exI [of _ "Some (tok m)"]) (auto simp: at_position_def)
    qed
  qed
qed

lemma stream_ok_resume: "stream_ok timeline tok p b \<Longrightarrow> stream_ok timeline tok p (sync_resume k b)"
  by (cases k) (auto 0 4 simp: stream_ok_def sync_resume_def next_request_def handed_up_to_def split: stream.split)

lemma streaming_ok:
  assumes "streaming timeline tok p no_content b" and "inj tok" and "p \<le> length timeline"
  shows "stream_ok timeline tok p b"
  using assms(1)
proof induction
  case (stream_starts b)
  then show ?case using assms(3)
    by (auto simp: stream_ok_def startBot_def handed_up_to_def part_def at_position_def of_room_def)
next
  case (stream_goes_on b e)
  show ?case
  proof (cases e)
    case (Be_Reply k reply)
    with stream_goes_on stream_ok_reply [OF _ assms(2)] show ?thesis by simp
  next
    case (Be_Resume k)
    with stream_goes_on stream_ok_resume show ?thesis by simp
  qed (use stream_goes_on in \<open>auto intro!: stream_ok_same [of timeline tok p b] simp: ensureReady_def registerBot_def
      startBot_def stopBot_def split: option.split prod.split\<close>)
qed


definition heard :: "string room_event list" where
  "heard = [toTimelineEvent ''{}'' ''!a'' (said 1 10), toTimelineEvent ''{}'' ''!b'' (said 2 20),
     toTimelineEvent ''{}'' ''!a'' (said 3 30)]"

definition first_batch :: "string sync_response" where
  "first_batch = \<lparr>sy_next_batch = unary_id 2, sy_join = [(''!a'', [said 1 10]), (''!b'', [said 2 20])]\<rparr>"

definition second_batch :: "string sync_response" where
  "second_batch = \<lparr>sy_next_batch = unary_id 3, sy_join = [(''!a'', [said 3 30])]\<rparr>"

definition after_steps :: "string bot_event list \<Rightarrow> string bot" where
  "after_steps es = foldl (bot_step ''{}'' (\<lambda>_. False)) (startBot new_bot) es"


text \<open>A handler that throws costs the rest of its batch: the next request already goes on behind it.\<close>

lemma throwing_handler_drops:
  "map te_eventId (bt_handed (foldl (bot_step ''{}'' (\<lambda>e. te_eventId e = ''e1'')) (startBot new_bot)
     [Be_Reply 0 (Some (reply_with 200 0 first_batch)), Be_Resume 0,
      Be_Reply 0 (Some (reply_with 200 0 second_batch))])) = [''e1'', ''e3'']"
  by code_simp

section \<open>Lemmas: the orchestrator\<close>

text \<open>Setting one user's level leaves everybody else's, and the rest of the content, as it was read.\<close>

lemma levels_of_others_kept:
  assumes "setUserPowerLevel password ask (Some orch) roomId userId level = (Inr (), sent, orch')"
  shows "\<exists>body levels. ask 0 (Mq_Get_Levels (mc_accessToken orch) roomId) = Some body \<and>
    sent = [Mq_Get_Levels (mc_accessToken orch) roomId, Mq_Put_Levels (mc_accessToken orch) roomId levels] \<and>
    pl_other levels = pl_other (mb_levels (rp_body body)) \<and> pl_users levels \<noteq> None \<and>
    om_get (the (pl_users levels)) userId = Some level \<and>
    (\<forall>u. u \<noteq> userId \<longrightarrow> om_get (the (pl_users levels)) u =
       om_get (orelse (pl_users (mb_levels (rp_body body))) []) u)"
  using assms
  by (auto simp: update_conv' setUserPowerLevel_def orchestrated_def getOrchestrator_def mx_result_def Let_def
      split: option.splits if_splits)

text \<open>An account once obtained is used for every later request; none is registered besides.\<close>

lemma orchestrator_kept:
  "orchestrated password ask (Some orch) operation request = (result, sent, orch') \<Longrightarrow>
     orch' = Some orch \<and> sent = [request (mc_accessToken orch)]"
  by (auto simp: orchestrated_def getOrchestrator_def Let_def split: option.splits)

end
