(* ===== verification/Etherpad_Service.thy ===== *)
theory Etherpad_Service
  imports Etherpad_Models Study_Store Store_Refinement
begin

text \<open>
  session-manager/src/etherpad/etherpad.service.ts and etherpad.repository.ts: the writing tasks of a
  study. The service admits participants to one kind of task, keeps a private pad for the entry and
  the exit of each and a pad for each group, captures their final text and switches the Etherpad
  server on and off. Its methods run one after another (\<open>serial\<close>), so each is one step of the
  records; the answers of the servers, the clock at each reading, the tables at each reading and
  the hash are arguments. The prefixes of the repository's keys are four maps.

  The lemmas: an admission never changes its kind and is never taken back, a captured text is final
  and within its limit, a task keeps its pad and its deadline; the server is only stopped when
  nobody writes and every text is captured; a pad whose text cannot be captured keeps every later
  one from being captured.
\<close>

section \<open>Records\<close>

datatype pad_failure = Pf_Unauthorized | Pf_Conflict string | Pf_Unavailable string | Pf_Failed string

record writing_admission =
  dm_owner :: string
  dm_mode :: task_mode
  dm_expiresAt :: rat
  dm_sessionId :: "string option"
  dm_participantId :: "string option"
  dm_done :: bool

record control =
  ct_enabled :: bool
  ct_state :: server_state
  ct_error :: "string option"
  ct_transitionAt :: "int option"

record pad_store =
  ep_control :: "control option"
  ep_admissions :: "(string \<times> writing_admission) list"
  ep_pads :: "(string \<times> pad) list"
  ep_index :: "((pad_phase \<times> string) \<times> string) list"
  ep_nextId :: nat

definition ADMISSION_TTL_MS :: rat where "ADMISSION_TTL_MS = 30 * 60000"
definition ADMISSION_AFTER_DISCUSSION_MS :: rat where "ADMISSION_AFTER_DISCUSSION_MS = 20 * 60000"
definition ENTRY_PAD_MINUTES :: rat where "ENTRY_PAD_MINUTES = 5"
definition EXIT_PAD_MINUTES :: rat where "EXIT_PAD_MINUTES = 2"
definition PAD_ACCESS_GRACE_MS :: int where "PAD_ACCESS_GRACE_MS = 60000"
definition MAX_PAD_TEXT_CODE_POINTS :: nat where "MAX_PAD_TEXT_CODE_POINTS = 1000"
definition ETHERPAD_START_TIMEOUT_MS :: int where "ETHERPAD_START_TIMEOUT_MS = 90000"

definition put_control :: "control \<Rightarrow> pad_store \<Rightarrow> pad_store" where
  "put_control c ep = ep\<lparr>ep_control := Some c\<rparr>"

definition put_admission :: "writing_admission \<Rightarrow> pad_store \<Rightarrow> pad_store" where
  "put_admission a ep = ep\<lparr>ep_admissions := om_set (dm_owner a) a (ep_admissions ep)\<rparr>"

definition put_pad :: "pad \<Rightarrow> pad_store \<Rightarrow> pad_store" where
  "put_pad d ep = ep\<lparr>ep_pads := om_set (pd_id d) d (ep_pads ep)\<rparr>"

definition put_index :: "pad_phase \<Rightarrow> string \<Rightarrow> string \<Rightarrow> pad_store \<Rightarrow> pad_store" where
  "put_index phase k i ep = ep\<lparr>ep_index := om_set (phase, k) i (ep_index ep)\<rparr>"

definition pad_documents :: "pad_store \<Rightarrow> pad list" where
  "pad_documents ep = map snd (ep_pads ep)"

section \<open>Control and admissions\<close>

definition control_of :: "pad_store \<Rightarrow> control" where
  "control_of ep =
     orelse (ep_control ep) \<lparr>ct_enabled = False, ct_state = Es_Stopped, ct_error = None, ct_transitionAt = None\<rparr>"

definition activeAdmissions :: "int \<Rightarrow> pad_store \<Rightarrow> writing_admission list" where
  "activeAdmissions now ep =
     filter (\<lambda>a. dm_mode a = Task_Etherpad \<and> \<not> dm_done a \<and> of_int now < dm_expiresAt a) (map snd (ep_admissions ep))"

definition etherpadStatus :: "int \<Rightarrow> pad_store \<Rightarrow> etherpad_status" where
  "etherpadStatus now ep =
     \<lparr>es_enabled = ct_enabled (control_of ep), es_state = ct_state (control_of ep),
      es_activeParticipants = length (activeAdmissions now ep),
      es_error = (if truthy (ct_error (control_of ep)) then ct_error (control_of ep) else None)\<rparr>"

definition etherpadBusy :: "pad_store \<Rightarrow> bool" where
  "etherpadBusy ep = (ct_state (control_of ep) \<in> set [Es_Starting, Es_Stopping])"

definition setEnabled ::
    "bool \<Rightarrow> int \<Rightarrow> int \<Rightarrow> bool \<Rightarrow> pad_store \<Rightarrow> (pad_failure + etherpad_status) \<times> pad_store" where
  "setEnabled configured now later enabled ep =
     (if etherpadBusy ep then (Inl (Pf_Conflict ''Etherpad is changing state; wait for it to finish''), ep)
      else if enabled \<and> \<not> configured then (Inl (Pf_Unavailable ''Etherpad is not configured''), ep)
      else
        let ep' = put_control \<lparr>ct_enabled = enabled, ct_state = (if enabled then Es_Starting else Es_Draining),
              ct_error = None, ct_transitionAt = Some now\<rparr> ep
        in (Inr (etherpadStatus later ep'), ep'))"

definition padOwner :: "(string \<Rightarrow> string) \<Rightarrow> string \<Rightarrow> pad_failure + string" where
  "padOwner hash token =
     (if token = [] \<or> 256 < length token then Inl Pf_Unauthorized else Inr (hash token))"

definition prepareAdmission ::
    "(string \<Rightarrow> string) \<Rightarrow> int \<Rightarrow> string \<Rightarrow> pad_store \<Rightarrow> (pad_failure + task_mode) \<times> pad_store" where
  "prepareAdmission hash now token ep =
     (case padOwner hash token of
        Inl e \<Rightarrow> (Inl e, ep)
      | Inr owner \<Rightarrow>
          case om_get (ep_admissions ep) owner of
            Some prior \<Rightarrow> (Inr (dm_mode prior), ep)
          | None \<Rightarrow>
              if ct_enabled (control_of ep) \<and> ct_state (control_of ep) \<noteq> Es_Ready
              then (Inl (Pf_Unavailable ''The writing workspace is starting. Please retry shortly.''), ep)
              else
                let mode = (if ct_enabled (control_of ep) then Task_Etherpad else Task_Ranking)
                in (Inr mode, put_admission
                      \<lparr>dm_owner = owner, dm_mode = mode, dm_expiresAt = of_int now + ADMISSION_TTL_MS,
                       dm_sessionId = None, dm_participantId = None, dm_done = False\<rparr> ep))"

definition indexed_pad :: "pad_store \<Rightarrow> pad_phase \<Rightarrow> string \<Rightarrow> pad option" where
  "indexed_pad ep phase k = Option.bind (om_get (ep_index ep) (phase, k)) (om_get (ep_pads ep))"

definition modeFor :: "(string \<Rightarrow> string) \<Rightarrow> int \<Rightarrow> string \<Rightarrow> pad_store \<Rightarrow> pad_failure + task_mode" where
  "modeFor hash now token ep =
     (case padOwner hash token of
        Inl e \<Rightarrow> Inl e
      | Inr owner \<Rightarrow>
          case om_get (ep_admissions ep) owner of
            None \<Rightarrow>
              if ct_enabled (control_of ep) then Inl (Pf_Conflict ''Please start at the study entry page'')
              else Inr Task_Ranking
          | Some a \<Rightarrow>
              if dm_mode a = Task_Etherpad \<and> (dm_expiresAt a < of_int now \<or> dm_done a)
              then Inl (Pf_Conflict ''This writing study has ended'')
              else if dm_mode a = Task_Etherpad \<and>
                map_option pd_state (indexed_pad ep Pad_Entry (dm_owner a)) \<noteq> Some Pad_Captured
              then Inl (Pf_Conflict ''Please finish your entry writing task first'')
              else Inr (dm_mode a))"

definition attachAdmission ::
    "(string \<Rightarrow> string) \<Rightarrow> int \<Rightarrow> string \<Rightarrow> session \<Rightarrow> string \<Rightarrow> pad_store \<Rightarrow> (pad_failure + unit) \<times> pad_store" where
  "attachAdmission hash now token s pid ep =
     (if \<not> isEtherpad s then (Inr (), ep)
      else case padOwner hash token of
        Inl e \<Rightarrow> (Inl e, ep)
      | Inr owner \<Rightarrow>
          case om_get (ep_admissions ep) owner of
            None \<Rightarrow> (Inl (Pf_Conflict ''Missing writing admission''), ep)
          | Some a \<Rightarrow>
              if dm_mode a \<noteq> Task_Etherpad then (Inl (Pf_Conflict ''Missing writing admission''), ep)
              else
                let ep1 = put_admission (a\<lparr>dm_sessionId := Some (se_id s), dm_participantId := Some pid,
                      dm_expiresAt := of_int now + se_durationMinutes s * 60000 + ADMISSION_AFTER_DISCUSSION_MS\<rparr>) ep
                in (Inr (), foldl (\<lambda>ep d.
                      if pd_owner d \<noteq> Some owner then ep
                      else put_pad (d\<lparr>pd_sessionId := Some (se_id s), pd_participantId := Some pid,
                        pd_conditionId := Some (cd_id (se_condition s)), pd_roundId := Some (se_roundId s)\<rparr>) ep)
                    ep1 (pad_documents ep1)))"

definition leaveStudy :: "(string \<Rightarrow> string) \<Rightarrow> string \<Rightarrow> pad_store \<Rightarrow> (pad_failure + unit) \<times> pad_store" where
  "leaveStudy hash token ep =
     (case padOwner hash token of
        Inl e \<Rightarrow> (Inl e, ep)
      | Inr owner \<Rightarrow>
          case om_get (ep_admissions ep) owner of
            None \<Rightarrow> (Inr (), ep)
          | Some a \<Rightarrow>
              (Inr (), if dm_mode a \<noteq> Task_Etherpad then ep else put_admission (a\<lparr>dm_done := True\<rparr>) ep))"

section \<open>Pads\<close>

text \<open>
  The answer of a close request: nothing where it fails, otherwise the text (where it is a string)
  and the revision.
\<close>

type_synonym close_reply = "(string option \<times> int option) option"

definition capture :: "close_reply \<Rightarrow> int \<Rightarrow> pad \<Rightarrow> pad_store \<Rightarrow> (pad_failure + pad) \<times> pad_store" where
  "capture reply now doc ep =
     (if pd_state doc = Pad_Captured then (Inr doc, ep)
      else
        let failed = doc\<lparr>pd_state := Pad_Error, pd_error := Some ''Content capture failed; retry required''\<rparr>
        in case reply of
             None \<Rightarrow> (Inl (Pf_Unavailable ''Etherpad /gdm/close failed''), put_pad failed ep)
           | Some (text, revision) \<Rightarrow>
               if text = None \<or> MAX_PAD_TEXT_CODE_POINTS < length (the text)
               then (Inl (Pf_Failed ''Invalid Etherpad snapshot''), put_pad failed ep)
               else
                 let captured = doc\<lparr>pd_text := text, pd_revision := revision, pd_state := Pad_Captured,
                       pd_capturedAt := Some (Stamp now), pd_error := None\<rparr>
                 in (Inr captured, put_pad captured ep))"

text \<open>The planned end of a discussion; \<open>None\<close> where its start cannot be read.\<close>

definition discussion_end :: "session \<Rightarrow> rat option" where
  "discussion_end s =
     map_option (\<lambda>t. of_int t + se_durationMinutes s * 60000) (Option.bind (se_startedAt s) parse_ms)"

definition discussion_ended :: "int \<Rightarrow> session \<Rightarrow> bool" where
  "discussion_ended now s =
     (se_status s = Completed \<or>
      se_status s = Running \<and> (case discussion_end s of None \<Rightarrow> False | Some t \<Rightarrow> t \<le> of_int now))"

text \<open>
  What a request for a pad meets: the clock when it is checked and after Etherpad answered, the
  tables, and the answers to the start, create and close requests (\<open>None\<close> and \<open>False\<close> where a
  request fails).
\<close>

record pad_env =
  pe_now :: int
  pe_later :: int
  pe_access :: db
  pe_loaded :: db
  pe_start :: "bool option"
  pe_create :: bool
  pe_close :: close_reply

definition pad_session ::
    "pad_env \<Rightarrow> writing_admission \<Rightarrow> string \<Rightarrow> pad_phase \<Rightarrow> string option \<Rightarrow> pad_failure + session option" where
  "pad_session env a token phase sid =
     (if phase = Pad_Entry then Inr None
      else if \<not> truthy sid \<or> dm_sessionId a \<noteq> sid \<or> \<not> hasParticipantAccess (the sid) token None (pe_access env)
      then Inl Pf_Unauthorized
      else case getSession (the sid) (pe_loaded env) of
          None \<Rightarrow> Inl (Pf_Conflict ''Not a writing session'')
        | Some s \<Rightarrow>
            if \<not> isEtherpad s then Inl (Pf_Conflict ''Not a writing session'')
            else if phase = Pad_Group \<and> se_status s \<notin> set [Running, Completed]
            then Inl (Pf_Conflict ''Discussion has not started'')
            else if phase = Pad_Exit \<and> \<not> discussion_ended (pe_now env) s
            then Inl (Pf_Conflict (if se_status s = Running then ''DISCUSSION_PENDING'' else ''DISCUSSION_UNAVAILABLE''))
            else Inr (Some s))"

definition pad_name :: "(nat \<Rightarrow> string) \<Rightarrow> pad_store \<Rightarrow> string" where
  "pad_name uuid ep = ''gdm-'' @ uuid (ep_nextId ep)"

text \<open>A new pad is stored, and its place in the index, before Etherpad is asked for it.\<close>

definition store_pad :: "string \<Rightarrow> pad \<Rightarrow> pad_store \<Rightarrow> pad_store" where
  "store_pad k d ep = put_index (pd_phase d) k (pd_id d) (put_pad d ep)\<lparr>ep_nextId := ep_nextId ep + 1\<rparr>"

definition open_pad ::
    "(nat \<Rightarrow> string) \<Rightarrow> pad_env \<Rightarrow> writing_admission \<Rightarrow> pad_phase \<Rightarrow> string \<Rightarrow> session option \<Rightarrow> pad_store
     \<Rightarrow> (pad_failure + pad) \<times> pad_store" where
  "open_pad uuid env a phase k s ep =
     (if dm_done a \<or> dm_expiresAt a \<le> of_int (pe_now env) then (Inl (Pf_Conflict ''Writing phase has ended''), ep)
      else if phase = Pad_Entry \<and> truthy (dm_sessionId a)
      then (Inl (Pf_Conflict ''Entry task already ended''), ep)
      else
        case (if phase = Pad_Group then Option.bind s discussion_end
              else Some (of_int (pe_now env) +
                (if phase = Pad_Entry then ENTRY_PAD_MINUTES else EXIT_PAD_MINUTES) * 60000)) of
          None \<Rightarrow> (Inl (Pf_Failed ''Invalid time value''), ep)
        | Some deadline \<Rightarrow>
            let d = \<lparr>pd_id = pad_name uuid ep, pd_phase = phase, pd_deadline = iso deadline,
                  pd_state = Pad_Open, pd_text = None, pd_revision = None, pd_capturedAt = None,
                  pd_error = None, pd_owner = (if phase = Pad_Group then None else Some k),
                  pd_sessionId = (case s of Some s \<Rightarrow> Some (se_id s) | None \<Rightarrow> dm_sessionId a),
                  pd_participantId = (if phase = Pad_Group then None else dm_participantId a),
                  pd_conditionId = map_option (\<lambda>s. cd_id (se_condition s)) s,
                  pd_roundId = map_option se_roundId s\<rparr>
            in (Inr d, store_pad k d ep))"

text \<open>The access to an open pad, whose text the service signs.\<close>

record pad_grant =
  gr_padId :: string
  gr_exp :: "int option"
  gr_authorToken :: string
  gr_authorName :: string
  gr_authorColor :: string

record study_pad =
  sp_id :: string
  sp_phase :: pad_phase
  sp_deadline :: stamp
  sp_state :: pad_state
  sp_text :: "string option"
  sp_revision :: "int option"
  sp_capturedAt :: "stamp option"
  sp_error :: "string option"
  sp_embed :: "pad_grant option"

definition pad_identity :: "writing_admission \<Rightarrow> pad_phase \<Rightarrow> session option \<Rightarrow> identity" where
  "pad_identity a phase s =
     (case Option.bind s (\<lambda>s. Option.bind (find (\<lambda>p. Some (pt_id p) = dm_participantId a) (se_participants s))
          (\<lambda>p. if phase = Pad_Group \<and> truthy (pt_matrixUserId p) then pt_matrixUserId p else None)) of
        Some i \<Rightarrow> identityFor (buildIdentities (concat (map (\<lambda>p.
          if truthy (pt_matrixUserId p) then [the (pt_matrixUserId p)] else []) (se_participants (the s))))) i
      | None \<Rightarrow> \<lparr>id_name = ''Participant'', id_color = ''#000000''\<rparr>)"

definition grant_for ::
    "(string \<Rightarrow> string) \<Rightarrow> string \<Rightarrow> writing_admission \<Rightarrow> pad_phase \<Rightarrow> session option \<Rightarrow> pad \<Rightarrow> pad_grant option" where
  "grant_for hash owner a phase s d =
     (if pd_state d = Pad_Captured then None
      else Some
        \<lparr>gr_padId = pd_id d, gr_exp = map_option (\<lambda>t. t + PAD_ACCESS_GRACE_MS) (parse_ms (pd_deadline d)),
         gr_authorToken = ''t.'' @ hash (owner @ pd_id d),
         gr_authorName = id_name (pad_identity a phase s), gr_authorColor = id_color (pad_identity a phase s)\<rparr>)"

definition public_pad :: "pad \<Rightarrow> string option \<Rightarrow> pad_grant option \<Rightarrow> study_pad" where
  "public_pad d error grant =
     \<lparr>sp_id = pd_id d, sp_phase = pd_phase d, sp_deadline = pd_deadline d, sp_state = pd_state d,
      sp_text = pd_text d, sp_revision = pd_revision d, sp_capturedAt = pd_capturedAt d,
      sp_error = error, sp_embed = grant\<rparr>"

definition pad_due :: "int \<Rightarrow> pad \<Rightarrow> bool" where
  "pad_due now d = (case parse_ms (pd_deadline d) of None \<Rightarrow> False | Some t \<Rightarrow> t \<le> now)"

text \<open>An open pad is created again, which Etherpad answers with the pad it has, and captured when due.\<close>

definition refresh_pad :: "pad_env \<Rightarrow> pad \<Rightarrow> pad_store \<Rightarrow> (pad_failure + pad) \<times> pad_store" where
  "refresh_pad env d ep =
     (if pd_state d = Pad_Captured then (Inr d, ep)
      else if pe_start env \<noteq> Some True
      then (Inl (Pf_Unavailable ''Writing workspace is starting; please retry''), ep)
      else if \<not> pe_create env then (Inl (Pf_Unavailable ''Etherpad /gdm/create failed''), ep)
      else if pad_due (pe_later env) d then capture (pe_close env) (pe_later env) d ep
      else (Inr d, ep))"

text \<open>The pad a request works on, found or opened.\<close>

definition ensure_pad ::
    "(nat \<Rightarrow> string) \<Rightarrow> pad_env \<Rightarrow> writing_admission \<Rightarrow> pad_phase \<Rightarrow> string \<Rightarrow> session option \<Rightarrow> pad_store
     \<Rightarrow> (pad_failure + pad) \<times> pad_store" where
  "ensure_pad uuid env a phase k s ep =
     (case indexed_pad ep phase k of Some d \<Rightarrow> (Inr d, ep) | None \<Rightarrow> open_pad uuid env a phase k s ep)"

definition requestPad ::
    "(string \<Rightarrow> string) \<Rightarrow> (nat \<Rightarrow> string) \<Rightarrow> pad_env \<Rightarrow> string \<Rightarrow> pad_phase \<Rightarrow> string option \<Rightarrow> pad_store
     \<Rightarrow> (pad_failure + study_pad) \<times> pad_store" where
  "requestPad hash uuid env token phase sid ep =
     (case padOwner hash token of
        Inl e \<Rightarrow> (Inl e, ep)
      | Inr owner \<Rightarrow>
          case om_get (ep_admissions ep) owner of
            None \<Rightarrow> (Inl Pf_Unauthorized, ep)
          | Some a \<Rightarrow>
              if dm_mode a \<noteq> Task_Etherpad then (Inl Pf_Unauthorized, ep)
              else case pad_session env a token phase sid of
                  Inl e \<Rightarrow> (Inl e, ep)
                | Inr s \<Rightarrow>
                    let k = (if phase = Pad_Group then the sid else owner);
                        (found, ep1) = ensure_pad uuid env a phase k s ep
                    in case found of
                         Inl e \<Rightarrow> (Inl e, ep1)
                       | Inr d \<Rightarrow>
                           case refresh_pad env d ep1 of
                             (Inl e, ep2) \<Rightarrow> (Inl e, ep2)
                           | (Inr d, ep2) \<Rightarrow> (Inr (public_pad d (pd_error d) (grant_for hash owner a phase s d)), ep2))"

text \<open>A finished exit pad ends the participant's admission. The public view of it has no error.\<close>

definition finishPad ::
    "(string \<Rightarrow> string) \<Rightarrow> pad_env \<Rightarrow> string \<Rightarrow> string \<Rightarrow> pad_store \<Rightarrow> (pad_failure + study_pad) \<times> pad_store" where
  "finishPad hash env token i ep =
     (case padOwner hash token of
        Inl e \<Rightarrow> (Inl e, ep)
      | Inr owner \<Rightarrow>
          case om_get (ep_pads ep) i of
            None \<Rightarrow> (Inl Pf_Unauthorized, ep)
          | Some d \<Rightarrow>
              if pd_phase d \<noteq> Pad_Group \<and> pd_owner d \<noteq> Some owner \<or>
                pd_phase d = Pad_Group \<and>
                  (\<not> truthy (pd_sessionId d) \<or> \<not> hasParticipantAccess (the (pd_sessionId d)) token None (pe_access env))
              then (Inl Pf_Unauthorized, ep)
              else if pd_phase d = Pad_Group \<and>
                (case parse_ms (pd_deadline d) of None \<Rightarrow> False | Some t \<Rightarrow> pe_now env < t)
              then (Inl (Pf_Conflict ''Discussion is still running''), ep)
              else case capture (pe_close env) (pe_later env) d ep of
                  (Inl e, ep1) \<Rightarrow> (Inl e, ep1)
                | (Inr saved, ep1) \<Rightarrow>
                    (Inr (public_pad saved None None),
                     if pd_phase d \<noteq> Pad_Exit then ep1
                     else case om_get (ep_admissions ep1) owner of
                         None \<Rightarrow> ep1
                       | Some a \<Rightarrow> put_admission (a\<lparr>dm_done := True\<rparr>) ep1))"

definition surveyPadId :: "string \<Rightarrow> string \<Rightarrow> pad_phase \<Rightarrow> pad_store \<Rightarrow> pad_failure + string" where
  "surveyPadId sid pid phase ep =
     (case find (\<lambda>d. pd_sessionId d = Some sid \<and> pd_participantId d = Some pid \<and> pd_phase d = phase)
          (pad_documents ep) of
        Some d \<Rightarrow>
          if pd_state d = Pad_Captured then Inr (pd_id d)
          else Inl (Pf_Conflict ''Please finish saving your writing task first'')
      | None \<Rightarrow> Inl (Pf_Conflict ''Please finish saving your writing task first''))"

section \<open>Reconciliation\<close>

text \<open>The requests a round sends.\<close>

datatype pad_call = Call_Start | Call_Create string | Call_Close string | Call_Stop

text \<open>
  What a round meets: the clock when it starts, when the ended admissions are settled, while the
  server starts, at each pad and at the end; the tables at the three readings of sessions; the
  answers to its requests (whether the server is ready, whether it still runs).
\<close>

record reconcile_env =
  re_now :: int
  re_active :: int
  re_started :: int
  re_pad :: "string \<Rightarrow> int"
  re_last :: int
  re_settled :: db
  re_groups :: db
  re_ended :: db
  re_start :: "bool option"
  re_create :: "string \<Rightarrow> bool"
  re_close :: "string \<Rightarrow> close_reply"
  re_stop :: "bool option"

definition admission_over :: "db \<Rightarrow> writing_admission \<Rightarrow> bool" where
  "admission_over d a =
     (truthy (dm_sessionId a) \<and>
      (case getSession (the (dm_sessionId a)) d of
         None \<Rightarrow> False
       | Some s \<Rightarrow>
           se_status s = Aborted \<or>
           (case find (\<lambda>p. Some (pt_id p) = dm_participantId a) (se_participants s) of
              None \<Rightarrow> False | Some p \<Rightarrow> pt_completedAt p \<noteq> None)))"

definition settle_admissions :: "db \<Rightarrow> writing_admission list \<Rightarrow> pad_store \<Rightarrow> pad_store" where
  "settle_admissions d admissions ep =
     foldl (\<lambda>ep a. if admission_over d a then put_admission (a\<lparr>dm_done := True\<rparr>) ep else ep) ep admissions"

text \<open>A group's pad exists even if nobody opens it.\<close>

definition group_pad :: "(nat \<Rightarrow> string) \<Rightarrow> db \<Rightarrow> string \<Rightarrow> pad_store \<Rightarrow> (pad_failure + unit) \<times> pad_store" where
  "group_pad uuid d sid ep =
     (case getSession sid d of
        None \<Rightarrow> (Inr (), ep)
      | Some s \<Rightarrow>
          if se_startedAt s = None \<or> se_status s \<notin> set [Running, Completed] then (Inr (), ep)
          else if om_get (ep_index ep) (Pad_Group, sid) \<noteq> None then (Inr (), ep)
          else case discussion_end s of
              None \<Rightarrow> (Inl (Pf_Failed ''Invalid time value''), ep)
            | Some deadline \<Rightarrow>
                (Inr (), store_pad sid
                  \<lparr>pd_id = pad_name uuid ep, pd_phase = Pad_Group, pd_deadline = iso deadline,
                   pd_state = Pad_Open, pd_text = None, pd_revision = None, pd_capturedAt = None,
                   pd_error = None, pd_owner = None, pd_sessionId = Some sid, pd_participantId = None,
                   pd_conditionId = Some (cd_id (se_condition s)), pd_roundId = Some (se_roundId s)\<rparr> ep))"

fun group_pads :: "(nat \<Rightarrow> string) \<Rightarrow> db \<Rightarrow> string list \<Rightarrow> pad_store \<Rightarrow> (pad_failure + unit) \<times> pad_store" where
  "group_pads uuid d [] ep = (Inr (), ep)"
| "group_pads uuid d (sid # sids) ep =
     (case group_pad uuid d sid ep of
        (Inl e, ep') \<Rightarrow> (Inl e, ep')
      | (Inr _, ep') \<Rightarrow> group_pads uuid d sids ep')"

definition active_sessions :: "writing_admission list \<Rightarrow> string list" where
  "active_sessions admissions =
     uniq (map the (filter truthy (map dm_sessionId admissions)))"

text \<open>A pad is captured when its deadline has passed, its writer is gone or its group was aborted.\<close>

definition capture_now :: "reconcile_env \<Rightarrow> writing_admission list \<Rightarrow> pad \<Rightarrow> bool" where
  "capture_now env active d =
     (pad_due (re_pad env (pd_id d)) d \<or>
      truthy (pd_owner d) \<and> \<not> list_ex (\<lambda>a. Some (dm_owner a) = pd_owner d) active \<or>
      truthy (pd_sessionId d) \<and>
        map_option se_status (getSession (the (pd_sessionId d)) (re_ended env)) = Some Aborted)"

fun capture_all ::
    "reconcile_env \<Rightarrow> writing_admission list \<Rightarrow> pad list \<Rightarrow> pad_store \<Rightarrow> (pad_failure + unit) \<times> pad_call list \<times> pad_store" where
  "capture_all env active [] ep = (Inr (), [], ep)"
| "capture_all env active (d # ds) ep =
     (if \<not> capture_now env active d then capture_all env active ds ep
      else if \<not> re_create env (pd_id d)
      then (Inl (Pf_Unavailable ''Etherpad /gdm/create failed''), [Call_Create (pd_id d)], ep)
      else case capture (re_close env (pd_id d)) (re_pad env (pd_id d)) d ep of
          (Inl e, ep') \<Rightarrow> (Inl e, [Call_Create (pd_id d), Call_Close (pd_id d)], ep')
        | (Inr _, ep') \<Rightarrow>
            case capture_all env active ds ep' of
              (r, calls, ep'') \<Rightarrow> (r, Call_Create (pd_id d) # Call_Close (pd_id d) # calls, ep''))"

text \<open>
  The middle of a round: the server is started and the pads are captured. It ends the round
  (\<open>True\<close>) where the server is not ready yet.
\<close>

definition serve_pads ::
    "reconcile_env \<Rightarrow> control \<Rightarrow> writing_admission list \<Rightarrow> pad_store \<Rightarrow> (pad_failure + bool) \<times> pad_call list \<times> pad_store" where
  "serve_pads env control active ep =
     (let uncaptured = filter (\<lambda>d. pd_state d \<noteq> Pad_Captured) (pad_documents ep) in
      if \<not> ct_enabled control \<and> active = [] \<and> uncaptured = [] then (Inr False, [], ep)
      else case re_start env of
          None \<Rightarrow> (Inl (Pf_Unavailable ''Etherpad /start failed''), [Call_Start], ep)
        | Some False \<Rightarrow>
            let transitionAt = orelse (ct_transitionAt control) (re_started env)
            in if ETHERPAD_START_TIMEOUT_MS < re_started env - transitionAt
               then (Inl (Pf_Failed ''Etherpad did not start within 90 seconds. Check the server logs and retry.''),
                 [Call_Start], ep)
               else (Inr True, [Call_Start],
                 put_control (control\<lparr>ct_state := Es_Starting, ct_transitionAt := Some transitionAt\<rparr>) ep)
        | Some True \<Rightarrow>
            case capture_all env active uncaptured ep of
              (Inl e, calls, ep') \<Rightarrow> (Inl e, Call_Start # calls, ep')
            | (Inr _, calls, ep') \<Rightarrow>
                (Inr False, Call_Start # calls,
                 put_control \<lparr>ct_enabled = ct_enabled control,
                   ct_state = (if ct_enabled control then Es_Ready else Es_Draining),
                   ct_error = None, ct_transitionAt = None\<rparr> ep'))"

definition stop_server :: "reconcile_env \<Rightarrow> control \<Rightarrow> pad_store \<Rightarrow> (pad_failure + unit) \<times> pad_call list \<times> pad_store" where
  "stop_server env control ep =
     (if ct_enabled control \<or> activeAdmissions (re_last env) ep \<noteq> [] \<or>
        list_ex (\<lambda>d. pd_state d \<noteq> Pad_Captured) (pad_documents ep)
      then (Inr (), [], ep)
      else case re_stop env of
          None \<Rightarrow> (Inl (Pf_Unavailable ''Etherpad /stop failed''), [Call_Stop], ep)
        | Some running \<Rightarrow>
            (Inr (), [Call_Stop], put_control
              \<lparr>ct_enabled = False, ct_state = (if running then Es_Stopping else Es_Stopped),
               ct_error = None, ct_transitionAt = None\<rparr> ep))"

definition failure_text :: "pad_failure \<Rightarrow> string" where
  "failure_text e = (case e of Pf_Unauthorized \<Rightarrow> ''Unauthorized'' | Pf_Conflict m \<Rightarrow> m
     | Pf_Unavailable m \<Rightarrow> m | Pf_Failed m \<Rightarrow> m)"

definition round_failed :: "control \<Rightarrow> pad_failure \<Rightarrow> pad_store \<Rightarrow> pad_store" where
  "round_failed control e ep = put_control (control\<lparr>ct_state := Es_Error, ct_error := Some (failure_text e)\<rparr>) ep"

definition reconcile :: "(nat \<Rightarrow> string) \<Rightarrow> reconcile_env \<Rightarrow> pad_store \<Rightarrow> pad_call list \<times> pad_store" where
  "reconcile uuid env ep =
     (let control = control_of ep;
          ep1 = settle_admissions (re_settled env) (activeAdmissions (re_now env) ep) ep;
          active = activeAdmissions (re_active env) ep1
      in case group_pads uuid (re_groups env) (active_sessions active) ep1 of
           (Inl e, ep2) \<Rightarrow> ([], round_failed control e ep2)
         | (Inr _, ep2) \<Rightarrow>
             case serve_pads env control active ep2 of
               (Inl e, calls, ep3) \<Rightarrow> (calls, round_failed control e ep3)
             | (Inr True, calls, ep3) \<Rightarrow> (calls, ep3)
             | (Inr False, calls, ep3) \<Rightarrow>
                 case stop_server env control ep3 of
                   (Inl e, calls', ep4) \<Rightarrow> (calls @ calls', round_failed control e ep4)
                 | (Inr _, calls', ep4) \<Rightarrow> (calls @ calls', ep4))"

section \<open>The service\<close>

datatype pad_event =
    Ev_Enable bool int int bool
  | Ev_Prepare int string
  | Ev_Attach int string session string
  | Ev_Pad pad_env string pad_phase "string option"
  | Ev_Finish pad_env string string
  | Ev_Leave string
  | Ev_Reconcile reconcile_env

fun pad_step :: "(string \<Rightarrow> string) \<Rightarrow> (nat \<Rightarrow> string) \<Rightarrow> pad_store \<Rightarrow> pad_event \<Rightarrow> pad_store" where
  "pad_step hash uuid ep (Ev_Enable configured now later enabled) = snd (setEnabled configured now later enabled ep)"
| "pad_step hash uuid ep (Ev_Prepare now token) = snd (prepareAdmission hash now token ep)"
| "pad_step hash uuid ep (Ev_Attach now token s pid) = snd (attachAdmission hash now token s pid ep)"
| "pad_step hash uuid ep (Ev_Pad env token phase sid) = snd (requestPad hash uuid env token phase sid ep)"
| "pad_step hash uuid ep (Ev_Finish env token i) = snd (finishPad hash env token i ep)"
| "pad_step hash uuid ep (Ev_Leave token) = snd (leaveStudy hash token ep)"
| "pad_step hash uuid ep (Ev_Reconcile env) = snd (reconcile uuid env ep)"

section \<open>Lemmas: growing records\<close>

text \<open>An admission only becomes done; a pad keeps what it is, and a captured pad its text.\<close>

definition admission_le :: "writing_admission \<Rightarrow> writing_admission \<Rightarrow> bool" where
  "admission_le a b = (dm_owner b = dm_owner a \<and> dm_mode b = dm_mode a \<and> (dm_done a \<longrightarrow> dm_done b))"

definition pad_le :: "pad \<Rightarrow> pad \<Rightarrow> bool" where
  "pad_le d e =
     (pd_id e = pd_id d \<and> pd_phase e = pd_phase d \<and> pd_deadline e = pd_deadline d \<and> pd_owner e = pd_owner d \<and>
      (pd_phase d = Pad_Group \<longrightarrow> pd_sessionId e = pd_sessionId d) \<and>
      (pd_state d = Pad_Captured \<longrightarrow> pd_state e = Pad_Captured \<and> pd_text e = pd_text d \<and>
         pd_revision e = pd_revision d \<and> pd_capturedAt e = pd_capturedAt d))"

definition opt_le :: "('a \<Rightarrow> 'a \<Rightarrow> bool) \<Rightarrow> 'a option \<Rightarrow> 'a option \<Rightarrow> bool" where
  "opt_le le x y = (\<forall>a. x = Some a \<longrightarrow> (\<exists>b. y = Some b \<and> le a b))"

definition pads_below :: "pad_store \<Rightarrow> pad_store \<Rightarrow> bool" where
  "pads_below ep ep' =
     ((\<forall>k. opt_le admission_le (om_get (ep_admissions ep) k) (om_get (ep_admissions ep') k)) \<and>
      (\<forall>i. opt_le pad_le (om_get (ep_pads ep) i) (om_get (ep_pads ep') i)) \<and>
      (\<forall>k. opt_le (=) (om_get (ep_index ep) k) (om_get (ep_index ep') k)))"

definition captured_text_ok :: "pad \<Rightarrow> bool" where
  "captured_text_ok d =
     (pd_state d = Pad_Captured \<longrightarrow> (\<exists>t. pd_text d = Some t \<and> length t \<le> MAX_PAD_TEXT_CODE_POINTS))"

definition keyed_once :: "pad_store \<Rightarrow> bool" where
  "keyed_once ep = (distinct (map fst (ep_admissions ep)) \<and> distinct (map fst (ep_pads ep)))"

definition pads_wf :: "(nat \<Rightarrow> string) \<Rightarrow> pad_store \<Rightarrow> bool" where
  "pads_wf uuid ep =
     (keyed_once ep \<and>
      (\<forall>k a. om_get (ep_admissions ep) k = Some a \<longrightarrow> dm_owner a = k) \<and>
      (\<forall>i d. om_get (ep_pads ep) i = Some d \<longrightarrow>
         pd_id d = i \<and> i \<in> (\<lambda>n. ''gdm-'' @ uuid n) ` {..<ep_nextId ep} \<and>
         (pd_phase d = Pad_Group \<longleftrightarrow> pd_owner d = None) \<and> captured_text_ok d) \<and>
      (\<forall>phase k i. om_get (ep_index ep) (phase, k) = Some i \<longrightarrow>
         (\<exists>d. om_get (ep_pads ep) i = Some d \<and> pd_phase d = phase \<and>
           (if phase = Pad_Group then pd_sessionId d = Some k else pd_owner d = Some k))))"

text \<open>A step from one state to another that keeps the invariant and takes nothing back.\<close>

definition pads_grow :: "(nat \<Rightarrow> string) \<Rightarrow> pad_store \<Rightarrow> pad_store \<Rightarrow> bool" where
  "pads_grow uuid ep ep' = (pads_wf uuid ep' \<and> pads_below ep ep')"

lemma admission_le_refl [simp]: "admission_le a a" by (simp add: admission_le_def)
lemma pad_le_refl [simp]: "pad_le d d" by (simp add: pad_le_def)
lemma admission_le_trans: "admission_le a b \<Longrightarrow> admission_le b c \<Longrightarrow> admission_le a c" by (auto simp: admission_le_def)
lemma pad_le_trans: "pad_le a b \<Longrightarrow> pad_le b c \<Longrightarrow> pad_le a c" by (auto simp: pad_le_def)

lemma opt_le_refl: "(\<And>a. le a a) \<Longrightarrow> opt_le le x x" by (simp add: opt_le_def)

lemma opt_le_trans:
  "(\<And>a b c. le a b \<Longrightarrow> le b c \<Longrightarrow> le a c) \<Longrightarrow> opt_le le x y \<Longrightarrow> opt_le le y z \<Longrightarrow> opt_le le x z"
  unfolding opt_le_def by metis

lemma pads_below_refl [simp]: "pads_below ep ep"
  by (simp add: pads_below_def opt_le_refl)

lemma pads_below_trans: "pads_below a b \<Longrightarrow> pads_below b c \<Longrightarrow> pads_below a c"
  unfolding pads_below_def
  by (blast intro: opt_le_trans [of admission_le] opt_le_trans [of pad_le] opt_le_trans [of "(=)"]
      admission_le_trans pad_le_trans)

lemma pads_grow_refl: "pads_wf uuid ep \<Longrightarrow> pads_grow uuid ep ep"
  by (simp add: pads_grow_def)

lemma pads_grow_trans: "pads_grow uuid a b \<Longrightarrow> (pads_wf uuid b \<Longrightarrow> pads_grow uuid b c) \<Longrightarrow> pads_grow uuid a c"
  unfolding pads_grow_def using pads_below_trans by blast

lemma opt_le_update:
  "(\<And>w. om_get m k = Some w \<Longrightarrow> le w v) \<Longrightarrow> (\<And>w. le w w) \<Longrightarrow> opt_le le (om_get m j) (om_get (om_set k v m) j)"
  by (simp add: opt_le_def update_conv)

lemma keyed_once_writes [simp]:
  "keyed_once (put_control c ep) = keyed_once ep"
  "keyed_once ep \<Longrightarrow> keyed_once (put_admission a ep)"
  "keyed_once ep \<Longrightarrow> keyed_once (put_pad d ep)"
  by (simp_all add: keyed_once_def put_control_def put_admission_def put_pad_def)

lemma indexed:
  "pads_wf uuid ep \<Longrightarrow> om_get (ep_index ep) (phase, k) = Some i \<Longrightarrow>
     \<exists>d. om_get (ep_pads ep) i = Some d \<and> pd_phase d = phase \<and>
       (if phase = Pad_Group then pd_sessionId d = Some k else pd_owner d = Some k)"
  unfolding pads_wf_def by blast

lemma grow_control: "pads_wf uuid ep \<Longrightarrow> pads_grow uuid ep (put_control c ep)"
proof -
  have "ep_admissions (put_control c ep) = ep_admissions ep" "ep_pads (put_control c ep) = ep_pads ep"
    "ep_index (put_control c ep) = ep_index ep" "ep_nextId (put_control c ep) = ep_nextId ep"
    by (simp_all add: put_control_def)
  then show "pads_wf uuid ep \<Longrightarrow> pads_grow uuid ep (put_control c ep)"
    by (simp add: pads_grow_def pads_wf_def pads_below_def opt_le_refl)
qed

lemma grow_admission:
  assumes "pads_wf uuid ep" and "\<And>b. om_get (ep_admissions ep) (dm_owner a) = Some b \<Longrightarrow> admission_le b a"
  shows "pads_grow uuid ep (put_admission a ep)"
proof -
  have rest: "ep_admissions (put_admission a ep) = om_set (dm_owner a) a (ep_admissions ep)"
    "ep_pads (put_admission a ep) = ep_pads ep" "ep_index (put_admission a ep) = ep_index ep"
    "ep_nextId (put_admission a ep) = ep_nextId ep"
    by (simp_all add: put_admission_def)
  have "pads_wf uuid (put_admission a ep)"
    using assms(1) unfolding pads_wf_def rest by (simp add: update_conv)
  moreover have "pads_below ep (put_admission a ep)"
    using opt_le_update [of "ep_admissions ep" "dm_owner a" admission_le a] assms(2)
    by (simp add: pads_below_def put_admission_def opt_le_refl)
  ultimately show ?thesis by (simp add: pads_grow_def)
qed

lemma stored_pad:
  assumes "pads_wf uuid ep" and "om_get (ep_pads ep) i = Some d"
  shows "pd_id d = i" and "pd_phase d = Pad_Group \<longleftrightarrow> pd_owner d = None" and "captured_text_ok d"
  using assms by (auto simp: pads_wf_def)

lemma grow_pad:
  assumes wf: "pads_wf uuid ep" and d: "om_get (ep_pads ep) (pd_id e) = Some d" "pad_le d e" "captured_text_ok e"
  shows "pads_grow uuid ep (put_pad e ep)"
proof -
  let ?ep = "put_pad e ep"
  have get: "om_get (ep_pads ?ep) i = (if i = pd_id e then Some e else om_get (ep_pads ep) i)" for i
    by (simp add: put_pad_def update_conv)
  have rest: "ep_index ?ep = ep_index ep" "ep_admissions ?ep = ep_admissions ep" "ep_nextId ?ep = ep_nextId ep"
    by (simp_all add: put_pad_def)
  have pad: "pd_id f = i \<and> i \<in> (\<lambda>n. ''gdm-'' @ uuid n) ` {..<ep_nextId ep} \<and>
      (pd_phase f = Pad_Group \<longleftrightarrow> pd_owner f = None) \<and> captured_text_ok f"
    if "om_get (ep_pads ?ep) i = Some f" for i f
  proof (cases "i = pd_id e")
    case True
    have "pd_id d = pd_id e" "pd_id e \<in> (\<lambda>n. ''gdm-'' @ uuid n) ` {..<ep_nextId ep}"
      "pd_phase d = Pad_Group \<longleftrightarrow> pd_owner d = None" using wf d(1) by (auto simp: pads_wf_def)
    with True that d(2,3) show ?thesis by (auto simp: get pad_le_def)
  next
    case False
    with that wf show ?thesis by (auto simp: get pads_wf_def)
  qed
  have idx: "\<exists>f. om_get (ep_pads ?ep) i = Some f \<and> pd_phase f = phase \<and>
      (if phase = Pad_Group then pd_sessionId f = Some k else pd_owner f = Some k)"
    if "om_get (ep_index ep) (phase, k) = Some i" for phase k i
  proof -
    from indexed [OF wf that] obtain f where f: "om_get (ep_pads ep) i = Some f" "pd_phase f = phase"
      "if phase = Pad_Group then pd_sessionId f = Some k else pd_owner f = Some k"
      by blast
    show ?thesis
    proof (cases "i = pd_id e")
      case True
      with f d show ?thesis by (auto simp: get pad_le_def)
    next
      case False
      with f show ?thesis by (simp add: get)
    qed
  qed
  have "pads_wf uuid ?ep"
    unfolding pads_wf_def rest using wf pad idx keyed_once_writes(3) by (auto simp: pads_wf_def)
  moreover have "pads_below ep ?ep"
    using opt_le_update [of "ep_pads ep" "pd_id e" pad_le e] d
    by (simp add: pads_below_def rest opt_le_refl put_pad_def)
  ultimately show ?thesis by (simp add: pads_grow_def)
qed

lemma index_none:
  "pads_wf uuid ep \<Longrightarrow> indexed_pad ep phase k = None \<Longrightarrow> om_get (ep_index ep) (phase, k) = None"
  using indexed [of uuid ep phase k] by (cases "om_get (ep_index ep) (phase, k)") (auto simp: indexed_pad_def)

lemma fresh_pad: "pads_wf uuid ep \<Longrightarrow> inj uuid \<Longrightarrow> om_get (ep_pads ep) (pad_name uuid ep) = None"
proof (rule ccontr)
  assume wf: "pads_wf uuid ep" and "inj uuid" and "om_get (ep_pads ep) (pad_name uuid ep) \<noteq> None"
  then obtain d where "om_get (ep_pads ep) (pad_name uuid ep) = Some d" by auto
  with wf have "pad_name uuid ep \<in> (\<lambda>n. ''gdm-'' @ uuid n) ` {..<ep_nextId ep}" by (auto simp: pads_wf_def)
  with \<open>inj uuid\<close> show False by (auto simp: pad_name_def dest: injD)
qed

lemma grow_store:
  assumes wf: "pads_wf uuid ep" and "inj uuid" and d: "pd_id d = pad_name uuid ep" "pd_state d = Pad_Open"
    and none: "om_get (ep_index ep) (pd_phase d, k) = None"
    and place: "pd_phase d = Pad_Group \<longleftrightarrow> pd_owner d = None"
      "if pd_phase d = Pad_Group then pd_sessionId d = Some k else pd_owner d = Some k"
  shows "pads_grow uuid ep (store_pad k d ep)"
proof -
  let ?ep = "store_pad k d ep"
  have rest: "ep_admissions ?ep = ep_admissions ep" "ep_nextId ?ep = ep_nextId ep + 1"
    "om_get (ep_pads ?ep) i = (if i = pd_id d then Some d else om_get (ep_pads ep) i)"
    "om_get (ep_index ?ep) x = (if x = (pd_phase d, k) then Some (pd_id d) else om_get (ep_index ep) x)" for i x
    by (simp_all add: store_pad_def put_index_def put_pad_def update_conv)
  have new: "om_get (ep_pads ep) (pd_id d) = None" using fresh_pad [OF assms(1,2)] d(1) by simp
  have keyed: "keyed_once ?ep"
    using wf by (simp add: pads_wf_def keyed_once_def store_pad_def put_index_def put_pad_def)
  have pad: "pd_id f = i \<and> i \<in> (\<lambda>n. ''gdm-'' @ uuid n) ` {..<ep_nextId ep + 1} \<and>
      (pd_phase f = Pad_Group \<longleftrightarrow> pd_owner f = None) \<and> captured_text_ok f"
    if "om_get (ep_pads ?ep) i = Some f" for i f
  proof (cases "i = pd_id d")
    case True
    with that d place show ?thesis by (auto simp: rest captured_text_ok_def pad_name_def)
  next
    case False
    with that have "om_get (ep_pads ep) i = Some f" by (simp add: rest)
    with wf have "pd_id f = i \<and> i \<in> (\<lambda>n. ''gdm-'' @ uuid n) ` {..<ep_nextId ep} \<and>
      (pd_phase f = Pad_Group \<longleftrightarrow> pd_owner f = None) \<and> captured_text_ok f" unfolding pads_wf_def by blast
    then show ?thesis by auto
  qed
  have idx: "\<exists>f. om_get (ep_pads ?ep) i = Some f \<and> pd_phase f = phase \<and>
      (if phase = Pad_Group then pd_sessionId f = Some l else pd_owner f = Some l)"
    if i: "om_get (ep_index ?ep) (phase, l) = Some i" for phase l i
  proof (cases "(phase, l) = (pd_phase d, k)")
    case True
    with i place show ?thesis by (simp add: rest)
  next
    case False
    with i have "om_get (ep_index ep) (phase, l) = Some i" by (auto simp: rest split: if_splits)
    from indexed [OF wf this] obtain f where f: "om_get (ep_pads ep) i = Some f" "pd_phase f = phase"
      "if phase = Pad_Group then pd_sessionId f = Some l else pd_owner f = Some l" by blast
    moreover have "i \<noteq> pd_id d" using f(1) new by auto
    ultimately show ?thesis by (simp add: rest)
  qed
  have "\<forall>k a. om_get (ep_admissions ep) k = Some a \<longrightarrow> dm_owner a = k" using wf by (simp add: pads_wf_def)
  with keyed pad idx have "pads_wf uuid ?ep" unfolding pads_wf_def rest(1,2) by blast
  moreover have "pads_below ep ?ep"
    unfolding pads_below_def rest opt_le_def using none new by (auto split: if_splits)
  ultimately show ?thesis by (simp add: pads_grow_def)
qed

section \<open>Lemmas: one lemma per operation\<close>

lemma grow_capture:
  assumes "pads_wf uuid ep" and "om_get (ep_pads ep) (pd_id d) = Some d"
  shows "pads_grow uuid ep (snd (capture reply now d ep))"
proof -
  have ok: "pads_grow uuid ep (put_pad e ep)" if "pad_le d e" "captured_text_ok e" for e
    using that grow_pad [OF assms(1), of e d] assms(2) by (simp add: pad_le_def)
  show ?thesis
    by (auto simp: capture_def Let_def pads_grow_refl assms(1) captured_text_ok_def pad_le_def
        split: option.split prod.split intro!: ok)
qed

lemma capture_others:
  "i \<noteq> pd_id d \<Longrightarrow> om_get (ep_pads (snd (capture reply now d ep))) i = om_get (ep_pads ep) i"
  by (auto simp: capture_def Let_def put_pad_def update_conv split: option.split prod.split)

lemma capture_rest [simp]:
  "ep_admissions (snd (capture reply now d ep)) = ep_admissions ep"
  "ep_control (snd (capture reply now d ep)) = ep_control ep"
  by (auto simp: capture_def Let_def put_pad_def split: option.split prod.split)

lemma owned_admission:
  "pads_wf uuid ep \<Longrightarrow> om_get (ep_admissions ep) k = Some a \<Longrightarrow> dm_owner a = k"
  by (simp add: pads_wf_def)

lemma grow_prepare: "pads_wf uuid ep \<Longrightarrow> pads_grow uuid ep (snd (prepareAdmission hash now token ep))"
  by (auto simp: prepareAdmission_def pads_grow_refl Let_def intro!: grow_admission split: sum.split option.split)

lemma grow_setEnabled: "pads_wf uuid ep \<Longrightarrow> pads_grow uuid ep (snd (setEnabled configured now later enabled ep))"
  by (simp add: setEnabled_def pads_grow_refl Let_def grow_control)

lemma grow_leave: "pads_wf uuid ep \<Longrightarrow> pads_grow uuid ep (snd (leaveStudy hash token ep))"
  by (auto simp: leaveStudy_def pads_grow_refl admission_le_def dest!: owned_admission
      intro!: grow_admission split: sum.split option.split)

lemma grow_attached:
  "pads_wf uuid ep \<Longrightarrow> distinct (map pd_id ds) \<Longrightarrow> \<forall>d\<in>set ds. om_get (ep_pads ep) (pd_id d) = Some d \<Longrightarrow>
   (\<And>d. pd_owner d = Some owner \<Longrightarrow> pd_phase d \<noteq> Pad_Group \<Longrightarrow> pad_le d (f d) \<and> captured_text_ok (f d) = captured_text_ok d) \<Longrightarrow>
   pads_grow uuid ep (foldl (\<lambda>ep d. if pd_owner d \<noteq> Some owner then ep else put_pad (f d) ep) ep ds)"
proof (induction ds arbitrary: ep)
  case Nil
  then show ?case by (simp add: pads_grow_refl)
next
  case (Cons d ds)
  let ?ep = "if pd_owner d \<noteq> Some owner then ep else put_pad (f d) ep"
  have d: "om_get (ep_pads ep) (pd_id d) = Some d" using Cons.prems(3) by simp
  have f: "pd_owner d = Some owner \<Longrightarrow> pad_le d (f d) \<and> captured_text_ok (f d)"
    using stored_pad(2,3) [OF Cons.prems(1) d] Cons.prems(4) [of d] by simp
  have grow: "pads_grow uuid ep ?ep"
    using f grow_pad [OF Cons.prems(1), of "f d" d] d Cons.prems(1) by (auto simp: pads_grow_refl pad_le_def)
  have "om_get (ep_pads ?ep) (pd_id e) = Some e" if e: "e \<in> set ds" for e
  proof -
    have "om_get (ep_pads ep) (pd_id e) = Some e" using Cons.prems(3) e by simp
    moreover have "pd_id e \<in> pd_id ` set ds" using e by (rule imageI)
    then have "pd_id e \<noteq> pd_id d" using Cons.prems(2) by auto
    moreover have "pd_id (f d) = pd_id d" if "pd_owner d = Some owner" using f [OF that] by (simp add: pad_le_def)
    ultimately show ?thesis by (simp add: put_pad_def update_conv)
  qed
  then have "pads_wf uuid ?ep \<Longrightarrow>
      pads_grow uuid ?ep (foldl (\<lambda>ep d. if pd_owner d \<noteq> Some owner then ep else put_pad (f d) ep) ?ep ds)"
    using Cons.prems(2,4) by (intro Cons.IH) auto
  with grow show ?case by (simp only: foldl_Cons) (rule pads_grow_trans)
qed

lemma documents_stored:
  assumes "pads_wf uuid ep"
  shows "distinct (map pd_id (pad_documents ep))" and "d \<in> set (pad_documents ep) \<Longrightarrow> om_get (ep_pads ep) (pd_id d) = Some d"
proof -
  have keys: "distinct (map fst (ep_pads ep))" using assms by (simp add: pads_wf_def keyed_once_def)
  have ids: "pd_id d = i" if "(i, d) \<in> set (ep_pads ep)" for i d
    using stored_pad(1) [OF assms, of i d] that keys by simp
  have "map (\<lambda>x. pd_id (snd x)) (ep_pads ep) = map fst (ep_pads ep)"
    by (rule map_cong [OF refl]) (use ids in force)
  then have "map pd_id (pad_documents ep) = map fst (ep_pads ep)"
    by (simp add: pad_documents_def o_def)
  with keys show "distinct (map pd_id (pad_documents ep))" by simp
  show "om_get (ep_pads ep) (pd_id d) = Some d" if "d \<in> set (pad_documents ep)"
  proof -
    from that obtain i where i: "(i, d) \<in> set (ep_pads ep)" by (auto simp: pad_documents_def)
    with ids [OF i] keys show ?thesis by simp
  qed
qed

lemma grow_attach: "pads_wf uuid ep \<Longrightarrow> pads_grow uuid ep (snd (attachAdmission hash now token s pid ep))"
proof -
  assume wf: "pads_wf uuid ep"
  have "pads_grow uuid ep (foldl (\<lambda>ep d. if pd_owner d \<noteq> Some owner then ep
        else put_pad (d\<lparr>pd_sessionId := Some (se_id s), pd_participantId := Some pid,
          pd_conditionId := Some (cd_id (se_condition s)), pd_roundId := Some (se_roundId s)\<rparr>) ep)
      (put_admission b ep) (pad_documents (put_admission b ep)))"
    if "om_get (ep_admissions ep) owner = Some a" "admission_le a b" for owner a b
  proof (rule pads_grow_trans)
    show "pads_grow uuid ep (put_admission b ep)"
      using wf that owned_admission [OF wf that(1)] by (intro grow_admission) (auto simp: admission_le_def)
    assume wf1: "pads_wf uuid (put_admission b ep)"
    show "pads_grow uuid (put_admission b ep) (foldl (\<lambda>ep d. if pd_owner d \<noteq> Some owner then ep
        else put_pad (d\<lparr>pd_sessionId := Some (se_id s), pd_participantId := Some pid,
          pd_conditionId := Some (cd_id (se_condition s)), pd_roundId := Some (se_roundId s)\<rparr>) ep)
      (put_admission b ep) (pad_documents (put_admission b ep)))"
      using documents_stored [OF wf1] by (intro grow_attached wf1) (auto simp: pad_le_def captured_text_ok_def)
  qed
  with wf show ?thesis
    by (auto simp: attachAdmission_def pads_grow_refl Let_def admission_le_def split: sum.split option.split)
qed

lemma grow_open:
  assumes "pads_wf uuid ep" and "inj uuid" and "indexed_pad ep phase k = None"
    and "phase = Pad_Group \<Longrightarrow> \<exists>s'. s = Some s' \<and> se_id s' = k"
  shows "pads_grow uuid ep (snd (open_pad uuid env a phase k s ep))"
proof -
  have "pads_grow uuid ep (store_pad k d ep)"
    if "pd_id d = pad_name uuid ep" "pd_state d = Pad_Open" "pd_phase d = phase"
      "phase = Pad_Group \<longleftrightarrow> pd_owner d = None" "if phase = Pad_Group then pd_sessionId d = Some k else pd_owner d = Some k" for d
    using that index_none [OF assms(1,3)] by (intro grow_store assms(1,2)) simp_all
  with assms show ?thesis by (auto simp: open_pad_def Let_def pads_grow_refl split: option.split)
qed

lemma opened_pad:
  "open_pad uuid env a phase k s ep = (Inr d, ep') \<Longrightarrow> om_get (ep_pads ep') (pd_id d) = Some d"
  by (auto simp: open_pad_def Let_def store_pad_def put_index_def put_pad_def update_conv split: option.splits if_splits)

lemma grow_refresh:
  "pads_wf uuid ep \<Longrightarrow> om_get (ep_pads ep) (pd_id d) = Some d \<Longrightarrow> pads_grow uuid ep (snd (refresh_pad env d ep))"
  by (simp add: refresh_pad_def pads_grow_refl grow_capture)

lemma session_of_pad:
  "pad_session env a token Pad_Group sid = Inr s \<Longrightarrow> \<exists>s'. s = Some s' \<and> se_id s' = the sid"
  by (auto simp: pad_session_def getSession_def load_session_def session_row_of_def
      dest!: find_SomeD split: option.splits if_splits)

lemma found_pad:
  assumes "pads_wf uuid ep" and "indexed_pad ep phase k = Some d"
  shows "om_get (ep_pads ep) (pd_id d) = Some d"
proof -
  from assms(2) obtain i where "om_get (ep_pads ep) i = Some d"
    by (auto simp: indexed_pad_def bind_eq_Some_conv)
  with stored_pad(1) [OF assms(1) this] show ?thesis by simp
qed

lemma grow_ensure:
  assumes "pads_wf uuid ep" and "inj uuid"
    and "phase = Pad_Group \<Longrightarrow> \<exists>s'. s = Some s' \<and> se_id s' = k"
  shows "pads_grow uuid ep (snd (ensure_pad uuid env a phase k s ep))"
  using assms grow_open [OF assms(1,2)] by (auto simp: ensure_pad_def pads_grow_refl split: option.split)

lemma ensured_pad:
  "pads_wf uuid ep \<Longrightarrow> ensure_pad uuid env a phase k s ep = (Inr d, ep') \<Longrightarrow> om_get (ep_pads ep') (pd_id d) = Some d"
  by (auto simp: ensure_pad_def found_pad opened_pad split: option.splits)

lemma request_cases:
  "(\<exists>e. requestPad hash uuid env token phase sid ep = (Inl e, ep)) \<or>
   (\<exists>owner a s k. padOwner hash token = Inr owner \<and> om_get (ep_admissions ep) owner = Some a \<and>
      pad_session env a token phase sid = Inr s \<and> k = (if phase = Pad_Group then the sid else owner) \<and>
      ((\<exists>e ep1. ensure_pad uuid env a phase k s ep = (Inl e, ep1) \<and>
          requestPad hash uuid env token phase sid ep = (Inl e, ep1)) \<or>
       (\<exists>d ep1. ensure_pad uuid env a phase k s ep = (Inr d, ep1) \<and>
          requestPad hash uuid env token phase sid ep =
            (case refresh_pad env d ep1 of
               (Inl e, ep2) \<Rightarrow> (Inl e, ep2)
             | (Inr d, ep2) \<Rightarrow> (Inr (public_pad d (pd_error d) (grant_for hash owner a phase s d)), ep2)))))"
proof (cases "padOwner hash token")
  case (Inl e)
  then show ?thesis by (simp add: requestPad_def)
next
  case (Inr owner)
  show ?thesis
  proof (cases "om_get (ep_admissions ep) owner")
    case None
    with Inr show ?thesis by (simp add: requestPad_def)
  next
    case (Some a)
    show ?thesis
    proof (cases "pad_session env a token phase sid")
      case (Inl e)
      with Inr Some show ?thesis by (simp add: requestPad_def)
    next
      case session: (Inr s)
      obtain r ep1 where r: "ensure_pad uuid env a phase (if phase = Pad_Group then the sid else owner) s ep = (r, ep1)"
        by (cases "ensure_pad uuid env a phase (if phase = Pad_Group then the sid else owner) s ep")
      show ?thesis
      proof (cases "dm_mode a = Task_Etherpad")
        case False
        with Inr Some show ?thesis by (simp add: requestPad_def)
      next
        case True
        have "requestPad hash uuid env token phase sid ep =
            (case r of Inl e \<Rightarrow> (Inl e, ep1)
             | Inr d \<Rightarrow> case refresh_pad env d ep1 of
                 (Inl e, ep2) \<Rightarrow> (Inl e, ep2)
               | (Inr d, ep2) \<Rightarrow> (Inr (public_pad d (pd_error d) (grant_for hash owner a phase s d)), ep2))"
          by (simp add: requestPad_def Inr Some session True r Let_def)
        with Inr Some session r show ?thesis by (cases r) auto
      qed
    qed
  qed
qed

lemma grow_request:
  assumes "pads_wf uuid ep" and "inj uuid"
  shows "pads_grow uuid ep (snd (requestPad hash uuid env token phase sid ep))"
  using request_cases [of hash uuid env token phase sid ep]
proof (elim disjE exE conjE)
  fix e assume "requestPad hash uuid env token phase sid ep = (Inl e, ep)"
  then show ?thesis by (simp add: pads_grow_refl assms(1))
next
  fix owner a s k e ep1
  assume "pad_session env a token phase sid = Inr s" "k = (if phase = Pad_Group then the sid else owner)"
    "ensure_pad uuid env a phase k s ep = (Inl e, ep1)" "requestPad hash uuid env token phase sid ep = (Inl e, ep1)"
  with grow_ensure [OF assms, of phase s k env a] session_of_pad [of env a token sid s] show ?thesis by auto
next
  fix owner a s k d ep1
  assume s: "pad_session env a token phase sid = Inr s" "k = (if phase = Pad_Group then the sid else owner)"
    and d: "ensure_pad uuid env a phase k s ep = (Inr d, ep1)"
    and r: "requestPad hash uuid env token phase sid ep =
      (case refresh_pad env d ep1 of (Inl e, ep2) \<Rightarrow> (Inl e, ep2)
       | (Inr d, ep2) \<Rightarrow> (Inr (public_pad d (pd_error d) (grant_for hash owner a phase s d)), ep2))"
  have "pads_grow uuid ep ep1"
    using grow_ensure [OF assms, of phase s k env a] session_of_pad [of env a token sid s] s d by auto
  moreover have "snd (requestPad hash uuid env token phase sid ep) = snd (refresh_pad env d ep1)"
    by (simp add: r split: prod.split sum.split)
  ultimately show ?thesis
    using grow_refresh [of uuid ep1 d env] ensured_pad [OF assms(1) d] pads_grow_trans by metis
qed

lemma grow_finish:
  assumes wf: "pads_wf uuid ep"
  shows "pads_grow uuid ep (snd (finishPad hash env token i ep))"
proof (cases "\<exists>owner d saved ep1. padOwner hash token = Inr owner \<and> om_get (ep_pads ep) i = Some d \<and>
    capture (pe_close env) (pe_later env) d ep = (Inr saved, ep1) \<and>
    snd (finishPad hash env token i ep) = (if pd_phase d \<noteq> Pad_Exit then ep1
       else case om_get (ep_admissions ep1) owner of None \<Rightarrow> ep1
         | Some a \<Rightarrow> put_admission (a\<lparr>dm_done := True\<rparr>) ep1)")
  case True
  then obtain owner d saved ep1 where d: "om_get (ep_pads ep) i = Some d"
    and c: "capture (pe_close env) (pe_later env) d ep = (Inr saved, ep1)"
    and end_state: "snd (finishPad hash env token i ep) = (if pd_phase d \<noteq> Pad_Exit then ep1
       else case om_get (ep_admissions ep1) owner of None \<Rightarrow> ep1
         | Some a \<Rightarrow> put_admission (a\<lparr>dm_done := True\<rparr>) ep1)" by blast
  have "om_get (ep_pads ep) (pd_id d) = Some d" using d stored_pad(1) [OF wf d] by simp
  from grow_capture [OF wf this, of "pe_close env" "pe_later env"] c
  have grow: "pads_grow uuid ep ep1" by simp
  show ?thesis unfolding end_state
  proof (rule pads_grow_trans [OF grow])
    assume wf1: "pads_wf uuid ep1"
    then show "pads_grow uuid ep1 (if pd_phase d \<noteq> Pad_Exit then ep1
       else case om_get (ep_admissions ep1) owner of None \<Rightarrow> ep1
         | Some a \<Rightarrow> put_admission (a\<lparr>dm_done := True\<rparr>) ep1)"
      using owned_admission [OF wf1]
      by (auto simp: pads_grow_refl admission_le_def intro!: grow_admission split: option.split)
  qed
next
  case False
  have "snd (finishPad hash env token i ep) = ep \<or>
      (\<exists>d. om_get (ep_pads ep) i = Some d \<and>
        snd (finishPad hash env token i ep) = snd (capture (pe_close env) (pe_later env) d ep))"
  proof (cases "padOwner hash token")
    case (Inl e)
    then show ?thesis by (simp add: finishPad_def)
  next
    case (Inr owner)
    show ?thesis
    proof (cases "om_get (ep_pads ep) i")
      case None
      with Inr show ?thesis by (simp add: finishPad_def)
    next
      case (Some d)
      show ?thesis
      proof (cases "capture (pe_close env) (pe_later env) d ep")
        case (Pair r ep1)
        have "snd (finishPad hash env token i ep) = ep \<or> (\<exists>e. r = Inl e) \<and> snd (finishPad hash env token i ep) = ep1"
          using False Inr Some Pair by (cases r) (auto simp: finishPad_def split: if_splits)
        with Some Pair show ?thesis by auto
      qed
    qed
  qed
  then show ?thesis
    using grow_capture [OF wf] stored_pad(1) [OF wf] by (auto simp: pads_grow_refl wf)
qed

lemma grow_settle:
  "pads_wf uuid ep \<Longrightarrow> \<forall>a\<in>set as. \<exists>b. om_get (ep_admissions ep) (dm_owner a) = Some b \<and> dm_mode b = dm_mode a \<Longrightarrow>
   pads_grow uuid ep (settle_admissions d as ep)"
  unfolding settle_admissions_def
proof (induction as arbitrary: ep)
  case Nil
  then show ?case by (simp add: pads_grow_refl)
next
  case (Cons a as)
  let ?ep = "if admission_over d a then put_admission (a\<lparr>dm_done := True\<rparr>) ep else ep"
  obtain b where b: "om_get (ep_admissions ep) (dm_owner a) = Some b" "dm_mode b = dm_mode a"
    using Cons.prems(2) by auto
  have grow: "pads_grow uuid ep ?ep"
    using b owned_admission [OF Cons.prems(1) b(1)] Cons.prems(1)
    by (auto simp: pads_grow_refl admission_le_def intro!: grow_admission)
  have "\<exists>b. om_get (ep_admissions ?ep) (dm_owner c) = Some b \<and> dm_mode b = dm_mode c" if "c \<in> set as" for c
    using that Cons.prems(2) b by (fastforce simp: put_admission_def update_conv)
  then have "pads_wf uuid ?ep \<Longrightarrow> pads_grow uuid ?ep
      (foldl (\<lambda>ep a. if admission_over d a then put_admission (a\<lparr>dm_done := True\<rparr>) ep else ep) ?ep as)"
    by (intro Cons.IH) auto
  with grow show ?case by (simp only: foldl_Cons) (rule pads_grow_trans)
qed

lemma active_stored:
  assumes "pads_wf uuid ep" and "a \<in> set (activeAdmissions now ep)"
  shows "om_get (ep_admissions ep) (dm_owner a) = Some a"
proof -
  from assms(2) obtain k where k: "(k, a) \<in> set (ep_admissions ep)" by (auto simp: activeAdmissions_def)
  have "distinct (map fst (ep_admissions ep))" using assms(1) by (simp add: pads_wf_def keyed_once_def)
  with k have "om_get (ep_admissions ep) k = Some a" by simp
  with owned_admission [OF assms(1) this] show ?thesis by simp
qed

lemma grow_group_pad:
  assumes "pads_wf uuid ep" and "inj uuid"
  shows "pads_grow uuid ep (snd (group_pad uuid d sid ep))"
proof -
  have "pads_grow uuid ep (store_pad sid e ep)"
    if "om_get (ep_index ep) (Pad_Group, sid) = None" "pd_id e = pad_name uuid ep" "pd_state e = Pad_Open"
      "pd_phase e = Pad_Group" "pd_owner e = None" "pd_sessionId e = Some sid" for e
    using that by (intro grow_store assms) simp_all
  then show ?thesis using assms by (auto simp: group_pad_def pads_grow_refl split: option.split)
qed

lemma grow_group_pads: "pads_wf uuid ep \<Longrightarrow> inj uuid \<Longrightarrow> pads_grow uuid ep (snd (group_pads uuid d sids ep))"
proof (induction uuid d sids ep rule: group_pads.induct)
  case (2 uuid d sid sids ep)
  have grow: "pads_grow uuid ep (snd (group_pad uuid d sid ep))" by (rule grow_group_pad [OF 2(2,3)])
  show ?case
  proof (cases "group_pad uuid d sid ep")
    case (Pair r ep')
    with grow have "pads_grow uuid ep ep'" by simp
    moreover have "pads_wf uuid ep' \<Longrightarrow> pads_grow uuid ep' (snd (group_pads uuid d sids ep'))" if "r = Inr ()"
      using 2(1) [OF Pair [symmetric] that] 2(3) by blast
    ultimately show ?thesis using Pair pads_grow_trans by (cases r) auto
  qed
qed (simp add: pads_grow_refl)

lemma grow_captures:
  "pads_wf uuid ep \<Longrightarrow> distinct (map pd_id ds) \<Longrightarrow> \<forall>d\<in>set ds. om_get (ep_pads ep) (pd_id d) = Some d \<Longrightarrow>
   pads_grow uuid ep (snd (snd (capture_all env active ds ep)))"
proof (induction ds arbitrary: ep)
  case (Cons d ds)
  obtain r ep' where c: "capture (re_close env (pd_id d)) (re_pad env (pd_id d)) d ep = (r, ep')"
    by (cases "capture (re_close env (pd_id d)) (re_pad env (pd_id d)) d ep")
  have grow: "pads_grow uuid ep ep'"
    using grow_capture [OF Cons.prems(1), of d "re_close env (pd_id d)" "re_pad env (pd_id d)"] Cons.prems(3) c by simp
  have later: "om_get (ep_pads ep') (pd_id e) = Some e" if e: "e \<in> set ds" for e
  proof -
    have "pd_id e \<in> pd_id ` set ds" using e by (rule imageI)
    then have "pd_id e \<noteq> pd_id d" using Cons.prems(2) by auto
    with capture_others [of "pd_id e" d "re_close env (pd_id d)" "re_pad env (pd_id d)" ep] Cons.prems(3) e c
    show ?thesis by simp
  qed
  have "pads_wf uuid ep' \<Longrightarrow> pads_grow uuid ep' (snd (snd (capture_all env active ds ep')))"
    using Cons.prems(2) later by (intro Cons.IH) auto
  then have "pads_grow uuid ep (snd (snd (capture_all env active ds ep')))"
    using grow by (blast intro: pads_grow_trans)
  moreover have "pads_grow uuid ep (snd (snd (capture_all env active ds ep)))"
    using Cons.prems by (intro Cons.IH) auto
  ultimately show ?case
    using grow c by (auto simp: pads_grow_refl Cons.prems(1) split: sum.split prod.split)
qed (simp add: pads_grow_refl)

lemma grow_serve:
  assumes wf: "pads_wf uuid ep"
  shows "pads_grow uuid ep (snd (snd (serve_pads env control active ep)))"
proof -
  let ?ds = "filter (\<lambda>d. pd_state d \<noteq> Pad_Captured) (pad_documents ep)"
  have "distinct (map pd_id ?ds)" using documents_stored(1) [OF wf] by (rule distinct_map_filter)
  then have "pads_grow uuid ep (snd (snd (capture_all env active ?ds ep)))"
    using documents_stored(2) [OF wf] by (intro grow_captures wf) auto
  moreover have "pads_grow uuid ep (put_control c ep')" if "pads_grow uuid ep ep'" for c ep'
    using that grow_control by (blast intro: pads_grow_trans)
  ultimately show ?thesis
    by (cases "capture_all env active ?ds ep")
      (auto simp: serve_pads_def Let_def pads_grow_refl wf grow_control split: option.split bool.split sum.split)
qed

lemma grow_stop: "pads_wf uuid ep \<Longrightarrow> pads_grow uuid ep (snd (snd (stop_server env control ep)))"
  by (simp add: stop_server_def pads_grow_refl grow_control split: option.split)

lemma grow_failed: "pads_grow uuid ep ep' \<Longrightarrow> pads_grow uuid ep (round_failed control e ep')"
  unfolding round_failed_def by (rule pads_grow_trans) (auto intro: grow_control)

lemma grow_reconcile:
  assumes wf: "pads_wf uuid ep" and "inj uuid"
  shows "pads_grow uuid ep (snd (reconcile uuid env ep))"
proof -
  define ep1 where "ep1 = settle_admissions (re_settled env) (activeAdmissions (re_now env) ep) ep"
  define active where "active = activeAdmissions (re_active env) ep1"
  obtain r2 ep2 where g2: "group_pads uuid (re_groups env) (active_sessions active) ep1 = (r2, ep2)"
    by (cases "group_pads uuid (re_groups env) (active_sessions active) ep1")
  obtain r3 calls ep3 where g3: "serve_pads env (control_of ep) active ep2 = (r3, calls, ep3)"
    by (cases "serve_pads env (control_of ep) active ep2")
  obtain r4 calls' ep4 where g4: "stop_server env (control_of ep) ep3 = (r4, calls', ep4)"
    by (cases "stop_server env (control_of ep) ep3")
  have "pads_grow uuid ep ep1"
    unfolding ep1_def using active_stored [OF wf] by (intro grow_settle wf) auto
  then have grow2: "pads_grow uuid ep ep2"
    using grow_group_pads [OF _ assms(2), of ep1 "re_groups env" "active_sessions active"] g2 pads_grow_trans
    by (metis snd_conv)
  then have grow3: "pads_grow uuid ep ep3"
    using grow_serve [of uuid ep2 env "control_of ep" active] g3 pads_grow_trans by (metis snd_conv)
  then have grow4: "pads_grow uuid ep ep4"
    using grow_stop [of uuid ep3 env "control_of ep"] g4 pads_grow_trans by (metis snd_conv)
  have "snd (reconcile uuid env ep) \<in>
      {ep3, ep4} \<union> (\<lambda>(e, s). round_failed (control_of ep) e s) ` (UNIV \<times> {ep2, ep3, ep4})"
    by (cases r2; cases r3; cases r4)
      (auto simp: reconcile_def Let_def ep1_def [symmetric] active_def [symmetric] g2 g3 g4 split: bool.split)
  then show ?thesis using grow2 grow3 grow4 by (auto intro: grow_failed)
qed

text \<open>No method takes anything back.\<close>

definition writing_ok :: "(nat \<Rightarrow> string) \<Rightarrow> pad_store \<Rightarrow> bool" where
  "writing_ok uuid ep = (inj uuid \<and> pads_wf uuid ep)"

lemma pad_step_grows:
  "writing_ok uuid ep \<Longrightarrow> pads_grow uuid ep (pad_step hash uuid ep e)"
  by (cases e) (simp_all add: writing_ok_def grow_setEnabled grow_prepare grow_attach grow_request grow_finish
      grow_leave grow_reconcile)

interpretation writing: monotone_stepper "pad_step hash uuid" "writing_ok uuid" pads_below
  for hash :: "string \<Rightarrow> string" and uuid :: "nat \<Rightarrow> string"
proof
  show "pads_below ep ep" for ep by simp
  show "pads_below a b \<Longrightarrow> pads_below b c \<Longrightarrow> pads_below a c" for a b c by (rule pads_below_trans)
  fix ep e
  assume ok: "writing_ok uuid ep"
  then show "writing_ok uuid (pad_step hash uuid ep e)" and "pads_below ep (pad_step hash uuid ep e)"
    using pad_step_grows [OF ok, of hash e] by (simp_all add: pads_grow_def writing_ok_def)
qed

section \<open>Properties\<close>

definition no_pads :: pad_store where
  "no_pads = \<lparr>ep_control = None, ep_admissions = [], ep_pads = [], ep_index = [], ep_nextId = 0\<rparr>"

lemma no_pads_ok: "inj uuid \<Longrightarrow> writing_ok uuid no_pads"
  by (simp add: writing_ok_def pads_wf_def keyed_once_def no_pads_def)

definition pads_after :: "(string \<Rightarrow> string) \<Rightarrow> (nat \<Rightarrow> string) \<Rightarrow> pad_event list \<Rightarrow> pad_store" where
  "pads_after hash uuid es = foldl (pad_step hash uuid) no_pads es"

lemma pads_after_ok: "inj uuid \<Longrightarrow> writing_ok uuid (pads_after hash uuid es)"
  unfolding pads_after_def by (intro writing.run_inv no_pads_ok)

lemma pads_after_below:
  "inj uuid \<Longrightarrow> pads_below (pads_after hash uuid es) (pads_after hash uuid (es @ es'))"
  using writing.run_below [OF pads_after_ok] by (simp add: pads_after_def)


text \<open>A participant is admitted, opens the entry pad and finishes it; later requests come too late.\<close>

definition quick_answers :: "int \<Rightarrow> string \<Rightarrow> pad_env" where
  "quick_answers now text =
     \<lparr>pe_now = now, pe_later = now, pe_access = empty_db, pe_loaded = empty_db, pe_start = Some True,
      pe_create = True, pe_close = Some (Some text, Some 7)\<rparr>"

definition calm_round :: "int \<Rightarrow> reconcile_env" where
  "calm_round now =
     \<lparr>re_now = now, re_active = now, re_started = now, re_pad = (\<lambda>i. now), re_last = now,
      re_settled = empty_db, re_groups = empty_db, re_ended = empty_db, re_start = Some True,
      re_create = (\<lambda>i. True), re_close = (\<lambda>i. Some (Some ''late'', Some 9)), re_stop = Some False\<rparr>"

definition written_entry :: "pad_event list" where
  "written_entry =
     [Ev_Enable True 0 0 True, Ev_Reconcile (calm_round 1), Ev_Prepare 2 ''tok'',
      Ev_Pad (quick_answers 3 ''draft'') ''tok'' Pad_Entry None, Ev_Finish (quick_answers 4 ''final'') ''tok'' ''gdm-'']"

definition later_events :: "pad_event list" where
  "later_events = [Ev_Finish (quick_answers 5 ''changed'') ''tok'' ''gdm-'', Ev_Leave ''tok'', Ev_Reconcile (calm_round 6)]"

abbreviation written_pads :: "pad_event list \<Rightarrow> pad_store" where
  "written_pads es \<equiv> pads_after (\<lambda>s. s) unary_id es"


section \<open>Properties: one pad for each task\<close>

lemma ensured_index:
  assumes "pads_wf uuid ep" and "ensure_pad uuid env a phase k s ep = (Inr d, ep')"
  shows "om_get (ep_index ep') (phase, k) = Some (pd_id d)"
proof (cases "indexed_pad ep phase k")
  case None
  with assms(2) show ?thesis
    by (auto simp: ensure_pad_def open_pad_def Let_def store_pad_def put_index_def put_pad_def update_conv
        split: option.splits if_splits)
next
  case (Some e)
  then obtain i where i: "om_get (ep_index ep) (phase, k) = Some i" "om_get (ep_pads ep) i = Some e"
    by (auto simp: indexed_pad_def bind_eq_Some_conv)
  with stored_pad(1) [OF assms(1) i(2)] Some assms(2) show ?thesis by (simp add: ensure_pad_def)
qed

lemma refreshed_pad:
  assumes "refresh_pad env d ep = (Inr e, ep')" and "om_get (ep_pads ep) (pd_id d) = Some d"
  shows "pad_le d e \<and> om_get (ep_pads ep') (pd_id d) = Some e"
  using assms by (auto simp: refresh_pad_def capture_def Let_def put_pad_def update_conv pad_le_def
      split: option.splits prod.splits if_splits)

lemma answered_pad:
  assumes ok: "writing_ok uuid ep" and r: "requestPad hash uuid env token phase sid ep = (Inr p, ep')"
  shows "\<exists>e k. om_get (ep_index ep') (phase, k) = Some (sp_id p) \<and> om_get (ep_pads ep') (sp_id p) = Some e \<and>
    sp_deadline p = pd_deadline e \<and> sp_state p = pd_state e \<and> sp_text p = pd_text e \<and>
    (if phase = Pad_Group then k = the sid else padOwner hash token = Inr k)"
proof -
  from request_cases [of hash uuid env token phase sid ep] r
  obtain owner a s k d ep1 where k: "padOwner hash token = Inr owner" "k = (if phase = Pad_Group then the sid else owner)"
    and session: "pad_session env a token phase sid = Inr s"
    and d: "ensure_pad uuid env a phase k s ep = (Inr d, ep1)"
    and r': "(case refresh_pad env d ep1 of (Inl e, ep2) \<Rightarrow> (Inl e, ep2)
       | (Inr d, ep2) \<Rightarrow> (Inr (public_pad d (pd_error d) (grant_for hash owner a phase s d)), ep2)) = (Inr p, ep')"
    by auto
  from r' obtain e where e: "refresh_pad env d ep1 = (Inr e, ep')"
    and p: "p = public_pad e (pd_error e) (grant_for hash owner a phase s e)"
    by (auto split: prod.splits sum.splits)
  have wf: "pads_wf uuid ep" "inj uuid" using ok by (simp_all add: writing_ok_def)
  have stored: "om_get (ep_pads ep1) (pd_id d) = Some d" by (rule ensured_pad [OF wf(1) d])
  have "pads_grow uuid ep ep1"
    using grow_ensure [OF wf, of phase s k env a] session_of_pad [of env a token sid s] session k d by auto
  then have "pads_below ep1 ep'"
    using grow_refresh [of uuid ep1 d env] stored e by (simp add: pads_grow_def)
  then have "om_get (ep_index ep') (phase, k) = Some (pd_id d)"
    using ensured_index [OF wf(1) d] unfolding pads_below_def opt_le_def by blast
  with refreshed_pad [OF e stored] p k show ?thesis
    by (intro exI [of _ e] exI [of _ k]) (auto simp: public_pad_def pad_le_def)
qed

text \<open>
  C24: A task keeps its pad and its deadline: whatever happens between two requests for the pad of
  one task (the entry or the exit of a participant, the pad of a group), the second answers with the
  same pad and the same deadline, and with the captured text where the first had it.
\<close>

theorem one_pad_per_task:
  assumes "inj uuid"
    and "requestPad hash uuid env token phase sid (pads_after hash uuid es) = (Inr p, ep)"
    and "requestPad hash uuid env' token' phase sid'
      (pads_after hash uuid (es @ [Ev_Pad env token phase sid] @ es')) = (Inr p', ep')"
    and "if phase = Pad_Group then sid' = sid else token' = token"
  shows "sp_id p' = sp_id p \<and> sp_deadline p' = sp_deadline p \<and>
    (sp_state p = Pad_Captured \<longrightarrow> sp_state p' = Pad_Captured \<and> sp_text p' = sp_text p)"
proof -
  let ?mid = "pads_after hash uuid (es @ [Ev_Pad env token phase sid])"
  let ?late = "pads_after hash uuid ((es @ [Ev_Pad env token phase sid]) @ es')"
  have mid: "?mid = ep" using assms(2) by (simp add: pads_after_def)
  have ok: "writing_ok uuid ?late" by (rule pads_after_ok [OF assms(1)])
  have r': "requestPad hash uuid env' token' phase sid' ?late = (Inr p', ep')" using assms(3) by simp
  obtain e k where e: "om_get (ep_index ep) (phase, k) = Some (sp_id p)" "om_get (ep_pads ep) (sp_id p) = Some e"
      "sp_deadline p = pd_deadline e" "sp_state p = pd_state e" "sp_text p = pd_text e"
    and k: "if phase = Pad_Group then k = the sid else padOwner hash token = Inr k"
    using answered_pad [OF pads_after_ok [OF assms(1)] assms(2)] by blast
  obtain e' k' where e': "om_get (ep_index ep') (phase, k') = Some (sp_id p')" "om_get (ep_pads ep') (sp_id p') = Some e'"
      "sp_deadline p' = pd_deadline e'" "sp_state p' = pd_state e'" "sp_text p' = pd_text e'"
    and k': "if phase = Pad_Group then k' = the sid' else padOwner hash token' = Inr k'"
    using answered_pad [OF ok r'] by blast
  have "k' = k" using k k' assms(4) by (auto split: if_splits)
  have "pads_below ep ?late" using pads_after_below [OF assms(1), of hash "es @ [Ev_Pad env token phase sid]" es'] mid by simp
  moreover have "pads_below ?late ep'"
    using pad_step_grows [OF ok, of hash "Ev_Pad env' token' phase sid'"] r' by (simp add: pads_grow_def)
  ultimately have le: "pads_below ep ep'" by (rule pads_below_trans)
  then have "sp_id p' = sp_id p" using e(1) e'(1) \<open>k' = k\<close> unfolding pads_below_def opt_le_def by fastforce
  moreover have "pad_le e e'" using le e(2) e'(2) calculation unfolding pads_below_def opt_le_def by fastforce
  ultimately show ?thesis using e(3-5) e'(3-5) by (auto simp: pad_le_def)
qed

theorem one_pad_per_task_witness:
  "\<exists>p p'. fst (requestPad (\<lambda>s. s) unary_id (quick_answers 3 ''draft'') ''tok'' Pad_Entry None (written_pads (take 3 written_entry))) = Inr p \<and>
     fst (requestPad (\<lambda>s. s) unary_id (quick_answers 9 ''again'') ''tok'' Pad_Entry None (written_pads written_entry)) = Inr p' \<and>
     sp_deadline p' = sp_deadline p"
proof -
  let ?first = "requestPad (\<lambda>s. s) unary_id (quick_answers 3 ''draft'') ''tok'' Pad_Entry None (written_pads (take 3 written_entry))"
  let ?again = "requestPad (\<lambda>s. s) unary_id (quick_answers 9 ''again'') ''tok'' Pad_Entry None (written_pads written_entry)"
  have "(case fst ?first of Inl e \<Rightarrow> False | Inr p \<Rightarrow> True)" "(case fst ?again of Inl e \<Rightarrow> False | Inr p \<Rightarrow> True)"
    by code_simp+
  then obtain p ep p' ep' where p: "?first = (Inr p, ep)" and p': "?again = (Inr p', ep')"
    by (cases ?first; cases ?again; cases "fst ?first"; cases "fst ?again") auto
  have "written_entry = take 3 written_entry @ [Ev_Pad (quick_answers 3 ''draft'') ''tok'' Pad_Entry None] @ drop 4 written_entry"
    by (simp add: written_entry_def)
  with one_pad_per_task [OF unary_id_inj p, of "quick_answers 9 ''again''" "''tok''" None "drop 4 written_entry" p' ep'] p'
  have "sp_deadline p' = sp_deadline p" by simp
  with p p' show ?thesis by simp
qed

section \<open>Properties: the server\<close>

lemma stop_only_done:
  assumes "Call_Stop \<in> set (fst (snd (stop_server env control ep)))"
  shows "\<not> ct_enabled control \<and> activeAdmissions (re_last env) ep = [] \<and>
    list_all (\<lambda>d. pd_state d = Pad_Captured) (pad_documents ep)"
  using assms by (auto simp: stop_server_def list_all_iff list_ex_iff split: if_splits)

lemma captures_never_stop: "Call_Stop \<notin> set (fst (snd (capture_all env active ds ep)))"
  by (induction env active ds ep rule: capture_all.induct) (auto split: sum.splits prod.splits)

lemma serving_never_stops: "Call_Stop \<notin> set (fst (snd (serve_pads env control active ep)))"
proof -
  let ?ds = "filter (\<lambda>d. pd_state d \<noteq> Pad_Captured) (pad_documents ep)"
  show ?thesis using captures_never_stop [of env active ?ds ep]
    by (cases "capture_all env active ?ds ep")
      (auto simp: serve_pads_def Let_def split: option.split bool.split sum.split)
qed

lemma stopped_records:
  "stop_server env control ep = (r, calls, ep') \<Longrightarrow> ep_admissions ep' = ep_admissions ep \<and> ep_pads ep' = ep_pads ep"
  by (auto simp: stop_server_def put_control_def split: if_splits option.splits)

text \<open>
  C25: A round stops the Etherpad server only when the writing tasks are switched off, nobody is
  admitted to one any more and every pad's text is captured; and so it is when the round ends.
\<close>

theorem server_stops_when_done:
  assumes "Call_Stop \<in> set (fst (reconcile uuid env ep))"
  shows "\<not> ct_enabled (control_of (snd (reconcile uuid env ep))) \<and>
    activeAdmissions (re_last env) (snd (reconcile uuid env ep)) = [] \<and>
    list_all (\<lambda>d. pd_state d = Pad_Captured) (pad_documents (snd (reconcile uuid env ep)))"
proof -
  define ep1 where "ep1 = settle_admissions (re_settled env) (activeAdmissions (re_now env) ep) ep"
  define active where "active = activeAdmissions (re_active env) ep1"
  obtain r2 ep2 where g2: "group_pads uuid (re_groups env) (active_sessions active) ep1 = (r2, ep2)"
    by (cases "group_pads uuid (re_groups env) (active_sessions active) ep1")
  obtain r3 calls ep3 where g3: "serve_pads env (control_of ep) active ep2 = (r3, calls, ep3)"
    by (cases "serve_pads env (control_of ep) active ep2")
  obtain r4 calls' ep4 where g4: "stop_server env (control_of ep) ep3 = (r4, calls', ep4)"
    by (cases "stop_server env (control_of ep) ep3")
  have no: "Call_Stop \<notin> set calls" using serving_never_stops [of env "control_of ep" active ep2] g3 by simp
  have fst: "Call_Stop \<in> set calls'"
    and snd: "snd (reconcile uuid env ep) = (case r4 of Inl e \<Rightarrow> round_failed (control_of ep) e ep4 | Inr _ \<Rightarrow> ep4)"
    using assms no
    by (auto simp: reconcile_def Let_def ep1_def [symmetric] active_def [symmetric] g2 g3 g4
        split: sum.splits bool.splits)
  have finished: "\<not> ct_enabled (control_of ep) \<and> activeAdmissions (re_last env) ep3 = [] \<and>
      list_all (\<lambda>d. pd_state d = Pad_Captured) (pad_documents ep3)"
    using stop_only_done [of env "control_of ep" ep3] fst g4 by simp
  have same: "ep_admissions (snd (reconcile uuid env ep)) = ep_admissions ep3"
    "ep_pads (snd (reconcile uuid env ep)) = ep_pads ep3"
    using stopped_records [OF g4] by (auto simp: snd round_failed_def put_control_def split: sum.split)
  have "\<not> ct_enabled (control_of (snd (reconcile uuid env ep)))"
    using fst g4 finished unfolding snd
    by (auto simp: stop_server_def round_failed_def put_control_def control_of_def orelse_def
        split: sum.split option.splits if_splits)
  with finished show ?thesis by (simp add: activeAdmissions_def pad_documents_def same)
qed

theorem server_stops_when_done_witness:
  "Call_Stop \<in> set (fst (reconcile unary_id (calm_round 8)
       (written_pads (written_entry @ [Ev_Leave ''tok'', Ev_Enable True 7 7 False])))) \<and>
   ct_state (control_of (snd (reconcile unary_id (calm_round 8)
       (written_pads (written_entry @ [Ev_Leave ''tok'', Ev_Enable True 7 7 False]))))) = Es_Stopped \<and>
   activeAdmissions (re_last (calm_round 8)) (snd (reconcile unary_id (calm_round 8)
       (written_pads (written_entry @ [Ev_Leave ''tok'', Ev_Enable True 7 7 False])))) = []"
proof -
  let ?ep = "written_pads (written_entry @ [Ev_Leave ''tok'', Ev_Enable True 7 7 False])"
  have stop: "Call_Stop \<in> set (fst (reconcile unary_id (calm_round 8) ?ep))"
    and "ct_state (control_of (snd (reconcile unary_id (calm_round 8) ?ep))) = Es_Stopped" by code_simp+
  with server_stops_when_done [OF stop] show ?thesis by blast
qed

text \<open>The pads whose text is not captured yet.\<close>

definition uncaptured :: "pad_store \<Rightarrow> pad list" where
  "uncaptured ep = filter (\<lambda>d. pd_state d \<noteq> Pad_Captured) (pad_documents ep)"

lemma map_snd_om_set:
  "distinct (map fst m) \<Longrightarrow> om_get m k = Some v \<Longrightarrow>
     map snd (om_set k w m) = map (\<lambda>(i, x). if i = k then w else x) m"
proof (induction m)
  case (Cons p m)
  obtain i x where p: "p = (i, x)" by (cases p)
  have "map (\<lambda>(i, x). if i = k then w else x) m = map snd m" if "i = k"
  proof (rule map_cong [OF refl])
    fix q assume "q \<in> set m"
    with that Cons.prems(1) p show "(case q of (i, x) \<Rightarrow> if i = k then w else x) = snd q"
      by (cases q) (auto simp: image_iff)
  qed
  with Cons p show ?case by (cases "i = k") simp_all
qed simp

lemma uncaptured_error:
  assumes wf: "pads_wf uuid ep" and ds: "uncaptured ep = d # ds" and e: "pd_id e = pd_id d" "pd_state e = Pad_Error"
  shows "uncaptured (put_pad e ep) = e # ds"
proof -
  have keys: "distinct (map fst (ep_pads ep))" using wf by (simp add: pads_wf_def keyed_once_def)
  have "d \<in> set (uncaptured ep)" by (simp add: ds)
  then have "d \<in> set (pad_documents ep)" by (simp add: uncaptured_def)
  then have d: "om_get (ep_pads ep) (pd_id d) = Some d" by (rule documents_stored(2) [OF wf])
  have id: "pd_id (snd x) = fst x" if "x \<in> set (ep_pads ep)" for x
    using that keys stored_pad(1) [OF wf, of "fst x" "snd x"] by simp
  have "pad_documents (put_pad e ep) = map (\<lambda>(i, x). if i = pd_id d then e else x) (ep_pads ep)"
    using map_snd_om_set [OF keys d, of e] by (simp add: pad_documents_def put_pad_def e(1))
  also have "\<dots> = map (\<lambda>x. if pd_id x = pd_id d then e else x) (pad_documents ep)"
    unfolding pad_documents_def map_map
  proof (rule map_cong [OF refl])
    fix x assume x: "x \<in> set (ep_pads ep)"
    show "(case x of (i, y) \<Rightarrow> if i = pd_id d then e else y) = ((\<lambda>x. if pd_id x = pd_id d then e else x) \<circ> snd) x"
      using id [OF x] by (cases x) simp
  qed
  finally have docs: "pad_documents (put_pad e ep) = map (\<lambda>x. if pd_id x = pd_id d then e else x) (pad_documents ep)" .
  have other: "x = d" if "x \<in> set (pad_documents ep)" "pd_id x = pd_id d" for x
    using documents_stored(2) [OF wf that(1)] d unfolding that(2) by simp
  have "d \<in> set (uncaptured ep)" by (simp add: ds)
  then have open_d: "pd_state d \<noteq> Pad_Captured" by (simp add: uncaptured_def)
  let ?g = "\<lambda>x. if pd_id x = pd_id d then e else x"
  have "filter (\<lambda>x. pd_state (?g x) \<noteq> Pad_Captured) (pad_documents ep) = uncaptured ep"
    unfolding uncaptured_def
  proof (rule filter_cong [OF refl])
    fix x assume x: "x \<in> set (pad_documents ep)"
    show "(pd_state (?g x) \<noteq> Pad_Captured) = (pd_state x \<noteq> Pad_Captured)"
      using other [OF x] open_d e(2) by (cases "pd_id x = pd_id d") simp_all
  qed
  then have "uncaptured (put_pad e ep) = map ?g (uncaptured ep)"
    by (simp add: uncaptured_def docs filter_map o_def)
  moreover have "pd_id x \<noteq> pd_id d" if "x \<in> set ds" for x
  proof -
    have "distinct (map pd_id (d # ds))"
      using documents_stored(1) [OF wf] unfolding ds [symmetric] uncaptured_def by (rule distinct_map_filter)
    with that show ?thesis by (force simp: image_iff)
  qed
  then have "map ?g ds = ds" by (intro map_idI) simp
  ultimately show ?thesis by (simp add: ds)
qed

lemma broken_serve:
  assumes wf: "pads_wf uuid ep" and pads: "uncaptured ep = d # ds" and due: "capture_now env active d"
    and start: "re_start env = Some True" and broken: "\<not> re_create env (pd_id d) \<or> re_close env (pd_id d) = None"
  shows "\<exists>e calls ep'. serve_pads env control active ep = (Inl e, calls, ep') \<and>
    (\<exists>d'. uncaptured ep' = d' # ds \<and> pd_id d' = pd_id d \<and> pd_deadline d' = pd_deadline d) \<and>
    ep_admissions ep' = ep_admissions ep"
proof -
  have "d \<in> set (uncaptured ep)" by (simp add: pads)
  then have open_d: "pd_state d \<noteq> Pad_Captured" by (simp add: uncaptured_def)
  have serve: "serve_pads env control active ep =
      (case capture_all env active (d # ds) ep of
         (Inl e, calls, ep') \<Rightarrow> (Inl e, Call_Start # calls, ep')
       | (Inr _, calls, ep') \<Rightarrow> (Inr False, Call_Start # calls, put_control
           \<lparr>ct_enabled = ct_enabled control, ct_state = (if ct_enabled control then Es_Ready else Es_Draining),
            ct_error = None, ct_transitionAt = None\<rparr> ep'))"
    using pads by (simp add: serve_pads_def start Let_def flip: uncaptured_def)
  show ?thesis
  proof (cases "re_create env (pd_id d)")
    case False
    then show ?thesis using due pads by (simp add: serve)
  next
    case True
    let ?e = "d\<lparr>pd_state := Pad_Error, pd_error := Some ''Content capture failed; retry required''\<rparr>"
    have "capture (re_close env (pd_id d)) (re_pad env (pd_id d)) d ep =
        (Inl (Pf_Unavailable ''Etherpad /gdm/close failed''), put_pad ?e ep)"
      using True broken open_d by (simp add: capture_def Let_def)
    moreover have "uncaptured (put_pad ?e ep) = ?e # ds" by (rule uncaptured_error [OF wf pads]) simp_all
    ultimately show ?thesis using True due by (simp add: serve put_pad_def)
  qed
qed

lemma broken_round:
  assumes wf: "pads_wf uuid ep" and pads: "uncaptured ep = d # ds"
    and idle: "activeAdmissions (re_now env) ep = []" "activeAdmissions (re_active env) ep = []"
    and due: "capture_now env [] d"
    and start: "re_start env = Some True" and broken: "\<not> re_create env (pd_id d) \<or> re_close env (pd_id d) = None"
  shows "ct_state (control_of (snd (reconcile uuid env ep))) = Es_Error \<and>
    ct_enabled (control_of (snd (reconcile uuid env ep))) = ct_enabled (control_of ep) \<and>
    (\<exists>d'. uncaptured (snd (reconcile uuid env ep)) = d' # ds \<and> pd_id d' = pd_id d \<and> pd_deadline d' = pd_deadline d) \<and>
    ep_admissions (snd (reconcile uuid env ep)) = ep_admissions ep"
proof -
  obtain e calls ep' where s: "serve_pads env (control_of ep) [] ep = (Inl e, calls, ep')"
    and ep': "\<exists>d'. uncaptured ep' = d' # ds \<and> pd_id d' = pd_id d \<and> pd_deadline d' = pd_deadline d"
      "ep_admissions ep' = ep_admissions ep"
    using broken_serve [OF wf pads due start broken] by blast
  have "snd (reconcile uuid env ep) = round_failed (control_of ep) e ep'"
    using idle s by (simp add: reconcile_def settle_admissions_def active_sessions_def Let_def)
  with ep' show ?thesis
    by (simp add: round_failed_def put_control_def control_of_def uncaptured_def pad_documents_def)
qed

text \<open>Rounds that all meet the same broken pad while nobody writes.\<close>

definition meets_broken :: "string \<Rightarrow> stamp \<Rightarrow> reconcile_env \<Rightarrow> bool" where
  "meets_broken i deadline env =
     ((case parse_ms deadline of None \<Rightarrow> False | Some t \<Rightarrow> t \<le> re_pad env i) \<and> re_start env = Some True \<and>
      (\<not> re_create env i \<or> re_close env i = None))"

definition all_over :: "reconcile_env \<Rightarrow> pad_store \<Rightarrow> bool" where
  "all_over env ep =
     list_all (\<lambda>a. dm_done a \<or> dm_expiresAt a \<le> of_int (min (re_now env) (re_active env))) (map snd (ep_admissions ep))"

lemma nobody_active: "all_over env ep \<Longrightarrow> activeAdmissions (re_now env) ep = [] \<and> activeAdmissions (re_active env) ep = []"
  by (force simp: all_over_def list_all_iff activeAdmissions_def filter_empty_conv min_def split: if_splits)


definition abandoned_pads :: "pad_event list" where
  "abandoned_pads =
     [Ev_Enable True 0 0 True, Ev_Reconcile (calm_round 1), Ev_Prepare 2 ''tok'', Ev_Prepare 2 ''other'',
      Ev_Pad (quick_answers 3 ''draft'') ''tok'' Pad_Entry None,
      Ev_Pad (quick_answers 3 ''text'') ''other'' Pad_Entry None, Ev_Leave ''tok'', Ev_Leave ''other'']"

definition broken_reply :: "reconcile_env" where
  "broken_reply = (calm_round 400000)\<lparr>re_close := (\<lambda>i. if i = ''gdm-'' then None else Some (Some ''text'', Some 2))\<rparr>"


end
