(* ===== verification/Api_Access.thy ===== *)
theory Api_Access
  imports Session_Lifecycle Matrix_Transport Etherpad_Service Prolific_Actions
begin

text \<open>
  The HTTP surface of the Session Manager: session-manager/src/auth (bearer tokens, the guards of
  researchers, services and participants), etherpad/workspace-mutation.guard.ts, and the handlers of
  sessions/sessions.controller.ts, rounds/rounds.controller.ts and etherpad/etherpad.controller.ts
  that read their request or write the study. A handler is its guard, the check of its body and the
  service it calls. Environment variables, the parser of timestamps and of numbers are arguments.

  The lemmas: a participant's requests only ever write rows of seats that were opened with the token
  sent; a request without the configured token of researchers or services writes nothing; a member of
  a lobby that has not even started can complete it.
\<close>

section \<open>auth\<close>

record http_request =
  hq_method :: string
  hq_url :: string
  hq_authorization :: header
  hq_internalToken :: header
  hq_params :: "(string \<times> string) list"
  hq_body :: "answer option"

definition bearerToken :: "header \<Rightarrow> string option" where
  "bearerToken h =
     (case h of
        Header v \<Rightarrow>
          (let t = js_trim v; token = drop 7 t
           in if map lower_char (take 6 t) = ''bearer'' \<and> take 1 (drop 6 t) = '' '' \<and> token \<noteq> [] \<and>
                \<not> list_ex is_space token
              then Some token else None)
      | _ \<Rightarrow> None)"

definition adminGuard :: "string option \<Rightarrow> http_request \<Rightarrow> bool" where
  "adminGuard expected rq =
     (\<not> truthy expected \<or>
      (case bearerToken (hq_authorization rq) of
         None \<Rightarrow> False | Some provided \<Rightarrow> provided \<noteq> [] \<and> safeTokenEqual provided (the expected)))"

definition internalGuard :: "string option \<Rightarrow> http_request \<Rightarrow> bool" where
  "internalGuard expected rq = (checkInternalToken expected (hq_internalToken rq) \<noteq> Token_Denied)"

definition stringField :: "answer option \<Rightarrow> string \<Rightarrow> string option" where
  "stringField body key =
     (case body of
        Some (A_Obj fs) \<Rightarrow> (case map_of fs key of Some (A_Str s) \<Rightarrow> Some s | _ \<Rightarrow> None)
      | _ \<Rightarrow> None)"

definition route_param :: "http_request \<Rightarrow> string \<Rightarrow> string option" where
  "route_param rq name = map_of (hq_params rq) name"

definition claimed_session :: "http_request \<Rightarrow> string option" where
  "claimed_session rq =
     (case route_param rq ''sessionId'' of
        Some s \<Rightarrow> Some s
      | None \<Rightarrow> (case route_param rq ''id'' of Some s \<Rightarrow> Some s | None \<Rightarrow> stringField (hq_body rq) ''sessionId''))"

definition claimed_participant :: "http_request \<Rightarrow> string option" where
  "claimed_participant rq =
     (case route_param rq ''participantId'' of Some p \<Rightarrow> Some p | None \<Rightarrow> stringField (hq_body rq) ''participantId'')"

definition participantGuard :: "db \<Rightarrow> http_request \<Rightarrow> bool" where
  "participantGuard d rq =
     (case bearerToken (hq_authorization rq) of
        None \<Rightarrow> False
      | Some token \<Rightarrow>
          token \<noteq> [] \<and> length token \<le> 256 \<and> truthy (claimed_session rq) \<and>
          hasParticipantAccess (the (claimed_session rq)) token (claimed_participant rq) d)"

text \<open>Requests that change study settings wait while the Etherpad server starts or stops.\<close>

definition settings_route :: "string \<Rightarrow> bool" where
  "settings_route url =
     list_ex (\<lambda>rest. list_ex (\<lambda>name.
       let p = ''/api/'' @ name; behind = drop (length p) rest
       in take (length p) rest = p \<and> (behind = [] \<or> hd behind = CHR ''/'' \<or> hd behind = CHR ''?''))
       [''conditions'', ''rounds'', ''settings'', ''admin'']) (suffixes url)"

definition workspaceMutationGuard :: "pad_store \<Rightarrow> http_request \<Rightarrow> bool" where
  "workspaceMutationGuard ep rq =
     (hq_method rq \<in> {''GET'', ''HEAD'', ''OPTIONS''} \<or> \<not> (settings_route (hq_url rq) \<and> etherpadBusy ep))"

section \<open>sessions.controller.ts: participants\<close>

datatype api_error =
    Ae_Unauthorized | Ae_Busy | Ae_Invalid request_error | Ae_Service service_error | Ae_Survey survey_error

type_synonym 'a api = "api_error + 'a"

definition authorized :: "bool \<Rightarrow> api_error \<Rightarrow> 'a api \<Rightarrow> 'a api" where
  "authorized passed e rest = (if passed then rest else Inl e)"

definition validated :: "verdict \<Rightarrow> 'a api \<Rightarrow> 'a api" where
  "validated v rest = (case v of Some e \<Rightarrow> Inl (Ae_Invalid e) | None \<Rightarrow> rest)"

definition of_service :: "service_error + 'a \<Rightarrow> 'a api" where
  "of_service r = (case r of Inl e \<Rightarrow> Inl (Ae_Service e) | Inr x \<Rightarrow> Inr x)"

definition body_field :: "answer option \<Rightarrow> string \<Rightarrow> answer option" where
  "body_field v key = (case v of Some (A_Obj fs) \<Rightarrow> map_of fs key | _ \<Rightarrow> None)"

definition text_of :: "answer option \<Rightarrow> string \<Rightarrow> string" where
  "text_of v key = (case body_field v key of Some (A_Str s) \<Rightarrow> s | _ \<Rightarrow> [])"

definition survey_request_of :: "(string \<Rightarrow> stamp) \<Rightarrow> answer option \<Rightarrow> survey_request" where
  "survey_request_of stamp_of body =
     \<lparr>sq_sessionId = text_of body ''sessionId'', sq_participantId = text_of body ''participantId'',
      sq_entry = (text_of body ''kind'' = ''entry''),
      sq_survey = \<lparr>sv_answers = (case body_field (body_field body ''survey'') ''answers'' of Some (A_Obj fs) \<Rightarrow> fs | _ \<Rightarrow> []),
        sv_submittedAt = stamp_of (text_of (body_field body ''survey'') ''submittedAt'')\<rparr>\<rparr>"

type_synonym survey_pads = "(string \<Rightarrow> string \<Rightarrow> bool \<Rightarrow> service_error + string) option"

definition post_surveys :: "(string \<Rightarrow> stamp) \<Rightarrow> survey_pads \<Rightarrow> int \<Rightarrow> http_request \<Rightarrow> study \<Rightarrow> study api" where
  "post_surveys stamp_of pads now rq st =
     authorized (participantGuard (sy_db st) rq) Ae_Unauthorized
       (validated (validateSurveyRequest (\<lambda>s. parse_ms (stamp_of s) \<noteq> None) (hq_body rq))
         (case submitSurvey pads now (survey_request_of stamp_of (hq_body rq)) st of
            Inl e \<Rightarrow> Inl (Ae_Survey e) | Inr st' \<Rightarrow> Inr st'))"

definition post_debrief_feedback :: "http_request \<Rightarrow> study \<Rightarrow> study api" where
  "post_debrief_feedback rq st =
     authorized (participantGuard (sy_db st) rq) Ae_Unauthorized
       (validated (validateDebriefFeedbackRequest (hq_body rq))
         (of_service (submitDebriefFeedback (text_of (hq_body rq) ''sessionId'')
           (text_of (hq_body rq) ''participantId'') (take 4000 (text_of (hq_body rq) ''feedback'')) st)))"

definition get_session :: "http_request \<Rightarrow> study \<Rightarrow> public_session api" where
  "get_session rq st =
     authorized (participantGuard (sy_db st) rq) Ae_Unauthorized
       (of_service (and_then (loaded (orelse (route_param rq ''id'') []) st) (\<lambda>s. Inr (toPublicSession s))))"

definition post_complete_session :: "int \<Rightarrow> http_request \<Rightarrow> study \<Rightarrow> study api" where
  "post_complete_session now rq st =
     authorized (participantGuard (sy_db st) rq) Ae_Unauthorized
       (of_service (and_then (completeSession now (orelse (route_param rq ''id'') []) st) (\<lambda>(s, st'). Inr st')))"

definition post_complete_participant ::
    "surroundings \<Rightarrow> int \<Rightarrow> http_request \<Rightarrow> study \<Rightarrow> (completion_response \<times> study) api" where
  "post_complete_participant env now rq st =
     authorized (participantGuard (sy_db st) rq) Ae_Unauthorized
       (of_service (completeParticipant env now (orelse (route_param rq ''sessionId'') [])
         (orelse (route_param rq ''participantId'') []) st))"


section \<open>sessions.controller.ts and rounds.controller.ts: researchers and the Chat Service\<close>

text \<open>\<open>condition_of_body\<close>: the condition the JSON of the request describes, under the identifier of the route.\<close>

definition put_condition ::
    "string option \<Rightarrow> (answer option \<Rightarrow> string \<Rightarrow> rat condition) \<Rightarrow> int \<Rightarrow> http_request \<Rightarrow> study
     \<Rightarrow> (rat condition \<times> study) api" where
  "put_condition adminToken condition_of_body now rq st =
     authorized (adminGuard adminToken rq) Ae_Unauthorized
       (validated (validateCondition (body_field (hq_body rq) ''condition''))
         (Inr (upsertCondition now
           (condition_of_body (body_field (hq_body rq) ''condition'') (orelse (route_param rq ''id'') [])) st)))"

definition setting_names :: "string list" where
  "setting_names = [''compensationUrl'', ''noConsentUrl'', ''ineligibleUrl'', ''withdrawalUrl'', ''unmatchedUrl'',
     ''technicalFailureUrl'']"

text \<open>
  The entries of the settings of a request: a value that is no object has none, except for the
  positions of a string or a list.
\<close>

definition object_entries :: "answer option \<Rightarrow> (string \<times> answer) list" where
  "object_entries v =
     (case v of
        Some (A_Obj fs) \<Rightarrow> fs
      | Some (A_Str s) \<Rightarrow> map (\<lambda>i. (show_nat i, A_Str [s ! i])) [0..<length s]
      | Some (A_List vs) \<Rightarrow> map (\<lambda>i. (show_nat i, vs ! i)) [0..<length vs]
      | _ \<Rightarrow> [])"

fun checked_settings ::
    "(string \<Rightarrow> url option) \<Rightarrow> (string \<times> answer) list \<Rightarrow> request_error + (string \<times> answer) list" where
  "checked_settings parse [] = Inr []"
| "checked_settings parse ((key, v) # rest) =
     (case validateCompensationUrl parse (Some (if v = A_Null then A_Str [] else v)) key of
        Inl e \<Rightarrow> Inl e
      | Inr text \<Rightarrow>
          (case checked_settings parse rest of Inl e \<Rightarrow> Inl e | Inr patch \<Rightarrow> Inr ((key, A_Str text) # patch)))"

definition put_settings ::
    "string option \<Rightarrow> (string \<Rightarrow> url option) \<Rightarrow> http_request \<Rightarrow> study \<Rightarrow> (study_settings \<times> study) api" where
  "put_settings adminToken parse rq st =
     authorized (adminGuard adminToken rq) Ae_Unauthorized
       (let settings = object_entries (body_field (hq_body rq) ''settings'')
        in case find (\<lambda>(key, v). key \<notin> set setting_names) settings of
             Some (key, v) \<Rightarrow> Inl (Ae_Invalid (Rq_Bad (''Unknown study setting: '' @ key)))
           | None \<Rightarrow>
               (case checked_settings parse settings of
                  Inl e \<Rightarrow> Inl (Ae_Invalid e) | Inr patch \<Rightarrow> Inr (updateStudySettings patch st)))"

text \<open>The progress of the conditions in the current round.\<close>

record condition_progress =
  cg_condition :: "rat condition"
  cg_completed :: nat
  cg_goal :: rat
  cg_createdAt :: "stamp option"

definition get_progress ::
    "string option \<Rightarrow> (string \<Rightarrow> string \<Rightarrow> int) \<Rightarrow> int \<Rightarrow> http_request \<Rightarrow> study
     \<Rightarrow> condition_progress list api \<times> study" where
  "get_progress adminToken compare now rq st =
     (if \<not> adminGuard adminToken rq then (Inl Ae_Unauthorized, st)
      else let (current, rounds) = currentRound now (sy_rounds st); st' = st\<lparr>sy_rounds := rounds\<rparr>
           in (case current of
                 Inl e \<Rightarrow> Inl (Ae_Service (Se_Database e))
               | Inr r \<Rightarrow> Inr (map (\<lambda>c. \<lparr>cg_condition = c, cg_completed = completedCount (cd_id c) (ro_id r) (sy_db st),
                     cg_goal = cd_goal c, cg_createdAt = om_get (conditionCreatedAt st) (cd_id c)\<rparr>)
                     (listConditions compare st)),
               st'))"

text \<open>The actions of the page of outcomes; the answer of the action itself is left out.\<close>

definition post_outcome_action ::
    "string option \<Rightarrow> setting \<Rightarrow> (nat \<Rightarrow> string) \<Rightarrow> http_request \<Rightarrow> world \<Rightarrow> unit api \<times> world" where
  "post_outcome_action adminToken cfg uuid rq w =
     (if \<not> adminGuard adminToken rq then (Inl Ae_Unauthorized, w)
      else
        let i = orelse (route_param rq ''id'') []; action = orelse (route_param rq ''action'') [] in
        if action = ''request-return'' then (Inr (), run_op cfg uuid (Op_Return i) w)
        else if action = ''prepare-bonus'' then (Inr (), run_op cfg uuid (Op_Prepare i) w)
        else if action = ''pay-bonus'' then (Inr (), run_op cfg uuid (Op_Pay i) w)
        else if action = ''resolve-manually'' then (Inr (), run_op cfg uuid (Op_Resolve i) w)
        else (Inl (Ae_Invalid (Rq_Bad ''Unknown Prolific action'')), w))"

definition post_round ::
    "string option \<Rightarrow> surroundings \<Rightarrow> int \<Rightarrow> http_request \<Rightarrow> study \<Rightarrow> (round_state \<times> nat) api \<times> study" where
  "post_round adminToken env now rq st =
     (if \<not> adminGuard adminToken rq then (Inl Ae_Unauthorized, st)
      else case validateRoundLabel (body_field (hq_body rq) ''label'') of
          Inl e \<Rightarrow> (Inl (Ae_Invalid e), st)
        | Inr label \<Rightarrow> (let (r, st') = doStartRound env now label st in (of_service r, st')))"

definition get_rounds ::
    "string option \<Rightarrow> int \<Rightarrow> http_request \<Rightarrow> study \<Rightarrow> (int \<times> study_round list) api \<times> study" where
  "get_rounds adminToken now rq st =
     (if \<not> adminGuard adminToken rq then (Inl Ae_Unauthorized, st)
      else let (current, rows) = currentRound now (sy_rounds st);
               (rounds, rows') = listRounds now (db_sessions (sy_db st)) rows
           in ((case (current, rounds) of
                  (Inr r, Inr rs) \<Rightarrow> Inr (ro_id r, rs)
                | (Inl e, _) \<Rightarrow> Inl (Ae_Service (Se_Database e))
                | (_, Inl e) \<Rightarrow> Inl (Ae_Service (Se_Database e))),
               st\<lparr>sy_rounds := rows'\<rparr>))"

definition put_round ::
    "string option \<Rightarrow> (string \<Rightarrow> jsnum) \<Rightarrow> int \<Rightarrow> http_request \<Rightarrow> study \<Rightarrow> study_round api \<times> study" where
  "put_round adminToken number_of now rq st =
     (if \<not> adminGuard adminToken rq then (Inl Ae_Unauthorized, st)
      else
        let number = orelse (route_param rq ''number'') [];
            unknown = Inl (Ae_Service (Se_Not_Found (''Unknown round '' @ number)))
        in case number_of number of
             Num x \<Rightarrow>
               if \<not> is_integer x then (unknown, st)
               else (case validateRoundLabel (body_field (hq_body rq) ''label'') of
                   Inl e \<Rightarrow> (Inl (Ae_Invalid e), st)
                 | Inr label \<Rightarrow>
                     (case updateRoundLabel \<lfloor>x\<rfloor> label (sy_rounds st) of
                        (None, rows) \<Rightarrow> (unknown, st\<lparr>sy_rounds := rows\<rparr>)
                      | (Some updated, rows) \<Rightarrow>
                          let (rounds, rows') = listRounds now (db_sessions (sy_db st)) rows
                          in ((case rounds of
                                 Inl e \<Rightarrow> Inl (Ae_Service (Se_Database e))
                               | Inr rs \<Rightarrow> Inr (case find (\<lambda>r. sn_number r = ro_id updated) rs of
                                     Some r \<Rightarrow> r
                                   | None \<Rightarrow> \<lparr>sn_number = ro_id updated, sn_label = ro_label updated,
                                       sn_startedAt = ro_startedAt updated, sn_endedAt = ro_endedAt updated,
                                       sn_sessionCount = 0, sn_completedCount = 0\<rparr>)),
                              st\<lparr>sy_rounds := rows'\<rparr>)))
           | _ \<Rightarrow> (unknown, st))"

text \<open>
  The Chat Service's writes enter the queue of the session; \<open>checkpoint_of_body\<close> reads the JSON. The
  identifier of its bot is a text.
\<close>

definition put_checkpoint ::
    "string option \<Rightarrow> (answer option \<Rightarrow> checkpoint) \<Rightarrow> bool \<Rightarrow> http_request \<Rightarrow> writer \<Rightarrow> writer api" where
  "put_checkpoint internalToken checkpoint_of_body finalize rq w =
     authorized (internalGuard internalToken rq) Ae_Unauthorized
       (validated (validateCheckpointRequest (hq_body rq))
         (Inr (queueRuntimeWrite (orelse (route_param rq ''id'') []) (checkpoint_of_body (hq_body rq)) finalize w)))"

definition post_recover :: "string option \<Rightarrow> http_request \<Rightarrow> study \<Rightarrow> start_notification list api" where
  "post_recover internalToken rq st =
     authorized (internalGuard internalToken rq) Ae_Unauthorized
       (of_service (recoverRunningSessions (text_of (hq_body rq) ''botUserId'') (sy_db st)))"

section \<open>etherpad.controller.ts\<close>

definition pad_token :: "http_request \<Rightarrow> string" where
  "pad_token rq = orelse (bearerToken (hq_authorization rq)) []"

datatype workspace_route = Wr_Toggle | Wr_Prepare | Wr_Pad | Wr_Finish | Wr_Leave

text \<open>What a request asks of the writing service, or why it is refused.\<close>

definition phase_of :: "string \<Rightarrow> pad_phase option" where
  "phase_of s =
     (if s = ''entry'' then Some Pad_Entry else if s = ''group'' then Some Pad_Group
      else if s = ''exit'' then Some Pad_Exit else None)"

fun workspace_event ::
    "string option \<Rightarrow> bool \<Rightarrow> int \<Rightarrow> int \<Rightarrow> pad_env \<Rightarrow> workspace_route \<Rightarrow> http_request \<Rightarrow> pad_event api" where
  "workspace_event adminToken configured now later env Wr_Toggle rq =
     authorized (adminGuard adminToken rq) Ae_Unauthorized
       (case body_field (hq_body rq) ''enabled'' of
          Some (A_Bool enabled) \<Rightarrow> Inr (Ev_Enable configured now later enabled)
        | _ \<Rightarrow> Inl (Ae_Invalid (Rq_Bad ''enabled must be a boolean'')))"
| "workspace_event adminToken configured now later env Wr_Prepare rq = Inr (Ev_Prepare now (pad_token rq))"
| "workspace_event adminToken configured now later env Wr_Pad rq =
     (case phase_of (orelse (route_param rq ''phase'') []) of
        None \<Rightarrow> Inl (Ae_Invalid (Rq_Bad ''Invalid phase''))
      | Some phase \<Rightarrow> Inr (Ev_Pad env (pad_token rq) phase (stringField (hq_body rq) ''sessionId'')))"
| "workspace_event adminToken configured now later env Wr_Finish rq =
     Inr (Ev_Finish env (pad_token rq) (orelse (route_param rq ''id'') []))"
| "workspace_event adminToken configured now later env Wr_Leave rq = Inr (Ev_Leave (pad_token rq))"


section \<open>The requests of participants\<close>

text \<open>The routes behind the participants' guard that write, with the parameters in their paths.\<close>

datatype participant_route =
    Rt_Surveys | Rt_Debrief_Feedback | Rt_Complete_Session string | Rt_Complete_Participant string string

fun route_params :: "participant_route \<Rightarrow> (string \<times> string) list" where
  "route_params Rt_Surveys = []"
| "route_params Rt_Debrief_Feedback = []"
| "route_params (Rt_Complete_Session sid) = [(''id'', sid)]"
| "route_params (Rt_Complete_Participant sid pid) = [(''sessionId'', sid), (''participantId'', pid)]"

text \<open>A path parameter has at least one character.\<close>

definition proper_route :: "participant_route \<Rightarrow> bool" where
  "proper_route route = list_all (\<lambda>(name, v). v \<noteq> []) (route_params route)"

definition on_route :: "participant_route \<Rightarrow> http_request \<Rightarrow> http_request" where
  "on_route route rq = rq\<lparr>hq_params := route_params route\<rparr>"

text \<open>The study after a request, whatever its answer.\<close>

fun participant_call ::
    "(string \<Rightarrow> stamp) \<Rightarrow> survey_pads \<Rightarrow> surroundings \<Rightarrow> int \<Rightarrow> participant_route \<Rightarrow> http_request \<Rightarrow> study \<Rightarrow> study" where
  "participant_call stamp_of pads env now Rt_Surveys rq st =
     (case post_surveys stamp_of pads now (on_route Rt_Surveys rq) st of Inl e \<Rightarrow> st | Inr st' \<Rightarrow> st')"
| "participant_call stamp_of pads env now Rt_Debrief_Feedback rq st =
     (case post_debrief_feedback (on_route Rt_Debrief_Feedback rq) st of Inl e \<Rightarrow> st | Inr st' \<Rightarrow> st')"
| "participant_call stamp_of pads env now (Rt_Complete_Session sid) rq st =
     (case post_complete_session now (on_route (Rt_Complete_Session sid) rq) st of Inl e \<Rightarrow> st | Inr st' \<Rightarrow> st')"
| "participant_call stamp_of pads env now (Rt_Complete_Participant sid pid) rq st =
     (case post_complete_participant env now (on_route (Rt_Complete_Participant sid pid) rq) st of
        Inl e \<Rightarrow> st | Inr (response, st') \<Rightarrow> st')"

section \<open>Lemmas: own rows\<close>

text \<open>A seat opened with a token, and what a request leaves alone: all rows of other seats.\<close>

definition holds_seat :: "string \<Rightarrow> string \<Rightarrow> db \<Rightarrow> bool" where
  "holds_seat token pid d = (\<exists>r\<in>set (db_participants d). pr_id r = pid \<and> pr_trackingToken r = token)"

definition others_kept :: "string \<Rightarrow> db \<Rightarrow> db \<Rightarrow> bool" where
  "others_kept token d d' =
     ((\<forall>r\<in>set (db_participants d). pr_trackingToken r \<noteq> token \<longrightarrow> r \<in> set (db_participants d')) \<and>
      (\<forall>pid. \<not> holds_seat token pid d \<longrightarrow>
         filter (\<lambda>v. vr_participantId v = pid) (db_surveys d') = filter (\<lambda>v. vr_participantId v = pid) (db_surveys d)))"

lemma others_kept_refl [simp]: "others_kept token d d"
  by (simp add: others_kept_def)

lemma others_kept_tables:
  "db_participants d' = db_participants d \<Longrightarrow> db_surveys d' = db_surveys d \<Longrightarrow> others_kept token d d'"
  by (simp add: others_kept_def)

lemma guard_passed:
  assumes "participantGuard d rq" and "claimed_participant rq = Some pid" and "pid \<noteq> []"
  shows "\<exists>token. bearerToken (hq_authorization rq) = Some token \<and> holds_seat token pid d"
  using assms by (auto simp: participantGuard_def hasParticipantAccess_def holds_seat_def list_ex_iff split: option.splits)

lemma filter_map_update:
  "(\<And>v. P v \<Longrightarrow> f v = v) \<Longrightarrow> (\<And>v. P (f v) = P v) \<Longrightarrow> filter P (map f vs) = filter P vs"
  by (induction vs) auto

lemma others_keptI:
  assumes "holds_seat token pid d" and "db_participants d' = db_participants d"
    and "\<And>pid'. pid' \<noteq> pid \<Longrightarrow> filter (\<lambda>v. vr_participantId v = pid') (db_surveys d') =
      filter (\<lambda>v. vr_participantId v = pid') (db_surveys d)"
  shows "others_kept token d d'"
  unfolding others_kept_def using assms by (metis (lifting))

lemma survey_kept:
  assumes "holds_seat token pid d"
  shows "others_kept token d (snd (saveParticipantSurvey now sid pid entry s d))"
proof -
  have "filter (\<lambda>v. vr_participantId v = pid') (db_surveys (upsertSurvey now pid entry s d)) =
      filter (\<lambda>v. vr_participantId v = pid') (db_surveys d)" if "pid' \<noteq> pid" for pid'
    using that by (auto simp: upsertSurvey_def survey_key_def intro!: filter_map_update)
  then show ?thesis
    using others_keptI [OF assms, of "upsertSurvey now pid entry s d"]
    by (simp add: saveParticipantSurvey_def) (simp add: upsertSurvey_def)
qed

lemma feedback_kept:
  assumes "holds_seat token pid d"
  shows "others_kept token d (snd (patchExitSurveyAnswers sid pid patch d))"
proof -
  have "filter (\<lambda>v. vr_participantId v = pid')
      (map (\<lambda>v. if survey_key pid False v then v\<lparr>vr_answers := object_assign (vr_answers v) patch\<rparr> else v) (db_surveys d)) =
      filter (\<lambda>v. vr_participantId v = pid') (db_surveys d)" if "pid' \<noteq> pid" for pid'
    using that by (intro filter_map_update) (auto simp: survey_key_def)
  then show ?thesis
    by (intro others_keptI [OF assms]) (auto simp: patchExitSurveyAnswers_def)
qed

lemma completion_kept:
  assumes "holds_seat token pid d" and "distinct (map pr_id (db_participants d))"
  shows "others_kept token d (snd (markParticipantCompleted now sid pid completedAt d))"
proof -
  have "pr_id r \<noteq> pid" if "r \<in> set (db_participants d)" "pr_trackingToken r \<noteq> token" for r
  proof
    assume "pr_id r = pid"
    moreover obtain x where "x \<in> set (db_participants d)" "pr_id x = pid" "pr_trackingToken x = token"
      using assms(1) by (auto simp: holds_seat_def)
    ultimately have "x = r" using assms(2) that(1) by (auto simp: distinct_map dest: inj_onD)
    with that(2) \<open>pr_trackingToken x = token\<close> show False by simp
  qed
  then show ?thesis
    by (force simp: others_kept_def markParticipantCompleted_def seat_of_def Let_def)
qed

lemma lifecycle_kept:
  "completeSession now sid st = Inr (s, st') \<Longrightarrow> others_kept token (sy_db st) (sy_db st')"
  by (auto simp: completeSession_def and_then_def updateSessionLifecycle_def update_session_row_def
      intro!: others_kept_tables split: sum.splits if_splits)

lemma text_of_stringField: "stringField body key = Some s \<Longrightarrow> text_of body key = s"
  by (auto simp: stringField_def text_of_def body_field_def split: option.splits answer.splits)

lemma bounded_text: "bounded v name 1 hi = None \<Longrightarrow> \<exists>s. v = Some (A_Str s) \<and> s \<noteq> []"
  by (auto simp: bounded_def boundedString_def string_then_def Let_def split: option.splits answer.splits if_splits)

text \<open>A body that passes its check names a participant, and the guard looked for exactly that one.\<close>

lemma body_participant:
  assumes "map_of fs ''participantId'' = Some (A_Str pid)" and "hq_body rq = Some (A_Obj fs)" and "hq_params rq = []"
  shows "claimed_participant rq = Some pid" and "text_of (hq_body rq) ''participantId'' = pid"
  using assms by (simp_all add: claimed_participant_def route_param_def stringField_def text_of_def body_field_def)

lemma survey_body:
  assumes "validateSurveyRequest readable (hq_body rq) = None" and "hq_params rq = []"
  shows "\<exists>pid. claimed_participant rq = Some pid \<and> pid \<noteq> [] \<and> text_of (hq_body rq) ''participantId'' = pid"
proof -
  obtain fs where fs: "hq_body rq = Some (A_Obj fs)" and "bounded (map_of fs ''participantId'') ''participantId'' 1 100 = None"
    using assms(1) by (auto simp: validateSurveyRequest_def record_of_def verdicts_pass split: option.splits answer.splits)
  with bounded_text obtain pid where "map_of fs ''participantId'' = Some (A_Str pid)" "pid \<noteq> []" by blast
  with body_participant [OF _ fs assms(2)] show ?thesis by blast
qed

lemma feedback_body:
  assumes "validateDebriefFeedbackRequest (hq_body rq) = None" and "hq_params rq = []"
  shows "\<exists>pid. claimed_participant rq = Some pid \<and> pid \<noteq> [] \<and> text_of (hq_body rq) ''participantId'' = pid"
proof -
  obtain fs where fs: "hq_body rq = Some (A_Obj fs)" and "bounded (map_of fs ''participantId'') ''participantId'' 1 100 = None"
    using assms(1) by (auto simp: validateDebriefFeedbackRequest_def record_of_def verdicts_pass split: option.splits answer.splits)
  with bounded_text obtain pid where "map_of fs ''participantId'' = Some (A_Str pid)" "pid \<noteq> []" by blast
  with body_participant [OF _ fs assms(2)] show ?thesis by blast
qed

lemma submitted_survey:
  "submitSurvey pads now q st = Inr st' \<Longrightarrow> \<exists>s. sy_db st' =
     snd (saveParticipantSurvey now (sq_sessionId q) (sq_participantId q) (sq_entry q) s (sy_db st))"
  by (auto simp: submitSurvey_def and_then_def split: sum.splits option.splits prod.splits if_splits) (metis snd_conv)

lemma submitted_feedback:
  "submitDebriefFeedback sid pid feedback st = Inr st' \<Longrightarrow>
     sy_db st' = snd (patchExitSurveyAnswers sid pid [(''debriefFeedback'', A_Str feedback)] (sy_db st))"
  by (auto simp: submitDebriefFeedback_def split: prod.splits if_splits)

lemma completed_participant:
  assumes "completeParticipant env now sid pid st = Inr (response, st')"
  shows "sy_db st' = sy_db st \<or> sy_db st' = snd (markParticipantCompleted now sid pid (Stamp now) (sy_db st))"
proof -
  obtain p where p: "completion_checks sid pid st = Inr p" and w: "completion_writes env now sid p st = (response, st')"
    using assms by (auto simp: completeParticipant_def and_then_def split: sum.splits)
  have "pt_id p = pid"
    using p by (auto simp: completion_checks_def and_then_def dest: find_SomeD split: sum.splits option.splits if_splits)
  with w show ?thesis by (auto simp: completion_writes_def Let_def)
qed

lemma call_keeps_others:
  assumes "distinct (map pr_id (db_participants (sy_db st)))" and "proper_route route"
    and "sy_db (participant_call stamp_of pads env now route rq st) \<noteq> sy_db st"
  shows "\<exists>token. bearerToken (hq_authorization rq) = Some token \<and>
    others_kept token (sy_db st) (sy_db (participant_call stamp_of pads env now route rq st))"
proof -
  let ?rq = "on_route route rq"
  have rq: "hq_authorization ?rq = hq_authorization rq" "hq_params ?rq = route_params route"
    by (simp_all add: on_route_def)
  show ?thesis
  proof (cases route)
    case Rt_Surveys
    let ?q = "survey_request_of stamp_of (hq_body ?rq)"
    have ok: "participantGuard (sy_db st) ?rq" "validateSurveyRequest (\<lambda>s. parse_ms (stamp_of s) \<noteq> None) (hq_body ?rq) = None"
      and sub: "submitSurvey pads now ?q st = Inr (participant_call stamp_of pads env now route rq st)"
      using assms(3) by (auto simp: Rt_Surveys post_surveys_def authorized_def validated_def split: sum.splits if_splits option.splits)
    obtain pid where pid: "claimed_participant ?rq = Some pid" "pid \<noteq> []" "text_of (hq_body ?rq) ''participantId'' = pid"
      using survey_body [OF ok(2)] rq(2) by (auto simp: Rt_Surveys)
    then have "sq_participantId ?q = pid" by (simp add: survey_request_of_def)
    with guard_passed [OF ok(1) pid(1,2)] submitted_survey [OF sub] survey_kept rq(1) show ?thesis by metis
  next
    case Rt_Debrief_Feedback
    have ok: "participantGuard (sy_db st) ?rq" "validateDebriefFeedbackRequest (hq_body ?rq) = None"
      and sub: "submitDebriefFeedback (text_of (hq_body ?rq) ''sessionId'') (text_of (hq_body ?rq) ''participantId'')
        (take 4000 (text_of (hq_body ?rq) ''feedback'')) st = Inr (participant_call stamp_of pads env now route rq st)"
      using assms(3) by (auto simp: Rt_Debrief_Feedback post_debrief_feedback_def authorized_def validated_def of_service_def
          split: sum.splits if_splits option.splits)
    obtain pid where pid: "claimed_participant ?rq = Some pid" "pid \<noteq> []" "text_of (hq_body ?rq) ''participantId'' = pid"
      using feedback_body [OF ok(2)] rq(2) by (auto simp: Rt_Debrief_Feedback)
    with guard_passed [OF ok(1) pid(1,2)] submitted_feedback [OF sub] feedback_kept rq(1) show ?thesis by metis
  next
    case (Rt_Complete_Session sid)
    obtain s where ok: "participantGuard (sy_db st) ?rq"
      and sub: "completeSession now sid st = Inr (s, participant_call stamp_of pads env now route rq st)"
      using assms(3) by (auto simp: Rt_Complete_Session post_complete_session_def authorized_def of_service_def and_then_def
          route_param_def on_route_def split: sum.splits if_splits option.splits)
    from ok obtain token where "bearerToken (hq_authorization rq) = Some token"
      by (auto simp: participantGuard_def rq(1) split: option.splits)
    with lifecycle_kept [OF sub] show ?thesis by blast
  next
    case (Rt_Complete_Participant sid pid)
    obtain response where ok: "participantGuard (sy_db st) ?rq"
      and sub: "completeParticipant env now sid pid st = Inr (response, participant_call stamp_of pads env now route rq st)"
      using assms(3) by (auto simp: Rt_Complete_Participant post_complete_participant_def authorized_def of_service_def
          route_param_def on_route_def split: sum.splits if_splits option.splits)
    have claimed: "claimed_participant ?rq = Some pid"
      unfolding Rt_Complete_Participant by (simp add: claimed_participant_def route_param_def on_route_def)
    have "pid \<noteq> []" using assms(2) by (simp add: proper_route_def Rt_Complete_Participant)
    then obtain token where "bearerToken (hq_authorization rq) = Some token" "holds_seat token pid (sy_db st)"
      using guard_passed [OF ok] claimed rq(1) by (auto simp: Rt_Complete_Participant)
    with completed_participant [OF sub] completion_kept [OF _ assms(1)] show ?thesis by (metis others_kept_refl)
  qed
qed


section \<open>Properties\<close>

text \<open>
  C27: A participant's requests write nobody else's data: whatever request is sent to a route of the
  participants, with whatever body, every participant row and every questionnaire of seats that were
  not opened with the token sent stays as it was; and without a token nothing changes at all.
\<close>

theorem participants_write_own_rows:
  assumes "store_ok (sy_db st)" and "proper_route route"
    and "st' = participant_call stamp_of pads env now route rq st"
  shows "(bearerToken (hq_authorization rq) = None \<longrightarrow> sy_db st' = sy_db st) \<and>
    (\<forall>token. bearerToken (hq_authorization rq) = Some token \<longrightarrow>
      (\<forall>r\<in>set (db_participants (sy_db st)). pr_trackingToken r \<noteq> token \<longrightarrow> r \<in> set (db_participants (sy_db st'))) \<and>
      (\<forall>pid. (\<forall>r\<in>set (db_participants (sy_db st)). pr_id r = pid \<longrightarrow> pr_trackingToken r \<noteq> token) \<longrightarrow>
        filter (\<lambda>v. vr_participantId v = pid) (db_surveys (sy_db st')) =
        filter (\<lambda>v. vr_participantId v = pid) (db_surveys (sy_db st))))"
proof (cases "sy_db st' = sy_db st")
  case False
  from assms(1) have "distinct (map pr_id (db_participants (sy_db st)))" by (simp add: store_ok_def)
  from call_keeps_others [OF this assms(2)] False assms(3)
  obtain token where "bearerToken (hq_authorization rq) = Some token" "others_kept token (sy_db st) (sy_db st')"
    by blast
  then show ?thesis by (auto simp: others_kept_def holds_seat_def)
qed simp

text \<open>The study of the completion example with a second member, and a request with the token of the first.\<close>

definition two_members :: study where
  "two_members = exit_study\<lparr>sy_db := (sy_db exit_study)\<lparr>
     db_participants := [participantCreateData 0 ''s1'' (sample_participant ''p1''),
       participantCreateData 0 ''s1'' (sample_participant ''p2'')],
     db_surveys := map (\<lambda>pid. \<lparr>vr_participantId = pid, vr_entry = False, vr_answers = [], vr_submittedAt = 4\<rparr>)
       [''p1'', ''p2'']\<rparr>\<rparr>"

definition feedback_request :: "string \<Rightarrow> http_request" where
  "feedback_request pid =
     \<lparr>hq_method = ''POST'', hq_url = ''/api/surveys/debrief-feedback'',
      hq_authorization = Header ''Bearer tokenp1'', hq_internalToken = No_Header, hq_params = [],
      hq_body = Some (A_Obj [(''sessionId'', A_Str ''s1''), (''participantId'', A_Str pid), (''feedback'', A_Str ''fine'')])\<rparr>"

definition after_feedback :: "string \<Rightarrow> study" where
  "after_feedback pid =
     participant_call Bad_Stamp None sample_surroundings 9 Rt_Debrief_Feedback (feedback_request pid) two_members"

lemma two_members_ok: "store_ok (sy_db two_members)"
  by (simp add: store_ok_def two_members_def exit_study_def lobby_study_def empty_db_def participantCreateData_def
      sample_participant_def lobby_row)

theorem participants_write_own_rows_witness:
  "map vr_answers (db_surveys (sy_db (after_feedback ''p1''))) = [[(''debriefFeedback'', A_Str ''fine'')], []] \<and>
   filter (\<lambda>v. vr_participantId v = ''p2'') (db_surveys (sy_db (after_feedback ''p2''))) =
     filter (\<lambda>v. vr_participantId v = ''p2'') (db_surveys (sy_db two_members))"
proof -
  have "map vr_answers (db_surveys (sy_db (after_feedback ''p1''))) = [[(''debriefFeedback'', A_Str ''fine'')], []]"
    by code_simp
  moreover have "proper_route Rt_Debrief_Feedback" "bearerToken (hq_authorization (feedback_request ''p2'')) = Some ''tokenp1''"
    "\<forall>r\<in>set (db_participants (sy_db two_members)). pr_id r = ''p2'' \<longrightarrow> pr_trackingToken r \<noteq> ''tokenp1''"
    by code_simp+
  with participants_write_own_rows [OF two_members_ok _ after_feedback_def, of "''p2''"]
  have "filter (\<lambda>v. vr_participantId v = ''p2'') (db_surveys (sy_db (after_feedback ''p2''))) =
     filter (\<lambda>v. vr_participantId v = ''p2'') (db_surveys (sy_db two_members))" by blast
  ultimately show ?thesis by blast
qed

lemma completed_rows:
  assumes "distinct (map sr_id rows)" and "find (\<lambda>r. sr_id r = sid) rows = Some row"
    and "P (f row)" and "\<not> P row"
  shows "length (filter P (map (\<lambda>r. if sr_id r = sid then f r else r) rows)) = Suc (length (filter P rows))"
  using assms(1,2)
proof (induction rows)
  case (Cons r rows)
  have same: "map (\<lambda>r. if sr_id r = sid then f r else r) rows = rows" if "sid \<notin> set (map sr_id rows)"
    using that by (intro map_idI) auto
  from Cons show ?case
    using assms(3,4) same by (cases "sr_id r = sid") auto
qed simp

text \<open>
  C28: A member of a group can complete it at any time, even a lobby that still waits for members: the
  request is accepted, and the group counts towards the goal of its condition like a finished discussion.
\<close>

theorem waiting_lobby_completed:
  assumes "store_ok (sy_db st)" and "session_row_of (sy_db st) sid = Some row"
    and "sr_status row \<in> {Waiting, Provisioning, Running}"
    and "participantGuard (sy_db st) (on_route (Rt_Complete_Session sid) rq)"
  shows "completedCount (cd_id (sr_conditionSnapshot row)) (sr_roundId row)
      (sy_db (participant_call stamp_of pads env now (Rt_Complete_Session sid) rq st)) =
    Suc (completedCount (cd_id (sr_conditionSnapshot row)) (sr_roundId row) (sy_db st))"
proof -
  let ?d = "sy_db st"
  have session: "getSession sid ?d = Some (sessionFromRow ?d row)"
    using assms(2) by (simp add: getSession_def load_session_def)
  have "se_status (sessionFromRow ?d row) = sr_status row" by (simp add: sessionFromRow_def Let_def)
  with assms(2,3) session obtain s where "completeSession now sid st =
      Inr (s, st\<lparr>sy_db := update_session_row sid (patch_row now (completion_patch now)) ?d\<rparr>)"
    by (auto simp: completeSession_def loaded_def and_then_def updateSessionLifecycle_def)
  then have "participant_call stamp_of pads env now (Rt_Complete_Session sid) rq st =
      st\<lparr>sy_db := update_session_row sid (patch_row now (completion_patch now)) ?d\<rparr>"
    using assms(4) by (simp add: post_complete_session_def authorized_def of_service_def and_then_def route_param_def on_route_def)
  then have after: "sy_db (participant_call stamp_of pads env now (Rt_Complete_Session sid) rq st) =
      update_session_row sid (patch_row now (completion_patch now)) ?d" by simp
  have "distinct (map sr_id (db_sessions ?d))" "find (\<lambda>r. sr_id r = sid) (db_sessions ?d) = Some row"
    using assms(1,2) by (simp_all add: store_ok_def session_row_of_def)
  from completed_rows [OF this, of "\<lambda>r. cd_id (sr_conditionSnapshot r) = cd_id (sr_conditionSnapshot row) \<and>
      sr_roundId r = sr_roundId row \<and> sr_status r = Completed" "patch_row now (completion_patch now)"] assms(3)
  show ?thesis
    unfolding after completedCount_def update_session_row_def
    by (auto simp: patch_row_def completion_patch_def simp del: filter_map map_map)
qed

definition impatient_request :: http_request where
  "impatient_request =
     \<lparr>hq_method = ''POST'', hq_url = ''/api/sessions/s1/complete'', hq_authorization = Header ''Bearer tokenp1'',
      hq_internalToken = No_Header, hq_params = [], hq_body = None\<rparr>"

theorem waiting_lobby_completed_witness:
  "completedCount (cd_id (se_condition sample_lobby)) (se_roundId sample_lobby) (sy_db two_members) = 0 \<and>
   completedCount (cd_id (se_condition sample_lobby)) (se_roundId sample_lobby)
     (sy_db (participant_call Bad_Stamp None sample_surroundings 9 (Rt_Complete_Session ''s1'') impatient_request two_members)) = 1"
proof -
  let ?row = "sessionCreateData 0 sample_lobby"
  have row: "session_row_of (sy_db two_members) ''s1'' = Some ?row"
    by (simp add: session_row_of_def two_members_def exit_study_def lobby_study_def lobby_row)
  have status: "sr_status ?row \<in> {Waiting, Provisioning, Running}" by (simp add: lobby_row)
  have guard: "participantGuard (sy_db two_members) (on_route (Rt_Complete_Session ''s1'') impatient_request)" by code_simp
  have "completedCount (cd_id (se_condition sample_lobby)) (se_roundId sample_lobby) (sy_db two_members) = 0" by code_simp
  moreover have "sr_conditionSnapshot ?row = se_condition sample_lobby" "sr_roundId ?row = se_roundId sample_lobby"
    by (simp_all add: sessionCreateData_def)
  ultimately show ?thesis
    using waiting_lobby_completed [OF two_members_ok row status guard, of Bad_Stamp None sample_surroundings 9] by simp
qed

section \<open>Lemmas: tokens\<close>

lemma safeTokenEqual_eq: "safeTokenEqual a b \<longleftrightarrow> a = b"
  by (auto simp: safeTokenEqual_def list_all_iff list_eq_iff_zip_eq set_zip)

text \<open>With a token configured, only requests that carry it pass.\<close>

lemma admin_token_required:
  "truthy expected \<Longrightarrow> adminGuard expected rq \<longleftrightarrow> bearerToken (hq_authorization rq) = expected"
  by (cases expected) (auto simp: adminGuard_def safeTokenEqual_eq split: option.split)

lemma internal_token_required:
  "truthy expected \<Longrightarrow> internalGuard expected rq \<longleftrightarrow> hq_internalToken rq = Header (the expected)"
  by (auto simp: internalGuard_def checkInternalToken_def safeTokenEqual_eq split: header.split)

text \<open>Unknown settings are refused and the known ones arrive checked.\<close>

lemma settings_checked:
  "checked_settings parse entries = Inr patch \<Longrightarrow> map fst patch = map fst entries \<and>
     (\<forall>(key, v)\<in>set patch. \<exists>text raw. v = A_Str text \<and> validateCompensationUrl parse (Some raw) key = Inr text)"
  by (induction parse entries arbitrary: patch rule: checked_settings.induct)
    (fastforce split: sum.splits)+

end
