(* ===== verification/Session_Detail.thy ===== *)
theory Session_Detail
  imports Session_Rows
begin

text \<open>
  frontend/admin-dashboard/src/session-detail.ts: what the researchers' inspector of a session shows,
  computed from the session alone. The session comes from the tables, so its timestamps can be read;
  a number that the stored configuration lacks is \<open>None\<close> (the code computes with \<open>undefined\<close>).

  The lemmas: labels of a chart never overlap or leave it where there is room, keep their order and
  stay where they fit; a before/after table lists everybody of the triggering split exactly once; the
  totals of the activity account for every message and event.
\<close>

definition at_ms :: "stamp \<Rightarrow> rat" where
  "at_ms s = (case parse_ms s of Some t \<Rightarrow> of_int t | None \<Rightarrow> 0)"

section \<open>Identities\<close>

record participant_identity =
  pn_userId :: "string option"
  pn_name :: string
  pn_color :: string

definition known_users :: "session \<Rightarrow> string list" where
  "known_users s =
     uniq (concat (map (\<lambda>p. if truthy (pt_matrixUserId p) then [the (pt_matrixUserId p)] else []) (se_participants s)) @
       concat (map (\<lambda>w. map cs_userId (we_contributionSplit w)) (se_windowEvaluations s)) @
       map ms_senderId (se_messages s))"

definition participantIdentities :: "session \<Rightarrow> participant_identity list" where
  "participantIdentities s =
     (let identities = buildIdentities (known_users s) in
      map (\<lambda>userId. let i = identityFor identities userId
         in \<lparr>pn_userId = Some userId, pn_name = id_name i, pn_color = id_color i\<rparr>) (map fst identities) @
      map (\<lambda>p. \<lparr>pn_userId = None,
          pn_name = (if pt_name p \<noteq> [] then pt_name p else take 8 (pt_trackingToken p)),
          pn_color = id_color FALLBACK_IDENTITY\<rparr>)
        (filter (\<lambda>p. \<not> truthy (pt_matrixUserId p)) (se_participants s)))"

section \<open>The timeline\<close>

record timeline_window =
  tw_index :: int
  tw_start :: rat
  tw_end :: rat
  tw_outcome :: window_outcome
  tw_interventionId :: "string option"
  tw_shares :: "(string \<times> contribution_share) list"
  tw_candidateTargets :: "intervention_target list"

record timeline_nudge =
  tn_id :: string
  tn_at :: rat
  tn_audience :: audience
  tn_targetIds :: "string list"
  tn_targetNames :: "string list"
  tn_message :: string

record session_timeline =
  st_start :: rat
  st_end :: rat
  st_live :: bool
  st_warmUpEnd :: "rat option"
  st_wrapUpStart :: "rat option"
  st_windowMs :: "rat option"
  st_threshold :: "rat option"
  st_windows :: "timeline_window list"
  st_suppressed :: "timeline_window list"
  st_nudges :: "timeline_nudge list"
  st_messageTicks :: "(rat \<times> string) list"

definition toTimelineWindow :: "window_evaluation \<Rightarrow> timeline_window" where
  "toTimelineWindow w =
     \<lparr>tw_index = we_windowIndex w, tw_start = at_ms (we_windowStart w), tw_end = at_ms (we_windowEnd w),
      tw_outcome = we_outcome w, tw_interventionId = we_interventionId w,
      tw_shares = object_assign [] (map (\<lambda>s. (cs_userId s, s)) (we_contributionSplit w)),
      tw_candidateTargets = we_candidateTargets w\<rparr>"

definition toTimelineNudge :: "intervention_log \<Rightarrow> timeline_nudge" where
  "toTimelineNudge entry =
     \<lparr>tn_id = il_id entry, tn_at = at_ms (il_timestamp entry), tn_audience = il_audience entry,
      tn_targetIds = map it_userId (il_targets entry), tn_targetNames = map it_identityName (il_targets entry),
      tn_message = il_message entry\<rparr>"

definition evaluations_of :: "session \<Rightarrow> window_evaluation list" where
  "evaluations_of s = sort_key we_windowIndex (se_windowEvaluations s)"

definition sessionTimeline :: "session \<Rightarrow> session_timeline option" where
  "sessionTimeline s =
     map_option (\<lambda>startedAt.
       let start = at_ms startedAt;
           config = cd_config (se_condition s);
           plannedEnd = start + se_durationMinutes s * 60000;
           evaluations = evaluations_of s;
           lastWindowEnd = foldl (\<lambda>m w. max m (at_ms (we_windowEnd w))) 0 evaluations;
           latest = (if evaluations = [] then None else Some (last evaluations));
           windowMinutes = (case latest of Some w \<Rightarrow> Some (we_contributionWindowMinutes w)
             | None \<Rightarrow> raw_contributionWindowMinutes config)
       in \<lparr>st_start = start,
           st_end = max (case se_completedAt s of Some c \<Rightarrow> at_ms c | None \<Rightarrow> plannedEnd) lastWindowEnd,
           st_live = (se_completedAt s = None),
           st_warmUpEnd = map_option (\<lambda>m. start + m * 60000) (raw_protectedStartMinutes config),
           st_wrapUpStart = map_option (\<lambda>m. plannedEnd - m * 60000) (raw_protectedEndMinutes config),
           st_windowMs = map_option (\<lambda>m. m * 60000) windowMinutes,
           st_threshold = (case latest of Some w \<Rightarrow> Some (we_threshold w) | None \<Rightarrow> raw_contributionThreshold config),
           st_windows = map toTimelineWindow (filter (\<lambda>w. we_contributionSplit w \<noteq> []) evaluations),
           st_suppressed = map toTimelineWindow (filter (\<lambda>w. we_outcome w = Baseline_Suppressed) evaluations),
           st_nudges = map toTimelineNudge (se_interventions s),
           st_messageTicks = map (\<lambda>m. (at_ms (ms_timestamp m), ms_senderId m))
             (filter (\<lambda>m. \<not> isServiceUser (ms_senderId m)) (se_messages s))\<rparr>)
       (se_startedAt s)"

section \<open>Before and after a nudge\<close>

record comparison_cell =
  ce_share :: rat
  ce_messageCount :: nat

datatype comparison_role = Cr_Target | Cr_Unaddressed | Cr_Quiet

record comparison_row =
  cr_userId :: string
  cr_name :: string
  cr_role :: comparison_role
  cr_before :: comparison_cell
  cr_after :: comparison_cell

record nudge_comparison =
  nc_nudge :: timeline_nudge
  nc_windowIndex :: "int option"
  nc_windowBasis :: bool
  nc_afterUntil :: "rat option"
  nc_live :: bool
  nc_rows :: "comparison_row list"
  nc_activeBefore :: nat
  nc_activeAfter :: nat

definition EMPTY_CELL :: comparison_cell where
  "EMPTY_CELL = \<lparr>ce_share = 0, ce_messageCount = 0\<rparr>"

definition windowCells :: "contribution_share list \<Rightarrow> (string \<times> comparison_cell) list" where
  "windowCells split =
     object_assign [] (map (\<lambda>s. (cs_userId s, \<lparr>ce_share = cs_share s, ce_messageCount = cs_messageCount s\<rparr>)) split)"

definition messageShareCells :: "(string \<times> nat) list \<Rightarrow> (string \<times> comparison_cell) list" where
  "messageShareCells counts =
     (let total = sum_list (map snd counts) in
      object_assign [] (map (\<lambda>(userId, n). (userId,
        \<lparr>ce_share = (if 0 < total then of_nat n / of_nat total else 0), ce_messageCount = n\<rparr>)) counts))"

definition messagesBetween :: "session \<Rightarrow> rat \<Rightarrow> rat \<Rightarrow> (string \<times> nat) list" where
  "messagesBetween s start until =
     foldl (\<lambda>counts m.
         if isServiceUser (ms_senderId m) \<or> at_ms (ms_timestamp m) \<le> start \<or> until < at_ms (ms_timestamp m) then counts
         else om_set (ms_senderId m) (orelse (om_get counts (ms_senderId m)) 0 + 1) counts)
       [] (se_messages s)"

text \<open>The window nearest to the nudge within one window length; \<open>best\<close> carries its distance.\<close>

fun nearest_window ::
    "rat \<Rightarrow> rat \<Rightarrow> (window_evaluation \<times> rat) option \<Rightarrow> window_evaluation list \<Rightarrow> window_evaluation option" where
  "nearest_window t tolerance best [] = map_option fst best"
| "nearest_window t tolerance best (w # ws) =
     (let distance = \<bar>at_ms (we_windowEnd w) - t\<bar> in
      nearest_window t tolerance
        (if distance \<le> tolerance \<and> (case best of None \<Rightarrow> True | Some (v, d) \<Rightarrow> distance < d)
         then Some (w, distance) else best) ws)"

definition linkedWindow :: "intervention_log \<Rightarrow> window_evaluation list \<Rightarrow> window_evaluation option" where
  "linkedWindow entry evaluations =
     (case find (\<lambda>w. we_interventionId w = Some (il_id entry)) evaluations of
        Some w \<Rightarrow> Some w
      | None \<Rightarrow> nearest_window (at_ms (il_timestamp entry)) (il_contributionWindowMinutes entry * 60000) None evaluations)"

definition activeCount :: "(string \<times> comparison_cell) list \<Rightarrow> nat" where
  "activeCount cells = length (filter (\<lambda>(u, c). 0 < ce_messageCount c) cells)"

definition comparison_row_of ::
    "(string \<times> comparison_cell) list \<Rightarrow> (string \<times> comparison_cell) list \<Rightarrow> comparison_role \<Rightarrow> string \<Rightarrow> string
     \<Rightarrow> comparison_row" where
  "comparison_row_of before after role userId name =
     \<lparr>cr_userId = userId, cr_name = name, cr_role = role, cr_before = orelse (om_get before userId) EMPTY_CELL,
      cr_after = orelse (om_get after userId) EMPTY_CELL\<rparr>"

definition unaddressed_of :: "intervention_log \<Rightarrow> contribution_share list" where
  "unaddressed_of entry =
     sort_key (\<lambda>s. (- cs_share s, locale_key (cs_identityName s)))
       (filter (\<lambda>s. cs_userId s \<notin> set (map it_userId (il_targets entry @ il_quietMembers entry))) (il_contributionSplit entry))"

definition nudge_comparison_of :: "rat \<Rightarrow> session \<Rightarrow> intervention_log \<Rightarrow> nudge_comparison" where
  "nudge_comparison_of now s entry =
     (let evaluations = evaluations_of s;
          chatEnd = (case se_completedAt s of Some c \<Rightarrow> at_ms c | None \<Rightarrow> now);
          nudge = toTimelineNudge entry;
          trigger = linkedWindow entry evaluations;
          next' = Option.bind trigger (\<lambda>t. find (\<lambda>w. we_windowIndex t < we_windowIndex w \<and> we_contributionSplit w \<noteq> []) evaluations);
          before = (case next' of Some w \<Rightarrow> windowCells (il_contributionSplit entry)
            | None \<Rightarrow> messageShareCells (map (\<lambda>c. (cs_userId c, cs_messageCount c)) (il_contributionSplit entry)));
          after = (case next' of Some w \<Rightarrow> windowCells (we_contributionSplit w)
            | None \<Rightarrow> messageShareCells (messagesBetween s (tn_at nudge) chatEnd))
      in \<lparr>nc_nudge = nudge, nc_windowIndex = map_option we_windowIndex trigger, nc_windowBasis = (next' \<noteq> None),
          nc_afterUntil = (if next' = None then Some chatEnd else None), nc_live = (se_completedAt s = None),
          nc_rows =
            map (\<lambda>t. comparison_row_of before after Cr_Target (it_userId t) (it_identityName t)) (il_targets entry) @
            map (\<lambda>c. comparison_row_of before after Cr_Unaddressed (cs_userId c) (cs_identityName c)) (unaddressed_of entry) @
            map (\<lambda>t. comparison_row_of before after Cr_Quiet (it_userId t) (it_identityName t)) (il_quietMembers entry),
          nc_activeBefore = activeCount before, nc_activeAfter = activeCount after\<rparr>)"

definition nudgeComparisons :: "rat \<Rightarrow> session \<Rightarrow> nudge_comparison list" where
  "nudgeComparisons now s = map (nudge_comparison_of now s) (se_interventions s)"

section \<open>Classifier and activity\<close>

datatype classifier_summary = Classifier_Off | Classifier_Active nat nat nat "rat option"

definition classifierSummary :: "session \<Rightarrow> classifier_summary" where
  "classifierSummary s =
     (let mode = (case se_windowEvaluations s of
            w # ws \<Rightarrow> we_llmMode w
          | [] \<Rightarrow> (case se_interventions s of
              i # rest \<Rightarrow> il_llmMode i | [] \<Rightarrow> orelse (raw_llmMode (cd_config (se_condition s))) Llm_Off));
          cs = se_contributionClassifications s
      in if mode = Llm_Off then Classifier_Off
         else Classifier_Active (length cs) (length (se_classificationFailures s))
           (length (filter (\<lambda>m. \<not> isServiceUser (ms_senderId m)) (se_messages s)))
           (if cs = [] then None
            else Some (sum_list (map cc_meaningfulnessScore cs) / of_nat (length cs))))"

record engagement =
  en_messages :: nat
  en_typingMs :: rat
  en_tabHidden :: nat
  en_rankingMoves :: nat

definition no_engagement :: engagement where
  "no_engagement = \<lparr>en_messages = 0, en_typingMs = 0, en_tabHidden = 0, en_rankingMoves = 0\<rparr>"

definition add_engagement :: "engagement \<Rightarrow> engagement \<Rightarrow> engagement" where
  "add_engagement a b =
     \<lparr>en_messages = en_messages a + en_messages b, en_typingMs = en_typingMs a + en_typingMs b,
      en_tabHidden = en_tabHidden a + en_tabHidden b, en_rankingMoves = en_rankingMoves a + en_rankingMoves b\<rparr>"

definition bump :: "string \<Rightarrow> engagement \<Rightarrow> (string \<times> engagement) list \<Rightarrow> (string \<times> engagement) list" where
  "bump userId patch m = om_set userId (add_engagement (orelse (om_get m userId) no_engagement) patch) m"

text \<open>What an event adds, if anything.\<close>

definition event_patch :: "behavioral_event \<Rightarrow> engagement option" where
  "event_patch e =
     (case be_type e of
        Bt_Typing_Stop \<Rightarrow> Some (no_engagement\<lparr>en_typingMs := orelse (be_durationMs e) 0\<rparr>)
      | Bt_Tab_Hidden \<Rightarrow> Some (no_engagement\<lparr>en_tabHidden := 1\<rparr>)
      | Bt_Ranking_Move \<Rightarrow> Some (no_engagement\<lparr>en_rankingMoves := 1\<rparr>)
      | _ \<Rightarrow> None)"

definition count_event :: "(string \<times> engagement) list \<Rightarrow> behavioral_event \<Rightarrow> (string \<times> engagement) list" where
  "count_event m e = (case event_patch e of None \<Rightarrow> m | Some p \<Rightarrow> bump (be_participantId e) p m)"

definition count_sender :: "(string \<times> engagement) list \<Rightarrow> message \<Rightarrow> (string \<times> engagement) list" where
  "count_sender m x =
     (if isServiceUser (ms_senderId x) then m else bump (ms_senderId x) (no_engagement\<lparr>en_messages := 1\<rparr>) m)"

record engagement_summary =
  eg_perUser :: "(string \<times> engagement) list"
  eg_totals :: engagement
  eg_botMessages :: nat

definition engagementSummary :: "session \<Rightarrow> engagement_summary" where
  "engagementSummary s =
     (let perUser = foldl count_event (foldl count_sender [] (se_messages s)) (se_behavioralEvents s)
      in \<lparr>eg_perUser = perUser, eg_totals = foldl add_engagement no_engagement (map snd perUser),
          eg_botMessages = length (filter (\<lambda>m. isServiceUser (ms_senderId m)) (se_messages s))\<rparr>)"

section \<open>Labels\<close>

text \<open>Down: a label keeps its distance to the one above. Up: none runs past the end or into the one below.\<close>

fun pushed_down :: "rat \<Rightarrow> rat list \<Rightarrow> rat list" where
  "pushed_down gap (x # y # ys) = x # pushed_down gap (max y (x + gap) # ys)"
| "pushed_down gap xs = xs"

fun pushed_up :: "rat \<Rightarrow> rat \<Rightarrow> rat list \<Rightarrow> rat list" where
  "pushed_up gap hi [] = []"
| "pushed_up gap hi (x # xs) =
     (let below = pushed_up gap hi xs
      in min x (if below = [] then hi else hd below - gap) # below)"

definition label_order :: "rat list \<Rightarrow> (rat \<times> nat) list" where
  "label_order ys = sort (zip ys [0..<length ys])"

definition spreadLabels :: "rat list \<Rightarrow> rat \<Rightarrow> rat \<Rightarrow> rat \<Rightarrow> rat list" where
  "spreadLabels ys gap lo hi =
     (let order = label_order ys;
          placed = pushed_up gap hi (pushed_down gap (map (\<lambda>(y, i). min hi (max lo y)) order))
      in foldl (\<lambda>out ((y, i), p). out[i := p]) ys (zip order placed))"

definition formatClock :: "rat \<Rightarrow> string" where
  "formatClock ms = formatMmSs (of_int (js_round (ms / 1000)))"

definition formatShare :: "rat \<Rightarrow> string" where
  "formatShare v = show_int (js_round (v * 100)) @ ''%''"


section \<open>Lemmas: labels\<close>

text \<open>Neighbours keep the distance: every later label is at least \<open>gap\<close> below an earlier one.\<close>

definition spaced :: "rat \<Rightarrow> rat list \<Rightarrow> bool" where
  "spaced gap xs = (\<forall>k. Suc k < length xs \<longrightarrow> xs ! k + gap \<le> xs ! Suc k)"

lemma spaced_Cons: "spaced gap (x # y # ys) \<longleftrightarrow> x + gap \<le> y \<and> spaced gap (y # ys)"
  unfolding spaced_def by (auto simp: nth_Cons split: nat.splits)

lemma spaced_short [simp]: "spaced gap []" "spaced gap [x]"
  by (simp_all add: spaced_def)

lemma length_pushed_down [simp]: "length (pushed_down gap xs) = length xs"
  by (induction gap xs rule: pushed_down.induct) auto

lemma length_pushed_up [simp]: "length (pushed_up gap hi xs) = length xs"
  by (induction xs) (auto simp: Let_def)

lemma pushed_down_hd: "pushed_down gap (x # xs) = x # tl (pushed_down gap (x # xs))"
  by (cases xs) simp_all

lemma pushed_down_spaced: "spaced gap (pushed_down gap xs)"
proof (induction gap xs rule: pushed_down.induct)
  case (1 gap x y ys)
  have "x + gap \<le> max y (x + gap)" by simp
  with 1 show ?case using pushed_down_hd [of gap "max y (x + gap)" ys] spaced_Cons by (metis pushed_down.simps(1))
qed simp_all

lemma pushed_down_lower: "0 \<le> gap \<Longrightarrow> \<forall>x\<in>set xs. lo \<le> x \<Longrightarrow> \<forall>x\<in>set (pushed_down gap xs). lo \<le> x"
  by (induction gap xs rule: pushed_down.induct) (auto simp: max_def)

text \<open>The \<open>k\<close>th label from the top is at least \<open>k\<close> gaps below the upper end once pushed down.\<close>

lemma pushed_down_depth:
  "0 \<le> gap \<Longrightarrow> \<forall>x\<in>set xs. lo \<le> x \<Longrightarrow> k < length xs \<Longrightarrow> lo + of_nat k * gap \<le> pushed_down gap xs ! k"
proof (induction k)
  case 0
  then have "pushed_down gap xs ! 0 \<in> set (pushed_down gap xs)" by (intro nth_mem) simp
  with 0 pushed_down_lower [of gap xs lo] show ?case by simp
next
  case (Suc k)
  then have "lo + of_nat k * gap \<le> pushed_down gap xs ! k" by simp
  moreover have "pushed_down gap xs ! k + gap \<le> pushed_down gap xs ! Suc k"
    using pushed_down_spaced [of gap xs] Suc.prems(3) by (simp add: spaced_def)
  ultimately show ?case by (simp add: algebra_simps)
qed

lemma pushed_up_spaced: "spaced gap (pushed_up gap hi xs)"
proof (induction xs)
  case (Cons x xs)
  then show ?case by (cases "pushed_up gap hi xs") (auto simp: Let_def spaced_Cons)
qed simp

lemma pushed_up_upper: "0 \<le> gap \<Longrightarrow> \<forall>x\<in>set (pushed_up gap hi xs). x \<le> hi"
proof (induction xs)
  case (Cons x xs)
  then show ?case by (cases "pushed_up gap hi xs") (auto simp: Let_def)
qed simp

text \<open>Pushing up moves the \<open>k\<close>th label no further than its place in a full stack at the lower end.\<close>

lemma pushed_up_depth:
  assumes "\<forall>k<length xs. lo + of_nat k * gap \<le> xs ! k" and "xs \<noteq> [] \<longrightarrow> lo + of_nat (length xs - 1) * gap \<le> hi"
  shows "\<forall>k<length xs. lo + of_nat k * gap \<le> pushed_up gap hi xs ! k"
  using assms
proof (induction xs arbitrary: lo)
  case (Cons x xs)
  have rest: "\<forall>k<length xs. lo + gap + of_nat k * gap \<le> pushed_up gap hi xs ! k"
  proof (rule Cons.IH)
    show "\<forall>k<length xs. lo + gap + of_nat k * gap \<le> xs ! k"
    proof (intro allI impI)
      fix k assume "k < length xs"
      with Cons.prems(1) [rule_format, of "Suc k"] show "lo + gap + of_nat k * gap \<le> xs ! k" by (simp add: algebra_simps)
    qed
    show "xs \<noteq> [] \<longrightarrow> lo + gap + of_nat (length xs - 1) * gap \<le> hi"
      using Cons.prems(2) by (cases xs) (auto simp: algebra_simps)
  qed
  have x: "lo \<le> x" using Cons.prems(1) [rule_format, of 0] by simp
  show ?case
  proof (intro allI impI)
    fix k assume k: "k < length (x # xs)"
    show "lo + of_nat k * gap \<le> pushed_up gap hi (x # xs) ! k"
    proof (cases k)
      case 0
      show ?thesis
      proof (cases "pushed_up gap hi xs")
        case Nil
        then have "xs = []" by (metis length_0_conv length_pushed_up)
        with x Cons.prems(2) 0 show ?thesis by simp
      next
        case (Cons y ys)
        then have "0 < length xs" by (metis length_greater_0_conv length_pushed_up list.distinct(1))
        with rest Cons have "lo + gap \<le> y" by (metis add.right_neutral mult_zero_left nth_Cons_0 of_nat_0)
        with x 0 Cons show ?thesis by (simp add: Let_def)
      qed
    next
      case (Suc j)
      with rest k show ?thesis by (simp add: Let_def algebra_simps)
    qed
  qed
qed simp


lemma spaced_apart:
  assumes "spaced gap xs" and "0 \<le> gap" and "k < l" and "l < length xs"
  shows "xs ! k + gap \<le> xs ! l"
  using assms(3,4)
proof (induction l)
  case (Suc l)
  have step: "xs ! l + gap \<le> xs ! Suc l" using assms(1) Suc.prems(2) by (simp add: spaced_def)
  show ?case
  proof (cases "k = l")
    case False
    with Suc have "xs ! k + gap \<le> xs ! l" by simp
    with step assms(2) show ?thesis by simp
  qed (use step in simp)
qed simp

lemma updates_nth:
  "distinct (map f zs) \<Longrightarrow> z \<in> set zs \<Longrightarrow> f z < length xs \<Longrightarrow> foldl (\<lambda>out z. out[f z := g z]) xs zs ! f z = g z"
proof (induction zs arbitrary: xs)
  case (Cons a zs)
  show ?case
  proof (cases "z \<in> set zs")
    case True
    with Cons show ?thesis by simp
  next
    case False
    have keep: "foldl (\<lambda>out z. out[f z := g z]) ys zs ! i = ys ! i" if "i \<notin> f ` set zs" for ys i
      using that by (induction zs arbitrary: ys) auto
    from False Cons.prems have "z = a" "f a \<notin> f ` set zs" by auto
    with Cons.prems(3) show ?thesis by (simp add: keep)
  qed
qed simp

lemma label_order_facts:
  "length (label_order ys) = length ys" "sorted (label_order ys)" "distinct (map snd (label_order ys))"
  "set (label_order ys) = {(ys ! i, i) | i. i < length ys}"
proof -
  show "length (label_order ys) = length ys" "sorted (label_order ys)" by (simp_all add: label_order_def)
  have "mset (map snd (label_order ys)) = mset (map snd (zip ys [0..<length ys]))"
    by (simp only: label_order_def mset_map mset_sort)
  then have "mset (map snd (label_order ys)) = mset [0..<length ys]" by (simp only: map_snd_zip length_upt diff_zero)
  then show "distinct (map snd (label_order ys))" by (metis distinct_upt mset_eq_imp_distinct_iff)
  show "set (label_order ys) = {(ys ! i, i) | i. i < length ys}"
    by (auto simp: label_order_def set_zip)
qed

definition placed_labels :: "rat list \<Rightarrow> rat \<Rightarrow> rat \<Rightarrow> rat \<Rightarrow> rat list" where
  "placed_labels ys gap lo hi =
     pushed_up gap hi (pushed_down gap (map (\<lambda>(y, i). min hi (max lo y)) (label_order ys)))"

lemma length_placed [simp]: "length (placed_labels ys gap lo hi) = length ys"
  by (simp add: placed_labels_def label_order_facts)

lemma spread_nth:
  assumes "k < length ys"
  shows "spreadLabels ys gap lo hi ! snd (label_order ys ! k) = placed_labels ys gap lo hi ! k"
proof -
  let ?zs = "zip (label_order ys) (placed_labels ys gap lo hi)"
  have spread: "spreadLabels ys gap lo hi = foldl (\<lambda>out z. out[snd (fst z) := snd z]) ys ?zs"
    unfolding spreadLabels_def placed_labels_def Let_def
    by (rule arg_cong [of _ _ "\<lambda>f. foldl f ys _"]) (auto simp: fun_eq_iff)
  have "map (\<lambda>z. snd (fst z)) ?zs = map snd (label_order ys)"
    using label_order_facts(1) [of ys] by (simp add: list_eq_iff_nth_eq)
  then have "distinct (map (\<lambda>z. snd (fst z)) ?zs)" using label_order_facts(3) by simp
  moreover have z: "?zs ! k = (label_order ys ! k, placed_labels ys gap lo hi ! k)"
    using assms label_order_facts(1) [of ys] by simp
  then have "(label_order ys ! k, placed_labels ys gap lo hi ! k) \<in> set ?zs"
    using assms label_order_facts(1) [of ys] by (metis length_placed length_zip min.idem nth_mem)
  moreover have "label_order ys ! k \<in> set (label_order ys)" using assms label_order_facts(1) [of ys] by simp
  then have "snd (label_order ys ! k) < length ys" using label_order_facts(4) [of ys] by auto
  ultimately show ?thesis
    using updates_nth [of "\<lambda>z. snd (fst z)" ?zs "(label_order ys ! k, placed_labels ys gap lo hi ! k)" ys snd]
    unfolding spread by simp
qed

lemma label_position:
  assumes "i < length ys"
  shows "\<exists>k<length ys. label_order ys ! k = (ys ! i, i)"
  using assms label_order_facts(1,4) [of ys] by (metis (mono_tags, lifting) in_set_conv_nth mem_Collect_eq)

lemma placed_bounds:
  assumes "0 \<le> gap" and "lo + of_nat (length ys - 1) * gap \<le> hi" and "k < length ys"
  shows "lo \<le> placed_labels ys gap lo hi ! k \<and> placed_labels ys gap lo hi ! k \<le> hi"
proof -
  define start where "start = map (\<lambda>(y, i). min hi (max lo y)) (label_order ys)"
  define down where "down = pushed_down gap start"
  have len: "length start = length ys" "length down = length ys" by (simp_all add: down_def start_def label_order_facts)
  have "0 \<le> of_nat (length ys - 1) * gap" using assms(1) by (intro mult_nonneg_nonneg) simp_all
  with assms(2) have "lo \<le> hi" by linarith
  then have "\<forall>x\<in>set start. lo \<le> x" by (auto simp: start_def)
  then have depth: "\<forall>k<length down. lo + of_nat k * gap \<le> down ! k"
    using pushed_down_depth [OF assms(1), of start lo] len by (metis down_def)
  have "lo + of_nat k * gap \<le> pushed_up gap hi down ! k"
    using pushed_up_depth [OF depth, of hi] assms(2,3) unfolding len by blast
  moreover have "0 \<le> of_nat k * gap" using assms(1) by (intro mult_nonneg_nonneg) simp_all
  ultimately have "lo \<le> pushed_up gap hi down ! k" by linarith
  moreover have "pushed_up gap hi down ! k \<in> set (pushed_up gap hi down)" using assms(3) len by (intro nth_mem) simp
  with pushed_up_upper [OF assms(1)] have "pushed_up gap hi down ! k \<le> hi" by blast
  ultimately show ?thesis by (simp only: placed_labels_def start_def [symmetric] down_def [symmetric])
qed

text \<open>
  Labels of a chart: where there is room for all of them, every label ends up within the chart,
  two labels are never closer than the gap, and a label stays above another one whose line ends lower
  (or equally high and comes later in the list).
\<close>

theorem labels_never_overlap:
  assumes "0 \<le> gap" and "lo + of_nat (length ys - 1) * gap \<le> hi"
  shows "length (spreadLabels ys gap lo hi) = length ys \<and>
    (\<forall>i<length ys. lo \<le> spreadLabels ys gap lo hi ! i \<and> spreadLabels ys gap lo hi ! i \<le> hi) \<and>
    (\<forall>i<length ys. \<forall>j<length ys. ys ! i < ys ! j \<or> ys ! i = ys ! j \<and> i < j \<longrightarrow>
      spreadLabels ys gap lo hi ! i + gap \<le> spreadLabels ys gap lo hi ! j)"
proof (intro conjI allI impI)
  have "length (foldl (\<lambda>out ((y, i), p). out[i := p]) xs zs) = length xs" for xs :: "rat list" and zs :: "((rat \<times> nat) \<times> rat) list"
    by (induction zs arbitrary: xs) auto
  then show "length (spreadLabels ys gap lo hi) = length ys" by (simp add: spreadLabels_def Let_def)
next
  fix i assume "i < length ys"
  then obtain k where k: "k < length ys" "label_order ys ! k = (ys ! i, i)" using label_position by blast
  with spread_nth [OF k(1), of gap lo hi] placed_bounds [OF assms k(1)]
  show "lo \<le> spreadLabels ys gap lo hi ! i" "spreadLabels ys gap lo hi ! i \<le> hi" by simp_all
next
  fix i j assume ij: "i < length ys" "j < length ys" "ys ! i < ys ! j \<or> ys ! i = ys ! j \<and> i < j"
  then obtain k l where k: "k < length ys" "label_order ys ! k = (ys ! i, i)"
    and l: "l < length ys" "label_order ys ! l = (ys ! j, j)" using label_position by metis
  have "label_order ys ! k < label_order ys ! l" using ij(3) k l by (auto simp: less_prod_def)
  then have "k < l"
    using sorted_nth_mono [OF label_order_facts(2), of l k ys] k(1) label_order_facts(1) [of ys] by fastforce
  have "placed_labels ys gap lo hi ! k + gap \<le> placed_labels ys gap lo hi ! l"
    using spaced_apart [OF _ assms(1) \<open>k < l\<close>, of "placed_labels ys gap lo hi"] pushed_up_spaced l(1)
    by (simp add: placed_labels_def label_order_facts)
  with spread_nth [OF k(1), of gap lo hi] spread_nth [OF l(1), of gap lo hi] k(2) l(2)
  show "spreadLabels ys gap lo hi ! i + gap \<le> spreadLabels ys gap lo hi ! j" by simp
qed

theorem labels_never_overlap_witness:
  "spreadLabels [50, 90, 52, 95] 10 0 100 = [50, 90, 60, 100] \<and>
   (\<forall>i<4. 0 \<le> spreadLabels [50, 90, 52, 95] 10 0 100 ! i \<and> spreadLabels [50, 90, 52, 95] 10 0 100 ! i \<le> 100)"
proof -
  have "spreadLabels [50, 90, 52, 95] 10 0 100 = [50, 90, 60, 100]" by code_simp
  with labels_never_overlap [of 10 0 "[50, 90, 52, 95]" 100] show ?thesis by simp
qed

section \<open>Lemmas: activity\<close>

lemma bump_sum:
  fixes h :: "engagement \<Rightarrow> 'a::comm_monoid_add"
  assumes "\<And>a b. h (add_engagement a b) = h a + h b" and "h no_engagement = 0"
  shows "sum_list (map h (map snd (bump u p m))) = sum_list (map h (map snd m)) + h p"
proof (induction m)
  case Nil
  then show ?case by (simp add: bump_def orelse_def assms)
next
  case (Cons x m)
  obtain k v where x: "x = (k, v)" by (cases x)
  show ?case
  proof (cases "k = u")
    case True
    then show ?thesis by (simp add: x bump_def orelse_def assms(1) ac_simps)
  next
    case False
    then have "bump u p (x # m) = x # bump u p m" by (simp add: x bump_def)
    with Cons show ?thesis by (simp add: ac_simps)
  qed
qed

lemma total_sum:
  fixes h :: "engagement \<Rightarrow> 'a::comm_monoid_add"
  assumes "\<And>a b. h (add_engagement a b) = h a + h b" and "h no_engagement = 0"
  shows "h (foldl add_engagement no_engagement es) = sum_list (map h es)"
proof -
  have "h (foldl add_engagement a es) = h a + sum_list (map h es)" for a
    by (induction es arbitrary: a) (simp_all add: assms(1) ac_simps)
  then show ?thesis by (simp add: assms(2))
qed

lemma counted_activity:
  fixes h :: "engagement \<Rightarrow> 'a::comm_monoid_add"
  assumes h: "\<And>a b. h (add_engagement a b) = h a + h b" "h no_engagement = 0"
  shows "h (eg_totals (engagementSummary s)) =
    sum_list (map (\<lambda>m. h (no_engagement\<lparr>en_messages := 1\<rparr>)) (filter (\<lambda>m. \<not> isServiceUser (ms_senderId m)) (se_messages s))) +
    sum_list (map (\<lambda>e. case event_patch e of None \<Rightarrow> 0 | Some p \<Rightarrow> h p) (se_behavioralEvents s))"
proof -
  have senders: "sum_list (map h (map snd (foldl count_sender acc ms))) = sum_list (map h (map snd acc)) +
      sum_list (map (\<lambda>m. h (no_engagement\<lparr>en_messages := 1\<rparr>)) (filter (\<lambda>m. \<not> isServiceUser (ms_senderId m)) ms))" for acc ms
  proof (induction ms arbitrary: acc)
    case (Cons m ms)
    have "sum_list (map h (map snd (count_sender acc m))) = sum_list (map h (map snd acc)) +
        (if isServiceUser (ms_senderId m) then 0 else h (no_engagement\<lparr>en_messages := 1\<rparr>))"
      by (simp add: count_sender_def bump_sum [of h, OF h, simplified])
    with Cons.IH [of "count_sender acc m"] show ?case by (simp add: ac_simps)
  qed simp
  have events: "sum_list (map h (map snd (foldl count_event acc es))) = sum_list (map h (map snd acc)) +
      sum_list (map (\<lambda>e. case event_patch e of None \<Rightarrow> 0 | Some p \<Rightarrow> h p) es)" for acc es
  proof (induction es arbitrary: acc)
    case (Cons e es)
    have "sum_list (map h (map snd (count_event acc e))) =
        sum_list (map h (map snd acc)) + (case event_patch e of None \<Rightarrow> 0 | Some p \<Rightarrow> h p)"
      by (simp add: count_event_def bump_sum [of h, OF h, simplified] split: option.split)
    with Cons.IH [of "count_event acc e"] show ?case by (simp add: ac_simps)
  qed simp
  show ?thesis
    using total_sum [of h, OF h] by (simp add: engagementSummary_def Let_def senders [simplified] events [simplified])
qed

text \<open>
  The activity shown for a session accounts for everything: the totals over the participants are
  the number of their messages, the time of all typing pauses, and the numbers of hidden tabs and of
  moves in the ranking; messages of participants and of services together are all messages.
\<close>

theorem activity_accounts_for_all:
  "en_messages (eg_totals (engagementSummary s)) + eg_botMessages (engagementSummary s) = length (se_messages s) \<and>
   en_typingMs (eg_totals (engagementSummary s)) =
     sum_list (map (\<lambda>e. orelse (be_durationMs e) 0) (filter (\<lambda>e. be_type e = Bt_Typing_Stop) (se_behavioralEvents s))) \<and>
   en_tabHidden (eg_totals (engagementSummary s)) =
     length (filter (\<lambda>e. be_type e = Bt_Tab_Hidden) (se_behavioralEvents s)) \<and>
   en_rankingMoves (eg_totals (engagementSummary s)) =
     length (filter (\<lambda>e. be_type e = Bt_Ranking_Move) (se_behavioralEvents s))"
proof (intro conjI)
  note counted = counted_activity [of _ s, OF _ _]
  let ?es = "se_behavioralEvents s"
  have ones: "sum_list (map (\<lambda>e. case event_patch e of None \<Rightarrow> 0 | Some p \<Rightarrow> en_messages p) es) = 0" for es
    by (induction es) (auto simp: event_patch_def no_engagement_def split: behavior_type.split)
  have "en_messages (eg_totals (engagementSummary s)) = length (filter (\<lambda>m. \<not> isServiceUser (ms_senderId m)) (se_messages s))"
    using counted [of en_messages] ones [of ?es] by (simp add: add_engagement_def no_engagement_def sum_list_triv)
  with sum_length_filter_compl [of "\<lambda>m. isServiceUser (ms_senderId m)" "se_messages s"]
  show "en_messages (eg_totals (engagementSummary s)) + eg_botMessages (engagementSummary s) = length (se_messages s)"
    by (simp add: engagementSummary_def Let_def)
  have "sum_list (map (\<lambda>e. case event_patch e of None \<Rightarrow> 0 | Some p \<Rightarrow> en_typingMs p) es) =
      sum_list (map (\<lambda>e. orelse (be_durationMs e) 0) (filter (\<lambda>e. be_type e = Bt_Typing_Stop) es))" for es
    by (induction es) (auto simp: event_patch_def no_engagement_def split: behavior_type.split)
  then show "en_typingMs (eg_totals (engagementSummary s)) =
     sum_list (map (\<lambda>e. orelse (be_durationMs e) 0) (filter (\<lambda>e. be_type e = Bt_Typing_Stop) ?es))"
    using counted [of en_typingMs] by (simp add: add_engagement_def no_engagement_def)
  have "sum_list (map (\<lambda>e. case event_patch e of None \<Rightarrow> 0 | Some p \<Rightarrow> en_tabHidden p) es) =
      length (filter (\<lambda>e. be_type e = Bt_Tab_Hidden) es)" for es
    by (induction es) (auto simp: event_patch_def no_engagement_def split: behavior_type.split)
  then show "en_tabHidden (eg_totals (engagementSummary s)) = length (filter (\<lambda>e. be_type e = Bt_Tab_Hidden) ?es)"
    using counted [of en_tabHidden] by (simp add: add_engagement_def no_engagement_def)
  have "sum_list (map (\<lambda>e. case event_patch e of None \<Rightarrow> 0 | Some p \<Rightarrow> en_rankingMoves p) es) =
      length (filter (\<lambda>e. be_type e = Bt_Ranking_Move) es)" for es
    by (induction es) (auto simp: event_patch_def no_engagement_def split: behavior_type.split)
  then show "en_rankingMoves (eg_totals (engagementSummary s)) = length (filter (\<lambda>e. be_type e = Bt_Ranking_Move) ?es)"
    using counted [of en_rankingMoves] by (simp add: add_engagement_def no_engagement_def)
qed

section \<open>Lemmas: before and after\<close>

text \<open>
  Everybody of the split a nudge was decided on has exactly one row, provided those the nudge names are
  different members of that split.
\<close>

lemma comparison_lists_everyone:
  assumes "distinct (map cs_userId (il_contributionSplit entry))"
    and "distinct (map it_userId (il_targets entry @ il_quietMembers entry))"
    and "set (map it_userId (il_targets entry @ il_quietMembers entry)) \<subseteq> set (map cs_userId (il_contributionSplit entry))"
  shows "mset (map cr_userId (nc_rows (nudge_comparison_of now s entry))) = mset (map cs_userId (il_contributionSplit entry))"
proof -
  let ?named = "map it_userId (il_targets entry @ il_quietMembers entry)"
  let ?split = "map cs_userId (il_contributionSplit entry)"
  have rows: "map cr_userId (nc_rows (nudge_comparison_of now s entry)) =
      map it_userId (il_targets entry) @ map cs_userId (unaddressed_of entry) @ map it_userId (il_quietMembers entry)"
    by (simp add: nudge_comparison_of_def Let_def comparison_row_of_def o_def)
  have rest: "mset (map cs_userId (unaddressed_of entry)) = mset (filter (\<lambda>u. u \<notin> set ?named) ?split)"
    by (simp add: unaddressed_of_def filter_map o_def del: map_append set_map)
  have "set (filter (\<lambda>u. u \<in> set ?named) ?split) = set ?named" using assms(3) by auto
  then have named: "mset (filter (\<lambda>u. u \<in> set ?named) ?split) = mset ?named"
    using assms(1,2) set_eq_iff_mset_eq_distinct distinct_filter by blast
  have "mset xs = mset (filter P xs) + mset (filter (\<lambda>u. \<not> P u) xs)" for P and xs :: "string list"
    by (induction xs) auto
  from this [of ?split "\<lambda>u. u \<in> set ?named"] show ?thesis unfolding rows named rest [symmetric] by simp
qed

text \<open>Message shares are a distribution as soon as somebody wrote.\<close>

lemma message_shares_sum:
  assumes "distinct (map fst counts)" and "0 < sum_list (map snd counts)"
  shows "sum_list (map (ce_share \<circ> snd) (messageShareCells counts)) = 1"
proof -
  let ?total = "sum_list (map snd counts)"
  have fresh: "object_assign m xs = m @ xs" if "distinct (map fst (m @ xs))" for m xs :: "(string \<times> comparison_cell) list"
    using that
  proof (induction xs arbitrary: m)
    case (Cons x xs)
    then have "om_set (fst x) (snd x) m = m @ [x]" by (simp add: om_set_fresh)
    with Cons.IH [of "m @ [x]"] Cons.prems show ?case by (simp add: object_assign_def case_prod_beta)
  qed (simp add: object_assign_def)
  have "sum_list (map (\<lambda>x. (of_nat (snd x) :: rat) / t) cs) = of_nat (sum_list (map snd cs)) / t"
    for t and cs :: "(string \<times> nat) list"
    by (induction cs) (auto simp: add_divide_distrib)
  then have "sum_list (map (\<lambda>x. (of_nat (snd x) :: rat) / of_nat ?total) counts) = 1"
    using assms(2) by (metis divide_self less_irrefl of_nat_eq_0_iff)
  moreover have "messageShareCells counts = map (\<lambda>(userId, n). (userId,
      \<lparr>ce_share = of_nat n / of_nat ?total, ce_messageCount = n\<rparr>)) counts"
    using assms by (simp add: messageShareCells_def Let_def fresh [of "[]"] o_def case_prod_beta)
  ultimately show ?thesis by (simp add: o_def case_prod_beta)
qed

end
