(* ===== verification/Spec2Isabelle.thy ===== *)
theory Spec2Isabelle
  imports Chat_Service Prolific_Actions Recruitment Room_Provisioning Prolific_Verification
    Session_Lifecycle Research_Bundles Api_Access Session_Detail
begin

text \<open>
  A verification development of the group decision-making study platform: groups of recruited
  participants chat in a Matrix room and rank items together while a bot watches the conversation
  and, depending on the condition, nudges whoever dominates it.

  Parts and their interaction. The Session Manager (src/backend/session-manager) admits
  participants, groups them into sessions, keeps the durable record and settles the Prolific
  outcome of everyone. Once a group is complete it hands the session to the Chat Service
  (src/backend/chat-service), which follows the room's events, classifies messages, evaluates
  contribution windows, posts nudges and sends the Session Manager checkpoints of the live state
  until it finalises the session. Types and text rules both sides share are in
  src/packages/shared.

  Theories, by the code they model.

  Shared ground. \<open>Prelude\<close>: numbers, instants, insertion-ordered maps, stable sorting, and the
  interfaces \<open>stepper\<close> (a step function with an invariant), \<open>monotone_stepper\<close> (under which an
  order of states is never left) and \<open>keyed_merge\<close> (a merge of keyed records). \<open>Shared_Text\<close>
  (shared text.ts, identity.ts): word counts, clock texts, anonymous identities. \<open>Interventions\<close>
  (interventions.ts): configurations, their defaults, window records. \<open>Study_Models\<close> (models.ts,
  dto.ts, tasks.ts): the records the services exchange.

  Both services. \<open>Matrix_Transport\<close> (shared/server/index.ts, chat-service/matrix/matrix-bot.service.ts,
  session-manager/matrix/matrix.service.ts): bounded retries, the token between the services, the
  history of a room, the stream of events, the orchestrator's account and rooms.

  Chat Service. \<open>Session_Runtime\<close> (sessions/session-runtime.ts): the recorded state of a live
  session, one definition per recording operation, the claim on a window boundary, checkpoint and
  restore. \<open>Bot_Rules\<close> and \<open>Window_Rules\<close> (rules/bot-rules.ts): the contribution split, the
  choice of a target, the decision at a window's end, and what they guarantee. \<open>Classifier\<close>
  (anthropic/*.ts, classifier/*.ts) and \<open>Nudge_Generator\<close> (nudge/*.ts): prompts, validation of
  replies, fallbacks; each is the provider of a locale that states what the rules rely on
  (\<open>contribution_classifier\<close>, \<open>message_generator\<close>). \<open>Chat_Service\<close> (sessions/sessions.service.ts):
  the service's maps and handlers as atomic steps, with the events, ticks and replies of every
  room interleaved.

  Session Manager, the store. \<open>Checkpoint_Merge\<close> (store/checkpoint-merge.ts,
  window-evaluations.ts): the in-memory merge of a checkpoint. \<open>Session_Rows\<close> (store/row-mappers.ts,
  prisma-values.ts): tables and the aggregate read from them. \<open>Runtime_Checkpoint\<close>
  (store/runtime-checkpoint.ts, session-snapshot.ts): the transaction that writes a checkpoint, and
  that it refines the merge. \<open>Conditions\<close> (store/conditions.ts): normalisation, seeds and rows of
  conditions. \<open>Forming_Session\<close> (store/forming-session.ts, waiting-timeout.ts): a new lobby and its
  shuffle. \<open>Session_Store\<close> and \<open>Store_Refinement\<close> (store/store.service.ts): the operations on
  sessions over the tables and in memory, and the simulation between the two. \<open>Rounds\<close> and
  \<open>Study_Store\<close> (the rest of store.service.ts): study rounds with concurrent calls, conditions,
  settings, forming sessions. \<open>Participation\<close> (store/participation*.ts): the journey of a submission
  to its one outcome, over tables and in memory.

  Session Manager, the services. \<open>Request_Validation\<close> (validation/request-validation.ts): the checks
  of every request body. \<open>Prolific_Verification\<close> (sessions/prolific-verification.ts): the lookup of
  a submission and its cache. \<open>Matchmaking\<close> and \<open>Recruitment\<close> (sessions/sessions.service.ts): how
  a participant gets a seat, one step per decision of the store, among everything outside the
  queue of reservations. \<open>Room_Provisioning\<close> (sessions/room-provisioning.ts): the room of a full
  group, one step per awaited call. \<open>Group_Ending\<close> (sessions/sessions.service.ts): sweeps,
  withdrawals, silent participants. \<open>Session_Lifecycle\<close> (sessions.service.ts, public-session.ts):
  questionnaires, completion, queued checkpoints, finalisation, recovery. \<open>Study_Outcomes\<close>
  (compensation.ts, participation-outcomes.ts): what an ending pays and tells. \<open>Prolific_Actions\<close>
  (prolific/prolific-actions.service.ts): returns and bonus payments. \<open>Etherpad_Models\<close>
  (shared/etherpad.ts) and \<open>Etherpad_Service\<close> (etherpad/etherpad.service.ts): the writing tasks, their
  pads and the rounds that capture them. \<open>Api_Access\<close> (auth/*.ts, sessions.controller.ts,
  rounds.controller.ts, etherpad.controller.ts): the guards and the routes that read their request or
  write the study, composed of guard, check and service.

  Session Manager, the exports. \<open>Session_Exports\<close> (sessions/session-exports.ts): the identifying
  tables. \<open>Research_Values\<close> (reports/csv.ts, scoring.ts, equality.ts, filter.ts, pseudonym.ts,
  report-values.ts), \<open>Research_Rows\<close> (reports/*-rows.ts) and \<open>Research_Bundles\<close> (results-rows.ts,
  linkage.ts, etherpad-rows.ts, reports.service.ts): the pseudonymous tables, their measures and the
  queue that builds bundles of them.

  Admin dashboard. \<open>Session_Detail\<close> (frontend/admin-dashboard/src/session-detail.ts): what the
  inspector of a session shows, computed from the session.

  What the lemmas show. Every component has an invariant and a lemma per operation that keeps it,
  collected into the interpretation of a stepper where operations interleave; safety properties
  follow for every sequence of operations. Checkpoints: nothing recorded is lost, redelivery and
  stale revisions change nothing, tables and memory agree, a session's checkpoints are saved in
  order. Windows: at most one record per window, a nudge only with a target over the threshold.
  Seats: no group is overfull, no condition exceeds its goal, no one sits twice, over every
  interleaving. Rooms: only a ready room is published and it is never replaced. Rounds: at most
  one is open. Participation: outcomes are final, memory refines the tables. Actions: a submission
  is paid at most once while claims do not race. Admission: only what the Prolific API confirmed.
  Exports: every table reads back with a cell per column, every message is accounted for, scores
  and coefficients stay within their bounds. Transport: the stream and the history of a room lose and
  repeat nothing through failing requests. Writing tasks: a captured text is final, a task keeps its
  pad, the server stops only when all is captured. Access: a participant's requests write only rows of
  seats opened with its token. Inspector: labels never overlap, tables and totals leave nobody and
  nothing out. Where the code admits a race, a theorem exhibits it.

  Conventions. Numbers are exact rationals; a number that arrives from outside and may be NaN or
  infinite is a \<open>jsnum\<close>. Strings are lists of code units below 256. A timestamp is a \<open>stamp\<close>, an
  ISO string with the instant Date.parse reads from it. An optional collection all readers default
  to the empty list is a list. What comes from outside (clock, random identifiers, JSON parsing,
  replies of other services) is an argument; a missing reply is a call that never returns. A
  thrown error is a value (\<open>Inl\<close> or \<open>None\<close>). A table is a list of rows in insertion order, a
  transaction one atomic function, an insert that skips duplicates \<open>push_new\<close>. An asynchronous
  handler is split at its suspension points into atomic steps, and an interleaving is a sequence
  of steps. No fuel is used: every recursion terminates by structure or by a measure.

  Not modelled. Framework wiring (NestJS modules, throttling, Prisma client), routes that only pass
  their arguments on, single requests without logic (joining, sending, redacting, Etherpad's HTTP),
  React components and load-test scripts: input and output without logic of the study.
\<close>

end
